(* ===== verification/Prelude.thy ===== *)
theory Prelude
  imports Main "HOL-Library.Multiset" "HOL-Library.Char_ord" "HOL-Library.List_Lexorder" "HOL-Library.Option_ord"
begin

text \<open>
  Shared vocabulary of the development: results of code that may throw, the nullish operator, the
  insertion-ordered \<open>Map\<close> and \<open>Set\<close> of the JavaScript runtime, and its stable \<open>Array.sort\<close>.
  The interface of an ordered map is the locale \<open>ordered_map\<close>; the contract a sort comparator
  has to meet is the locale \<open>comparator\<close>.  A JavaScript string is a \<open>string\<close> here: one \<open>char\<close>
  is one UTF-16 code unit, so the model covers strings over the code units 0 to 255.
\<close>

named_theorems jsmap_simps "reads of an ordered map after a write"
named_theorems frame_simps "fields an operation leaves unchanged"
named_theorems inv_intros "preservation of an invariant by an operation"

section \<open>Values and errors\<close>

text \<open>A thrown error is \<open>Inl\<close> of its message.\<close>

type_synonym 'a result = "string + 'a"

text \<open>\<open>a ?? b\<close>, with \<open>None\<close> for both \<open>null\<close> and \<open>undefined\<close>.\<close>

definition nullish :: "'a option \<Rightarrow> 'a option \<Rightarrow> 'a option" where
  "nullish a b = (case a of Some x \<Rightarrow> Some x | None \<Rightarrow> b)"

lemma nullish_simps [simp]:
  "nullish (Some x) b = Some x"
  "nullish None b = b"
  "nullish a None = a"
  by (simp_all add: nullish_def split: option.split)

lemma nullish_eq_None [simp]: "nullish a b = None \<longleftrightarrow> a = None \<and> b = None"
  by (cases a) auto

lemma nullish_assoc: "nullish (nullish a b) c = nullish a (nullish b c)"
  by (cases a) auto

definition or_else :: "'a option \<Rightarrow> 'a \<Rightarrow> 'a" where
  "or_else a d = (case a of Some x \<Rightarrow> x | None \<Rightarrow> d)"

lemma or_else_simps [simp]: "or_else (Some x) d = x" "or_else None d = d"
  by (simp_all add: or_else_def)

text \<open>Sequencing of code that may throw, and loops whose body may throw.\<close>

definition rbind :: "'a result \<Rightarrow> ('a \<Rightarrow> 'b result) \<Rightarrow> 'b result" where
  "rbind r f = (case r of Inl e \<Rightarrow> Inl e | Inr x \<Rightarrow> f x)"

lemma rbind_simps [simp]: "rbind (Inl e) f = Inl e" "rbind (Inr x) f = f x"
  by (simp_all add: rbind_def)

lemma rbind_eq_Inr [simp]: "rbind r f = Inr y \<longleftrightarrow> (\<exists>x. r = Inr x \<and> f x = Inr y)"
  by (cases r) auto

lemma rbind_eq_Inl: "rbind r f = Inl e \<longleftrightarrow> r = Inl e \<or> (\<exists>x. r = Inr x \<and> f x = Inl e)"
  by (cases r) auto

fun foldM :: "('x \<Rightarrow> 's \<Rightarrow> 's result) \<Rightarrow> 'x list \<Rightarrow> 's \<Rightarrow> 's result" where
  "foldM f [] s = Inr s"
| "foldM f (x # xs) s = rbind (f x s) (foldM f xs)"

lemma foldM_append: "foldM f (xs @ ys) s = rbind (foldM f xs s) (foldM f ys)"
proof (induction xs arbitrary: s)
  case (Cons x xs)
  then show ?case by (cases "f x s") auto
qed simp

fun mapM :: "('x \<Rightarrow> 'y result) \<Rightarrow> 'x list \<Rightarrow> 'y list result" where
  "mapM f [] = Inr []"
| "mapM f (x # xs) = rbind (f x) (\<lambda>y. rbind (mapM f xs) (\<lambda>ys. Inr (y # ys)))"

lemma mapM_Inr_iff: "mapM f xs = Inr ys \<longleftrightarrow> list_all2 (\<lambda>x y. f x = Inr y) xs ys"
proof (induction xs arbitrary: ys)
  case Nil
  then show ?case by auto
next
  case (Cons x xs)
  then show ?case by (auto simp: list_all2_Cons1)
qed

lemma mapM_total: "(\<And>x. x \<in> set xs \<Longrightarrow> f x = Inr (g x)) \<Longrightarrow> mapM f xs = Inr (map g xs)"
  by (induction xs) auto

section \<open>Search from the end, first occurrences\<close>

definition find_last :: "('a \<Rightarrow> bool) \<Rightarrow> 'a list \<Rightarrow> 'a option" where
  "find_last P xs = List.find P (rev xs)"

lemma find_append: "List.find P (xs @ ys) = (case List.find P xs of Some x \<Rightarrow> Some x | None \<Rightarrow> List.find P ys)"
  by (induction xs) auto

lemma find_last_simps [simp]:
  "find_last P [] = None"
  "find_last P (xs @ [x]) = (if P x then Some x else find_last P xs)"
  by (simp_all add: find_last_def)

lemma find_last_Cons:
  "find_last P (x # xs) = nullish (find_last P xs) (if P x then Some x else None)"
  by (auto simp: find_last_def find_append split: option.split)

lemma find_last_Some_iff_ex: "find_last P xs \<noteq> None \<longleftrightarrow> (\<exists>x\<in>set xs. P x)"
  by (auto simp: find_last_def find_None_iff)

lemma find_last_SomeD: "find_last P xs = Some x \<Longrightarrow> x \<in> set xs \<and> P x"
  by (induction xs) (auto simp: find_last_Cons nullish_def split: option.splits if_splits)

text \<open>\<open>[...new Set(xs)]\<close>: each value once, at the place of its first occurrence.\<close>

fun js_set_of :: "'a list \<Rightarrow> 'a list" where
  "js_set_of [] = []"
| "js_set_of (x # xs) = x # filter (\<lambda>y. y \<noteq> x) (js_set_of xs)"

lemma set_js_set_of [simp]: "set (js_set_of xs) = set xs"
  by (induction xs) auto

lemma distinct_js_set_of [simp]: "distinct (js_set_of xs)"
  by (induction xs) auto

lemma js_set_of_distinct: "distinct xs \<Longrightarrow> js_set_of xs = xs"
  by (induction xs) (auto intro!: filter_True)

lemma js_set_of_snoc: "js_set_of (xs @ [x]) = (if x \<in> set xs then js_set_of xs else js_set_of xs @ [x])"
  by (induction xs) auto

section \<open>The insertion-ordered map\<close>

text \<open>
  A JavaScript \<open>Map\<close> keeps its entries in the order in which their keys were first inserted;
  setting a present key replaces its value in place.
\<close>

type_synonym ('k, 'v) jsmap = "('k \<times> 'v) list"

abbreviation jm_empty :: "('k, 'v) jsmap" where "jm_empty \<equiv> []"

definition jm_get :: "('k, 'v) jsmap \<Rightarrow> 'k \<Rightarrow> 'v option" where
  "jm_get m k = map_of m k"

fun jm_set :: "'k \<Rightarrow> 'v \<Rightarrow> ('k, 'v) jsmap \<Rightarrow> ('k, 'v) jsmap" where
  "jm_set k v [] = [(k, v)]"
| "jm_set k v ((k', v') # m) = (if k' = k then (k, v) # m else (k', v') # jm_set k v m)"

definition jm_has :: "('k, 'v) jsmap \<Rightarrow> 'k \<Rightarrow> bool" where
  "jm_has m k = (jm_get m k \<noteq> None)"

definition jm_keys :: "('k, 'v) jsmap \<Rightarrow> 'k list" where
  "jm_keys m = map fst m"

definition jm_values :: "('k, 'v) jsmap \<Rightarrow> 'v list" where
  "jm_values m = map snd m"

definition jm_delete :: "'k \<Rightarrow> ('k, 'v) jsmap \<Rightarrow> ('k, 'v) jsmap" where
  "jm_delete k m = filter (\<lambda>e. fst e \<noteq> k) m"

lemma jm_get_empty [jsmap_simps]: "jm_get [] k = None"
  by (simp add: jm_get_def)

lemma jm_get_set [jsmap_simps]: "jm_get (jm_set k v m) k' = (if k' = k then Some v else jm_get m k')"
  unfolding jm_get_def by (induction m) auto

lemma jm_keys_set [jsmap_simps]:
  "jm_keys (jm_set k v m) = (if k \<in> set (jm_keys m) then jm_keys m else jm_keys m @ [k])"
proof (induction m)
  case Nil
  then show ?case by (simp add: jm_keys_def)
next
  case (Cons e m)
  then show ?case by (cases e) (auto simp: jm_keys_def)
qed

lemma jm_get_None_iff: "jm_get m k = None \<longleftrightarrow> k \<notin> set (jm_keys m)"
  by (simp add: jm_get_def jm_keys_def map_of_eq_None_iff)

lemma jm_keys_empty [jsmap_simps]: "jm_keys [] = []"
  by (simp add: jm_keys_def)

lemma jm_values_get:
  "distinct (jm_keys m) \<Longrightarrow> set (jm_values m) = {v. \<exists>k. jm_get m k = Some v}"
proof -
  assume d: "distinct (jm_keys m)"
  have "set (jm_values m) = snd ` set m"
    by (simp add: jm_values_def)
  also have "\<dots> = {v. \<exists>k. map_of m k = Some v}"
    using d by (force simp: jm_keys_def)
  finally show ?thesis by (simp add: jm_get_def)
qed

lemma jm_values_keys:
  "distinct (jm_keys m) \<Longrightarrow> map Some (jm_values m) = map (jm_get m) (jm_keys m)"
  unfolding jm_values_def jm_keys_def jm_get_def
  by (auto intro!: map_cong)

lemma jm_get_delete [jsmap_simps]: "jm_get (jm_delete k m) k' = (if k' = k then None else jm_get m k')"
  unfolding jm_get_def jm_delete_def by (induction m) auto

lemma jm_keys_delete [jsmap_simps]: "jm_keys (jm_delete k m) = filter (\<lambda>x. x \<noteq> k) (jm_keys m)"
  unfolding jm_keys_def jm_delete_def by (induction m) auto

lemma jm_get_Some_value: "jm_get m k = Some v \<Longrightarrow> v \<in> set (jm_values m)"
  by (auto simp: jm_get_def jm_values_def dest: map_of_SomeD intro: rev_image_eqI)

lemma jm_values_set:
  "set (jm_values (jm_set k v m)) \<subseteq> insert v (set (jm_values m))"
proof (induction m)
  case Nil
  then show ?case by (simp add: jm_values_def)
next
  case (Cons e m)
  then show ?case by (cases e) (auto simp: jm_values_def)
qed

lemma jm_set_absent: "k \<notin> set (jm_keys m) \<Longrightarrow> jm_set k v m = m @ [(k, v)]"
proof (induction m)
  case (Cons e m)
  then show ?case by (cases e) (auto simp: jm_keys_def)
qed simp

lemma set_jm_set:
  "distinct (jm_keys m) \<Longrightarrow> set (jm_set k v m) = insert (k, v) {e \<in> set m. fst e \<noteq> k}"
proof (induction m)
  case (Cons e m)
  then show ?case by (cases e) (auto simp: jm_keys_def)
qed simp

text \<open>Replacing the value of a present key by one with the same projection changes no projection.\<close>

lemma jm_values_set_same:
  "jm_get m k = Some r0 \<Longrightarrow> f r = f r0 \<Longrightarrow> map f (jm_values (jm_set k r m)) = map f (jm_values m)"
proof (induction m)
  case (Cons e m)
  then show ?case by (cases e) (auto simp: jm_get_def jm_values_def split: if_splits)
qed (simp add: jm_get_def)

lemma jm_get_Some_mem: "jm_get m k = Some v \<Longrightarrow> (k, v) \<in> set m"
  by (simp add: jm_get_def map_of_SomeD)

lemma jm_get_Some_key: "jm_get m k = Some v \<Longrightarrow> k \<in> set (jm_keys m)"
  using jm_get_None_iff [of m k] by auto

lemma jm_get_mem: "distinct (jm_keys m) \<Longrightarrow> (k, v) \<in> set m \<Longrightarrow> jm_get m k = Some v"
  by (simp add: jm_get_def jm_keys_def)

lemma jm_has_iff: "jm_has m k \<longleftrightarrow> k \<in> set (jm_keys m)"
  using jm_get_None_iff [of m k] by (auto simp: jm_has_def)

lemma set_jm_keys_set [simp]: "set (jm_keys (jm_set k v m)) = insert k (set (jm_keys m))"
  by (auto simp: jm_keys_set)

lemma distinct_jm_keys_set [simp]: "distinct (jm_keys (jm_set k v m)) = distinct (jm_keys m)"
  by (simp add: jm_keys_set)

text \<open>
  The interface: reads after writes, and the order of the keys.  What a batch of writes leaves
  behind is proved once from these laws.
\<close>

locale ordered_map =
  fixes emp :: "'m"
    and get :: "'m \<Rightarrow> 'k \<Rightarrow> 'v option"
    and put :: "'k \<Rightarrow> 'v \<Rightarrow> 'm \<Rightarrow> 'm"
    and keys :: "'m \<Rightarrow> 'k list"
  assumes keys_emp: "keys emp = []"
    and get_None: "get m k = None \<longleftrightarrow> k \<notin> set (keys m)"
    and get_put: "get (put k v m) k' = (if k' = k then Some v else get m k')"
    and keys_put: "keys (put k v m) = (if k \<in> set (keys m) then keys m else keys m @ [k])"
begin

lemma get_emp: "get emp k = None"
  by (simp add: get_None keys_emp)

lemma distinct_put: "distinct (keys m) \<Longrightarrow> distinct (keys (put k v m))"
  by (simp add: keys_put)

text \<open>A loop that overwrites: for each key the last element that carries it wins.\<close>

lemma get_fold_put:
  "get (fold (\<lambda>x. put (kf x) (vf x)) xs m) k
     = nullish (map_option vf (find_last (\<lambda>x. kf x = k) xs)) (get m k)"
  by (induction xs arbitrary: m) (auto simp: get_put find_last_Cons nullish_def split: option.split)

lemma distinct_fold_put:
  "distinct (keys m) \<Longrightarrow> distinct (keys (fold (\<lambda>x. put (kf x) (vf x)) xs m))"
  by (induction xs arbitrary: m) (auto simp: distinct_put)

lemma set_keys_fold_put:
  "set (keys (fold (\<lambda>x. put (kf x) (vf x)) xs m)) = set (keys m) \<union> kf ` set xs"
  by (induction xs arbitrary: m) (auto simp: keys_put)

text \<open>The keys stand in the order in which the loop first met them.\<close>

lemma keys_fold_put_emp:
  "keys (fold (\<lambda>x. put (kf x) (vf x)) xs emp) = js_set_of (map kf xs)"
proof (induction xs rule: rev_induct)
  case Nil
  then show ?case by (simp add: keys_emp)
next
  case (snoc x xs)
  then show ?case by (auto simp: keys_put js_set_of_snoc)
qed

text \<open>A loop that writes only absent keys: the first element that carries a key wins.\<close>

lemma get_fold_put_absent:
  "get (fold (\<lambda>x m. if get m (kf x) = None then put (kf x) (vf x) m else m) xs m) k
     = nullish (get m k) (map_option vf (List.find (\<lambda>x. kf x = k) xs))"
  by (induction xs arbitrary: m) (auto simp: get_put nullish_def split: option.split)

lemma distinct_fold_put_absent:
  "distinct (keys m) \<Longrightarrow>
   distinct (keys (fold (\<lambda>x m. if get m (kf x) = None then put (kf x) (vf x) m else m) xs m))"
  by (induction xs arbitrary: m) (auto simp: distinct_put)

end

interpretation jsm: ordered_map "[]" jm_get jm_set jm_keys
  by unfold_locales (simp_all add: jsmap_simps jm_get_None_iff)

lemma jm_fold_values_last:
  "set (jm_values (fold (\<lambda>x. jm_set (kf x) x) xs [])) = {x. \<exists>k. find_last (\<lambda>y. kf y = k) xs = Some x}"
proof -
  have "distinct (jm_keys (fold (\<lambda>x. jm_set (kf x) x) xs []))"
    by (rule jsm.distinct_fold_put) (simp add: jsmap_simps)
  then show ?thesis
    by (simp add: jm_values_get jsm.get_fold_put jsmap_simps)
qed


section \<open>The stable sort\<close>

text \<open>
  \<open>Array.prototype.sort\<close> is stable.  A comparator returns a negative, zero or positive number;
  here the sign is an integer.  For a comparator that meets the contract \<open>comparator\<close> every
  stable sort returns the same list, so insertion sort stands for the runtime's.
\<close>

fun ins_by :: "('a \<Rightarrow> 'a \<Rightarrow> int) \<Rightarrow> 'a \<Rightarrow> 'a list \<Rightarrow> 'a list" where
  "ins_by cmp x [] = [x]"
| "ins_by cmp x (y # ys) = (if cmp x y \<le> 0 then x # y # ys else y # ins_by cmp x ys)"

definition js_sort :: "('a \<Rightarrow> 'a \<Rightarrow> int) \<Rightarrow> 'a list \<Rightarrow> 'a list" where
  "js_sort cmp xs = foldr (ins_by cmp) xs []"

lemma mset_ins_by: "mset (ins_by cmp x ys) = add_mset x (mset ys)"
  by (induction ys) auto

lemma mset_js_sort [simp]: "mset (js_sort cmp xs) = mset xs"
  by (induction xs) (auto simp: js_sort_def mset_ins_by)

lemma set_js_sort [simp]: "set (js_sort cmp xs) = set xs"
  by (metis mset_js_sort set_mset_mset)

lemma length_js_sort [simp]: "length (js_sort cmp xs) = length xs"
  by (metis mset_js_sort size_mset)

lemma distinct_js_sort [simp]: "distinct (js_sort cmp xs) = distinct xs"
  by (metis mset_js_sort mset_eq_imp_distinct_iff)

lemma distinct_map_js_sort: "distinct (map f (js_sort cmp xs)) = distinct (map f xs)"
  by (metis mset_js_sort mset_map mset_eq_imp_distinct_iff)

lemma js_sort_Nil [simp]: "js_sort cmp [] = []"
  by (simp add: js_sort_def)

lemma js_sort_Cons: "js_sort cmp (x # xs) = ins_by cmp x (js_sort cmp xs)"
  by (simp add: js_sort_def)

locale comparator =
  fixes cmp :: "'a \<Rightarrow> 'a \<Rightarrow> int"
    and ok :: "'a \<Rightarrow> bool"
  assumes flip: "ok a \<Longrightarrow> ok b \<Longrightarrow> cmp a b \<le> 0 \<longleftrightarrow> 0 \<le> cmp b a"
    and trans: "ok a \<Longrightarrow> ok b \<Longrightarrow> ok c \<Longrightarrow> cmp a b \<le> 0 \<Longrightarrow> cmp b c \<le> 0 \<Longrightarrow> cmp a c \<le> 0"
begin

lemma total: "ok a \<Longrightarrow> ok b \<Longrightarrow> \<not> cmp a b \<le> 0 \<Longrightarrow> cmp b a \<le> 0"
  using flip by fastforce

lemma set_ins_by: "set (ins_by cmp x ys) = insert x (set ys)"
  by (induction ys) auto

lemma sorted_ins_by:
  assumes "sorted_wrt (\<lambda>a b. cmp a b \<le> 0) ys" and "ok x" and "\<forall>y\<in>set ys. ok y"
  shows "sorted_wrt (\<lambda>a b. cmp a b \<le> 0) (ins_by cmp x ys)"
  using assms
proof (induction ys)
  case Nil
  then show ?case by simp
next
  case (Cons y ys)
  show ?case
  proof (cases "cmp x y \<le> 0")
    case True
    with Cons.prems show ?thesis by (auto intro: trans)
  next
    case False
    with Cons show ?thesis by (auto simp: set_ins_by intro: total)
  qed
qed

lemma sorted_js_sort:
  "\<forall>x\<in>set xs. ok x \<Longrightarrow> sorted_wrt (\<lambda>a b. cmp a b \<le> 0) (js_sort cmp xs)"
  by (induction xs) (auto simp: js_sort_Cons intro!: sorted_ins_by)

lemma filter_ins_by_eq:
  assumes "sorted_wrt (\<lambda>a b. cmp a b \<le> 0) ys" and "ok x" and "ok z" and "\<forall>y\<in>set ys. ok y"
  shows "filter (\<lambda>y. cmp z y = 0) (ins_by cmp x ys) = filter (\<lambda>y. cmp z y = 0) (x # ys)"
  using assms
proof (induction ys)
  case Nil
  then show ?case by simp
next
  case (Cons y ys)
  show ?case
  proof (cases "cmp x y \<le> 0")
    case True
    then show ?thesis by simp
  next
    case False
    have "\<not> (cmp z x = 0 \<and> cmp z y = 0)"
    proof
      assume z: "cmp z x = 0 \<and> cmp z y = 0"
      have "cmp x z \<le> 0" using z Cons.prems flip [of x z] by simp
      moreover have "cmp z y \<le> 0" using z by simp
      ultimately have "cmp x y \<le> 0" using Cons.prems by (meson list.set_intros(1) trans)
      with False show False by simp
    qed
    with False Cons show ?thesis by auto
  qed
qed

text \<open>Stability: elements that compare equal keep their order.\<close>

lemma stable_js_sort:
  assumes "\<forall>x\<in>set xs. ok x" and "ok z"
  shows "filter (\<lambda>y. cmp z y = 0) (js_sort cmp xs) = filter (\<lambda>y. cmp z y = 0) xs"
  using assms
proof (induction xs)
  case Nil
  then show ?case by simp
next
  case (Cons x xs)
  then have "filter (\<lambda>y. cmp z y = 0) (ins_by cmp x (js_sort cmp xs))
      = filter (\<lambda>y. cmp z y = 0) (x # js_sort cmp xs)"
    by (intro filter_ins_by_eq sorted_js_sort) auto
  with Cons show ?case by (simp add: js_sort_Cons)
qed

lemma js_sort_sorted:
  "sorted_wrt (\<lambda>a b. cmp a b \<le> 0) xs \<Longrightarrow> js_sort cmp xs = xs"
proof (induction xs)
  case (Cons x xs)
  then show ?case by (cases xs) (auto simp: js_sort_Cons)
qed simp

end

subsection \<open>Comparators by keys\<close>

definition by_key :: "('a \<Rightarrow> 'k::linorder) \<Rightarrow> 'a \<Rightarrow> 'a \<Rightarrow> int" where
  "by_key f a b = (if f a < f b then -1 else if f a = f b then 0 else 1)"

definition descending :: "('a \<Rightarrow> 'a \<Rightarrow> int) \<Rightarrow> 'a \<Rightarrow> 'a \<Rightarrow> int" where
  "descending cmp a b = cmp b a"

definition then_by :: "('a \<Rightarrow> 'a \<Rightarrow> int) \<Rightarrow> ('a \<Rightarrow> 'a \<Rightarrow> int) \<Rightarrow> 'a \<Rightarrow> 'a \<Rightarrow> int" where
  "then_by c1 c2 a b = (if c1 a b \<noteq> 0 then c1 a b else c2 a b)"

lemma comparator_by_key: "comparator (by_key f) (\<lambda>_. True)"
  by unfold_locales (auto simp: by_key_def split: if_splits)

lemma comparator_descending: "comparator cmp ok \<Longrightarrow> comparator (descending cmp) ok"
  unfolding comparator_def descending_def by blast

lemma comparator_then_by:
  assumes "comparator c1 ok" and "comparator c2 ok"
  shows "comparator (then_by c1 c2) ok"
proof -
  have zero: "c1 a b = 0 \<longleftrightarrow> c1 a b \<le> 0 \<and> c1 b a \<le> 0" if "ok a" "ok b" for a b
    using comparator.flip [OF assms(1), of a b] comparator.flip [OF assms(1), of b a] that by auto
  show ?thesis
  proof
    fix a b
    assume "ok a" "ok b"
    then show "then_by c1 c2 a b \<le> 0 \<longleftrightarrow> 0 \<le> then_by c1 c2 b a"
      using comparator.flip [OF assms(1), of a b] comparator.flip [OF assms(1), of b a]
        comparator.flip [OF assms(2), of a b] by (auto simp: then_by_def)
  next
    fix a b c
    assume d: "ok a" "ok b" "ok c" and "then_by c1 c2 a b \<le> 0" "then_by c1 c2 b c \<le> 0"
    then have le: "c1 a b \<le> 0" "c1 b c \<le> 0" and ab: "c1 a b = 0 \<Longrightarrow> c2 a b \<le> 0" and bc: "c1 b c = 0 \<Longrightarrow> c2 b c \<le> 0"
      by (auto simp: then_by_def split: if_splits)
    have ac: "c1 a c \<le> 0" using comparator.trans [OF assms(1) d le] .
    show "then_by c1 c2 a c \<le> 0"
    proof (cases "c1 a c = 0")
      case False
      with ac show ?thesis by (simp add: then_by_def)
    next
      case True
      then have ca: "c1 c a \<le> 0" using zero d by blast
      then have "c1 b a \<le> 0" "c1 c b \<le> 0"
        using comparator.trans [OF assms(1), of b c a] comparator.trans [OF assms(1), of c a b] d le by blast+
      then have "c1 a b = 0" "c1 b c = 0" using zero d le by blast+
      then have "c2 a c \<le> 0" using comparator.trans [OF assms(2) d] ab bc by blast
      with True show ?thesis by (simp add: then_by_def)
    qed
  qed
qed

lemmas comparator_intros = comparator_by_key comparator_descending comparator_then_by

section \<open>Lists\<close>

lemma sorted_wrt_take: "sorted_wrt P xs \<Longrightarrow> sorted_wrt P (take n xs)"
  by (metis append_take_drop_id sorted_wrt_append)

lemma distinct_map_filterI: "distinct (map f xs) \<Longrightarrow> distinct (map f (filter P xs))"
  by (induction xs) auto

lemma fold_invariant_list:
  "P s \<Longrightarrow> (\<And>x s. x \<in> set xs \<Longrightarrow> P s \<Longrightarrow> P (f x s)) \<Longrightarrow> P (fold f xs s)"
  by (induction xs arbitrary: s) auto

text \<open>Counting after one element of a list was replaced.\<close>

lemma count_update:
  "w < length xs \<Longrightarrow>
   int (length (filter P (xs[w := x]))) = int (length (filter P xs)) - of_bool (P (xs ! w)) + of_bool (P x)"
proof (induction xs arbitrary: w)
  case (Cons y ys)
  then show ?case by (cases w) auto
qed simp

end
