(* ===== verification/Model_Types.thy ===== *)
theory Model_Types
  imports Js_String
begin

text \<open>
  The canonical model of \<open>src/model/types.ts\<close> with the closed vocabularies it takes from
  \<open>packages/contract/types.ts\<close>.  A nullable field is an \<open>option\<close>; a JSON value of unknown shape
  is a \<open>json\<close>.  The field prefixes (\<open>it_\<close>, \<open>ed_\<close>, \<dots>) only keep the record fields apart.
\<close>

section \<open>JSON values\<close>

datatype json =
    JNull
  | JBool bool
  | JNum int
  | JStr string
  | JArr "json list"
  | JObj "(string \<times> json) list"

text \<open>
  A text column or argument that should hold JSON: the text of a value, or some other text, on
  which \<open>JSON.parse\<close> throws.
\<close>

datatype json_text = Json_Text json | Other_Text string

definition json_stringify :: "json \<Rightarrow> json_text" where
  "json_stringify j = Json_Text j"

definition json_parse :: "json_text \<Rightarrow> json option" where
  "json_parse t = (case t of Json_Text j \<Rightarrow> Some j | Other_Text _ \<Rightarrow> None)"

lemma json_parse_stringify [simp]: "json_parse (json_stringify j) = Some j"
  by (simp add: json_parse_def json_stringify_def)

text \<open>Reading a member: \<open>None\<close> is \<open>undefined\<close>.  The last member of a name is the one that counts.\<close>

definition obj_get :: "(string \<times> json) list \<Rightarrow> string \<Rightarrow> json option" where
  "obj_get ms k = map_option snd (find_last (\<lambda>m. fst m = k) ms)"

section \<open>Vocabularies\<close>

datatype item_state = Open | Closed | Merged
datatype review_state = Approved | Changes_Requested | Review_Required
datatype ci_state = Passing | Failing | Pending | No_Ci
datatype merge_state = Mergeable | Conflicting | Blocked_Merge | Unknown_Merge
datatype edge_lifecycle = Declared | Fulfilled | Broken

text \<open>\<open>kind\<close> of an item and \<open>type\<close> of an edge are open vocabularies.\<close>

datatype item_kind = Issue | Change_Request | Other_Kind string

datatype edge_type =
    Closes
  | Relates
  | Mentions
  | Blocks
  | Blocked_By
  | Parent
  | Child
  | Other_Edge string

section \<open>Items, labels and edges\<close>

record label =
  lb_name :: string
  lb_scope :: "string option"
  lb_color :: "string option"

record endpoint =
  ep_source :: string
  ep_external :: string

record edge =
  ed_type :: edge_type
  ed_from :: endpoint
  ed_to :: endpoint
  ed_from_state :: "item_state option"
  ed_to_state :: "item_state option"

record item =
  it_source :: string
  it_external :: string
  it_kind :: item_kind
  it_project_path :: "string option"
  it_iid :: "int option"
  it_url :: string
  it_title :: "string option"
  it_body :: "string option"
  it_state :: item_state
  it_state_raw :: "string option"
  it_state_reason :: "string option"
  it_is_draft :: "bool option"
  it_author :: "string option"
  it_created_at :: "string option"
  it_updated_at :: "string option"
  it_closed_at :: "string option"
  it_merged_at :: "string option"
  it_review_state :: "review_state option"
  it_ci_state :: "ci_state option"
  it_merge_state :: "merge_state option"
  it_open_review_threads :: "int option"
  it_total_review_threads :: "int option"
  it_comment_total :: "int option"
  it_milestone :: "string option"
  it_demand :: "int option"

section \<open>Activities, review threads, commit files\<close>

record activity =
  ac_source :: string
  ac_external :: string
  ac_kind :: string
  ac_action :: string
  ac_project_path :: "string option"
  ac_target_kind :: "string option"
  ac_target :: "endpoint option"
  ac_target_iid :: "int option"
  ac_title :: "string option"
  ac_url :: "string option"
  ac_actor :: "string option"
  ac_actor_key :: "string option"
  ac_occurred_at :: string
  ac_summary :: "string option"
  ac_details :: "(string \<times> json) list option"

record review_thread_comment =
  rc_id :: string
  rc_author :: "string option"
  rc_avatar_url :: "string option"
  rc_body :: "string option"
  rc_url :: "string option"
  rc_created_at :: "string option"
  rc_updated_at :: "string option"

record review_thread =
  rt_source :: string
  rt_external :: string
  rt_project_path :: "string option"
  rt_target :: endpoint
  rt_target_iid :: "int option"
  rt_title :: "string option"
  rt_url :: "string option"
  rt_is_resolved :: bool
  rt_is_outdated :: "bool option"
  rt_resolved_by :: "string option"
  rt_path :: "string option"
  rt_line :: "int option"
  rt_start_line :: "int option"
  rt_comments_total :: int
  rt_comments :: "review_thread_comment list"
  rt_last_comment_at :: "string option"

datatype commit_file_status = Added | Modified | Removed | Renamed

record commit_file =
  cf_path :: string
  cf_status :: commit_file_status
  cf_additions :: int
  cf_deletions :: int

datatype commit_files_state = Files_Ok | Files_Unavailable | Files_Merge

record commit_files =
  cs_source :: string
  cs_external :: string
  cs_project_path :: "string option"
  cs_sha :: string
  cs_state :: commit_files_state
  cs_truncated :: bool
  cs_files :: "commit_file list"

section \<open>What normalizing one raw record yields\<close>

text \<open>The optional members \<open>reviewThreads\<close> and \<open>commitFiles\<close> are lists; absent is the empty list.\<close>

record normalized_bundle =
  bn_item :: "item option"
  bn_labels :: "label list"
  bn_edges :: "edge list"
  bn_activities :: "activity list"
  bn_review_threads :: "review_thread list"
  bn_commit_files :: "commit_files list"

end
