(* ===== verification/Ref.thy ===== *)
theory Ref
  imports Model_Types
begin

text \<open>
  Item references (\<open>src/model/ref.ts\<close>), label scopes (\<open>src/model/labels.ts\<close>) and the cleaning of
  provider bodies (\<open>src/model/text.ts\<close>).
\<close>

section \<open>Composite references\<close>

definition refOf :: "string \<Rightarrow> string \<Rightarrow> string result" where
  "refOf sourceId externalId =
     (if CHR ''|'' \<in> set sourceId
      then Inl (''source_id must not contain '|': '' @ sourceId)
      else Inr (sourceId @ ''|'' @ externalId))"

definition refOfEndpoint :: "endpoint \<Rightarrow> string result" where
  "refOfEndpoint e = refOf (ep_source e) (ep_external e)"

definition parseRef :: "string \<Rightarrow> endpoint result" where
  "parseRef r =
     (case index_of ''|'' r of
        None \<Rightarrow> Inl (''malformed ref (no '|'): '' @ r)
      | Some i \<Rightarrow> Inr \<lparr>ep_source = take i r, ep_external = drop (i + 1) r\<rparr>)"

lemma refOf_Inr_iff: "refOf s e = Inr r \<longleftrightarrow> CHR ''|'' \<notin> set s \<and> r = s @ ''|'' @ e"
  by (auto simp: refOf_def)

lemma refOf_Inl_iff: "(\<exists>m. refOf s e = Inl m) \<longleftrightarrow> CHR ''|'' \<in> set s"
  by (auto simp: refOf_def)

lemma index_of_bar: "CHR ''|'' \<notin> set s \<Longrightarrow> index_of ''|'' (s @ ''|'' @ e) = Some (length s)"
proof -
  assume "CHR ''|'' \<notin> set s"
  then have "takeWhile (\<lambda>x. x \<noteq> CHR ''|'') (s @ ''|'' @ e) = s"
    by (subst takeWhile_append2) auto
  then show ?thesis by (simp add: index_of_char)
qed

lemma parseRef_of_parts:
  "CHR ''|'' \<notin> set s \<Longrightarrow> parseRef (s @ ''|'' @ e) = Inr \<lparr>ep_source = s, ep_external = e\<rparr>"
  unfolding parseRef_def by (subst index_of_bar) simp_all

lemma refOf_inj:
  assumes "refOf s e = Inr r" and "refOf s' e' = Inr r"
  shows "s = s' \<and> e = e'"
proof -
  have "Inr \<lparr>ep_source = s, ep_external = e\<rparr> = (Inr \<lparr>ep_source = s', ep_external = e'\<rparr> :: endpoint result)"
    using assms parseRef_of_parts [of s e] parseRef_of_parts [of s' e'] by (simp add: refOf_Inr_iff)
  then show ?thesis by simp
qed

text \<open>The two directions agree: what \<open>parseRef\<close> accepts is what \<open>refOf\<close> builds.\<close>

lemma refOfEndpoint_parseRef:
  assumes "parseRef r = Inr ep"
  shows "refOfEndpoint ep = Inr r"
proof -
  obtain i where i: "index_of ''|'' r = Some i"
    and ep: "ep = \<lparr>ep_source = take i r, ep_external = drop (i + 1) r\<rparr>"
    using assms by (auto simp: parseRef_def split: option.splits)
  from i have bar: "CHR ''|'' \<in> set r" and n: "i = length (takeWhile (\<lambda>x. x \<noteq> CHR ''|'') r)"
    by (auto simp: index_of_char split: if_splits)
  have t: "take i r = takeWhile (\<lambda>x. x \<noteq> CHR ''|'') r"
    by (metis n takeWhile_eq_take)
  have "i < length r" and "r ! i = CHR ''|''"
    using index_of_bound [OF i] by (auto simp: starts_with_def take_Suc_conv_app_nth)
  then have "take i r @ ''|'' @ drop (i + 1) r = r"
    by (metis Suc_eq_plus1 append_Cons append_Nil id_take_nth_drop)
  moreover have "CHR ''|'' \<notin> set (take i r)"
    unfolding t by (auto dest: set_takeWhileD)
  ultimately show ?thesis by (simp add: ep refOfEndpoint_def refOf_def)
qed

section \<open>Label scopes\<close>

definition TRACKING_LABEL :: string where
  "TRACKING_LABEL = ''workflow::tracking''"

definition parseScope :: "string \<Rightarrow> string option" where
  "parseScope name =
     (case index_of ''::'' name of
        None \<Rightarrow> None
      | Some i \<Rightarrow> if i = 0 then None else Some (take i name))"

definition toLabel :: "string \<Rightarrow> string option \<Rightarrow> label" where
  "toLabel name color = \<lparr>lb_name = name, lb_scope = parseScope name, lb_color = color\<rparr>"

lemma index_of_min: "index_of p s = Some i \<Longrightarrow> j < i \<Longrightarrow> \<not> starts_with p (drop j s)"
proof (induction p s arbitrary: i j rule: index_of.induct)
  case (1 p)
  then show ?case by (auto split: if_splits)
next
  case (2 p c s)
  then show ?case by (cases j) (auto split: if_splits)
qed

section \<open>Provider bodies\<close>

definition PROVIDER_BODY_MAX_CHARS :: nat where
  "PROVIDER_BODY_MAX_CHARS = 65536"

definition PROVIDER_BODY_TRUNCATED_SUFFIX :: string where
  "PROVIDER_BODY_TRUNCATED_SUFFIX =
     [CHR 10, CHR 10] @
     ''[Body truncated by symphony-board; open the provider link for the full text.]''"

definition cleanProviderBody :: "json \<Rightarrow> string option" where
  "cleanProviderBody value =
     (case value of
        JStr v \<Rightarrow>
          (let text = js_trim v in
           if text = [] then None
           else if length text \<le> PROVIDER_BODY_MAX_CHARS then Some text
           else (let room = PROVIDER_BODY_MAX_CHARS - length PROVIDER_BODY_TRUNCATED_SUFFIX in
                 Some (js_trim_end (take room text) @ PROVIDER_BODY_TRUNCATED_SUFFIX)))
      | _ \<Rightarrow> None)"

lemma length_truncated_suffix: "length PROVIDER_BODY_TRUNCATED_SUFFIX = 79"
  by (simp add: PROVIDER_BODY_TRUNCATED_SUFFIX_def)

lemma cleanProviderBody_bound:
  assumes "cleanProviderBody v = Some t"
  shows "t \<noteq> [] \<and> length t \<le> PROVIDER_BODY_MAX_CHARS"
proof -
  have "length (js_trim_end (take n x)) \<le> n" for n x
    unfolding js_trim_end_def by (rule order_trans [OF length_trim_end_by]) simp
  from this [of "PROVIDER_BODY_MAX_CHARS - length PROVIDER_BODY_TRUNCATED_SUFFIX"] assms
  show ?thesis
    by (auto simp: cleanProviderBody_def Let_def PROVIDER_BODY_MAX_CHARS_def length_truncated_suffix
             split: json.splits if_splits dest: arg_cong [of _ _ length])
qed

end
