(* ===== verification/Tracker.thy ===== *)
theory Tracker
  imports Ref
begin

text \<open>
  The phase table of a program tracker (\<open>src/model/tracker.ts\<close>): from the body of an issue to its
  rows.  The regular expressions of the source are written as the functions that accept the same
  texts and return the same groups; a greedy head \<open>(.*)\<close> is \<open>last_split\<close>, which tries the last
  position first.
\<close>

section \<open>Rows\<close>

record tracker_ref =
  tf_owner :: "string option"
  tf_repo :: "string option"
  tf_number :: nat

record tracker_row =
  tr_id :: string
  tr_title :: string
  tr_ref :: "tracker_ref option"
  tr_notes :: "string option"
  tr_after :: "string list"
  tr_done :: bool
  tr_phase :: "string option"

section \<open>Lexical grammar\<close>

text \<open>The patterns \<open>ID\<close> and \<open>NAME\<close>.\<close>

definition is_id :: "string \<Rightarrow> bool" where
  "is_id s \<longleftrightarrow> s \<noteq> [] \<and> is_upper (hd s) \<and> list_all is_alnum s"

definition is_name_char :: "char \<Rightarrow> bool" where
  "is_name_char c \<longleftrightarrow> is_alnum c \<or> c = CHR ''.'' \<or> c = CHR ''_'' \<or> c = CHR ''-''"

definition is_name :: "string \<Rightarrow> bool" where
  "is_name s \<longleftrightarrow> s \<noteq> [] \<and> list_all is_name_char s"

fun last_split :: "(string \<Rightarrow> 'a option) \<Rightarrow> string \<Rightarrow> (string \<times> 'a) option" where
  "last_split f [] = map_option (\<lambda>a. ([], a)) (f [])"
| "last_split f (c # s) =
     (case last_split f s of
        Some (h, a) \<Rightarrow> Some (c # h, a)
      | None \<Rightarrow> map_option (\<lambda>a. ([], a)) (f (c # s)))"

text \<open>\<open>ROW\<close>: the checkbox character, the id and the text behind it.\<close>

definition match_row :: "string \<Rightarrow> (char \<times> string \<times> string) option" where
  "match_row line =
     (if \<not> starts_with ''- ['' line then None
      else case drop 3 line of
        [] \<Rightarrow> None
      | mark # rest \<Rightarrow>
          if mark \<notin> {CHR '' '', CHR ''x'', CHR ''X''} \<or> \<not> starts_with ''] **'' rest then None
          else (let r = drop 4 rest; ident = takeWhile is_alnum r; tail = dropWhile is_alnum r in
                if is_id ident \<and> starts_with ''** '' tail then Some (mark, ident, drop 2 tail) else None))"

text \<open>\<open>AFTER\<close>: what follows the head, with the group that is \<open>undefined\<close> when the mark ends the line.\<close>

definition AFTER_MARK :: string where
  "AFTER_MARK = [CHR '' '', CHR 0xB7] @ '' after''"

definition after_tail :: "string \<Rightarrow> string option option" where
  "after_tail s =
     (if \<not> starts_with AFTER_MARK s then None
      else case drop (length AFTER_MARK) s of
        [] \<Rightarrow> Some None
      | c # rest \<Rightarrow> if c = CHR '' '' then Some (Some rest) else None)"

definition match_after :: "string \<Rightarrow> (string \<times> string option) option" where
  "match_after = last_split after_tail"

text \<open>\<open>REF\<close>: the number has one to fifteen digits and no leading zero.\<close>

definition ref_number :: "string \<Rightarrow> nat option" where
  "ref_number ds =
     (if ds \<noteq> [] \<and> length ds \<le> 15 \<and> list_all is_digit ds \<and> hd ds \<noteq> CHR ''0''
      then Some (num_of ds) else None)"

definition ref_body :: "string \<Rightarrow> tracker_ref option" where
  "ref_body t =
     (if starts_with ''#'' t
      then map_option (\<lambda>n. \<lparr>tf_owner = None, tf_repo = None, tf_number = n\<rparr>) (ref_number (drop 1 t))
      else (let owner = takeWhile is_name_char t; rest = dropWhile is_name_char t;
                repo = takeWhile is_name_char (drop 1 rest); rest' = dropWhile is_name_char (drop 1 rest) in
            if owner \<noteq> [] \<and> starts_with ''/'' rest \<and> repo \<noteq> [] \<and> starts_with ''#'' rest'
            then map_option (\<lambda>n. \<lparr>tf_owner = Some owner, tf_repo = Some repo, tf_number = n\<rparr>)
                   (ref_number (drop 1 rest'))
            else None))"

definition ref_tail :: "string \<Rightarrow> tracker_ref option" where
  "ref_tail s = (if starts_with '': '' s then ref_body (drop 2 s) else None)"

definition match_ref :: "string \<Rightarrow> (string \<times> tracker_ref) option" where
  "match_ref = last_split ref_tail"

section \<open>Blanks\<close>

definition blank :: "bool \<Rightarrow> char \<Rightarrow> bool" where
  "blank lineEnd c \<longleftrightarrow> c = CHR '' '' \<or> c = CHR 9 \<or> (lineEnd \<and> c = CHR 13)"

definition trimBlanks :: "string \<Rightarrow> bool \<Rightarrow> string" where
  "trimBlanks text lineEnd =
     (let kept = trim_end_by (blank lineEnd) text in
      if lineEnd then kept else dropWhile (blank lineEnd) kept)"

abbreviation trim_blanks :: "string \<Rightarrow> string" where
  "trim_blanks text \<equiv> trimBlanks text False"

definition asciiLower :: "string \<Rightarrow> string" where
  "asciiLower = map ascii_lower_char"

text \<open>\<open>AFTER_LIST\<close> on the trimmed list.\<close>

definition after_list_ok :: "string \<Rightarrow> bool" where
  "after_list_ok s \<longleftrightarrow> trim_blanks s = s \<and> list_all (\<lambda>p. is_id (trim_blanks p)) (split_on CHR '','' s)"

section \<open>One row\<close>

text \<open>
  The scan for the parenthesis that opens the notes, from the end: \<open>scan_open d (rev text)\<close> is the
  index at which the depth returns to zero.
\<close>

fun scan_open :: "int \<Rightarrow> string \<Rightarrow> nat option" where
  "scan_open d [] = None"
| "scan_open d (c # cs) =
     (let d' = (if c = CHR '')'' then d + 1 else if c = CHR ''('' then d - 1 else d) in
      if d' = 0 then Some (length cs) else scan_open d' cs)"

definition take_notes :: "string \<Rightarrow> string option \<times> string" where
  "take_notes text =
     (if \<not> ends_with '')'' text then (None, text)
      else case scan_open 0 (rev text) of
        None \<Rightarrow> (None, text)
      | Some opening \<Rightarrow>
          (let inner = trim_blanks (take (length text - 1 - (opening + 1)) (drop (opening + 1) text)) in
           if 0 < opening \<and> text ! (opening - 1) = CHR '' '' \<and> inner \<noteq> []
           then (Some inner, trim_blanks (take opening text)) else (None, text)))"

definition take_after :: "string \<Rightarrow> (string list \<times> string) option" where
  "take_after text =
     (case match_after text of
        None \<Rightarrow> Some ([], text)
      | Some (head, listed) \<Rightarrow>
          (let l = trim_blanks (or_else listed []) in
           if \<not> after_list_ok l then None
           else (let after = map trim_blanks (split_on CHR '','' l) in
                 if \<not> distinct after then None else Some (after, head))))"

definition take_ref :: "string \<Rightarrow> tracker_ref option \<times> string" where
  "take_ref text =
     (case match_ref text of
        None \<Rightarrow> (None, text)
      | Some (head, r) \<Rightarrow> (Some r, trim_blanks head))"

definition parseRow :: "string \<Rightarrow> string option \<Rightarrow> tracker_row option" where
  "parseRow line phase =
     (case match_row line of
        None \<Rightarrow> None
      | Some (mark, ident, t0) \<Rightarrow>
          (case take_after t0 of
             None \<Rightarrow> None
           | Some (after, t1) \<Rightarrow>
               (let (notes, t2) = take_notes (trim_blanks t1);
                    (ref, t3) = take_ref t2 in
                if t3 = [] then None
                else Some \<lparr>tr_id = ident, tr_title = t3, tr_ref = ref, tr_notes = notes,
                           tr_after = after, tr_done = (mark \<noteq> CHR '' ''), tr_phase = phase\<rparr>)))"

section \<open>The table\<close>

definition TRACKER_MAX_ROWS :: nat where
  "TRACKER_MAX_ROWS = 500"

definition ROW_MARKS :: "string list" where
  "ROW_MARKS = [''- [ ]'', ''- [x]'', ''- [X]'']"

text \<open>
  The loop over the lines: whether the table has begun, the phase heading above, and how many rows
  have been pushed.  Each row is emitted where the source pushes it.
\<close>

fun table_rows :: "bool \<Rightarrow> string option \<Rightarrow> nat \<Rightarrow> string list \<Rightarrow> tracker_row list" where
  "table_rows inTable phase n [] = []"
| "table_rows inTable phase n (raw # lines) =
     (let line = trimBlanks raw True in
      if \<not> inTable then table_rows (asciiLower line = ''## phase table'') phase n lines
      else if starts_with ''## '' line then []
      else if starts_with ''### '' line then
        (let p = trim_blanks (drop 4 line) in
         table_rows True (if p = [] then phase else Some p) n lines)
      else if list_ex (\<lambda>mark. starts_with mark line) ROW_MARKS then
        (case parseRow line phase of
           None \<Rightarrow> table_rows True phase n lines
         | Some row \<Rightarrow> row # (if Suc n = TRACKER_MAX_ROWS then [] else table_rows True phase (Suc n) lines))
      else table_rows True phase n lines)"

definition parseTrackerRows :: "json \<Rightarrow> tracker_row list" where
  "parseTrackerRows body =
     (case body of JStr s \<Rightarrow> table_rows False None 0 (split_on (CHR 10) s) | _ \<Rightarrow> [])"

definition trackerRefKey :: "tracker_ref \<Rightarrow> string option \<Rightarrow> string option" where
  "trackerRefKey r ownProject =
     (let project = (case (tf_owner r, tf_repo r) of
                       (Some o', Some p) \<Rightarrow> Some (o' @ ''/'' @ p) | _ \<Rightarrow> ownProject) in
      case project of
        None \<Rightarrow> None
      | Some p \<Rightarrow> if p = [] then None else Some (p @ ''#'' @ nat_str (tf_number r)))"

section \<open>Facts about the pieces\<close>

lemma last_split_Some:
  "last_split f s = Some (h, a) \<Longrightarrow> \<exists>t. s = h @ t \<and> f t = Some a"
proof (induction s arbitrary: h)
  case (Cons c s)
  then show ?case by (fastforce split: option.splits)
qed auto

text \<open>A greedy head is the longest one: no later position matches.\<close>

lemma last_split_append:
  assumes "f t = Some a" and "\<And>u v. t = u @ v \<Longrightarrow> u \<noteq> [] \<Longrightarrow> f v = None"
  shows "last_split f (h @ t) = Some (h, a)"
proof -
  have none: "last_split f v = None" if "\<And>u w. v = u @ w \<Longrightarrow> f w = None" for v
    using that
  proof (induction v)
    case Nil
    then show ?case by simp
  next
    case (Cons c v)
    have "last_split f v = None"
      by (rule Cons.IH) (metis Cons.prems append_Cons)
    moreover have "f (c # v) = None" using Cons.prems [of "[]" "c # v"] by simp
    ultimately show ?case by simp
  qed
  have "last_split f t = Some ([], a)"
  proof (cases t)
    case Nil
    with assms(1) show ?thesis by simp
  next
    case (Cons c t')
    have "last_split f t' = None"
      by (rule none) (metis Cons append_Cons assms(2) list.distinct(1))
    with Cons assms(1) show ?thesis by simp
  qed
  then show ?thesis by (induction h) auto
qed

lemma last_split_None: "(\<And>u v. s = u @ v \<Longrightarrow> f v = None) \<Longrightarrow> last_split f s = None"
proof (induction s)
  case Nil
  then show ?case by simp
next
  case (Cons c s)
  have "last_split f s = None"
    by (rule Cons.IH) (metis Cons.prems append_Cons)
  moreover have "f (c # s) = None" using Cons.prems [of "[]" "c # s"] by simp
  ultimately show ?case by simp
qed

lemma take_after_ids:
  "take_after t = Some (after, h) \<Longrightarrow> distinct after \<and> (\<forall>i\<in>set after. is_id i)"
  by (auto simp: take_after_def after_list_ok_def Let_def list_all_iff split: option.splits if_splits prod.splits)

lemma parseRow_wf:
  assumes "parseRow line phase = Some row"
  shows "is_id (tr_id row) \<and> tr_title row \<noteq> [] \<and> distinct (tr_after row) \<and>
         (\<forall>i\<in>set (tr_after row). is_id i) \<and> tr_phase row = phase"
  using assms
  by (auto simp: parseRow_def match_row_def Let_def split: option.splits prod.splits if_splits list.splits
           dest: take_after_ids)

lemma table_rows_wf:
  "row \<in> set (table_rows b p n ls) \<Longrightarrow>
   is_id (tr_id row) \<and> tr_title row \<noteq> [] \<and> distinct (tr_after row) \<and> (\<forall>i\<in>set (tr_after row). is_id i)"
  by (induction b p n ls rule: table_rows.induct)
    (auto simp: Let_def split: if_splits option.splits dest: parseRow_wf)

lemma table_rows_bound: "n < TRACKER_MAX_ROWS \<Longrightarrow> n + length (table_rows b p n ls) \<le> TRACKER_MAX_ROWS"
proof (induction b p n ls rule: table_rows.induct)
  case (1 b p n)
  then show ?case by simp
next
  case (2 b p n raw ls)
  let ?line = "trimBlanks raw True"
  show ?case
  proof (cases "parseRow ?line p")
    case None
    with 2 show ?thesis by (simp add: Let_def)
  next
    case (Some row)
    have "Suc n + length (table_rows True p (Suc n) ls) \<le> TRACKER_MAX_ROWS"
      if "b" "\<not> starts_with ''## '' ?line" "\<not> starts_with ''### '' ?line"
        "list_ex (\<lambda>mark. starts_with mark ?line) ROW_MARKS" "Suc n \<noteq> TRACKER_MAX_ROWS"
      using "2.IH"(4) [OF refl] that Some "2.prems" by simp
    with 2 Some show ?thesis by (simp add: Let_def)
  qed
qed

end
