(* ===== verification/Edges.thy ===== *)
theory Edges
  imports Ref
begin

text \<open>
  Edge reconciliation (\<open>src/model/edges.ts\<close>): the lifecycle of an edge, the side that reported it,
  and the merge of all reports of one run into one edge per (type, from, to).
\<close>

section \<open>Definitions\<close>

definition deriveLifecycle ::
  "edge_type \<Rightarrow> item_state option \<Rightarrow> item_state option \<Rightarrow> edge_lifecycle option" where
  "deriveLifecycle type fromState toState =
     (if type \<noteq> Closes then None
      else if fromState = Some Merged \<and> toState = Some Closed then Some Fulfilled
      else if fromState = Some Closed then Some Broken
      else Some Declared)"

datatype edge_reporter = From_End | To_End | Neither

definition reporterSide :: "edge \<Rightarrow> endpoint \<Rightarrow> edge_reporter result" where
  "reporterSide edge reporter =
     rbind (refOfEndpoint reporter) (\<lambda>self.
     rbind (refOfEndpoint (ed_from edge)) (\<lambda>from.
     if from = self then Inr From_End
     else rbind (refOfEndpoint (ed_to edge)) (\<lambda>to.
     if to = self then Inr To_End else Inr Neither)))"

datatype discovered_from = Side edge_reporter | Both

record reconciled_edge = edge +
  re_lifecycle :: "edge_lifecycle option"
  re_discovered_from :: discovered_from

text \<open>The key is the JSON text of a tuple of strings, which determines the tuple.\<close>

type_synonym edge_key = "edge_type \<times> string \<times> string"

definition keyOf :: "'a edge_scheme \<Rightarrow> edge_key result" where
  "keyOf e =
     rbind (refOfEndpoint (ed_from e)) (\<lambda>from.
     rbind (refOfEndpoint (ed_to e)) (\<lambda>to.
     Inr (ed_type e, from, to)))"

definition new_reconciled :: "edge \<Rightarrow> edge_reporter \<Rightarrow> reconciled_edge" where
  "new_reconciled e side =
     edge.extend e
       \<lparr>re_lifecycle = deriveLifecycle (ed_type e) (ed_from_state e) (ed_to_state e),
        re_discovered_from = Side side\<rparr>"

definition join_side :: "discovered_from \<Rightarrow> edge_reporter \<Rightarrow> discovered_from" where
  "join_side d side =
     (if d = Side Neither then Side side
      else if side \<noteq> Neither \<and> d \<noteq> Side side then Both
      else d)"

definition converge :: "reconciled_edge \<Rightarrow> edge \<Rightarrow> edge_reporter \<Rightarrow> reconciled_edge" where
  "converge ex e side =
     (let fromState = nullish (ed_from_state ex) (ed_from_state e);
          toState = nullish (ed_to_state ex) (ed_to_state e)
      in ex\<lparr>ed_from_state := fromState, ed_to_state := toState,
            re_lifecycle := deriveLifecycle (ed_type ex) fromState toState,
            re_discovered_from := join_side (re_discovered_from ex) side\<rparr>)"

definition reconcile_step ::
  "edge \<times> edge_reporter \<Rightarrow> (edge_key, reconciled_edge) jsmap \<Rightarrow> (edge_key, reconciled_edge) jsmap result" where
  "reconcile_step d m =
     rbind (keyOf (fst d)) (\<lambda>k.
     Inr (case jm_get m k of
            None \<Rightarrow> jm_set k (new_reconciled (fst d) (snd d)) m
          | Some ex \<Rightarrow> jm_set k (converge ex (fst d) (snd d)) m))"

definition reconcileEdges :: "(edge \<times> edge_reporter) list \<Rightarrow> reconciled_edge list result" where
  "reconcileEdges discovered =
     rbind (foldM reconcile_step discovered jm_empty) (\<lambda>m. Inr (jm_values m))"

section \<open>Keys\<close>

definition bar_free :: "'a edge_scheme \<Rightarrow> bool" where
  "bar_free e \<longleftrightarrow> CHR ''|'' \<notin> set (ep_source (ed_from e)) \<and> CHR ''|'' \<notin> set (ep_source (ed_to e))"

lemma keyOf_Inr: "(\<exists>k. keyOf e = Inr k) \<longleftrightarrow> bar_free e"
  by (auto simp: keyOf_def refOfEndpoint_def refOf_def bar_free_def)

lemma keyOf_same_iff:
  assumes "keyOf e = Inr k" and "keyOf e' = Inr k'"
  shows "k = k' \<longleftrightarrow> ed_type e = ed_type e' \<and> ed_from e = ed_from e' \<and> ed_to e = ed_to e'"
proof
  assume "k = k'"
  with assms show "ed_type e = ed_type e' \<and> ed_from e = ed_from e' \<and> ed_to e = ed_to e'"
    by (auto simp: keyOf_def refOfEndpoint_def dest: refOf_inj intro!: endpoint.equality)
next
  assume "ed_type e = ed_type e' \<and> ed_from e = ed_from e' \<and> ed_to e = ed_to e'"
  then have "keyOf e = keyOf e'" by (simp add: keyOf_def)
  with assms show "k = k'" by simp
qed

lemma keyOf_cong:
  "ed_type e = ed_type e' \<Longrightarrow> ed_from e = ed_from e' \<Longrightarrow> ed_to e = ed_to e' \<Longrightarrow> keyOf e = keyOf e'"
  by (simp add: keyOf_def)

lemma new_reconciled_simps [simp]:
  "ed_type (new_reconciled e s) = ed_type e"
  "ed_from (new_reconciled e s) = ed_from e"
  "ed_to (new_reconciled e s) = ed_to e"
  "ed_from_state (new_reconciled e s) = ed_from_state e"
  "ed_to_state (new_reconciled e s) = ed_to_state e"
  "re_discovered_from (new_reconciled e s) = Side s"
  "re_lifecycle (new_reconciled e s) = deriveLifecycle (ed_type e) (ed_from_state e) (ed_to_state e)"
  by (simp_all add: new_reconciled_def edge.defs)

lemma converge_simps [simp]:
  "ed_type (converge ex e s) = ed_type ex"
  "ed_from (converge ex e s) = ed_from ex"
  "ed_to (converge ex e s) = ed_to ex"
  "ed_from_state (converge ex e s) = nullish (ed_from_state ex) (ed_from_state e)"
  "ed_to_state (converge ex e s) = nullish (ed_to_state ex) (ed_to_state e)"
  "re_discovered_from (converge ex e s) = join_side (re_discovered_from ex) s"
  "re_lifecycle (converge ex e s) = deriveLifecycle (ed_type ex)
     (nullish (ed_from_state ex) (ed_from_state e)) (nullish (ed_to_state ex) (ed_to_state e))"
  by (simp_all add: converge_def Let_def)

section \<open>The merge of one group of reports\<close>

text \<open>
  What the reports of one key add up to: the first known state of each endpoint, the lifecycle of
  these states, and the set of endpoints that reported.
\<close>

definition first_known :: "('a \<Rightarrow> 'b option) \<Rightarrow> 'a list \<Rightarrow> 'b option" where
  "first_known f xs = (case List.find (\<lambda>x. f x \<noteq> None) xs of None \<Rightarrow> None | Some x \<Rightarrow> f x)"

lemma first_known_Nil [simp]: "first_known f [] = None"
  by (simp add: first_known_def)

lemma first_known_Cons [simp]: "first_known f (x # xs) = nullish (f x) (first_known f xs)"
  by (auto simp: first_known_def nullish_def split: option.split)

lemma first_known_append: "first_known f (xs @ ys) = nullish (first_known f xs) (first_known f ys)"
  by (induction xs) (auto simp: nullish_assoc)

lemma first_known_None_iff: "first_known f xs = None \<longleftrightarrow> (\<forall>x\<in>set xs. f x = None)"
  by (induction xs) auto

definition sides_of :: "edge_reporter set \<Rightarrow> discovered_from" where
  "sides_of S =
     (if From_End \<in> S \<and> To_End \<in> S then Both
      else if From_End \<in> S then Side From_End
      else if To_End \<in> S then Side To_End
      else Side Neither)"

lemma sides_of_single [simp]: "sides_of {s} = Side s"
  by (cases s) (auto simp: sides_of_def)

lemma join_side_sides_of: "join_side (sides_of S) s = sides_of (insert s S)"
  by (cases s) (auto simp: sides_of_def join_side_def)

text \<open>\<open>merged_from g r\<close>: \<open>r\<close> is the edge the reports \<open>g\<close> (oldest first) reconcile to.\<close>

definition merged_from :: "(edge \<times> edge_reporter) list \<Rightarrow> reconciled_edge \<Rightarrow> bool" where
  "merged_from g r \<longleftrightarrow>
     g \<noteq> [] \<and>
     ed_type r = ed_type (fst (hd g)) \<and> ed_from r = ed_from (fst (hd g)) \<and> ed_to r = ed_to (fst (hd g)) \<and>
     ed_from_state r = first_known (ed_from_state \<circ> fst) g \<and>
     ed_to_state r = first_known (ed_to_state \<circ> fst) g \<and>
     re_lifecycle r = deriveLifecycle (ed_type r) (ed_from_state r) (ed_to_state r) \<and>
     re_discovered_from r = sides_of (snd ` set g)"

lemma merged_from_new: "merged_from [(e, s)] (new_reconciled e s)"
  by (simp add: merged_from_def)

lemma merged_from_converge:
  "merged_from g r \<Longrightarrow> merged_from (g @ [(e, s)]) (converge r e s)"
  by (auto simp: merged_from_def first_known_append join_side_sides_of)

section \<open>The loop\<close>

definition key_is :: "edge_key \<Rightarrow> edge \<times> edge_reporter \<Rightarrow> bool" where
  "key_is k d \<longleftrightarrow> keyOf (fst d) = Inr k"

definition groups_merged ::
  "(edge \<times> edge_reporter) list \<Rightarrow> (edge_key, reconciled_edge) jsmap \<Rightarrow> bool" where
  "groups_merged ds m \<longleftrightarrow>
     mapM (\<lambda>d. keyOf (fst d)) ds = Inr (map (\<lambda>d. projr (keyOf (fst d))) ds) \<and>
     jm_keys m = js_set_of (map (\<lambda>d. projr (keyOf (fst d))) ds) \<and>
     (\<forall>k. case jm_get m k of
            None \<Rightarrow> filter (key_is k) ds = []
          | Some r \<Rightarrow> merged_from (filter (key_is k) ds) r)"

lemma groups_mergedD:
  assumes "groups_merged ds m"
  shows "jm_get m k = None \<Longrightarrow> filter (key_is k) ds = []"
    and "jm_get m k = Some r \<Longrightarrow> merged_from (filter (key_is k) ds) r"
proof -
  have "case jm_get m k of None \<Rightarrow> filter (key_is k) ds = []
        | Some r \<Rightarrow> merged_from (filter (key_is k) ds) r"
    using assms unfolding groups_merged_def by blast
  then show "jm_get m k = None \<Longrightarrow> filter (key_is k) ds = []"
    and "jm_get m k = Some r \<Longrightarrow> merged_from (filter (key_is k) ds) r"
    by simp_all
qed

lemma mapM_snoc: "mapM f (xs @ [x]) = rbind (mapM f xs) (\<lambda>ys. rbind (f x) (\<lambda>y. Inr (ys @ [y])))"
proof (induction xs)
  case Nil
  then show ?case by (cases "f x") auto
next
  case (Cons a xs)
  then show ?case by (cases "f a"; cases "mapM f xs"; cases "f x") auto
qed

lemma groups_merged_step:
  assumes "groups_merged ds m" and "reconcile_step d m = Inr m'"
  shows "groups_merged (ds @ [d]) m'"
proof -
  obtain e s where d: "d = (e, s)" by (cases d)
  obtain k where k: "keyOf e = Inr k"
    and m': "m' = (case jm_get m k of None \<Rightarrow> jm_set k (new_reconciled e s) m
                   | Some ex \<Rightarrow> jm_set k (converge ex e s) m)"
    using assms(2) by (cases "keyOf e") (auto simp: reconcile_step_def d split: option.splits)
  have keys: "jm_keys m = js_set_of (map (\<lambda>d. projr (keyOf (fst d))) ds)"
    using assms(1) by (simp add: groups_merged_def)
  have "jm_keys m' = js_set_of (map (\<lambda>d. projr (keyOf (fst d))) (ds @ [d]))"
  proof -
    have "jm_keys m' = (if k \<in> set (jm_keys m) then jm_keys m else jm_keys m @ [k])"
      unfolding m' by (auto simp: jsmap_simps split: option.split)
    then show ?thesis by (simp add: keys js_set_of_snoc d k)
  qed
  moreover have "case jm_get m' k' of
            None \<Rightarrow> filter (key_is k') (ds @ [d]) = []
          | Some r \<Rightarrow> merged_from (filter (key_is k') (ds @ [d])) r" for k'
  proof (cases "k' = k")
    case True
    then have here: "key_is k' d" by (simp add: key_is_def d k)
    show ?thesis
    proof (cases "jm_get m k")
      case None
      then have "filter (key_is k) ds = []"
        using assms(1) by (blast dest: groups_mergedD)
      with None True here show ?thesis
        by (simp add: m' jsmap_simps d merged_from_new)
    next
      case (Some ex)
      then have "merged_from (filter (key_is k) ds) ex"
        using assms(1) by (blast dest: groups_mergedD)
      with Some True here show ?thesis
        by (simp add: m' jsmap_simps d merged_from_converge)
    qed
  next
    case False
    then have "\<not> key_is k' d" by (simp add: key_is_def d k)
    moreover have "jm_get m' k' = jm_get m k'"
      using False by (auto simp: m' jsmap_simps split: option.split)
    ultimately show ?thesis using assms(1) by (auto dest: groups_mergedD split: option.split)
  qed
  moreover have "mapM (\<lambda>d. keyOf (fst d)) (ds @ [d]) = Inr (map (\<lambda>d. projr (keyOf (fst d))) (ds @ [d]))"
    using assms(1) by (simp add: groups_merged_def mapM_snoc d k)
  ultimately show ?thesis unfolding groups_merged_def by blast
qed

lemma groups_merged_foldM:
  "foldM reconcile_step ds [] = Inr m \<Longrightarrow> groups_merged ds m"
proof (induction ds arbitrary: m rule: rev_induct)
  case Nil
  then show ?case by (simp add: groups_merged_def jsmap_simps)
next
  case (snoc d ds)
  then obtain m0 where "foldM reconcile_step ds [] = Inr m0" and "reconcile_step d m0 = Inr m"
    by (auto simp: foldM_append)
  with snoc.IH show ?case by (blast intro: groups_merged_step)
qed

lemma foldM_reconcile_total:
  "\<forall>d\<in>set ds. bar_free (fst d) \<Longrightarrow> \<exists>m'. foldM reconcile_step ds m = Inr m'"
proof (induction ds arbitrary: m)
  case Nil
  then show ?case by simp
next
  case (Cons d ds)
  then obtain k where "keyOf (fst d) = Inr k" using keyOf_Inr by fastforce
  with Cons show ?case by (simp add: reconcile_step_def)
qed

lemma reconcileEdges_groups:
  assumes "reconcileEdges ds = Inr rs"
  shows "map keyOf rs = map Inr (js_set_of (map (\<lambda>d. projr (keyOf (fst d))) ds))"
    and "r \<in> set rs \<Longrightarrow> merged_from (filter (\<lambda>d. keyOf (fst d) = keyOf r) ds) r"
proof -
  obtain m where m: "foldM reconcile_step ds [] = Inr m" and rs: "rs = jm_values m"
    using assms by (auto simp: reconcileEdges_def)
  have g: "groups_merged ds m" using m by (rule groups_merged_foldM)
  then have keys: "jm_keys m = js_set_of (map (\<lambda>d. projr (keyOf (fst d))) ds)"
    by (simp add: groups_merged_def)
  then have dk: "distinct (jm_keys m)" by simp
  have at: "keyOf r = Inr k \<and> merged_from (filter (key_is k) ds) r" if "jm_get m k = Some r" for k r
  proof -
    have mg: "merged_from (filter (key_is k) ds) r"
      using g that by (blast dest: groups_mergedD)
    then have "filter (key_is k) ds \<noteq> []" by (simp add: merged_from_def)
    then have "key_is k (hd (filter (key_is k) ds))"
      using list.set_sel(1) by fastforce
    then have "keyOf r = Inr k"
      using mg keyOf_cong [of r "fst (hd (filter (key_is k) ds))"] by (simp add: key_is_def merged_from_def)
    with mg show ?thesis by simp
  qed
  have "map Some (jm_values m) = map (jm_get m) (jm_keys m)"
    using dk by (rule jm_values_keys)
  then have "list_all2 (\<lambda>r k. jm_get m k = Some r) (jm_values m) (jm_keys m)"
    by (auto simp: list_all2_conv_all_nth list_eq_iff_nth_eq)
  then have "map keyOf rs = map Inr (jm_keys m)"
    unfolding rs using at by (auto simp: list_all2_conv_all_nth list_eq_iff_nth_eq)
  then show "map keyOf rs = map Inr (js_set_of (map (\<lambda>d. projr (keyOf (fst d))) ds))"
    by (simp add: keys)
  assume "r \<in> set rs"
  then obtain k where "jm_get m k = Some r" using dk rs by (auto simp: jm_values_get)
  with at have "keyOf r = Inr k" and "merged_from (filter (key_is k) ds) r" by auto
  then show "merged_from (filter (\<lambda>d. keyOf (fst d) = keyOf r) ds) r"
    by (simp add: key_is_def [abs_def])
qed

end
