(* ===== verification/Tracker_Edges.thy ===== *)
theory Tracker_Edges
  imports Tracker Edges
begin

text \<open>
  The edges of a program tracker (\<open>trackerEdges\<close> of \<open>src/model/tracker.ts\<close>): gates are contracted
  by a depth-first walk that carries the gates already expanded and the issue rows already found.
  A row object of the source is identified by its id, because the walk only meets rows of \<open>byId\<close>.
\<close>

section \<open>Definitions\<close>

record tracker_target =
  tt_external :: string
  tt_state :: "item_state option"

definition byId :: "tracker_row list \<Rightarrow> (string, tracker_row) jsmap" where
  "byId rows = fold (\<lambda>row m. if jm_get m (tr_id row) = None then jm_set (tr_id row) row m else m) rows jm_empty"

definition targetOf :: "(tracker_ref \<Rightarrow> tracker_target option) \<Rightarrow> tracker_row \<Rightarrow> tracker_target option" where
  "targetOf resolve row = (case tr_ref row of None \<Rightarrow> None | Some r \<Rightarrow> resolve r)"

text \<open>\<open>Set.add\<close> on the rows found so far.\<close>

definition add_row :: "tracker_row \<Rightarrow> tracker_row list \<Rightarrow> tracker_row list" where
  "add_row row out = (if tr_id row \<in> tr_id ` set out then out else out @ [row])"

function prerequisites ::
  "(string, tracker_row) jsmap \<Rightarrow> string list \<Rightarrow> string list \<Rightarrow> tracker_row list \<Rightarrow> string list \<times> tracker_row list"
where
  "prerequisites m [] gates out = (gates, out)"
| "prerequisites m (i # ids) gates out =
     (case jm_get m i of
        None \<Rightarrow> prerequisites m ids gates out
      | Some dep \<Rightarrow>
          if tr_ref dep \<noteq> None then prerequisites m ids gates (add_row dep out)
          else if i \<in> set gates then prerequisites m ids gates out
          else prerequisites m ids (fst (prerequisites m (tr_after dep) (i # gates) out))
                 (snd (prerequisites m (tr_after dep) (i # gates) out)))"
  by pat_completeness auto

lemma prerequisites_gates_mono:
  "prerequisites_dom (m, ids, gates, out) \<Longrightarrow> set gates \<subseteq> set (fst (prerequisites m ids gates out))"
  by (induction m ids gates out rule: prerequisites.pinduct)
    (fastforce simp: prerequisites.psimps split: option.split)+

lemma fewer_gates_left:
  assumes "jm_get m i = Some dep" and "i \<notin> G" and "insert i G \<subseteq> G'"
  shows "(set (jm_keys m) - G', set (jm_keys m) - G) \<in> finite_psubset"
proof -
  have "i \<in> set (jm_keys m)"
    using assms(1) by (metis jm_get_None_iff option.distinct(1))
  with assms(2,3) show ?thesis by (auto simp: finite_psubset_def)
qed

termination prerequisites
proof (relation "inv_image (finite_psubset <*lex*> less_than)
    (\<lambda>(m, ids, gates, out). (set (jm_keys m) - set gates, length ids))", goal_cases)
  case 1
  show ?case by auto
next
  case (5 m i ids gates out dep)
  then have "(set (jm_keys m) - set (i # gates), set (jm_keys m) - set gates) \<in> finite_psubset"
    by (intro fewer_gates_left) auto
  then show ?case by simp
next
  case (6 m i ids gates out dep)
  then have "(set (jm_keys m) - set (i # gates), set (jm_keys m) - set gates) \<in> finite_psubset"
    by (intro fewer_gates_left) auto
  then show ?case by simp
next
  case (7 m i ids gates out dep)
  then have "(set (jm_keys m) - set (fst (prerequisites m (tr_after dep) (i # gates) out)),
      set (jm_keys m) - set gates) \<in> finite_psubset"
    using prerequisites_gates_mono [of m "tr_after dep" "i # gates" out] by (intro fewer_gates_left) auto
  then show ?case by (simp add: case_prod_beta)
qed simp_all

declare prerequisites.simps [simp del]

definition TRACKER_MAX_BLOCKS_EDGES :: nat where
  "TRACKER_MAX_BLOCKS_EDGES = 1000"

record emit_state =
  em_edges :: "edge list"
  em_seen :: "(edge_type \<times> string \<times> string) list"
  em_blocks :: nat

text \<open>\<open>push\<close> returns whether the edge was new; the edges stand in the order of emission.\<close>

definition push ::
  "endpoint \<Rightarrow> edge_type \<Rightarrow> string \<Rightarrow> item_state option \<Rightarrow> tracker_target \<Rightarrow> emit_state \<Rightarrow> bool \<times> emit_state"
where
  "push tracker type from fromState to st =
     (let key = (type, from, tt_external to) in
      if from = tt_external to \<or> key \<in> set (em_seen st) then (False, st)
      else (True, st\<lparr>em_seen := em_seen st @ [key],
                     em_edges := em_edges st @
                       [\<lparr>ed_type = type,
                         ed_from = \<lparr>ep_source = ep_source tracker, ep_external = from\<rparr>,
                         ed_to = \<lparr>ep_source = ep_source tracker, ep_external = tt_external to\<rparr>,
                         ed_from_state = fromState,
                         ed_to_state = tt_state to\<rparr>]\<rparr>))"

fun push_blocks ::
  "endpoint \<Rightarrow> (tracker_ref \<Rightarrow> tracker_target option) \<Rightarrow> tracker_target \<Rightarrow> tracker_row list \<Rightarrow> emit_state \<Rightarrow> emit_state"
where
  "push_blocks tracker resolve target [] st = st"
| "push_blocks tracker resolve target (dep # deps) st =
     (case targetOf resolve dep of
        None \<Rightarrow> push_blocks tracker resolve target deps st
      | Some blocker \<Rightarrow>
          (case push tracker Blocks (tt_external blocker) (tt_state blocker) target st of
             (False, st') \<Rightarrow> push_blocks tracker resolve target deps st'
           | (True, st') \<Rightarrow>
               (let st'' = st'\<lparr>em_blocks := Suc (em_blocks st')\<rparr> in
                if TRACKER_MAX_BLOCKS_EDGES \<le> em_blocks st'' then st''
                else push_blocks tracker resolve target deps st'')))"

definition emit_row ::
  "(string, tracker_row) jsmap \<Rightarrow> endpoint \<Rightarrow> item_state option \<Rightarrow> (tracker_ref \<Rightarrow> tracker_target option) \<Rightarrow>
   tracker_row \<Rightarrow> emit_state \<Rightarrow> emit_state"
where
  "emit_row m tracker trackerState resolve row st =
     (case targetOf resolve row of
        None \<Rightarrow> st
      | Some target \<Rightarrow>
          (let st' = snd (push tracker Parent (ep_external tracker) trackerState target st) in
           if TRACKER_MAX_BLOCKS_EDGES \<le> em_blocks st' then st'
           else push_blocks tracker resolve target (snd (prerequisites m (tr_after row) [] [])) st'))"

definition emit_rows ::
  "(string, tracker_row) jsmap \<Rightarrow> endpoint \<Rightarrow> item_state option \<Rightarrow> (tracker_ref \<Rightarrow> tracker_target option) \<Rightarrow>
   tracker_row list \<Rightarrow> emit_state"
where
  "emit_rows m tracker trackerState resolve rows =
     fold (emit_row m tracker trackerState resolve) rows \<lparr>em_edges = [], em_seen = [], em_blocks = 0\<rparr>"

definition trackerEdges ::
  "tracker_row list \<Rightarrow> endpoint \<Rightarrow> item_state option \<Rightarrow> (tracker_ref \<Rightarrow> tracker_target option) \<Rightarrow> edge list"
where
  "trackerEdges rows tracker trackerState resolve =
     em_edges (emit_rows (byId rows) tracker trackerState resolve rows)"

section \<open>The specification of gate contraction\<close>

text \<open>
  \<open>waits_on m ids d\<close>: the issue row \<open>d\<close> is named in \<open>ids\<close>, or behind a chain of gates that starts
  there.
\<close>

inductive waits_on :: "(string, tracker_row) jsmap \<Rightarrow> string list \<Rightarrow> tracker_row \<Rightarrow> bool"
  for m :: "(string, tracker_row) jsmap"
where
  direct: "i \<in> set ids \<Longrightarrow> jm_get m i = Some d \<Longrightarrow> tr_ref d \<noteq> None \<Longrightarrow> waits_on m ids d"
| through_gate: "i \<in> set ids \<Longrightarrow> jm_get m i = Some g \<Longrightarrow> tr_ref g = None \<Longrightarrow> waits_on m (tr_after g) d
    \<Longrightarrow> waits_on m ids d"

lemma waits_on_mono: "waits_on m ids d \<Longrightarrow> set ids \<subseteq> set ids' \<Longrightarrow> waits_on m ids' d"
  by (induction rule: waits_on.induct) (auto intro: waits_on.intros)

definition keyed :: "(string, tracker_row) jsmap \<Rightarrow> bool" where
  "keyed m \<longleftrightarrow> (\<forall>i row. jm_get m i = Some row \<longrightarrow> tr_id row = i)"

lemma byId_get: "jm_get (byId rows) i = List.find (\<lambda>row. tr_id row = i) rows"
  unfolding byId_def by (simp add: jsm.get_fold_put_absent jsmap_simps option.map_ident)

lemma keyed_byId: "keyed (byId rows)"
  by (auto simp: keyed_def byId_get find_Some_iff)

text \<open>What a state of the walk has dealt with.\<close>

definition handled :: "(string, tracker_row) jsmap \<Rightarrow> string list \<Rightarrow> tracker_row list \<Rightarrow> string list \<Rightarrow> bool" where
  "handled m gates out ids \<longleftrightarrow>
     (\<forall>i\<in>set ids. \<forall>dep. jm_get m i = Some dep \<longrightarrow>
        (if tr_ref dep \<noteq> None then tr_id dep \<in> tr_id ` set out else i \<in> set gates))"

lemma handled_mono:
  "handled m gates out ids \<Longrightarrow> set gates \<subseteq> set gates' \<Longrightarrow> set out \<subseteq> set out' \<Longrightarrow> handled m gates' out' ids"
  unfolding handled_def by (smt (verit, best) image_mono subsetD)

lemma set_add_row: "set out \<subseteq> set (add_row row out)" "set (add_row row out) \<subseteq> insert row (set out)"
  "tr_id row \<in> tr_id ` set (add_row row out)"
  by (auto simp: add_row_def)

text \<open>The four ways one id is dealt with.\<close>

lemma prerequisites_cases:
  obtains (unknown) "jm_get m i = None"
      and "prerequisites m (i # ids) gates out = prerequisites m ids gates out"
  | (issue) dep where "jm_get m i = Some dep" and "tr_ref dep \<noteq> None"
      and "prerequisites m (i # ids) gates out = prerequisites m ids gates (add_row dep out)"
  | (old_gate) dep where "jm_get m i = Some dep" and "tr_ref dep = None" and "i \<in> set gates"
      and "prerequisites m (i # ids) gates out = prerequisites m ids gates out"
  | (new_gate) dep gates' out' where "jm_get m i = Some dep" and "tr_ref dep = None" and "i \<notin> set gates"
      and "prerequisites m (tr_after dep) (i # gates) out = (gates', out')"
      and "prerequisites m (i # ids) gates out = prerequisites m ids gates' out'"
proof (cases "jm_get m i")
  case None
  then show thesis by (intro unknown) (simp_all add: prerequisites.simps(2) [of m i])
next
  case (Some dep)
  consider "tr_ref dep \<noteq> None" | "tr_ref dep = None" "i \<in> set gates" | "tr_ref dep = None" "i \<notin> set gates"
    by blast
  then show thesis
  proof cases
    case 1
    with Some show thesis by (intro issue) (simp_all add: prerequisites.simps(2) [of m i])
  next
    case 2
    with Some show thesis by (intro old_gate) (simp_all add: prerequisites.simps(2) [of m i])
  next
    case 3
    with Some show thesis
      by (intro new_gate [OF Some 3 surjective_pairing]) (simp add: prerequisites.simps(2) [of m i])
  qed
qed

lemma prerequisites_Nil [simp]: "prerequisites m [] gates out = (gates, out)"
  by (simp add: prerequisites.simps)

lemma prerequisites_grow:
  "set gates \<subseteq> set (fst (prerequisites m ids gates out)) \<and> set out \<subseteq> set (snd (prerequisites m ids gates out))"
proof (induction m ids gates out rule: prerequisites.induct)
  case (1 m gates out)
  then show ?case by simp
next
  case (2 m i ids gates out)
  show ?case
  proof (cases rule: prerequisites_cases [of m i ids gates out])
    case unknown
    with 2 show ?thesis by simp
  next
    case (issue dep)
    have "set gates \<subseteq> set (fst (prerequisites m ids gates (add_row dep out)))"
      "set (add_row dep out) \<subseteq> set (snd (prerequisites m ids gates (add_row dep out)))"
      using "2.IH"(2) [of dep] issue by auto
    then show ?thesis unfolding issue(3) using set_add_row(1) by blast
  next
    case (old_gate dep)
    with 2 show ?thesis by simp
  next
    case (new_gate dep gates' out')
    have "set gates \<subseteq> set gates'" "set out \<subseteq> set out'"
      using "2.IH"(4) [of dep] new_gate by auto
    moreover have "set gates' \<subseteq> set (fst (prerequisites m ids gates' out'))"
      "set out' \<subseteq> set (snd (prerequisites m ids gates' out'))"
      using "2.IH"(6) [of dep] new_gate by auto
    ultimately show ?thesis unfolding new_gate(5) by blast
  qed
qed

lemma prerequisites_sound:
  "d \<in> set (snd (prerequisites m ids gates out)) \<Longrightarrow> d \<in> set out \<or> waits_on m ids d"
proof (induction m ids gates out rule: prerequisites.induct)
  case (1 m gates out)
  then show ?case by simp
next
  case (2 m i ids gates out)
  have tail: "waits_on m ids d \<Longrightarrow> waits_on m (i # ids) d"
    by (erule waits_on_mono) auto
  show ?case
  proof (cases rule: prerequisites_cases [of m i ids gates out])
    case unknown
    with 2 tail show ?thesis by auto
  next
    case (issue dep)
    then have "waits_on m (i # ids) dep" by (auto intro: direct)
    with 2 issue tail set_add_row(2) [of dep out] show ?thesis by auto
  next
    case (old_gate dep)
    with 2 tail show ?thesis by auto
  next
    case (new_gate dep gates' out')
    have "waits_on m (tr_after dep) d \<Longrightarrow> waits_on m (i # ids) d"
      using new_gate by (auto intro: through_gate)
    with "2.IH"(4,6) [of dep] "2.prems" new_gate tail show ?thesis by auto
  qed
qed

lemma prerequisites_handled:
  "handled m (fst (prerequisites m ids gates out)) (snd (prerequisites m ids gates out)) ids"
proof (induction m ids gates out rule: prerequisites.induct)
  case (1 m gates out)
  then show ?case by (simp add: handled_def)
next
  case (2 m i ids gates out)
  let ?g = "fst (prerequisites m (i # ids) gates out)"
  let ?o = "snd (prerequisites m (i # ids) gates out)"
  have tail: "handled m ?g ?o ids"
    by (cases rule: prerequisites_cases [of m i ids gates out]) (use 2 in auto)
  moreover have "handled m ?g ?o [i]"
  proof (cases rule: prerequisites_cases [of m i ids gates out])
    case unknown
    then show ?thesis by (simp add: handled_def)
  next
    case (issue dep)
    then show ?thesis
      using prerequisites_grow [where m = m and ids = ids and gates = gates and out = "add_row dep out"] set_add_row(3) [of dep out]
      by (auto simp: handled_def)
  next
    case (old_gate dep)
    then show ?thesis
      using prerequisites_grow [where m = m and ids = ids and gates = gates and out = out] by (auto simp: handled_def)
  next
    case (new_gate dep gates' out')
    have "i \<in> set gates'"
      using prerequisites_grow [where m = m and ids = "tr_after dep" and gates = "i # gates" and out = out] new_gate by auto
    then have "i \<in> set ?g"
      using prerequisites_grow [where m = m and ids = ids and gates = gates' and out = out'] new_gate by auto
    with new_gate show ?thesis by (auto simp: handled_def)
  qed
  ultimately show ?case by (auto simp: handled_def)
qed

text \<open>Every gate the walk expanded has its own prerequisites dealt with.\<close>

lemma prerequisites_gates_handled:
  assumes "g \<in> set (fst (prerequisites m ids gates out))" and "g \<notin> set gates" and "jm_get m g = Some row"
  shows "handled m (fst (prerequisites m ids gates out)) (snd (prerequisites m ids gates out)) (tr_after row)"
  using assms
proof (induction m ids gates out rule: prerequisites.induct)
  case (1 m gates out)
  then show ?case by simp
next
  case (2 m i ids gates out)
  show ?case
  proof (cases rule: prerequisites_cases [of m i ids gates out])
    case unknown
    with 2 show ?thesis by simp
  next
    case (issue dep)
    with 2 show ?thesis by simp
  next
    case (old_gate dep)
    with 2 show ?thesis by simp
  next
    case (new_gate dep gates' out')
    have grow: "set gates' \<subseteq> set (fst (prerequisites m ids gates' out'))"
      "set out' \<subseteq> set (snd (prerequisites m ids gates' out'))"
      using prerequisites_grow by auto
    show ?thesis
    proof (cases "g \<in> set gates'")
      case False
      with "2.IH"(6) [of dep] "2.prems" new_gate show ?thesis by simp
    next
      case True
      have "handled m gates' out' (tr_after row)"
      proof (cases "g = i")
        case True
        with "2.prems" new_gate prerequisites_handled [of m "tr_after dep" "i # gates" out] show ?thesis by simp
      next
        case False
        with "2.IH"(4) [of dep] "2.prems" new_gate True show ?thesis by simp
      qed
      then have "handled m (fst (prerequisites m ids gates' out')) (snd (prerequisites m ids gates' out')) (tr_after row)"
        using grow by (rule handled_mono)
      with new_gate show ?thesis by simp
    qed
  qed
qed

lemma prerequisites_complete:
  assumes "waits_on m ids0 d"
    and "handled m (fst (prerequisites m ids [] [])) (snd (prerequisites m ids [] [])) ids0"
  shows "tr_id d \<in> tr_id ` set (snd (prerequisites m ids [] []))"
  using assms
proof (induction rule: waits_on.induct)
  case (direct i ids0 d)
  then show ?case unfolding handled_def by fastforce
next
  case (through_gate i ids0 g d)
  then have "i \<in> set (fst (prerequisites m ids [] []))" unfolding handled_def by fastforce
  then have "handled m (fst (prerequisites m ids [] [])) (snd (prerequisites m ids [] [])) (tr_after g)"
    using through_gate.hyps(2) by (intro prerequisites_gates_handled) simp_all
  then show ?case by (rule through_gate.IH)
qed

text \<open>The walk finds exactly the issue rows the specification names, cyclic gates included.\<close>

lemma waits_on_row: "waits_on m ids d \<Longrightarrow> \<exists>i. jm_get m i = Some d \<and> tr_ref d \<noteq> None"
  by (induction rule: waits_on.induct) auto

lemma prerequisites_exact:
  assumes "keyed m"
  shows "set (snd (prerequisites m ids [] [])) = {d. waits_on m ids d}"
proof
  show "set (snd (prerequisites m ids [] [])) \<subseteq> {d. waits_on m ids d}"
    using prerequisites_sound by fastforce
next
  show "{d. waits_on m ids d} \<subseteq> set (snd (prerequisites m ids [] []))"
  proof
    fix d
    assume "d \<in> {d. waits_on m ids d}"
    then have w: "waits_on m ids d" by simp
    then have "tr_id d \<in> tr_id ` set (snd (prerequisites m ids [] []))"
      by (rule prerequisites_complete) (rule prerequisites_handled)
    then obtain d' where d': "d' \<in> set (snd (prerequisites m ids [] []))" "tr_id d = tr_id d'" by auto
    then have "waits_on m ids d'" using prerequisites_sound by fastforce
    then obtain i i' where "jm_get m i = Some d" "jm_get m i' = Some d'"
      using w waits_on_row by meson
    with d' assms have "d = d'" unfolding keyed_def by (metis option.inject)
    with d' show "d \<in> set (snd (prerequisites m ids [] []))" by simp
  qed
qed

section \<open>The emitted edges\<close>

definition edge_key3 :: "edge \<Rightarrow> edge_type \<times> string \<times> string" where
  "edge_key3 e = (ed_type e, ep_external (ed_from e), ep_external (ed_to e))"

definition made_edge ::
  "endpoint \<Rightarrow> edge_type \<Rightarrow> string \<Rightarrow> item_state option \<Rightarrow> tracker_target \<Rightarrow> edge"
where
  "made_edge tracker type from fromState to =
     \<lparr>ed_type = type,
      ed_from = \<lparr>ep_source = ep_source tracker, ep_external = from\<rparr>,
      ed_to = \<lparr>ep_source = ep_source tracker, ep_external = tt_external to\<rparr>,
      ed_from_state = fromState, ed_to_state = tt_state to\<rparr>"

lemma made_edge_simps [simp]:
  "ed_type (made_edge t y f s to) = y"
  "ed_from (made_edge t y f s to) = \<lparr>ep_source = ep_source t, ep_external = f\<rparr>"
  "ed_to (made_edge t y f s to) = \<lparr>ep_source = ep_source t, ep_external = tt_external to\<rparr>"
  "ed_from_state (made_edge t y f s to) = s"
  "ed_to_state (made_edge t y f s to) = tt_state to"
  "edge_key3 (made_edge t y f s to) = (y, f, tt_external to)"
  by (simp_all add: made_edge_def edge_key3_def)

definition blocks_count :: "edge list \<Rightarrow> nat" where
  "blocks_count es = length (filter (\<lambda>e. ed_type e = Blocks) es)"

definition emit_inv :: "endpoint \<Rightarrow> emit_state \<Rightarrow> bool" where
  "emit_inv tracker st \<longleftrightarrow>
     em_seen st = map edge_key3 (em_edges st) \<and> distinct (em_seen st) \<and>
     (\<forall>e\<in>set (em_edges st).
        ep_source (ed_from e) = ep_source tracker \<and> ep_source (ed_to e) = ep_source tracker \<and>
        ep_external (ed_from e) \<noteq> ep_external (ed_to e) \<and> (ed_type e = Parent \<or> ed_type e = Blocks)) \<and>
     blocks_count (em_edges st) = em_blocks st \<and> em_blocks st \<le> TRACKER_MAX_BLOCKS_EDGES"

lemma push_cases:
  obtains (skipped) "push tracker type from fs to st = (False, st)"
      and "from = tt_external to \<or> (type, from, tt_external to) \<in> set (em_seen st)"
  | (pushed) st' where "push tracker type from fs to st = (True, st')"
      and "from \<noteq> tt_external to" and "(type, from, tt_external to) \<notin> set (em_seen st)"
      and "em_edges st' = em_edges st @ [made_edge tracker type from fs to]"
      and "em_seen st' = em_seen st @ [(type, from, tt_external to)]"
      and "em_blocks st' = em_blocks st"
  by (cases "from = tt_external to \<or> (type, from, tt_external to) \<in> set (em_seen st)")
    (auto simp: push_def Let_def made_edge_def intro: that)

lemma push_parent_inv:
  assumes "emit_inv tracker st"
  shows "emit_inv tracker (snd (push tracker Parent from fs to st))"
  using assms
  by (cases rule: push_cases [of tracker Parent "from" fs to st]) (auto simp: emit_inv_def blocks_count_def)

lemma push_blocks_inv:
  "emit_inv tracker st \<Longrightarrow> em_blocks st < TRACKER_MAX_BLOCKS_EDGES \<Longrightarrow>
   emit_inv tracker (push_blocks tracker resolve target deps st)"
proof (induction deps arbitrary: st)
  case Nil
  then show ?case by simp
next
  case (Cons dep deps)
  show ?case
  proof (cases "targetOf resolve dep")
    case None
    with Cons show ?thesis by simp
  next
    case (Some blocker)
    show ?thesis
    proof (cases rule: push_cases [of tracker Blocks "tt_external blocker" "tt_state blocker" target st])
      case skipped
      with Cons Some show ?thesis by simp
    next
      case (pushed st')
      let ?st = "st'\<lparr>em_blocks := Suc (em_blocks st')\<rparr>"
      have "emit_inv tracker ?st"
        using pushed Cons.prems by (auto simp: emit_inv_def blocks_count_def)
      with Cons pushed Some show ?thesis by (auto simp: Let_def)
    qed
  qed
qed

lemma emit_row_inv:
  "emit_inv tracker st \<Longrightarrow> emit_inv tracker (emit_row m tracker ts resolve row st)"
  unfolding emit_row_def
  by (auto simp: Let_def not_le split: option.split intro!: push_blocks_inv push_parent_inv)

lemma emit_rows_inv: "emit_inv tracker (emit_rows m tracker ts resolve rows)"
  unfolding emit_rows_def
proof (rule fold_invariant_list)
  show "emit_inv tracker \<lparr>em_edges = [], em_seen = [], em_blocks = 0\<rparr>"
    by (simp add: emit_inv_def blocks_count_def)
qed (rule emit_row_inv)

subsection \<open>Which edges\<close>

lemma push_edges:
  "set (em_edges (snd (push tracker y f s to st)))
     \<subseteq> insert (made_edge tracker y f s to) (set (em_edges st))"
  "set (em_edges st) \<subseteq> set (em_edges (snd (push tracker y f s to st)))"
  "em_blocks (snd (push tracker y f s to st)) = em_blocks st"
  by (cases rule: push_cases [of tracker y f s to st]; auto)+

lemma push_key:
  assumes "emit_inv tracker st" and "f \<noteq> tt_external to"
  shows "(y, f, tt_external to) \<in> edge_key3 ` set (em_edges (snd (push tracker y f s to st)))"
  using assms
  by (cases rule: push_cases [of tracker y f s to st]) (auto simp: emit_inv_def)

lemma push_blocks_sound:
  "e \<in> set (em_edges (push_blocks tracker resolve target deps st)) \<Longrightarrow>
   e \<in> set (em_edges st) \<or>
   (\<exists>dep\<in>set deps. \<exists>b. targetOf resolve dep = Some b \<and> tt_external b \<noteq> tt_external target \<and>
      e = made_edge tracker Blocks (tt_external b) (tt_state b) target)"
proof (induction deps arbitrary: st)
  case Nil
  then show ?case by simp
next
  case (Cons dep deps)
  show ?case
  proof (cases "targetOf resolve dep")
    case None
    with Cons show ?thesis by auto
  next
    case (Some b)
    show ?thesis
    proof (cases rule: push_cases [of tracker Blocks "tt_external b" "tt_state b" target st])
      case skipped
      with Cons Some show ?thesis by auto
    next
      case (pushed st')
      have "e \<in> set (em_edges st') \<or>
        (\<exists>dep\<in>set deps. \<exists>b. targetOf resolve dep = Some b \<and> tt_external b \<noteq> tt_external target \<and>
           e = made_edge tracker Blocks (tt_external b) (tt_state b) target)"
        using Cons.prems Cons.IH [of "st'\<lparr>em_blocks := Suc (em_blocks st')\<rparr>"] Some pushed
        by (auto simp: Let_def split: if_splits)
      with Some pushed show ?thesis by auto
    qed
  qed
qed

lemma push_blocks_grow:
  "set (em_edges st) \<subseteq> set (em_edges (push_blocks tracker resolve target deps st)) \<and>
   em_blocks st \<le> em_blocks (push_blocks tracker resolve target deps st)"
proof (induction deps arbitrary: st)
  case Nil
  then show ?case by simp
next
  case (Cons dep deps)
  show ?case
  proof (cases "targetOf resolve dep")
    case None
    with Cons show ?thesis by simp
  next
    case (Some b)
    show ?thesis
    proof (cases rule: push_cases [of tracker Blocks "tt_external b" "tt_state b" target st])
      case skipped
      with Cons Some show ?thesis by simp
    next
      case (pushed st')
      with Cons.IH [of "st'\<lparr>em_blocks := Suc (em_blocks st')\<rparr>"] Some show ?thesis
        by (auto simp: Let_def)
    qed
  qed
qed

text \<open>While the bound is not reached, no dependency is dropped.\<close>

lemma push_blocks_complete:
  assumes "emit_inv tracker st" and "em_blocks st < TRACKER_MAX_BLOCKS_EDGES"
    and "em_blocks (push_blocks tracker resolve target deps st) < TRACKER_MAX_BLOCKS_EDGES"
    and "dep \<in> set deps" and "targetOf resolve dep = Some b" and "tt_external b \<noteq> tt_external target"
  shows "(Blocks, tt_external b, tt_external target)
           \<in> edge_key3 ` set (em_edges (push_blocks tracker resolve target deps st))"
  using assms(1-4)
proof (induction deps arbitrary: st)
  case Nil
  then show ?case by simp
next
  case (Cons d deps)
  show ?case
  proof (cases "targetOf resolve d")
    case None
    with Cons assms(5) show ?thesis by auto
  next
    case (Some c)
    show ?thesis
    proof (cases rule: push_cases [of tracker Blocks "tt_external c" "tt_state c" target st])
      case skipped
      then have eq: "push_blocks tracker resolve target (d # deps) st = push_blocks tracker resolve target deps st"
        using Some by simp
      show ?thesis
      proof (cases "dep = d")
        case True
        with skipped(2) assms(5,6) Some have "(Blocks, tt_external b, tt_external target) \<in> set (em_seen st)" by simp
        then have "(Blocks, tt_external b, tt_external target) \<in> edge_key3 ` set (em_edges st)"
          using Cons.prems(1) by (simp add: emit_inv_def)
        then show ?thesis unfolding eq using push_blocks_grow by (metis (no_types, lifting) image_mono subsetD)
      next
        case False
        with Cons eq show ?thesis by simp
      qed
    next
      case (pushed st')
      let ?st = "st'\<lparr>em_blocks := Suc (em_blocks st')\<rparr>"
      have lt: "em_blocks ?st < TRACKER_MAX_BLOCKS_EDGES"
        using Cons.prems(2,3) Some pushed by (auto simp: Let_def split: if_splits)
      then have eq: "push_blocks tracker resolve target (d # deps) st = push_blocks tracker resolve target deps ?st"
        using Some pushed by (simp add: Let_def)
      have inv: "emit_inv tracker ?st"
        using pushed Cons.prems(1,2) by (auto simp: emit_inv_def blocks_count_def)
      show ?thesis
      proof (cases "dep = d")
        case True
        then have "made_edge tracker Blocks (tt_external b) (tt_state b) target \<in> set (em_edges ?st)"
          using pushed assms(5) Some by simp
        then have "made_edge tracker Blocks (tt_external b) (tt_state b) target
            \<in> set (em_edges (push_blocks tracker resolve target deps ?st))"
          using push_blocks_grow by blast
        then show ?thesis unfolding eq by (metis made_edge_simps(6) imageI)
      next
        case False
        with Cons inv lt eq show ?thesis by simp
      qed
    qed
  qed
qed

text \<open>What a row adds, and that nothing emitted is taken back.\<close>

definition row_edge ::
  "(string, tracker_row) jsmap \<Rightarrow> endpoint \<Rightarrow> item_state option \<Rightarrow> (tracker_ref \<Rightarrow> tracker_target option) \<Rightarrow>
   tracker_row \<Rightarrow> edge \<Rightarrow> bool"
where
  "row_edge m tracker ts resolve row e \<longleftrightarrow>
     (\<exists>target. targetOf resolve row = Some target \<and>
        (e = made_edge tracker Parent (ep_external tracker) ts target \<or>
         (\<exists>dep b. waits_on m (tr_after row) dep \<and> targetOf resolve dep = Some b \<and>
            tt_external b \<noteq> tt_external target \<and>
            e = made_edge tracker Blocks (tt_external b) (tt_state b) target)))"

lemma emit_row_sound:
  assumes "e \<in> set (em_edges (emit_row m tracker ts resolve row st))"
  shows "e \<in> set (em_edges st) \<or> row_edge m tracker ts resolve row e"
proof (cases "targetOf resolve row")
  case None
  with assms show ?thesis by (simp add: emit_row_def)
next
  case (Some target)
  let ?st = "snd (push tracker Parent (ep_external tracker) ts target st)"
  let ?deps = "snd (prerequisites m (tr_after row) [] [])"
  have "e \<in> set (em_edges ?st) \<or> e \<in> set (em_edges (push_blocks tracker resolve target ?deps ?st))"
    using assms Some by (auto simp: emit_row_def Let_def split: if_splits)
  moreover have "waits_on m (tr_after row) dep" if "dep \<in> set ?deps" for dep
    using prerequisites_sound [OF that] by simp
  ultimately show ?thesis
    using push_edges(1) [of tracker Parent "ep_external tracker" ts target st] Some
    by (auto simp: row_edge_def dest!: push_blocks_sound)
qed

lemma emit_row_grow:
  "set (em_edges st) \<subseteq> set (em_edges (emit_row m tracker ts resolve row st)) \<and>
   em_blocks st \<le> em_blocks (emit_row m tracker ts resolve row st)"
proof (cases "targetOf resolve row")
  case None
  then show ?thesis by (simp add: emit_row_def)
next
  case (Some target)
  let ?st = "snd (push tracker Parent (ep_external tracker) ts target st)"
  have "set (em_edges st) \<subseteq> set (em_edges ?st)" and "em_blocks ?st = em_blocks st"
    by (rule push_edges)+
  with Some push_blocks_grow [of ?st tracker resolve target] show ?thesis
    by (fastforce simp: emit_row_def Let_def)
qed

lemma emit_row_parent:
  assumes "emit_inv tracker st" and "targetOf resolve row = Some t" and "tt_external t \<noteq> ep_external tracker"
  shows "(Parent, ep_external tracker, tt_external t) \<in> edge_key3 ` set (em_edges (emit_row m tracker ts resolve row st))"
proof -
  let ?st = "snd (push tracker Parent (ep_external tracker) ts t st)"
  have "(Parent, ep_external tracker, tt_external t) \<in> edge_key3 ` set (em_edges ?st)"
    using assms by (intro push_key) auto
  moreover have "set (em_edges ?st) \<subseteq> set (em_edges (emit_row m tracker ts resolve row st))"
    using assms(2) push_blocks_grow [of ?st tracker resolve t] by (auto simp: emit_row_def Let_def)
  ultimately show ?thesis by (metis image_mono subsetD)
qed

lemma emit_row_blocks:
  assumes "keyed m" and "emit_inv tracker st"
    and "em_blocks (emit_row m tracker ts resolve row st) < TRACKER_MAX_BLOCKS_EDGES"
    and "targetOf resolve row = Some t" and "waits_on m (tr_after row) dep"
    and "targetOf resolve dep = Some b" and "tt_external b \<noteq> tt_external t"
  shows "(Blocks, tt_external b, tt_external t) \<in> edge_key3 ` set (em_edges (emit_row m tracker ts resolve row st))"
proof -
  let ?st = "snd (push tracker Parent (ep_external tracker) ts t st)"
  let ?deps = "snd (prerequisites m (tr_after row) [] [])"
  have "dep \<in> set ?deps" using assms(1,5) by (simp add: prerequisites_exact)
  have lt: "em_blocks ?st < TRACKER_MAX_BLOCKS_EDGES"
    using assms(3,4) push_blocks_grow [of ?st tracker resolve t ?deps]
    by (auto simp: emit_row_def Let_def split: if_splits)
  then have eq: "emit_row m tracker ts resolve row st = push_blocks tracker resolve t ?deps ?st"
    using assms(4) by (simp add: emit_row_def Let_def)
  show ?thesis
    using push_parent_inv [OF assms(2)] lt assms(3) \<open>dep \<in> set ?deps\<close> assms(6,7)
    unfolding eq by (rule push_blocks_complete)
qed

text \<open>Lifting a fact of one row to the whole table.\<close>

lemma fold_emit_grow:
  "set (em_edges st) \<subseteq> set (em_edges (fold (emit_row m tracker ts resolve) rows st)) \<and>
   em_blocks st \<le> em_blocks (fold (emit_row m tracker ts resolve) rows st)"
proof (induction rows arbitrary: st)
  case (Cons row rows)
  then show ?case
    using emit_row_grow [of st m tracker ts resolve row] by (fastforce intro: order_trans)
qed simp

lemma emit_rows_sound:
  "e \<in> set (em_edges (emit_rows m tracker ts resolve rows)) \<Longrightarrow> \<exists>row\<in>set rows. row_edge m tracker ts resolve row e"
proof -
  have "e \<in> set (em_edges (fold (emit_row m tracker ts resolve) rows st)) \<Longrightarrow>
    e \<in> set (em_edges st) \<or> (\<exists>row\<in>set rows. row_edge m tracker ts resolve row e)" for st
    by (induction rows arbitrary: st) (auto dest: emit_row_sound)
  from this [of "\<lparr>em_edges = [], em_seen = [], em_blocks = 0\<rparr>"]
  show "e \<in> set (em_edges (emit_rows m tracker ts resolve rows)) \<Longrightarrow> \<exists>row\<in>set rows. row_edge m tracker ts resolve row e"
    by (simp add: emit_rows_def)
qed

lemma emit_rows_at:
  assumes "row \<in> set rows"
  obtains st where "emit_inv tracker st"
    and "set (em_edges (emit_row m tracker ts resolve row st)) \<subseteq> set (em_edges (emit_rows m tracker ts resolve rows))"
    and "em_blocks (emit_row m tracker ts resolve row st) \<le> em_blocks (emit_rows m tracker ts resolve rows)"
proof -
  obtain pre post where rows: "rows = pre @ row # post" using assms by (meson split_list)
  let ?st = "emit_rows m tracker ts resolve pre"
  have "emit_rows m tracker ts resolve rows
      = fold (emit_row m tracker ts resolve) post (emit_row m tracker ts resolve row ?st)"
    by (simp add: emit_rows_def rows)
  then show thesis
    using that [of ?st] emit_rows_inv fold_emit_grow by metis
qed

section \<open>Properties\<close>

text \<open>
  Claim C12. Gate contraction is exact, cycles of gates included: the walk of one row returns each
  issue row the row waits on, directly or behind gates, exactly once, and nothing else.
\<close>

theorem tracker_prerequisites_exact:
  "set (snd (prerequisites (byId rows) ids [] [])) = {d. waits_on (byId rows) ids d} \<and>
   distinct (map tr_id (snd (prerequisites (byId rows) ids [] [])))"
proof
  show "set (snd (prerequisites (byId rows) ids [] [])) = {d. waits_on (byId rows) ids d}"
    by (rule prerequisites_exact) (rule keyed_byId)
  have "distinct (map tr_id out) \<Longrightarrow> distinct (map tr_id (snd (prerequisites m ids gates out)))" for m gates out
  proof (induction m ids gates out rule: prerequisites.induct)
    case (1 m gates out)
    then show ?case by simp
  next
    case (2 m i ids gates out)
    show ?case
      by (cases rule: prerequisites_cases [of m i ids gates out])
        (use "2.IH"(1,3) "2.IH"(2,4,6) "2.prems" in \<open>auto simp: add_row_def\<close>)
  qed
  then show "distinct (map tr_id (snd (prerequisites (byId rows) ids [] [])))" by simp
qed

text \<open>
  Claim C13. The edges of a tracker are exactly the ones its table states: while fewer than
  \<open>TRACKER_MAX_BLOCKS_EDGES\<close> \<open>blocks\<close> edges are emitted, a \<open>blocks\<close> edge from \<open>x\<close> to \<open>y\<close> is present iff
  some row resolved to \<open>y\<close> waits on a row resolved to another item \<open>x\<close>.
\<close>

theorem trackerEdges_blocks_iff:
  assumes "blocks_count (trackerEdges rows tracker ts resolve) < TRACKER_MAX_BLOCKS_EDGES"
  shows "(Blocks, x, y) \<in> edge_key3 ` set (trackerEdges rows tracker ts resolve) \<longleftrightarrow>
     (\<exists>row\<in>set rows. \<exists>d a b. waits_on (byId rows) (tr_after row) d \<and>
        targetOf resolve d = Some a \<and> targetOf resolve row = Some b \<and>
        tt_external a = x \<and> tt_external b = y \<and> x \<noteq> y)" (is "?L \<longleftrightarrow> ?R")
proof
  assume ?L
  then obtain e where "e \<in> set (trackerEdges rows tracker ts resolve)" and k: "edge_key3 e = (Blocks, x, y)"
    by force
  then obtain row where "row \<in> set rows" and "row_edge (byId rows) tracker ts resolve row e"
    unfolding trackerEdges_def by (blast dest: emit_rows_sound)
  with k show ?R unfolding row_edge_def by fastforce
next
  assume ?R
  then obtain row d a b where *: "row \<in> set rows" "waits_on (byId rows) (tr_after row) d"
    "targetOf resolve d = Some a" "targetOf resolve row = Some b" "tt_external a = x" "tt_external b = y" "x \<noteq> y"
    by blast
  from \<open>row \<in> set rows\<close> obtain st where st: "emit_inv tracker st"
    "set (em_edges (emit_row (byId rows) tracker ts resolve row st)) \<subseteq> set (trackerEdges rows tracker ts resolve)"
    "em_blocks (emit_row (byId rows) tracker ts resolve row st) \<le> em_blocks (emit_rows (byId rows) tracker ts resolve rows)"
    unfolding trackerEdges_def by (rule emit_rows_at)
  have "em_blocks (emit_rows (byId rows) tracker ts resolve rows) < TRACKER_MAX_BLOCKS_EDGES"
    using assms emit_rows_inv [of tracker "byId rows" ts resolve rows] by (simp add: trackerEdges_def emit_inv_def)
  with st have "em_blocks (emit_row (byId rows) tracker ts resolve row st) < TRACKER_MAX_BLOCKS_EDGES" by simp
  then have "(Blocks, x, y) \<in> edge_key3 ` set (em_edges (emit_row (byId rows) tracker ts resolve row st))"
    using emit_row_blocks [OF keyed_byId st(1)] * by blast
  with st(2) show ?L by blast
qed

text \<open>
  The witness: \<open>C\<close> waits on the gate \<open>G\<close>, which waits on the issue \<open>A\<close> and on itself.
\<close>

definition sample_ref :: "nat \<Rightarrow> tracker_ref" where
  "sample_ref n = \<lparr>tf_owner = None, tf_repo = None, tf_number = n\<rparr>"

definition sample_rows :: "tracker_row list" where
  "sample_rows =
     [\<lparr>tr_id = ''A'', tr_title = ''a'', tr_ref = Some (sample_ref 1), tr_notes = None, tr_after = [],
       tr_done = True, tr_phase = None\<rparr>,
      \<lparr>tr_id = ''G'', tr_title = ''g'', tr_ref = None, tr_notes = None, tr_after = [''A'', ''G''],
       tr_done = False, tr_phase = None\<rparr>,
      \<lparr>tr_id = ''C'', tr_title = ''c'', tr_ref = Some (sample_ref 2), tr_notes = None, tr_after = [''G''],
       tr_done = False, tr_phase = None\<rparr>]"

definition sample_resolve :: "tracker_ref \<Rightarrow> tracker_target option" where
  "sample_resolve r = Some \<lparr>tt_external = nat_str (tf_number r), tt_state = Some Open\<rparr>"

definition sample_tracker :: endpoint where
  "sample_tracker = \<lparr>ep_source = ''github:h'', ep_external = ''T''\<rparr>"

lemma nat_str_small: "nat_str 1 = ''1''" "nat_str 2 = ''2''" "nat_str (Suc 0) = ''1''"
  by code_simp+

lemma sample_edges:
  "map edge_key3 (trackerEdges sample_rows sample_tracker None sample_resolve)
     = [(Parent, ''T'', ''1''), (Parent, ''T'', ''2''), (Blocks, ''1'', ''2'')]"
  by (simp add: trackerEdges_def emit_rows_def emit_row_def sample_rows_def sample_resolve_def sample_ref_def
      sample_tracker_def targetOf_def byId_def jm_get_def push_def Let_def prerequisites.simps
      add_row_def TRACKER_MAX_BLOCKS_EDGES_def nat_str_small edge_key3_def)

lemma sample_blocks_count:
  "blocks_count (trackerEdges sample_rows sample_tracker None sample_resolve) < TRACKER_MAX_BLOCKS_EDGES"
proof -
  have "blocks_count es = length (filter (\<lambda>k. fst k = Blocks) (map edge_key3 es))" for es
    by (induction es) (auto simp: blocks_count_def edge_key3_def)
  then show ?thesis by (simp only: sample_edges) (simp add: TRACKER_MAX_BLOCKS_EDGES_def)
qed

theorem trackerEdges_blocks_iff_witness:
  "\<exists>row\<in>set sample_rows. \<exists>d a b. waits_on (byId sample_rows) (tr_after row) d \<and>
     targetOf sample_resolve d = Some a \<and> targetOf sample_resolve row = Some b \<and>
     tt_external a = ''1'' \<and> tt_external b = ''2'' \<and> ''1'' \<noteq> ''2''"
proof -
  have "(Blocks, ''1'', ''2'') \<in> set (map edge_key3 (trackerEdges sample_rows sample_tracker None sample_resolve))"
    unfolding sample_edges by simp
  then show ?thesis
    using trackerEdges_blocks_iff [OF sample_blocks_count, of "''1''" "''2''"] by simp
qed

text \<open>
  Whatever the table says, a tracker emits at most \<open>TRACKER_MAX_BLOCKS_EDGES\<close> \<open>blocks\<close>
  edges; no edge is emitted twice, none links an item to itself, both ends are in the tracker's own
  source, and the \<open>parent\<close> edges are those from the tracker to the resolved issues of its rows.
\<close>

theorem trackerEdges_bounded:
  "blocks_count (trackerEdges rows tracker ts resolve) \<le> TRACKER_MAX_BLOCKS_EDGES \<and>
   distinct (map edge_key3 (trackerEdges rows tracker ts resolve)) \<and>
   set (map (\<lambda>e. ep_source (ed_from e)) (trackerEdges rows tracker ts resolve)
        @ map (\<lambda>e. ep_source (ed_to e)) (trackerEdges rows tracker ts resolve)) \<subseteq> {ep_source tracker} \<and>
   (x, y, y) \<notin> edge_key3 ` set (trackerEdges rows tracker ts resolve) \<and>
   {(f, y). (Parent, f, y) \<in> edge_key3 ` set (trackerEdges rows tracker ts resolve)}
     = {(ep_external tracker, tt_external t) | t row.
          row \<in> set rows \<and> targetOf resolve row = Some t \<and> tt_external t \<noteq> ep_external tracker}"
proof -
  have inv: "emit_inv tracker (emit_rows (byId rows) tracker ts resolve rows)"
    by (rule emit_rows_inv)
  have parents: "{(f, y). (Parent, f, y) \<in> edge_key3 ` set (trackerEdges rows tracker ts resolve)}
     = {(ep_external tracker, tt_external t) | t row.
          row \<in> set rows \<and> targetOf resolve row = Some t \<and> tt_external t \<noteq> ep_external tracker}" (is "?L = ?R")
  proof (intro equalityI subrelI)
    fix f y
    assume "(f, y) \<in> ?L"
    then obtain e where e: "e \<in> set (trackerEdges rows tracker ts resolve)" "edge_key3 e = (Parent, f, y)"
      by force
    then obtain row where "row \<in> set rows" "row_edge (byId rows) tracker ts resolve row e"
      unfolding trackerEdges_def by (blast dest: emit_rows_sound)
    moreover have "f \<noteq> y" using e inv by (auto simp: emit_inv_def edge_key3_def trackerEdges_def)
    ultimately show "(f, y) \<in> ?R" using e(2) unfolding row_edge_def by fastforce
  next
    fix f y
    assume "(f, y) \<in> ?R"
    then obtain t row where *: "f = ep_external tracker" "y = tt_external t" "row \<in> set rows"
      "targetOf resolve row = Some t" "tt_external t \<noteq> ep_external tracker" by auto
    obtain st where "emit_inv tracker st"
      "set (em_edges (emit_row (byId rows) tracker ts resolve row st)) \<subseteq> set (trackerEdges rows tracker ts resolve)"
      unfolding trackerEdges_def using *(3) by (rule emit_rows_at)
    with emit_row_parent [of tracker st resolve row t "byId rows" ts] * show "(f, y) \<in> ?L" by blast
  qed
  from inv have "blocks_count (trackerEdges rows tracker ts resolve) \<le> TRACKER_MAX_BLOCKS_EDGES"
    "distinct (map edge_key3 (trackerEdges rows tracker ts resolve))"
    "set (map (\<lambda>e. ep_source (ed_from e)) (trackerEdges rows tracker ts resolve)
        @ map (\<lambda>e. ep_source (ed_to e)) (trackerEdges rows tracker ts resolve)) \<subseteq> {ep_source tracker}"
    "(x, y, y) \<notin> edge_key3 ` set (trackerEdges rows tracker ts resolve)"
    by (auto simp: emit_inv_def trackerEdges_def edge_key3_def)
  with parents show ?thesis by blast
qed

end
