(* ===== verification/Js_Date.thy ===== *)
theory Js_Date
  imports Js_String
begin

text \<open>
  The part of the JavaScript \<open>Date\<close> the program uses, on the proleptic Gregorian calendar:
  \<open>Date.UTC\<close>, \<open>toISOString\<close> and \<open>Date.parse\<close> on the ISO format.  An instant is a number of
  milliseconds since 1970-01-01T00:00:00Z; \<open>NaN\<close> is \<open>None\<close>.  \<open>Date.parse\<close> is modelled on dates
  and on date-times that carry \<open>Z\<close> or an offset, the forms the providers and the program itself
  write; other texts, which the language leaves to the implementation, are \<open>NaN\<close> here.
\<close>

section \<open>The calendar\<close>

definition is_leap :: "int \<Rightarrow> bool" where
  "is_leap y \<longleftrightarrow> 4 dvd y \<and> (\<not> 100 dvd y \<or> 400 dvd y)"

text \<open>Days from 1970-01-01 to the first day of a year, and days of a year before a month (1 to 12).\<close>

definition year_start :: "int \<Rightarrow> int" where
  "year_start y = 365 * (y - 1970) + (y - 1) div 4 - (y - 1) div 100 + (y - 1) div 400 - 477"

definition month_start :: "bool \<Rightarrow> int \<Rightarrow> int" where
  "month_start leap m =
     (if m \<le> 1 then 0 else if m = 2 then 31
      else (if m = 3 then 59 else if m = 4 then 90 else if m = 5 then 120 else if m = 6 then 151
            else if m = 7 then 181 else if m = 8 then 212 else if m = 9 then 243
            else if m = 10 then 273 else if m = 11 then 304 else if m = 12 then 334 else 365)
           + (if leap then 1 else 0))"

text \<open>\<open>MakeDay\<close> with a month from 0, which may run over, and any day number.\<close>

definition make_day :: "int \<Rightarrow> int \<Rightarrow> int \<Rightarrow> int" where
  "make_day y m d =
     (let y' = y + m div 12 in year_start y' + month_start (is_leap y') (m mod 12 + 1) + (d - 1))"

definition ms_per_day :: int where
  "ms_per_day = 86400000"

definition make_time :: "int \<Rightarrow> int \<Rightarrow> int \<Rightarrow> int \<Rightarrow> int" where
  "make_time h mi s ms = ((h * 60 + mi) * 60 + s) * 1000 + ms"

text \<open>\<open>Date.UTC\<close> reads the years 0 to 99 as 1900 to 1999.\<close>

definition date_utc :: "int \<Rightarrow> int \<Rightarrow> int \<Rightarrow> int \<Rightarrow> int \<Rightarrow> int \<Rightarrow> int \<Rightarrow> int" where
  "date_utc y m d h mi s ms =
     make_day (if 0 \<le> y \<and> y \<le> 99 then 1900 + y else y) m d * ms_per_day + make_time h mi s ms"

definition year_of_day :: "int \<Rightarrow> int" where
  "year_of_day n =
     (let y = (400 * (n + 719162)) div 146097 + 1 in
      if year_start (y + 1) \<le> n then y + 1 else if n < year_start y then y - 1 else y)"

definition month_of_day :: "bool \<Rightarrow> int \<Rightarrow> int" where
  "month_of_day leap r =
     (if r < month_start leap 2 then 1 else if r < month_start leap 3 then 2
      else if r < month_start leap 4 then 3 else if r < month_start leap 5 then 4
      else if r < month_start leap 6 then 5 else if r < month_start leap 7 then 6
      else if r < month_start leap 8 then 7 else if r < month_start leap 9 then 8
      else if r < month_start leap 10 then 9 else if r < month_start leap 11 then 10
      else if r < month_start leap 12 then 11 else 12)"

record civil =
  cv_year :: int
  cv_month :: int
  cv_day :: int

definition civil_of_day :: "int \<Rightarrow> civil" where
  "civil_of_day n =
     (let y = year_of_day n; r = n - year_start y; m = month_of_day (is_leap y) r in
      \<lparr>cv_year = y, cv_month = m, cv_day = r - month_start (is_leap y) m + 1\<rparr>)"

lemma div_bounds:
  assumes "0 < (k::int)"
  shows "k * (x div k) \<le> x" and "x < k * (x div k) + k"
proof -
  have "k * (x div k) + x mod k = x" by simp
  moreover have "0 \<le> x mod k" "x mod k < k" using assms by simp_all
  ultimately show "k * (x div k) \<le> x" "x < k * (x div k) + k" by linarith+
qed

lemma div_pred:
  assumes "0 < (k::int)"
  shows "y div k = (y - 1) div k + (if k dvd y then 1 else 0)"
proof (cases "k dvd y")
  case True
  then obtain q where q: "y = k * q" by (elim dvdE)
  have "(y - 1) div k = q - 1"
    by (rule int_div_pos_eq [where r = "k - 1"]) (use assms q in \<open>auto simp: algebra_simps\<close>)
  with q assms show ?thesis by simp
next
  case False
  define r where "r = y mod k"
  have r: "1 \<le> r" "r < k" "y = k * (y div k) + r"
  proof -
    have "0 \<le> r" "r \<noteq> 0" using assms False by (simp_all add: r_def dvd_eq_mod_eq_0)
    then show "1 \<le> r" by linarith
  qed (use assms in \<open>simp_all add: r_def\<close>)
  have "(y - 1) div k = y div k"
    by (rule int_div_pos_eq [where r = "r - 1"]) (use r in auto)
  with False show ?thesis by simp
qed

lemma year_length: "year_start (y + 1) = year_start y + (if is_leap y then 366 else 365)"
proof -
  define a b c a' b' c' where "a = (y - 1) div 4" and "b = (y - 1) div 100" and "c = (y - 1) div 400"
    and "a' = y div 4" and "b' = y div 100" and "c' = y div 400"
  have "400 dvd y \<Longrightarrow> 100 dvd y" "100 dvd y \<Longrightarrow> 4 dvd y"
    using dvd_trans [of 100 400 y] dvd_trans [of 4 100 y] by simp_all
  moreover have "a' = a + (if 4 dvd y then 1 else 0)" "b' = b + (if 100 dvd y then 1 else 0)"
    "c' = c + (if 400 dvd y then 1 else 0)"
    unfolding a_def b_def c_def a'_def b'_def c'_def by (rule div_pred, simp)+
  moreover have "year_start (y + 1) = 365 * (y - 1969) + a' - b' + c' - 477"
    "year_start y = 365 * (y - 1970) + a - b + c - 477"
    by (simp_all add: year_start_def a_def b_def c_def a'_def b'_def c'_def)
  ultimately show ?thesis
    unfolding is_leap_def by (cases "4 dvd y"; cases "100 dvd y"; cases "400 dvd y") simp_all
qed

lemma year_start_approx:
  "400 * year_start y \<le> 146097 * y - 287810497"
  "146097 * y - 287811600 \<le> 400 * year_start y"
proof -
  define a b c where "a = (y - 1) div 4" and "b = (y - 1) div 100" and "c = (y - 1) div 400"
  have a: "4 * a \<le> y - 1" "y - 1 \<le> 4 * a + 3"
    unfolding a_def using div_bounds [of 4 "y - 1"] by simp_all
  have b: "100 * b \<le> y - 1" "y - 1 \<le> 100 * b + 99"
    unfolding b_def using div_bounds [of 100 "y - 1"] by simp_all
  have c: "400 * c \<le> y - 1" "y - 1 \<le> 400 * c + 399"
    unfolding c_def using div_bounds [of 400 "y - 1"] by simp_all
  have y: "year_start y = 365 * (y - 1970) + a - b + c - 477"
    by (simp add: year_start_def a_def b_def c_def)
  have "400 * year_start y = 146000 * y - 287810800 + 400 * a - 400 * b + 400 * c"
    unfolding y by simp
  then show "400 * year_start y \<le> 146097 * y - 287810497" "146097 * y - 287811600 \<le> 400 * year_start y"
    using a b c by linarith+
qed

lemma year_of_day_bounds: "year_start (year_of_day n) \<le> n \<and> n < year_start (year_of_day n + 1)"
proof -
  define q where "q = (400 * (n + 719162)) div 146097"
  have q: "146097 * q \<le> 400 * n + 287664800" "400 * n + 287664800 < 146097 * q + 146097"
    unfolding q_def using div_bounds [of 146097 "400 * (n + 719162)"] by simp_all
  have lo: "year_start q \<le> n"
    using year_start_approx(1) [of q] q by linarith
  have hi: "n < year_start (q + 3)"
    using year_start_approx(2) [of "q + 3"] q by (simp add: algebra_simps)
  show ?thesis
    using lo hi unfolding year_of_day_def q_def [symmetric] Let_def by (auto simp: add.commute)
qed

lemma month_of_day_bounds:
  assumes "0 \<le> r" and "r < (if leap then 366 else 365)"
  shows "1 \<le> month_of_day leap r \<and> month_of_day leap r \<le> 12 \<and>
    month_start leap (month_of_day leap r) \<le> r \<and> r < month_start leap (month_of_day leap r + 1)"
  using assms by (auto simp: month_of_day_def month_start_def)

lemma civil_of_day_correct:
  "make_day (cv_year (civil_of_day n)) (cv_month (civil_of_day n) - 1) (cv_day (civil_of_day n)) = n \<and>
   1 \<le> cv_month (civil_of_day n) \<and> cv_month (civil_of_day n) \<le> 12 \<and>
   1 \<le> cv_day (civil_of_day n) \<and> cv_day (civil_of_day n) \<le> 31"
proof -
  let ?y = "year_of_day n"
  let ?r = "n - year_start ?y"
  let ?m = "month_of_day (is_leap ?y) ?r"
  have r: "0 \<le> ?r" "?r < (if is_leap ?y then 366 else 365)"
    using year_of_day_bounds [of n] year_length [of ?y] by auto
  have m: "1 \<le> ?m" "?m \<le> 12" "month_start (is_leap ?y) ?m \<le> ?r" "?r < month_start (is_leap ?y) (?m + 1)"
    using month_of_day_bounds [OF r] by auto
  have "month_start l (k + 1) \<le> month_start l k + 31" if "1 \<le> k" for l k
    using that by (auto simp: month_start_def)
  from this [OF m(1), of "is_leap ?y"] m(4) have "?r - month_start (is_leap ?y) ?m + 1 \<le> 31" by linarith
  moreover have "(?m - 1) div 12 = 0" "(?m - 1) mod 12 = ?m - 1" using m by auto
  ultimately show ?thesis using m by (simp add: civil_of_day_def Let_def make_day_def)
qed

section \<open>toISOString\<close>

text \<open>\<open>padStart(w, "0")\<close> on a decimal numeral.\<close>

definition pad :: "nat \<Rightarrow> nat \<Rightarrow> string" where
  "pad w n = replicate (w - length (nat_str n)) CHR ''0'' @ nat_str n"

definition max_time :: int where
  "max_time = 8640000000000000"

definition time_clip :: "int \<Rightarrow> int option" where
  "time_clip t = (if \<bar>t\<bar> \<le> max_time then Some t else None)"

definition iso_year :: "int \<Rightarrow> string" where
  "iso_year y =
     (if 0 \<le> y \<and> y \<le> 9999 then pad 4 (nat y)
      else (if y < 0 then CHR ''-'' else CHR ''+'') # pad 6 (nat \<bar>y\<bar>))"

definition iso_date :: "int \<Rightarrow> string" where
  "iso_date day =
     (let c = civil_of_day day in
      iso_year (cv_year c) @ ''-'' @ pad 2 (nat (cv_month c)) @ ''-'' @ pad 2 (nat (cv_day c)))"

definition time_text :: "nat \<Rightarrow> nat \<Rightarrow> nat \<Rightarrow> nat \<Rightarrow> string" where
  "time_text h mi s ms = pad 2 h @ '':'' @ pad 2 mi @ '':'' @ pad 2 s @ ''.'' @ pad 3 ms @ ''Z''"

definition iso_time :: "int \<Rightarrow> string" where
  "iso_time t =
     time_text (nat (t div 3600000)) (nat (t div 60000 mod 60)) (nat (t div 1000 mod 60)) (nat (t mod 1000))"

definition iso_of_ms :: "int \<Rightarrow> string" where
  "iso_of_ms t = iso_date (t div ms_per_day) @ ''T'' @ iso_time (t mod ms_per_day)"

text \<open>On an invalid date \<open>toISOString\<close> throws.\<close>

definition toISOString :: "int option \<Rightarrow> string result" where
  "toISOString t = (case Option.bind t time_clip of None \<Rightarrow> Inl ''Invalid time value'' | Some ms \<Rightarrow> Inr (iso_of_ms ms))"

section \<open>Date.parse\<close>

definition take_digits :: "nat \<Rightarrow> string \<Rightarrow> (int \<times> string) option" where
  "take_digits n s =
     (if length (take n s) = n \<and> list_all is_digit (take n s)
      then Some (int (num_of (take n s)), drop n s) else None)"

definition expect :: "char \<Rightarrow> string \<Rightarrow> string option" where
  "expect c s = (case s of [] \<Rightarrow> None | x # r \<Rightarrow> if x = c then Some r else None)"

definition p_year :: "string \<Rightarrow> (int \<times> string) option" where
  "p_year s =
     (case s of
        [] \<Rightarrow> None
      | c # r \<Rightarrow>
          if c = CHR ''+'' then take_digits 6 r
          else if c = CHR ''-'' then
            Option.bind (take_digits 6 r) (\<lambda>(y, r'). if y = 0 then None else Some (- y, r'))
          else take_digits 4 s)"

definition p_month_day :: "string \<Rightarrow> (int \<times> int \<times> string) option" where
  "p_month_day s =
     (case expect CHR ''-'' s of
        None \<Rightarrow> Some (1, 1, s)
      | Some r \<Rightarrow>
          Option.bind (take_digits 2 r) (\<lambda>(m, r').
          case expect CHR ''-'' r' of
            None \<Rightarrow> Some (m, 1, r')
          | Some r'' \<Rightarrow> Option.bind (take_digits 2 r'') (\<lambda>(d, q). Some (m, d, q))))"

definition p_fraction :: "string \<Rightarrow> (int \<times> string) option" where
  "p_fraction s =
     (case expect CHR ''.'' s of
        None \<Rightarrow> Some (0, s)
      | Some r \<Rightarrow>
          (let ds = takeWhile is_digit r in
           if ds = [] then None else Some (int (num_of (take 3 (ds @ ''00''))), dropWhile is_digit r)))"

definition p_seconds :: "string \<Rightarrow> (int \<times> int \<times> string) option" where
  "p_seconds s =
     (case expect CHR '':'' s of
        None \<Rightarrow> Some (0, 0, s)
      | Some r \<Rightarrow> Option.bind (take_digits 2 r) (\<lambda>(sec, r').
                  Option.bind (p_fraction r') (\<lambda>(ms, q). Some (sec, ms, q))))"

text \<open>The offset in milliseconds; a date-time without one is local time and not modelled.\<close>

definition p_zone :: "string \<Rightarrow> int option" where
  "p_zone s =
     (case s of
        [] \<Rightarrow> None
      | c # r \<Rightarrow>
          if c = CHR ''Z'' then (if r = [] then Some 0 else None)
          else if c = CHR ''+'' \<or> c = CHR ''-'' then
            Option.bind (take_digits 2 r) (\<lambda>(h, r').
            Option.bind (expect CHR '':'' r') (\<lambda>r''.
            Option.bind (take_digits 2 r'') (\<lambda>(mi, q).
            if q = [] \<and> h \<le> 23 \<and> mi \<le> 59
            then Some ((if c = CHR ''+'' then 1 else -1) * (h * 60 + mi) * 60000) else None)))
          else None)"

definition p_time :: "string \<Rightarrow> int option" where
  "p_time s =
     Option.bind (take_digits 2 s) (\<lambda>(h, r1).
     Option.bind (expect CHR '':'' r1) (\<lambda>r2.
     Option.bind (take_digits 2 r2) (\<lambda>(mi, r3).
     Option.bind (p_seconds r3) (\<lambda>(sec, ms, r4).
     Option.bind (p_zone r4) (\<lambda>off.
     if mi \<le> 59 \<and> sec \<le> 59 \<and> (h \<le> 23 \<or> h = 24 \<and> mi = 0 \<and> sec = 0 \<and> ms = 0)
     then Some (make_time h mi sec ms - off) else None)))))"

definition date_parse :: "string \<Rightarrow> int option" where
  "date_parse s =
     Option.bind (p_year s) (\<lambda>(y, r1).
     Option.bind (p_month_day r1) (\<lambda>(m, d, r2).
     if \<not> (1 \<le> m \<and> m \<le> 12 \<and> 1 \<le> d \<and> d \<le> 31) then None
     else (let day = make_day y (m - 1) d * ms_per_day in
           if r2 = [] then time_clip day
           else Option.bind (expect CHR ''T'' r2) (\<lambda>r3.
                Option.bind (p_time r3) (\<lambda>t. time_clip (day + t))))))"

section \<open>Reading back\<close>

lemma length_nat_str_le: "n < 10 ^ w \<Longrightarrow> 0 < w \<Longrightarrow> length (nat_str n) \<le> w"
proof (induction n arbitrary: w rule: nat_str.induct)
  case (1 n)
  show ?case
  proof (cases "n < 10")
    case True
    with 1 show ?thesis by (subst nat_str.simps) simp
  next
    case False
    obtain v where v: "w = Suc v" using 1 by (cases w) auto
    with False 1 have "0 < v" by (cases v) auto
    moreover have "n div 10 < 10 ^ v" using 1 v by (simp add: less_mult_imp_div_less mult.commute)
    ultimately show ?thesis using 1 False v by (subst nat_str.simps) simp
  qed
qed

lemma num_of_append_zeros: "num_of (replicate k CHR ''0'' @ s) = num_of s"
proof -
  have "digit_val CHR ''0'' = 0" by (simp add: digit_val_def code_def)
  then have "fold (\<lambda>c n. 10 * n + digit_val c) (replicate k CHR ''0'') 0 = 0"
    by (induction k) auto
  then show ?thesis by (simp add: num_of_def)
qed

lemma pad_facts:
  assumes "n < 10 ^ w" and "0 < w"
  shows "length (pad w n) = w" and "list_all is_digit (pad w n)" and "num_of (pad w n) = n"
proof -
  have "is_digit CHR ''0''" by (simp add: is_digit_def code_def)
  then show "length (pad w n) = w" and "list_all is_digit (pad w n)" and "num_of (pad w n) = n"
    using length_nat_str_le [OF assms]
    by (auto simp: pad_def num_of_append_zeros num_of_nat_str list_all_iff nat_str_digits)
qed

lemma take_digits_pad:
  assumes "n < 10 ^ w" and "0 < w"
  shows "take_digits w (pad w n @ s) = Some (int n, s)"
  using pad_facts [OF assms] by (simp add: take_digits_def)

lemma expect_Cons [simp]: "expect c (c # s) = Some s"
  by (simp add: expect_def)

definition iso_range :: "int \<Rightarrow> bool" where
  "iso_range t \<longleftrightarrow> -62167219200000 \<le> t \<and> t < 253402300800000"

lemma year_start_mono: "y \<le> z \<Longrightarrow> year_start y \<le> year_start z"
proof (induction "nat (z - y)" arbitrary: z)
  case (Suc k)
  then have "year_start y \<le> year_start (z - 1)" by simp
  also have "\<dots> \<le> year_start z" using year_length [of "z - 1"] by auto
  finally show ?case .
qed simp

lemma year_of_day_less: "n < year_start y \<Longrightarrow> year_of_day n < y"
  using year_of_day_bounds [of n] year_start_mono [of y "year_of_day n"] by force

lemma year_of_day_ge: "year_start y \<le> n \<Longrightarrow> y \<le> year_of_day n"
  using year_of_day_bounds [of n] year_start_mono [of "year_of_day n + 1" y] by force

lemma iso_range_year:
  assumes "iso_range t"
  shows "0 \<le> year_of_day (t div ms_per_day) \<and> year_of_day (t div ms_per_day) \<le> 9999"
proof -
  have d: "ms_per_day * (t div ms_per_day) \<le> t" "t < ms_per_day * (t div ms_per_day) + ms_per_day"
    using div_bounds [of ms_per_day t] by (simp_all add: ms_per_day_def)
  have "year_start 0 = -719528" "year_start 10000 = 2932897" by (simp_all add: year_start_def)
  then have "year_start 0 \<le> t div ms_per_day" "t div ms_per_day < year_start 10000"
    using d assms unfolding iso_range_def ms_per_day_def by linarith+
  then show ?thesis using year_of_day_ge year_of_day_less by force
qed

lemma time_fields:
  assumes "0 \<le> t" and "t < ms_per_day"
  shows "make_time (t div 3600000) (t div 60000 mod 60) (t div 1000 mod 60) (t mod 1000) = t"
    and "0 \<le> t div 3600000" and "t div 3600000 \<le> 23"
proof -
  have "t div 60000 = t div 1000 div 60" "t div 3600000 = t div 1000 div 60 div 60"
    by (simp_all add: zdiv_zmult2_eq [symmetric])
  moreover have "t div 1000 div 60 * 60 + t div 1000 mod 60 = t div 1000"
    "t div 1000 div 60 div 60 * 60 + t div 1000 div 60 mod 60 = t div 1000 div 60"
    "t div 1000 * 1000 + t mod 1000 = t" by simp_all
  ultimately show "make_time (t div 3600000) (t div 60000 mod 60) (t div 1000 mod 60) (t mod 1000) = t"
    unfolding make_time_def by (simp add: algebra_simps)
  show "0 \<le> t div 3600000" using assms by (simp add: pos_imp_zdiv_nonneg_iff)
  show "t div 3600000 \<le> 23"
    using div_bounds(1) [of 3600000 t] assms(2) by (simp add: ms_per_day_def)
qed

lemma p_zone_Z: "p_zone ''Z'' = Some 0"
  by (simp add: p_zone_def)

lemma p_time_text:
  assumes "h \<le> 23" "mi < 60" "sec < 60" "ms < 1000"
  shows "p_time (time_text h mi sec ms) = Some (make_time (int h) (int mi) (int sec) (int ms))"
proof -
  have frac: "p_fraction (CHR ''.'' # pad 3 ms @ ''Z'') = Some (int ms, ''Z'')"
  proof -
    have "takeWhile is_digit (pad 3 ms @ ''Z'') = pad 3 ms" "dropWhile is_digit (pad 3 ms @ ''Z'') = ''Z''"
      using pad_facts(2) [of ms 3] assms by (auto simp: list_all_iff takeWhile_append dropWhile_append is_digit_def code_def)
    moreover have "pad 3 ms \<noteq> []" by (simp add: pad_def)
    ultimately show ?thesis using pad_facts [of ms 3] assms by (simp add: p_fraction_def Let_def)
  qed
  have "p_seconds (CHR '':'' # pad 2 sec @ CHR ''.'' # pad 3 ms @ ''Z'') = Some (int sec, int ms, ''Z'')"
    using take_digits_pad [of sec 2] assms frac by (simp add: p_seconds_def)
  then show ?thesis
    using take_digits_pad [of h 2] take_digits_pad [of mi 2] assms p_zone_Z
    by (simp add: p_time_def time_text_def)
qed

lemma p_time_iso:
  assumes "0 \<le> t" and "t < ms_per_day"
  shows "p_time (iso_time t) = Some t"
proof -
  have "p_time (iso_time t) = Some (make_time (int (nat (t div 3600000))) (int (nat (t div 60000 mod 60)))
      (int (nat (t div 1000 mod 60))) (int (nat (t mod 1000))))"
    unfolding iso_time_def
    by (rule p_time_text) (use time_fields(3) [OF assms] in \<open>simp_all add: nat_less_iff nat_le_iff\<close>)
  also have "\<dots> = Some (make_time (t div 3600000) (t div 60000 mod 60) (t div 1000 mod 60) (t mod 1000))"
    using time_fields(2) [OF assms] by simp
  finally show ?thesis by (simp only: time_fields(1) [OF assms])
qed

text \<open>\<open>Date.parse\<close> reads back what \<open>toISOString\<close> prints, for every instant of the years 0 to 9999.\<close>

theorem date_parse_iso:
  assumes "iso_range t"
  shows "toISOString (Some t) = Inr (iso_of_ms t) \<and> date_parse (iso_of_ms t) = Some t"
proof -
  define day tm c where "day = t div ms_per_day" and "tm = t mod ms_per_day" and "c = civil_of_day day"
  have tm: "0 \<le> tm" "tm < ms_per_day" and t: "day * ms_per_day + tm = t"
    by (simp_all add: tm_def day_def ms_per_day_def)
  have clip: "time_clip t = Some t"
    using assms by (auto simp: time_clip_def max_time_def iso_range_def)
  have y: "0 \<le> cv_year c" "cv_year c \<le> 9999"
    using iso_range_year [OF assms] by (simp_all add: c_def day_def civil_of_day_def Let_def)
  have cv: "make_day (cv_year c) (cv_month c - 1) (cv_day c) = day" "1 \<le> cv_month c" "cv_month c \<le> 12"
    "1 \<le> cv_day c" "cv_day c \<le> 31"
    using civil_of_day_correct [of day] by (simp_all add: c_def)
  have year: "p_year (pad 4 (nat (cv_year c)) @ s) = Some (cv_year c, s)" for s
  proof -
    have n: "nat (cv_year c) < 10 ^ 4" using y by simp
    obtain a as where as: "pad 4 (nat (cv_year c)) = a # as"
      using pad_facts(1) [OF n] by (cases "pad 4 (nat (cv_year c))") auto
    then have "is_digit a" using pad_facts(2) [OF n] by simp
    then have "a \<noteq> CHR ''+''" "a \<noteq> CHR ''-''" by (auto simp: is_digit_def code_def)
    then show ?thesis
      using take_digits_pad [OF n, of s] y as by (simp add: p_year_def)
  qed
  have "p_month_day (CHR ''-'' # pad 2 (nat (cv_month c)) @ CHR ''-'' # pad 2 (nat (cv_day c)) @ s)
      = Some (cv_month c, cv_day c, s)" for s
    using take_digits_pad [of "nat (cv_month c)" 2] take_digits_pad [of "nat (cv_day c)" 2] cv
    by (simp add: p_month_day_def)
  then have "date_parse (iso_of_ms t) = Some t"
    using year cv y p_time_iso [OF tm] clip
    by (simp add: date_parse_def iso_of_ms_def iso_date_def iso_year_def Let_def
        day_def [symmetric] tm_def [symmetric] c_def [symmetric] t)
  with clip show ?thesis by (simp add: toISOString_def)
qed

theorem date_parse_iso_witness:
  "toISOString (Some 1700000000000) = Inr (iso_of_ms 1700000000000) \<and>
   date_parse (iso_of_ms 1700000000000) = Some 1700000000000"
  by (rule date_parse_iso) (simp add: iso_range_def)

lemma iso_of_ms_sample: "iso_of_ms 1700000000000 = ''2023-11-14T22:13:20.000Z''"
  by code_simp

section \<open>Textual order is the order in time\<close>

text \<open>
  The store compares instants as text.  On the texts \<open>toISOString\<close> writes this is the order of the
  instants, because every field has a fixed width and the larger fields come first.
\<close>

lemma less_string_append:
  fixes x y s t :: string
  assumes "length x = length y"
  shows "x < y \<Longrightarrow> x @ s < y @ t" and "x = y \<Longrightarrow> s < t \<Longrightarrow> x @ s < y @ t"
proof -
  show "x < y \<Longrightarrow> x @ s < y @ t"
    using assms by (induction x y rule: list_induct2) auto
  show "x = y \<Longrightarrow> s < t \<Longrightarrow> x @ s < y @ t"
    by (induction x arbitrary: y) auto
qed

lemma less_char_iff: "c < d \<longleftrightarrow> code c < code d"
  by (simp add: less_char_def code_def)

text \<open>Digit texts of one length are ordered as the numbers they denote.\<close>

lemma digits_less:
  fixes x y :: string
  assumes "length x = length y" and "list_all is_digit x" and "list_all is_digit y" and "num_of x < num_of y"
  shows "x < y"
proof -
  have step: "fold (\<lambda>c n. 10 * n + digit_val c) z m = m * 10 ^ length z + num_of z" for z m
  proof (induction z arbitrary: m)
    case (Cons c z)
    from Cons [of "10 * m + digit_val c"] Cons [of "digit_val c"] show ?case
      by (simp add: num_of_def algebra_simps)
  qed (simp add: num_of_def)
  have cons: "num_of (c # z) = digit_val c * 10 ^ length z + num_of z" for c z
    using step [of z "digit_val c"] by (simp add: num_of_def)
  have bound: "list_all is_digit z \<Longrightarrow> num_of z < 10 ^ length z" for z
  proof (induction z)
    case (Cons c z)
    then have "digit_val c \<le> 9" by (auto simp: digit_val_def is_digit_def)
    then have "digit_val c * 10 ^ length z \<le> 9 * 10 ^ length z" by simp
    moreover have "num_of z < 10 ^ length z" using Cons by simp
    ultimately have "num_of (c # z) < 9 * 10 ^ length z + 10 ^ length z" unfolding cons by linarith
    then show ?case by simp
  qed (simp add: num_of_def)
  show ?thesis using assms
  proof (induction x y rule: list_induct2)
    case Nil
    then show ?case by simp
  next
    case (Cons c x d y)
    consider "code c < code d" | "code c = code d" | "code d < code c" by linarith
    then show ?case
    proof cases
      case 1
      then show ?thesis by (simp add: less_char_iff)
    next
      case 2
      then have "c = d" by (simp add: code_inj)
      with Cons show ?thesis by (simp add: cons)
    next
      case 3
      then have "digit_val d + 1 \<le> digit_val c"
        using Cons.prems by (auto simp: digit_val_def is_digit_def)
      then have "(digit_val d + 1) * 10 ^ length y \<le> digit_val c * 10 ^ length y" by (rule mult_right_mono) simp
      moreover have "num_of y < 10 ^ length y" using bound Cons.prems by simp
      ultimately have "num_of (d # y) \<le> num_of (c # x)"
        using Cons.hyps by (simp add: cons)
      with Cons.prems show ?thesis by simp
    qed
  qed
qed

lemma pad_less: "m < n \<Longrightarrow> n < 10 ^ w \<Longrightarrow> 0 < w \<Longrightarrow> pad w m < pad w n"
  by (rule digits_less) (simp_all add: pad_facts)

text \<open>One field decides, or is equal and leaves the decision to the rest.\<close>

lemma field_less:
  assumes "m < n \<or> (m = n \<and> s < t)" and "n < 10 ^ w" and "0 < w"
  shows "pad w m @ s < pad w n @ (t :: string)"
  using assms less_string_append [of "pad w m" "pad w n" s t] pad_facts(1) [of m w] pad_facts(1) [of n w]
    pad_less [of m n w] by auto

lemma carry_less:
  fixes a b a' b' k :: int
  assumes "a * k + b < a' * k + b'" and "0 \<le> b" "b < k" "0 \<le> b'" "b' < k"
  shows "a < a' \<or> (a = a' \<and> b < b')"
proof (rule ccontr)
  assume n: "\<not> ?thesis"
  then consider "a' + 1 \<le> a" | "a = a'" "b' \<le> b" by linarith
  then show False
  proof cases
    case 1
    then have "(a' + 1) * k \<le> a * k" using assms by (intro mult_right_mono) auto
    then have "a' * k + k \<le> a * k" by (simp add: algebra_simps)
    with assms show False by linarith
  qed (use assms in auto)
qed

lemma time_lex:
  fixes h m s ms h' m' s' ms' :: int
  assumes "make_time h m s ms < make_time h' m' s' ms'"
    and "0 \<le> m" "m < 60" "0 \<le> m'" "m' < 60" "0 \<le> s" "s < 60" "0 \<le> s'" "s' < 60"
      "0 \<le> ms" "ms < 1000" "0 \<le> ms'" "ms' < 1000"
  shows "h < h' \<or> (h = h' \<and> (m < m' \<or> (m = m' \<and> (s < s' \<or> (s = s' \<and> ms < ms')))))"
proof -
  have 1: "(h * 60 + m) * 60 + s < (h' * 60 + m') * 60 + s' \<or>
      ((h * 60 + m) * 60 + s = (h' * 60 + m') * 60 + s' \<and> ms < ms')"
    using assms by (intro carry_less [of _ 1000]) (simp_all add: make_time_def)
  have 2: "h * 60 + m < h' * 60 + m' \<or> (h * 60 + m = h' * 60 + m' \<and> s < s')"
    if "(h * 60 + m) * 60 + s < (h' * 60 + m') * 60 + s'"
    using that assms by (intro carry_less [of _ 60]) auto
  have 3: "h < h' \<or> (h = h' \<and> m < m')" if "h * 60 + m < h' * 60 + m'"
    using that assms by (intro carry_less [of _ 60]) auto
  have eq: "a = a' \<and> b = b'" if "a * 60 + b = a' * 60 + b'" "0 \<le> b" "b < 60" "0 \<le> b'" "b' < 60" for a b a' b' :: int
  proof -
    have "a = a'" using that by linarith
    with that show ?thesis by simp
  qed
  show ?thesis using 1 2 3 eq [of "h * 60 + m" s "h' * 60 + m'" s'] eq [of h m h' m'] assms by blast
qed

lemma time_text_mono:
  assumes "h < h' \<or> (h = h' \<and> (m < m' \<or> (m = m' \<and> (s < s' \<or> (s = s' \<and> u < u')))))"
    and "h' < 100" "m' < 100" "s' < 100" "u' < 1000"
  shows "time_text h m s u < time_text h' m' s' u'"
  unfolding time_text_def using assms
  by (intro field_less) (auto intro!: field_less)

lemma time_text_less:
  assumes "0 \<le> s" and "s < t" and "t < ms_per_day"
  shows "iso_time s < iso_time t"
proof -
  have sb: "s < ms_per_day" and tb: "0 \<le> t" using assms by linarith+
  define a1 a2 a3 a4 b1 b2 b3 b4
    where "a1 = s div 3600000" and "a2 = s div 60000 mod 60" and "a3 = s div 1000 mod 60" and "a4 = s mod 1000"
      and "b1 = t div 3600000" and "b2 = t div 60000 mod 60" and "b3 = t div 1000 mod 60" and "b4 = t mod 1000"
  note d = this
  have b: "0 \<le> a2" "a2 < 60" "0 \<le> b2" "b2 < 60" "0 \<le> a3" "a3 < 60" "0 \<le> b3" "b3 < 60"
    "0 \<le> a4" "a4 < 1000" "0 \<le> b4" "b4 < 1000"
    unfolding d by simp_all
  have h: "0 \<le> a1" "0 \<le> b1" "b1 \<le> 23"
    unfolding d by (rule time_fields [OF assms(1) sb] time_fields [OF tb assms(3)])+
  have "make_time a1 a2 a3 a4 = s" "make_time b1 b2 b3 b4 = t"
    unfolding d by (rule time_fields [OF assms(1) sb] time_fields [OF tb assms(3)])+
  with assms(2) have "make_time a1 a2 a3 a4 < make_time b1 b2 b3 b4" by simp
  from time_lex [OF this b]
  have "nat a1 < nat b1 \<or> (nat a1 = nat b1 \<and> (nat a2 < nat b2 \<or> (nat a2 = nat b2 \<and>
      (nat a3 < nat b3 \<or> (nat a3 = nat b3 \<and> nat a4 < nat b4)))))"
    using b h by auto
  moreover have "nat b1 < 100" "nat b2 < 100" "nat b3 < 100" "nat b4 < 1000"
    using b h by auto
  ultimately show ?thesis unfolding iso_time_def d [symmetric] by (rule time_text_mono)
qed

lemma month_of_day_mono: "r \<le> r' \<Longrightarrow> month_of_day leap r \<le> month_of_day leap r'"
  by (auto simp: month_of_day_def month_start_def)

lemma civil_lex:
  assumes "n < n'"
  shows "cv_year (civil_of_day n) < cv_year (civil_of_day n') \<or>
    (cv_year (civil_of_day n) = cv_year (civil_of_day n') \<and>
     (cv_month (civil_of_day n) < cv_month (civil_of_day n') \<or>
      (cv_month (civil_of_day n) = cv_month (civil_of_day n') \<and>
       cv_day (civil_of_day n) < cv_day (civil_of_day n'))))"
proof -
  have "year_of_day n \<le> year_of_day n'"
    using year_of_day_bounds [of n] assms by (intro year_of_day_ge) simp
  moreover have "month_of_day l (n - z) \<le> month_of_day l (n' - z)" for l z
    using assms by (intro month_of_day_mono) simp
  ultimately consider "year_of_day n < year_of_day n'"
    | "year_of_day n = year_of_day n'"
      "month_of_day (is_leap (year_of_day n')) (n - year_start (year_of_day n'))
         < month_of_day (is_leap (year_of_day n')) (n' - year_start (year_of_day n'))"
    | "year_of_day n = year_of_day n'"
      "month_of_day (is_leap (year_of_day n')) (n - year_start (year_of_day n'))
         = month_of_day (is_leap (year_of_day n')) (n' - year_start (year_of_day n'))"
    by (metis order_le_less)
  then show ?thesis
    using assms by cases (simp_all add: civil_of_day_def Let_def)
qed

lemma date_text_less:
  assumes "n < n'" and "0 \<le> year_of_day n" and "year_of_day n' \<le> 9999"
  shows "iso_date n @ s < iso_date n' @ (t :: string)"
proof -
  define y m d y' m' d' where "y = cv_year (civil_of_day n)" and "m = cv_month (civil_of_day n)"
    and "d = cv_day (civil_of_day n)" and "y' = cv_year (civil_of_day n')"
    and "m' = cv_month (civil_of_day n')" and "d' = cv_day (civil_of_day n')"
  note defs = this
  have lex: "y < y' \<or> (y = y' \<and> (m < m' \<or> (m = m' \<and> d < d')))"
    unfolding defs by (rule civil_lex) (rule assms)
  have "y = year_of_day n" "y' = year_of_day n'" by (simp_all add: defs civil_of_day_def Let_def)
  then have yb: "0 \<le> y" "y \<le> y'" "y' \<le> 9999" using assms lex by auto
  have mb: "1 \<le> m" "1 \<le> m'" "m' \<le> 12" "1 \<le> d" "1 \<le> d'" "d' \<le> 31"
    unfolding defs using civil_of_day_correct by auto
  have "nat y < nat y' \<or> (nat y = nat y' \<and> (nat m < nat m' \<or> (nat m = nat m' \<and> nat d < nat d')))"
    using lex yb mb by auto
  moreover have "nat y' < 10 ^ 4" "nat m' < 10 ^ 2" "nat d' < 10 ^ 2" using yb mb by auto
  ultimately have "pad 4 (nat y) @ ''-'' @ pad 2 (nat m) @ ''-'' @ pad 2 (nat d) @ s
      < pad 4 (nat y') @ ''-'' @ pad 2 (nat m') @ ''-'' @ pad 2 (nat d') @ t"
    by (intro field_less) (auto intro!: field_less)
  moreover have "iso_date n @ s = pad 4 (nat y) @ ''-'' @ pad 2 (nat m) @ ''-'' @ pad 2 (nat d) @ s"
    "iso_date n' @ t = pad 4 (nat y') @ ''-'' @ pad 2 (nat m') @ ''-'' @ pad 2 (nat d') @ t"
    using yb by (simp_all add: iso_date_def iso_year_def Let_def defs)
  ultimately show ?thesis by simp
qed

text \<open>
  Comparing the texts of two instants compares the instants: on the years 0 to 9999 the
  order of \<open>toISOString\<close> texts is the order in time, so the textual comparisons of the store's
  cutoffs and of the range checks are comparisons in time.
\<close>

theorem iso_order:
  assumes "iso_range a" and "iso_range b"
  shows "iso_of_ms a < iso_of_ms b \<longleftrightarrow> a < b"
proof -
  have less_iso: "iso_of_ms a < iso_of_ms b" if "a < b" "iso_range a" "iso_range b" for a b
  proof -
    have "a div ms_per_day \<le> b div ms_per_day"
      using that(1) by (simp add: ms_per_day_def zdiv_mono1)
    moreover have "iso_of_ms a < iso_of_ms b" if "a div ms_per_day < b div ms_per_day"
      unfolding iso_of_ms_def append_assoc
      using that iso_range_year [OF \<open>iso_range a\<close>] iso_range_year [OF \<open>iso_range b\<close>]
      by (intro date_text_less) auto
    moreover have "iso_of_ms a < iso_of_ms b" if eq: "a div ms_per_day = b div ms_per_day"
    proof -
      have "a mod ms_per_day < b mod ms_per_day"
        using \<open>a < b\<close> eq by (metis add_less_cancel_left mult_div_mod_eq)
      then have "iso_time (a mod ms_per_day) < iso_time (b mod ms_per_day)"
        by (intro time_text_less) (simp_all add: ms_per_day_def)
      then show ?thesis
        unfolding iso_of_ms_def eq by (intro less_string_append(2)) simp_all
    qed
    ultimately show ?thesis by linarith
  qed
  show ?thesis
  proof (cases a b rule: linorder_cases)
    case less
    with less_iso assms show ?thesis by simp
  next
    case greater
    then have "iso_of_ms b < iso_of_ms a" using assms by (intro less_iso)
    with greater show ?thesis by (metis order_less_asym)
  qed simp
qed

theorem iso_order_witness:
  "''1970-01-01T00:00:00.000Z'' < ''1970-01-01T00:00:01.000Z''"
proof -
  have "iso_of_ms 0 = ''1970-01-01T00:00:00.000Z''" "iso_of_ms 1000 = ''1970-01-01T00:00:01.000Z''"
    by code_simp+
  then show ?thesis using iso_order [of 0 1000] by (simp add: iso_range_def)
qed

end
