(* ===== verification/Store.thy ===== *)
theory Store
  imports Edges Js_Date
begin

text \<open>
  The canonical store (\<open>src/db/store.ts\<close>, its SQLite driver \<open>src/db/sqlite.ts\<close>,
  \<open>src/db/repo-activity-bounds.ts\<close>, \<open>src/db/activity-range.ts\<close>).  A table is an ordered map from its
  unique key to the rest of the row, so a row inserted later stands later, as its row id does.  The
  SQL of a statement is written as the function it denotes; \<open>jd\<close> is SQLite's \<open>julianday\<close>, which is
  not code of the repository and therefore a parameter.

  A method is an action on the handle.  It may throw: on a violated foreign key, or because the
  driver fails; which of the coming statements fail is an input, the list \<open>st_faults\<close>.
\<close>

section \<open>Rows and tables\<close>

record source_descriptor =
  sd_source_id :: string
  sd_kind :: string
  sd_host :: string
  sd_display_name :: "string option"

record source_row =
  so_kind :: string
  so_host :: string
  so_display_name :: "string option"
  so_created_at :: string

record raw_row =
  rw_entity_kind :: string
  rw_api_version :: "string option"
  rw_content_hash :: "string option"
  rw_fetched_at :: string
  rw_payload :: json_text

record item_row =
  ir_item_id :: nat
  ir_item :: item
  ir_normalized_with :: string
  ir_last_seen_at :: string
  ir_deleted_at :: "string option"

record edge_row =
  er_edge_id :: nat
  er_edge :: reconciled_edge
  er_first_seen_at :: string
  er_last_seen_at :: string
  er_deleted_at :: "string option"

record activity_row =
  av_activity_id :: nat
  av_activity :: activity
  av_details :: "json_text option"
  av_first_seen_at :: string
  av_last_seen_at :: string

record thread_row =
  tw_thread :: review_thread
  tw_last_seen_at :: string
  tw_deleted_at :: "string option"

record commit_files_row =
  fr_files :: commit_files
  fr_fetched_at :: string

record bounds_row =
  bo_project_path :: "string option"
  bo_observed_since :: "string option"
  bo_last_activity_at :: "string option"
  bo_updated_at :: string

datatype run_status = Run_Ok | Run_Partial | Run_Error
datatype run_mode = Full_Run | Incremental_Run

record run_row =
  rr_source_id :: string
  rr_mode :: run_mode
  rr_status :: run_status
  rr_started_at :: string
  rr_finished_at :: "string option"
  rr_items_seen :: nat
  rr_edges_seen :: nat
  rr_activities_seen :: nat
  rr_graphql_requests :: "int option"
  rr_graphql_cost :: "int option"
  rr_graphql_cost_unknown :: "int option"
  rr_error :: "string option"

record state_row =
  ss_watermark :: "string option"
  ss_last_run_at :: "string option"
  ss_last_success_at :: "string option"
  ss_last_status :: "run_status option"
  ss_last_error :: "string option"

type_synonym row_key = "string \<times> string"
type_synonym edge_row_key = "edge_type \<times> endpoint \<times> endpoint"

record db =
  db_source :: "(string, source_row) jsmap"
  db_raw :: "(row_key, raw_row) jsmap"
  db_item :: "(row_key, item_row) jsmap"
  db_item_label :: "(nat \<times> string, label) jsmap"
  db_edge :: "(edge_row_key, edge_row) jsmap"
  db_activity :: "(row_key, activity_row) jsmap"
  db_review_thread :: "(row_key, thread_row) jsmap"
  db_commit_files :: "(row_key, commit_files_row) jsmap"
  db_bounds :: "(row_key, bounds_row) jsmap"
  db_sync_run :: "(nat, run_row) jsmap"
  db_sync_state :: "(string, state_row) jsmap"
  db_item_seq :: nat
  db_edge_seq :: nat
  db_activity_seq :: nat
  db_run_seq :: nat

record bucket =
  bk_source_id :: string
  bk_project_path :: "string option"
  bk_project_key :: string
  bk_updated_at :: string

text \<open>
  \<open>st_counts\<close> are the variables outside the store that the body of a transaction assigns (the two
  deletion counts of a run's report); a rollback does not undo them.
\<close>

record store =
  st_db :: db
  st_dirty :: "(string, bucket) jsmap"
  st_in_tx :: bool
  st_faults :: "string option list"
  st_counts :: "nat \<times> nat"

section \<open>Actions\<close>

type_synonym 'a act = "store \<Rightarrow> 'a result \<times> store"

definition act_return :: "'a \<Rightarrow> 'a act" where
  "act_return x = (\<lambda>s. (Inr x, s))"

definition act_result :: "'a result \<Rightarrow> 'a act" where
  "act_result r = (\<lambda>s. (r, s))"

definition act_bind :: "'a act \<Rightarrow> ('a \<Rightarrow> 'b act) \<Rightarrow> 'b act" where
  "act_bind m f = (\<lambda>s. case m s of (Inl e, s') \<Rightarrow> (Inl e, s') | (Inr x, s') \<Rightarrow> f x s')"

definition act_then :: "'a act \<Rightarrow> 'b act \<Rightarrow> 'b act" where
  "act_then m n = act_bind m (\<lambda>_. n)"

fun act_each :: "('x \<Rightarrow> unit act) \<Rightarrow> 'x list \<Rightarrow> unit act" where
  "act_each f [] = act_return ()"
| "act_each f (x # xs) = act_then (f x) (act_each f xs)"

text \<open>One SQL statement: it meets the next fault, or runs and changes the tables or violates a constraint.\<close>

definition statement :: "(db \<Rightarrow> ('a \<times> db) result) \<Rightarrow> 'a act" where
  "statement f s =
     (case st_faults s of
        Some e # fs \<Rightarrow> (Inl e, s\<lparr>st_faults := fs\<rparr>)
      | fs \<Rightarrow>
          (let s' = s\<lparr>st_faults := tl fs\<rparr> in
           case f (st_db s') of
             Inl e \<Rightarrow> (Inl e, s')
           | Inr (x, d) \<Rightarrow> (Inr x, s'\<lparr>st_db := d\<rparr>)))"

definition query :: "(db \<Rightarrow> 'a) \<Rightarrow> 'a act" where
  "query f = statement (\<lambda>d. Inr (f d, d))"

definition update :: "(db \<Rightarrow> db) \<Rightarrow> unit act" where
  "update f = statement (\<lambda>d. Inr ((), f d))"

definition foreign_key_error :: string where
  "foreign_key_error = ''FOREIGN KEY constraint failed''"

text \<open>\<open>PRAGMA foreign_keys = ON\<close>: a row that refers to a source needs the source.\<close>

definition with_source :: "string \<Rightarrow> (db \<Rightarrow> 'a \<times> db) \<Rightarrow> db \<Rightarrow> ('a \<times> db) result" where
  "with_source sid f d = (if jm_has (db_source d) sid then Inr (f d) else Inl foreign_key_error)"

section \<open>Write paths\<close>

definition put_source :: "source_descriptor \<Rightarrow> string \<Rightarrow> db \<Rightarrow> db" where
  "put_source sd nowIso d =
     d\<lparr>db_source := jm_set (sd_source_id sd)
         \<lparr>so_kind = sd_kind sd, so_host = sd_host sd, so_display_name = sd_display_name sd,
          so_created_at = (case jm_get (db_source d) (sd_source_id sd) of
             None \<Rightarrow> nowIso | Some r \<Rightarrow> so_created_at r)\<rparr>
         (db_source d)\<rparr>"

definition ensureSource :: "source_descriptor \<Rightarrow> string \<Rightarrow> unit act" where
  "ensureSource sd nowIso = update (put_source sd nowIso)"

text \<open>The result says whether the content hash changed; \<open>undefined !== null\<close> for a row that was not there.\<close>

definition put_raw :: "string \<Rightarrow> string \<Rightarrow> raw_row \<Rightarrow> db \<Rightarrow> unit \<times> db" where
  "put_raw sourceId externalId r d = ((), d\<lparr>db_raw := jm_set (sourceId, externalId) r (db_raw d)\<rparr>)"

definition upsertRaw ::
  "string \<Rightarrow> string \<Rightarrow> string \<Rightarrow> string option \<Rightarrow> string option \<Rightarrow> string \<Rightarrow> json_text \<Rightarrow> bool act"
where
  "upsertRaw sourceId entityKind externalId apiVersion contentHash fetchedAt payloadJson =
     act_bind (query (\<lambda>d. map_option rw_content_hash (jm_get (db_raw d) (sourceId, externalId)))) (\<lambda>prev.
     act_then (statement (with_source sourceId (put_raw sourceId externalId
          \<lparr>rw_entity_kind = entityKind, rw_api_version = apiVersion, rw_content_hash = contentHash,
           rw_fetched_at = fetchedAt, rw_payload = payloadJson\<rparr>)))
     (act_return (prev \<noteq> Some contentHash)))"

text \<open>A new row takes the next id; a conflict keeps the id and clears the tombstone.\<close>

definition put_item :: "item \<Rightarrow> string \<Rightarrow> string \<Rightarrow> db \<Rightarrow> nat \<times> db" where
  "put_item it normalizerVersion seenAt d =
     (let key = (it_source it, it_external it);
          row = (\<lambda>i. \<lparr>ir_item_id = i, ir_item = it, ir_normalized_with = normalizerVersion,
                      ir_last_seen_at = seenAt, ir_deleted_at = None\<rparr>)
      in case jm_get (db_item d) key of
           None \<Rightarrow> (db_item_seq d, d\<lparr>db_item := jm_set key (row (db_item_seq d)) (db_item d),
                                      db_item_seq := Suc (db_item_seq d)\<rparr>)
         | Some r \<Rightarrow> (ir_item_id r, d\<lparr>db_item := jm_set key (row (ir_item_id r)) (db_item d)\<rparr>))"

definition upsertItem :: "item \<Rightarrow> string \<Rightarrow> string \<Rightarrow> nat act" where
  "upsertItem it normalizerVersion seenAt =
     statement (with_source (it_source it) (put_item it normalizerVersion seenAt))"

text \<open>\<open>ON CONFLICT DO NOTHING\<close>: of two labels of one name the first is kept.\<close>

definition put_label :: "nat \<Rightarrow> label \<Rightarrow> db \<Rightarrow> (unit \<times> db) result" where
  "put_label itemId l d =
     (if itemId \<in> ir_item_id ` set (jm_values (db_item d))
      then Inr ((), if jm_has (db_item_label d) (itemId, lb_name l) then d
                    else d\<lparr>db_item_label := jm_set (itemId, lb_name l) l (db_item_label d)\<rparr>)
      else Inl foreign_key_error)"

definition clear_labels :: "nat \<Rightarrow> db \<Rightarrow> db" where
  "clear_labels itemId d =
     d\<lparr>db_item_label := filter (\<lambda>e. fst (fst e) \<noteq> itemId) (db_item_label d)\<rparr>"

definition replaceLabels :: "nat \<Rightarrow> label list \<Rightarrow> unit act" where
  "replaceLabels itemId labels =
     act_then (update (clear_labels itemId)) (act_each (\<lambda>l. statement (put_label itemId l)) labels)"

definition edge_row_key :: "'a edge_scheme \<Rightarrow> edge_row_key" where
  "edge_row_key e = (ed_type e, ed_from e, ed_to e)"

definition put_edge :: "reconciled_edge \<Rightarrow> string \<Rightarrow> db \<Rightarrow> db" where
  "put_edge e nowIso d =
     (case jm_get (db_edge d) (edge_row_key e) of
        None \<Rightarrow> d\<lparr>db_edge := jm_set (edge_row_key e)
                    \<lparr>er_edge_id = db_edge_seq d, er_edge = e, er_first_seen_at = nowIso,
                     er_last_seen_at = nowIso, er_deleted_at = None\<rparr> (db_edge d),
                  db_edge_seq := Suc (db_edge_seq d)\<rparr>
      | Some r \<Rightarrow> d\<lparr>db_edge := jm_set (edge_row_key e)
                    (r\<lparr>er_edge := e, er_last_seen_at := nowIso, er_deleted_at := None\<rparr>) (db_edge d)\<rparr>)"

definition upsertEdge :: "reconciled_edge \<Rightarrow> string \<Rightarrow> unit act" where
  "upsertEdge e nowIso = update (put_edge e nowIso)"

subsection \<open>Activities and the cached bounds of a repository\<close>

definition repoActivityProjectKey :: "string option \<Rightarrow> string" where
  "repoActivityProjectKey projectPath =
     (case projectPath of None \<Rightarrow> ''null:'' | Some p \<Rightarrow> ''path:'' @ p)"

definition repoActivityBoundsBucket :: "string \<Rightarrow> string option \<Rightarrow> string \<Rightarrow> bucket" where
  "repoActivityBoundsBucket sourceId projectPath updatedAt =
     \<lparr>bk_source_id = sourceId, bk_project_path = projectPath,
      bk_project_key = repoActivityProjectKey projectPath, bk_updated_at = updatedAt\<rparr>"

definition repoActivityBoundsBucketId :: "string \<Rightarrow> string \<Rightarrow> string" where
  "repoActivityBoundsBucketId sourceId projectKey = sourceId @ [CHR 0x00] @ projectKey"

definition markDirty :: "string \<Rightarrow> string option \<Rightarrow> string \<Rightarrow> unit act" where
  "markDirty sourceId projectPath updatedAt s =
     (let b = repoActivityBoundsBucket sourceId projectPath updatedAt in
      (Inr (), s\<lparr>st_dirty := jm_set (repoActivityBoundsBucketId sourceId (bk_project_key b)) b (st_dirty s)\<rparr>))"

text \<open>
  The first and the last activity of a repository by instant, ties by row id; rows whose instant
  \<open>julianday\<close> cannot read do not count.
\<close>

definition repo_rows :: "(string \<Rightarrow> int option) \<Rightarrow> db \<Rightarrow> string \<Rightarrow> string option \<Rightarrow> activity_row list" where
  "repo_rows jd d sourceId projectPath =
     filter (\<lambda>r. ac_source (av_activity r) = sourceId \<and> ac_project_path (av_activity r) = projectPath \<and>
                 jd (ac_occurred_at (av_activity r)) \<noteq> None) (jm_values (db_activity d))"

definition row_instant :: "(string \<Rightarrow> int option) \<Rightarrow> activity_row \<Rightarrow> int option" where
  "row_instant jd r = jd (ac_occurred_at (av_activity r))"

definition by_instant :: "(string \<Rightarrow> int option) \<Rightarrow> activity_row \<Rightarrow> activity_row \<Rightarrow> int" where
  "by_instant jd = then_by (by_key (row_instant jd)) (by_key av_activity_id)"

definition drop_bounds :: "row_key \<Rightarrow> db \<Rightarrow> db" where
  "drop_bounds k d = d\<lparr>db_bounds := jm_delete k (db_bounds d)\<rparr>"

definition put_bounds :: "row_key \<Rightarrow> bounds_row \<Rightarrow> db \<Rightarrow> unit \<times> db" where
  "put_bounds k r d = ((), d\<lparr>db_bounds := jm_set k r (db_bounds d)\<rparr>)"

definition refresh_bounds :: "(string \<Rightarrow> int option) \<Rightarrow> bucket \<Rightarrow> unit act" where
  "refresh_bounds jd b =
     act_bind (query (\<lambda>d. js_sort (by_instant jd) (repo_rows jd d (bk_source_id b) (bk_project_path b)))) (\<lambda>rows.
     if rows = [] then update (drop_bounds (bk_source_id b, bk_project_key b))
     else statement (with_source (bk_source_id b) (put_bounds (bk_source_id b, bk_project_key b)
          \<lparr>bo_project_path = bk_project_path b,
           bo_observed_since = Some (ac_occurred_at (av_activity (hd rows))),
           bo_last_activity_at = Some (ac_occurred_at (av_activity (last rows))),
           bo_updated_at = bk_updated_at b\<rparr>)))"

definition flushDirty :: "(string \<Rightarrow> int option) \<Rightarrow> unit act" where
  "flushDirty jd s = act_each (refresh_bounds jd) (jm_values (st_dirty s)) (s\<lparr>st_dirty := jm_empty\<rparr>)"

definition put_activity :: "activity \<Rightarrow> string \<Rightarrow> db \<Rightarrow> unit \<times> db" where
  "put_activity a nowIso d =
     (let key = (ac_source a, ac_external a);
          details = map_option (\<lambda>ms. json_stringify (JObj ms)) (ac_details a)
      in case jm_get (db_activity d) key of
           None \<Rightarrow> ((), d\<lparr>db_activity := jm_set key
                        \<lparr>av_activity_id = db_activity_seq d, av_activity = a, av_details = details,
                         av_first_seen_at = nowIso, av_last_seen_at = nowIso\<rparr> (db_activity d),
                      db_activity_seq := Suc (db_activity_seq d)\<rparr>)
         | Some r \<Rightarrow> ((), d\<lparr>db_activity := jm_set key
                        (r\<lparr>av_activity := a, av_details := details, av_last_seen_at := nowIso\<rparr>) (db_activity d)\<rparr>))"

definition upsertActivity :: "(string \<Rightarrow> int option) \<Rightarrow> activity \<Rightarrow> string \<Rightarrow> unit act" where
  "upsertActivity jd a nowIso =
     act_bind (query (\<lambda>d. map_option (ac_project_path \<circ> av_activity)
                            (jm_get (db_activity d) (ac_source a, ac_external a)))) (\<lambda>prev.
     act_then (statement (with_source (ac_source a) (put_activity a nowIso)))
     (act_then (markDirty (ac_source a) (ac_project_path a) nowIso)
     (act_then (case prev of
                  None \<Rightarrow> act_return ()
                | Some p \<Rightarrow> if p \<noteq> ac_project_path a then markDirty (ac_source a) p nowIso else act_return ())
     (\<lambda>s. if st_in_tx s then (Inr (), s) else flushDirty jd s))))"

subsection \<open>Review threads, commit files, runs and sync state\<close>

definition put_thread :: "review_thread \<Rightarrow> string \<Rightarrow> db \<Rightarrow> db" where
  "put_thread t nowIso d =
     d\<lparr>db_review_thread := jm_set (rt_source t, rt_external t)
         \<lparr>tw_thread = t, tw_last_seen_at = nowIso, tw_deleted_at = None\<rparr> (db_review_thread d)\<rparr>"

definition upsertReviewThread :: "review_thread \<Rightarrow> string \<Rightarrow> unit act" where
  "upsertReviewThread t nowIso = update (put_thread t nowIso)"

definition put_commit_files :: "commit_files \<Rightarrow> string \<Rightarrow> db \<Rightarrow> unit \<times> db" where
  "put_commit_files f nowIso d =
     ((), d\<lparr>db_commit_files := jm_set (cs_source f, cs_external f)
         \<lparr>fr_files = f, fr_fetched_at = nowIso\<rparr> (db_commit_files d)\<rparr>)"

definition upsertCommitFiles :: "commit_files \<Rightarrow> string \<Rightarrow> unit act" where
  "upsertCommitFiles f nowIso = statement (with_source (cs_source f) (put_commit_files f nowIso))"

definition put_run :: "string \<Rightarrow> run_mode \<Rightarrow> string \<Rightarrow> db \<Rightarrow> nat \<times> db" where
  "put_run sourceId mode startedAt d =
     (db_run_seq d,
      d\<lparr>db_sync_run := jm_set (db_run_seq d)
          \<lparr>rr_source_id = sourceId, rr_mode = mode, rr_status = Run_Partial, rr_started_at = startedAt,
           rr_finished_at = None, rr_items_seen = 0, rr_edges_seen = 0, rr_activities_seen = 0,
           rr_graphql_requests = None, rr_graphql_cost = None, rr_graphql_cost_unknown = None,
           rr_error = None\<rparr> (db_sync_run d),
        db_run_seq := Suc (db_run_seq d)\<rparr>)"

definition startRun :: "string \<Rightarrow> run_mode \<Rightarrow> string \<Rightarrow> nat act" where
  "startRun sourceId mode startedAt = statement (with_source sourceId (put_run sourceId mode startedAt))"

definition close_run :: "nat \<Rightarrow> (run_row \<Rightarrow> run_row) \<Rightarrow> db \<Rightarrow> db" where
  "close_run runId f d =
     (case jm_get (db_sync_run d) runId of
        None \<Rightarrow> d
      | Some r \<Rightarrow> d\<lparr>db_sync_run := jm_set runId (f r) (db_sync_run d)\<rparr>)"

definition finishRun ::
  "nat \<Rightarrow> run_status \<Rightarrow> string \<Rightarrow> nat \<Rightarrow> nat \<Rightarrow> nat \<Rightarrow> int option \<Rightarrow> int option \<Rightarrow> int option \<Rightarrow> string option \<Rightarrow> unit act"
where
  "finishRun runId status finishedAt items edges activities requests cost costUnknown error =
     update (close_run runId (\<lambda>r.
          r\<lparr>rr_status := status, rr_finished_at := Some finishedAt, rr_items_seen := items,
            rr_edges_seen := edges, rr_activities_seen := activities, rr_graphql_requests := requests,
            rr_graphql_cost := cost, rr_graphql_cost_unknown := costUnknown, rr_error := error\<rparr>))"

definition put_sync_state ::
  "string \<Rightarrow> string option \<Rightarrow> run_status \<Rightarrow> string option \<Rightarrow> string \<Rightarrow> db \<Rightarrow> unit \<times> db"
where
  "put_sync_state sourceId watermark status error nowIso d =
     (let lastSuccess = (if status = Run_Ok then Some nowIso else None);
          old = jm_get (db_sync_state d) sourceId
      in ((), d\<lparr>db_sync_state := jm_set sourceId
           \<lparr>ss_watermark = nullish watermark (Option.bind old ss_watermark),
            ss_last_run_at = Some nowIso,
            ss_last_success_at = nullish lastSuccess (Option.bind old ss_last_success_at),
            ss_last_status = Some status, ss_last_error = error\<rparr> (db_sync_state d)\<rparr>))"

definition updateSyncState ::
  "string \<Rightarrow> string option \<Rightarrow> run_status \<Rightarrow> string option \<Rightarrow> string \<Rightarrow> unit act"
where
  "updateSyncState sourceId watermark status error nowIso =
     statement (with_source sourceId (put_sync_state sourceId watermark status error nowIso))"

subsection \<open>Soft deletion\<close>

text \<open>An \<open>UPDATE\<close> over the rows of a table; its result is the number of rows it changed.\<close>

definition update_rows :: "('k \<Rightarrow> 'v \<Rightarrow> bool) \<Rightarrow> ('v \<Rightarrow> 'v) \<Rightarrow> ('k, 'v) jsmap \<Rightarrow> nat \<times> ('k, 'v) jsmap" where
  "update_rows P f m =
     (length (filter (\<lambda>e. P (fst e) (snd e)) m), map (\<lambda>(k, v). (k, if P k v then f v else v)) m)"

definition item_unseen :: "string \<Rightarrow> string \<Rightarrow> row_key \<Rightarrow> item_row \<Rightarrow> bool" where
  "item_unseen sourceId cutoff k r \<longleftrightarrow>
     fst k = sourceId \<and> ir_deleted_at r = None \<and> ir_last_seen_at r < cutoff"

definition edge_unseen :: "string \<Rightarrow> string \<Rightarrow> edge_row_key \<Rightarrow> edge_row \<Rightarrow> bool" where
  "edge_unseen sourceId cutoff k r \<longleftrightarrow>
     ep_source (fst (snd k)) = sourceId \<and> ep_source (snd (snd k)) = sourceId \<and>
     er_deleted_at r = None \<and> er_last_seen_at r < cutoff"

definition thread_unseen :: "string \<Rightarrow> string \<Rightarrow> row_key \<Rightarrow> thread_row \<Rightarrow> bool" where
  "thread_unseen sourceId cutoff k r \<longleftrightarrow>
     fst k = sourceId \<and> tw_deleted_at r = None \<and> tw_last_seen_at r < cutoff"

definition tomb_items :: "string \<Rightarrow> string \<Rightarrow> string \<Rightarrow> db \<Rightarrow> nat \<times> db" where
  "tomb_items sourceId cutoff nowIso d =
     (let (n, t) = update_rows (item_unseen sourceId cutoff) (\<lambda>r. r\<lparr>ir_deleted_at := Some nowIso\<rparr>) (db_item d)
      in (n, d\<lparr>db_item := t\<rparr>))"

definition softDeleteUnseenItems :: "string \<Rightarrow> string \<Rightarrow> string \<Rightarrow> nat act" where
  "softDeleteUnseenItems sourceId cutoff nowIso = statement (Inr \<circ> tomb_items sourceId cutoff nowIso)"

definition tomb_edges :: "string \<Rightarrow> string \<Rightarrow> string \<Rightarrow> db \<Rightarrow> nat \<times> db" where
  "tomb_edges sourceId cutoff nowIso d =
     (let (n, t) = update_rows (edge_unseen sourceId cutoff) (\<lambda>r. r\<lparr>er_deleted_at := Some nowIso\<rparr>) (db_edge d)
      in (n, d\<lparr>db_edge := t\<rparr>))"

definition softDeleteUnseenEdges :: "string \<Rightarrow> string \<Rightarrow> string \<Rightarrow> nat act" where
  "softDeleteUnseenEdges sourceId cutoff nowIso = statement (Inr \<circ> tomb_edges sourceId cutoff nowIso)"

definition tomb_threads :: "string \<Rightarrow> string \<Rightarrow> string \<Rightarrow> db \<Rightarrow> nat \<times> db" where
  "tomb_threads sourceId cutoff nowIso d =
     (let (n, t) = update_rows (thread_unseen sourceId cutoff) (\<lambda>r. r\<lparr>tw_deleted_at := Some nowIso\<rparr>)
                    (db_review_thread d)
      in (n, d\<lparr>db_review_thread := t\<rparr>))"

definition softDeleteUnseenReviewThreads :: "string \<Rightarrow> string \<Rightarrow> string \<Rightarrow> nat act" where
  "softDeleteUnseenReviewThreads sourceId cutoff nowIso = statement (Inr \<circ> tomb_threads sourceId cutoff nowIso)"

section \<open>Transactions\<close>

text \<open>
  \<open>BEGIN\<close>, the body, the flush of the dirty bounds and \<open>COMMIT\<close>; on a throw \<open>ROLLBACK\<close> restores
  the tables.  \<open>COMMIT\<close> is a statement that may fail.
\<close>

definition transaction :: "(string \<Rightarrow> int option) \<Rightarrow> 'a act \<Rightarrow> 'a act" where
  "transaction jd body s =
     (case update (\<lambda>d. d) s of
        (Inl e, s1) \<Rightarrow> (Inl e, s1)
      | (Inr _, s1) \<Rightarrow>
          (case act_bind body (\<lambda>x. act_then (flushDirty jd) (act_then (update (\<lambda>d. d)) (act_return x)))
                  (s1\<lparr>st_in_tx := True\<rparr>) of
             (Inr x, s2) \<Rightarrow> (Inr x, s2\<lparr>st_in_tx := False\<rparr>)
           | (Inl e, s2) \<Rightarrow> (Inl e, s2\<lparr>st_db := st_db s1, st_dirty := jm_empty, st_in_tx := False\<rparr>)))"

definition readSnapshot :: "'a act \<Rightarrow> 'a act" where
  "readSnapshot body s =
     (case update (\<lambda>d. d) s of
        (Inl e, s1) \<Rightarrow> (Inl e, s1)
      | (Inr _, s1) \<Rightarrow>
          (case act_bind body (\<lambda>x. act_then (update (\<lambda>d. d)) (act_return x)) (s1\<lparr>st_in_tx := True\<rparr>) of
             (Inr x, s2) \<Rightarrow> (Inr x, s2\<lparr>st_in_tx := False\<rparr>)
           | (Inl e, s2) \<Rightarrow> (Inl e, s2\<lparr>st_db := st_db s1, st_in_tx := False\<rparr>)))"

end
