(* ===== verification/Store_Reads.thy ===== *)
theory Store_Reads
  imports Store
begin

text \<open>
  The read paths of the store (\<open>src/db/sqlite.ts\<close>) with the coarse text band of
  \<open>src/db/activity-range.ts\<close>.  A read is a function of the tables.  Text columns compare by code
  unit, as \<open>BINARY\<close> collation does; a comparison with \<open>NULL\<close> selects no row and \<open>NULL\<close> sorts first.
  \<open>localeCompare\<close> is the runtime's collation and a parameter, \<open>lc\<close>.
\<close>

section \<open>Bounds of a read\<close>

definition safe_limit :: "int option \<Rightarrow> nat" where
  "safe_limit limit = (case limit of None \<Rightarrow> 0 | Some n \<Rightarrow> nat n)"

definition COARSE_MARGIN_HOURS :: int where
  "COARSE_MARGIN_HOURS = 48"

record activity_range =
  rg_coarse_from :: string
  rg_coarse_to :: string
  rg_from :: string
  rg_to :: string

definition activityRangeBounds :: "string \<Rightarrow> string \<Rightarrow> activity_range result" where
  "activityRangeBounds fromIso toIso =
     (case (date_parse fromIso, date_parse toIso) of
        (Some fromMs, Some toMs) \<Rightarrow>
          (let marginMs = COARSE_MARGIN_HOURS * 3600000 in
           rbind (toISOString (Some (fromMs - marginMs))) (\<lambda>coarseFrom.
           rbind (toISOString (Some (toMs + marginMs))) (\<lambda>coarseTo.
           Inr \<lparr>rg_coarse_from = coarseFrom, rg_coarse_to = coarseTo, rg_from = fromIso, rg_to = toIso\<rparr>)))
      | _ \<Rightarrow> Inl (''activityRangeBounds: unparseable range (from='' @ fromIso @ '', to='' @ toIso @ '')''))"

definition jd_le :: "(string \<Rightarrow> int option) \<Rightarrow> string \<Rightarrow> string \<Rightarrow> bool" where
  "jd_le jd a b = (case (jd a, jd b) of (Some x, Some y) \<Rightarrow> x \<le> y | _ \<Rightarrow> False)"

definition in_band :: "(string \<Rightarrow> int option) \<Rightarrow> activity_range \<Rightarrow> string \<Rightarrow> bool" where
  "in_band jd rg t \<longleftrightarrow>
     rg_coarse_from rg \<le> t \<and> t \<le> rg_coarse_to rg \<and> jd_le jd (rg_from rg) t \<and> jd_le jd t (rg_to rg)"

section \<open>Items, labels and edges\<close>

definition getWatermark :: "string \<Rightarrow> db \<Rightarrow> string option" where
  "getWatermark sourceId d = Option.bind (jm_get (db_sync_state d) sourceId) ss_watermark"

definition live_items :: "db \<Rightarrow> item_row list" where
  "live_items d = filter (\<lambda>r. ir_deleted_at r = None) (jm_values (db_item d))"

definition item_resolved_at :: "item_row \<Rightarrow> string option" where
  "item_resolved_at r =
     (let i = ir_item r in
      nullish (it_closed_at i) (nullish (it_merged_at i) (nullish (it_updated_at i) (it_created_at i))))"

definition item_order :: "item_row \<Rightarrow> item_row \<Rightarrow> int" where
  "item_order = then_by (descending (by_key item_resolved_at)) (descending (by_key ir_item_id))"

definition listLiveItems :: "db \<Rightarrow> item_row list" where
  "listLiveItems d = js_sort item_order (live_items d)"

definition source_refs :: "string list \<Rightarrow> string list" where
  "source_refs externalIds = js_sort (by_key (\<lambda>x. x)) (js_set_of (filter (\<lambda>x. x \<noteq> []) externalIds))"

definition listLiveItemsBySourceRefs :: "string \<Rightarrow> string list \<Rightarrow> db \<Rightarrow> item_row list" where
  "listLiveItemsBySourceRefs sourceId externalIds d =
     (let refs = source_refs externalIds in
      if refs = [] then []
      else map (\<lambda>r. r\<lparr>ir_item := (ir_item r)\<lparr>it_body := None\<rparr>\<rparr>)
             (js_sort (by_key (it_external \<circ> ir_item))
               (filter (\<lambda>r. it_source (ir_item r) = sourceId \<and> it_external (ir_item r) \<in> set refs)
                 (live_items d))))"

type_synonym label_row = "nat \<times> label"

definition label_rows :: "db \<Rightarrow> label_row list" where
  "label_rows d = map (\<lambda>(k, l). (fst k, l)) (db_item_label d)"

definition listLabels :: "db \<Rightarrow> label_row list" where
  "listLabels d = label_rows d"

definition listLabelsByItemIds :: "int list \<Rightarrow> db \<Rightarrow> label_row list" where
  "listLabelsByItemIds itemIds d =
     (let ids = js_sort (by_key (\<lambda>x. x)) (js_set_of (filter (\<lambda>i. 0 < i) itemIds)) in
      if ids = [] then []
      else js_sort (then_by (by_key fst) (by_key (lb_name \<circ> snd)))
             (filter (\<lambda>r. int (fst r) \<in> set ids) (label_rows d)))"

definition live_edges :: "db \<Rightarrow> reconciled_edge list" where
  "live_edges d = map er_edge (filter (\<lambda>r. er_deleted_at r = None) (jm_values (db_edge d)))"

definition listLiveEdges :: "db \<Rightarrow> reconciled_edge list" where
  "listLiveEdges d = live_edges d"

definition edge_type_text :: "edge_type \<Rightarrow> string" where
  "edge_type_text t = (case t of Closes \<Rightarrow> ''closes'' | Relates \<Rightarrow> ''relates'' | Mentions \<Rightarrow> ''mentions''
     | Blocks \<Rightarrow> ''blocks'' | Blocked_By \<Rightarrow> ''blocked_by'' | Parent \<Rightarrow> ''parent'' | Child \<Rightarrow> ''child''
     | Other_Edge s \<Rightarrow> s)"

record bounded_edges =
  be_rows :: "reconciled_edge list"
  be_truncated :: bool

definition edges_at ::
  "(reconciled_edge \<Rightarrow> endpoint) \<Rightarrow> (reconciled_edge \<Rightarrow> endpoint) \<Rightarrow> string \<Rightarrow> string list \<Rightarrow> db \<Rightarrow> reconciled_edge list"
where
  "edges_at near far sourceId refs d =
     js_sort (then_by (by_key (ep_external \<circ> near)) (then_by (by_key (ep_source \<circ> far))
       (then_by (by_key (ep_external \<circ> far)) (by_key (edge_type_text \<circ> ed_type)))))
       (filter (\<lambda>e. ep_source (near e) = sourceId \<and> ep_external (near e) \<in> set refs) (live_edges d))"

definition by_collation :: "(string \<Rightarrow> string \<Rightarrow> int) \<Rightarrow> ('a \<Rightarrow> string) \<Rightarrow> 'a \<Rightarrow> 'a \<Rightarrow> int" where
  "by_collation lc f a b = lc (f a) (f b)"

definition edge_collation :: "(string \<Rightarrow> string \<Rightarrow> int) \<Rightarrow> reconciled_edge \<Rightarrow> reconciled_edge \<Rightarrow> int" where
  "edge_collation lc =
     then_by (by_collation lc (ep_source \<circ> ed_from)) (then_by (by_collation lc (ep_external \<circ> ed_from))
       (then_by (by_collation lc (ep_source \<circ> ed_to)) (then_by (by_collation lc (ep_external \<circ> ed_to))
         (by_collation lc (edge_type_text \<circ> ed_type)))))"

definition listLiveEdgesForSourceRefs ::
  "(string \<Rightarrow> string \<Rightarrow> int) \<Rightarrow> string \<Rightarrow> string list \<Rightarrow> int option \<Rightarrow> db \<Rightarrow> bounded_edges"
where
  "listLiveEdgesForSourceRefs lc sourceId externalIds limit d =
     (let refs = source_refs externalIds; safeLimit = safe_limit limit in
      if refs = [] \<or> safeLimit = 0 then \<lparr>be_rows = [], be_truncated = False\<rparr>
      else
        (let from = take (safeLimit + 1) (edges_at ed_from ed_to sourceId refs d);
             to = take (safeLimit + 1) (edges_at ed_to ed_from sourceId refs d);
             byKey = fold (\<lambda>e. jm_set (edge_row_key e) e) (from @ to) jm_empty;
             sorted = js_sort (edge_collation lc) (jm_values byKey)
         in \<lparr>be_rows = take safeLimit sorted,
             be_truncated = safeLimit < length from \<or> safeLimit < length to \<or> safeLimit < length sorted\<rparr>))"

text \<open>Change requests whose CI state may have moved: unfinished first, then open, newest first.\<close>

definition item_ci_moment :: "item_row \<Rightarrow> string option" where
  "item_ci_moment r =
     (let i = ir_item r in
      nullish (it_merged_at i) (nullish (it_closed_at i) (nullish (it_updated_at i) (it_created_at i))))"

definition text_ge :: "string option \<Rightarrow> string \<Rightarrow> bool" where
  "text_ge a b = (case a of None \<Rightarrow> False | Some x \<Rightarrow> b \<le> x)"

definition ci_candidate :: "string \<Rightarrow> string \<Rightarrow> item_row \<Rightarrow> bool" where
  "ci_candidate sourceId cutoffIso r \<longleftrightarrow>
     ir_deleted_at r = None \<and> it_source (ir_item r) = sourceId \<and> it_kind (ir_item r) = Change_Request \<and>
     it_project_path (ir_item r) \<noteq> None \<and> it_iid (ir_item r) \<noteq> None \<and>
     (it_state (ir_item r) = Open \<or> text_ge (item_ci_moment r) cutoffIso)"

definition ci_rank :: "item_row \<Rightarrow> nat" where
  "ci_rank r =
     (if it_ci_state (ir_item r) \<in> {Some Pending, Some No_Ci} then 0
      else if it_state (ir_item r) = Open then 1 else 2)"

definition ci_order :: "(string \<Rightarrow> int option) \<Rightarrow> item_row \<Rightarrow> item_row \<Rightarrow> int" where
  "ci_order jd =
     then_by (by_key ci_rank) (then_by (descending (by_key (\<lambda>r. Option.bind (item_ci_moment r) jd)))
       (descending (by_key ir_item_id)))"

definition ci_candidates :: "(string \<Rightarrow> int option) \<Rightarrow> string \<Rightarrow> string \<Rightarrow> nat \<Rightarrow> db \<Rightarrow> item_row list" where
  "ci_candidates jd sourceId cutoffIso limit d =
     take limit (js_sort (ci_order jd) (filter (ci_candidate sourceId cutoffIso) (jm_values (db_item d))))"

definition listCiRefreshCandidates ::
  "(string \<Rightarrow> int option) \<Rightarrow> string \<Rightarrow> string \<Rightarrow> int option \<Rightarrow> item_row list act" where
  "listCiRefreshCandidates jd sourceId cutoffIso limit =
     (let safeLimit = safe_limit limit in
      if safeLimit = 0 then act_return [] else query (ci_candidates jd sourceId cutoffIso safeLimit))"

section \<open>Activities and commit files\<close>

definition newest_first :: "(string \<Rightarrow> int option) \<Rightarrow> activity_row \<Rightarrow> activity_row \<Rightarrow> int" where
  "newest_first jd =
     then_by (descending (by_key (row_instant jd))) (descending (by_key av_activity_id))"

definition listActivities :: "(string \<Rightarrow> int option) \<Rightarrow> db \<Rightarrow> activity_row list" where
  "listActivities jd d = js_sort (newest_first jd) (jm_values (db_activity d))"

definition listActivitiesInRange ::
  "(string \<Rightarrow> int option) \<Rightarrow> string \<Rightarrow> string \<Rightarrow> db \<Rightarrow> activity_row list result" where
  "listActivitiesInRange jd fromIso toIso d =
     rbind (activityRangeBounds fromIso toIso) (\<lambda>rg.
     Inr (js_sort (newest_first jd)
            (filter (\<lambda>r. in_band jd rg (ac_occurred_at (av_activity r))) (jm_values (db_activity d)))))"

definition commit_candidate :: "(string \<Rightarrow> int option) \<Rightarrow> activity_range \<Rightarrow> string \<Rightarrow> db \<Rightarrow> activity_row \<Rightarrow> bool" where
  "commit_candidate jd rg sourceId d r \<longleftrightarrow>
     (let a = av_activity r in
      ac_source a = sourceId \<and> ac_kind a = ''commit'' \<and> ac_project_path a \<noteq> None \<and>
      \<not> jm_has (db_commit_files d) (ac_source a, ac_external a) \<and>
      rg_coarse_from rg \<le> ac_occurred_at a \<and> jd_le jd (rg_from rg) (ac_occurred_at a))"

definition commit_candidates ::
  "(string \<Rightarrow> int option) \<Rightarrow> activity_range \<Rightarrow> string \<Rightarrow> nat \<Rightarrow> db \<Rightarrow> activity_row list" where
  "commit_candidates jd rg sourceId limit d =
     take limit (js_sort (newest_first jd) (filter (commit_candidate jd rg sourceId d) (jm_values (db_activity d))))"

definition listCommitFileCandidates ::
  "(string \<Rightarrow> int option) \<Rightarrow> string \<Rightarrow> string \<Rightarrow> int option \<Rightarrow> activity_row list act" where
  "listCommitFileCandidates jd sourceId sinceIso limit =
     (let safeLimit = safe_limit limit in
      if safeLimit = 0 then act_return []
      else act_bind (act_result (activityRangeBounds sinceIso sinceIso)) (\<lambda>rg.
        query (commit_candidates jd rg sourceId safeLimit)))"

definition listCommitFilesInRange ::
  "(string \<Rightarrow> int option) \<Rightarrow> string \<Rightarrow> string \<Rightarrow> db \<Rightarrow> commit_files_row list result" where
  "listCommitFilesInRange jd fromIso toIso d =
     rbind (activityRangeBounds fromIso toIso) (\<lambda>rg.
     Inr (filter (\<lambda>r.
            cs_state (fr_files r) = Files_Ok \<and>
            (case jm_get (db_activity d) (cs_source (fr_files r), cs_external (fr_files r)) of
               None \<Rightarrow> False
             | Some a \<Rightarrow> ac_kind (av_activity a) = ''commit'' \<and> in_band jd rg (ac_occurred_at (av_activity a))))
          (jm_values (db_commit_files d))))"

section \<open>Review threads, bounds, sources\<close>

definition thread_order :: "thread_row \<Rightarrow> thread_row \<Rightarrow> int" where
  "thread_order =
     then_by (by_key (rt_is_resolved \<circ> tw_thread)) (then_by (by_key (rt_source \<circ> tw_thread))
       (then_by (by_key (rt_project_path \<circ> tw_thread)) (then_by (descending (by_key (rt_target_iid \<circ> tw_thread)))
         (then_by (by_key (rt_path \<circ> tw_thread)) (then_by (by_key (rt_line \<circ> tw_thread))
           (by_key (rt_external \<circ> tw_thread)))))))"

definition listLiveReviewThreads :: "db \<Rightarrow> thread_row list" where
  "listLiveReviewThreads d =
     js_sort thread_order (filter (\<lambda>r. tw_deleted_at r = None) (jm_values (db_review_thread d)))"

definition listRepoActivityBounds :: "db \<Rightarrow> (row_key \<times> bounds_row) list" where
  "listRepoActivityBounds d =
     js_sort (then_by (by_key (fst \<circ> fst)) (by_key (snd \<circ> fst))) (db_bounds d)"

definition listSources :: "db \<Rightarrow> (string \<times> source_row \<times> state_row option) list" where
  "listSources d =
     map (\<lambda>(sid, s). (sid, s, jm_get (db_sync_state d) sid)) (js_sort (by_key fst) (db_source d))"

section \<open>The writer lease\<close>

text \<open>
  The lease is an exclusive lock on a second file; \<open>lk_holder\<close> is the handle whose connection has it.
  A handle on an in-memory store needs no lock.
\<close>

record lease_handle =
  lh_id :: nat
  lh_memory :: bool
  lh_lease :: bool

definition acquireWriterLease :: "lease_handle \<Rightarrow> nat option \<Rightarrow> bool \<times> lease_handle \<times> nat option" where
  "acquireWriterLease h lk =
     (if lh_memory h then (True, h, lk)
      else if lh_lease h then (True, h, lk)
      else (case lk of
              Some _ \<Rightarrow> (False, h, lk)
            | None \<Rightarrow> (True, h\<lparr>lh_lease := True\<rparr>, Some (lh_id h))))"

definition releaseWriterLease :: "lease_handle \<Rightarrow> nat option \<Rightarrow> lease_handle \<times> nat option" where
  "releaseWriterLease h lk = (if \<not> lh_lease h then (h, lk) else (h\<lparr>lh_lease := False\<rparr>, None))"

section \<open>What the reads return\<close>

interpretation oldest: comparator "by_instant jd" "\<lambda>_. True"
  unfolding by_instant_def by (intro comparator_intros)

interpretation newest: comparator "newest_first jd" "\<lambda>_. True"
  unfolding newest_first_def by (intro comparator_intros)

interpretation items: comparator item_order "\<lambda>_. True"
  unfolding item_order_def by (intro comparator_intros)

interpretation ci: comparator "ci_order jd" "\<lambda>_. True"
  unfolding ci_order_def by (intro comparator_intros)

interpretation threads: comparator thread_order "\<lambda>_. True"
  unfolding thread_order_def by (intro comparator_intros)

text \<open>An item for the instances at which theorems are applied.\<close>

definition sample_item :: item where
  "sample_item =
     \<lparr>it_source = ''gh'', it_external = ''i1'', it_kind = Issue, it_project_path = Some ''a/b'', it_iid = Some 1,
      it_url = ''u'', it_title = None, it_body = None, it_state = Open, it_state_raw = None,
      it_state_reason = None, it_is_draft = None, it_author = None, it_created_at = None,
      it_updated_at = None, it_closed_at = None, it_merged_at = None, it_review_state = None,
      it_ci_state = None, it_merge_state = None, it_open_review_threads = None,
      it_total_review_threads = None, it_comment_total = None, it_milestone = None, it_demand = None\<rparr>"

end
