(* ===== verification/Store_Invariant.thy ===== *)
theory Store_Invariant
  imports Store_Reads
begin

text \<open>
  What every method of the store keeps.  The locale \<open>table_invariant\<close> lifts a property of the
  tables from single SQL statements to methods, to transactions and to every store that can be
  reached; it is interpreted on the integrity of the schema: unique keys, unique row ids below the
  sequence, and no reference to a source or item that is not there.
\<close>

section \<open>Calls and reachable stores\<close>

datatype write_call =
    Ensure_Source source_descriptor string
  | Upsert_Raw string string string "string option" "string option" string json_text
  | Upsert_Item item string string
  | Replace_Labels nat "label list"
  | Upsert_Edge reconciled_edge string
  | Upsert_Activity activity string
  | Upsert_Review_Thread review_thread string
  | Upsert_Commit_Files commit_files string
  | Start_Run string run_mode string
  | Finish_Run nat run_status string nat nat nat "int option" "int option" "int option" "string option"
  | Update_Sync_State string "string option" run_status "string option" string
  | Delete_Unseen_Items string string string
  | Delete_Unseen_Edges string string string
  | Delete_Unseen_Threads string string string

definition void :: "'a act \<Rightarrow> unit act" where
  "void a = act_then a (act_return ())"

fun run_call :: "(string \<Rightarrow> int option) \<Rightarrow> write_call \<Rightarrow> unit act" where
  "run_call jd (Ensure_Source sd t) = ensureSource sd t"
| "run_call jd (Upsert_Raw s k e v h t p) = void (upsertRaw s k e v h t p)"
| "run_call jd (Upsert_Item i n t) = void (upsertItem i n t)"
| "run_call jd (Replace_Labels i ls) = replaceLabels i ls"
| "run_call jd (Upsert_Edge e t) = upsertEdge e t"
| "run_call jd (Upsert_Activity a t) = upsertActivity jd a t"
| "run_call jd (Upsert_Review_Thread r t) = upsertReviewThread r t"
| "run_call jd (Upsert_Commit_Files f t) = upsertCommitFiles f t"
| "run_call jd (Start_Run s m t) = void (startRun s m t)"
| "run_call jd (Finish_Run r st t i e a q c u err) = finishRun r st t i e a q c u err"
| "run_call jd (Update_Sync_State s w st err t) = updateSyncState s w st err t"
| "run_call jd (Delete_Unseen_Items s c t) = void (softDeleteUnseenItems s c t)"
| "run_call jd (Delete_Unseen_Edges s c t) = void (softDeleteUnseenEdges s c t)"
| "run_call jd (Delete_Unseen_Threads s c t) = void (softDeleteUnseenReviewThreads s c t)"

definition empty_db :: db where
  "empty_db = \<lparr>db_source = [], db_raw = [], db_item = [], db_item_label = [], db_edge = [],
     db_activity = [], db_review_thread = [], db_commit_files = [], db_bounds = [], db_sync_run = [],
     db_sync_state = [], db_item_seq = 1, db_edge_seq = 1, db_activity_seq = 1, db_run_seq = 1\<rparr>"

definition open_store :: "string option list \<Rightarrow> store" where
  "open_store faults = \<lparr>st_db = empty_db, st_dirty = [], st_in_tx = False, st_faults = faults, st_counts = (0, 0)\<rparr>"

text \<open>A client calls methods and runs transactions; any statement may fail on the way.\<close>

inductive reachable :: "(string \<Rightarrow> int option) \<Rightarrow> store \<Rightarrow> bool" for jd where
  opened: "reachable jd (open_store faults)"
| called: "reachable jd s \<Longrightarrow> reachable jd (snd (run_call jd c s))"
| transacted: "reachable jd s \<Longrightarrow> reachable jd (snd (transaction jd (act_each (run_call jd) cs) s))"

section \<open>Preservation, statement by statement\<close>

definition keeps :: "(db \<Rightarrow> bool) \<Rightarrow> 'a act \<Rightarrow> bool" where
  "keeps I a \<longleftrightarrow> (\<forall>s :: store. I (st_db s) \<longrightarrow> I (st_db (snd (a s))))"

lemma keepsD: "keeps I a \<Longrightarrow> I (st_db s) \<Longrightarrow> I (st_db (snd (a s)))"
  by (simp add: keeps_def)

lemma keeps_return [inv_intros]: "keeps I (act_return x)"
  by (simp add: keeps_def act_return_def)

lemma keeps_bind [inv_intros]:
  assumes "keeps I a" and "\<And>x. keeps I (f x)"
  shows "keeps I (act_bind a f)"
  unfolding keeps_def
proof (intro allI impI)
  fix s :: store
  assume "I (st_db s)"
  then have "I (st_db (snd (a s)))" using assms(1) by (simp add: keeps_def)
  then show "I (st_db (snd (act_bind a f s)))"
    using assms(2) by (cases "a s") (auto simp: act_bind_def keeps_def split: sum.split)
qed

lemma keeps_then [inv_intros]: "keeps I a \<Longrightarrow> keeps I b \<Longrightarrow> keeps I (act_then a b)"
  unfolding act_then_def by (intro keeps_bind)

lemma keeps_each [inv_intros]: "(\<And>x. x \<in> set xs \<Longrightarrow> keeps I (f x)) \<Longrightarrow> keeps I (act_each f xs)"
  by (induction xs) (auto intro: inv_intros)

lemma keeps_statement:
  "(\<And>d x d'. I d \<Longrightarrow> f d = Inr (x, d') \<Longrightarrow> I d') \<Longrightarrow> keeps I (statement f)"
  unfolding keeps_def statement_def
  by (auto simp: Let_def split: list.split option.split sum.split)

lemma keeps_update: "(\<And>d. I d \<Longrightarrow> I (f d)) \<Longrightarrow> keeps I (update f)"
  unfolding update_def by (rule keeps_statement) auto

lemma keeps_query [inv_intros]: "keeps I (query f)"
  unfolding query_def by (rule keeps_statement) auto

lemma keeps_with_source:
  "(\<And>d. I d \<Longrightarrow> jm_has (db_source d) sid \<Longrightarrow> I (snd (f d))) \<Longrightarrow> keeps I (statement (with_source sid f))"
  by (rule keeps_statement) (fastforce simp: with_source_def split: if_splits)

lemma keeps_total: "(\<And>d. I d \<Longrightarrow> I (snd (f d))) \<Longrightarrow> keeps I (statement (Inr \<circ> f))"
  by (rule keeps_statement) (metis comp_apply snd_conv sum.inject(2))

lemma keeps_markDirty [inv_intros]: "keeps I (markDirty s p t)"
  by (simp add: keeps_def markDirty_def Let_def)

lemma keeps_void [inv_intros]: "keeps I a \<Longrightarrow> keeps I (void a)"
  unfolding void_def by (intro inv_intros)

text \<open>A failed transaction leaves the tables of its start, so it keeps whatever its body keeps.\<close>

lemma st_db_update_id: "st_db (snd (update (\<lambda>d. d) s)) = st_db s"
  by (auto simp: update_def statement_def Let_def split: list.split option.split)

lemma keeps_transaction:
  assumes "keeps I body" and "keeps I (flushDirty jd)"
  shows "keeps I (transaction jd body)"
  unfolding keeps_def
proof (intro allI impI)
  fix s :: store
  assume "I (st_db s)"
  obtain r s1 where b: "update (\<lambda>d. d) s = (r, s1)" by fastforce
  have s1: "st_db s1 = st_db s" using st_db_update_id [of s] b by simp
  let ?m = "act_bind body (\<lambda>x. act_then (flushDirty jd) (act_then (update (\<lambda>d. d)) (act_return x)))"
  have "keeps I ?m" by (intro inv_intros assms keeps_update)
  then have "I (st_db (snd (?m (s1\<lparr>st_in_tx := True\<rparr>))))"
    by (rule keepsD) (simp add: s1 \<open>I (st_db s)\<close>)
  moreover obtain r2 s2 where "?m (s1\<lparr>st_in_tx := True\<rparr>) = (r2, s2)" by fastforce
  ultimately show "I (st_db (snd (transaction jd body s)))"
    by (cases r; cases r2) (simp_all add: transaction_def b s1 \<open>I (st_db s)\<close>)
qed

text \<open>
  Four contracts, each with more statements than the one before: the writes around the canonical
  entities (sources, raw records, file lists, cached bounds, the run log), the entities themselves,
  the sync state, and the deletions.
\<close>

locale log_writes =
  fixes I :: "db \<Rightarrow> bool"
  assumes put_source: "I d \<Longrightarrow> I (put_source sd t d)"
    and put_raw: "I d \<Longrightarrow> jm_has (db_source d) sid \<Longrightarrow> I (snd (put_raw sid e r d))"
    and drop_bounds: "I d \<Longrightarrow> I (drop_bounds k d)"
    and put_bounds: "I d \<Longrightarrow> jm_has (db_source d) sid \<Longrightarrow> I (snd (put_bounds (sid, pk) b d))"
    and put_commit_files:
      "I d \<Longrightarrow> jm_has (db_source d) (cs_source f) \<Longrightarrow> I (snd (put_commit_files f t d))"
    and put_run: "I d \<Longrightarrow> jm_has (db_source d) sid \<Longrightarrow> I (snd (put_run sid m t d))"
    and close_run: "I d \<Longrightarrow> (\<And>r. rr_source_id (g r) = rr_source_id r) \<Longrightarrow> I (close_run rid g d)"
begin

lemma keeps_flush: "keeps I (flushDirty jd)"
proof -
  have "keeps I (refresh_bounds jd b)" for b
    unfolding refresh_bounds_def
    by (auto intro!: inv_intros keeps_update keeps_with_source simp: drop_bounds put_bounds)
  then have "keeps I (act_each (refresh_bounds jd) bs)" for bs
    by (intro inv_intros)
  then show ?thesis by (simp add: keeps_def flushDirty_def)
qed

lemma keeps_upsertRaw: "keeps I (upsertRaw s k e v h t p)"
  by (auto simp: upsertRaw_def put_raw intro!: inv_intros keeps_with_source)

lemma keeps_finishRun: "keeps I (finishRun r st t i e a q c u err)"
  by (auto simp: finishRun_def intro!: keeps_update close_run)

lemma keeps_log_statements:
  "keeps I (ensureSource sd t)"
  "keeps I (upsertCommitFiles f t)"
  "keeps I (startRun sid m t)"
  unfolding ensureSource_def upsertCommitFiles_def startRun_def
  by (intro keeps_update keeps_with_source; simp add: put_source put_commit_files put_run)+

lemmas keeps_logs = keeps_upsertRaw keeps_finishRun keeps_log_statements

end

locale content_writes = log_writes I for I :: "db \<Rightarrow> bool" +
  assumes put_item: "I d \<Longrightarrow> jm_has (db_source d) (it_source i) \<Longrightarrow> I (snd (put_item i n t d))"
    and clear_labels: "I d \<Longrightarrow> I (clear_labels iid d)"
    and put_label: "I d \<Longrightarrow> put_label iid l d = Inr (u, d') \<Longrightarrow> I d'"
    and put_edge: "I d \<Longrightarrow> I (put_edge ed t d)"
    and put_activity: "I d \<Longrightarrow> jm_has (db_source d) (ac_source a) \<Longrightarrow> I (snd (put_activity a t d))"
    and put_thread: "I d \<Longrightarrow> I (put_thread th t d)"
begin

lemma keeps_upsertActivity: "keeps I (upsertActivity jd a t)"
proof -
  have "keeps I (\<lambda>s. if st_in_tx s then (Inr (), s) else flushDirty jd s)"
    using keeps_flush by (simp add: keeps_def)
  then show ?thesis
    unfolding upsertActivity_def
    by (auto intro!: inv_intros keeps_with_source simp: put_activity split: option.split)
qed

lemma keeps_replaceLabels: "keeps I (replaceLabels i ls)"
  by (auto simp: replaceLabels_def clear_labels intro!: inv_intros keeps_update keeps_statement dest: put_label)

lemma keeps_entity_statements:
  "keeps I (upsertItem it n t)"
  "keeps I (upsertEdge ed t)"
  "keeps I (upsertReviewThread th t)"
  unfolding upsertItem_def upsertEdge_def upsertReviewThread_def
  by (intro keeps_update keeps_with_source; simp add: put_item put_edge put_thread)+

lemmas keeps_contents = keeps_upsertActivity keeps_replaceLabels keeps_entity_statements keeps_logs

end

locale table_writes = content_writes I for I :: "db \<Rightarrow> bool" +
  assumes put_sync_state: "I d \<Longrightarrow> jm_has (db_source d) sid \<Longrightarrow> I (snd (put_sync_state sid w st er t d))"
begin

lemma keeps_updateSyncState: "keeps I (updateSyncState sid w st err t)"
  unfolding updateSyncState_def by (intro keeps_with_source) (simp add: put_sync_state)

lemmas keeps_writes = keeps_contents keeps_updateSyncState

end

text \<open>With the deletions of a sweep the contract covers every method.\<close>

locale table_invariant = table_writes I for I :: "db \<Rightarrow> bool" +
  assumes tomb_items: "I d \<Longrightarrow> I (snd (tomb_items sid c t d))"
    and tomb_edges: "I d \<Longrightarrow> I (snd (tomb_edges sid c t d))"
    and tomb_threads: "I d \<Longrightarrow> I (snd (tomb_threads sid c t d))"
begin

lemma keeps_deletions:
  "keeps I (softDeleteUnseenItems sid c t)"
  "keeps I (softDeleteUnseenEdges sid c t)"
  "keeps I (softDeleteUnseenReviewThreads sid c t)"
  unfolding softDeleteUnseenItems_def softDeleteUnseenEdges_def softDeleteUnseenReviewThreads_def
  by (intro keeps_total; simp add: tomb_items tomb_edges tomb_threads)+

lemma keeps_call: "keeps I (run_call jd c)"
  by (cases c) (auto intro: keeps_writes keeps_deletions keeps_void)

lemma keeps_reachable: "reachable jd s \<Longrightarrow> I empty_db \<Longrightarrow> I (st_db s)"
proof (induction rule: reachable.induct)
  case (opened faults)
  then show ?case by (simp add: open_store_def)
next
  case (called s c)
  then show ?case using keeps_call by (simp add: keeps_def)
next
  case (transacted s cs)
  have "keeps I (transaction jd (act_each (run_call jd) cs))"
    by (intro keeps_transaction inv_intros keeps_call keeps_flush)
  with transacted show ?case by (simp add: keeps_def)
qed

end

section \<open>Integrity of the schema\<close>

text \<open>A table with row ids: one row per key, the key is in the row, ids are unique and below the sequence.\<close>

definition id_table :: "('v \<Rightarrow> 'k) \<Rightarrow> ('v \<Rightarrow> nat) \<Rightarrow> nat \<Rightarrow> ('k, 'v) jsmap \<Rightarrow> bool" where
  "id_table kf idf sq m \<longleftrightarrow>
     distinct (jm_keys m) \<and> (\<forall>e\<in>set m. fst e = kf (snd e) \<and> idf (snd e) < sq) \<and>
     distinct (map idf (jm_values m))"

lemma id_table_empty: "id_table kf idf sq []"
  by (simp add: id_table_def jm_keys_def jm_values_def)

lemma id_table_insert:
  assumes "id_table kf idf sq m" and "jm_get m k = None" and "kf r = k" and "idf r = sq"
  shows "id_table kf idf (Suc sq) (jm_set k r m)"
proof -
  have "sq \<notin> set (map idf (jm_values m))"
    using assms(1) by (auto simp: id_table_def jm_values_def)
  with assms show ?thesis
    by (auto simp: id_table_def jm_get_None_iff jm_set_absent jm_keys_def jm_values_def less_Suc_eq)
qed

lemma id_table_replace:
  assumes "id_table kf idf sq m" and "jm_get m k = Some r0" and "kf r = k" and "idf r = idf r0"
  shows "id_table kf idf sq (jm_set k r m)"
proof -
  have "idf r0 < sq" using assms(1,2) by (force simp: id_table_def dest: jm_get_Some_mem)
  with assms show ?thesis
    by (auto simp: id_table_def set_jm_set jm_values_set_same)
qed

lemma jm_keys_update_rows [simp]: "jm_keys (snd (update_rows P f m)) = jm_keys m"
  by (auto simp: update_rows_def jm_keys_def)

lemma jm_values_update_rows:
  "(\<And>v. g (f v) = g v) \<Longrightarrow> map g (jm_values (snd (update_rows P f m))) = map g (jm_values m)"
  by (auto simp: update_rows_def jm_values_def)

lemma id_table_update_rows:
  assumes "id_table kf idf sq m" and "\<And>v. kf (f v) = kf v" and "\<And>v. idf (f v) = idf v"
  shows "id_table kf idf sq (snd (update_rows P f m))"
proof -
  have "\<forall>e\<in>set (snd (update_rows P f m)). fst e = kf (snd e) \<and> idf (snd e) < sq"
    using assms by (auto simp: id_table_def update_rows_def)
  with assms show ?thesis by (simp add: id_table_def jm_values_update_rows)
qed

definition item_key :: "item_row \<Rightarrow> row_key" where
  "item_key r = (it_source (ir_item r), it_external (ir_item r))"

definition activity_key :: "activity_row \<Rightarrow> row_key" where
  "activity_key r = (ac_source (av_activity r), ac_external (av_activity r))"

definition item_ids :: "db \<Rightarrow> nat set" where
  "item_ids d = ir_item_id ` set (jm_values (db_item d))"

definition source_ids :: "db \<Rightarrow> string set" where
  "source_ids d = set (jm_keys (db_source d))"

definition keys_ok :: "db \<Rightarrow> bool" where
  "keys_ok d \<longleftrightarrow>
     id_table item_key ir_item_id (db_item_seq d) (db_item d) \<and>
     id_table (edge_row_key \<circ> er_edge) er_edge_id (db_edge_seq d) (db_edge d) \<and>
     id_table activity_key av_activity_id (db_activity_seq d) (db_activity d) \<and>
     distinct (jm_keys (db_source d)) \<and> distinct (jm_keys (db_raw d)) \<and>
     distinct (jm_keys (db_item_label d)) \<and> distinct (jm_keys (db_review_thread d)) \<and>
     distinct (jm_keys (db_commit_files d)) \<and> distinct (jm_keys (db_bounds d)) \<and>
     distinct (jm_keys (db_sync_run d)) \<and> distinct (jm_keys (db_sync_state d)) \<and>
     (\<forall>k\<in>set (jm_keys (db_sync_run d)). k < db_run_seq d)"

definition references_ok :: "db \<Rightarrow> bool" where
  "references_ok d \<longleftrightarrow>
     fst ` set (jm_keys (db_raw d)) \<subseteq> source_ids d \<and>
     fst ` set (jm_keys (db_item d)) \<subseteq> source_ids d \<and>
     fst ` set (jm_keys (db_activity d)) \<subseteq> source_ids d \<and>
     fst ` set (jm_keys (db_bounds d)) \<subseteq> source_ids d \<and>
     fst ` set (jm_keys (db_commit_files d)) \<subseteq> source_ids d \<and>
     set (jm_keys (db_sync_state d)) \<subseteq> source_ids d \<and>
     rr_source_id ` set (jm_values (db_sync_run d)) \<subseteq> source_ids d \<and>
     fst ` set (jm_keys (db_item_label d)) \<subseteq> item_ids d"

lemma item_ids_put_item: "item_ids d \<subseteq> item_ids (snd (put_item i n t d))"
proof (cases "jm_get (db_item d) (it_source i, it_external i)")
  case None
  then have absent: "(it_source i, it_external i) \<notin> set (jm_keys (db_item d))"
    by (simp add: jm_get_None_iff)
  show ?thesis
    by (simp add: item_ids_def put_item_def Let_def None jm_set_absent [OF absent] jm_values_def) blast
next
  case (Some r)
  have "map ir_item_id (jm_values (db_item (snd (put_item i n t d)))) = map ir_item_id (jm_values (db_item d))"
    by (simp add: put_item_def Let_def Some) (rule jm_values_set_same [OF Some], simp)
  then show ?thesis unfolding item_ids_def by (metis equalityE set_map)
qed

lemmas table_defs =
  put_source_def put_raw_def clear_labels_def put_edge_def put_activity_def drop_bounds_def put_bounds_def
  put_thread_def put_commit_files_def put_run_def close_run_def put_sync_state_def tomb_items_def
  tomb_edges_def tomb_threads_def Let_def

lemma set_jm_values_set_subset: "f ` set (jm_values (jm_set k v m)) \<subseteq> insert (f v) (f ` set (jm_values m))"
  using jm_values_set [of k v m] by auto

interpretation keys: table_invariant keys_ok
proof
  fix d i n t
  assume "keys_ok d"
  then show "keys_ok (snd (put_item i n t d))"
    by (auto simp: keys_ok_def put_item_def Let_def item_key_def
        intro: id_table_insert id_table_replace split: option.split)
next
  fix d iid l u d'
  assume "keys_ok d" and "put_label iid l d = Inr (u, d')"
  then show "keys_ok d'"
    by (auto simp: keys_ok_def put_label_def split: if_splits)
next
  fix d ed t
  assume "keys_ok d"
  then show "keys_ok (put_edge ed t d)"
    by (auto simp: keys_ok_def put_edge_def intro: id_table_insert id_table_replace split: option.split)
next
  fix d a t
  assume "keys_ok d"
  then show "keys_ok (snd (put_activity a t d))"
    by (auto simp: keys_ok_def put_activity_def Let_def activity_key_def
        intro: id_table_insert id_table_replace split: option.split)
next
  fix d sid c t
  assume k: "keys_ok d"
  then show "keys_ok (snd (tomb_items sid c t d))"
    by (auto simp: keys_ok_def tomb_items_def Let_def item_key_def split_beta intro: id_table_update_rows)
  from k show "keys_ok (snd (tomb_edges sid c t d))"
    by (auto simp: keys_ok_def tomb_edges_def Let_def split_beta intro: id_table_update_rows)
  from k show "keys_ok (snd (tomb_threads sid c t d))"
    by (auto simp: keys_ok_def tomb_threads_def Let_def split_beta)
next
  fix d iid
  assume "keys_ok d"
  then show "keys_ok (clear_labels iid d)"
    by (auto simp: keys_ok_def clear_labels_def jm_keys_def intro: distinct_map_filterI)
qed (auto simp: keys_ok_def table_defs jm_keys_delete less_Suc_eq split: option.split
      dest: jm_get_Some_key)

lemma source_ids_frame [frame_simps]:
  "source_ids (put_source sd t d) = insert (sd_source_id sd) (source_ids d)"
  "source_ids (snd (put_raw sid e rw d)) = source_ids d"
  "source_ids (snd (put_item i n t d)) = source_ids d"
  "source_ids (clear_labels iid d) = source_ids d"
  "source_ids (put_edge ed t d) = source_ids d"
  "source_ids (snd (put_activity a t d)) = source_ids d"
  "source_ids (drop_bounds k d) = source_ids d"
  "source_ids (snd (put_bounds k b d)) = source_ids d"
  "source_ids (put_thread th t d) = source_ids d"
  "source_ids (snd (put_commit_files f t d)) = source_ids d"
  "source_ids (snd (put_run sid m t d)) = source_ids d"
  "source_ids (close_run rid g d) = source_ids d"
  "source_ids (snd (put_sync_state sid w st er t d)) = source_ids d"
  "source_ids (snd (tomb_items sid c t d)) = source_ids d"
  "source_ids (snd (tomb_edges sid c t d)) = source_ids d"
  "source_ids (snd (tomb_threads sid c t d)) = source_ids d"
  by (simp_all add: source_ids_def table_defs put_item_def split_beta split: option.split)

lemma item_ids_frame [frame_simps]:
  "item_ids (put_source sd t d) = item_ids d"
  "item_ids (snd (put_raw sid e rw d)) = item_ids d"
  "item_ids (clear_labels iid d) = item_ids d"
  "item_ids (put_edge ed t d) = item_ids d"
  "item_ids (snd (put_activity a t d)) = item_ids d"
  "item_ids (drop_bounds k d) = item_ids d"
  "item_ids (snd (put_bounds k b d)) = item_ids d"
  "item_ids (put_thread th t d) = item_ids d"
  "item_ids (snd (put_commit_files f t d)) = item_ids d"
  "item_ids (snd (put_run sid m t d)) = item_ids d"
  "item_ids (close_run rid g d) = item_ids d"
  "item_ids (snd (put_sync_state sid w st er t d)) = item_ids d"
  "item_ids (snd (tomb_edges sid c t d)) = item_ids d"
  "item_ids (snd (tomb_threads sid c t d)) = item_ids d"
  by (simp_all add: item_ids_def table_defs split_beta split: option.split)

lemma item_ids_tomb_items [frame_simps]: "item_ids (snd (tomb_items sid c t d)) = item_ids d"
proof -
  have "map ir_item_id (jm_values (db_item (snd (tomb_items sid c t d)))) = map ir_item_id (jm_values (db_item d))"
    by (simp add: tomb_items_def Let_def split_beta jm_values_update_rows)
  then show ?thesis unfolding item_ids_def by (metis set_map)
qed

lemma has_source_iff: "jm_has (db_source d) sid \<longleftrightarrow> sid \<in> source_ids d"
  by (simp add: jm_has_iff source_ids_def)

lemma references_okD:
  assumes "references_ok d"
  shows "fst ` set (jm_keys (db_item_label d)) \<subseteq> item_ids d"
    and "fst ` set (jm_keys (db_bounds d)) \<subseteq> source_ids d"
    and "rr_source_id ` set (jm_values (db_sync_run d)) \<subseteq> source_ids d"
  using assms by (simp_all add: references_ok_def)

interpretation refs: table_invariant references_ok
proof
  fix d :: db and i :: item and n t
  assume r: "references_ok d" and h: "jm_has (db_source d) (it_source i)"
  have "fst ` set (jm_keys (db_item (snd (put_item i n t d)))) \<subseteq> source_ids d"
    using r h by (auto simp: references_ok_def put_item_def Let_def has_source_iff split: option.split)
  moreover have "fst ` set (jm_keys (db_item_label d)) \<subseteq> item_ids (snd (put_item i n t d))"
    using r item_ids_put_item [of d i n t] by (auto simp: references_ok_def)
  ultimately show "references_ok (snd (put_item i n t d))"
    using r unfolding references_ok_def source_ids_frame
    by (simp add: put_item_def Let_def split: option.splits)
next
  fix d :: db and iid l u d'
  assume r: "references_ok d" and p: "put_label iid l d = Inr (u, d')"
  then have "iid \<in> item_ids d"
    and "d' = d \<or> d' = d\<lparr>db_item_label := jm_set (iid, lb_name l) l (db_item_label d)\<rparr>"
    by (auto simp: put_label_def item_ids_def split: if_splits)
  with r show "references_ok d'"
    by (elim disjE) (simp_all add: references_ok_def source_ids_def item_ids_def)
next
  fix d :: db and rid and g :: "run_row \<Rightarrow> run_row"
  assume r: "references_ok d" and g: "\<And>r. rr_source_id (g r) = rr_source_id r"
  have "rr_source_id ` set (jm_values (db_sync_run (close_run rid g d)))
      = rr_source_id ` set (jm_values (db_sync_run d))"
  proof (cases "jm_get (db_sync_run d) rid")
    case (Some r0)
    then have "map rr_source_id (jm_values (jm_set rid (g r0) (db_sync_run d)))
        = map rr_source_id (jm_values (db_sync_run d))"
      by (rule jm_values_set_same) (rule g)
    with Some show ?thesis by (simp add: close_run_def) (metis set_map)
  qed (simp add: close_run_def)
  with r show "references_ok (close_run rid g d)"
    unfolding references_ok_def frame_simps by (simp add: close_run_def split: option.split)
next
  fix d :: db and sid m t
  assume r: "references_ok d" and h: "jm_has (db_source d) sid"
  have "rr_source_id ` set (jm_values (db_sync_run (snd (put_run sid m t d))))
      \<subseteq> insert sid (rr_source_id ` set (jm_values (db_sync_run d)))"
    unfolding put_run_def by simp (rule order_trans [OF set_jm_values_set_subset], simp)
  also have "\<dots> \<subseteq> source_ids d"
    using references_okD(3) [OF r] h by (simp add: has_source_iff)
  finally have "rr_source_id ` set (jm_values (db_sync_run (snd (put_run sid m t d)))) \<subseteq> source_ids d" .
  with r show "references_ok (snd (put_run sid m t d))"
    unfolding references_ok_def frame_simps by (simp add: put_run_def)
next
  fix d :: db and iid
  assume r: "references_ok d"
  have "set (jm_keys (db_item_label (clear_labels iid d))) \<subseteq> set (jm_keys (db_item_label d))"
    by (auto simp: clear_labels_def jm_keys_def)
  then have "fst ` set (jm_keys (db_item_label (clear_labels iid d))) \<subseteq> item_ids d"
    using references_okD(1) [OF r] by blast
  with r show "references_ok (clear_labels iid d)"
    unfolding references_ok_def frame_simps by (simp add: clear_labels_def)
next
  fix d :: db and sid c t
  assume r: "references_ok d"
  then show "references_ok (snd (tomb_items sid c t d))"
    unfolding references_ok_def frame_simps by (simp add: tomb_items_def Let_def split_beta)
  from r show "references_ok (snd (tomb_edges sid c t d))"
    unfolding references_ok_def frame_simps by (simp add: tomb_edges_def Let_def split_beta)
  from r show "references_ok (snd (tomb_threads sid c t d))"
    unfolding references_ok_def frame_simps by (simp add: tomb_threads_def Let_def split_beta)
next
  fix d :: db and sd t
  assume "references_ok d"
  then show "references_ok (put_source sd t d)"
    unfolding references_ok_def frame_simps by (simp add: put_source_def subset_insertI2)
next
  fix d :: db and k
  assume r: "references_ok d"
  have "set (jm_keys (db_bounds (drop_bounds k d))) \<subseteq> set (jm_keys (db_bounds d))"
    by (auto simp: drop_bounds_def jm_keys_delete)
  then have "fst ` set (jm_keys (db_bounds (drop_bounds k d))) \<subseteq> source_ids d"
    using references_okD(2) [OF r] by blast
  with r show "references_ok (drop_bounds k d)"
    unfolding references_ok_def frame_simps by (simp add: drop_bounds_def)
qed (unfold references_ok_def frame_simps has_source_iff, simp_all add: table_defs split: option.splits)

end
