(* ===== verification/Sync_Engine.thy ===== *)
theory Sync_Engine
  imports Store_Invariant
begin

text \<open>
  The sync engine (\<open>src/sync-engine.ts\<close>): one run of one source.  The source (\<open>src/sources/types.ts\<close>)
  is a record of functions, because providers are outside; the readings of the clock are an input.
\<close>

section \<open>The source and the run\<close>

record raw_record =
  ra_entity_kind :: string
  ra_external :: string
  ra_api_version :: "string option"
  ra_fetched_at :: string
  ra_payload :: json
  ra_content_hash :: "string option"

record fetch_options =
  fo_since :: "string option"
  fo_full :: bool

record fetch_result =
  fe_records :: "raw_record list"
  fe_watermark :: "string option"
  fe_complete :: bool
  fe_error :: "string option"

datatype refresh_reason = Ci_Unresolved | Open_Change_Request | Recent_Change_Request

record refresh_candidate =
  rf_external :: string
  rf_project_path :: string
  rf_iid :: int
  rf_reason :: refresh_reason

record commit_candidate_ask =
  ca_external :: string
  ca_project_path :: string
  ca_sha :: string

record commit_files_result =
  cr_records :: "raw_record list"
  cr_stopped :: "string option"

record source =
  src_descriptor :: source_descriptor
  src_fetch :: "fetch_options \<Rightarrow> fetch_result result"
  src_fetch_refresh :: "(refresh_candidate list \<Rightarrow> fetch_options \<Rightarrow> fetch_result result) option"
  src_fetch_commit_files :: "(commit_candidate_ask list \<Rightarrow> commit_files_result result) option"
  src_normalize :: "raw_record \<Rightarrow> normalized_bundle option result"
  src_version :: string

record telemetry =
  tm_requests :: "int option"
  tm_cost :: "int option"
  tm_cost_unknown :: "int option"

record sync_options =
  op_full :: bool
  op_dry_run :: bool
  op_ci_refresh_grace_ms :: "int option"
  op_ci_refresh_limit :: "int option"
  op_commit_files_limit :: "int option"
  op_commit_files_lookback_ms :: "int option"
  op_telemetry :: telemetry

text \<open>What \<open>new Date().toISOString()\<close> reads in the course of a run.\<close>

record clock =
  ck_started :: string
  ck_swept :: string
  ck_finished :: string
  ck_files :: string

record sync_report =
  sr_source_id :: string
  sr_status :: run_status
  sr_items_seen :: nat
  sr_edges_seen :: nat
  sr_activities_seen :: nat
  sr_soft_deleted :: nat
  sr_soft_deleted_edges :: nat
  sr_telemetry :: telemetry
  sr_watermark :: "string option"
  sr_error :: "string option"
  sr_commit_files :: nat
  sr_commit_files_error :: "string option"

section \<open>Fetching\<close>

definition DEFAULT_CI_REFRESH_GRACE_MS :: int where
  "DEFAULT_CI_REFRESH_GRACE_MS = 6 * 60 * 60 * 1000"

definition DEFAULT_CI_REFRESH_LIMIT :: int where
  "DEFAULT_CI_REFRESH_LIMIT = 50"

definition DEFAULT_COMMIT_FILES_LOOKBACK_MS :: int where
  "DEFAULT_COMMIT_FILES_LOOKBACK_MS = 365 * 24 * 60 * 60 * 1000"

definition refreshCutoffIso :: "string \<Rightarrow> int \<Rightarrow> string result" where
  "refreshCutoffIso startedAt graceMs =
     toISOString (map_option (\<lambda>t. t - max 0 graceMs) (date_parse startedAt))"

definition ciRefreshReason :: "item_row \<Rightarrow> refresh_reason" where
  "ciRefreshReason row =
     (if it_ci_state (ir_item row) = Some Pending \<or> it_ci_state (ir_item row) = Some No_Ci then Ci_Unresolved
      else if it_state (ir_item row) = Open then Open_Change_Request
      else Recent_Change_Request)"

definition toRefreshCandidate :: "item_row \<Rightarrow> refresh_candidate" where
  "toRefreshCandidate row =
     \<lparr>rf_external = it_external (ir_item row), rf_project_path = or_else (it_project_path (ir_item row)) [],
      rf_iid = or_else (it_iid (ir_item row)) 0, rf_reason = ciRefreshReason row\<rparr>"

definition dedupeRecords :: "raw_record list \<Rightarrow> raw_record list" where
  "dedupeRecords records =
     jm_values (fold (\<lambda>r. jm_set (ra_entity_kind r @ [CHR 0x00] @ ra_external r) r) records jm_empty)"

definition capWatermarkAtRunStart :: "string option \<Rightarrow> string \<Rightarrow> string option" where
  "capWatermarkAtRunStart watermark startedAt =
     (case watermark of
        None \<Rightarrow> None
      | Some w \<Rightarrow> (case (date_parse w, date_parse startedAt) of
                     (Some watermarkMs, Some startedAtMs) \<Rightarrow>
                       (if startedAtMs < watermarkMs then Some startedAt else Some w)
                   | _ \<Rightarrow> Some w))"

definition act_catch :: "'a act \<Rightarrow> (string \<Rightarrow> 'a act) \<Rightarrow> 'a act" where
  "act_catch m h = (\<lambda>s. case m s of (Inl e, s') \<Rightarrow> h e s' | (Inr x, s') \<Rightarrow> (Inr x, s'))"

definition merge_refresh :: "fetch_result \<Rightarrow> fetch_result result \<Rightarrow> fetch_result" where
  "merge_refresh result refresh =
     (case refresh of
        Inr f \<Rightarrow> \<lparr>fe_records = dedupeRecords (fe_records result @ fe_records f),
                 fe_watermark = fe_watermark result,
                 fe_complete = (fe_complete result \<and> fe_complete f),
                 fe_error = nullish (fe_error result) (fe_error f)\<rparr>
      | Inl e \<Rightarrow> result\<lparr>fe_complete := False,
                      fe_error := nullish (fe_error result) (Some (''ci refresh: '' @ e))\<rparr>)"

definition fetchWithRefresh ::
  "(string \<Rightarrow> int option) \<Rightarrow> source \<Rightarrow> string \<Rightarrow> string option \<Rightarrow> sync_options \<Rightarrow> string \<Rightarrow> fetch_result act"
where
  "fetchWithRefresh jd src sourceId prevWatermark opts startedAt =
     act_bind (act_result (src_fetch src \<lparr>fo_since = prevWatermark, fo_full = op_full opts\<rparr>)) (\<lambda>result.
     case src_fetch_refresh src of
       None \<Rightarrow> act_return result
     | Some refresh \<Rightarrow>
         if op_full opts then act_return result
         else
           act_bind (act_result (refreshCutoffIso startedAt
               (or_else (op_ci_refresh_grace_ms opts) DEFAULT_CI_REFRESH_GRACE_MS))) (\<lambda>cutoff.
           act_bind (listCiRefreshCandidates jd sourceId cutoff
               (Some (or_else (op_ci_refresh_limit opts) DEFAULT_CI_REFRESH_LIMIT))) (\<lambda>rows.
           if rows = [] then act_return result
           else act_return (merge_refresh result
                  (refresh (map toRefreshCandidate rows) \<lparr>fo_since = None, fo_full = False\<rparr>)))))"

section \<open>A failed run\<close>

definition run_mode_of :: "sync_options \<Rightarrow> run_mode" where
  "run_mode_of opts = (if op_full opts then Full_Run else Incremental_Run)"

definition failed_report :: "string \<Rightarrow> sync_options \<Rightarrow> string \<Rightarrow> sync_report" where
  "failed_report sourceId opts msg =
     \<lparr>sr_source_id = sourceId, sr_status = Run_Error, sr_items_seen = 0, sr_edges_seen = 0,
      sr_activities_seen = 0, sr_soft_deleted = 0, sr_soft_deleted_edges = 0,
      sr_telemetry = op_telemetry opts, sr_watermark = None, sr_error = Some msg,
      sr_commit_files = 0, sr_commit_files_error = None\<rparr>"

definition recordFailedRun :: "source \<Rightarrow> sync_options \<Rightarrow> clock \<Rightarrow> string \<Rightarrow> sync_report act" where
  "recordFailedRun src opts ck msg =
     (let sourceId = sd_source_id (src_descriptor src); tm = op_telemetry opts in
      act_then
        (if op_dry_run opts then act_return ()
         else
           act_then (ensureSource (src_descriptor src) (ck_started ck))
           (act_bind (startRun sourceId (run_mode_of opts) (ck_started ck)) (\<lambda>runId.
            act_then (finishRun runId Run_Error (ck_finished ck) 0 0 0
               (tm_requests tm) (tm_cost tm) (tm_cost_unknown tm) (Some msg))
            (updateSyncState sourceId None Run_Error (Some msg) (ck_started ck)))))
        (act_return (failed_report sourceId opts msg)))"

section \<open>Normalizing and reconciling\<close>

fun normalize_all :: "source \<Rightarrow> raw_record list \<Rightarrow> normalized_bundle list result" where
  "normalize_all src [] = Inr []"
| "normalize_all src (r # rs) =
     rbind (src_normalize src r) (\<lambda>b.
     rbind (normalize_all src rs) (\<lambda>bs.
     Inr (case b of None \<Rightarrow> bs | Some b \<Rightarrow> b # bs)))"

definition state_step ::
  "normalized_bundle \<Rightarrow> (string, item_state) jsmap \<Rightarrow> (string, item_state) jsmap result" where
  "state_step b m =
     (case bn_item b of
        None \<Rightarrow> Inr m
      | Some i \<Rightarrow> rbind (refOf (it_source i) (it_external i)) (\<lambda>r. Inr (jm_set r (it_state i) m)))"

definition bundle_edges :: "normalized_bundle \<Rightarrow> (edge \<times> edge_reporter) list result" where
  "bundle_edges b =
     (case bn_item b of
        None \<Rightarrow> Inr []
      | Some i \<Rightarrow> mapM (\<lambda>e. rbind (reporterSide e \<lparr>ep_source = it_source i, ep_external = it_external i\<rparr>)
                              (\<lambda>side. Inr (e, side))) (bn_edges b))"

definition refine_edge :: "(string, item_state) jsmap \<Rightarrow> reconciled_edge \<Rightarrow> reconciled_edge result" where
  "refine_edge m e =
     rbind (refOfEndpoint (ed_from e)) (\<lambda>from.
     rbind (refOfEndpoint (ed_to e)) (\<lambda>to.
     (let fromState = nullish (jm_get m from) (ed_from_state e);
          toState = nullish (jm_get m to) (ed_to_state e)
      in Inr (e\<lparr>ed_from_state := fromState, ed_to_state := toState,
                re_lifecycle := deriveLifecycle (ed_type e) fromState toState\<rparr>))))"

definition normalize_and_reconcile ::
  "source \<Rightarrow> raw_record list \<Rightarrow> (normalized_bundle list \<times> reconciled_edge list) result" where
  "normalize_and_reconcile src records =
     rbind (normalize_all src records) (\<lambda>bundles.
     rbind (foldM state_step bundles jm_empty) (\<lambda>stateByRef.
     rbind (mapM bundle_edges bundles) (\<lambda>discovered.
     rbind (reconcileEdges (concat discovered)) (\<lambda>edges.
     rbind (mapM (refine_edge stateByRef) edges) (\<lambda>edges.
     Inr (bundles, edges))))))"

section \<open>The commit file pass\<close>

definition parseCommitDetails :: "json_text option \<Rightarrow> (string \<times> json) list option" where
  "parseCommitDetails raw =
     (case raw of
        None \<Rightarrow> None
      | Some t \<Rightarrow> (case json_parse t of Some (JObj ms) \<Rightarrow> Some ms | _ \<Rightarrow> None))"

definition commit_sha :: "(string \<times> json) list option \<Rightarrow> string" where
  "commit_sha details =
     (case Option.bind details (\<lambda>ms. obj_get ms ''sha'') of Some (JStr s) \<Rightarrow> js_trim s | _ \<Rightarrow> [])"

definition direct_answer :: "string \<Rightarrow> activity_row \<Rightarrow> string \<Rightarrow> commit_files_state \<Rightarrow> commit_files" where
  "direct_answer sourceId row sha state =
     \<lparr>cs_source = sourceId, cs_external = ac_external (av_activity row),
      cs_project_path = ac_project_path (av_activity row), cs_sha = sha, cs_state = state,
      cs_truncated = False, cs_files = []\<rparr>"

datatype commit_plan = Direct commit_files | Ask commit_candidate_ask

definition plan_commit :: "string \<Rightarrow> activity_row \<Rightarrow> commit_plan" where
  "plan_commit sourceId row =
     (let details = parseCommitDetails (av_details row); sha = commit_sha details in
      if Option.bind details (\<lambda>ms. obj_get ms ''merge'') = Some (JBool True)
      then Direct (direct_answer sourceId row sha Files_Merge)
      else if sha = [] then Direct (direct_answer sourceId row sha Files_Unavailable)
      else Ask \<lparr>ca_external = ac_external (av_activity row),
                ca_project_path = or_else (ac_project_path (av_activity row)) [], ca_sha = sha\<rparr>)"

definition directs :: "commit_plan list \<Rightarrow> commit_files list" where
  "directs ps = concat (map (\<lambda>p. case p of Direct f \<Rightarrow> [f] | Ask _ \<Rightarrow> []) ps)"

definition asks :: "commit_plan list \<Rightarrow> commit_candidate_ask list" where
  "asks ps = concat (map (\<lambda>p. case p of Direct _ \<Rightarrow> [] | Ask a \<Rightarrow> [a]) ps)"

definition store_raw :: "string \<Rightarrow> raw_record \<Rightarrow> unit act" where
  "store_raw sourceId r =
     act_then (upsertRaw sourceId (ra_entity_kind r) (ra_external r) (ra_api_version r) (ra_content_hash r)
                 (ra_fetched_at r) (json_stringify (ra_payload r)))
       (act_return ())"

definition enrich_body ::
  "(string \<Rightarrow> int option) \<Rightarrow> (commit_candidate_ask list \<Rightarrow> commit_files_result result) \<Rightarrow> source \<Rightarrow>
   sync_options \<Rightarrow> clock \<Rightarrow> nat \<Rightarrow> (nat \<times> string option) act"
where
  "enrich_body jd fetchCommitFiles src opts ck limit =
     (let sourceId = sd_source_id (src_descriptor src) in
      act_bind (act_result (toISOString (map_option (\<lambda>t. t -
          or_else (op_commit_files_lookback_ms opts) DEFAULT_COMMIT_FILES_LOOKBACK_MS)
          (date_parse (ck_started ck))))) (\<lambda>since.
      act_bind (listCommitFileCandidates jd sourceId since (Some (int limit))) (\<lambda>rows.
      if rows = [] then act_return (0, None)
      else
        (let plans = map (plan_commit sourceId) rows; direct = directs plans; ask = asks plans in
         act_bind (act_result (if ask \<noteq> [] then fetchCommitFiles ask
                               else Inr \<lparr>cr_records = [], cr_stopped = None\<rparr>)) (\<lambda>fetched.
         act_bind (act_result (normalize_all src (cr_records fetched))) (\<lambda>bundles.
         let normalized = concat (map bn_commit_files bundles) in
         act_then (transaction jd
             (act_then (act_each (store_raw sourceId) (cr_records fetched))
                       (act_each (\<lambda>f. upsertCommitFiles f (ck_files ck)) (direct @ normalized))))
           (act_return (length direct + length normalized, cr_stopped fetched))))))))"

definition enrichCommitFiles ::
  "(string \<Rightarrow> int option) \<Rightarrow> source \<Rightarrow> sync_options \<Rightarrow> clock \<Rightarrow> (nat \<times> string option) act" where
  "enrichCommitFiles jd src opts ck =
     (let limit = nat (or_else (op_commit_files_limit opts) 0) in
      case src_fetch_commit_files src of
        None \<Rightarrow> act_return (0, None)
      | Some fetchCommitFiles \<Rightarrow>
          if limit = 0 \<or> op_dry_run opts then act_return (0, None)
          else act_catch (enrich_body jd fetchCommitFiles src opts ck limit) (\<lambda>e. act_return (0, Some e)))"

section \<open>The run\<close>

definition store_bundle :: "source \<Rightarrow> string \<Rightarrow> normalized_bundle \<Rightarrow> unit act" where
  "store_bundle src startedAt b =
     (case bn_item b of
        None \<Rightarrow> act_return ()
      | Some i \<Rightarrow> act_bind (upsertItem i (src_version src) startedAt) (\<lambda>itemId. replaceLabels itemId (bn_labels b)))"

definition assign_counts :: "(nat \<times> nat \<Rightarrow> nat \<times> nat) \<Rightarrow> unit act" where
  "assign_counts f = (\<lambda>s. (Inr (), s\<lparr>st_counts := f (st_counts s)\<rparr>))"

definition sweep_unseen :: "string \<Rightarrow> clock \<Rightarrow> unit act" where
  "sweep_unseen sourceId ck =
     act_bind (softDeleteUnseenItems sourceId (ck_started ck) (ck_swept ck)) (\<lambda>n.
     act_then (assign_counts (\<lambda>c. (n, snd c)))
     (act_bind (softDeleteUnseenEdges sourceId (ck_started ck) (ck_swept ck)) (\<lambda>m.
      act_then (assign_counts (\<lambda>c. (fst c, m)))
      (act_bind (softDeleteUnseenReviewThreads sourceId (ck_started ck) (ck_swept ck)) (\<lambda>_. act_return ())))))"

definition item_bundles :: "normalized_bundle list \<Rightarrow> normalized_bundle list" where
  "item_bundles bundles = filter (\<lambda>b. bn_item b \<noteq> None) bundles"

definition status_of :: "fetch_result \<Rightarrow> run_status" where
  "status_of result = (if fe_complete result then Run_Ok else Run_Partial)"

definition write_content ::
  "(string \<Rightarrow> int option) \<Rightarrow> source \<Rightarrow> clock \<Rightarrow> fetch_result \<Rightarrow> normalized_bundle list \<Rightarrow>
   reconciled_edge list \<Rightarrow> unit act"
where
  "write_content jd src ck result bundles edges =
     act_then (act_each (store_raw (sd_source_id (src_descriptor src))) (fe_records result))
     (act_then (act_each (store_bundle src (ck_started ck)) bundles)
     (act_then (act_each (\<lambda>e. upsertEdge e (ck_started ck)) edges)
     (act_then (act_each (\<lambda>a. upsertActivity jd a (ck_started ck)) (concat (map bn_activities bundles)))
      (act_each (\<lambda>t. upsertReviewThread t (ck_started ck)) (concat (map bn_review_threads bundles))))))"

definition close_out ::
  "source \<Rightarrow> sync_options \<Rightarrow> clock \<Rightarrow> fetch_result \<Rightarrow> normalized_bundle list \<Rightarrow> reconciled_edge list \<Rightarrow> nat \<Rightarrow> unit act"
where
  "close_out src opts ck result bundles edges runId =
     (let tm = op_telemetry opts in
      act_then (finishRun runId (status_of result) (ck_finished ck) (length (item_bundles bundles))
                  (length edges) (length (concat (map bn_activities bundles)))
                  (tm_requests tm) (tm_cost tm) (tm_cost_unknown tm) (fe_error result))
       (updateSyncState (sd_source_id (src_descriptor src))
          (capWatermarkAtRunStart (fe_watermark result) (ck_started ck))
          (status_of result) (fe_error result) (ck_started ck)))"

definition write_run ::
  "(string \<Rightarrow> int option) \<Rightarrow> source \<Rightarrow> sync_options \<Rightarrow> clock \<Rightarrow> fetch_result \<Rightarrow> normalized_bundle list \<Rightarrow>
   reconciled_edge list \<Rightarrow> unit act"
where
  "write_run jd src opts ck result bundles edges =
     (let sourceId = sd_source_id (src_descriptor src) in
      act_then (ensureSource (src_descriptor src) (ck_started ck))
      (act_bind (startRun sourceId (run_mode_of opts) (ck_started ck)) (\<lambda>runId.
       act_then (write_content jd src ck result bundles edges)
      (act_then (if op_full opts \<and> fe_complete result then sweep_unseen sourceId ck else act_return ())
       (close_out src opts ck result bundles edges runId)))))"

definition run_report ::
  "source \<Rightarrow> sync_options \<Rightarrow> clock \<Rightarrow> fetch_result \<Rightarrow> normalized_bundle list \<Rightarrow> reconciled_edge list \<Rightarrow> sync_report"
where
  "run_report src opts ck result bundles edges =
     \<lparr>sr_source_id = sd_source_id (src_descriptor src), sr_status = status_of result,
      sr_items_seen = length (item_bundles bundles), sr_edges_seen = length edges,
      sr_activities_seen = length (concat (map bn_activities bundles)),
      sr_soft_deleted = 0, sr_soft_deleted_edges = 0, sr_telemetry = op_telemetry opts,
      sr_watermark = capWatermarkAtRunStart (fe_watermark result) (ck_started ck),
      sr_error = fe_error result, sr_commit_files = 0, sr_commit_files_error = None\<rparr>"

definition with_counts :: "nat \<times> nat \<Rightarrow> sync_report \<Rightarrow> sync_report" where
  "with_counts c rep = rep\<lparr>sr_soft_deleted := fst c, sr_soft_deleted_edges := snd c\<rparr>"

definition finish_sync ::
  "(string \<Rightarrow> int option) \<Rightarrow> source \<Rightarrow> sync_options \<Rightarrow> clock \<Rightarrow> fetch_result \<Rightarrow> normalized_bundle list \<Rightarrow>
   reconciled_edge list \<Rightarrow> sync_report act"
where
  "finish_sync jd src opts ck result bundles edges s0 =
     (let rep = run_report src opts ck result bundles edges in
      if op_dry_run opts then (Inr rep, s0)
      else
        (case transaction jd (write_run jd src opts ck result bundles edges) (s0\<lparr>st_counts := (0, 0)\<rparr>) of
           (Inl e, s) \<Rightarrow>
             (Inr ((with_counts (st_counts s) rep)\<lparr>sr_status := Run_Error, sr_error := Some e\<rparr>), s)
         | (Inr _, s) \<Rightarrow>
             act_bind (enrichCommitFiles jd src opts ck)
               (\<lambda>files. act_return ((with_counts (st_counts s) rep)
                  \<lparr>sr_commit_files := fst files, sr_commit_files_error := snd files\<rparr>)) s))"

definition syncSource ::
  "(string \<Rightarrow> int option) \<Rightarrow> source \<Rightarrow> string option \<Rightarrow> sync_options \<Rightarrow> clock \<Rightarrow> sync_report act"
where
  "syncSource jd src prevWatermark opts ck s =
     (case fetchWithRefresh jd src (sd_source_id (src_descriptor src)) prevWatermark opts (ck_started ck) s of
        (Inl e, s1) \<Rightarrow> recordFailedRun src opts ck e s1
      | (Inr result, s1) \<Rightarrow>
          (case normalize_and_reconcile src (fe_records result) of
             Inl e \<Rightarrow> recordFailedRun src opts ck (''normalize: '' @ e) s1
           | Inr (bundles, edges) \<Rightarrow> finish_sync jd src opts ck result bundles edges s1))"

end
