(* ===== verification/Bounds_Cache.thy ===== *)
theory Bounds_Cache
  imports Store_Invariant
begin

text \<open>
  The cached activity bounds of a repository (\<open>repo_activity_bounds\<close>, \<open>src/db/sqlite.ts\<close>): after any
  sequence of transactions, whatever statement failed in them, the cache of every repository is what
  its activities say.  A source id holds no NUL, the separator of the bucket ids.
\<close>

section \<open>What the cache promises\<close>

definition cached_ok :: "(string \<Rightarrow> int option) \<Rightarrow> db \<Rightarrow> string \<Rightarrow> string option \<Rightarrow> bool" where
  "cached_ok jd d sid pp \<longleftrightarrow>
     (case jm_get (db_bounds d) (sid, repoActivityProjectKey pp) of
        None \<Rightarrow> repo_rows jd d sid pp = []
      | Some b \<Rightarrow> bo_project_path b = pp \<and>
          (\<exists>f\<in>set (repo_rows jd d sid pp). bo_observed_since b = Some (ac_occurred_at (av_activity f)) \<and>
             (\<forall>r\<in>set (repo_rows jd d sid pp). row_instant jd f \<le> row_instant jd r)) \<and>
          (\<exists>l\<in>set (repo_rows jd d sid pp). bo_last_activity_at b = Some (ac_occurred_at (av_activity l)) \<and>
             (\<forall>r\<in>set (repo_rows jd d sid pp). row_instant jd r \<le> row_instant jd l)))"

lemma cached_ok_cong:
  assumes "jm_get (db_bounds d') (sid, repoActivityProjectKey pp) = jm_get (db_bounds d) (sid, repoActivityProjectKey pp)"
    and "set (repo_rows jd d' sid pp) = set (repo_rows jd d sid pp)"
  shows "cached_ok jd d' sid pp = cached_ok jd d sid pp"
proof -
  have "repo_rows jd d' sid pp = [] \<longleftrightarrow> repo_rows jd d sid pp = []"
    using assms(2) by (metis set_empty)
  with assms show ?thesis by (simp add: cached_ok_def split: option.split)
qed

lemma project_key_inj: "repoActivityProjectKey p = repoActivityProjectKey q \<longleftrightarrow> p = q"
  by (auto simp: repoActivityProjectKey_def split: option.splits)

lemma by_instant_le: "by_instant jd a b \<le> 0 \<Longrightarrow> row_instant jd a \<le> row_instant jd b"
  by (auto simp: by_instant_def then_by_def by_key_def split: if_splits)

lemma oldest_first:
  assumes "rows = js_sort (by_instant jd) xs" and "xs \<noteq> []" and "r \<in> set xs"
  shows "hd rows \<in> set xs" and "last rows \<in> set xs"
    and "row_instant jd (hd rows) \<le> row_instant jd r" and "row_instant jd r \<le> row_instant jd (last rows)"
proof -
  have ne: "rows \<noteq> []" using assms(1,2) by (metis length_0_conv length_js_sort)
  have set: "set rows = set xs" by (simp add: assms(1))
  then show "hd rows \<in> set xs" and "last rows \<in> set xs" using ne by fastforce+
  have "sorted_wrt (\<lambda>a b. by_instant jd a b \<le> 0) rows"
    unfolding assms(1) by (rule oldest.sorted_js_sort) simp
  then have sorted: "sorted_wrt (\<lambda>a b. row_instant jd a \<le> row_instant jd b) rows"
    by (rule sorted_wrt_mono_rel [rotated]) (rule by_instant_le)
  have r: "r \<in> set rows" using assms(3) set by simp
  show "row_instant jd (hd rows) \<le> row_instant jd r"
    using sorted r ne by (cases rows) auto
  obtain ys y where "rows = ys @ [y]" using ne by (cases rows rule: rev_cases) auto
  then show "row_instant jd r \<le> row_instant jd (last rows)"
    using sorted r by (auto simp: sorted_wrt_append)
qed

section \<open>Refreshing\<close>

definition bucket_ok :: "bucket \<Rightarrow> bool" where
  "bucket_ok b \<longleftrightarrow> bk_project_key b = repoActivityProjectKey (bk_project_path b) \<and>
     CHR 0x00 \<notin> set (bk_source_id b)"

definition bucket_for :: "string \<Rightarrow> string option \<Rightarrow> bucket \<Rightarrow> bool" where
  "bucket_for sid pp b \<longleftrightarrow> bk_source_id b = sid \<and> bk_project_path b = pp"

lemma statement_Inr:
  "statement f s = (Inr x, s') \<Longrightarrow>
   \<exists>d. f (st_db s) = Inr (x, d) \<and> s' = s\<lparr>st_faults := tl (st_faults s), st_db := d\<rparr>"
  by (auto simp: statement_def Let_def split: list.splits option.splits sum.splits)

lemma bind_Inr: "act_bind m f s = (Inr y, s') \<Longrightarrow> \<exists>x s1. m s = (Inr x, s1) \<and> f x s1 = (Inr y, s')"
  by (auto simp: act_bind_def split: prod.splits sum.splits)

lemma then_Inr: "act_then m n s = (Inr y, s') \<Longrightarrow> \<exists>x s1. m s = (Inr x, s1) \<and> n s1 = (Inr y, s')"
  unfolding act_then_def by (blast dest: bind_Inr)

lemma repo_rows_bounds [simp]: "repo_rows jd (d\<lparr>db_bounds := m\<rparr>) sid pp = repo_rows jd d sid pp"
  by (simp add: repo_rows_def)

lemma refresh_bounds_Inr:
  assumes "refresh_bounds jd b s = (Inr u, s')" and "bucket_ok b"
  shows "\<exists>m. st_db s' = (st_db s)\<lparr>db_bounds := m\<rparr> \<and> s' = s\<lparr>st_faults := st_faults s', st_db := st_db s'\<rparr> \<and>
     cached_ok jd (st_db s') (bk_source_id b) (bk_project_path b) \<and>
     (\<forall>k. k \<noteq> (bk_source_id b, bk_project_key b) \<longrightarrow> jm_get m k = jm_get (db_bounds (st_db s)) k)"
proof -
  let ?xs = "repo_rows jd (st_db s) (bk_source_id b) (bk_project_path b)"
  let ?rows = "js_sort (by_instant jd) ?xs"
  obtain x s1 where q: "query (\<lambda>d. js_sort (by_instant jd) (repo_rows jd d (bk_source_id b) (bk_project_path b))) s = (Inr x, s1)"
    and w: "(if x = [] then update (drop_bounds (bk_source_id b, bk_project_key b))
       else statement (with_source (bk_source_id b) (put_bounds (bk_source_id b, bk_project_key b)
          \<lparr>bo_project_path = bk_project_path b,
           bo_observed_since = Some (ac_occurred_at (av_activity (hd x))),
           bo_last_activity_at = Some (ac_occurred_at (av_activity (last x))),
           bo_updated_at = bk_updated_at b\<rparr>))) s1 = (Inr u, s')"
    using assms(1) unfolding refresh_bounds_def by (blast dest: bind_Inr)
  from q have x: "x = ?rows" and s1: "s1 = s\<lparr>st_faults := tl (st_faults s)\<rparr>"
    unfolding query_def by (auto dest!: statement_Inr)
  have key: "bk_project_key b = repoActivityProjectKey (bk_project_path b)"
    using assms(2) by (simp add: bucket_ok_def)
  show ?thesis
  proof (cases "x = []")
    case True
    then have "?xs = []" using x by (metis length_0_conv length_js_sort)
    moreover have "st_db s' = drop_bounds (bk_source_id b, bk_project_key b) (st_db s)"
      and "s' = s\<lparr>st_faults := st_faults s', st_db := st_db s'\<rparr>"
      using w True unfolding update_def by (auto simp: s1 dest!: statement_Inr)
    ultimately show ?thesis
      by (auto simp: drop_bounds_def jm_get_delete cached_ok_def key)
  next
    case False
    then have ne: "?xs \<noteq> []" using x by auto
    have hd: "hd x \<in> set ?xs" "last x \<in> set ?xs"
      using oldest_first(1,2) [OF x ne] ne by (meson hd_in_set)+
    obtain m where st: "st_db s' = (st_db s)\<lparr>db_bounds := m\<rparr>" "s' = s\<lparr>st_faults := st_faults s', st_db := st_db s'\<rparr>"
      and m: "m = jm_set (bk_source_id b, bk_project_key b)
          \<lparr>bo_project_path = bk_project_path b,
           bo_observed_since = Some (ac_occurred_at (av_activity (hd x))),
           bo_last_activity_at = Some (ac_occurred_at (av_activity (last x))),
           bo_updated_at = bk_updated_at b\<rparr> (db_bounds (st_db s))"
      using w False by (auto simp: s1 with_source_def put_bounds_def dest!: statement_Inr split: if_splits)
    have "cached_ok jd (st_db s') (bk_source_id b) (bk_project_path b)"
      unfolding cached_ok_def st(1)
      using hd oldest_first(3,4) [OF x ne] by (auto simp: m jm_get_set key)
    with st m show ?thesis by (auto simp: jm_get_set)
  qed
qed

lemma refresh_all_Inr:
  assumes "act_each (refresh_bounds jd) bs s = (Inr u, s')" and "\<forall>b\<in>set bs. bucket_ok b"
    and "\<forall>sid pp. (\<exists>b\<in>set bs. bucket_for sid pp b) \<or> cached_ok jd (st_db s) sid pp"
  shows "cached_ok jd (st_db s') sid pp"
  using assms
proof (induction bs arbitrary: s)
  case Nil
  then show ?case by (simp add: act_return_def)
next
  case (Cons b bs)
  from Cons.prems(1) obtain v s1 where r: "refresh_bounds jd b s = (Inr v, s1)"
    and rest: "act_each (refresh_bounds jd) bs s1 = (Inr u, s')"
    by (auto dest: then_Inr)
  have "bucket_ok b" using Cons.prems(2) by simp
  with r obtain m where db: "st_db s1 = (st_db s)\<lparr>db_bounds := m\<rparr>"
    and here: "cached_ok jd (st_db s1) (bk_source_id b) (bk_project_path b)"
    and other: "\<And>k. k \<noteq> (bk_source_id b, bk_project_key b) \<Longrightarrow> jm_get m k = jm_get (db_bounds (st_db s)) k"
    by (blast dest: refresh_bounds_Inr)
  have "(\<exists>b\<in>set bs. bucket_for sid pp b) \<or> cached_ok jd (st_db s1) sid pp" for sid pp
  proof (cases "bucket_for sid pp b")
    case True
    with here show ?thesis by (simp add: bucket_for_def)
  next
    case False
    then have "(sid, repoActivityProjectKey pp) \<noteq> (bk_source_id b, bk_project_key b)"
      using \<open>bucket_ok b\<close> by (auto simp: bucket_ok_def bucket_for_def project_key_inj)
    then have "cached_ok jd (st_db s1) sid pp = cached_ok jd (st_db s) sid pp"
      by (intro cached_ok_cong) (auto simp: db other)
    with False Cons.prems(3) show ?thesis by auto
  qed
  with Cons.IH [OF rest] Cons.prems(2) show ?case by simp
qed

lemma refresh_all_dirty:
  "act_each (refresh_bounds jd) bs s = (Inr u, s') \<Longrightarrow> \<forall>b\<in>set bs. bucket_ok b \<Longrightarrow>
   st_dirty s' = st_dirty s \<and> st_in_tx s' = st_in_tx s"
proof (induction bs arbitrary: s)
  case (Cons b bs)
  from Cons.prems(1) obtain v s1 where r: "refresh_bounds jd b s = (Inr v, s1)"
    and rest: "act_each (refresh_bounds jd) bs s1 = (Inr u, s')"
    by (auto dest: then_Inr)
  have "s1 = s\<lparr>st_faults := st_faults s1, st_db := st_db s1\<rparr>"
    using refresh_bounds_Inr [OF r] Cons.prems(2) by auto
  then have "st_dirty s1 = st_dirty s \<and> st_in_tx s1 = st_in_tx s"
    by (metis store.ext_inject store.surjective store.update_convs)
  with Cons.IH [OF rest] Cons.prems(2) show ?case by simp
qed (simp add: act_return_def)

section \<open>Calls inside a transaction\<close>

text \<open>Most calls touch neither the activities, nor the cache, nor what is to be refreshed.\<close>

definition quiet :: "'a act \<Rightarrow> bool" where
  "quiet a \<longleftrightarrow> (\<forall>s :: store. let s' = snd (a s) in
     db_activity (st_db s') = db_activity (st_db s) \<and> db_bounds (st_db s') = db_bounds (st_db s) \<and>
     st_dirty s' = st_dirty s \<and> st_in_tx s' = st_in_tx s)"

lemma quiet_return [frame_simps]: "quiet (act_return x)"
  by (simp add: quiet_def act_return_def)

lemma quiet_bind [frame_simps]: "quiet a \<Longrightarrow> (\<And>x. quiet (f x)) \<Longrightarrow> quiet (act_bind a f)"
  unfolding quiet_def Let_def act_bind_def by (auto split: prod.splits sum.splits) (metis snd_conv)+

lemma quiet_then [frame_simps]: "quiet a \<Longrightarrow> quiet b \<Longrightarrow> quiet (act_then a b)"
  unfolding act_then_def by (intro quiet_bind)

lemma quiet_each [frame_simps]: "(\<And>x. quiet (f x)) \<Longrightarrow> quiet (act_each f xs)"
  by (induction xs) (auto intro: quiet_return quiet_then)

lemma quiet_statement:
  assumes "\<And>d x d'. f d = Inr (x, d') \<Longrightarrow> db_activity d' = db_activity d \<and> db_bounds d' = db_bounds d"
  shows "quiet (statement f)"
  using assms unfolding quiet_def statement_def Let_def
  by (auto split: list.split option.split sum.split)

lemma quiet_update:
  "(\<And>d. db_activity (f d) = db_activity d \<and> db_bounds (f d) = db_bounds d) \<Longrightarrow> quiet (update f)"
  unfolding update_def by (rule quiet_statement) auto

lemma quiet_query [frame_simps]: "quiet (query f)"
  unfolding query_def by (rule quiet_statement) auto

lemma quiet_with_source:
  "(\<And>d. db_activity (snd (f d)) = db_activity d \<and> db_bounds (snd (f d)) = db_bounds d) \<Longrightarrow>
   quiet (statement (with_source sid f))"
  by (rule quiet_statement) (metis Inl_Inr_False snd_conv sum.inject(2) with_source_def)

lemma quiet_total:
  "(\<And>d. db_activity (snd (f d)) = db_activity d \<and> db_bounds (snd (f d)) = db_bounds d) \<Longrightarrow>
   quiet (statement (Inr \<circ> f))"
  by (rule quiet_statement) (metis comp_apply snd_conv sum.inject(2))

lemma quiet_void [frame_simps]: "quiet a \<Longrightarrow> quiet (void a)"
  unfolding void_def by (intro quiet_then quiet_return)

lemmas quiet_intros = quiet_return quiet_bind quiet_then quiet_each quiet_query quiet_void
  quiet_update quiet_with_source quiet_total

fun call_ok :: "write_call \<Rightarrow> bool" where
  "call_ok (Upsert_Activity a t) = (CHR 0x00 \<notin> set (ac_source a))"
| "call_ok c = True"

fun is_activity_call :: "write_call \<Rightarrow> bool" where
  "is_activity_call (Upsert_Activity a t) = True"
| "is_activity_call c = False"

lemma quiet_call: "\<not> is_activity_call c \<Longrightarrow> quiet (run_call jd c)"
proof (cases c)
  case (Replace_Labels i ls)
  have "quiet (statement (put_label i l))" for l
    by (rule quiet_statement) (auto simp: put_label_def split: if_splits)
  then show ?thesis unfolding Replace_Labels run_call.simps replaceLabels_def
    by (intro quiet_intros) (simp_all add: clear_labels_def)
qed (simp_all only: run_call.simps ensureSource_def upsertItem_def upsertEdge_def upsertReviewThread_def
      upsertCommitFiles_def startRun_def updateSyncState_def softDeleteUnseenItems_def finishRun_def
      softDeleteUnseenEdges_def softDeleteUnseenReviewThreads_def upsertRaw_def is_activity_call.simps simp_thms,
    (intro quiet_intros; simp add: table_defs put_item_def split_beta split: option.split)+)

text \<open>Inside a transaction each bucket is either to be refreshed or in order.\<close>

definition dirty_ok :: "(string \<Rightarrow> int option) \<Rightarrow> store \<Rightarrow> bool" where
  "dirty_ok jd s \<longleftrightarrow>
     st_in_tx s \<and> keys_ok (st_db s) \<and>
     (\<forall>e\<in>set (st_dirty s). bucket_ok (snd e) \<and>
        fst e = repoActivityBoundsBucketId (bk_source_id (snd e)) (bk_project_key (snd e))) \<and>
     (\<forall>sid pp. (\<exists>b\<in>set (jm_values (st_dirty s)). bucket_for sid pp b) \<or> cached_ok jd (st_db s) sid pp)"

lemma bucket_id_inj:
  assumes "repoActivityBoundsBucketId s k = repoActivityBoundsBucketId s' k'"
    and "CHR 0x00 \<notin> set s" and "CHR 0x00 \<notin> set s'"
  shows "s = s' \<and> k = k'"
proof -
  have eq: "s @ CHR 0x00 # k = s' @ CHR 0x00 # k'"
    using assms(1) by (simp add: repoActivityBoundsBucketId_def)
  have "takeWhile (\<lambda>c. c \<noteq> CHR 0x00) (t @ CHR 0x00 # r) = t" if "CHR 0x00 \<notin> set t" for t r
    using that by (induction t) auto
  then have "s = s'" using eq assms(2,3) by metis
  with eq show ?thesis by simp
qed

lemma mem_jm_set: "e \<in> set (jm_set k v m) \<Longrightarrow> e = (k, v) \<or> e \<in> set m"
  by (induction m) (auto split: if_splits)

lemma jm_set_keeps: "e \<in> set m \<Longrightarrow> fst e \<noteq> k \<Longrightarrow> e \<in> set (jm_set k v m)"
  by (induction m) auto

lemma jm_set_mem: "(k, v) \<in> set (jm_set k v m)"
  by (induction m) auto

definition covered :: "store \<Rightarrow> string \<Rightarrow> string option \<Rightarrow> bool" where
  "covered s sid pp \<longleftrightarrow> (\<exists>b\<in>set (jm_values (st_dirty s)). bucket_for sid pp b)"

definition dirty_entries_ok :: "store \<Rightarrow> bool" where
  "dirty_entries_ok s \<longleftrightarrow>
     (\<forall>e\<in>set (st_dirty s). bucket_ok (snd e) \<and>
        fst e = repoActivityBoundsBucketId (bk_source_id (snd e)) (bk_project_key (snd e)))"

lemma markDirty_covers:
  assumes "dirty_entries_ok s" and "CHR 0x00 \<notin> set sid" and s'_def: "s' = snd (markDirty sid pp t s)"
  shows "dirty_entries_ok s'" and "covered s' sid pp" and "covered s sid' pp' \<Longrightarrow> covered s' sid' pp'"
    and "st_db s' = st_db s" and "st_in_tx s' = st_in_tx s"
proof -
  let ?b = "repoActivityBoundsBucket sid pp t"
  let ?k = "repoActivityBoundsBucketId sid (bk_project_key ?b)"
  have s': "s' = s\<lparr>st_dirty := jm_set ?k ?b (st_dirty s)\<rparr>"
    by (simp add: s'_def markDirty_def Let_def)
  have b: "bucket_ok ?b" "bk_source_id ?b = sid" "bk_project_path ?b = pp"
    using assms(2) by (simp_all add: bucket_ok_def repoActivityBoundsBucket_def)
  show "st_db s' = st_db s" "st_in_tx s' = st_in_tx s" by (simp_all add: s')
  show "dirty_entries_ok s'"
    using assms(1) b by (auto simp: s' dirty_entries_ok_def dest!: mem_jm_set)
  show "covered s' sid pp"
    using jm_set_mem [of ?k ?b "st_dirty s"] b
    by (force simp: covered_def s' bucket_for_def jm_values_def)
  assume "covered s sid' pp'"
  then obtain e where e: "e \<in> set (st_dirty s)" "bucket_for sid' pp' (snd e)"
    by (auto simp: covered_def jm_values_def)
  show "covered s' sid' pp'"
  proof (cases "fst e = ?k")
    case True
    have eb: "bucket_ok (snd e)"
      and ek: "fst e = repoActivityBoundsBucketId (bk_source_id (snd e)) (bk_project_key (snd e))"
      using assms(1) e(1) by (auto simp: dirty_entries_ok_def)
    then have "bk_source_id (snd e) = sid \<and> bk_project_key (snd e) = bk_project_key ?b"
      using True assms(2) by (intro bucket_id_inj) (auto simp: bucket_ok_def)
    then have "sid' = sid \<and> pp' = pp"
      using e(2) eb b by (auto simp: bucket_for_def bucket_ok_def project_key_inj)
    with \<open>covered s' sid pp\<close> show ?thesis by simp
  next
    case False
    then have "e \<in> set (st_dirty s')" using jm_set_keeps [OF e(1)] by (simp add: s')
    with e(2) show ?thesis by (auto simp: covered_def jm_values_def)
  qed
qed

lemma mem_repo_rows:
  "r \<in> set (repo_rows jd d sid pp) \<longleftrightarrow>
     (\<exists>k. (k, r) \<in> set (db_activity d)) \<and> ac_source (av_activity r) = sid \<and>
     ac_project_path (av_activity r) = pp \<and> row_instant jd r \<noteq> None"
  by (force simp: repo_rows_def row_instant_def jm_values_def)

lemma repo_rows_put_activity:
  assumes "keys_ok d"
    and "(sid, pp) \<noteq> (ac_source a, ac_project_path a)"
    and "\<And>r0. jm_get (db_activity d) (ac_source a, ac_external a) = Some r0 \<Longrightarrow>
           (sid, pp) \<noteq> (ac_source a, ac_project_path (av_activity r0))"
  shows "set (repo_rows jd (snd (put_activity a t d)) sid pp) = set (repo_rows jd d sid pp)"
proof -
  let ?k = "(ac_source a, ac_external a)"
  have tab: "distinct (jm_keys (db_activity d))"
    and keys: "\<And>k r. (k, r) \<in> set (db_activity d) \<Longrightarrow> k = activity_key r"
    using assms(1) by (auto simp: keys_ok_def id_table_def)
  obtain r where r: "db_activity (snd (put_activity a t d)) = jm_set ?k r (db_activity d)"
    and ra: "av_activity r = a"
    by (cases "jm_get (db_activity d) ?k") (simp_all add: put_activity_def Let_def)
  have old: "(ac_source (av_activity r0), ac_project_path (av_activity r0)) \<noteq> (sid, pp)"
    if "(?k, r0) \<in> set (db_activity d)" for r0
    using assms(3) [of r0] jm_get_mem [OF tab that] keys [OF that] by (auto simp: activity_key_def)
  show ?thesis
    unfolding mem_repo_rows set_eq_iff r set_jm_set [OF tab] using assms(2) old ra by auto
qed

lemma dirty_ok_alt:
  "dirty_ok jd s \<longleftrightarrow> st_in_tx s \<and> keys_ok (st_db s) \<and> dirty_entries_ok s \<and>
     (\<forall>sid pp. covered s sid pp \<or> cached_ok jd (st_db s) sid pp)"
  by (simp add: dirty_ok_def dirty_entries_ok_def covered_def)

lemma dirty_ok_quiet:
  assumes "quiet a" and "keeps keys_ok a" and "dirty_ok jd s"
  shows "dirty_ok jd (snd (a s))"
proof -
  obtain s' where s': "snd (a s) = s'" by simp
  have q: "db_activity (st_db s') = db_activity (st_db s)" "db_bounds (st_db s') = db_bounds (st_db s)"
     "st_dirty s' = st_dirty s" "st_in_tx s' = st_in_tx s"
    using assms(1) s' by (auto simp: quiet_def Let_def)
  have "keys_ok (st_db s')" using assms(2,3) s' by (auto simp: keeps_def dirty_ok_def)
  moreover have "cached_ok jd (st_db s') sid pp = cached_ok jd (st_db s) sid pp" for sid pp
    by (rule cached_ok_cong) (simp_all add: q repo_rows_def)
  ultimately show ?thesis using assms(3) by (simp add: s' q dirty_ok_def)
qed

lemma upsertActivity_Inr:
  assumes "upsertActivity jd a t s = (Inr u, s')" and "st_in_tx s"
  obtains prev s1 s2 where
    "prev = map_option (ac_project_path \<circ> av_activity) (jm_get (db_activity (st_db s)) (ac_source a, ac_external a))"
    and "st_db s1 = snd (put_activity a t (st_db s))" and "st_dirty s1 = st_dirty s" and "st_in_tx s1"
    and "s2 = snd (markDirty (ac_source a) (ac_project_path a) t s1)"
    and "s' = (case prev of None \<Rightarrow> s2 | Some p \<Rightarrow>
            if p \<noteq> ac_project_path a then snd (markDirty (ac_source a) p t s2) else s2)"
proof -
  let ?prev = "map_option (ac_project_path \<circ> av_activity) (jm_get (db_activity (st_db s)) (ac_source a, ac_external a))"
  let ?tail = "\<lambda>s. if st_in_tx s then (Inr (), s) else flushDirty jd s"
  let ?moved = "\<lambda>prev. case prev of None \<Rightarrow> act_return ()
      | Some p \<Rightarrow> if p \<noteq> ac_project_path a then markDirty (ac_source a) p t else act_return ()"
  have mark: "markDirty x p t y = (Inr (), snd (markDirty x p t y))" "st_in_tx (snd (markDirty x p t y)) = st_in_tx y"
    for x p y by (simp_all add: markDirty_def Let_def)
  obtain prev s0 where
      q: "query (\<lambda>d. map_option (ac_project_path \<circ> av_activity) (jm_get (db_activity d) (ac_source a, ac_external a))) s = (Inr prev, s0)"
    and r0: "act_then (statement (with_source (ac_source a) (put_activity a t)))
       (act_then (markDirty (ac_source a) (ac_project_path a) t) (act_then (?moved prev) ?tail)) s0 = (Inr u, s')"
    using bind_Inr [OF assms(1) [unfolded upsertActivity_def]] by blast
  obtain v s1 where p: "statement (with_source (ac_source a) (put_activity a t)) s0 = (Inr v, s1)"
    and r1: "act_then (markDirty (ac_source a) (ac_project_path a) t) (act_then (?moved prev) ?tail) s1 = (Inr u, s')"
    using then_Inr [OF r0] by blast
  obtain w s2 where m: "markDirty (ac_source a) (ac_project_path a) t s1 = (Inr w, s2)"
    and e: "act_then (?moved prev) ?tail s2 = (Inr u, s')"
    using then_Inr [OF r1] by blast
  have prev: "prev = ?prev" and s0: "s0 = s\<lparr>st_faults := tl (st_faults s)\<rparr>"
    using q unfolding query_def by (auto dest!: statement_Inr)
  have s1: "st_db s1 = snd (put_activity a t (st_db s))" "st_dirty s1 = st_dirty s" "st_in_tx s1"
    using p assms(2) by (auto simp: s0 with_source_def dest!: statement_Inr split: if_splits)
  have s2: "s2 = snd (markDirty (ac_source a) (ac_project_path a) t s1)" using m by simp
  then have in2: "st_in_tx s2" using s1(3) mark(2) by simp
  have "s' = (case prev of None \<Rightarrow> s2 | Some p \<Rightarrow>
            if p \<noteq> ac_project_path a then snd (markDirty (ac_source a) p t s2) else s2)"
    using then_Inr [OF e] in2 mark
    by (auto simp: act_return_def split: option.splits if_splits) (metis snd_conv)+
  with prev s1 s2 show thesis using that by blast
qed

lemma dirty_ok_activity:
  assumes "upsertActivity jd a t s = (Inr u, s')" and "dirty_ok jd s" and "CHR 0x00 \<notin> set (ac_source a)"
  shows "dirty_ok jd s'"
proof -
  have in_tx: "st_in_tx s" and keys: "keys_ok (st_db s)" and entries: "dirty_entries_ok s"
    and cover: "\<And>sid pp. covered s sid pp \<or> cached_ok jd (st_db s) sid pp"
    using assms(2) by (auto simp: dirty_ok_alt)
  obtain prev s1 s2 where
      prev: "prev = map_option (ac_project_path \<circ> av_activity) (jm_get (db_activity (st_db s)) (ac_source a, ac_external a))"
    and s1: "st_db s1 = snd (put_activity a t (st_db s))" "st_dirty s1 = st_dirty s" "st_in_tx s1"
    and s2: "s2 = snd (markDirty (ac_source a) (ac_project_path a) t s1)"
    and s': "s' = (case prev of None \<Rightarrow> s2 | Some p \<Rightarrow>
            if p \<noteq> ac_project_path a then snd (markDirty (ac_source a) p t s2) else s2)"
    by (rule upsertActivity_Inr [OF assms(1) in_tx])
  have e1: "dirty_entries_ok s1" using entries s1(2) by (simp add: dirty_entries_ok_def)
  note m1 = markDirty_covers [OF e1 assms(3) s2]
  have m2: "dirty_entries_ok s' \<and> st_db s' = st_db s1 \<and> st_in_tx s' \<and>
     (\<forall>sid pp. covered s2 sid pp \<longrightarrow> covered s' sid pp) \<and>
     (\<forall>p. prev = Some p \<longrightarrow> covered s' (ac_source a) p)"
  proof (cases "\<exists>p. prev = Some p \<and> p \<noteq> ac_project_path a")
    case True
    then obtain p where p: "prev = Some p" "s' = snd (markDirty (ac_source a) p t s2)" using s' by auto
    note m = markDirty_covers [OF m1(1) assms(3) p(2)]
    show ?thesis using m m1 p(1) s1(3) by simp
  next
    case False
    then have "s' = s2" using s' by (auto split: option.splits)
    with False m1 s1(3) show ?thesis by auto
  qed
  have db: "st_db s' = snd (put_activity a t (st_db s))" using m2 s1 by simp
  have "keys_ok (st_db s')"
    using keys keys.keeps_call [of jd "Upsert_Activity a t"] assms(1) by (force simp: keeps_def)
  moreover have "covered s' sid pp \<or> cached_ok jd (st_db s') sid pp" for sid pp
  proof (cases "covered s' sid pp")
    case False
    then have "\<not> covered s1 sid pp" using m1(3) m2 by blast
    then have "cached_ok jd (st_db s) sid pp" using cover s1(2) by (auto simp: covered_def)
    moreover have "set (repo_rows jd (st_db s') sid pp) = set (repo_rows jd (st_db s) sid pp)"
      unfolding db using keys
    proof (rule repo_rows_put_activity)
      show "(sid, pp) \<noteq> (ac_source a, ac_project_path a)" using False m1(2) m2 by blast
      show "(sid, pp) \<noteq> (ac_source a, ac_project_path (av_activity r0))"
        if "jm_get (db_activity (st_db s)) (ac_source a, ac_external a) = Some r0" for r0
        using that m2 False prev by auto
    qed
    ultimately show ?thesis
      by (subst cached_ok_cong) (auto simp: db put_activity_def Let_def split: option.split)
  qed simp
  ultimately show ?thesis using m2 by (simp add: dirty_ok_alt)
qed

lemma dirty_ok_call:
  assumes "run_call jd c s = (Inr u, s')" and "dirty_ok jd s" and "call_ok c"
  shows "dirty_ok jd s'"
proof (cases "is_activity_call c")
  case True
  with assms show ?thesis by (cases c) (auto intro: dirty_ok_activity)
next
  case False
  have "dirty_ok jd (snd (run_call jd c s))"
    by (rule dirty_ok_quiet [OF quiet_call [OF False] keys.keeps_call assms(2)])
  then show ?thesis by (simp add: assms(1))
qed

lemma dirty_ok_calls:
  "act_each (run_call jd) cs s = (Inr u, s') \<Longrightarrow> dirty_ok jd s \<Longrightarrow> \<forall>c\<in>set cs. call_ok c \<Longrightarrow> dirty_ok jd s'"
proof (induction cs arbitrary: s)
  case (Cons c cs)
  then show ?case by (auto dest!: then_Inr dest: dirty_ok_call)
qed (simp add: act_return_def)

section \<open>Between transactions\<close>

text \<open>
  The runs the engine makes: activities are written inside transactions only; any statement may fail.
\<close>

inductive transactional :: "(string \<Rightarrow> int option) \<Rightarrow> store \<Rightarrow> bool" for jd where
  opened: "transactional jd (open_store faults)"
| called: "transactional jd s \<Longrightarrow> \<not> is_activity_call c \<Longrightarrow> transactional jd (snd (run_call jd c s))"
| transacted: "transactional jd s \<Longrightarrow> \<forall>c\<in>set cs. call_ok c \<Longrightarrow>
     transactional jd (snd (transaction jd (act_each (run_call jd) cs) s))"

definition settled :: "(string \<Rightarrow> int option) \<Rightarrow> store \<Rightarrow> bool" where
  "settled jd s \<longleftrightarrow> \<not> st_in_tx s \<and> st_dirty s = [] \<and> keys_ok (st_db s) \<and>
     (\<forall>sid pp. cached_ok jd (st_db s) sid pp)"

lemma settled_quiet:
  assumes "quiet a" and "keeps keys_ok a" and "settled jd s"
  shows "settled jd (snd (a s))"
proof -
  obtain s' where s': "snd (a s) = s'" by simp
  have q: "db_activity (st_db s') = db_activity (st_db s)" "db_bounds (st_db s') = db_bounds (st_db s)"
     "st_dirty s' = st_dirty s" "st_in_tx s' = st_in_tx s"
    using assms(1) s' by (auto simp: quiet_def Let_def)
  have "keys_ok (st_db s')" using assms(2,3) s' by (auto simp: keeps_def settled_def)
  moreover have "cached_ok jd (st_db s') sid pp = cached_ok jd (st_db s) sid pp" for sid pp
    by (rule cached_ok_cong) (simp_all add: q repo_rows_def)
  ultimately show ?thesis using assms(3) by (simp add: s' q settled_def)
qed

lemma update_id_Inr: "update (\<lambda>d. d) s = (Inr u, s') \<Longrightarrow> s' = s\<lparr>st_faults := tl (st_faults s)\<rparr>"
  unfolding update_def by (auto dest!: statement_Inr)

lemma update_id_frame:
  "st_dirty (snd (update (\<lambda>d. d) s)) = st_dirty s" "st_in_tx (snd (update (\<lambda>d. d) s)) = st_in_tx s"
  by (auto simp: update_def statement_def Let_def split: list.split option.split)

definition keeps_dirty_ok :: "(string \<Rightarrow> int option) \<Rightarrow> 'a act \<Rightarrow> bool" where
  "keeps_dirty_ok jd a \<longleftrightarrow> (\<forall>s x s'. dirty_ok jd s \<longrightarrow> a s = (Inr x, s') \<longrightarrow> dirty_ok jd s')"

lemma keeps_dirty_ok_calls: "\<forall>c\<in>set cs. call_ok c \<Longrightarrow> keeps_dirty_ok jd (act_each (run_call jd) cs)"
  unfolding keeps_dirty_ok_def using dirty_ok_calls by blast

lemma settled_transaction:
  fixes body :: "'a act"
  assumes "settled jd s" and "keeps_dirty_ok jd body"
  shows "settled jd (snd (transaction jd body s))"
proof -
  let ?body = body
  let ?m = "act_bind ?body (\<lambda>x. act_then (flushDirty jd) (act_then (update (\<lambda>d. d)) (act_return x)))"
  obtain r s1 where b: "update (\<lambda>d. d) s = (r, s1)" by fastforce
  have s1: "st_db s1 = st_db s" "st_dirty s1 = st_dirty s" "st_in_tx s1 = st_in_tx s"
    using st_db_update_id [of s] update_id_frame [of s] b by simp_all
  obtain r2 s2 where m: "?m (s1\<lparr>st_in_tx := True\<rparr>) = (r2, s2)" by fastforce
  show ?thesis
  proof (cases "\<exists>u v. r = Inr u \<and> r2 = Inr v")
    case False
    then have "st_db (snd (transaction jd ?body s)) = st_db s \<and> st_dirty (snd (transaction jd ?body s)) = [] \<and>
        \<not> st_in_tx (snd (transaction jd ?body s))"
      using b m assms(1) s1 by (cases r; cases r2) (auto simp: transaction_def settled_def)
    with assms(1) show ?thesis by (simp add: settled_def)
  next
    case True
    then obtain u v where "r = Inr u" "r2 = Inr v" by blast
    then have t: "snd (transaction jd ?body s) = s2\<lparr>st_in_tx := False\<rparr>"
      using m by (simp add: transaction_def b)
    have d0: "dirty_ok jd (s1\<lparr>st_in_tx := True\<rparr>)"
      using assms(1) s1 by (simp add: settled_def dirty_ok_def)
    obtain x s3 where body: "?body (s1\<lparr>st_in_tx := True\<rparr>) = (Inr x, s3)"
      and rest: "act_then (flushDirty jd) (act_then (update (\<lambda>d. d)) (act_return x)) s3 = (Inr v, s2)"
      using bind_Inr [OF m [unfolded \<open>r2 = Inr v\<close>]] by blast
    have d3: "dirty_ok jd s3" using assms(2) d0 body unfolding keeps_dirty_ok_def by blast
    obtain y s4 where fl: "flushDirty jd s3 = (Inr y, s4)"
      and "act_then (update (\<lambda>d. d)) (act_return x) s4 = (Inr v, s2)"
      using then_Inr [OF rest] by blast
    then obtain z s5 where "update (\<lambda>d. d) s4 = (Inr z, s5)" and "s2 = s5"
      by (auto simp: act_return_def dest!: then_Inr)
    then have s2: "s2 = s4\<lparr>st_faults := tl (st_faults s4)\<rparr>" using update_id_Inr by blast
    have each: "act_each (refresh_bounds jd) (jm_values (st_dirty s3)) (s3\<lparr>st_dirty := []\<rparr>) = (Inr y, s4)"
      using fl by (simp add: flushDirty_def)
    have buckets: "\<forall>b\<in>set (jm_values (st_dirty s3)). bucket_ok b"
      using d3 by (auto simp: dirty_ok_def jm_values_def)
    have cached: "cached_ok jd (st_db s4) sid pp" for sid pp
      by (rule refresh_all_Inr [OF each buckets]) (use d3 in \<open>simp add: dirty_ok_def\<close>)
    have "keys_ok (st_db s4)"
      using keepsD [OF keys.keeps_flush, of s3 jd] d3 fl by (simp add: dirty_ok_def)
    moreover have "st_dirty s4 = []"
      using refresh_all_dirty [OF each buckets] by simp
    ultimately show ?thesis using cached by (simp add: t s2 settled_def)
  qed
qed

lemma settled_open: "settled jd (open_store faults)"
  by (simp add: settled_def open_store_def keys_ok_def empty_db_def id_table_empty jsmap_simps cached_ok_def
      repo_rows_def jm_values_def)

lemma transactional_settled: "transactional jd s \<Longrightarrow> settled jd s"
  by (induction rule: transactional.induct)
    (auto intro: settled_open settled_quiet quiet_call keys.keeps_call settled_transaction
      keeps_dirty_ok_calls)

text \<open>
  After any run of the engine - transactions and single calls, with statements failing
  anywhere - the cached bounds of every repository are exactly those of its activities: no row where
  it has none, else the instants of its first and its last activity.
\<close>

theorem bounds_cache_coherent:
  assumes "transactional jd s"
  shows "cached_ok jd (st_db s) sid pp"
  using transactional_settled [OF assms] by (simp add: settled_def)

definition sample_source :: source_descriptor where
  "sample_source = \<lparr>sd_source_id = ''gh'', sd_kind = ''github'', sd_host = ''github.com'', sd_display_name = None\<rparr>"

definition sample_activity :: "string \<Rightarrow> string \<Rightarrow> activity" where
  "sample_activity ext at =
     \<lparr>ac_source = ''gh'', ac_external = ext, ac_kind = ''commit'', ac_action = ''pushed'',
      ac_project_path = Some ''a/b'', ac_target_kind = None, ac_target = None, ac_target_iid = None,
      ac_title = None, ac_url = None, ac_actor = None, ac_actor_key = None, ac_occurred_at = at,
      ac_summary = None, ac_details = None\<rparr>"

definition sample_calls :: "write_call list" where
  "sample_calls =
     [Ensure_Source sample_source ''t0'',
      Upsert_Activity (sample_activity ''c1'' ''2024-03-02T10:00:00Z'') ''t0'',
      Upsert_Activity (sample_activity ''c2'' ''2024-03-01T10:00:00Z'') ''t0'']"

theorem bounds_cache_coherent_witness:
  "let d = st_db (snd (transaction date_parse (act_each (run_call date_parse) sample_calls) (open_store [])))
   in cached_ok date_parse d ''gh'' (Some ''a/b'') \<and>
      map_option bo_observed_since (jm_get (db_bounds d) (''gh'', ''path:a/b'')) = Some (Some ''2024-03-01T10:00:00Z'')"
proof -
  let ?s = "snd (transaction date_parse (act_each (run_call date_parse) sample_calls) (open_store []))"
  have "\<forall>c\<in>set sample_calls. call_ok c"
    by (simp add: sample_calls_def sample_activity_def)
  then have "transactional date_parse ?s"
    by (intro transactional.intros)
  then have "cached_ok date_parse (st_db ?s) ''gh'' (Some ''a/b'')"
    by (rule bounds_cache_coherent)
  moreover have "map_option bo_observed_since (jm_get (db_bounds (st_db ?s)) (''gh'', ''path:a/b'')) =
      Some (Some ''2024-03-01T10:00:00Z'')"
    by code_simp
  ultimately show ?thesis by (simp add: Let_def)
qed

section \<open>Integrity of every reachable store\<close>

text \<open>
  However a store is used and whatever statements fail: each table has one row per key, row
  ids are unique and below the sequence, and no row refers to a source or an item that is not there.
\<close>

theorem schema_integrity:
  assumes "reachable jd s"
  shows "keys_ok (st_db s) \<and> references_ok (st_db s)"
proof -
  have "keys_ok empty_db" "references_ok empty_db"
    by (simp_all add: keys_ok_def references_ok_def empty_db_def id_table_empty jsmap_simps jm_values_def)
  with assms show ?thesis using keys.keeps_reachable refs.keeps_reachable by blast
qed

theorem schema_integrity_witness:
  "let d = st_db (snd (transaction date_parse (act_each (run_call date_parse) sample_calls) (open_store [])))
   in keys_ok d \<and> references_ok d \<and> map fst (db_activity d) = [(''gh'', ''c1''), (''gh'', ''c2'')]"
proof -
  let ?s = "snd (transaction date_parse (act_each (run_call date_parse) sample_calls) (open_store []))"
  have "reachable date_parse ?s" by (intro reachable.intros)
  then have "keys_ok (st_db ?s) \<and> references_ok (st_db ?s)" by (rule schema_integrity)
  moreover have "map fst (db_activity (st_db ?s)) = [(''gh'', ''c1''), (''gh'', ''c2'')]" by code_simp
  ultimately show ?thesis by (simp add: Let_def)
qed

end
