(* ===== verification/Sync_Safety.thy ===== *)
theory Sync_Safety
  imports Sync_Engine Bounds_Cache
begin

text \<open>
  What a run of the sync engine may do to the store: which invariants it keeps, that it deletes
  nothing unless the sweep was full and complete, that a failed run changes no content, and how the
  watermark moves.
\<close>

section \<open>Properties of the tables that a run keeps\<close>

text \<open>What a run of the engine may turn a property into, when it returns.\<close>

definition leads :: "(db \<Rightarrow> bool) \<Rightarrow> 'a act \<Rightarrow> (db \<Rightarrow> bool) \<Rightarrow> bool" where
  "leads P a Q \<longleftrightarrow> (\<forall>s x s'. P (st_db s) \<longrightarrow> a s = (Inr x, s') \<longrightarrow> Q (st_db s'))"

lemma leads_keeps: "keeps I a \<Longrightarrow> leads I a I"
  unfolding leads_def keeps_def by (metis snd_conv)

lemma leads_bind: "leads P a Q \<Longrightarrow> (\<And>x. leads Q (f x) R) \<Longrightarrow> leads P (act_bind a f) R"
  unfolding leads_def by (blast dest: bind_Inr)

lemma leads_then: "leads P a Q \<Longrightarrow> leads Q b R \<Longrightarrow> leads P (act_then a b) R"
  unfolding act_then_def by (intro leads_bind)

lemma leads_with_source:
  "(\<And>d. P d \<Longrightarrow> Q (snd (f d))) \<Longrightarrow> leads P (statement (with_source sid f)) Q"
  unfolding leads_def by (auto simp: with_source_def split: if_splits dest!: statement_Inr) (metis snd_conv)

lemma leads_total: "(\<And>d. P d \<Longrightarrow> Q (snd (f d))) \<Longrightarrow> leads P (statement (Inr \<circ> f)) Q"
  unfolding leads_def by (auto dest!: statement_Inr) (metis snd_conv)

lemma leads_transaction:
  assumes "leads P body Q" and "keeps Q (flushDirty jd)"
  shows "leads P (transaction jd body) Q"
  unfolding leads_def
proof (intro allI impI)
  fix s :: store and x s'
  assume p: "P (st_db s)" and t: "transaction jd body s = (Inr x, s')"
  let ?m = "act_bind body (\<lambda>x. act_then (flushDirty jd) (act_then (update (\<lambda>d. d)) (act_return x)))"
  have m: "leads P ?m Q"
    by (intro leads_bind [OF assms(1)] leads_keeps inv_intros assms(2) keeps_update)
  obtain r s1 where b: "update (\<lambda>d. d) s = (r, s1)" by fastforce
  have "st_db s1 = st_db s" using st_db_update_id [of s] b by simp
  with p have "P (st_db (s1\<lparr>st_in_tx := True\<rparr>))" by simp
  moreover obtain s2 where "?m (s1\<lparr>st_in_tx := True\<rparr>) = (Inr x, s2)" and "st_db s' = st_db s2"
    using t b by (auto simp: transaction_def split: sum.splits prod.splits)
  ultimately show "Q (st_db s')" using m unfolding leads_def by metis
qed

lemma keeps_result [inv_intros]: "keeps I (act_result r)"
  by (simp add: keeps_def act_result_def)

lemma keeps_counts [inv_intros]: "keeps I (assign_counts f)"
  by (simp add: keeps_def assign_counts_def)

lemma keeps_catch [inv_intros]:
  assumes "keeps I m" and "\<And>e. keeps I (h e)"
  shows "keeps I (act_catch m h)"
  unfolding keeps_def
proof (intro allI impI)
  fix s :: store
  assume "I (st_db s)"
  then have "I (st_db (snd (m s)))" using assms(1) by (simp add: keeps_def)
  then show "I (st_db (snd (act_catch m h s)))"
    using assms(2) by (cases "m s") (auto simp: act_catch_def keeps_def split: sum.split)
qed

lemma keeps_candidates [inv_intros]: "keeps I (listCiRefreshCandidates jd sid c l)"
  by (auto simp: listCiRefreshCandidates_def Let_def intro: inv_intros)

lemma keeps_commit_candidates [inv_intros]: "keeps I (listCommitFileCandidates jd sid c l)"
  by (auto simp: listCommitFileCandidates_def Let_def intro!: inv_intros)

lemma keeps_fetch: "keeps I (fetchWithRefresh jd src sid w opts t)"
  unfolding fetchWithRefresh_def
  by (auto intro!: inv_intros split: option.split)

text \<open>The steps of \<open>syncSource\<close>, for a property that its parts keep.\<close>

lemma keeps_finish_sync:
  assumes "keeps I (transaction jd (write_run jd src opts ck result bundles edges))"
    and "keeps I (enrichCommitFiles jd src opts ck)"
  shows "keeps I (finish_sync jd src opts ck result bundles edges)"
  unfolding keeps_def
proof (intro allI impI)
  fix s :: store
  assume "I (st_db s)"
  obtain r s1 where t:
    "transaction jd (write_run jd src opts ck result bundles edges) (s\<lparr>st_counts := (0, 0)\<rparr>) = (r, s1)"
    by fastforce
  have s1: "I (st_db s1)"
    using keepsD [OF assms(1), of "s\<lparr>st_counts := (0, 0)\<rparr>"] \<open>I (st_db s)\<close> t by simp
  have "keeps I (act_bind (enrichCommitFiles jd src opts ck) (\<lambda>x. act_return (g x)))" for g :: "_ \<Rightarrow> sync_report"
    by (intro inv_intros assms(2))
  from keepsD [where I = I, OF this s1] show "I (st_db (snd (finish_sync jd src opts ck result bundles edges s)))"
    using \<open>I (st_db s)\<close> t s1 by (simp add: finish_sync_def Let_def split: sum.split)
qed

lemma keeps_syncSource:
  assumes "\<And>msg. keeps I (recordFailedRun src opts ck msg)"
    and "\<And>s result s1 bundles edges.
      fetchWithRefresh jd src (sd_source_id (src_descriptor src)) w opts (ck_started ck) s = (Inr result, s1) \<Longrightarrow>
      keeps I (finish_sync jd src opts ck result bundles edges)"
  shows "keeps I (syncSource jd src w opts ck)"
  unfolding keeps_def
proof (intro allI impI)
  fix s :: store
  assume i: "I (st_db s)"
  obtain r s1 where f: "fetchWithRefresh jd src (sd_source_id (src_descriptor src)) w opts (ck_started ck) s = (r, s1)"
    by fastforce
  have s1: "I (st_db s1)" using keepsD [where I = I, OF keeps_fetch i] f by (metis snd_conv)
  show "I (st_db (snd (syncSource jd src w opts ck s)))"
  proof (cases r)
    case (Inl e)
    with f keepsD [where I = I, OF assms(1) s1] show ?thesis by (simp add: syncSource_def)
  next
    case (Inr result)
    note fin = keepsD [where I = I, OF assms(2) [OF f [unfolded Inr]] s1]
    show ?thesis
      using f Inr keepsD [where I = I, OF assms(1) s1] fin
      by (auto simp: syncSource_def split: sum.split)
  qed
qed

context log_writes
begin

lemma keeps_store_raw: "keeps I (store_raw sid r)"
  unfolding store_raw_def by (intro inv_intros keeps_logs)

lemma keeps_enrichCommitFiles: "keeps I (enrichCommitFiles jd src opts ck)"
  unfolding enrichCommitFiles_def enrich_body_def Let_def
  by (auto intro!: inv_intros keeps_transaction keeps_flush keeps_store_raw keeps_logs split: option.split)

end

context content_writes
begin

lemma keeps_store_bundle: "keeps I (store_bundle src t b)"
  unfolding store_bundle_def by (auto intro!: inv_intros keeps_contents split: option.split)

lemma keeps_write_content: "keeps I (write_content jd src ck result bundles edges)"
  unfolding write_content_def by (intro inv_intros keeps_contents keeps_store_raw keeps_store_bundle)

end

context table_writes
begin

lemma keeps_recordFailedRun: "keeps I (recordFailedRun src opts ck msg)"
  unfolding recordFailedRun_def Let_def
  by (auto intro!: inv_intros keeps_writes)

lemma keeps_close_out: "keeps I (close_out src opts ck result bundles edges runId)"
  unfolding close_out_def Let_def by (intro inv_intros keeps_writes)

lemma keeps_write_run:
  assumes "op_full opts \<Longrightarrow> fe_complete result \<Longrightarrow> keeps I (sweep_unseen (sd_source_id (src_descriptor src)) ck)"
  shows "keeps I (write_run jd src opts ck result bundles edges)"
  unfolding write_run_def Let_def using assms
  by (auto intro!: inv_intros keeps_writes keeps_write_content keeps_close_out)

lemma keeps_run_without_sweep:
  assumes "op_full opts \<Longrightarrow>
    \<forall>r. src_fetch src \<lparr>fo_since = w, fo_full = True\<rparr> = Inr r \<longrightarrow> \<not> fe_complete r"
  shows "keeps I (syncSource jd src w opts ck)"
proof (rule keeps_syncSource)
  fix s result s1 bundles edges
  assume f: "fetchWithRefresh jd src (sd_source_id (src_descriptor src)) w opts (ck_started ck) s = (Inr result, s1)"
  have "\<not> (op_full opts \<and> fe_complete result)"
  proof
    assume full: "op_full opts \<and> fe_complete result"
    then have "src_fetch src \<lparr>fo_since = w, fo_full = True\<rparr> = Inr result"
      using f by (auto simp: fetchWithRefresh_def act_bind_def act_result_def act_return_def
          split: sum.splits option.splits)
    with assms full show False by simp
  qed
  then show "keeps I (finish_sync jd src opts ck result bundles edges)"
    by (intro keeps_finish_sync keeps_transaction keeps_write_run keeps_flush keeps_enrichCommitFiles) simp
qed (rule keeps_recordFailedRun)

end

context table_invariant
begin

lemma keeps_sweep_unseen: "keeps I (sweep_unseen sid ck)"
  unfolding sweep_unseen_def by (intro inv_intros keeps_deletions)

lemma keeps_engine: "keeps I (syncSource jd src w opts ck)"
  by (intro keeps_syncSource keeps_finish_sync keeps_transaction keeps_write_run keeps_sweep_unseen
      keeps_flush keeps_enrichCommitFiles keeps_recordFailedRun)

end

section \<open>The disappearance rule\<close>

text \<open>Every row that was live is still there and live.\<close>

definition live_since :: "db \<Rightarrow> db \<Rightarrow> bool" where
  "live_since d0 d \<longleftrightarrow>
     (\<forall>k r. jm_get (db_item d0) k = Some r \<longrightarrow> ir_deleted_at r = None \<longrightarrow>
        (\<exists>r'. jm_get (db_item d) k = Some r' \<and> ir_deleted_at r' = None)) \<and>
     (\<forall>k r. jm_get (db_edge d0) k = Some r \<longrightarrow> er_deleted_at r = None \<longrightarrow>
        (\<exists>r'. jm_get (db_edge d) k = Some r' \<and> er_deleted_at r' = None)) \<and>
     (\<forall>k r. jm_get (db_review_thread d0) k = Some r \<longrightarrow> tw_deleted_at r = None \<longrightarrow>
        (\<exists>r'. jm_get (db_review_thread d) k = Some r' \<and> tw_deleted_at r' = None))"

lemma live_since_refl: "live_since d d"
  by (auto simp: live_since_def)

lemma live_since_frame:
  "db_item d' = db_item d \<Longrightarrow> db_edge d' = db_edge d \<Longrightarrow> db_review_thread d' = db_review_thread d \<Longrightarrow>
   live_since d0 d \<Longrightarrow> live_since d0 d'"
  by (simp add: live_since_def)

interpretation alive: table_writes "live_since d0"
proof
  fix d :: db and i :: item and n t
  assume "live_since d0 d"
  then show "live_since d0 (snd (put_item i n t d))"
    unfolding live_since_def put_item_def Let_def by (simp add: jm_get_set split: option.split)
next
  fix d :: db and ed t
  assume "live_since d0 d"
  then show "live_since d0 (put_edge ed t d)"
    unfolding live_since_def put_edge_def by (simp add: jm_get_set split: option.split)
next
  fix d :: db and th t
  assume "live_since d0 d"
  then show "live_since d0 (put_thread th t d)"
    unfolding live_since_def put_thread_def by (simp add: jm_get_set)
next
  fix d :: db and iid l u d'
  assume "live_since d0 d" and "put_label iid l d = Inr (u, d')"
  then show "live_since d0 d'"
    by (elim live_since_frame [rotated 3]) (auto simp: put_label_def split: if_splits)
qed (erule live_since_frame [rotated 3]; simp add: table_defs split: option.split)+

text \<open>
  Claim C1. A run that is not full, or whose fetch was not complete, deletes nothing: whatever fails
  on the way, every live item, edge and review thread is live afterwards.
\<close>

theorem no_deletion_without_complete_sweep:
  assumes "op_full opts \<Longrightarrow>
    \<forall>r. src_fetch src \<lparr>fo_since = w, fo_full = True\<rparr> = Inr r \<longrightarrow> \<not> fe_complete r"
  shows "live_since (st_db s) (st_db (snd (syncSource jd src w opts ck s)))"
  by (rule keepsD [where I = "live_since (st_db s)", OF alive.keeps_run_without_sweep])
    (use assms in \<open>auto simp: live_since_refl\<close>)

text \<open>
  No run of the engine, failing or not, breaks the integrity of the schema: none of its statements does.
\<close>

lemma engine_keeps_integrity:
  assumes "keys_ok (st_db s) \<and> references_ok (st_db s)"
  shows "keys_ok (st_db (snd (syncSource jd src w opts ck s))) \<and>
         references_ok (st_db (snd (syncSource jd src w opts ck s)))"
  using assms keepsD [OF keys.keeps_engine] keepsD [OF refs.keeps_engine] by blast

section \<open>Failed runs\<close>

text \<open>The content of the store: everything but the sources, the run log and the sync state.\<close>

definition same_content :: "db \<Rightarrow> db \<Rightarrow> bool" where
  "same_content d d' \<longleftrightarrow>
     db_raw d' = db_raw d \<and> db_item d' = db_item d \<and> db_item_label d' = db_item_label d \<and>
     db_edge d' = db_edge d \<and> db_activity d' = db_activity d \<and>
     db_review_thread d' = db_review_thread d \<and> db_commit_files d' = db_commit_files d \<and>
     db_bounds d' = db_bounds d \<and> (\<forall>sid. getWatermark sid d' = getWatermark sid d)"

lemma same_content_refl: "same_content d d"
  by (simp add: same_content_def)

lemma keeps_same_content_failed: "keeps (same_content d0) (recordFailedRun src opts ck msg)"
  unfolding recordFailedRun_def Let_def ensureSource_def startRun_def finishRun_def updateSyncState_def
  by (auto intro!: inv_intros keeps_update keeps_with_source
      simp: same_content_def table_defs getWatermark_def jm_get_set split: option.split)

lemma transaction_Inl_db: "transaction jd body s = (Inl e, s') \<Longrightarrow> st_db s' = st_db s"
  using st_db_update_id [of s]
  by (auto simp: transaction_def split: prod.splits sum.splits)

text \<open>The commit file pass never throws.\<close>

lemma enrichCommitFiles_total: "\<exists>x s'. enrichCommitFiles jd src opts ck s = (Inr x, s')"
proof -
  have "\<exists>x s'. act_catch m (\<lambda>e. act_return (0, Some e)) s = (Inr x, s')" for m :: "(nat \<times> string option) act"
    by (auto simp: act_catch_def act_return_def split: prod.split sum.split)
  then show ?thesis
    unfolding enrichCommitFiles_def Let_def by (auto simp: act_return_def split: option.split)
qed

lemma finish_sync_failed:
  assumes "finish_sync jd src opts ck result bundles edges s = (r, s')"
    and "\<And>rep. r = Inr rep \<Longrightarrow> sr_status rep = Run_Error"
  shows "st_db s' = st_db s"
proof -
  have ok: "status_of result \<noteq> Run_Error" by (simp add: status_of_def)
  show ?thesis
  proof (cases "op_dry_run opts")
    case True
    with assms(1) show ?thesis by (auto simp: finish_sync_def)
  next
    case False
    obtain q s1 where t:
      "transaction jd (write_run jd src opts ck result bundles edges) (s\<lparr>st_counts := (0, 0)\<rparr>) = (q, s1)"
      by fastforce
    show ?thesis
    proof (cases q)
      case (Inl e)
      with t assms(1) False transaction_Inl_db [OF t [unfolded Inl]] show ?thesis
        by (auto simp: finish_sync_def Let_def)
    next
      case (Inr u)
      with t assms(1) False have
        "act_bind (enrichCommitFiles jd src opts ck)
           (\<lambda>files. act_return ((with_counts (st_counts s1) (run_report src opts ck result bundles edges))
              \<lparr>sr_commit_files := fst files, sr_commit_files_error := snd files\<rparr>)) s1 = (r, s')"
        by (simp add: finish_sync_def Let_def)
      moreover have "\<exists>x s2. enrichCommitFiles jd src opts ck s1 = (Inr x, s2)"
        by (rule enrichCommitFiles_total)
      ultimately show ?thesis
        using assms(2) ok by (auto simp: act_bind_def act_return_def run_report_def with_counts_def)
    qed
  qed
qed

lemma failed_run_same_content:
  assumes "syncSource jd src w opts ck s = (r, s')"
    and "\<And>rep. r = Inr rep \<Longrightarrow> sr_status rep = Run_Error"
  shows "same_content (st_db s) (st_db s')"
proof -
  obtain q s1 where f: "fetchWithRefresh jd src (sd_source_id (src_descriptor src)) w opts (ck_started ck) s = (q, s1)"
    by fastforce
  have "st_db s1 = st_db s"
    using keepsD [where I = "\<lambda>d. d = st_db s", OF keeps_fetch, of s] f by (metis snd_conv)
  then have failed: "same_content (st_db s) (st_db (snd (recordFailedRun src opts ck e s1)))" for e
    using keepsD [where I = "same_content (st_db s)", OF keeps_same_content_failed, of s1]
    by (simp add: same_content_refl)
  show ?thesis
  proof (cases "\<exists>result bundles edges. q = Inr result \<and>
      normalize_and_reconcile src (fe_records result) = Inr (bundles, edges)")
    case False
    then show ?thesis
      using f assms(1) failed by (auto simp: syncSource_def split: sum.splits) (metis snd_conv)+
  next
    case True
    then obtain result bundles edges where "q = Inr result"
      and "normalize_and_reconcile src (fe_records result) = Inr (bundles, edges)" by blast
    then have "finish_sync jd src opts ck result bundles edges s1 = (r, s')"
      using f assms(1) by (simp add: syncSource_def)
    from finish_sync_failed [OF this assms(2)] \<open>st_db s1 = st_db s\<close> show ?thesis
      by (simp add: same_content_refl)
  qed
qed

text \<open>
  Claim C3. A run that throws or reports an error - a failed fetch, a crashing normalizer, any failed
  statement - changes no item, label, edge, activity, thread, raw record, file list or cached bound,
  and no watermark.
\<close>

theorem failed_run_changes_no_content:
  assumes "syncSource jd src w opts ck s = (r, s')"
    and "\<And>rep. r = Inr rep \<Longrightarrow> sr_status rep = Run_Error"
  shows "same_content (st_db s) (st_db s')"
  using assms by (rule failed_run_same_content)

section \<open>Successful runs\<close>

lemma fetch_keeps_db:
  "fetchWithRefresh jd src sid w opts t s = (r, s1) \<Longrightarrow> st_db s1 = st_db s"
  using keepsD [where I = "\<lambda>d. d = st_db s", OF keeps_fetch, of s] by (metis snd_conv)

lemma recordFailedRun_status:
  "recordFailedRun src opts ck msg s = (Inr rep, s') \<Longrightarrow> sr_status rep = Run_Error \<and> sr_watermark rep = None"
  by (auto simp: recordFailedRun_def Let_def act_return_def failed_report_def dest!: then_Inr)

lemma syncSource_success:
  assumes "syncSource jd src w opts ck s = (Inr rep, s')" and "sr_status rep \<noteq> Run_Error"
    and "\<not> op_dry_run opts"
  obtains result s1 bundles edges s2 files where
    "fetchWithRefresh jd src (sd_source_id (src_descriptor src)) w opts (ck_started ck) s = (Inr result, s1)"
    and "st_db s1 = st_db s"
    and "normalize_and_reconcile src (fe_records result) = Inr (bundles, edges)"
    and "transaction jd (write_run jd src opts ck result bundles edges) (s1\<lparr>st_counts := (0, 0)\<rparr>) = (Inr (), s2)"
    and "enrichCommitFiles jd src opts ck s2 = (Inr files, s')"
    and "rep = (with_counts (st_counts s2) (run_report src opts ck result bundles edges))
           \<lparr>sr_commit_files := fst files, sr_commit_files_error := snd files\<rparr>"
proof -
  obtain q s1 where f: "fetchWithRefresh jd src (sd_source_id (src_descriptor src)) w opts (ck_started ck) s = (q, s1)"
    by fastforce
  have not_failed: "recordFailedRun src opts ck msg s1 \<noteq> (Inr rep, s')" for msg
    using assms(2) recordFailedRun_status by blast
  obtain result bundles edges where q: "q = Inr result"
    and n: "normalize_and_reconcile src (fe_records result) = Inr (bundles, edges)"
    and fin: "finish_sync jd src opts ck result bundles edges s1 = (Inr rep, s')"
    using assms(1) f not_failed by (auto simp: syncSource_def split: sum.splits)
  obtain p s2 where t:
    "transaction jd (write_run jd src opts ck result bundles edges) (s1\<lparr>st_counts := (0, 0)\<rparr>) = (p, s2)"
    by fastforce
  obtain files s3 where e: "enrichCommitFiles jd src opts ck s2 = (Inr files, s3)"
    using enrichCommitFiles_total by blast
  have "p = Inr ()"
    using t fin assms(2,3) by (cases p) (auto simp: finish_sync_def Let_def)
  moreover from this have "s3 = s'" and "rep = (with_counts (st_counts s2) (run_report src opts ck result bundles edges))
           \<lparr>sr_commit_files := fst files, sr_commit_files_error := snd files\<rparr>"
    using t e fin assms(3) by (simp_all add: finish_sync_def Let_def act_bind_def act_return_def)
  ultimately show thesis
    using that f q n t e fetch_keeps_db [OF f] by blast
qed

lemma run_leads:
  assumes "syncSource jd src w opts ck s = (Inr rep, s')" and "sr_status rep \<noteq> Run_Error"
    and "\<not> op_dry_run opts" and "P (st_db s)"
    and "\<And>result s1 bundles edges.
      fetchWithRefresh jd src (sd_source_id (src_descriptor src)) w opts (ck_started ck) s = (Inr result, s1) \<Longrightarrow>
      sr_status rep = status_of result \<Longrightarrow>
      sr_watermark rep = capWatermarkAtRunStart (fe_watermark result) (ck_started ck) \<Longrightarrow>
      leads P (write_run jd src opts ck result bundles edges) Q"
    and "log_writes Q"
  shows "Q (st_db s')"
proof -
  obtain result s1 bundles edges s2 files where
    f: "fetchWithRefresh jd src (sd_source_id (src_descriptor src)) w opts (ck_started ck) s = (Inr result, s1)"
    and s1: "st_db s1 = st_db s"
    and t: "transaction jd (write_run jd src opts ck result bundles edges) (s1\<lparr>st_counts := (0, 0)\<rparr>) = (Inr (), s2)"
    and e: "enrichCommitFiles jd src opts ck s2 = (Inr files, s')"
    and rep: "rep = (with_counts (st_counts s2) (run_report src opts ck result bundles edges))
           \<lparr>sr_commit_files := fst files, sr_commit_files_error := snd files\<rparr>"
    by (rule syncSource_success [OF assms(1-3)]) 
  have "leads P (write_run jd src opts ck result bundles edges) Q"
    using f by (rule assms(5)) (simp_all add: rep run_report_def with_counts_def)
  then have "leads P (transaction jd (write_run jd src opts ck result bundles edges)) Q"
    by (rule leads_transaction) (rule log_writes.keeps_flush [OF assms(6)])
  with t s1 assms(4) have "Q (st_db s2)"
    unfolding leads_def by (metis select_convs(1) store.update_convs(5) store.select_convs(1) store.surjective)
  then show ?thesis
    using keepsD [where I = Q, OF log_writes.keeps_enrichCommitFiles [OF assms(6)], of s2] e by (metis snd_conv)
qed

subsection \<open>The watermark\<close>

definition marks :: "string \<Rightarrow> string option \<Rightarrow> db \<Rightarrow> bool" where
  "marks sid w d \<longleftrightarrow> getWatermark sid d = w"

lemma marks_frame: "db_sync_state d' = db_sync_state d \<Longrightarrow> marks sid w d \<Longrightarrow> marks sid w d'"
  by (simp add: marks_def getWatermark_def)

interpretation marks: content_writes "marks sid w"
proof
  fix d :: db and iid l u d'
  assume "marks sid w d" and "put_label iid l d = Inr (u, d')"
  then show "marks sid w d'"
    by (elim marks_frame [rotated]) (auto simp: put_label_def split: if_splits)
qed (erule marks_frame [rotated]; simp add: table_defs put_item_def split: option.split)+

lemma keeps_marks_sweep: "keeps (marks sid w) (sweep_unseen sid' ck)"
  unfolding sweep_unseen_def softDeleteUnseenItems_def softDeleteUnseenEdges_def softDeleteUnseenReviewThreads_def
  by (intro inv_intros keeps_total; erule marks_frame [rotated]; simp add: table_defs split_beta)

lemma capWatermark_le:
  "capWatermarkAtRunStart wm st = Some m \<Longrightarrow> date_parse m = Some t \<Longrightarrow> date_parse st = Some t0 \<Longrightarrow> t \<le> t0"
  by (cases wm; cases "date_parse (the wm)") (auto simp: capWatermarkAtRunStart_def split: if_splits)

lemma finish_sync_watermark:
  "finish_sync jd src opts ck result bundles edges s = (Inr rep, s') \<Longrightarrow>
   sr_watermark rep = capWatermarkAtRunStart (fe_watermark result) (ck_started ck)"
  by (auto simp: finish_sync_def Let_def run_report_def with_counts_def act_bind_def act_return_def
      split: if_splits prod.splits sum.splits)

lemma report_watermark:
  assumes "syncSource jd src w opts ck s = (Inr rep, s')"
  shows "sr_watermark rep = None \<or> (\<exists>wm. sr_watermark rep = capWatermarkAtRunStart wm (ck_started ck))"
  using assms
  by (auto simp: syncSource_def split: prod.splits sum.splits
      dest: recordFailedRun_status finish_sync_watermark)

lemma dry_run_keeps_db:
  "op_dry_run opts \<Longrightarrow> st_db (snd (syncSource jd src w opts ck s)) = st_db s"
  by (auto simp: syncSource_def finish_sync_def recordFailedRun_def Let_def act_then_def act_bind_def
      act_return_def split: prod.split sum.split dest: fetch_keeps_db)

text \<open>
  A dry run writes nothing, whatever happens in it.
\<close>

theorem dry_run_writes_nothing:
  assumes "op_dry_run opts"
  shows "st_db (snd (syncSource jd src w opts ck s)) = st_db s"
  using assms by (rule dry_run_keeps_db)

text \<open>The watermark a run reports is never later than its start, where both are instants.\<close>

lemma watermark_not_after_start:
  assumes "syncSource jd src w opts ck s = (Inr rep, s')"
    and "sr_watermark rep = Some m" and "date_parse m = Some t" and "date_parse (ck_started ck) = Some t0"
  shows "t \<le> t0"
  using report_watermark [OF assms(1)] assms(2-4) by (metis capWatermark_le option.distinct(1))

text \<open>The watermark a run leaves.\<close>

lemma stored_watermark:
  assumes "syncSource jd src w opts ck s = (Inr rep, s')"
  shows "getWatermark (sd_source_id (src_descriptor src)) (st_db s') =
    (if op_dry_run opts \<or> sr_status rep = Run_Error then getWatermark (sd_source_id (src_descriptor src)) (st_db s)
     else nullish (sr_watermark rep) (getWatermark (sd_source_id (src_descriptor src)) (st_db s)))"
proof -
  let ?sid = "sd_source_id (src_descriptor src)"
  let ?old = "getWatermark ?sid (st_db s)"
  consider "sr_status rep = Run_Error" | "sr_status rep \<noteq> Run_Error" "op_dry_run opts"
    | "sr_status rep \<noteq> Run_Error" "\<not> op_dry_run opts" by blast
  then show ?thesis
  proof cases
    case 1
    with failed_run_same_content [OF assms] show ?thesis by (simp add: same_content_def)
  next
    case 2
    with dry_run_keeps_db [of opts jd src w ck s] assms show ?thesis by simp
  next
    case 3
    have "marks ?sid (nullish (sr_watermark rep) ?old) (st_db s')"
    proof (rule run_leads [OF assms 3, of "marks ?sid ?old"])
      show "marks ?sid ?old (st_db s)" by (simp add: marks_def)
      fix result :: fetch_result and s1 :: store and bundles edges
      assume wm: "sr_watermark rep = capWatermarkAtRunStart (fe_watermark result) (ck_started ck)"
      have "leads (marks ?sid ?old) (updateSyncState ?sid (sr_watermark rep) st err t)
          (marks ?sid (nullish (sr_watermark rep) ?old))" for st err t
        unfolding updateSyncState_def
        by (rule leads_with_source) (auto simp: marks_def getWatermark_def put_sync_state_def Let_def jm_get_set)
      then show "leads (marks ?sid ?old) (write_run jd src opts ck result bundles edges)
          (marks ?sid (nullish (sr_watermark rep) ?old))"
        unfolding write_run_def close_out_def Let_def wm [symmetric]
        by (intro leads_then leads_bind) (auto intro!: leads_keeps marks.keeps_logs marks.keeps_write_content
            keeps_marks_sweep keeps_return)
    qed (rule marks.log_writes_axioms)
    with 3 show ?thesis by (simp add: marks_def)
  qed
qed

text \<open>
  Claim C4. The watermark after a run: unchanged by a dry run and by a run that reports an error; else the
  one the run reports, or the old one where it reports none.  The one it reports is never later than the
  start of the run, where both are instants, so nothing that changed while the run was under way is
  skipped by the next.
\<close>

theorem watermark_after_run:
  assumes "syncSource jd src w opts ck s = (Inr rep, s')"
  defines "old \<equiv> getWatermark (sd_source_id (src_descriptor src)) (st_db s)"
  shows "getWatermark (sd_source_id (src_descriptor src)) (st_db s') =
      (if op_dry_run opts \<or> sr_status rep = Run_Error then old
       else case sr_watermark rep of Some m \<Rightarrow> Some m | None \<Rightarrow> old)
    \<and> (\<forall>m t t0. sr_watermark rep = Some m \<longrightarrow> date_parse m = Some t \<longrightarrow> date_parse (ck_started ck) = Some t0 \<longrightarrow> t \<le> t0)"
  using stored_watermark [OF assms(1)] watermark_not_after_start [OF assms(1)]
  by (auto simp: old_def nullish_def split: option.split)

subsection \<open>A complete sweep\<close>

text \<open>Everything of the source that is still live was seen at or after \<open>cutoff\<close>.\<close>

definition swept :: "string \<Rightarrow> string \<Rightarrow> db \<Rightarrow> bool" where
  "swept sid cutoff d \<longleftrightarrow>
     (\<forall>e\<in>set (db_item d). fst (fst e) = sid \<longrightarrow> ir_deleted_at (snd e) = None \<longrightarrow>
        cutoff \<le> ir_last_seen_at (snd e)) \<and>
     (\<forall>e\<in>set (db_edge d). ep_source (fst (snd (fst e))) = sid \<longrightarrow> ep_source (snd (snd (fst e))) = sid \<longrightarrow>
        er_deleted_at (snd e) = None \<longrightarrow> cutoff \<le> er_last_seen_at (snd e)) \<and>
     (\<forall>e\<in>set (db_review_thread d). fst (fst e) = sid \<longrightarrow> tw_deleted_at (snd e) = None \<longrightarrow>
        cutoff \<le> tw_last_seen_at (snd e))"

lemma swept_frame:
  "db_item d' = db_item d \<Longrightarrow> db_edge d' = db_edge d \<Longrightarrow> db_review_thread d' = db_review_thread d \<Longrightarrow>
   swept sid c d \<Longrightarrow> swept sid c d'"
  by (simp add: swept_def)

interpretation swept: log_writes "swept sid c"
  by unfold_locales (erule swept_frame [rotated 3]; simp add: table_defs split: option.split)+

lemma set_update_rows:
  "e \<in> set (snd (update_rows P f m)) \<longleftrightarrow>
     (\<exists>k v. (k, v) \<in> set m \<and> e = (k, if P k v then f v else v))"
  by (force simp: update_rows_def)

lemma leads_sweep: "leads (\<lambda>_. True) (sweep_unseen sid ck) (swept sid (ck_started ck))"
proof -
  let ?items = "\<lambda>d. \<forall>e\<in>set (db_item d). fst (fst e) = sid \<longrightarrow> ir_deleted_at (snd e) = None \<longrightarrow>
        ck_started ck \<le> ir_last_seen_at (snd e)"
  let ?edges = "\<lambda>d. \<forall>e\<in>set (db_edge d). ep_source (fst (snd (fst e))) = sid \<longrightarrow>
        ep_source (snd (snd (fst e))) = sid \<longrightarrow> er_deleted_at (snd e) = None \<longrightarrow>
        ck_started ck \<le> er_last_seen_at (snd e)"
  have items: "leads (\<lambda>_. True) (softDeleteUnseenItems sid (ck_started ck) (ck_swept ck)) ?items"
    unfolding softDeleteUnseenItems_def
    by (rule leads_total) (auto simp: tomb_items_def split_beta Let_def set_update_rows item_unseen_def not_less)
  have edges: "leads ?items (softDeleteUnseenEdges sid (ck_started ck) (ck_swept ck)) (\<lambda>d. ?items d \<and> ?edges d)"
    unfolding softDeleteUnseenEdges_def
    by (rule leads_total) (auto simp: tomb_edges_def split_beta Let_def set_update_rows edge_unseen_def not_less)
  have threads: "leads (\<lambda>d. ?items d \<and> ?edges d)
      (softDeleteUnseenReviewThreads sid (ck_started ck) (ck_swept ck)) (swept sid (ck_started ck))"
    unfolding softDeleteUnseenReviewThreads_def
    by (rule leads_total)
      (auto simp: swept_def tomb_threads_def split_beta Let_def set_update_rows thread_unseen_def not_less)
  show ?thesis
    unfolding sweep_unseen_def
    by (rule leads_bind [OF items] leads_then [OF leads_keeps [OF keeps_counts]] leads_bind [OF edges]
        leads_bind [OF threads] leads_keeps [OF keeps_return])+
qed

lemma leads_any: "leads P a (\<lambda>_. True)"
  by (simp add: leads_def)

text \<open>
  Claim C2. After a full run that fetched everything and succeeded, every item, edge and review thread
  of the source that is still live was seen in this run.
\<close>

theorem complete_sweep_deletes_unseen:
  assumes "syncSource jd src w opts ck s = (Inr rep, s')"
    and "sr_status rep = Run_Ok" and "op_full opts" and "\<not> op_dry_run opts"
  shows "swept (sd_source_id (src_descriptor src)) (ck_started ck) (st_db s')"
proof (rule run_leads [OF assms(1) _ assms(4), of "\<lambda>_. True"])
  fix result :: fetch_result and s1 :: store and bundles edges
  assume "sr_status rep = status_of result"
  then have complete: "fe_complete result" using assms(2) by (simp add: status_of_def split: if_splits)
  let ?sid = "sd_source_id (src_descriptor src)"
  have "keeps (swept ?sid (ck_started ck)) (close_out src opts ck result bundles edges runId)" for runId
    unfolding close_out_def Let_def updateSyncState_def
    by (intro inv_intros swept.keeps_logs keeps_with_source)
      (erule swept_frame [rotated 3]; simp add: table_defs)
  then show "leads (\<lambda>_. True) (write_run jd src opts ck result bundles edges) (swept ?sid (ck_started ck))"
    unfolding write_run_def Let_def
    by (simp add: complete assms(3), intro leads_then [OF leads_any] leads_bind [OF leads_any]
        leads_then [OF leads_sweep] leads_keeps)
qed (use assms(2) in \<open>simp_all add: swept.log_writes_axioms\<close>)

subsection \<open>The cached bounds\<close>

lemma keeps_dirty_quiet: "quiet a \<Longrightarrow> keeps keys_ok a \<Longrightarrow> keeps_dirty_ok jd a"
  unfolding keeps_dirty_ok_def by (metis dirty_ok_quiet snd_conv)

lemma keeps_dirty_bind:
  "keeps_dirty_ok jd a \<Longrightarrow> (\<And>x. keeps_dirty_ok jd (f x)) \<Longrightarrow> keeps_dirty_ok jd (act_bind a f)"
  unfolding keeps_dirty_ok_def by (blast dest: bind_Inr)

lemma keeps_dirty_then: "keeps_dirty_ok jd a \<Longrightarrow> keeps_dirty_ok jd b \<Longrightarrow> keeps_dirty_ok jd (act_then a b)"
  unfolding act_then_def by (intro keeps_dirty_bind)

lemma keeps_dirty_each:
  "(\<And>x. x \<in> set xs \<Longrightarrow> keeps_dirty_ok jd (f x)) \<Longrightarrow> keeps_dirty_ok jd (act_each f xs)"
proof (induction xs)
  case Nil
  then show ?case by (simp add: keeps_dirty_ok_def act_return_def)
qed (simp add: keeps_dirty_then)

lemma quiet_writes:
  "quiet (ensureSource sd t)" "quiet (upsertRaw s k e v h t p)" "quiet (upsertItem i n t)"
  "quiet (replaceLabels iid ls)" "quiet (upsertEdge ed t)" "quiet (upsertReviewThread th t)"
  "quiet (upsertCommitFiles f t)" "quiet (startRun sid m t)"
  "quiet (finishRun r st t ni ne na q cst u err)" "quiet (updateSyncState sid w st er t)"
  "quiet (softDeleteUnseenItems sid c t)" "quiet (softDeleteUnseenEdges sid c t)"
  "quiet (softDeleteUnseenReviewThreads sid c t)"
proof -
  have "quiet (statement (put_label iid l))" for l
    by (rule quiet_statement) (auto simp: put_label_def split: if_splits)
  then show "quiet (replaceLabels iid ls)"
    unfolding replaceLabels_def by (intro quiet_intros) (simp_all add: clear_labels_def)
qed (unfold ensureSource_def upsertItem_def upsertEdge_def upsertReviewThread_def
      upsertCommitFiles_def startRun_def updateSyncState_def softDeleteUnseenItems_def finishRun_def
      softDeleteUnseenEdges_def softDeleteUnseenReviewThreads_def upsertRaw_def,
    (intro quiet_intros; simp add: table_defs put_item_def split_beta split: option.split)+)

lemma quiet_counts: "quiet (assign_counts f)"
  by (simp add: quiet_def assign_counts_def)

lemma quiet_result: "quiet (act_result r)"
  by (simp add: quiet_def act_result_def)

lemma quiet_store_raw: "quiet (store_raw sid r)"
  unfolding store_raw_def by (intro quiet_intros quiet_writes)

lemma quiet_store_bundle: "quiet (store_bundle src t b)"
  unfolding store_bundle_def by (auto intro!: quiet_intros quiet_writes split: option.split)

lemma quiet_sweep: "quiet (sweep_unseen sid ck)"
  unfolding sweep_unseen_def by (intro quiet_intros quiet_writes quiet_counts)

lemma quiet_close_out: "quiet (close_out src opts ck result bundles edges runId)"
  unfolding close_out_def Let_def by (intro quiet_intros quiet_writes)

lemma quiet_recordFailedRun: "quiet (recordFailedRun src opts ck msg)"
  unfolding recordFailedRun_def Let_def by (auto intro!: quiet_intros quiet_writes)

lemma quiet_fetch: "quiet (fetchWithRefresh jd src sid w opts t)"
  unfolding fetchWithRefresh_def listCiRefreshCandidates_def Let_def
  by (auto intro!: quiet_intros quiet_result split: option.split)

lemma keeps_dirty_activity:
  "CHR 0x00 \<notin> set (ac_source a) \<Longrightarrow> keeps_dirty_ok jd (upsertActivity jd a t)"
  unfolding keeps_dirty_ok_def using dirty_ok_activity by blast

text \<open>A source whose activities carry ids without NUL.\<close>

definition nul_free :: "source \<Rightarrow> bool" where
  "nul_free src \<longleftrightarrow>
     (\<forall>r b a. src_normalize src r = Inr (Some b) \<longrightarrow> a \<in> set (bn_activities b) \<longrightarrow> CHR 0x00 \<notin> set (ac_source a))"

lemma normalize_all_mem:
  "normalize_all src rs = Inr bs \<Longrightarrow> b \<in> set bs \<Longrightarrow> \<exists>r\<in>set rs. src_normalize src r = Inr (Some b)"
proof (induction rs arbitrary: bs)
  case (Cons r rs)
  then show ?case by (fastforce split: option.splits)
qed simp

lemma keeps_dirty_write_run:
  assumes "nul_free src" and "normalize_and_reconcile src records = Inr (bundles, edges)"
  shows "keeps_dirty_ok jd (write_run jd src opts ck result bundles edges)"
proof -
  have acts: "keeps_dirty_ok jd (act_each (\<lambda>a. upsertActivity jd a t) (concat (map bn_activities bundles)))" for t
  proof (rule keeps_dirty_each)
    fix a
    assume "a \<in> set (concat (map bn_activities bundles))"
    then obtain b where "b \<in> set bundles" "a \<in> set (bn_activities b)" by auto
    moreover have "normalize_all src records = Inr bundles"
      using assms(2) by (auto simp: normalize_and_reconcile_def)
    ultimately have "CHR 0x00 \<notin> set (ac_source a)"
      using assms(1) normalize_all_mem unfolding nul_free_def by blast
    then show "keeps_dirty_ok jd (upsertActivity jd a t)" by (rule keeps_dirty_activity)
  qed
  have content: "keeps_dirty_ok jd (write_content jd src ck result bundles edges)"
    unfolding write_content_def
    by (intro keeps_dirty_then acts keeps_dirty_each keeps_dirty_quiet quiet_store_raw quiet_store_bundle
        quiet_writes keys.keeps_store_raw keys.keeps_store_bundle keys.keeps_contents)
  show ?thesis
    unfolding write_run_def Let_def
    by (intro keeps_dirty_then keeps_dirty_bind content)
      (auto intro!: keeps_dirty_quiet quiet_writes quiet_sweep quiet_close_out quiet_return keeps_return
        keys.keeps_logs keys.keeps_sweep_unseen keys.keeps_close_out)
qed

lemma settled_counts: "settled jd s \<Longrightarrow> settled jd (s\<lparr>st_counts := c\<rparr>)"
  by (simp add: settled_def)

lemma settled_fetch:
  "fetchWithRefresh jd src sid w opts t s = (r, s1) \<Longrightarrow> settled jd s \<Longrightarrow> settled jd s1"
  using settled_quiet [OF quiet_fetch keeps_fetch, of jd s] by (metis snd_conv)

definition keeps_settled :: "(string \<Rightarrow> int option) \<Rightarrow> 'a act \<Rightarrow> bool" where
  "keeps_settled jd a \<longleftrightarrow> (\<forall>s. settled jd s \<longrightarrow> settled jd (snd (a s)))"

lemma keeps_settled_quiet: "quiet a \<Longrightarrow> keeps keys_ok a \<Longrightarrow> keeps_settled jd a"
  unfolding keeps_settled_def using settled_quiet by blast

lemma keeps_settled_bind:
  assumes "keeps_settled jd a" and "\<And>x. keeps_settled jd (f x)"
  shows "keeps_settled jd (act_bind a f)"
  unfolding keeps_settled_def
proof (intro allI impI)
  fix s
  assume "settled jd s"
  then have "settled jd (snd (a s))" using assms(1) by (simp add: keeps_settled_def)
  then show "settled jd (snd (act_bind a f s))"
    using assms(2) by (cases "a s") (auto simp: act_bind_def keeps_settled_def split: sum.split)
qed

lemma keeps_settled_then: "keeps_settled jd a \<Longrightarrow> keeps_settled jd b \<Longrightarrow> keeps_settled jd (act_then a b)"
  unfolding act_then_def by (intro keeps_settled_bind)

lemma keeps_settled_catch:
  assumes "keeps_settled jd a"
  shows "keeps_settled jd (act_catch a (\<lambda>e. act_return (g e)))"
  unfolding keeps_settled_def
proof (intro allI impI)
  fix s
  assume "settled jd s"
  then have "settled jd (snd (a s))" using assms by (simp add: keeps_settled_def)
  then show "settled jd (snd (act_catch a (\<lambda>e. act_return (g e)) s))"
    by (cases "a s") (auto simp: act_catch_def act_return_def split: sum.split)
qed

lemma keeps_settled_transaction: "keeps_dirty_ok jd body \<Longrightarrow> keeps_settled jd (transaction jd body)"
  unfolding keeps_settled_def using settled_transaction by blast

lemma keeps_settled_simple:
  "keeps_settled jd (act_return x)" "keeps_settled jd (act_result r)" "keeps_settled jd (query f)"
  "keeps_settled jd (listCommitFileCandidates jd' sid c l)"
  by (auto intro!: keeps_settled_quiet quiet_intros quiet_result inv_intros simp: listCommitFileCandidates_def Let_def)

lemma keeps_settled_enrich: "keeps_settled jd (enrichCommitFiles jd src opts ck)"
proof -
  have files: "keeps_settled jd (transaction jd
      (act_then (act_each (store_raw sid) rs) (act_each (\<lambda>f. upsertCommitFiles f t) fs)))" for sid rs fs t
    by (intro keeps_settled_transaction keeps_dirty_quiet quiet_intros quiet_store_raw quiet_writes
        inv_intros keys.keeps_store_raw keys.keeps_logs)
  have "keeps_settled jd (enrich_body jd f src opts ck n)" for f n
    unfolding enrich_body_def Let_def
    by (auto intro!: keeps_settled_bind keeps_settled_then keeps_settled_simple files)
  then show ?thesis
    unfolding enrichCommitFiles_def Let_def
    by (auto intro!: keeps_settled_simple keeps_settled_catch split: option.split)
qed

lemma keeps_settled_finish:
  assumes "nul_free src" and "normalize_and_reconcile src records = Inr (bundles, edges)"
  shows "keeps_settled jd (finish_sync jd src opts ck result bundles edges)"
  unfolding keeps_settled_def
proof (intro allI impI)
  fix s
  assume s: "settled jd s"
  obtain r s1 where t:
    "transaction jd (write_run jd src opts ck result bundles edges) (s\<lparr>st_counts := (0, 0)\<rparr>) = (r, s1)"
    by fastforce
  have s1: "settled jd s1"
    using settled_transaction [OF settled_counts [OF s] keeps_dirty_write_run [OF assms]] t by (metis snd_conv)
  have "keeps_settled jd (act_bind (enrichCommitFiles jd src opts ck) (\<lambda>x. act_return (g x)))"
    for g :: "_ \<Rightarrow> sync_report"
    by (intro keeps_settled_bind keeps_settled_enrich keeps_settled_simple)
  with s1 show "settled jd (snd (finish_sync jd src opts ck result bundles edges s))"
    using s t by (simp add: finish_sync_def Let_def keeps_settled_def split: sum.split)
qed

text \<open>
  Claim C5. A run of the engine, whatever fails in it, leaves every cached bound exactly what the
  activities say, and no transaction or refresh pending.
\<close>

theorem engine_keeps_cache_coherent:
  assumes "nul_free src" and "settled jd s"
  shows "settled jd (snd (syncSource jd src w opts ck s))"
proof -
  obtain q s1 where f: "fetchWithRefresh jd src (sd_source_id (src_descriptor src)) w opts (ck_started ck) s = (q, s1)"
    by fastforce
  have s1: "settled jd s1" by (rule settled_fetch [OF f assms(2)])
  have failed: "settled jd (snd (recordFailedRun src opts ck msg s1))" for msg
    by (rule settled_quiet [OF quiet_recordFailedRun keys.keeps_recordFailedRun s1])
  have fin: "settled jd (snd (finish_sync jd src opts ck result bundles edges s1))"
    if "normalize_and_reconcile src records = Inr (bundles, edges)" for records result bundles edges
    using keeps_settled_finish [OF assms(1) that] s1 by (simp add: keeps_settled_def)
  show ?thesis
    using f failed fin by (auto simp: syncSource_def split: sum.split)
qed

end
