(* ===== verification/Sync_Witnesses.thy ===== *)
theory Sync_Witnesses
  imports Sync_Safety
begin

text \<open>
  One concrete source, item and activity, and the runs over them at which the theorems on the sync
  engine are instantiated.
\<close>

section \<open>A concrete run\<close>

definition sample_bundle :: normalized_bundle where
  "sample_bundle =
     \<lparr>bn_item = Some sample_item, bn_labels = [], bn_edges = [],
      bn_activities = [sample_activity ''c1'' ''2024-03-02T10:00:00Z''], bn_review_threads = [], bn_commit_files = []\<rparr>"

definition sample_record :: raw_record where
  "sample_record =
     \<lparr>ra_entity_kind = ''issue'', ra_external = ''i1'', ra_api_version = None, ra_fetched_at = ''t'',
      ra_payload = JNull, ra_content_hash = None\<rparr>"

definition sample_fetch :: "bool \<Rightarrow> fetch_result" where
  "sample_fetch complete =
     \<lparr>fe_records = [sample_record], fe_watermark = Some ''2030-01-01T00:00:00.000Z'', fe_complete = complete,
      fe_error = None\<rparr>"

definition sample_src :: "fetch_result result \<Rightarrow> source" where
  "sample_src fetched =
     \<lparr>src_descriptor = sample_source, src_fetch = (\<lambda>_. fetched), src_fetch_refresh = None,
      src_fetch_commit_files = None, src_normalize = (\<lambda>_. Inr (Some sample_bundle)), src_version = ''v1''\<rparr>"

definition sample_opts :: "bool \<Rightarrow> sync_options" where
  "sample_opts dry =
     \<lparr>op_full = True, op_dry_run = dry, op_ci_refresh_grace_ms = None, op_ci_refresh_limit = None,
      op_commit_files_limit = None, op_commit_files_lookback_ms = None,
      op_telemetry = \<lparr>tm_requests = None, tm_cost = None, tm_cost_unknown = None\<rparr>\<rparr>"

definition sample_clock :: clock where
  "sample_clock =
     \<lparr>ck_started = ''2024-03-05T00:00:00.000Z'', ck_swept = ''2024-03-05T00:00:01.000Z'',
      ck_finished = ''2024-03-05T00:00:02.000Z'', ck_files = ''2024-03-05T00:00:03.000Z''\<rparr>"

definition sample_run :: "fetch_result result \<Rightarrow> bool \<Rightarrow> sync_report result \<times> store" where
  "sample_run fetched dry =
     syncSource date_parse (sample_src fetched) None (sample_opts dry) sample_clock (open_store [])"

lemma sample_run_ok:
  "case fst (sample_run (Inr (sample_fetch True)) False) of
     Inr rep \<Rightarrow> sr_status rep = Run_Ok \<and> sr_watermark rep = Some ''2024-03-05T00:00:00.000Z''
   | Inl _ \<Rightarrow> False"
  by code_simp

lemma sample_run_failed:
  "case fst (sample_run (Inl ''no network'') False) of Inr rep \<Rightarrow> sr_status rep = Run_Error | Inl _ \<Rightarrow> False"
  by code_simp

lemma sample_obtain:
  assumes "case fst p of Inr rep \<Rightarrow> P rep | Inl _ \<Rightarrow> False"
  obtains rep s' where "p = (Inr rep, s')" and "P rep"
  using assms by (cases p) (auto split: sum.splits)

lemma open_store_ok: "keys_ok (st_db (open_store fs)) \<and> references_ok (st_db (open_store fs))"
  by (simp add: open_store_def keys_ok_def references_ok_def empty_db_def id_table_empty jsmap_simps jm_values_def)

section \<open>Witnesses\<close>

text \<open>A partial sweep of a store that holds a live item.\<close>

definition sample_store :: store where
  "sample_store = snd (sample_run (Inr (sample_fetch True)) False)"

theorem no_deletion_without_complete_sweep_witness:
  "live_since (st_db sample_store)
     (st_db (snd (syncSource date_parse (sample_src (Inr (sample_fetch False))) None (sample_opts False)
        sample_clock sample_store))) \<and>
   length (live_items (st_db sample_store)) = 1"
proof
  show "length (live_items (st_db sample_store)) = 1" by code_simp
qed (rule no_deletion_without_complete_sweep, simp add: sample_src_def sample_fetch_def)

theorem failed_run_changes_no_content_witness:
  "same_content (st_db (open_store [])) (st_db (snd (sample_run (Inl ''no network'') False)))"
proof -
  obtain rep s' where r: "sample_run (Inl ''no network'') False = (Inr rep, s')" and "sr_status rep = Run_Error"
    using sample_run_failed by (rule sample_obtain)
  then have "same_content (st_db (open_store [])) (st_db s')"
    by (intro failed_run_changes_no_content [OF r [unfolded sample_run_def]]) auto
  with r show ?thesis by simp
qed

theorem dry_run_writes_nothing_witness:
  "st_db (snd (sample_run (Inr (sample_fetch True)) True)) = st_db (open_store [])"
  unfolding sample_run_def by (rule dry_run_writes_nothing) (simp add: sample_opts_def)

theorem watermark_after_run_witness:
  "getWatermark ''gh'' (st_db (snd (sample_run (Inr (sample_fetch True)) False))) = Some ''2024-03-05T00:00:00.000Z''"
proof -
  obtain rep s' where r: "sample_run (Inr (sample_fetch True)) False = (Inr rep, s')"
    and ok: "sr_status rep = Run_Ok \<and> sr_watermark rep = Some ''2024-03-05T00:00:00.000Z''"
    using sample_run_ok by (rule sample_obtain)
  show ?thesis
    using watermark_after_run [OF r [unfolded sample_run_def]] r ok
    by (simp add: sample_src_def sample_source_def sample_opts_def)
qed

theorem complete_sweep_deletes_unseen_witness:
  "swept ''gh'' ''2024-03-05T00:00:00.000Z'' (st_db sample_store)"
proof -
  obtain rep s' where r: "sample_run (Inr (sample_fetch True)) False = (Inr rep, s')"
    and ok: "sr_status rep = Run_Ok \<and> sr_watermark rep = Some ''2024-03-05T00:00:00.000Z''"
    using sample_run_ok by (rule sample_obtain)
  show ?thesis
    using complete_sweep_deletes_unseen [OF r [unfolded sample_run_def] conjunct1 [OF ok]] r
    by (simp add: sample_store_def sample_opts_def sample_src_def sample_source_def sample_clock_def)
qed

theorem engine_keeps_cache_coherent_witness: "settled date_parse sample_store"
  unfolding sample_store_def sample_run_def
proof (rule engine_keeps_cache_coherent)
  show "nul_free (sample_src (Inr (sample_fetch True)))"
    by (auto simp: nul_free_def sample_src_def sample_bundle_def sample_activity_def)
qed (rule settled_open)

end
