(* ===== verification/Sync_Runner.thy ===== *)
theory Sync_Runner
  imports Sync_Witnesses
begin

text \<open>
  The sync runner (\<open>src/sync-runner.ts\<close>): all sources of one run in order, under the writer lease,
  with the contract published after each committed leg.  Publishing is a parameter: a function that
  may throw; the clock readings of each leg are inputs.  Tokens and mint failures come from
  \<open>src/auth.ts\<close> and are inputs of \<open>prepare_source\<close>.
\<close>

section \<open>Results\<close>

datatype leg_status = Done run_status | Skipped_Leg | Pending_Leg

record leg_result =
  lr_source_id :: string
  lr_status :: leg_status
  lr_items :: nat
  lr_edges :: nat
  lr_activities :: nat
  lr_telemetry :: telemetry
  lr_soft_deleted :: nat
  lr_soft_deleted_edges :: nat
  lr_error :: "string option"

record run_totals =
  to_items :: nat
  to_edges :: nat
  to_activities :: nat
  to_soft_deleted :: nat
  to_soft_deleted_edges :: nat

datatype coverage_status = Running | Finished run_status

record coverage =
  cv_mode :: run_mode
  cv_source_scope :: "string option"
  cv_status :: coverage_status
  cv_sources :: "(string \<times> leg_status) list"

record run_result =
  ru_status :: leg_status
  ru_sources :: "leg_result list"
  ru_totals :: run_totals
  ru_emitted :: bool
  ru_error :: "string option"

record run_options =
  ro_mode :: run_mode
  ro_dry_run :: bool
  ro_source_id :: "string option"

record prepared_source =
  pp_config_id :: string
  pp_commit_files_per_sweep :: "int option"
  pp_source :: source
  pp_telemetry :: telemetry
  pp_clock :: clock

definition overallStatus :: "leg_result list \<Rightarrow> run_status" where
  "overallStatus sources =
     (if list_ex (\<lambda>s. lr_status s = Done Run_Error) sources then Run_Error
      else if list_ex (\<lambda>s. lr_status s = Done Run_Partial) sources then Run_Partial
      else Run_Ok)"

definition emptyTotals :: run_totals where
  "emptyTotals = \<lparr>to_items = 0, to_edges = 0, to_activities = 0, to_soft_deleted = 0, to_soft_deleted_edges = 0\<rparr>"

definition add_totals :: "leg_result \<Rightarrow> run_totals \<Rightarrow> run_totals" where
  "add_totals r acc =
     \<lparr>to_items = to_items acc + lr_items r, to_edges = to_edges acc + lr_edges r,
      to_activities = to_activities acc + lr_activities r,
      to_soft_deleted = to_soft_deleted acc + lr_soft_deleted r,
      to_soft_deleted_edges = to_soft_deleted_edges acc + lr_soft_deleted_edges r\<rparr>"

definition no_telemetry :: telemetry where
  "no_telemetry = \<lparr>tm_requests = None, tm_cost = None, tm_cost_unknown = None\<rparr>"

definition bare_result :: "leg_status \<Rightarrow> string option \<Rightarrow> string \<Rightarrow> leg_result" where
  "bare_result st err sid =
     \<lparr>lr_source_id = sid, lr_status = st, lr_items = 0, lr_edges = 0, lr_activities = 0,
      lr_telemetry = no_telemetry, lr_soft_deleted = 0, lr_soft_deleted_edges = 0, lr_error = err\<rparr>"

definition leg_of_report :: "sync_report \<Rightarrow> leg_result" where
  "leg_of_report rep =
     \<lparr>lr_source_id = sr_source_id rep, lr_status = Done (sr_status rep), lr_items = sr_items_seen rep,
      lr_edges = sr_edges_seen rep, lr_activities = sr_activities_seen rep, lr_telemetry = sr_telemetry rep,
      lr_soft_deleted = sr_soft_deleted rep, lr_soft_deleted_edges = sr_soft_deleted_edges rep,
      lr_error = sr_error rep\<rparr>"

section \<open>Publishing\<close>

text \<open>
  The local variables of a run.  \<open>rv_emits\<close> lists the calls of \<open>emit\<close> with their outcome, \<open>rv_progress\<close>
  the reports to the progress hook.
\<close>

record run_vars =
  rv_results :: "leg_result list"
  rv_emitted :: bool
  rv_emit_error :: "string option"
  rv_committed :: bool
  rv_emits :: "(coverage \<times> bool) list"
  rv_progress :: "(leg_result list \<times> string option \<times> bool) list"

type_synonym emitter = "store \<Rightarrow> coverage \<Rightarrow> string option"

definition coverage_of :: "run_options \<Rightarrow> prepared_source list \<Rightarrow> bool \<Rightarrow> leg_result list \<Rightarrow> coverage" where
  "coverage_of opts prepared running results =
     (let completed = map lr_source_id results in
      \<lparr>cv_mode = ro_mode opts, cv_source_scope = ro_source_id opts,
       cv_status = (if running then Running else Finished (overallStatus results)),
       cv_sources = map (\<lambda>r. (lr_source_id r, lr_status r)) results @
         map (\<lambda>p. (pp_config_id p, Pending_Leg)) (filter (\<lambda>p. pp_config_id p \<notin> set completed) prepared)\<rparr>)"

definition publish ::
  "emitter option \<Rightarrow> run_options \<Rightarrow> prepared_source list \<Rightarrow> bool \<Rightarrow> store \<Rightarrow> run_vars \<Rightarrow> run_vars" where
  "publish emit opts prepared running s v =
     (case emit of
        None \<Rightarrow> v
      | Some em \<Rightarrow>
          if ro_dry_run opts \<or>
             (\<not> rv_committed v \<and> (prepared \<noteq> [] \<or> overallStatus (rv_results v) = Run_Error))
          then v
          else
            (let cov = coverage_of opts prepared running (rv_results v) in
             case em s cov of
               None \<Rightarrow> v\<lparr>rv_emitted := True, rv_emit_error := None, rv_emits := rv_emits v @ [(cov, True)]\<rparr>
             | Some e \<Rightarrow> v\<lparr>rv_emit_error := Some (''contract emit failed: '' @ e),
                             rv_emits := rv_emits v @ [(cov, False)]\<rparr>))"

section \<open>The legs\<close>

definition DEFAULT_COMMIT_FILES_PER_SWEEP :: int where
  "DEFAULT_COMMIT_FILES_PER_SWEEP = 50"

definition commitFilesPerSweep :: "int option \<Rightarrow> int" where
  "commitFilesPerSweep value =
     (case value of
        Some n \<Rightarrow> if 0 \<le> n then n else DEFAULT_COMMIT_FILES_PER_SWEEP
      | None \<Rightarrow> DEFAULT_COMMIT_FILES_PER_SWEEP)"

definition leg_options :: "run_options \<Rightarrow> prepared_source \<Rightarrow> sync_options" where
  "leg_options opts p =
     \<lparr>op_full = (ro_mode opts = Full_Run), op_dry_run = ro_dry_run opts, op_ci_refresh_grace_ms = None,
      op_ci_refresh_limit = None, op_commit_files_limit = Some (commitFilesPerSweep (pp_commit_files_per_sweep p)),
      op_commit_files_lookback_ms = None, op_telemetry = pp_telemetry p\<rparr>"

definition previous_watermark :: "run_options \<Rightarrow> prepared_source \<Rightarrow> string option act" where
  "previous_watermark opts p =
     (if ro_mode opts = Full_Run then act_return None else query (getWatermark (pp_config_id p)))"

definition report_progress :: "string option \<Rightarrow> run_vars \<Rightarrow> run_vars" where
  "report_progress active v = v\<lparr>rv_progress := rv_progress v @ [(rv_results v, active, rv_emitted v)]\<rparr>"

definition after_leg :: "sync_report \<Rightarrow> run_vars \<Rightarrow> run_vars" where
  "after_leg rep v =
     v\<lparr>rv_results := rv_results v @ [leg_of_report rep],
       rv_committed := (rv_committed v \<or> sr_status rep \<noteq> Run_Error)\<rparr>"

text \<open>The loop over the legs; a throw ends it.\<close>

fun run_legs ::
  "(string \<Rightarrow> int option) \<Rightarrow> emitter option \<Rightarrow> run_options \<Rightarrow> prepared_source list \<Rightarrow> prepared_source list \<Rightarrow>
   run_vars \<Rightarrow> store \<Rightarrow> string option \<times> run_vars \<times> store"
where
  "run_legs jd emit opts prepared [] v s = (None, v, s)"
| "run_legs jd emit opts prepared (p # ps) v s =
     (case previous_watermark opts p s of
        (Inl e, s0) \<Rightarrow> (Some e, v, s0)
      | (Inr prev, s0) \<Rightarrow>
          (let v0 = report_progress (Some (pp_config_id p)) v in
           case syncSource jd (pp_source p) prev (leg_options opts p) (pp_clock p) s0 of
             (Inl e, s') \<Rightarrow> (Some e, v0, s')
           | (Inr rep, s') \<Rightarrow>
               (let v1 = after_leg rep v0;
                    v2 = (if ps \<noteq> [] then publish emit opts prepared True s' v1 else v1)
                in run_legs jd emit opts prepared ps (report_progress None v2) s')))"

section \<open>A run\<close>

record world =
  wo_store :: store
  wo_handle :: lease_handle
  wo_lock :: "nat option"

definition initial_vars :: "string list \<Rightarrow> leg_result list \<Rightarrow> run_vars" where
  "initial_vars skipped errored =
     \<lparr>rv_results = map (bare_result Skipped_Leg None) skipped @ errored, rv_emitted = False,
      rv_emit_error = None, rv_committed = False, rv_emits = [], rv_progress = []\<rparr>"

definition run_summary :: "run_vars \<Rightarrow> run_result" where
  "run_summary v =
     (let status = overallStatus (rv_results v) in
      \<lparr>ru_status = (case rv_emit_error v of Some _ \<Rightarrow> Done Run_Error | None \<Rightarrow> Done status),
       ru_sources = rv_results v,
       ru_totals = fold add_totals (rv_results v) emptyTotals,
       ru_emitted = rv_emitted v,
       ru_error = nullish (rv_emit_error v)
         (if status = Run_Error then Some ''one or more sources failed to sync'' else None)\<rparr>)"

definition skipped_run :: run_result where
  "skipped_run = \<lparr>ru_status = Skipped_Leg, ru_sources = [], ru_totals = emptyTotals, ru_emitted = False, ru_error = None\<rparr>"

definition locked_run ::
  "(string \<Rightarrow> int option) \<Rightarrow> prepared_source list \<Rightarrow> string list \<Rightarrow> run_options \<Rightarrow> emitter option \<Rightarrow>
   leg_result list \<Rightarrow> store \<Rightarrow> run_result result \<times> run_vars \<times> store"
where
  "locked_run jd prepared skipped opts emit errored s =
     (case run_legs jd emit opts prepared prepared (initial_vars skipped errored) s of
        (Some e, v, s') \<Rightarrow> (Inl e, v, s')
      | (None, v, s') \<Rightarrow>
          (let v' = publish emit opts prepared False s' v in
           (Inr (run_summary v'), v', s')))"

definition executeSyncRun ::
  "(string \<Rightarrow> int option) \<Rightarrow> prepared_source list \<Rightarrow> string list \<Rightarrow> run_options \<Rightarrow> emitter option \<Rightarrow>
   leg_result list \<Rightarrow> world \<Rightarrow> run_result result \<times> (coverage \<times> bool) list \<times> world"
where
  "executeSyncRun jd prepared skipped opts emit errored w =
     (let (got, h, lk) = (if ro_dry_run opts then (True, wo_handle w, wo_lock w)
                          else acquireWriterLease (wo_handle w) (wo_lock w)) in
      if \<not> got then (Inr skipped_run, [], w)
      else
        (case locked_run jd prepared skipped opts emit errored (wo_store w) of
           (r, v, s) \<Rightarrow>
             (let (h', lk') = (if ro_dry_run opts then (h, lk) else releaseWriterLease h lk) in
              (r, rv_emits v, w\<lparr>wo_store := s, wo_handle := h', wo_lock := lk'\<rparr>))))"

section \<open>Preparing the sources\<close>

text \<open>What configuration and authentication say of one configured source.\<close>

record source_auth =
  sa_source_id :: string
  sa_enabled :: bool
  sa_kind :: string
  sa_tokens :: nat
  sa_project_tokens :: "nat list"
  sa_mint_failure :: "string option"

datatype prepared_leg = Leg_Skipped string | Leg_Errored leg_result | Leg_Ready source_auth

definition prepare_source :: "source_auth \<Rightarrow> prepared_leg" where
  "prepare_source sc =
     (if \<not> sa_enabled sc then Leg_Skipped (sa_source_id sc)
      else case sa_mint_failure sc of
          Some f \<Rightarrow> if f = [] then
              (if 0 < sa_tokens sc \<or> (sa_kind sc = ''github'' \<and> list_ex (\<lambda>n. 0 < n) (sa_project_tokens sc))
               then Leg_Ready sc else Leg_Skipped (sa_source_id sc))
            else Leg_Errored (bare_result (Done Run_Error)
              (Some (''GitHub App token mint failed with no usable fallback token: '' @ f)) (sa_source_id sc))
        | None \<Rightarrow>
            if 0 < sa_tokens sc \<or> (sa_kind sc = ''github'' \<and> list_ex (\<lambda>n. 0 < n) (sa_project_tokens sc))
            then Leg_Ready sc else Leg_Skipped (sa_source_id sc))"

definition in_scope :: "string option \<Rightarrow> source_auth \<Rightarrow> bool" where
  "in_scope sid sc \<longleftrightarrow> (case sid of None \<Rightarrow> True | Some s \<Rightarrow> s = [] \<or> sa_source_id sc = s)"

fun prepare_all ::
  "string option \<Rightarrow> source_auth list \<Rightarrow> source_auth list \<times> string list \<times> leg_result list" where
  "prepare_all sid [] = ([], [], [])"
| "prepare_all sid (sc # scs) =
     (let (ready, skipped, errored) = prepare_all sid scs in
      if \<not> in_scope sid sc then (ready, skipped, errored)
      else (case prepare_source sc of
              Leg_Skipped i \<Rightarrow> (ready, i # skipped, errored)
            | Leg_Errored r \<Rightarrow> (ready, skipped, r # errored)
            | Leg_Ready c \<Rightarrow> (c # ready, skipped, errored)))"

section \<open>What a run reports\<close>



text \<open>
  What the legs of a run report when each runs on the store the one before it left: the reports in order, up to
  the first leg that throws.  Publishing and progress have no part in it.
\<close>

fun leg_reports :: "(string \<Rightarrow> int option) \<Rightarrow> run_options \<Rightarrow> prepared_source list \<Rightarrow> store \<Rightarrow> sync_report list" where
  "leg_reports jd opts [] s = []"
| "leg_reports jd opts (p # ps) s =
     (case previous_watermark opts p s of
        (Inl e, s0) \<Rightarrow> []
      | (Inr prev, s0) \<Rightarrow>
          (case syncSource jd (pp_source p) prev (leg_options opts p) (pp_clock p) s0 of
             (Inl e, s') \<Rightarrow> []
           | (Inr rep, s') \<Rightarrow> rep # leg_reports jd opts ps s'))"

text \<open>The worst of some statuses, by rank; a leg that was skipped or is pending counts as a success.\<close>

fun severity :: "run_status \<Rightarrow> nat" where
  "severity Run_Ok = 0"
| "severity Run_Partial = 1"
| "severity Run_Error = 2"

definition worse :: "run_status \<Rightarrow> run_status \<Rightarrow> run_status" where
  "worse a b = (if severity a < severity b then b else a)"

fun worst :: "leg_status list \<Rightarrow> run_status" where
  "worst [] = Run_Ok"
| "worst (Done st # sts) = worse st (worst sts)"
| "worst (_ # sts) = worst sts"

definition stored :: "sync_report list \<Rightarrow> bool" where
  "stored reps \<longleftrightarrow> (\<exists>rep \<in> set reps. sr_status rep \<noteq> Run_Error)"




definition base_results :: "string list \<Rightarrow> leg_result list \<Rightarrow> leg_result list" where
  "base_results skipped errored = map (bare_result Skipped_Leg None) skipped @ errored"

lemma worse_iff:
  "worse a b = Run_Error \<longleftrightarrow> a = Run_Error \<or> b = Run_Error" "worse a b = Run_Ok \<longleftrightarrow> a = Run_Ok \<and> b = Run_Ok"
  by (cases a; cases b; simp add: worse_def)+

lemma worst_error: "worst sts = Run_Error \<longleftrightarrow> Done Run_Error \<in> set sts"
  by (induction sts rule: worst.induct) (auto simp: worse_iff)

lemma worst_ok: "worst sts = Run_Ok \<longleftrightarrow> Done Run_Error \<notin> set sts \<and> Done Run_Partial \<notin> set sts"
  by (induction sts rule: worst.induct) (auto simp: worse_iff intro: run_status.exhaust)

lemma overallStatus_worst: "overallStatus rs = worst (map lr_status rs)"
proof -
  have "list_ex (\<lambda>s. lr_status s = x) rs \<longleftrightarrow> x \<in> set (map lr_status rs)" for x by (induction rs) auto
  then show ?thesis
    using worst_error [of "map lr_status rs"] worst_ok [of "map lr_status rs"]
    by (cases "worst (map lr_status rs)") (simp_all only: overallStatus_def if_True if_False run_status.distinct simp_thms)
qed





section \<open>The loop over the legs\<close>





text \<open>What the variables of a run say when the legs of \<open>reps\<close> have run.\<close>

definition vars_say :: "string list \<Rightarrow> leg_result list \<Rightarrow> sync_report list \<Rightarrow> run_vars \<Rightarrow> bool" where
  "vars_say skipped errored reps v \<longleftrightarrow>
     rv_results v = base_results skipped errored @ map leg_of_report reps
     \<and> (rv_committed v \<longleftrightarrow> stored reps)
     \<and> (rv_emitted v \<longleftrightarrow> (\<exists>e \<in> set (rv_emits v). snd e))
     \<and> (rv_emit_error v \<noteq> None \<longleftrightarrow> rv_emits v \<noteq> [] \<and> \<not> snd (last (rv_emits v)))"

lemma publish_says:
  "vars_say skipped errored reps v \<Longrightarrow> vars_say skipped errored reps (publish emit opts prepared running s v)"
  by (auto simp: vars_say_def publish_def Let_def split: option.split)


lemma after_leg_says:
  "vars_say skipped errored reps v \<Longrightarrow> vars_say skipped errored (reps @ [rep]) (after_leg rep v)"
  by (auto simp: vars_say_def after_leg_def stored_def)

lemma progress_says [simp]: "vars_say skipped errored reps (report_progress a v) \<longleftrightarrow> vars_say skipped errored reps v"
  by (simp add: vars_say_def report_progress_def)


lemma legs_vars:
  assumes "run_legs jd emit opts prepared ps v s = (e, v', s')" and "vars_say skipped errored reps v"
  shows "vars_say skipped errored (reps @ leg_reports jd opts ps s) v' \<and> (e = None \<longleftrightarrow> length (leg_reports jd opts ps s) = length ps)"
  using assms
proof (induction ps arbitrary: reps v s)
  case (Cons p ps)
  obtain r s0 where w: "previous_watermark opts p s = (r, s0)" by fastforce
  show ?case
  proof (cases r)
    case (Inl e')
    with Cons.prems w show ?thesis by auto
  next
    case (Inr prev)
    let ?v0 = "report_progress (Some (pp_config_id p)) v"
    obtain q s1 where y: "syncSource jd (pp_source p) prev (leg_options opts p) (pp_clock p) s0 = (q, s1)" by fastforce
    show ?thesis
    proof (cases q)
      case (Inl e')
      with Cons.prems w Inr y show ?thesis by auto
    next
      case rep: (Inr rep)
      let ?v2 = "if ps \<noteq> [] then publish emit opts prepared True s1 (after_leg rep ?v0) else after_leg rep ?v0"
      have "vars_say skipped errored (reps @ [rep]) (after_leg rep ?v0)" using Cons.prems(2) by (simp add: after_leg_says)
      then have "vars_say skipped errored (reps @ [rep]) (report_progress None ?v2)" using publish_says by simp
      moreover have "run_legs jd emit opts prepared ps (report_progress None ?v2) s1 = (e, v', s')"
        using Cons.prems(1) w Inr y rep by (simp add: Let_def)
      ultimately show ?thesis using Cons.IH [of "report_progress None ?v2" s1 "reps @ [rep]"] w Inr y rep by simp
    qed
  qed
qed simp

lemma initial_vars_say: "vars_say skipped errored [] (initial_vars skipped errored)"
  by (simp add: vars_say_def initial_vars_def base_results_def stored_def)

lemma locked_run_says:
  assumes "locked_run jd prepared skipped opts emit errored s = (Inr res, v, s')"
  shows "res = run_summary v \<and> vars_say skipped errored (leg_reports jd opts prepared s) v
    \<and> length (leg_reports jd opts prepared s) = length prepared"
proof -
  obtain e v0 s0 where l: "run_legs jd emit opts prepared prepared (initial_vars skipped errored) s = (e, v0, s0)"
    by (cases "run_legs jd emit opts prepared prepared (initial_vars skipped errored) s")
  then have "e = None" "v = publish emit opts prepared False s0 v0" "res = run_summary v"
    using assms by (auto simp: locked_run_def Let_def split: option.splits)
  then show ?thesis using legs_vars [OF l initial_vars_say] publish_says by auto
qed


lemma executeSyncRun_cases:
  assumes "executeSyncRun jd prepared skipped opts emit errored w = (r, em, w')"
  obtains "r = Inr skipped_run" "em = []" "w' = w"
  | v where "locked_run jd prepared skipped opts emit errored (wo_store w) = (r, v, wo_store w')"
      and "em = rv_emits v"
  using assms
  by (auto simp: executeSyncRun_def split: prod.splits if_splits)


lemma fold_totals:
  "fold add_totals rs t =
     \<lparr>to_items = to_items t + sum_list (map lr_items rs), to_edges = to_edges t + sum_list (map lr_edges rs),
      to_activities = to_activities t + sum_list (map lr_activities rs),
      to_soft_deleted = to_soft_deleted t + sum_list (map lr_soft_deleted rs),
      to_soft_deleted_edges = to_soft_deleted_edges t + sum_list (map lr_soft_deleted_edges rs)\<rparr>"
  by (induction rs arbitrary: t) (simp_all add: add_totals_def)

text \<open>
  Claim C10. A run that was not refused and returns reports one result per source, in order - the skipped
  ones, those that failed before the fetch, and of every leg what its own report says - with totals that are the sums
  over all of them, and the worst of their statuses, or an error where the last attempt to publish failed.  It has an
  error message exactly when its status is an error, and says it published exactly when an attempt succeeded.
\<close>

theorem run_result_is_faithful:
  assumes "executeSyncRun jd prepared skipped opts emit errored w = (Inr res, em, w')"
    and "ro_dry_run opts \<or> fst (acquireWriterLease (wo_handle w) (wo_lock w))"
  defines "reps \<equiv> leg_reports jd opts prepared (wo_store w)"
  shows "length reps = length prepared
    \<and> ru_sources res = map (bare_result Skipped_Leg None) skipped @ errored @ map leg_of_report reps
    \<and> ru_totals res =
        \<lparr>to_items = sum_list (map lr_items (ru_sources res)), to_edges = sum_list (map lr_edges (ru_sources res)),
         to_activities = sum_list (map lr_activities (ru_sources res)),
         to_soft_deleted = sum_list (map lr_soft_deleted (ru_sources res)),
         to_soft_deleted_edges = sum_list (map lr_soft_deleted_edges (ru_sources res))\<rparr>
    \<and> ru_status res = Done (if em \<noteq> [] \<and> \<not> snd (last em) then Run_Error else worst (map lr_status (ru_sources res)))
    \<and> (ru_error res \<noteq> None \<longleftrightarrow> ru_status res = Done Run_Error)
    \<and> (ru_emitted res \<longleftrightarrow> (\<exists>e \<in> set em. snd e))"
proof -
  obtain v s' where "locked_run jd prepared skipped opts emit errored (wo_store w) = (Inr res, v, s')" and em: "em = rv_emits v"
    using assms(1,2) by (fastforce simp: executeSyncRun_def split: prod.splits if_splits)
  then have res: "res = run_summary v" and v: "vars_say skipped errored reps v" and len: "length reps = length prepared"
    using locked_run_says by (auto simp: reps_def)
  have failed: "rv_emit_error v \<noteq> None \<longleftrightarrow> em \<noteq> [] \<and> \<not> snd (last em)" using v by (simp add: vars_say_def em)
  show ?thesis
  proof (intro conjI)
    show "ru_status res = Done (if em \<noteq> [] \<and> \<not> snd (last em) then Run_Error else worst (map lr_status (ru_sources res)))"
      using failed by (auto simp: res run_summary_def overallStatus_worst Let_def split: option.split)
    show "ru_error res \<noteq> None \<longleftrightarrow> ru_status res = Done Run_Error"
      by (auto simp: res run_summary_def Let_def nullish_def split: option.split)
    show "ru_emitted res \<longleftrightarrow> (\<exists>e \<in> set em. snd e)" using v by (simp add: res run_summary_def Let_def vars_say_def em)
  qed (use v len in \<open>simp_all add: res run_summary_def Let_def vars_say_def base_results_def fold_totals emptyTotals_def\<close>)
qed

section \<open>The writer lease\<close>

text \<open>Several handles on one database file take and return the lease in any order.\<close>

inductive lease_reach :: "(nat \<Rightarrow> lease_handle) \<Rightarrow> nat option \<Rightarrow> bool" where
  start: "(\<And>i. lh_id (hs i) = i \<and> \<not> lh_lease (hs i) \<and> \<not> lh_memory (hs i)) \<Longrightarrow> lease_reach hs None"
| acquire: "lease_reach hs lk \<Longrightarrow> acquireWriterLease (hs i) lk = (got, h, lk') \<Longrightarrow> lease_reach (hs(i := h)) lk'"
| release: "lease_reach hs lk \<Longrightarrow> releaseWriterLease (hs i) lk = (h, lk') \<Longrightarrow> lease_reach (hs(i := h)) lk'"

inductive_cases lease_reachE: "lease_reach hs lk"

lemma lease_inv:
  "lease_reach hs lk \<Longrightarrow> \<forall>i. lh_id (hs i) = i \<and> \<not> lh_memory (hs i) \<and> (lh_lease (hs i) \<longleftrightarrow> lk = Some i)"
proof (induction rule: lease_reach.induct)
  case (start hs)
  then show ?case by simp
next
  case (acquire hs lk i got h lk')
  then show ?case by (auto simp: acquireWriterLease_def split: if_splits option.splits)
next
  case (release hs lk i h lk')
  then show ?case by (auto simp: releaseWriterLease_def split: if_splits)
qed

text \<open>
  Claim C11. However the writers of one database take and return the lease, two of them never hold it
  at once, and one is granted it exactly when no other has it.
\<close>

theorem writer_lease_exclusive:
  assumes "lease_reach hs lk"
  shows "(lh_lease (hs i) \<and> lh_lease (hs j) \<longrightarrow> i = j) \<and>
    (fst (acquireWriterLease (hs i) lk) \<longleftrightarrow> (\<forall>j. j \<noteq> i \<longrightarrow> \<not> lh_lease (hs j)))"
proof -
  note inv = lease_inv [OF assms, rule_format]
  have "fst (acquireWriterLease (hs i) lk) \<longleftrightarrow> lk = None \<or> lk = Some i"
    using inv [of i] by (auto simp: acquireWriterLease_def split: option.splits)
  also have "\<dots> \<longleftrightarrow> (\<forall>j. j \<noteq> i \<longrightarrow> \<not> lh_lease (hs j))"
    using inv by (cases lk) auto
  finally show ?thesis using inv by (metis option.inject)
qed

text \<open>
  A run leaves the lease as it found it, whether it succeeds, throws, is a dry run or is
  refused; and a run that finds the lease with another writer does nothing at all.
\<close>

theorem run_returns_the_lease:
  assumes "executeSyncRun jd prepared skipped opts emit errored w = (r, em, w')"
    and "\<not> lh_lease (wo_handle w)"
  shows "lh_lease (wo_handle w') = False \<and> wo_lock w' = wo_lock w \<and>
    (wo_lock w \<noteq> None \<and> \<not> lh_memory (wo_handle w) \<and> \<not> ro_dry_run opts \<longrightarrow>
       r = Inr skipped_run \<and> em = [] \<and> w' = w)"
  using assms
  by (auto simp: executeSyncRun_def acquireWriterLease_def releaseWriterLease_def
      split: prod.splits if_splits option.splits)

section \<open>A concrete run\<close>

definition sample_prepared :: "prepared_source list" where
  "sample_prepared =
     [\<lparr>pp_config_id = ''gh'', pp_commit_files_per_sweep = Some 0, pp_source = sample_src (Inr (sample_fetch True)),
       pp_telemetry = no_telemetry, pp_clock = sample_clock\<rparr>]"

definition sample_world :: world where
  "sample_world =
     \<lparr>wo_store = open_store [], wo_handle = \<lparr>lh_id = 1, lh_memory = False, lh_lease = False\<rparr>, wo_lock = None\<rparr>"

definition sample_sync :: "bool \<Rightarrow> run_result result \<times> (coverage \<times> bool) list \<times> world" where
  "sample_sync dry =
     executeSyncRun date_parse sample_prepared [''off'']
       \<lparr>ro_mode = Full_Run, ro_dry_run = dry, ro_source_id = None\<rparr> (Some (\<lambda>_ _. None)) [] sample_world"

lemma sample_sync_ok:
  "case sample_sync False of
     (Inr res, em, w) \<Rightarrow> ru_status res = Done Run_Ok \<and> length em = 1
   | (Inl _, _, _) \<Rightarrow> False"
  by code_simp

lemma sample_sync_obtain:
  obtains res cov ok w' where "sample_sync False = (Inr res, [(cov, ok)], w')" and "ru_status res = Done Run_Ok"
proof -
  obtain r em w' where s: "sample_sync False = (r, em, w')" by (cases "sample_sync False")
  with sample_sync_ok show thesis
    using that by (auto simp: length_Suc_conv split: sum.splits)
qed



lemma sample_lease: "fst (acquireWriterLease (wo_handle sample_world) (wo_lock sample_world))"
  by code_simp


theorem run_result_is_faithful_witness:
  "case sample_sync False of
     (Inr res, em, w) \<Rightarrow> map lr_source_id (ru_sources res) = [''off'', ''gh''] \<and> ru_status res = Done Run_Ok \<and> ru_error res = None
   | (Inl _, _, _) \<Rightarrow> False"
proof -
  obtain res cov ok w' where s: "sample_sync False = (Inr res, [(cov, ok)], w')" and ok: "ru_status res = Done Run_Ok"
    by (rule sample_sync_obtain)
  have ids: "map sr_source_id (leg_reports date_parse \<lparr>ro_mode = Full_Run, ro_dry_run = False, ro_source_id = None\<rparr> sample_prepared
      (wo_store sample_world)) = [''gh'']"
    by code_simp
  show ?thesis
    using run_result_is_faithful [OF s [unfolded sample_sync_def]] sample_lease s ok ids
    by (auto simp: bare_result_def leg_of_report_def)
qed

theorem writer_lease_exclusive_witness:
  "fst (acquireWriterLease \<lparr>lh_id = 2, lh_memory = False, lh_lease = False\<rparr> (Some 1)) = False"
proof -
  let ?hs = "\<lambda>i. \<lparr>lh_id = i, lh_memory = False, lh_lease = False\<rparr>"
  have a: "acquireWriterLease (?hs 1) None = (True, \<lparr>lh_id = 1, lh_memory = False, lh_lease = True\<rparr>, Some 1)"
    by (simp add: acquireWriterLease_def)
  have "lease_reach (?hs(1 := \<lparr>lh_id = 1, lh_memory = False, lh_lease = True\<rparr>)) (Some 1)"
    by (rule lease_reach.acquire [where i = 1 and hs = ?hs, OF _ a]) (rule lease_reach.start, simp)
  from writer_lease_exclusive [OF this, of 2] show ?thesis by force
qed

theorem run_returns_the_lease_witness: "wo_lock (snd (snd (sample_sync False))) = None"
proof -
  obtain r em w' where s: "sample_sync False = (r, em, w')" by (cases "sample_sync False")
  show ?thesis
    using run_returns_the_lease [OF s [unfolded sample_sync_def]] s by (simp add: sample_world_def)
qed

end
