(* ===== verification/Actionable.thy ===== *)
theory Actionable
  imports Store_Reads Complex_Main
begin

text \<open>
  The actionable-work projection (\<open>src/server/actionable.ts\<close>): every open item of the store goes into
  one bucket, each bucket is ordered and cut.  A date that a sort reads is a JavaScript number, which
  may be \<open>NaN\<close> or infinite.
\<close>

section \<open>Buckets\<close>

datatype bucket_name =
    Ready_To_Merge | Awaiting_Review | Needs_Work | In_Progress | Ready_To_Pick_Up | Draft_Prs | Parked

definition ACTIONABLE_BUCKET_ORDER :: "bucket_name list" where
  "ACTIONABLE_BUCKET_ORDER =
     [Ready_To_Merge, Awaiting_Review, Needs_Work, In_Progress, Ready_To_Pick_Up, Draft_Prs, Parked]"

fun bucket_rank :: "bucket_name \<Rightarrow> nat" where
  "bucket_rank Ready_To_Merge = 0"
| "bucket_rank Awaiting_Review = 1"
| "bucket_rank Needs_Work = 2"
| "bucket_rank In_Progress = 3"
| "bucket_rank Ready_To_Pick_Up = 4"
| "bucket_rank Draft_Prs = 5"
| "bucket_rank Parked = 6"

lemma bucket_rank_inj: "bucket_rank a = bucket_rank b \<longleftrightarrow> a = b"
  by (cases a; cases b) simp_all

instantiation bucket_name :: linorder
begin

definition less_eq_bucket_name :: "bucket_name \<Rightarrow> bucket_name \<Rightarrow> bool" where
  "less_eq_bucket_name a b \<longleftrightarrow> bucket_rank a \<le> bucket_rank b"

definition less_bucket_name :: "bucket_name \<Rightarrow> bucket_name \<Rightarrow> bool" where
  "less_bucket_name a b \<longleftrightarrow> bucket_rank a < bucket_rank b"

instance
  by intro_classes (auto simp: less_eq_bucket_name_def less_bucket_name_def bucket_rank_inj)

end

record actionable_item =
  ai_source_id :: string
  ai_source_kind :: "string option"
  ai_repo :: "string option"
  ai_iid :: "int option"
  ai_kind :: item_kind
  ai_title :: "string option"
  ai_url :: string
  ai_created_at :: "string option"
  ai_updated_at :: "string option"
  ai_labels :: "label list"
  ai_demand :: int
  ai_comments :: "int option"
  ai_is_draft :: "bool option"
  ai_review_state :: "review_state option"
  ai_ci_state :: "ci_state option"
  ai_merge_state :: "merge_state option"
  ai_review_threads :: "(int \<times> int) option"
  ai_bucket :: bucket_name
  ai_flags :: "string list"

record bucket_group =
  bg_bucket :: bucket_name
  bg_total :: nat
  bg_shown :: nat
  bg_more :: nat
  bg_items :: "actionable_item list"

record projection =
  pj_generated_at :: string
  pj_total :: nat
  pj_stale_days :: rat
  pj_include_unconfigured :: bool
  pj_bucket_order :: "bucket_name list"
  pj_buckets :: "bucket_group list"

record projection_input =
  pi_sources :: "(string \<times> source_row \<times> state_row option) list"
  pi_items :: "item_row list"
  pi_labels :: "label_row list"
  pi_edges :: "reconciled_edge list"
  pi_configured :: "(string \<times> string) list option"
  pi_limit :: "nat option"
  pi_stale_days :: "rat option"
  pi_repo :: "string option"
  pi_source :: "string option"
  pi_include_unconfigured :: "bool option"
  pi_now :: int

definition DEFAULT_STALE_DAYS :: rat where
  "DEFAULT_STALE_DAYS = 14"

definition PARK_LABELS :: "string list" where
  "PARK_LABELS =
     [''blocked'', ''wontfix'', ''on-hold'', ''needs-design'', ''wip'', ''do-not-merge'', ''state::blocked'',
      ''state::needs-decision'', ''state::needs-info'', ''state::needs-triage'', TRACKING_LABEL]"

section \<open>One item\<close>

definition byItemId :: "label_row list \<Rightarrow> (nat, label list) jsmap" where
  "byItemId labels = fold (\<lambda>(i, l) m. jm_set i (or_else (jm_get m i) [] @ [l]) m) labels jm_empty"

definition is_park_label :: "label \<Rightarrow> bool" where
  "is_park_label l \<longleftrightarrow> to_lower (js_trim (lb_name l)) \<in> set PARK_LABELS"

definition isParked :: "label list \<Rightarrow> bool" where
  "isParked labels \<longleftrightarrow> list_ex is_park_label labels"

definition isBadMergeState :: "merge_state option \<Rightarrow> bool" where
  "isBadMergeState v \<longleftrightarrow> v = Some Conflicting \<or> v = Some Blocked_Merge"

definition isCiReady :: "ci_state option \<Rightarrow> bool" where
  "isCiReady v \<longleftrightarrow> v = Some Passing \<or> v = Some No_Ci \<or> v = None"

definition hasOpenInboundWork :: "item \<Rightarrow> reconciled_edge list \<Rightarrow> bool" where
  "hasOpenInboundWork i edges \<longleftrightarrow>
     it_kind i = Issue \<and>
     list_ex (\<lambda>e. ed_type e = Closes \<and> re_lifecycle e = Some Declared \<and>
       ep_source (ed_to e) = it_source i \<and> ep_external (ed_to e) = it_external i \<and>
       ed_from_state e = Some Open) edges"

definition bucketFor :: "item \<Rightarrow> label list \<Rightarrow> reconciled_edge list \<Rightarrow> bucket_name" where
  "bucketFor i labels edges =
     (if isParked labels then Parked
      else if it_kind i \<noteq> Change_Request then
        (if hasOpenInboundWork i edges then In_Progress else Ready_To_Pick_Up)
      else if it_is_draft i = Some True then Draft_Prs
      else if it_review_state i = Some Changes_Requested \<or> it_ci_state i = Some Failing \<or>
              isBadMergeState (it_merge_state i) \<or> 0 < or_else (it_open_review_threads i) 0
        then Needs_Work
      else if it_review_state i = Some Approved \<and> isCiReady (it_ci_state i) then Ready_To_Merge
      else Awaiting_Review)"

definition stalenessDays :: "string option \<Rightarrow> int \<Rightarrow> int" where
  "stalenessDays updatedAt nowMs =
     (case updatedAt of
        None \<Rightarrow> 0
      | Some u \<Rightarrow> if u = [] then 0
          else (case date_parse u of None \<Rightarrow> 0 | Some parsed \<Rightarrow> max 0 ((nowMs - parsed) div 86400000)))"

definition is_word_char :: "char \<Rightarrow> bool" where
  "is_word_char c \<longleftrightarrow> is_alnum c \<or> c = CHR ''_''"

definition is_priority_name :: "string \<Rightarrow> bool" where
  "is_priority_name name \<longleftrightarrow>
     starts_with ''priority::'' (map ascii_lower_char name) \<or>
     (case map ascii_lower_char name of
        p # d # rest \<Rightarrow> p = CHR ''p'' \<and> d \<in> set ''0123'' \<and>
          (case rest of [] \<Rightarrow> True | c # _ \<Rightarrow> \<not> is_word_char c)
      | _ \<Rightarrow> False)"

definition is_priority_label :: "label \<Rightarrow> bool" where
  "is_priority_label l \<longleftrightarrow> lb_scope l = Some ''priority'' \<or> is_priority_name (lb_name l)"

fun review_text :: "review_state \<Rightarrow> string" where
  "review_text Approved = ''approved''"
| "review_text Changes_Requested = ''changes_requested''"
| "review_text Review_Required = ''review_required''"

fun ci_text :: "ci_state \<Rightarrow> string" where
  "ci_text Passing = ''passing''"
| "ci_text Failing = ''failing''"
| "ci_text Pending = ''pending''"
| "ci_text No_Ci = ''none''"

fun merge_text :: "merge_state \<Rightarrow> string" where
  "merge_text Mergeable = ''mergeable''"
| "merge_text Conflicting = ''conflicting''"
| "merge_text Blocked_Merge = ''blocked''"
| "merge_text Unknown_Merge = ''unknown''"

definition flag_if :: "'a option \<Rightarrow> ('a \<Rightarrow> string) \<Rightarrow> string list" where
  "flag_if x f = (case x of None \<Rightarrow> [] | Some v \<Rightarrow> [f v])"

definition flagsFor ::
  "item \<Rightarrow> label list \<Rightarrow> bucket_name \<Rightarrow> bool \<Rightarrow> int \<Rightarrow> rat \<Rightarrow> string list" where
  "flagsFor i labels bucket configured nowMs staleDays =
     (let stale = stalenessDays (it_updated_at i) nowMs in
      (if configured then [] else [''unconfigured'']) @
      flag_if (List.find is_priority_label labels) (\<lambda>l. ''priority:'' @ lb_name l) @
      (if staleDays \<le> of_int stale then [''stale:'' @ int_str stale @ ''d''] else []) @
      (if it_is_draft i = Some True then [''draft''] else []) @
      flag_if (it_review_state i) (\<lambda>v. ''review:'' @ review_text v) @
      flag_if (it_ci_state i) (\<lambda>v. ''ci:'' @ ci_text v) @
      flag_if (it_merge_state i) (\<lambda>v. ''merge:'' @ merge_text v) @
      (if it_open_review_threads i = None \<and> it_total_review_threads i = None then []
       else [''threads:'' @ int_str (or_else (it_open_review_threads i) 0) @ ''/'' @
             int_str (or_else (it_total_review_threads i) 0)]) @
      (if bucket = Parked then flag_if (List.find is_park_label labels) (\<lambda>l. ''parked:'' @ lb_name l) else []))"

section \<open>The order within a bucket\<close>

datatype js_num = NaN | Fin int | PosInf

text \<open>The sign of \<open>x - y\<close>; a sort takes \<open>NaN\<close> as zero.\<close>

definition num_diff :: "js_num \<Rightarrow> js_num \<Rightarrow> int" where
  "num_diff x y =
     (case (x, y) of
        (Fin a, Fin b) \<Rightarrow> a - b
      | (PosInf, Fin _) \<Rightarrow> 1
      | (Fin _, PosInf) \<Rightarrow> -1
      | _ \<Rightarrow> 0)"

definition parse_num :: "string \<Rightarrow> js_num" where
  "parse_num t = (case date_parse t of None \<Rightarrow> NaN | Some ms \<Rightarrow> Fin ms)"

definition date_or :: "js_num \<Rightarrow> string option \<Rightarrow> js_num" where
  "date_or d v = (case v of None \<Rightarrow> d | Some t \<Rightarrow> if t = [] then d else parse_num t)"

definition by_date :: "js_num \<Rightarrow> (actionable_item \<Rightarrow> string option) \<Rightarrow> actionable_item \<Rightarrow> actionable_item \<Rightarrow> int" where
  "by_date d f a b =
     (let x = date_or d (f a); y = date_or d (f b) in
      if x = NaN \<or> y = NaN then 0
      else if x \<noteq> y then num_diff x y
      else or_else (ai_iid a) 0 - or_else (ai_iid b) 0)"

definition itemComparator :: "bucket_name \<Rightarrow> actionable_item \<Rightarrow> actionable_item \<Rightarrow> int" where
  "itemComparator bucket a b =
     (if bucket = Ready_To_Pick_Up then
        (if ai_demand a \<noteq> ai_demand b then ai_demand b - ai_demand a
         else by_date PosInf ai_created_at a b)
      else by_date (Fin 0) ai_updated_at a b)"

section \<open>The projection\<close>

definition truthy_differs :: "string option \<Rightarrow> string option \<Rightarrow> bool" where
  "truthy_differs wanted actual = (case wanted of None \<Rightarrow> False | Some w \<Rightarrow> w \<noteq> [] \<and> actual \<noteq> Some w)"

definition is_configured :: "projection_input \<Rightarrow> item_row \<Rightarrow> bool" where
  "is_configured inp row =
     (case pi_configured inp of
        None \<Rightarrow> True
      | Some repos \<Rightarrow> (it_source (ir_item row), it_project_path (ir_item row)) \<in> (\<lambda>(s, p). (s, Some p)) ` set repos)"

definition selected :: "projection_input \<Rightarrow> item_row \<Rightarrow> bool" where
  "selected inp row \<longleftrightarrow>
     it_state (ir_item row) = Open \<and>
     \<not> truthy_differs (pi_repo inp) (it_project_path (ir_item row)) \<and>
     \<not> truthy_differs (pi_source inp) (Some (it_source (ir_item row))) \<and>
     (or_else (pi_include_unconfigured inp) False \<or> is_configured inp row)"

definition to_actionable :: "projection_input \<Rightarrow> item_row \<Rightarrow> actionable_item" where
  "to_actionable inp row =
     (let i = ir_item row;
          labels = or_else (jm_get (byItemId (pi_labels inp)) (ir_item_id row)) [];
          bucket = bucketFor i labels (pi_edges inp)
      in \<lparr>ai_source_id = it_source i,
          ai_source_kind = map_option (\<lambda>(_, s, _). so_kind s)
            (find_last (\<lambda>(sid, _, _). sid = it_source i) (pi_sources inp)),
          ai_repo = it_project_path i, ai_iid = it_iid i, ai_kind = it_kind i, ai_title = it_title i,
          ai_url = it_url i, ai_created_at = it_created_at i, ai_updated_at = it_updated_at i,
          ai_labels = labels, ai_demand = or_else (it_demand i) 0, ai_comments = it_comment_total i,
          ai_is_draft = it_is_draft i, ai_review_state = it_review_state i, ai_ci_state = it_ci_state i,
          ai_merge_state = it_merge_state i,
          ai_review_threads =
            (if it_open_review_threads i = None \<and> it_total_review_threads i = None then None
             else Some (or_else (it_open_review_threads i) 0, or_else (it_total_review_threads i) 0)),
          ai_bucket = bucket,
          ai_flags = flagsFor i labels bucket (is_configured inp row) (pi_now inp)
            (or_else (pi_stale_days inp) DEFAULT_STALE_DAYS)\<rparr>)"

definition candidates_of :: "projection_input \<Rightarrow> actionable_item list" where
  "candidates_of inp = map (to_actionable inp) (filter (selected inp) (pi_items inp))"

definition group_of :: "nat option \<Rightarrow> actionable_item list \<Rightarrow> bucket_name \<Rightarrow> bucket_group" where
  "group_of limit cands bucket =
     (let items = js_sort (itemComparator bucket) (filter (\<lambda>i. ai_bucket i = bucket) cands);
          shown = (case limit of None \<Rightarrow> items | Some n \<Rightarrow> take n items)
      in \<lparr>bg_bucket = bucket, bg_total = length items, bg_shown = length shown,
          bg_more = length items - length shown, bg_items = shown\<rparr>)"

definition buildActionableProjection :: "projection_input \<Rightarrow> projection result" where
  "buildActionableProjection inp =
     (let cands = candidates_of inp in
      rbind (toISOString (Some (pi_now inp))) (\<lambda>generatedAt.
      Inr \<lparr>pj_generated_at = generatedAt, pj_total = length cands,
           pj_stale_days = or_else (pi_stale_days inp) DEFAULT_STALE_DAYS,
           pj_include_unconfigured = or_else (pi_include_unconfigured inp) False,
           pj_bucket_order = ACTIONABLE_BUCKET_ORDER,
           pj_buckets = map (group_of (pi_limit inp) cands) ACTIONABLE_BUCKET_ORDER\<rparr>))"

section \<open>Ordering\<close>

text \<open>The dates of an item can be read, so that the comparator is consistent on it.\<close>

definition dates_ok :: "bucket_name \<Rightarrow> actionable_item \<Rightarrow> bool" where
  "dates_ok b i \<longleftrightarrow>
     (if b = Ready_To_Pick_Up then date_or PosInf (ai_created_at i) \<noteq> NaN
      else date_or (Fin 0) (ai_updated_at i) \<noteq> NaN)"

lemma num_diff_le:
  "x \<noteq> NaN \<Longrightarrow> y \<noteq> NaN \<Longrightarrow> num_diff x y \<le> 0 \<longleftrightarrow> 0 \<le> num_diff y x"
  "x \<noteq> NaN \<Longrightarrow> y \<noteq> NaN \<Longrightarrow> num_diff x y = 0 \<longleftrightarrow> x = y"
  "x \<noteq> NaN \<Longrightarrow> y \<noteq> NaN \<Longrightarrow> z \<noteq> NaN \<Longrightarrow> num_diff x y \<le> 0 \<Longrightarrow> num_diff y z \<le> 0 \<Longrightarrow> num_diff x z \<le> 0"
  by (cases x; cases y; cases z; simp add: num_diff_def)+

definition dated :: "js_num \<Rightarrow> (actionable_item \<Rightarrow> string option) \<Rightarrow> actionable_item \<Rightarrow> bool" where
  "dated d f i \<longleftrightarrow> date_or d (f i) \<noteq> NaN"

lemma comparator_num_diff:
  "comparator (\<lambda>a b. num_diff (date_or d (f a)) (date_or d (f b))) (dated d f)"
  unfolding dated_def by unfold_locales (rule num_diff_le(1), assumption+, rule num_diff_le(3))

lemma comparator_int_diff: "comparator (\<lambda>a b. (g a :: int) - g b) ok"
  by unfold_locales auto

lemma comparator_weaken: "comparator c ok \<Longrightarrow> (\<And>x. ok' x \<Longrightarrow> ok x) \<Longrightarrow> comparator c ok'"
  unfolding comparator_def by blast

lemma comparator_cong:
  "comparator c ok \<Longrightarrow> (\<And>a b. ok a \<Longrightarrow> ok b \<Longrightarrow> c' a b = c a b) \<Longrightarrow> comparator c' ok"
  unfolding comparator_def by metis

lemma comparator_by_date: "comparator (by_date d f) (dated d f)"
proof (rule comparator_cong)
  show "comparator (then_by (\<lambda>a b. num_diff (date_or d (f a)) (date_or d (f b)))
      (\<lambda>a b. or_else (ai_iid a) 0 - or_else (ai_iid b) 0)) (dated d f)"
    by (intro comparator_then_by comparator_num_diff comparator_int_diff)
  fix a b
  assume "dated d f a" "dated d f b"
  then show "by_date d f a b = then_by (\<lambda>a b. num_diff (date_or d (f a)) (date_or d (f b)))
      (\<lambda>a b. or_else (ai_iid a) 0 - or_else (ai_iid b) 0) a b"
    by (auto simp: by_date_def then_by_def dated_def Let_def num_diff_le(2))
qed

interpretation bucket: comparator "itemComparator b" "dates_ok b"
proof (cases "b = Ready_To_Pick_Up")
  case True
  have "comparator (then_by (\<lambda>x y. ai_demand y - ai_demand x) (by_date PosInf ai_created_at)) (dated PosInf ai_created_at)"
    using comparator_descending [OF comparator_int_diff [of ai_demand]]
    by (intro comparator_then_by comparator_by_date) (simp add: descending_def [abs_def])
  then have "comparator (itemComparator b) (dated PosInf ai_created_at)"
    by (rule comparator_cong) (auto simp: True itemComparator_def then_by_def)
  then show "comparator (itemComparator b) (dates_ok b)"
    by (simp add: True dates_ok_def [abs_def] dated_def [abs_def])
next
  case False
  with comparator_by_date [of "Fin 0" ai_updated_at] show "comparator (itemComparator b) (dates_ok b)"
    by (simp add: itemComparator_def [abs_def] dates_ok_def [abs_def] dated_def [abs_def])
qed

section \<open>What the projection shows\<close>

lemma order_distinct: "distinct ACTIONABLE_BUCKET_ORDER" "b \<in> set ACTIONABLE_BUCKET_ORDER"
  by (simp add: ACTIONABLE_BUCKET_ORDER_def) (cases b; simp add: ACTIONABLE_BUCKET_ORDER_def)

lemma sum_filter_partition:
  "distinct bs \<Longrightarrow> set (map f xs) \<subseteq> set bs \<Longrightarrow>
   sum_list (map (\<lambda>b. length (filter (\<lambda>x. f x = b) xs)) bs) = length xs"
proof (induction xs)
  case (Cons x xs)
  have "sum_list (map (\<lambda>b. length (filter (\<lambda>y. f y = b) (x # xs))) bs) =
      sum_list (map (\<lambda>b. (if f x = b then 1 else 0) + length (filter (\<lambda>y. f y = b) xs)) bs)"
    by (rule arg_cong [where f = sum_list]) auto
  also have "\<dots> = sum_list (map (\<lambda>b. if f x = b then 1 else 0) bs) + length xs"
    using Cons by (simp add: sum_list_addf)
  also have "sum_list (map (\<lambda>b. if f x = b then 1 else 0) bs) = (1 :: nat)"
    using Cons.prems by (simp add: sum_list_distinct_conv_sum_set)
  finally show ?case by simp
qed simp

lemma group_simps [simp]:
  "bg_bucket (group_of l c b) = b"
  "bg_total (group_of l c b) = length (filter (\<lambda>i. ai_bucket i = b) c)"
  "bg_shown (group_of l c b) = length (bg_items (group_of l c b))"
  "bg_more (group_of l c b) = bg_total (group_of l c b) - bg_shown (group_of l c b)"
  by (simp_all add: group_of_def Let_def)

lemma group_items:
  "bg_items (group_of l c b) =
     (let items = js_sort (itemComparator b) (filter (\<lambda>i. ai_bucket i = b) c) in
      case l of None \<Rightarrow> items | Some n \<Rightarrow> take n items)"
  by (simp add: group_of_def Let_def)

lemma projection_buckets:
  "buildActionableProjection inp = Inr p \<Longrightarrow>
     pj_buckets p = map (group_of (pi_limit inp) (candidates_of inp)) ACTIONABLE_BUCKET_ORDER \<and>
     pj_total p = length (candidates_of inp)"
  by (auto simp: buildActionableProjection_def Let_def)

section \<open>What the projection has to show\<close>

text \<open>
  The rows that are asked for, the labels of a row, the bucket a row belongs to and the order within a bucket, each
  stated on the rows of the store.
\<close>

definition asked_for :: "string option \<Rightarrow> string option \<Rightarrow> bool" where
  "asked_for filter_value v \<longleftrightarrow> filter_value = None \<or> filter_value = Some [] \<or> v = filter_value"

definition wanted :: "projection_input \<Rightarrow> item_row \<Rightarrow> bool" where
  "wanted inp r \<longleftrightarrow>
     it_state (ir_item r) = Open
     \<and> asked_for (pi_repo inp) (it_project_path (ir_item r))
     \<and> asked_for (pi_source inp) (Some (it_source (ir_item r)))
     \<and> (pi_include_unconfigured inp = Some True
        \<or> (case pi_configured inp of
             None \<Rightarrow> True
           | Some repos \<Rightarrow> \<exists>(source, path) \<in> set repos. it_source (ir_item r) = source \<and> it_project_path (ir_item r) = Some path))"

definition labels_of :: "projection_input \<Rightarrow> item_row \<Rightarrow> label list" where
  "labels_of inp r = map snd (filter (\<lambda>(i, _). i = ir_item_id r) (pi_labels inp))"

definition held_back :: "item \<Rightarrow> bool" where
  "held_back i \<longleftrightarrow>
     it_review_state i = Some Changes_Requested \<or> it_ci_state i = Some Failing
     \<or> it_merge_state i \<in> {Some Conflicting, Some Blocked_Merge} \<or> (case it_open_review_threads i of None \<Rightarrow> False | Some n \<Rightarrow> 0 < n)"

definition worked_on :: "item \<Rightarrow> reconciled_edge list \<Rightarrow> bool" where
  "worked_on i edges \<longleftrightarrow>
     it_kind i = Issue
     \<and> (\<exists>e \<in> set edges. ed_type e = Closes \<and> re_lifecycle e = Some Declared \<and> ed_from_state e = Some Open
          \<and> ep_source (ed_to e) = it_source i \<and> ep_external (ed_to e) = it_external i)"

fun belongs :: "bucket_name \<Rightarrow> item \<Rightarrow> label list \<Rightarrow> reconciled_edge list \<Rightarrow> bool" where
  "belongs Parked i labels edges \<longleftrightarrow> (\<exists>l \<in> set labels. is_park_label l)"
| "belongs In_Progress i labels edges \<longleftrightarrow>
     \<not> (\<exists>l \<in> set labels. is_park_label l) \<and> it_kind i \<noteq> Change_Request \<and> worked_on i edges"
| "belongs Ready_To_Pick_Up i labels edges \<longleftrightarrow>
     \<not> (\<exists>l \<in> set labels. is_park_label l) \<and> it_kind i \<noteq> Change_Request \<and> \<not> worked_on i edges"
| "belongs Draft_Prs i labels edges \<longleftrightarrow>
     \<not> (\<exists>l \<in> set labels. is_park_label l) \<and> it_kind i = Change_Request \<and> it_is_draft i = Some True"
| "belongs Needs_Work i labels edges \<longleftrightarrow>
     \<not> (\<exists>l \<in> set labels. is_park_label l) \<and> it_kind i = Change_Request \<and> it_is_draft i \<noteq> Some True \<and> held_back i"
| "belongs Ready_To_Merge i labels edges \<longleftrightarrow>
     \<not> (\<exists>l \<in> set labels. is_park_label l) \<and> it_kind i = Change_Request \<and> it_is_draft i \<noteq> Some True \<and> \<not> held_back i
     \<and> it_review_state i = Some Approved \<and> it_ci_state i \<in> {None, Some Passing, Some No_Ci}"
| "belongs Awaiting_Review i labels edges \<longleftrightarrow>
     \<not> (\<exists>l \<in> set labels. is_park_label l) \<and> it_kind i = Change_Request \<and> it_is_draft i \<noteq> Some True \<and> \<not> held_back i
     \<and> \<not> (it_review_state i = Some Approved \<and> it_ci_state i \<in> {None, Some Passing, Some No_Ci})"

text \<open>A row whose dates can be read, and the instant of a date that may be missing, as a number.\<close>

definition readable :: "string option \<Rightarrow> bool" where
  "readable v \<longleftrightarrow> (case v of None \<Rightarrow> True | Some t \<Rightarrow> t = [] \<or> date_parse t \<noteq> None)"

definition dates_readable :: "item_row \<Rightarrow> bool" where
  "dates_readable r \<longleftrightarrow> readable (it_created_at (ir_item r)) \<and> readable (it_updated_at (ir_item r))"

definition instant_of :: "string option \<Rightarrow> int option" where
  "instant_of v = Option.bind v date_parse"

text \<open>By demand, then the oldest first and those without a date last; elsewhere the longest untouched first.\<close>

definition iid_le :: "item \<Rightarrow> item \<Rightarrow> bool" where
  "iid_le i j \<longleftrightarrow> or_else (it_iid i) 0 \<le> or_else (it_iid j) 0"

definition older :: "item \<Rightarrow> item \<Rightarrow> bool" where
  "older i j \<longleftrightarrow>
     (case (instant_of (it_created_at i), instant_of (it_created_at j)) of
        (Some a, Some b) \<Rightarrow> a < b \<or> a = b \<and> iid_le i j
      | (Some _, None) \<Rightarrow> True
      | (None, Some _) \<Rightarrow> False
      | (None, None) \<Rightarrow> iid_le i j)"

definition longer_untouched :: "item \<Rightarrow> item \<Rightarrow> bool" where
  "longer_untouched i j \<longleftrightarrow>
     (let a = or_else (instant_of (it_updated_at i)) 0; b = or_else (instant_of (it_updated_at j)) 0
      in a < b \<or> a = b \<and> iid_le i j)"

definition comes_before :: "bucket_name \<Rightarrow> item_row \<Rightarrow> item_row \<Rightarrow> bool" where
  "comes_before b r s \<longleftrightarrow>
     (let i = ir_item r; j = ir_item s in
      if b = Ready_To_Pick_Up then
        or_else (it_demand j) 0 < or_else (it_demand i) 0
        \<or> or_else (it_demand i) 0 = or_else (it_demand j) 0 \<and> older i j
      else longer_untouched i j)"

text \<open>What is shown of a row.\<close>

definition item_facts :: "actionable_item \<Rightarrow> (string \<times> string option \<times> int option \<times> item_kind) \<times> (string option \<times> string) \<times> label list \<times> bucket_name" where
  "item_facts a = ((ai_source_id a, ai_repo a, ai_iid a, ai_kind a), (ai_title a, ai_url a), ai_labels a, ai_bucket a)"

definition row_facts :: "projection_input \<Rightarrow> bucket_name \<Rightarrow> item_row \<Rightarrow> (string \<times> string option \<times> int option \<times> item_kind) \<times> (string option \<times> string) \<times> label list \<times> bucket_name" where
  "row_facts inp b r =
     (let i = ir_item r in ((it_source i, it_project_path i, it_iid i, it_kind i), (it_title i, it_url i), labels_of inp r, b))"

lemma selected_wanted: "selected inp = wanted inp"
  by (rule ext) (auto simp: selected_def wanted_def asked_for_def truthy_differs_def is_configured_def or_else_def split: option.splits)

lemma byItemId_labels: "or_else (jm_get (byItemId ls) i) [] = map snd (filter (\<lambda>(k, _). k = i) ls)"
proof -
  have "or_else (jm_get (fold (\<lambda>(k, l) m. jm_set k (or_else (jm_get m k) [] @ [l]) m) ls m) i) []
      = or_else (jm_get m i) [] @ map snd (filter (\<lambda>(k, _). k = i) ls)" for m
    by (induction ls arbitrary: m) (auto simp: jm_get_set)
  then show ?thesis by (simp add: byItemId_def jm_get_empty)
qed

lemma hasOpenInboundWork_iff: "hasOpenInboundWork i edges \<longleftrightarrow> worked_on i edges"
  by (auto simp: hasOpenInboundWork_def worked_on_def list_ex_iff)

lemma held_back_iff:
  "it_review_state i = Some Changes_Requested \<or> it_ci_state i = Some Failing \<or> isBadMergeState (it_merge_state i)
     \<or> 0 < or_else (it_open_review_threads i) 0 \<longleftrightarrow> held_back i"
  by (cases "it_open_review_threads i") (auto simp: held_back_def isBadMergeState_def)

lemma bucketFor_iff: "bucketFor i labels edges = b \<longleftrightarrow> belongs b i labels edges"
  by (cases b)
    (auto simp: bucketFor_def held_back_iff hasOpenInboundWork_iff isParked_def isCiReady_def list_ex_iff)

lemma to_actionable_facts:
  "ai_bucket (to_actionable inp r) = b \<longleftrightarrow> belongs b (ir_item r) (labels_of inp r) (pi_edges inp)"
  "item_facts (to_actionable inp r) = row_facts inp (ai_bucket (to_actionable inp r)) r"
  by (auto simp: to_actionable_def item_facts_def row_facts_def labels_of_def byItemId_labels bucketFor_iff Let_def)

lemma date_or_readable:
  assumes "readable v"
  shows "date_or d v = (case instant_of v of None \<Rightarrow> d | Some ms \<Rightarrow> Fin ms)"
proof -
  have "date_parse [] = None" by code_simp
  then show ?thesis
    using assms by (auto simp: date_or_def readable_def instant_of_def parse_num_def split: option.splits)
qed

lemma itemComparator_iff:
  assumes "dates_readable r" "dates_readable s"
  shows "itemComparator b (to_actionable inp r) (to_actionable inp s) \<le> 0 \<longleftrightarrow> comes_before b r s"
proof (cases "b = Ready_To_Pick_Up")
  case True
  show ?thesis
    using assms date_or_readable [of "it_created_at (ir_item r)" PosInf] date_or_readable [of "it_created_at (ir_item s)" PosInf]
    by (auto simp: True itemComparator_def by_date_def comes_before_def older_def iid_le_def dates_readable_def to_actionable_def
        num_diff_def Let_def split: option.splits)
next
  case False
  then show ?thesis
    using assms date_or_readable [of "it_updated_at (ir_item r)" "Fin 0"] date_or_readable [of "it_updated_at (ir_item s)" "Fin 0"]
    by (auto simp: itemComparator_def by_date_def comes_before_def longer_untouched_def iid_le_def dates_readable_def to_actionable_def
        num_diff_def Let_def split: option.splits)
qed

lemma readable_dates_ok: "dates_readable r \<Longrightarrow> dates_ok b (to_actionable inp r)"
  by (auto simp: dates_ok_def dates_readable_def date_or_readable to_actionable_def Let_def split: option.split)

lemma mset_map_split: "mset (map f xs) = mset ys \<Longrightarrow> \<exists>zs. ys = map f zs \<and> mset zs = mset xs"
proof (induction ys arbitrary: xs)
  case (Cons y ys)
  then have "y \<in> set (map f xs)" by (metis list.set_intros(1) set_mset_mset)
  then obtain as x bs where xs: "xs = as @ x # bs" "y = f x" by (auto dest: split_list)
  then have "mset (map f (as @ bs)) = mset ys" using Cons.prems by simp
  then obtain zs where "ys = map f zs" "mset zs = mset (as @ bs)" using Cons.IH by blast
  then show ?case using xs by (intro exI [of _ "x # zs"]) simp
qed simp

text \<open>The rows of a bucket, in the order of the bucket.\<close>

lemma bucket_rows:
  obtains rows where
    "mset rows = mset (filter (\<lambda>r. wanted inp r \<and> belongs b (ir_item r) (labels_of inp r) (pi_edges inp)) (pi_items inp))"
    "js_sort (itemComparator b) (filter (\<lambda>i. ai_bucket i = b) (candidates_of inp)) = map (to_actionable inp) rows"
    "\<forall>r \<in> set rows. ai_bucket (to_actionable inp r) = b"
    "(\<forall>r \<in> set rows. dates_readable r) \<longrightarrow> sorted_wrt (comes_before b) rows"
proof -
  define rows0 where "rows0 = filter (\<lambda>r. wanted inp r \<and> belongs b (ir_item r) (labels_of inp r) (pi_edges inp)) (pi_items inp)"
  have cands: "filter (\<lambda>i. ai_bucket i = b) (candidates_of inp) = map (to_actionable inp) rows0"
  proof -
    have "filter (\<lambda>i. ai_bucket i = b) (map (to_actionable inp) rs) =
        map (to_actionable inp) (filter (\<lambda>r. belongs b (ir_item r) (labels_of inp r) (pi_edges inp)) rs)" for rs
      by (induction rs) (simp_all add: to_actionable_facts(1))
    then show ?thesis by (simp add: candidates_of_def rows0_def selected_wanted)
  qed
  define sorted where "sorted = js_sort (itemComparator b) (map (to_actionable inp) rows0)"
  have "mset (map (to_actionable inp) rows0) = mset sorted" by (simp add: sorted_def)
  then obtain rows where rows: "sorted = map (to_actionable inp) rows" "mset rows = mset rows0" using mset_map_split by blast
  have same: "set rows = set rows0" using rows(2) by (metis set_mset_mset)
  have "sorted_wrt (comes_before b) rows" if "\<forall>r \<in> set rows. dates_readable r"
  proof -
    have "\<forall>x \<in> set (map (to_actionable inp) rows0). dates_ok b x" using that same readable_dates_ok by auto
    then have "sorted_wrt (\<lambda>x y. itemComparator b x y \<le> 0) sorted" unfolding sorted_def by (rule bucket.sorted_js_sort)
    then have "sorted_wrt (\<lambda>r s. itemComparator b (to_actionable inp r) (to_actionable inp s) \<le> 0) rows"
      by (simp add: rows(1) sorted_wrt_map)
    then show ?thesis by (rule sorted_wrt_mono_rel [rotated]) (use that itemComparator_iff in blast)
  qed
  moreover have "\<forall>r \<in> set rows. ai_bucket (to_actionable inp r) = b" using same by (auto simp: rows0_def to_actionable_facts(1))
  ultimately show thesis using that [of rows] rows cands by (simp add: sorted_def rows0_def)
qed

text \<open>
  Claim C14. The projection shows every open item that is asked for, once, in the bucket it belongs to, and nothing
  else: the buckets come in the fixed order and their totals add up to the number of the rows wanted; the rows of a
  bucket are those that belong to it, in the order of the bucket where their dates can be read, and what is shown is
  what a reader sees of the first of them, as many as the limit allows.
\<close>

theorem projection_exact:
  assumes "buildActionableProjection inp = Inr p"
  shows "map bg_bucket (pj_buckets p) = ACTIONABLE_BUCKET_ORDER
    \<and> pj_total p = length (filter (wanted inp) (pi_items inp))
    \<and> sum_list (map bg_total (pj_buckets p)) = pj_total p
    \<and> (\<forall>g \<in> set (pj_buckets p). \<exists>rows.
         mset rows = mset (filter (\<lambda>r. wanted inp r \<and> belongs (bg_bucket g) (ir_item r) (labels_of inp r) (pi_edges inp)) (pi_items inp))
         \<and> ((\<forall>r \<in> set rows. dates_readable r) \<longrightarrow> sorted_wrt (comes_before (bg_bucket g)) rows)
         \<and> bg_total g = length rows \<and> bg_shown g = length (bg_items g) \<and> bg_shown g + bg_more g = bg_total g
         \<and> map item_facts (bg_items g)
             = map (row_facts inp (bg_bucket g)) (case pi_limit inp of None \<Rightarrow> rows | Some n \<Rightarrow> take n rows))"
proof -
  let ?c = "candidates_of inp"
  note p = projection_buckets [OF assms]
  have "sum_list (map bg_total (pj_buckets p)) = length ?c"
    using sum_filter_partition [OF order_distinct(1), of ai_bucket ?c] order_distinct(2)
    by (auto simp: p comp_def)
  moreover have "length ?c = length (filter (wanted inp) (pi_items inp))"
    by (simp add: candidates_of_def selected_wanted)
  moreover have "\<exists>rows.
         mset rows = mset (filter (\<lambda>r. wanted inp r \<and> belongs b (ir_item r) (labels_of inp r) (pi_edges inp)) (pi_items inp))
         \<and> ((\<forall>r \<in> set rows. dates_readable r) \<longrightarrow> sorted_wrt (comes_before b) rows)
         \<and> bg_total g = length rows \<and> bg_shown g = length (bg_items g) \<and> bg_shown g + bg_more g = bg_total g
         \<and> map item_facts (bg_items g)
             = map (row_facts inp b) (case pi_limit inp of None \<Rightarrow> rows | Some n \<Rightarrow> take n rows)"
    if "g = group_of (pi_limit inp) ?c b" for g b
  proof -
    obtain rows where rows:
        "mset rows = mset (filter (\<lambda>r. wanted inp r \<and> belongs b (ir_item r) (labels_of inp r) (pi_edges inp)) (pi_items inp))"
        "js_sort (itemComparator b) (filter (\<lambda>i. ai_bucket i = b) ?c) = map (to_actionable inp) rows"
        "\<forall>r \<in> set rows. ai_bucket (to_actionable inp r) = b"
        "(\<forall>r \<in> set rows. dates_readable r) \<longrightarrow> sorted_wrt (comes_before b) rows"
      by (rule bucket_rows)
    let ?shown = "case pi_limit inp of None \<Rightarrow> rows | Some n \<Rightarrow> take n rows"
    have items: "bg_items g = map (to_actionable inp) ?shown"
      by (simp add: that group_items rows(2) take_map Let_def split: option.split)
    have "length (filter (\<lambda>i. ai_bucket i = b) ?c) = length rows" using rows(2) by (metis length_js_sort length_map)
    moreover have "length ?shown \<le> length rows" "set ?shown \<subseteq> set rows" by (auto split: option.split dest: in_set_takeD)
    moreover have "map item_facts (bg_items g) = map (row_facts inp b) ?shown"
      using rows(3) calculation(3) unfolding items map_map comp_def
      by (intro map_cong refl) (auto simp: to_actionable_facts(2))
    ultimately show ?thesis using rows(1,4) items by (intro exI [of _ rows]) (simp add: that)
  qed
  ultimately show ?thesis using p by (auto simp: comp_def)
qed

text \<open>
  Within a bucket whose dates can be read, the shown items are in order and no hidden item
  belongs before a shown one; items that compare equal keep the order of the store.
\<close>

theorem bucket_shows_first_in_order:
  assumes "buildActionableProjection inp = Inr p" and "g \<in> set (pj_buckets p)"
    and "\<forall>i\<in>set (candidates_of inp). ai_bucket i = bg_bucket g \<longrightarrow> dates_ok (bg_bucket g) i"
  shows "\<exists>hidden. mset (bg_items g @ hidden) = mset (filter (\<lambda>i. ai_bucket i = bg_bucket g) (candidates_of inp)) \<and>
    length hidden = bg_more g \<and>
    sorted_wrt (\<lambda>a b. itemComparator (bg_bucket g) a b \<le> 0) (bg_items g @ hidden) \<and>
    (\<forall>z. dates_ok (bg_bucket g) z \<longrightarrow>
       filter (\<lambda>y. itemComparator (bg_bucket g) z y = 0) (bg_items g @ hidden) =
       filter (\<lambda>y. itemComparator (bg_bucket g) z y = 0) (filter (\<lambda>i. ai_bucket i = bg_bucket g) (candidates_of inp)))"
proof -
  obtain b where g: "g = group_of (pi_limit inp) (candidates_of inp) b"
    using assms(2) projection_buckets [OF assms(1)] by auto
  then have b: "bg_bucket g = b" by simp
  define xs where "xs = filter (\<lambda>i. ai_bucket i = b) (candidates_of inp)"
  define all where "all = js_sort (itemComparator b) xs"
  define n where "n = (case pi_limit inp of None \<Rightarrow> length all | Some n \<Rightarrow> n)"
  have items: "bg_items g = take n all"
    by (simp add: g group_items all_def xs_def n_def Let_def split: option.split)
  have ok: "\<forall>x\<in>set xs. dates_ok b x" using assms(3) by (simp add: xs_def b)
  have whole: "bg_items g @ drop n all = all" by (simp add: items)
  have "length all = bg_total g" by (simp add: g all_def xs_def)
  moreover have "bg_more g = bg_total g - length (bg_items g)" by (simp add: g)
  ultimately have "length (drop n all) = bg_more g" by (simp add: items min_def)
  then show ?thesis
    using bucket.sorted_js_sort [OF ok] bucket.stable_js_sort [OF ok] whole
    unfolding b xs_def [symmetric] all_def [symmetric]
    by (intro exI [of _ "drop n all"]) (simp add: all_def)
qed

section \<open>A concrete projection\<close>

definition sample_row :: "nat \<Rightarrow> string \<Rightarrow> item_row" where
  "sample_row n ext =
     \<lparr>ir_item_id = n, ir_item = sample_item\<lparr>it_external := ext, it_created_at := Some ''2024-01-01T00:00:00Z''\<rparr>,
      ir_normalized_with = ''v1'', ir_last_seen_at = ''t'', ir_deleted_at = None\<rparr>"

definition sample_input :: projection_input where
  "sample_input =
     \<lparr>pi_sources = [], pi_items = [sample_row 1 ''i1'', sample_row 2 ''i2''], pi_labels = [], pi_edges = [],
      pi_configured = None, pi_limit = Some 1, pi_stale_days = None, pi_repo = None, pi_source = None,
      pi_include_unconfigured = None, pi_now = 1709596800000\<rparr>"

lemma sample_projection:
  obtains p where "buildActionableProjection sample_input = Inr p"
    and "pj_buckets p = map (group_of (Some 1) (candidates_of sample_input)) ACTIONABLE_BUCKET_ORDER"
proof -
  have "toISOString (Some 1709596800000) = Inr ''2024-03-05T00:00:00.000Z''" by code_simp
  then show thesis
    using that by (simp add: buildActionableProjection_def sample_input_def Let_def)
qed

lemma sample_candidates:
  "map ai_bucket (candidates_of sample_input) = [Ready_To_Pick_Up, Ready_To_Pick_Up]"
  "list_all (\<lambda>i. date_or PosInf (ai_created_at i) \<noteq> NaN) (candidates_of sample_input)"
  by code_simp+

theorem projection_exact_witness:
  "\<exists>p. buildActionableProjection sample_input = Inr p \<and> sum_list (map bg_total (pj_buckets p)) = 2
     \<and> (\<exists>g \<in> set (pj_buckets p). bg_bucket g = Ready_To_Pick_Up \<and> length (bg_items g) = 1)"
proof -
  obtain p where p: "buildActionableProjection sample_input = Inr p" by (rule sample_projection)
  note exact = projection_exact [OF p]
  have two: "length (filter (wanted sample_input) (pi_items sample_input)) = 2"
    "filter (\<lambda>r. wanted sample_input r \<and> belongs Ready_To_Pick_Up (ir_item r) (labels_of sample_input r) (pi_edges sample_input))
       (pi_items sample_input) = [sample_row 1 ''i1'', sample_row 2 ''i2'']"
    by code_simp+
  have "Ready_To_Pick_Up \<in> bg_bucket ` set (pj_buckets p)"
    using exact by (metis (no_types) list.set_map order_distinct(2))
  then obtain g where g: "g \<in> set (pj_buckets p)" "bg_bucket g = Ready_To_Pick_Up" by auto
  then obtain rows where "mset rows = mset [sample_row 1 ''i1'', sample_row 2 ''i2'']"
      "map item_facts (bg_items g) = map (row_facts sample_input Ready_To_Pick_Up) (take 1 rows)"
    using exact two(2) by (fastforce simp: sample_input_def)
  then have "length (bg_items g) = length (take 1 rows)" "length rows = 2"
    by (metis length_map) (metis \<open>mset rows = _\<close> mset_eq_length length_Cons list.size(3) numeral_2_eq_2)
  then have "length (bg_items g) = 1" by simp
  then show ?thesis using exact two(1) p g by auto
qed

theorem bucket_shows_first_in_order_witness:
  "\<exists>hidden. length hidden = 1 \<and>
     sorted_wrt (\<lambda>a b. itemComparator Ready_To_Pick_Up a b \<le> 0)
       (bg_items (group_of (Some 1) (candidates_of sample_input) Ready_To_Pick_Up) @ hidden)"
proof -
  let ?g = "group_of (Some 1) (candidates_of sample_input) Ready_To_Pick_Up"
  obtain p where p: "buildActionableProjection sample_input = Inr p"
    and b: "pj_buckets p = map (group_of (Some 1) (candidates_of sample_input)) ACTIONABLE_BUCKET_ORDER"
    by (rule sample_projection)
  have g: "?g \<in> set (pj_buckets p)" by (simp add: b order_distinct)
  have "\<forall>i\<in>set (candidates_of sample_input). ai_bucket i = bg_bucket ?g \<longrightarrow> dates_ok (bg_bucket ?g) i"
    using sample_candidates(2) by (simp add: dates_ok_def list_all_iff)
  from bucket_shows_first_in_order [OF p g this] obtain hidden where
    "length hidden = bg_more ?g" and "sorted_wrt (\<lambda>a b. itemComparator Ready_To_Pick_Up a b \<le> 0) (bg_items ?g @ hidden)"
    by auto
  moreover have "bg_more ?g = 1" by code_simp
  ultimately show ?thesis by (intro exI [of _ hidden]) auto
qed

end
