(* ===== verification/Js_Number.thy ===== *)
theory Js_Number
  imports Js_String Complex_Main
begin

text \<open>
  \<open>Number(text)\<close> of the JavaScript runtime, for the texts that headers, environment variables and
  query parameters hold.  A finite number is a rational; \<open>None\<close> stands for \<open>NaN\<close> and the infinities,
  which every caller treats alike.  A literal too large for a double is an infinity; the rounding
  of a literal within range is not modelled.
\<close>

section \<open>Numeric literals\<close>

definition sign_of :: "string \<Rightarrow> int \<times> string" where
  "sign_of s =
     (case s of
        c # t \<Rightarrow> if c = CHR ''-'' then (-1, t) else if c = CHR ''+'' then (1, t) else (1, s)
      | [] \<Rightarrow> (1, s))"

definition p_exponent :: "string \<Rightarrow> int option" where
  "p_exponent s =
     (case s of
        [] \<Rightarrow> Some 0
      | c # t \<Rightarrow>
          if c = CHR ''e'' \<or> c = CHR ''E'' then
            (let (sg, ds) = sign_of t in
             if ds \<noteq> [] \<and> list_all is_digit ds then Some (sg * int (num_of ds)) else None)
          else None)"

definition p_decimal :: "string \<Rightarrow> rat option" where
  "p_decimal s =
     (let ip = takeWhile is_digit s; r = dropWhile is_digit s;
          dot = starts_with ''.'' r;
          fp = (if dot then takeWhile is_digit (drop 1 r) else []);
          r' = (if dot then dropWhile is_digit (drop 1 r) else r) in
      if ip = [] \<and> fp = [] then None
      else map_option (\<lambda>e. of_nat (num_of (ip @ fp)) * (10 :: rat) powi (e - int (length fp))) (p_exponent r'))"

definition hex_val :: "char \<Rightarrow> nat option" where
  "hex_val c =
     (if is_digit c then Some (digit_val c)
      else if is_upper c \<and> code c \<le> code (CHR ''F'') then Some (code c - 55)
      else if is_lower c \<and> code c \<le> code (CHR ''f'') then Some (code c - 87) else None)"

definition p_radix :: "nat \<Rightarrow> string \<Rightarrow> rat option" where
  "p_radix b ds =
     (if ds \<noteq> [] \<and> list_all (\<lambda>c. \<exists>v\<in>set_option (hex_val c). v < b) ds
      then Some (of_nat (fold (\<lambda>c n. b * n + the (hex_val c)) ds 0)) else None)"

definition double_limit :: rat where
  "double_limit = 2 ^ 1024 - 2 ^ 970"

definition js_number :: "string \<Rightarrow> rat option" where
  "js_number text =
     (let s = js_trim text; low = map ascii_lower_char (take 2 s); (sg, u) = sign_of s in
      if s = [] then Some 0
      else if low = ''0x'' then p_radix 16 (drop 2 s)
      else if low = ''0o'' then p_radix 8 (drop 2 s)
      else if low = ''0b'' then p_radix 2 (drop 2 s)
      else (case p_decimal u of
              None \<Rightarrow> None
            | Some r \<Rightarrow> if r < double_limit then Some (of_int sg * r) else None))"

text \<open>\<open>Number.isInteger\<close> and \<open>Math.trunc\<close> on a finite number.\<close>

definition is_integer :: "rat \<Rightarrow> bool" where
  "is_integer r \<longleftrightarrow> of_int \<lfloor>r\<rfloor> = r"

definition js_trunc :: "rat \<Rightarrow> int" where
  "js_trunc r = (if 0 \<le> r then \<lfloor>r\<rfloor> else \<lceil>r\<rceil>)"

lemma is_integer_of_int [simp]: "is_integer (of_int i)"
  by (simp add: is_integer_def)

lemma is_integerE:
  assumes "is_integer r" obtains i where "r = of_int i"
  using assms unfolding is_integer_def by metis

lemma sign_of_digit:
  assumes "s \<noteq> []" and "is_digit (hd s)"
  shows "sign_of s = (1, s)"
  using assms by (cases s) (auto simp: sign_of_def is_digit_def code_def)

section \<open>Plain numerals\<close>

lemma digit_not_space: "is_digit c \<Longrightarrow> \<not> is_space c"
  by (auto simp: is_digit_def is_space_def)

lemma dropWhile_none: "list_all (\<lambda>c. \<not> P c) s \<Longrightarrow> dropWhile P s = s"
  by (cases s) auto

lemma js_trim_digits:
  assumes "list_all is_digit s"
  shows "js_trim s = s"
proof -
  have "list_all (\<lambda>c. \<not> is_space c) s"
    using assms digit_not_space by (auto simp: list_all_iff)
  then show ?thesis
    unfolding js_trim_def trim_by_def by (simp add: dropWhile_none)
qed

lemma p_decimal_digits:
  assumes "list_all is_digit s" and "s \<noteq> []"
  shows "p_decimal s = Some (of_nat (num_of s))"
proof -
  have cut: "takeWhile is_digit s = s" "dropWhile is_digit s = []"
    using assms(1) by (auto simp: list_all_iff)
  show ?thesis
    using assms(2) by (simp add: p_decimal_def Let_def starts_with_def p_exponent_def cut)
qed

lemma digit_letter:
  "is_digit d \<Longrightarrow> ascii_lower_char d \<noteq> CHR ''x'' \<and> ascii_lower_char d \<noteq> CHR ''o'' \<and> ascii_lower_char d \<noteq> CHR ''b''"
  by (auto simp: is_digit_def ascii_lower_char_def is_upper_def code_def)

lemma no_radix_prefix:
  assumes "list_all is_digit s"
  shows "map ascii_lower_char (take 2 s) \<notin> {''0x'', ''0o'', ''0b''}"
proof (cases s)
  case (Cons c cs)
  show ?thesis
  proof (cases cs)
    case (Cons d ds)
    with \<open>s = c # cs\<close> assms have "is_digit d" by simp
    then show ?thesis using Cons \<open>s = c # cs\<close> digit_letter [of d] by simp
  qed (use Cons in simp)
qed simp

text \<open>\<open>Number\<close> reads back the decimal text of a natural number.\<close>

lemma js_number_digits:
  assumes "list_all is_digit s" and "s \<noteq> []" and "of_nat (num_of s) < double_limit"
  shows "js_number s = Some (of_nat (num_of s))"
proof -
  have "is_digit (hd s)" using assms(1,2) by (cases s) simp_all
  with no_radix_prefix [OF assms(1)] show ?thesis
    using assms by (simp add: js_number_def Let_def js_trim_digits p_decimal_digits sign_of_digit)
qed

lemma js_number_nat_str:
  assumes "of_nat n < double_limit"
  shows "js_number (nat_str n) = Some (of_nat n)"
  using js_number_digits [of "nat_str n"] assms
  by (simp add: list_all_iff nat_str_digits num_of_nat_str)

end
