(* ===== verification/Token_Pool.thy ===== *)
theory Token_Pool
  imports Model_Types Js_Number
begin

text \<open>
  The credential pool of the provider clients (\<open>src/sources/http.ts\<close>): which token the next request
  uses, what is known of each token's rate budget, and how a response changes it.  The maps that the
  module keeps for the whole process are the record \<open>pools\<close>; a client's own map of cooled-down
  tokens and its cursor are arguments.  Instants and budgets are rationals, as headers may hold any
  number.
\<close>

section \<open>Tokens\<close>

datatype token_kind = Pat | Github_App
datatype auth_strategy = Failover | Budget_Aware | Round_Robin

record auth_token =
  au_env :: string
  au_value :: string
  au_kind :: "token_kind option"
  au_name :: "string option"
  au_strategy :: "auth_strategy option"

record auth_selection =
  sl_cursor :: nat
  sl_namespace :: string
  sl_selection_key :: string
  sl_indexes :: "nat list"

record budget_state =
  bg_limit :: "rat option"
  bg_remaining :: "rat option"
  bg_used :: "rat option"
  bg_reset_at :: "rat option"
  bg_blocked_until :: "rat option"
  bg_in_flight :: nat
  bg_last_cost :: rat

record rate_budget =
  ra_limit :: "rat option"
  ra_remaining :: "rat option"
  ra_used :: "rat option"
  ra_reset_at :: "rat option"
  ra_resource :: "string option"
  ra_cost :: "rat option"

record pools =
  po_starts :: "(string, nat) jsmap"
  po_states :: "(string, budget_state) jsmap"

definition DEFAULT_ESTIMATED_COST :: rat where
  "DEFAULT_ESTIMATED_COST = 1"

text \<open>\<open>xs[i]\<close>, with \<open>None\<close> for \<open>undefined\<close>.\<close>

definition elem_at :: "'a list \<Rightarrow> nat \<Rightarrow> 'a option" where
  "elem_at xs i = (if i < length xs then Some (xs ! i) else None)"

definition canonicalAuthStrategy :: "auth_strategy option \<Rightarrow> auth_strategy" where
  "canonicalAuthStrategy s = (if s = Some Round_Robin then Budget_Aware else or_else s Failover)"

definition isBudgetAwareToken :: "auth_token option \<Rightarrow> bool" where
  "isBudgetAwareToken t =
     (case t of None \<Rightarrow> False | Some a \<Rightarrow> canonicalAuthStrategy (au_strategy a) = Budget_Aware)"

definition budgetAwareIndexes :: "auth_token list \<Rightarrow> nat list" where
  "budgetAwareIndexes tokens = filter (\<lambda>i. isBudgetAwareToken (elem_at tokens i)) [0..<length tokens]"

fun kind_text :: "token_kind \<Rightarrow> string" where
  "kind_text Pat = ''pat''"
| "kind_text Github_App = ''github_app''"

fun strategy_text :: "auth_strategy \<Rightarrow> string" where
  "strategy_text Failover = ''failover''"
| "strategy_text Budget_Aware = ''budget_aware''"
| "strategy_text Round_Robin = ''round_robin''"

definition kind_field :: "auth_token \<Rightarrow> string" where
  "kind_field t = or_else (map_option kind_text (au_kind t)) []"

definition tokenSelectionKey :: "auth_token list \<Rightarrow> string \<Rightarrow> string" where
  "tokenSelectionKey tokens namespace =
     join [CHR 10] (namespace # map (\<lambda>t. join [CHR 9]
        [au_env t, kind_field t, strategy_text (canonicalAuthStrategy (au_strategy t))]) tokens)"

definition budgetKeyFor :: "string \<Rightarrow> auth_token \<Rightarrow> string" where
  "budgetKeyFor namespace t =
     join [CHR 9] [namespace, au_env t, kind_field t,
       strategy_text (canonicalAuthStrategy (au_strategy t)), or_else (au_name t) []]"

definition createAuthSelectionState :: "auth_token list \<Rightarrow> string \<Rightarrow> pools \<Rightarrow> auth_selection \<times> pools" where
  "createAuthSelectionState tokens namespace g =
     (let indexes = budgetAwareIndexes tokens; key = tokenSelectionKey tokens namespace;
          sel = (\<lambda>c. \<lparr>sl_cursor = c, sl_namespace = namespace, sl_selection_key = key, sl_indexes = indexes\<rparr>) in
      if indexes = [] then (sel 0, g)
      else (let n = or_else (jm_get (po_starts g) key) 0 in
            (sel (or_else (elem_at indexes n) 0),
             g\<lparr>po_starts := jm_set key ((n + 1) mod length indexes) (po_starts g)\<rparr>)))"

text \<open>\<open>env.startsWith("github_app:")\<close> marks an installation token that names no kind.\<close>

definition default_kind :: "auth_token \<Rightarrow> token_kind" where
  "default_kind t =
     (case au_kind t of
        Some k \<Rightarrow> k
      | None \<Rightarrow> if starts_with ''github_app:'' (au_env t) then Github_App else Pat)"

definition clean_name :: "string option \<Rightarrow> string option" where
  "clean_name n = (case n of None \<Rightarrow> None | Some s \<Rightarrow> if js_trim s = [] then Some s else Some (js_trim s))"

datatype auth_input = One_Token string | Token_List "auth_token list"

definition normalizeAuthTokens :: "auth_input \<Rightarrow> auth_token list" where
  "normalizeAuthTokens input =
     (case input of
        One_Token s \<Rightarrow>
          (if js_trim s = [] then []
           else [\<lparr>au_env = ''token'', au_value = js_trim s, au_kind = Some Pat, au_name = None,
                  au_strategy = Some Failover\<rparr>])
      | Token_List ts \<Rightarrow>
          map (\<lambda>t. t\<lparr>au_value := js_trim (au_value t), au_kind := Some (default_kind t),
                     au_strategy := Some (canonicalAuthStrategy (au_strategy t)),
                     au_name := clean_name (au_name t)\<rparr>)
            (filter (\<lambda>t. js_trim (au_value t) \<noteq> []) ts))"

section \<open>Budget states\<close>

definition budgetKey :: "auth_selection \<Rightarrow> auth_token \<Rightarrow> string" where
  "budgetKey sel t = budgetKeyFor (sl_namespace sel) t"

definition fresh_budget :: budget_state where
  "fresh_budget = \<lparr>bg_limit = None, bg_remaining = None, bg_used = None, bg_reset_at = None,
     bg_blocked_until = None, bg_in_flight = 0, bg_last_cost = DEFAULT_ESTIMATED_COST\<rparr>"

definition budgetStateFor :: "auth_selection \<Rightarrow> auth_token \<Rightarrow> pools \<Rightarrow> budget_state \<times> pools" where
  "budgetStateFor sel t g =
     (case jm_get (po_states g) (budgetKey sel t) of
        Some b \<Rightarrow> (b, g)
      | None \<Rightarrow> (fresh_budget, g\<lparr>po_states := jm_set (budgetKey sel t) fresh_budget (po_states g)\<rparr>))"

definition put_budget :: "auth_selection \<Rightarrow> auth_token \<Rightarrow> budget_state \<Rightarrow> pools \<Rightarrow> pools" where
  "put_budget sel t b g = g\<lparr>po_states := jm_set (budgetKey sel t) b (po_states g)\<rparr>"

definition resetExpiredBudget :: "budget_state \<Rightarrow> rat \<Rightarrow> budget_state" where
  "resetExpiredBudget b now =
     (case bg_reset_at b of
        None \<Rightarrow> b
      | Some r \<Rightarrow>
          if now < r then b
          else b\<lparr>bg_limit := None, bg_remaining := None, bg_used := None, bg_reset_at := None,
                 bg_blocked_until := None, bg_last_cost := DEFAULT_ESTIMATED_COST\<rparr>)"

text \<open>The state of a token as a probe sees it: created when missing, forgotten when its window is over.\<close>

definition probe_budget :: "auth_selection \<Rightarrow> auth_token \<Rightarrow> rat \<Rightarrow> pools \<Rightarrow> budget_state \<times> pools" where
  "probe_budget sel t now g =
     (let (b, g1) = budgetStateFor sel t g; b' = resetExpiredBudget b now in (b', put_budget sel t b' g1))"

definition tokenAvailable ::
  "auth_token list \<Rightarrow> (nat, rat) jsmap \<Rightarrow> auth_selection \<Rightarrow> nat \<Rightarrow> rat \<Rightarrow> pools \<Rightarrow> bool \<times> pools"
where
  "tokenAvailable tokens blockedUntil sel idx now g =
     (if now < or_else (jm_get blockedUntil idx) 0 then (False, g)
      else (case elem_at tokens idx of
              None \<Rightarrow> (True, g)
            | Some t \<Rightarrow>
                if \<not> isBudgetAwareToken (Some t) then (True, g)
                else (let (b, g') = probe_budget sel t now g in (or_else (bg_blocked_until b) 0 \<le> now, g'))))"

section \<open>Selection\<close>

text \<open>
  The loop of \<open>selectBudgetAwareToken\<close> over the probed indexes, with its variables \<open>best\<close>,
  \<open>bestScore\<close> (\<open>None\<close> is minus infinity) and \<open>bestUsed\<close> (\<open>None\<close> is infinity).  The result is the
  choice and whether the loop returned early, at a token of unknown budget.
\<close>

definition used_less :: "rat option \<Rightarrow> rat option \<Rightarrow> bool" where
  "used_less u v = (case u of None \<Rightarrow> False | Some x \<Rightarrow> (case v of None \<Rightarrow> True | Some y \<Rightarrow> x < y))"

definition budget_score :: "budget_state \<Rightarrow> rat" where
  "budget_score b =
     (let cost = (if 0 < bg_last_cost b then bg_last_cost b else DEFAULT_ESTIMATED_COST) in
      or_else (bg_remaining b) 0 - of_nat (bg_in_flight b) * cost)"

definition score_beats :: "rat \<Rightarrow> rat option \<Rightarrow> rat option \<Rightarrow> rat option \<Rightarrow> bool" where
  "score_beats score used bestScore bestUsed =
     (case bestScore of None \<Rightarrow> True
      | Some s \<Rightarrow> s < score \<or> (score = s \<and> used_less used bestUsed))"

fun budget_loop ::
  "auth_token list \<Rightarrow> (nat, rat) jsmap \<Rightarrow> auth_selection \<Rightarrow> (nat \<Rightarrow> bool) \<Rightarrow> rat \<Rightarrow> nat list \<Rightarrow>
   nat option \<Rightarrow> rat option \<Rightarrow> rat option \<Rightarrow> pools \<Rightarrow> nat option \<times> pools"
where
  "budget_loop tokens blockedUntil sel candidate now [] best bestScore bestUsed g = (best, g)"
| "budget_loop tokens blockedUntil sel candidate now (idx # rest) best bestScore bestUsed g =
     (if idx \<notin> set (sl_indexes sel) \<or> \<not> candidate idx
      then budget_loop tokens blockedUntil sel candidate now rest best bestScore bestUsed g
      else (let (ok, g1) = tokenAvailable tokens blockedUntil sel idx now g in
        if \<not> ok then budget_loop tokens blockedUntil sel candidate now rest best bestScore bestUsed g1
        else (let (b, g2) = probe_budget sel (tokens ! idx) now g1 in
          if bg_remaining b = None then (Some idx, g2)
          else if score_beats (budget_score b) (bg_used b) bestScore bestUsed
          then budget_loop tokens blockedUntil sel candidate now rest (Some idx) (Some (budget_score b)) (bg_used b) g2
          else budget_loop tokens blockedUntil sel candidate now rest best bestScore bestUsed g2)))"

definition probe_order :: "auth_token list \<Rightarrow> nat \<Rightarrow> nat list" where
  "probe_order tokens start = map (\<lambda>step. (start + step) mod length tokens) [0..<length tokens]"

definition selectBudgetAwareToken ::
  "auth_token list \<Rightarrow> (nat, rat) jsmap \<Rightarrow> (nat \<Rightarrow> bool) \<Rightarrow> rat \<Rightarrow> auth_selection \<Rightarrow> pools \<Rightarrow>
   nat option \<times> auth_selection \<times> pools"
where
  "selectBudgetAwareToken tokens blockedUntil candidate now sel g =
     (let (r, g') = budget_loop tokens blockedUntil sel candidate now (probe_order tokens (sl_cursor sel)) None None None g in
      (r, (case r of None \<Rightarrow> sel | Some idx \<Rightarrow> sel\<lparr>sl_cursor := (idx + 1) mod length tokens\<rparr>), g'))"

fun first_available :: "(nat \<Rightarrow> pools \<Rightarrow> bool \<times> pools) \<Rightarrow> nat list \<Rightarrow> pools \<Rightarrow> nat option \<times> pools" where
  "first_available available [] g = (None, g)"
| "first_available available (idx # rest) g =
     (let (ok, g') = available idx g in if ok then (Some idx, g') else first_available available rest g')"

definition selectAvailableToken ::
  "auth_token list \<Rightarrow> (nat, rat) jsmap \<Rightarrow> rat \<Rightarrow> auth_selection \<Rightarrow> pools \<Rightarrow> nat option \<times> auth_selection \<times> pools"
where
  "selectAvailableToken tokens blockedUntil now sel g =
     (if tokens = [] then (None, sel, g)
      else (case selectBudgetAwareToken tokens blockedUntil (\<lambda>_. True) now sel g of
              (Some idx, sel', g') \<Rightarrow> (Some idx, sel', g')
            | (None, sel', g') \<Rightarrow>
                (let (r, g2) = first_available (\<lambda>idx. tokenAvailable tokens blockedUntil sel' idx now)
                                 [0..<length tokens] g' in (r, sel', g2))))"

definition is_bot :: "auth_token list \<Rightarrow> nat \<Rightarrow> bool" where
  "is_bot tokens idx = (Option.bind (elem_at tokens idx) au_kind = Some Github_App)"

text \<open>The indexes \<open>after + 1\<close>, \<dots>, \<open>after + n\<close> modulo \<open>n\<close> that were not tried.\<close>

definition retry_order :: "auth_token list \<Rightarrow> nat list \<Rightarrow> nat \<Rightarrow> nat list" where
  "retry_order tokens tried after =
     filter (\<lambda>idx. idx \<notin> set tried) (map (\<lambda>step. (after + step) mod length tokens) [1..<length tokens + 1])"

definition nextAvailableToken ::
  "auth_token list \<Rightarrow> (nat, rat) jsmap \<Rightarrow> nat list \<Rightarrow> nat \<Rightarrow> rat \<Rightarrow> auth_selection \<Rightarrow> pools \<Rightarrow>
   nat option \<times> auth_selection \<times> pools"
where
  "nextAvailableToken tokens blockedUntil tried after now sel g =
     (case selectBudgetAwareToken tokens blockedUntil (\<lambda>idx. idx \<notin> set tried \<and> is_bot tokens idx) now sel g of
        (Some idx, sel', g') \<Rightarrow> (Some idx, sel', g')
      | (None, sel', g') \<Rightarrow>
          (let available = (\<lambda>idx. tokenAvailable tokens blockedUntil sel' idx now);
               order = retry_order tokens tried after in
           case first_available available (filter (is_bot tokens) order) g' of
             (Some idx, g2) \<Rightarrow> (Some idx, sel', g2)
           | (None, g2) \<Rightarrow> (let (r, g3) = first_available available order g2 in (r, sel', g3))))"

section \<open>Accounting of an attempt\<close>

definition recordAuthAttemptStart :: "auth_token list \<Rightarrow> nat \<Rightarrow> auth_selection \<Rightarrow> pools \<Rightarrow> pools" where
  "recordAuthAttemptStart tokens idx sel g =
     (if \<not> isBudgetAwareToken (elem_at tokens idx) then g
      else (let (b, g') = budgetStateFor sel (tokens ! idx) g in
            put_budget sel (tokens ! idx) (b\<lparr>bg_in_flight := bg_in_flight b + 1\<rparr>) g'))"

text \<open>What a reported budget changes in a state whose expired window was already forgotten.\<close>

definition same_window :: "budget_state \<Rightarrow> rate_budget \<Rightarrow> bool" where
  "same_window b r =
     (case bg_reset_at b of None \<Rightarrow> True
      | Some p \<Rightarrow> (case ra_reset_at r of None \<Rightarrow> True | Some n \<Rightarrow> p = n))"

definition newer_window :: "budget_state \<Rightarrow> rate_budget \<Rightarrow> bool" where
  "newer_window b r =
     (case bg_reset_at b of None \<Rightarrow> False
      | Some p \<Rightarrow> (case ra_reset_at r of None \<Rightarrow> False | Some n \<Rightarrow> p < n))"

definition older_window :: "budget_state \<Rightarrow> rate_budget \<Rightarrow> bool" where
  "older_window b r =
     (case bg_reset_at b of None \<Rightarrow> False
      | Some p \<Rightarrow> (case ra_reset_at r of None \<Rightarrow> False | Some n \<Rightarrow> n < p))"

definition stated_cost :: "rate_budget \<Rightarrow> budget_state \<Rightarrow> budget_state" where
  "stated_cost r b =
     (case ra_cost r of Some c \<Rightarrow> if 0 < c then b\<lparr>bg_last_cost := c\<rparr> else b | None \<Rightarrow> b)"

definition observed_cost :: "bool \<Rightarrow> rate_budget \<Rightarrow> rat option \<Rightarrow> rat \<Rightarrow> budget_state \<Rightarrow> budget_state" where
  "observed_cost same r prior remaining b =
     (case prior of
        Some p \<Rightarrow> if ra_cost r = None \<and> remaining \<le> p \<and> same \<and> 0 < p - remaining
                  then b\<lparr>bg_last_cost := p - remaining\<rparr> else b
      | None \<Rightarrow> b)"

definition merge_remaining :: "bool \<Rightarrow> rate_budget \<Rightarrow> rat option \<Rightarrow> budget_state \<Rightarrow> budget_state" where
  "merge_remaining same r prior b =
     (case ra_remaining r of
        None \<Rightarrow> b
      | Some n \<Rightarrow> (observed_cost same r prior n b)
          \<lparr>bg_remaining := Some (case prior of Some p \<Rightarrow> if same then min p n else n | None \<Rightarrow> n)\<rparr>)"

definition merge_used :: "bool \<Rightarrow> rate_budget \<Rightarrow> budget_state \<Rightarrow> budget_state" where
  "merge_used same r b =
     (case ra_used r of
        None \<Rightarrow> b
      | Some n \<Rightarrow> b\<lparr>bg_used := Some (case bg_used b of Some u \<Rightarrow> if same then max u n else n | None \<Rightarrow> n)\<rparr>)"

definition apply_budget :: "rate_budget \<Rightarrow> budget_state \<Rightarrow> budget_state" where
  "apply_budget r b0 =
     (let same = same_window b0 r; b1 = stated_cost r b0 in
      if older_window b0 r then b1
      else (let b2 = (if newer_window b0 r then b1\<lparr>bg_blocked_until := None\<rparr> else b1);
                b3 = b2\<lparr>bg_limit := nullish (ra_limit r) (bg_limit b2),
                        bg_reset_at := nullish (ra_reset_at r) (bg_reset_at b2)\<rparr>;
                b4 = merge_remaining same r (bg_remaining b0) (merge_used same r b3) in
            if bg_remaining b4 = Some 0 \<and> bg_reset_at b4 \<noteq> None
            then b4\<lparr>bg_blocked_until := bg_reset_at b4\<rparr> else b4))"

definition finish_attempt :: "rate_budget option \<Rightarrow> rat \<Rightarrow> budget_state \<Rightarrow> budget_state" where
  "finish_attempt budget now b =
     (let b' = resetExpiredBudget (b\<lparr>bg_in_flight := bg_in_flight b - 1\<rparr>) now in
      case budget of None \<Rightarrow> b' | Some r \<Rightarrow> apply_budget r b')"

definition recordAuthAttemptDone ::
  "auth_token list \<Rightarrow> nat \<Rightarrow> auth_selection \<Rightarrow> rate_budget option \<Rightarrow> rat \<Rightarrow> pools \<Rightarrow> pools"
where
  "recordAuthAttemptDone tokens idx sel budget now g =
     (if \<not> isBudgetAwareToken (elem_at tokens idx) then g
      else (let (b, g') = budgetStateFor sel (tokens ! idx) g in
            put_budget sel (tokens ! idx) (finish_attempt budget now b) g'))"

definition markAuthTokenCooledDown :: "auth_token list \<Rightarrow> nat \<Rightarrow> auth_selection \<Rightarrow> rat \<Rightarrow> pools \<Rightarrow> pools" where
  "markAuthTokenCooledDown tokens idx sel until g =
     (if \<not> isBudgetAwareToken (elem_at tokens idx) then g
      else (let (b, g') = budgetStateFor sel (tokens ! idx) g in
            put_budget sel (tokens ! idx) (b\<lparr>bg_blocked_until := Some until\<rparr>) g'))"

end
