(* ===== verification/Token_Selection.thy ===== *)
theory Token_Selection
  imports Token_Pool
begin

text \<open>
  Correctness of the token selection.  Probing writes to the shared budgets, but only what the clock
  already made true: the view of the budgets at an instant, \<open>seen\<close>, is unchanged by every probe, so
  a selection can be described by what was true before it began.
\<close>

section \<open>What a probe sees\<close>

definition seen :: "rat \<Rightarrow> pools \<Rightarrow> string \<Rightarrow> budget_state" where
  "seen now g k = resetExpiredBudget (or_else (jm_get (po_states g) k) fresh_budget) now"

definition usable ::
  "auth_token list \<Rightarrow> (nat, rat) jsmap \<Rightarrow> auth_selection \<Rightarrow> rat \<Rightarrow> pools \<Rightarrow> nat \<Rightarrow> bool"
where
  "usable tokens blockedUntil sel now g idx \<longleftrightarrow>
     or_else (jm_get blockedUntil idx) 0 \<le> now \<and>
     (isBudgetAwareToken (elem_at tokens idx) \<longrightarrow>
        or_else (bg_blocked_until (seen now g (budgetKey sel (tokens ! idx)))) 0 \<le> now)"

lemma reset_idem [simp]: "resetExpiredBudget (resetExpiredBudget b now) now = resetExpiredBudget b now"
  by (cases "bg_reset_at b") (auto simp: resetExpiredBudget_def)

lemma reset_fresh [simp]: "resetExpiredBudget fresh_budget now = fresh_budget"
  by (simp add: resetExpiredBudget_def fresh_budget_def)

lemma budgetStateFor_eq:
  "budgetStateFor sel t g = (or_else (jm_get (po_states g) (budgetKey sel t)) fresh_budget,
     g\<lparr>po_states := (if jm_get (po_states g) (budgetKey sel t) = None
                     then jm_set (budgetKey sel t) fresh_budget (po_states g) else po_states g)\<rparr>)"
  by (auto simp: budgetStateFor_def split: option.split)

lemma jm_get_put_budget:
  "jm_get (po_states (put_budget sel t b g)) k = (if k = budgetKey sel t then Some b else jm_get (po_states g) k)"
  by (simp add: put_budget_def jsmap_simps)

lemma jm_get_budgetStateFor:
  "jm_get (po_states (snd (budgetStateFor sel t g))) k =
     (if k = budgetKey sel t then Some (fst (budgetStateFor sel t g)) else jm_get (po_states g) k)"
  by (auto simp: budgetStateFor_eq jsmap_simps)

lemma probe_budget_fst: "fst (probe_budget sel t now g) = seen now g (budgetKey sel t)"
  by (simp add: probe_budget_def budgetStateFor_eq seen_def Let_def)

lemma probe_budget_seen [simp]: "seen now (snd (probe_budget sel t now g)) = seen now g"
proof
  fix k
  show "seen now (snd (probe_budget sel t now g)) k = seen now g k"
    using jm_get_budgetStateFor [of sel t g]
    by (auto simp: probe_budget_def Let_def split_beta seen_def jm_get_put_budget budgetStateFor_eq)
qed

lemma tokenAvailable_usable:
  "fst (tokenAvailable tokens blockedUntil sel idx now g) = usable tokens blockedUntil sel now g idx"
  by (auto simp: tokenAvailable_def usable_def isBudgetAwareToken_def elem_at_def Let_def split_beta probe_budget_fst)

lemma tokenAvailable_seen [simp]: "seen now (snd (tokenAvailable tokens blockedUntil sel idx now g)) = seen now g"
  by (auto simp: tokenAvailable_def Let_def split_beta split: option.split)

lemma usable_cong: "seen now g = seen now g' \<Longrightarrow> usable tokens bl sel now g = usable tokens bl sel now g'"
  by (rule ext) (simp add: usable_def)

lemma usable_cursor [simp]: "usable tokens bl (sel\<lparr>sl_cursor := c\<rparr>) now g = usable tokens bl sel now g"
  by (rule ext) (simp add: usable_def budgetKey_def)

lemma first_available_correct:
  assumes "\<And>idx g. seen now g = seen now g0 \<Longrightarrow>
             fst (available idx g) = P idx \<and> seen now (snd (available idx g)) = seen now g0"
  shows "seen now g = seen now g0 \<Longrightarrow>
     fst (first_available available idxs g) = List.find P idxs \<and>
     seen now (snd (first_available available idxs g)) = seen now g0"
proof (induction idxs arbitrary: g)
  case (Cons idx idxs)
  from assms [OF Cons.prems, of idx] Cons.IH [of "snd (available idx g)"] show ?case
    by (auto simp: Let_def split_beta)
qed simp

lemma first_available_tokens:
  "fst (first_available (\<lambda>idx. tokenAvailable tokens bl sel idx now) idxs g) = List.find (usable tokens bl sel now g) idxs"
  "seen now (snd (first_available (\<lambda>idx. tokenAvailable tokens bl sel idx now) idxs g)) = seen now g"
proof -
  have "fst (tokenAvailable tokens bl sel idx now g') = usable tokens bl sel now g idx \<and>
      seen now (snd (tokenAvailable tokens bl sel idx now g')) = seen now g" if "seen now g' = seen now g" for idx g'
    using that usable_cong [OF that, of tokens bl sel] by (simp add: tokenAvailable_usable)
  from first_available_correct [where available = "\<lambda>idx. tokenAvailable tokens bl sel idx now", OF this refl]
  show "fst (first_available (\<lambda>idx. tokenAvailable tokens bl sel idx now) idxs g) = List.find (usable tokens bl sel now g) idxs"
    "seen now (snd (first_available (\<lambda>idx. tokenAvailable tokens bl sel idx now) idxs g)) = seen now g" by simp_all
qed

section \<open>The loop over the budgets\<close>

definition score_of :: "auth_token list \<Rightarrow> auth_selection \<Rightarrow> rat \<Rightarrow> pools \<Rightarrow> nat \<Rightarrow> rat" where
  "score_of tokens sel now g idx = budget_score (seen now g (budgetKey sel (tokens ! idx)))"

definition used_of :: "auth_token list \<Rightarrow> auth_selection \<Rightarrow> rat \<Rightarrow> pools \<Rightarrow> nat \<Rightarrow> rat option" where
  "used_of tokens sel now g idx = bg_used (seen now g (budgetKey sel (tokens ! idx)))"

definition unknown :: "auth_token list \<Rightarrow> auth_selection \<Rightarrow> rat \<Rightarrow> pools \<Rightarrow> nat \<Rightarrow> bool" where
  "unknown tokens sel now g idx \<longleftrightarrow> bg_remaining (seen now g (budgetKey sel (tokens ! idx))) = None"

definition eligible ::
  "auth_token list \<Rightarrow> (nat, rat) jsmap \<Rightarrow> auth_selection \<Rightarrow> (nat \<Rightarrow> bool) \<Rightarrow> rat \<Rightarrow> pools \<Rightarrow> nat \<Rightarrow> bool"
where
  "eligible tokens bl sel candidate now g idx \<longleftrightarrow>
     idx \<in> set (sl_indexes sel) \<and> candidate idx \<and> usable tokens bl sel now g idx"

text \<open>No token is better than the chosen one: neither a higher score nor the same with less used.\<close>

definition not_better :: "auth_token list \<Rightarrow> auth_selection \<Rightarrow> rat \<Rightarrow> pools \<Rightarrow> nat \<Rightarrow> nat \<Rightarrow> bool" where
  "not_better tokens sel now g j i \<longleftrightarrow>
     score_of tokens sel now g j < score_of tokens sel now g i \<or>
     (score_of tokens sel now g j = score_of tokens sel now g i \<and>
      \<not> used_less (used_of tokens sel now g j) (used_of tokens sel now g i))"

definition chosen ::
  "auth_token list \<Rightarrow> auth_selection \<Rightarrow> rat \<Rightarrow> pools \<Rightarrow> nat set \<Rightarrow> nat option \<Rightarrow> bool"
where
  "chosen tokens sel now g E r \<longleftrightarrow>
     (case r of
        None \<Rightarrow> E = {}
      | Some i \<Rightarrow> i \<in> E \<and> (unknown tokens sel now g i \<or>
                   (\<forall>j\<in>E. \<not> unknown tokens sel now g j \<and> not_better tokens sel now g j i)))"

lemma used_less_trans: "\<not> used_less u v \<Longrightarrow> \<not> used_less v w \<Longrightarrow> \<not> used_less u w"
  by (auto simp: used_less_def split: option.splits)

lemma used_less_irrefl [simp]: "\<not> used_less u u"
  by (simp add: used_less_def split: option.split)

lemma used_less_asym: "used_less u v \<Longrightarrow> \<not> used_less v u"
  by (auto simp: used_less_def split: option.splits)

lemma not_better_refl [simp]: "not_better tokens sel now g i i"
  by (simp add: not_better_def)

lemma not_better_trans:
  "not_better tokens sel now g k j \<Longrightarrow> not_better tokens sel now g j i \<Longrightarrow> not_better tokens sel now g k i"
  unfolding not_better_def by (elim disjE conjE) (auto dest: used_less_trans)

lemma score_beats_iff:
  "score_beats (score_of tokens sel now g j) (used_of tokens sel now g j)
     (Some (score_of tokens sel now g i)) (used_of tokens sel now g i) \<longleftrightarrow> \<not> not_better tokens sel now g j i"
  by (cases "score_of tokens sel now g j" "score_of tokens sel now g i" rule: linorder_cases)
     (auto simp: score_beats_def not_better_def)

lemma beats_not_better: "\<not> not_better tokens sel now g j i \<Longrightarrow> not_better tokens sel now g i j"
  unfolding not_better_def using used_less_asym by fastforce

definition best_vars :: "auth_token list \<Rightarrow> auth_selection \<Rightarrow> rat \<Rightarrow> pools \<Rightarrow> nat option \<Rightarrow> rat option \<Rightarrow> rat option \<Rightarrow> bool" where
  "best_vars tokens sel now g best bestScore bestUsed \<longleftrightarrow>
     bestScore = map_option (score_of tokens sel now g) best \<and>
     bestUsed = Option.bind best (used_of tokens sel now g) \<and>
     (\<forall>i\<in>set_option best. \<not> unknown tokens sel now g i)"

lemma chosen_step:
  assumes "chosen tokens sel now g E best" and "\<forall>i\<in>set_option best. \<not> unknown tokens sel now g i"
    and "\<not> unknown tokens sel now g j"
  shows "chosen tokens sel now g (insert j E)
     (case best of None \<Rightarrow> Some j | Some i \<Rightarrow> if not_better tokens sel now g j i then Some i else Some j)"
proof (cases best)
  case None
  with assms show ?thesis by (simp add: chosen_def)
next
  case (Some i)
  with assms have i: "i \<in> E" "\<not> unknown tokens sel now g i"
    "\<forall>k\<in>E. \<not> unknown tokens sel now g k \<and> not_better tokens sel now g k i" by (auto simp: chosen_def)
  show ?thesis
  proof (cases "not_better tokens sel now g j i")
    case True
    with i Some assms(3) show ?thesis by (simp add: chosen_def)
  next
    case False
    then have "not_better tokens sel now g i j" by (rule beats_not_better)
    with i Some assms(3) False show ?thesis
      by (auto simp: chosen_def intro: not_better_trans)
  qed
qed

lemma budget_loop_correct:
  assumes "seen now g = seen now g0" and "chosen tokens sel now g0 E best" and "best_vars tokens sel now g0 best bestScore bestUsed"
  shows "chosen tokens sel now g0 (E \<union> {i \<in> set idxs. eligible tokens bl sel candidate now g0 i})
           (fst (budget_loop tokens bl sel candidate now idxs best bestScore bestUsed g)) \<and>
         seen now (snd (budget_loop tokens bl sel candidate now idxs best bestScore bestUsed g)) = seen now g0"
  using assms
proof (induction idxs arbitrary: E best bestScore bestUsed g)
  case (Cons idx idxs)
  let ?rest = "\<lambda>b s u g'. budget_loop tokens bl sel candidate now idxs b s u g'"
  define g1 where "g1 = snd (tokenAvailable tokens bl sel idx now g)"
  define b g2 where "b = fst (probe_budget sel (tokens ! idx) now g1)" and "g2 = snd (probe_budget sel (tokens ! idx) now g1)"
  have s1: "seen now g1 = seen now g0" and s2: "seen now g2 = seen now g0"
    using Cons.prems(1) by (simp_all add: g1_def g2_def)
  have b: "b = seen now g0 (budgetKey sel (tokens ! idx))"
    using s1 by (simp add: b_def probe_budget_fst)
  have us: "fst (tokenAvailable tokens bl sel idx now g) = usable tokens bl sel now g0 idx"
    using usable_cong [OF Cons.prems(1), of tokens bl sel] by (simp add: tokenAvailable_usable)
  show ?case
  proof (cases "eligible tokens bl sel candidate now g0 idx")
    case False
    then have "{i \<in> set (idx # idxs). eligible tokens bl sel candidate now g0 i}
        = {i \<in> set idxs. eligible tokens bl sel candidate now g0 i}" by auto
    moreover have "budget_loop tokens bl sel candidate now (idx # idxs) best bestScore bestUsed g = ?rest best bestScore bestUsed
        (if idx \<notin> set (sl_indexes sel) \<or> \<not> candidate idx then g else g1)"
      using False us by (auto simp: eligible_def Let_def split_beta g1_def)
    moreover have "seen now (if idx \<notin> set (sl_indexes sel) \<or> \<not> candidate idx then g else g1) = seen now g0"
      using Cons.prems(1) s1 by simp
    ultimately show ?thesis using Cons.IH Cons.prems(2,3) by presburger
  next
    case True
    then have *: "idx \<in> set (sl_indexes sel)" "candidate idx" "fst (tokenAvailable tokens bl sel idx now g)"
      by (simp_all add: eligible_def us)
    have E: "E \<union> {i \<in> set (idx # idxs). eligible tokens bl sel candidate now g0 i}
        = insert idx E \<union> {i \<in> set idxs. eligible tokens bl sel candidate now g0 i}" using True by auto
    show ?thesis
    proof (cases "unknown tokens sel now g0 idx")
      case True
      then have "budget_loop tokens bl sel candidate now (idx # idxs) best bestScore bestUsed g = (Some idx, g2)"
        using * b by (simp add: unknown_def Let_def split_beta g1_def [symmetric] b_def [symmetric] g2_def [symmetric])
      then show ?thesis using True s2 E by (simp add: chosen_def)
    next
      case False
      then obtain m where m: "bg_remaining b = Some m" by (auto simp: unknown_def b)
      have vars: "bestScore = map_option (score_of tokens sel now g0) best"
        "bestUsed = Option.bind best (used_of tokens sel now g0)" "\<forall>i\<in>set_option best. \<not> unknown tokens sel now g0 i"
        using Cons.prems(3) by (auto simp: best_vars_def)
      let ?best = "case best of None \<Rightarrow> Some idx | Some i \<Rightarrow> if not_better tokens sel now g0 idx i then Some i else Some idx"
      have "budget_loop tokens bl sel candidate now (idx # idxs) best bestScore bestUsed g =
          (if score_beats (budget_score b) (bg_used b) bestScore bestUsed
           then ?rest (Some idx) (Some (budget_score b)) (bg_used b) g2 else ?rest best bestScore bestUsed g2)"
        using * m by (simp add: Let_def split_beta g1_def [symmetric] b_def [symmetric] g2_def [symmetric])
      also have "score_beats (budget_score b) (bg_used b) bestScore bestUsed \<longleftrightarrow> (\<forall>i\<in>set_option best. \<not> not_better tokens sel now g0 idx i)"
        using score_beats_iff [of tokens sel now g0 idx]
        by (cases best) (auto simp: vars b score_of_def used_of_def score_beats_def)
      also have "(if \<forall>i\<in>set_option best. \<not> not_better tokens sel now g0 idx i
           then ?rest (Some idx) (Some (budget_score b)) (bg_used b) g2 else ?rest best bestScore bestUsed g2)
        = ?rest ?best (map_option (score_of tokens sel now g0) ?best) (Option.bind ?best (used_of tokens sel now g0)) g2"
        by (cases best) (auto simp: vars b score_of_def used_of_def)
      finally have step: "budget_loop tokens bl sel candidate now (idx # idxs) best bestScore bestUsed g
        = ?rest ?best (map_option (score_of tokens sel now g0) ?best) (Option.bind ?best (used_of tokens sel now g0)) g2" .
      have "chosen tokens sel now g0 (insert idx E) ?best" by (rule chosen_step [OF Cons.prems(2) vars(3) False])
      moreover have "best_vars tokens sel now g0 ?best (map_option (score_of tokens sel now g0) ?best)
          (Option.bind ?best (used_of tokens sel now g0))"
        using False vars(3) by (auto simp: best_vars_def split: option.splits if_splits)
      ultimately show ?thesis unfolding step E by (intro Cons.IH s2)
    qed
  qed
qed simp

section \<open>Which token is taken\<close>

lemma mod_shift_onto:
  fixes i n k :: nat
  assumes "i < n"
  shows "\<exists>s<n. (k + s) mod n = i"
proof -
  have "(k + (n - k mod n + i) mod n) mod n = (k mod n + (n - k mod n) + i) mod n"
    by (metis (no_types, opaque_lifting) add.assoc mod_add_eq mod_add_left_eq mod_add_right_eq)
  also have "\<dots> = (n + i) mod n" using assms by (simp add: less_imp_le)
  also have "\<dots> = i" using assms by simp
  finally show ?thesis using assms by (metis mod_less_divisor not_less_zero not_gr_zero)
qed

lemma set_probe_order: "set (probe_order tokens k) = {..<length tokens}"
proof (intro equalityI subsetI)
  fix i assume "i \<in> set (probe_order tokens k)"
  then show "i \<in> {..<length tokens}" by (auto simp: probe_order_def intro!: mod_less_divisor)
next
  fix i assume "i \<in> {..<length tokens}"
  then obtain s where "s < length tokens" "(k + s) mod length tokens = i"
    using mod_shift_onto [of i "length tokens" k] by auto
  then show "i \<in> set (probe_order tokens k)" by (auto simp: probe_order_def)
qed

lemma set_retry_order: "set (retry_order tokens tried after) = {..<length tokens} - set tried"
proof -
  have "set (map (\<lambda>step. (after + step) mod length tokens) [1..<length tokens + 1]) = {..<length tokens}" (is "?L = ?R")
  proof (intro equalityI subsetI)
    fix i assume "i \<in> ?L"
    then show "i \<in> ?R" by (cases "length tokens") auto
  next
    fix i assume "i \<in> ?R"
    then obtain s where "s < length tokens" "(after + 1 + s) mod length tokens = i"
      using mod_shift_onto [of i "length tokens" "after + 1"] by auto
    then have "s + 1 \<in> set [1..<length tokens + 1]" "i = (after + (s + 1)) mod length tokens" by (auto simp: add_ac)
    then show "i \<in> ?L" unfolding set_map by (rule rev_image_eqI)
  qed
  then show ?thesis unfolding retry_order_def set_filter by auto
qed

text \<open>The tokens a selection may take, with those it takes by budget.\<close>

definition usable_tokens :: "auth_token list \<Rightarrow> (nat, rat) jsmap \<Rightarrow> auth_selection \<Rightarrow> rat \<Rightarrow> pools \<Rightarrow> nat set" where
  "usable_tokens tokens bl sel now g = {i. i < length tokens \<and> usable tokens bl sel now g i}"

definition budget_tokens :: "auth_token list \<Rightarrow> (nat, rat) jsmap \<Rightarrow> auth_selection \<Rightarrow> rat \<Rightarrow> pools \<Rightarrow> nat set" where
  "budget_tokens tokens bl sel now g = usable_tokens tokens bl sel now g \<inter> set (sl_indexes sel)"

lemma selectBudgetAwareToken_cases:
  obtains r g' where
    "selectBudgetAwareToken tokens bl candidate now sel g =
       (r, (case r of None \<Rightarrow> sel | Some idx \<Rightarrow> sel\<lparr>sl_cursor := (idx + 1) mod length tokens\<rparr>), g')"
    and "chosen tokens sel now g {i \<in> budget_tokens tokens bl sel now g. candidate i} r"
    and "seen now g' = seen now g"
proof -
  let ?l = "budget_loop tokens bl sel candidate now (probe_order tokens (sl_cursor sel)) None None None g"
  have "chosen tokens sel now g ({} \<union> {i \<in> set (probe_order tokens (sl_cursor sel)). eligible tokens bl sel candidate now g i})
          (fst ?l) \<and> seen now (snd ?l) = seen now g"
    by (rule budget_loop_correct) (simp_all add: chosen_def best_vars_def)
  moreover have "{} \<union> {i \<in> set (probe_order tokens (sl_cursor sel)). eligible tokens bl sel candidate now g i}
      = {i \<in> budget_tokens tokens bl sel now g. candidate i}"
    by (auto simp: set_probe_order eligible_def budget_tokens_def usable_tokens_def)
  ultimately show ?thesis
    by (intro that [of "fst ?l" "snd ?l"]) (simp_all add: selectBudgetAwareToken_def split_beta)
qed

lemma find_set_cases:
  obtains "List.find P xs = None" "{x \<in> set xs. P x} = {}"
  | x where "List.find P xs = Some x" "x \<in> set xs" "P x"
  by (cases "List.find P xs") (auto simp: find_None_iff find_Some_iff)

lemma first_available_cases:
  assumes "seen now g' = seen now g" and "set idxs = I"
  obtains g2 where "first_available (\<lambda>idx. tokenAvailable tokens bl sel idx now) idxs g' = (None, g2)"
      "seen now g2 = seen now g" "{i \<in> I. usable tokens bl sel now g i} = {}"
  | i g2 where "first_available (\<lambda>idx. tokenAvailable tokens bl sel idx now) idxs g' = (Some i, g2)"
      "seen now g2 = seen now g" "i \<in> I" "usable tokens bl sel now g i"
proof -
  let ?f = "first_available (\<lambda>idx. tokenAvailable tokens bl sel idx now) idxs g'"
  have f: "fst ?f = List.find (usable tokens bl sel now g) idxs" "seen now (snd ?f) = seen now g"
    using usable_cong [OF assms(1), of tokens bl sel] assms(1) by (simp_all add: first_available_tokens)
  show ?thesis
  proof (cases rule: find_set_cases [of "usable tokens bl sel now g" idxs])
    case 1
    with f assms(2) show ?thesis by (intro that(1) [of "snd ?f"]) (auto simp: prod_eq_iff)
  next
    case (2 i)
    with f assms(2) show ?thesis by (intro that(2) [of i "snd ?f"]) (auto simp: prod_eq_iff)
  qed
qed

lemma selectAvailableToken_result:
  assumes "selectAvailableToken tokens bl now sel g = (r, sel', g')"
  shows "(case r of
            None \<Rightarrow> usable_tokens tokens bl sel now g = {}
          | Some i \<Rightarrow> i \<in> usable_tokens tokens bl sel now g) \<and>
    (budget_tokens tokens bl sel now g = {} \<or> chosen tokens sel now g (budget_tokens tokens bl sel now g) r)"
proof (cases "tokens = []")
  case True
  with assms show ?thesis by (simp add: selectAvailableToken_def usable_tokens_def budget_tokens_def)
next
  case False
  obtain r1 g1 where 1: "selectBudgetAwareToken tokens bl (\<lambda>_. True) now sel g =
       (r1, (case r1 of None \<Rightarrow> sel | Some idx \<Rightarrow> sel\<lparr>sl_cursor := (idx + 1) mod length tokens\<rparr>), g1)"
    "chosen tokens sel now g {i \<in> budget_tokens tokens bl sel now g. True} r1" "seen now g1 = seen now g"
    by (rule selectBudgetAwareToken_cases)
  show ?thesis
  proof (cases r1)
    case (Some i)
    with 1 assms False show ?thesis
      by (auto simp: selectAvailableToken_def chosen_def budget_tokens_def)
  next
    case None
    with 1(2) have none: "budget_tokens tokens bl sel now g = {}" by (simp add: chosen_def)
    show ?thesis
    proof (cases rule: first_available_cases [OF 1(3), of "[0..<length tokens]" "{..<length tokens}" tokens bl sel])
      case (2 g2)
      with None none 1(1) assms False show ?thesis
        by (auto simp: selectAvailableToken_def usable_tokens_def)
    next
      case (3 i g2)
      with None none 1(1) assms False show ?thesis
        by (auto simp: selectAvailableToken_def usable_tokens_def)
    qed auto
  qed
qed

lemma nextAvailableToken_result:
  assumes "nextAvailableToken tokens bl tried after now sel g = (r, sel', g')"
  shows "case r of
            None \<Rightarrow> usable_tokens tokens bl sel now g \<subseteq> set tried
          | Some i \<Rightarrow> i \<in> usable_tokens tokens bl sel now g - set tried \<and>
              (is_bot tokens i \<or> {j \<in> usable_tokens tokens bl sel now g - set tried. is_bot tokens j} = {})"
proof -
  let ?bot = "\<lambda>idx. idx \<notin> set tried \<and> is_bot tokens idx"
  let ?order = "retry_order tokens tried after"
  obtain r1 g1 where 1: "selectBudgetAwareToken tokens bl ?bot now sel g =
       (r1, (case r1 of None \<Rightarrow> sel | Some idx \<Rightarrow> sel\<lparr>sl_cursor := (idx + 1) mod length tokens\<rparr>), g1)"
    "chosen tokens sel now g {i \<in> budget_tokens tokens bl sel now g. ?bot i} r1" "seen now g1 = seen now g"
    by (rule selectBudgetAwareToken_cases)
  show ?thesis
  proof (cases r1)
    case (Some i)
    with 1 assms show ?thesis by (auto simp: nextAvailableToken_def chosen_def budget_tokens_def)
  next
    case None
    show ?thesis
    proof (cases rule: first_available_cases [OF 1(3) refl, of tokens bl sel "filter (is_bot tokens) ?order"])
      case (2 i g2)
      with None 1(1) assms show ?thesis
        by (auto simp: nextAvailableToken_def set_retry_order usable_tokens_def)
    next
      case (1 g2)
      have bots: "{j \<in> usable_tokens tokens bl sel now g - set tried. is_bot tokens j} = {}"
        using 1(3) by (auto simp: set_retry_order usable_tokens_def)
      show ?thesis
      proof (cases rule: first_available_cases [OF 1(2) refl, of tokens bl sel ?order])
        case inner: (1 g3)
        with None 1 \<open>selectBudgetAwareToken _ _ _ _ _ _ = _\<close> assms show ?thesis
          by (auto simp: nextAvailableToken_def set_retry_order usable_tokens_def)
      next
        case inner: (2 i g3)
        with None 1 bots \<open>selectBudgetAwareToken _ _ _ _ _ _ = _\<close> assms show ?thesis
          by (auto simp: nextAvailableToken_def set_retry_order usable_tokens_def)
      qed
    qed
  qed
qed

text \<open>
  The token of a request: no token is chosen only when none is usable; a chosen one is
  in the pool and not cooled down; and while some budget-aware token is usable, the chosen one is
  one, either of unknown budget or, when all are known, one that no other beats in remaining budget.
\<close>

theorem selectAvailableToken_correct:
  "case selectAvailableToken tokens bl now sel g of
     (r, sel', g') \<Rightarrow>
       (case r of
          None \<Rightarrow> usable_tokens tokens bl sel now g = {}
        | Some i \<Rightarrow> i \<in> usable_tokens tokens bl sel now g) \<and>
       (budget_tokens tokens bl sel now g = {} \<or> chosen tokens sel now g (budget_tokens tokens bl sel now g) r)"
proof (cases "selectAvailableToken tokens bl now sel g" rule: prod_cases3)
  case (fields r sel' g')
  then show ?thesis using selectAvailableToken_result [OF fields] by simp
qed

text \<open>
  After a rate limit the next token is one that this request has not tried and that is not
  cooled down; a token that is not a GitHub App's is taken only when no usable untried bot is left,
  and the request gives up only when no usable untried token is left.
\<close>

theorem nextAvailableToken_correct:
  "case nextAvailableToken tokens bl tried after now sel g of
     (r, sel', g') \<Rightarrow>
       (case r of
          None \<Rightarrow> usable_tokens tokens bl sel now g \<subseteq> set tried
        | Some i \<Rightarrow> i \<in> usable_tokens tokens bl sel now g - set tried \<and>
            (is_bot tokens i \<or> {j \<in> usable_tokens tokens bl sel now g - set tried. is_bot tokens j} = {}))"
proof (cases "nextAvailableToken tokens bl tried after now sel g" rule: prod_cases3)
  case (fields r sel' g')
  then show ?thesis using nextAvailableToken_result [OF fields] by simp
qed

section \<open>Accounting\<close>

definition in_flight :: "pools \<Rightarrow> string \<Rightarrow> nat" where
  "in_flight g k = bg_in_flight (or_else (jm_get (po_states g) k) fresh_budget)"

lemma in_flight_put:
  "in_flight (put_budget sel t b g) k = (if k = budgetKey sel t then bg_in_flight b else in_flight g k)"
  by (simp add: in_flight_def jm_get_put_budget)

lemma in_flight_budgetStateFor [simp]: "in_flight (snd (budgetStateFor sel t g)) k = in_flight g k"
  by (auto simp: in_flight_def budgetStateFor_eq jsmap_simps)

lemma bg_in_flight_budgetStateFor: "bg_in_flight (fst (budgetStateFor sel t g)) = in_flight g (budgetKey sel t)"
  by (simp add: in_flight_def budgetStateFor_eq)

lemma bg_in_flight_reset [simp]: "bg_in_flight (resetExpiredBudget b now) = bg_in_flight b"
  by (simp add: resetExpiredBudget_def split: option.split)

lemma bg_in_flight_apply [simp]: "bg_in_flight (apply_budget r b) = bg_in_flight b"
  by (simp add: apply_budget_def Let_def stated_cost_def merge_remaining_def merge_used_def observed_cost_def
      split: option.split)

lemma bg_in_flight_finish: "bg_in_flight (finish_attempt budget now b) = bg_in_flight b - 1"
  by (simp add: finish_attempt_def Let_def split: option.split)

text \<open>
  Accounting balances: recording the start of an attempt counts one request in flight on the
  token's budget and recording its end takes it back, whatever budget the response reports, and no
  other token's count changes.
\<close>

theorem attempt_accounting_balances:
  "in_flight (recordAuthAttemptDone tokens idx sel budget now (recordAuthAttemptStart tokens idx sel g)) k = in_flight g k \<and>
   in_flight (recordAuthAttemptStart tokens idx sel g) k
     = in_flight g k + (if isBudgetAwareToken (elem_at tokens idx) \<and> k = budgetKey sel (tokens ! idx) then 1 else 0)"
  by (simp add: recordAuthAttemptDone_def recordAuthAttemptStart_def split_beta in_flight_put
      bg_in_flight_budgetStateFor bg_in_flight_finish)

text \<open>
  Within a rate window a budget only shrinks: after a response that reports the same window,
  an earlier one or none, the recorded remaining budget is not higher, the recorded use not lower and
  the window the same - responses that arrive out of order cannot make a token look fresher.
\<close>

theorem budget_only_shrinks:
  assumes "bg_reset_at b = Some p" and "now < p" and "case ra_reset_at r of None \<Rightarrow> True | Some q \<Rightarrow> q \<le> p"
    and "bg_remaining b = Some m" and "bg_used b = Some u"
  shows "bg_reset_at (finish_attempt (Some r) now b) = Some p \<and>
    (\<exists>m'. bg_remaining (finish_attempt (Some r) now b) = Some m' \<and> m' \<le> m) \<and>
    (\<exists>u'. bg_used (finish_attempt (Some r) now b) = Some u' \<and> u \<le> u')"
proof -
  define b' where "b' = b\<lparr>bg_in_flight := bg_in_flight b - 1\<rparr>"
  have b': "bg_reset_at b' = Some p" "bg_remaining b' = Some m" "bg_used b' = Some u"
    using assms by (simp_all add: b'_def)
  have live: "finish_attempt (Some r) now b = apply_budget r b'"
    using assms(1,2) by (simp add: finish_attempt_def resetExpiredBudget_def b'_def)
  show ?thesis
  proof (cases "older_window b' r")
    case True
    then show ?thesis unfolding live using b'
      by (simp add: apply_budget_def Let_def stated_cost_def split: option.split)
  next
    case False
    then have "same_window b' r" and "\<not> newer_window b' r" and "ra_reset_at r = None \<or> ra_reset_at r = Some p"
      using assms(3) b' by (auto simp: older_window_def same_window_def newer_window_def split: option.splits)
    then show ?thesis unfolding live using b' False
      by (auto simp: apply_budget_def Let_def stated_cost_def merge_remaining_def merge_used_def observed_cost_def
          split: option.split)
  qed
qed

text \<open>A window with 40 of 100 requests left, and a late report of 70 left in the same window.\<close>

definition sample_budget :: "rat \<Rightarrow> budget_state" where
  "sample_budget m = \<lparr>bg_limit = Some 100, bg_remaining = Some m, bg_used = Some (100 - m), bg_reset_at = Some 10,
     bg_blocked_until = None, bg_in_flight = 1, bg_last_cost = 1\<rparr>"

definition sample_report :: "rat \<Rightarrow> rate_budget" where
  "sample_report m = \<lparr>ra_limit = Some 100, ra_remaining = Some m, ra_used = Some (100 - m), ra_reset_at = Some 10,
     ra_resource = None, ra_cost = None\<rparr>"

theorem budget_only_shrinks_witness:
  "\<exists>m'. bg_remaining (finish_attempt (Some (sample_report 70)) 5 (sample_budget 40)) = Some m' \<and> m' \<le> 40"
  using budget_only_shrinks [of "sample_budget 40" 10 5 "sample_report 70" 40 60]
  by (simp add: sample_budget_def sample_report_def)

end
