(* ===== verification/Provider_Client.thy ===== *)
theory Provider_Client
  imports Token_Selection Js_Date
begin

text \<open>
  The request clients of the providers (\<open>src/sources/graphql.ts\<close>, \<open>src/sources/rest.ts\<close> and the rate
  limit and retry helpers of \<open>src/sources/http.ts\<close>).  The network is a parameter: what the n-th
  request of a call gets, what the clock shows at the n-th reading, and what the other calls of the
  same client do to the shared state while the n-th request is pending (\<open>nw_others\<close>, any function).
  A response holds its text together with what \<open>JSON.parse\<close> makes of it.
\<close>

section \<open>Responses\<close>

type_synonym headers = "(string, string) jsmap"

record response =
  rs_status :: int
  rs_headers :: headers
  rs_body :: "(string \<times> json option) result"

datatype outcome = Replied response | Refused | Broken string

datatype limit_kind = Primary | Secondary

record rate_limit_info =
  rl_kind :: limit_kind
  rl_reset_at :: "rat option"
  rl_retry_after :: "rat option"

record http_error =
  he_message :: string
  he_status :: int
  he_rate_limit :: "rate_limit_info option"

datatype request_error =
    Http_Error http_error
  | Gql_Errors http_error "json list" json
  | Non_Json http_error
  | Plain_Error string

definition res_ok :: "response \<Rightarrow> bool" where
  "res_ok r \<longleftrightarrow> 200 \<le> rs_status r \<and> rs_status r \<le> 299"

definition contains :: "string \<Rightarrow> string \<Rightarrow> bool" where
  "contains s p \<longleftrightarrow> index_of p s \<noteq> None"

text \<open>\<open>Number(headers.get(name))\<close>, where a missing header is \<open>null\<close> and reads as 0.\<close>

definition header_value :: "headers \<Rightarrow> string \<Rightarrow> rat option" where
  "header_value h name = (case jm_get h name of None \<Rightarrow> Some 0 | Some s \<Rightarrow> js_number s)"

definition positive_ms :: "rat option \<Rightarrow> rat option" where
  "positive_ms v = (case v of Some x \<Rightarrow> if 0 < x then Some (x * 1000) else None | None \<Rightarrow> None)"

definition githubRateLimitInfo :: "headers \<Rightarrow> string \<Rightarrow> rate_limit_info option" where
  "githubRateLimitInfo h message =
     (let lower = to_lower message;
          info = (\<lambda>k. \<lparr>rl_kind = k, rl_reset_at = positive_ms (header_value h ''x-ratelimit-reset''),
                       rl_retry_after = positive_ms (header_value h ''retry-after'')\<rparr>) in
      if contains lower ''secondary rate limit'' \<or> contains lower ''abuse detection'' then Some (info Secondary)
      else if jm_get h ''x-ratelimit-remaining'' = Some ''0'' then Some (info Primary)
      else None)"

definition githubRepoAccessFailure :: "int \<Rightarrow> string \<Rightarrow> bool" where
  "githubRepoAccessFailure status message \<longleftrightarrow>
     (let lower = to_lower message in
      contains lower ''could not resolve to a repository'' \<or>
      contains lower ''resource not accessible'' \<or>
      contains lower ''not accessible by integration'' \<or>
      (status = 404 \<and> contains lower ''not found'') \<or>
      (status = 403 \<and> contains lower ''forbidden''))"

definition fallbackRepoAccessMessage :: "string \<Rightarrow> auth_token \<Rightarrow> int \<Rightarrow> string \<Rightarrow> bool \<Rightarrow> string" where
  "fallbackRepoAccessMessage message t status provider isFallback =
     (if \<not> isFallback \<or> provider \<noteq> ''github'' \<or> \<not> githubRepoAccessFailure status message then message
      else message @ '' (fallback token lacks repo access: '' @ au_env t @ '')'')"

definition headerNumber :: "headers \<Rightarrow> string \<Rightarrow> rat option" where
  "headerNumber h name = Option.bind (jm_get h name) js_number"

definition json_member :: "json \<Rightarrow> string \<Rightarrow> json option" where
  "json_member j k = (case j of JObj ms \<Rightarrow> obj_get ms k | _ \<Rightarrow> None)"

definition json_num :: "json option \<Rightarrow> rat option" where
  "json_num v = (case v of Some (JNum n) \<Rightarrow> Some (of_int n) | _ \<Rightarrow> None)"

definition githubGraphqlRateBudget :: "json option \<Rightarrow> rate_budget option" where
  "githubGraphqlRateBudget data =
     (case Option.bind data (\<lambda>d. json_member d ''rateLimit'') of
        Some rl \<Rightarrow>
          (case rl of
             JNull \<Rightarrow> None | JBool _ \<Rightarrow> None | JNum _ \<Rightarrow> None | JStr _ \<Rightarrow> None
           | _ \<Rightarrow>
               (let num = (\<lambda>k. json_num (json_member rl k));
                    resetAt = (case json_member rl ''resetAt'' of
                       Some (JStr s) \<Rightarrow> map_option of_int (date_parse s) | _ \<Rightarrow> None);
                    out = \<lparr>ra_limit = num ''limit'', ra_remaining = num ''remaining'', ra_used = num ''used'',
                           ra_reset_at = resetAt, ra_resource = Some ''graphql'', ra_cost = num ''cost''\<rparr> in
                if ra_limit out \<noteq> None \<or> ra_remaining out \<noteq> None \<or> ra_used out \<noteq> None \<or>
                   ra_reset_at out \<noteq> None \<or> ra_cost out \<noteq> None then Some out else None))
      | None \<Rightarrow> None)"

definition no_budget :: rate_budget where
  "no_budget = \<lparr>ra_limit = None, ra_remaining = None, ra_used = None, ra_reset_at = None, ra_resource = None, ra_cost = None\<rparr>"

definition githubRateBudgetFromHeaders :: "headers \<Rightarrow> rate_budget option \<Rightarrow> rate_budget option" where
  "githubRateBudgetFromHeaders h bodyBudget =
     (let limit = headerNumber h ''x-ratelimit-limit''; remaining = headerNumber h ''x-ratelimit-remaining'';
          used = headerNumber h ''x-ratelimit-used''; reset = headerNumber h ''x-ratelimit-reset'';
          resource = (case jm_get h ''x-ratelimit-resource'' of Some s \<Rightarrow> if s = [] then None else Some s | None \<Rightarrow> None);
          base = or_else bodyBudget no_budget in
      if limit = None \<and> remaining = None \<and> used = None \<and> reset = None \<and> resource = None \<and> bodyBudget = None
      then None
      else Some \<lparr>ra_limit = nullish limit (ra_limit base), ra_remaining = nullish remaining (ra_remaining base),
                 ra_used = nullish used (ra_used base), ra_reset_at = nullish (positive_ms reset) (ra_reset_at base),
                 ra_resource = nullish resource (ra_resource base), ra_cost = ra_cost base\<rparr>)"

definition DEFAULT_GITHUB_TRANSIENT_RETRY_DELAYS_MS :: "rat list" where
  "DEFAULT_GITHUB_TRANSIENT_RETRY_DELAYS_MS = [2000, 6000]"

definition delay_ok :: "rat option \<Rightarrow> bool" where
  "delay_ok v = (case v of Some r \<Rightarrow> is_integer r \<and> 0 \<le> r | None \<Rightarrow> False)"

definition githubTransientRetryDelaysMs :: "string option \<Rightarrow> rat list" where
  "githubTransientRetryDelaysMs raw =
     (case raw of
        None \<Rightarrow> DEFAULT_GITHUB_TRANSIENT_RETRY_DELAYS_MS
      | Some s \<Rightarrow>
          (let parsed = map (\<lambda>part. js_number (js_trim part)) (split_on (CHR '','') s) in
           if s \<noteq> [] \<and> list_all delay_ok parsed
           then take (length DEFAULT_GITHUB_TRANSIENT_RETRY_DELAYS_MS) (map the parsed)
           else DEFAULT_GITHUB_TRANSIENT_RETRY_DELAYS_MS))"

section \<open>A client and its network\<close>

record shared =
  sh_blocked :: "(nat, rat) jsmap"
  sh_selection :: auth_selection
  sh_pools :: pools

record client =
  cl_shared :: shared
  cl_requests :: nat
  cl_readings :: nat
  cl_sent :: "nat list"
  cl_costs :: "rat option list"

record network =
  nw_provider :: string
  nw_url :: string
  nw_tokens :: "auth_token list"
  nw_delays :: "rat list"
  nw_reply :: "nat \<Rightarrow> outcome"
  nw_clock :: "nat \<Rightarrow> rat"
  nw_others :: "nat \<Rightarrow> shared \<Rightarrow> shared"

definition is_github :: "network \<Rightarrow> bool" where
  "is_github nw \<longleftrightarrow> nw_provider nw = ''github''"

definition date_now :: "network \<Rightarrow> client \<Rightarrow> rat \<times> client" where
  "date_now nw c = (nw_clock nw (cl_readings c), c\<lparr>cl_readings := cl_readings c + 1\<rparr>)"

text \<open>One HTTP request with the token of index \<open>idx\<close>.\<close>

definition send :: "network \<Rightarrow> nat \<Rightarrow> client \<Rightarrow> outcome \<times> client" where
  "send nw idx c =
     (nw_reply nw (cl_requests c),
      c\<lparr>cl_requests := cl_requests c + 1, cl_sent := cl_sent c @ [idx],
        cl_shared := nw_others nw (cl_requests c) (cl_shared c)\<rparr>)"

definition record_start :: "network \<Rightarrow> nat \<Rightarrow> client \<Rightarrow> client" where
  "record_start nw idx c =
     c\<lparr>cl_shared := (cl_shared c)\<lparr>sh_pools :=
         recordAuthAttemptStart (nw_tokens nw) idx (sh_selection (cl_shared c)) (sh_pools (cl_shared c))\<rparr>\<rparr>"

definition record_done :: "network \<Rightarrow> nat \<Rightarrow> rate_budget option \<Rightarrow> client \<Rightarrow> client" where
  "record_done nw idx budget c =
     (let (now, c') = date_now nw c in
      c'\<lparr>cl_shared := (cl_shared c')\<lparr>sh_pools :=
         recordAuthAttemptDone (nw_tokens nw) idx (sh_selection (cl_shared c')) budget now (sh_pools (cl_shared c'))\<rparr>\<rparr>)"

definition transient_status :: "int \<Rightarrow> bool" where
  "transient_status s \<longleftrightarrow> s = 502 \<or> s = 503 \<or> s = 504"

text \<open>
  The loop of \<open>fetchWithTransientResponseRetry\<close>; \<open>used\<close> is the retry budget already spent, and the
  result holds what is spent at its end.  It ends because every turn spends one delay.
\<close>

function fetchWithTransientResponseRetry ::
  "network \<Rightarrow> nat \<Rightarrow> nat \<Rightarrow> client \<Rightarrow> response result \<times> nat \<times> client"
where
  "fetchWithTransientResponseRetry nw idx used c =
     (let delay = elem_at (nw_delays nw) used; (r, c') = send nw idx c in
      case r of
        Broken e \<Rightarrow> (Inl e, used, c')
      | Refused \<Rightarrow>
          if \<not> is_github nw \<or> delay = None then (Inl ''fetch failed'', used, c')
          else fetchWithTransientResponseRetry nw idx (used + 1) c'
      | Replied res \<Rightarrow>
          if \<not> is_github nw \<or> \<not> transient_status (rs_status res) \<or> delay = None then (Inr res, used, c')
          else fetchWithTransientResponseRetry nw idx (used + 1) c')"
  by pat_completeness auto
termination
  by (relation "measure (\<lambda>(nw, idx, used, c). length (nw_delays nw) - used)")
     (auto simp: elem_at_def split: if_splits)

declare fetchWithTransientResponseRetry.simps [simp del]

section \<open>Rate limits and rotation\<close>

definition rate_limit_of :: "request_error \<Rightarrow> rate_limit_info option" where
  "rate_limit_of e =
     (case e of Http_Error h \<Rightarrow> he_rate_limit h | Gql_Errors h _ _ \<Rightarrow> he_rate_limit h
      | Non_Json h \<Rightarrow> he_rate_limit h | Plain_Error _ \<Rightarrow> None)"

definition isGithubPrimaryRateLimit :: "network \<Rightarrow> request_error \<Rightarrow> bool" where
  "isGithubPrimaryRateLimit nw e \<longleftrightarrow> is_github nw \<and> map_option rl_kind (rate_limit_of e) = Some Primary"

definition primaryCooldownUntil :: "network \<Rightarrow> rate_limit_info \<Rightarrow> client \<Rightarrow> rat \<times> client" where
  "primaryCooldownUntil nw info c =
     (case rl_reset_at info of
        Some t \<Rightarrow> (t, c)
      | None \<Rightarrow> (let (now, c') = date_now nw c in (now + 3600000, c')))"

definition cool_down :: "network \<Rightarrow> nat \<Rightarrow> rat \<Rightarrow> client \<Rightarrow> client" where
  "cool_down nw idx until c =
     (let sh = cl_shared c in
      c\<lparr>cl_shared := sh\<lparr>sh_blocked := jm_set idx until (sh_blocked sh),
         sh_pools := markAuthTokenCooledDown (nw_tokens nw) idx (sh_selection sh) until (sh_pools sh)\<rparr>\<rparr>)"

definition put_selection :: "auth_selection \<Rightarrow> pools \<Rightarrow> client \<Rightarrow> client" where
  "put_selection sel g c = c\<lparr>cl_shared := (cl_shared c)\<lparr>sh_selection := sel, sh_pools := g\<rparr>\<rparr>"

text \<open>What both clients do with a failed attempt: rotate on a primary limit, else give up.\<close>

definition rotate :: "network \<Rightarrow> nat list \<Rightarrow> nat \<Rightarrow> request_error \<Rightarrow> client \<Rightarrow> nat option \<times> client" where
  "rotate nw tried idx e c =
     (case rate_limit_of e of
        None \<Rightarrow> (None, c)
      | Some info \<Rightarrow>
          if \<not> isGithubPrimaryRateLimit nw e then (None, c)
          else (let (until, c1) = primaryCooldownUntil nw info c; c2 = cool_down nw idx until c1;
                    (now, c3) = date_now nw c2; sh = cl_shared c3;
                    (r, sel, g) = nextAvailableToken (nw_tokens nw) (sh_blocked sh) tried idx now (sh_selection sh) (sh_pools sh)
                in (r, put_selection sel g c3)))"

definition min_opt :: "rat option \<Rightarrow> rat \<Rightarrow> rat option" where
  "min_opt a x = (case a of None \<Rightarrow> Some x | Some y \<Rightarrow> if x < y then Some x else Some y)"

definition soonest_reset :: "(nat, rat) jsmap \<Rightarrow> auth_token list \<Rightarrow> auth_selection \<Rightarrow> pools \<Rightarrow> rat option" where
  "soonest_reset blockedUntil tokens sel g =
     fold (\<lambda>idx acc. case Option.bind (elem_at tokens idx) (\<lambda>t.
               Option.bind (jm_get (po_states g) (budgetKey sel t)) bg_blocked_until) of
             None \<Rightarrow> acc | Some x \<Rightarrow> min_opt acc x)
       (sl_indexes sel) (fold (\<lambda>x acc. min_opt acc x) (jm_values blockedUntil) None)"

text \<open>\<open>soonest ? \<dots>\<close>: an instant of 0 counts as none; \<open>toISOString\<close> throws on an instant out of range.\<close>

definition allTokensCooledDownError ::
  "string \<Rightarrow> auth_token list \<Rightarrow> shared \<Rightarrow> request_error"
where
  "allTokensCooledDownError label tokens sh =
     (let soonest = (case soonest_reset (sh_blocked sh) tokens (sh_selection sh) (sh_pools sh) of
                       Some x \<Rightarrow> if x = 0 then None else Some x | None \<Rightarrow> None);
          err = (\<lambda>when. Http_Error
            \<lparr>he_message = label @ '': all '' @ nat_str (length tokens) @ '' token(s) are rate-limited'' @ when,
             he_status = 429,
             he_rate_limit = map_option (\<lambda>x. \<lparr>rl_kind = Primary, rl_reset_at = Some x, rl_retry_after = None\<rparr>) soonest\<rparr>) in
      case soonest of
        None \<Rightarrow> err []
      | Some x \<Rightarrow> (case toISOString (Some (js_trunc x)) of Inl e \<Rightarrow> Plain_Error e | Inr s \<Rightarrow> err ('' until '' @ s)))"

lemma card_untried:
  fixes idx n :: nat
  assumes "idx \<notin> set tried" and "idx < n"
  shows "card ({..<n} - set (idx # tried)) < card ({..<n} - set tried)"
  using assms by (simp only: list.set(2), subst Diff_insert, intro card_Diff1_less) simp_all

text \<open>
  The loop over the tokens, common to both clients.  \<open>attempt idx fallback\<close> is one attempt; an index
  outside the pool would be a \<open>TypeError\<close> at the first use of the token.
\<close>

function try_tokens ::
  "network \<Rightarrow> (nat \<Rightarrow> bool \<Rightarrow> client \<Rightarrow> (request_error + 'a) \<times> client) \<Rightarrow> string \<Rightarrow> nat \<Rightarrow> nat list \<Rightarrow>
   request_error option \<Rightarrow> client \<Rightarrow> (request_error + 'a) \<times> client"
where
  "try_tokens nw attempt label idx tried lastError c =
     (if idx \<in> set tried then
        (Inl (or_else lastError (Plain_Error (label @ '' could not select an available token for '' @ nw_url nw))), c)
      else if length (nw_tokens nw) \<le> idx then (Inl (Plain_Error ''Cannot read properties of undefined''), c)
      else
        (case attempt idx (tried \<noteq> []) c of
           (Inr v, c') \<Rightarrow> (Inr v, c')
         | (Inl e, c') \<Rightarrow>
             (case rotate nw (idx # tried) idx e c' of
                (None, c2) \<Rightarrow> (Inl e, c2)
              | (Some nxt, c2) \<Rightarrow> try_tokens nw attempt label nxt (idx # tried) (Some e) c2)))"
  by pat_completeness auto
termination
proof (relation "measure (\<lambda>(nw, attempt, label, idx, tried, lastError, c). card ({..<length (nw_tokens nw)} - set tried))")
  fix nw attempt label idx tried lastError c x xa xb xc y nxt
  assume "idx \<notin> set tried" "\<not> length (nw_tokens nw) \<le> idx"
  then have "card ({..<length (nw_tokens nw)} - set (idx # tried)) < card ({..<length (nw_tokens nw)} - set tried)"
    by (intro card_untried) simp_all
  then show "((nw, attempt, label, nxt, idx # tried, Some xa, xc), nw, attempt, label, idx, tried, lastError, c)
      \<in> measure (\<lambda>(nw, attempt, label, idx, tried, lastError, c). card ({..<length (nw_tokens nw)} - set tried))"
    by (simp only: in_measure prod.case)
qed simp

declare try_tokens.simps [simp del]

section \<open>The REST client\<close>

text \<open>
  \<open>`${json?.message ?? text}`\<close>: a message that is no string is printed by \<open>show\<close>, the conversion of a
  JSON value to a string.
\<close>

definition message_or_text :: "(json \<Rightarrow> string) \<Rightarrow> json \<Rightarrow> string \<Rightarrow> string" where
  "message_or_text show j text =
     (case json_member j ''message'' of
        None \<Rightarrow> text | Some JNull \<Rightarrow> text | Some (JStr s) \<Rightarrow> s | Some v \<Rightarrow> show v)"

definition http_error_of :: "network \<Rightarrow> nat \<Rightarrow> bool \<Rightarrow> response \<Rightarrow> string \<Rightarrow> http_error" where
  "http_error_of nw idx fallback res rawMessage =
     (let message = fallbackRepoAccessMessage rawMessage (nw_tokens nw ! idx) (rs_status res) (nw_provider nw) fallback in
      \<lparr>he_message = message, he_status = rs_status res,
       he_rate_limit = (if is_github nw then githubRateLimitInfo (rs_headers res) message else None)\<rparr>)"

definition header_budget :: "network \<Rightarrow> response \<Rightarrow> rate_budget option \<Rightarrow> rate_budget option" where
  "header_budget nw res body = (if is_github nw then githubRateBudgetFromHeaders (rs_headers res) body else None)"

definition status_prefix :: "string \<Rightarrow> response \<Rightarrow> string" where
  "status_prefix api res = api @ '' HTTP '' @ int_str (rs_status res) @ '': ''"

text \<open>\<open>text ? JSON.parse(text) : null\<close>; \<open>None\<close> when it throws.\<close>

definition rest_json :: "string \<times> json option \<Rightarrow> json option" where
  "rest_json body = (if fst body = [] then Some JNull else snd body)"

definition rest_attempt ::
  "(json \<Rightarrow> string) \<Rightarrow> network \<Rightarrow> nat \<Rightarrow> bool \<Rightarrow> client \<Rightarrow> (request_error + json) \<times> client"
where
  "rest_attempt show nw idx fallback c =
     (let (r, _, c1) = fetchWithTransientResponseRetry nw idx 0 (record_start nw idx c) in
      case r of
        Inl e \<Rightarrow> (Inl (Plain_Error e), record_done nw idx None c1)
      | Inr res \<Rightarrow>
          (case rs_body res of
             Inl e \<Rightarrow> (Inl (Plain_Error e), record_done nw idx None c1)
           | Inr body \<Rightarrow>
               (let c2 = record_done nw idx (header_budget nw res None) c1 in
                case rest_json body of
                  None \<Rightarrow> (Inl (Plain_Error (status_prefix ''REST'' res @ ''non-JSON response from '' @ nw_url nw)), c2)
                | Some j \<Rightarrow>
                    if res_ok res then (Inr j, c2)
                    else (Inl (Http_Error (http_error_of nw idx fallback res
                            (status_prefix ''REST'' res @ message_or_text show j (fst body)))), c2))))"

definition request ::
  "network \<Rightarrow> string \<Rightarrow> (nat \<Rightarrow> bool \<Rightarrow> client \<Rightarrow> (request_error + 'a) \<times> client) \<Rightarrow> client \<Rightarrow> (request_error + 'a) \<times> client"
where
  "request nw label attempt c =
     (let (now, c1) = date_now nw c; sh = cl_shared c1;
          (first, sel, g) = selectAvailableToken (nw_tokens nw) (sh_blocked sh) now (sh_selection sh) (sh_pools sh);
          c2 = put_selection sel g c1 in
      case first of
        None \<Rightarrow> (Inl (allTokensCooledDownError (label @ '' to '' @ nw_url nw) (nw_tokens nw) (cl_shared c2)), c2)
      | Some idx \<Rightarrow> try_tokens nw attempt label idx [] None c2)"

definition rest :: "(json \<Rightarrow> string) \<Rightarrow> network \<Rightarrow> client \<Rightarrow> (request_error + json) \<times> client" where
  "rest show nw = request nw ''REST request'' (rest_attempt show nw)"

text \<open>
  What a retried fetch spends: one request per delay used up and one more, all with the same token;
  its response is the reply to the last of them.
\<close>

lemma fetch_retry_spends:
  assumes "fetchWithTransientResponseRetry nw idx used c = (r, used', c')"
  shows "used \<le> used' \<and> (used \<le> length (nw_delays nw) \<longrightarrow> used' \<le> length (nw_delays nw)) \<and>
    cl_requests c' = cl_requests c + (used' - used + 1) \<and> cl_sent c' = cl_sent c @ replicate (used' - used + 1) idx \<and>
    cl_readings c' = cl_readings c \<and>
    (\<forall>res. r = Inr res \<longrightarrow> nw_reply nw (cl_requests c' - 1) = Replied res)"
  using assms
proof (induction nw idx used c arbitrary: r used' c' rule: fetchWithTransientResponseRetry.induct)
  case (1 nw idx used c)
  obtain o1 c1 where s: "send nw idx c = (o1, c1)" by fastforce
  then have c1: "o1 = nw_reply nw (cl_requests c)" "cl_requests c1 = cl_requests c + 1" "cl_sent c1 = cl_sent c @ [idx]"
    "cl_readings c1 = cl_readings c" by (auto simp: send_def)
  consider (stop) "used' = used" "c' = c1" "\<forall>res. r = Inr res \<longrightarrow> o1 = Replied res"
    | (again) "fetchWithTransientResponseRetry nw idx (used + 1) c1 = (r, used', c')" "used < length (nw_delays nw)"
        "is_github nw" "elem_at (nw_delays nw) used \<noteq> None" "o1 = Refused \<or> (\<exists>res. o1 = Replied res \<and> transient_status (rs_status res))"
    using "1.prems" s by (subst (asm) fetchWithTransientResponseRetry.simps)
      (auto simp: elem_at_def Let_def split: outcome.splits if_splits)
  then show ?case
  proof cases
    case stop
    with c1 show ?thesis by simp
  next
    case again
    have "used + 1 \<le> used' \<and> (used + 1 \<le> length (nw_delays nw) \<longrightarrow> used' \<le> length (nw_delays nw)) \<and>
        cl_requests c' = cl_requests c1 + (used' - (used + 1) + 1) \<and>
        cl_sent c' = cl_sent c1 @ replicate (used' - (used + 1) + 1) idx \<and> cl_readings c' = cl_readings c1 \<and>
        (\<forall>res. r = Inr res \<longrightarrow> nw_reply nw (cl_requests c' - 1) = Replied res)"
      using again(5)
    proof
      assume "o1 = Refused"
      then show ?thesis using again by (intro "1.IH"(2) [OF refl refl s [symmetric]]) simp_all
    next
      assume "\<exists>res. o1 = Replied res \<and> transient_status (rs_status res)"
      then obtain res where "o1 = Replied res" "transient_status (rs_status res)" by blast
      then show ?thesis using again by (intro "1.IH"(1) [OF refl refl s [symmetric]]) simp_all
    qed
    moreover from this obtain d where "used' = used + 1 + d" using le_Suc_ex by blast
    ultimately show ?thesis using c1 again(2) by auto
  qed
qed

section \<open>The GraphQL client\<close>

text \<open>
  The inner loop: a 2xx answer of GitHub that is not JSON spends the same retry budget as a gateway
  status.
\<close>

datatype gql_reply = Parsed response string json | Unparsable response | Unread string

function gql_fetch :: "network \<Rightarrow> nat \<Rightarrow> nat \<Rightarrow> client \<Rightarrow> gql_reply \<times> client" where
  "gql_fetch nw idx used c =
     (case fetchWithTransientResponseRetry nw idx used c of
        (Inl e, _, c1) \<Rightarrow> (Unread e, c1)
      | (Inr res, used', c1) \<Rightarrow>
          (case rs_body res of
             Inl e \<Rightarrow> (Unread e, c1)
           | Inr (text, Some j) \<Rightarrow> (Parsed res text j, c1)
           | Inr (text, None) \<Rightarrow>
               if \<not> is_github nw \<or> \<not> res_ok res \<or> elem_at (nw_delays nw) used' = None
               then (Unparsable res, c1)
               else gql_fetch nw idx (used' + 1) c1))"
  by pat_completeness auto
termination
  by (relation "measure (\<lambda>(nw, idx, used, c). length (nw_delays nw) - used)")
     (auto dest!: fetch_retry_spends [OF sym] simp: elem_at_def split: if_splits)

declare gql_fetch.simps [simp del]

text \<open>
  \<open>json.errors?.length\<close> and the texts of the errors: reading a member of \<open>null\<close> throws, and so does
  \<open>map\<close> on what has a length but is no array.
\<close>

definition truthy :: "json \<Rightarrow> bool" where
  "truthy j = (case j of JNull \<Rightarrow> False | JBool b \<Rightarrow> b | JNum n \<Rightarrow> n \<noteq> 0 | JStr s \<Rightarrow> s \<noteq> [] | _ \<Rightarrow> True)"

definition gql_errors :: "json \<Rightarrow> json list result" where
  "gql_errors j =
     (case j of
        JNull \<Rightarrow> Inl ''Cannot read properties of null''
      | _ \<Rightarrow> (case json_member j ''errors'' of
           Some (JArr es) \<Rightarrow> Inr es
         | Some (JStr s) \<Rightarrow> if s = [] then Inr [] else Inl ''json.errors.map is not a function''
         | Some (JObj ms) \<Rightarrow>
             if (\<exists>v\<in>set_option (obj_get ms ''length''). truthy v) then Inl ''json.errors.map is not a function'' else Inr []
         | _ \<Rightarrow> Inr []))"

definition error_text :: "(json \<Rightarrow> string) \<Rightarrow> json \<Rightarrow> string result" where
  "error_text show e =
     (case e of
        JNull \<Rightarrow> Inl ''Cannot read properties of null''
      | _ \<Rightarrow> Inr (case json_member e ''message'' of
           None \<Rightarrow> [] | Some JNull \<Rightarrow> [] | Some (JStr s) \<Rightarrow> s | Some v \<Rightarrow> show v))"

text \<open>The answer of a call: the \<open>data\<close> member, \<open>None\<close> for \<open>undefined\<close>.\<close>

definition gql_judge ::
  "(json \<Rightarrow> string) \<Rightarrow> network \<Rightarrow> nat \<Rightarrow> bool \<Rightarrow> response \<Rightarrow> string \<Rightarrow> json \<Rightarrow> request_error + json option"
where
  "gql_judge show nw idx fallback res text j =
     (if \<not> res_ok res then
        Inl (Http_Error (http_error_of nw idx fallback res (status_prefix ''GraphQL'' res @ message_or_text show j text)))
      else (case gql_errors j of
              Inl e \<Rightarrow> Inl (Plain_Error e)
            | Inr [] \<Rightarrow> Inr (json_member j ''data'')
            | Inr es \<Rightarrow>
                (case mapM (error_text show) es of
                   Inl e \<Rightarrow> Inl (Plain_Error e)
                 | Inr ts \<Rightarrow> Inl (Gql_Errors (http_error_of nw idx fallback res (''GraphQL errors: '' @ join ''; '' ts))
                                   es (or_else (json_member j ''data'') JNull)))))"

definition add_cost :: "network \<Rightarrow> rate_budget option \<Rightarrow> client \<Rightarrow> client" where
  "add_cost nw budget c =
     (if is_github nw then c\<lparr>cl_costs := cl_costs c @ [Option.bind budget ra_cost]\<rparr> else c)"

definition gql_attempt ::
  "(json \<Rightarrow> string) \<Rightarrow> network \<Rightarrow> nat \<Rightarrow> bool \<Rightarrow> client \<Rightarrow> (request_error + json option) \<times> client"
where
  "gql_attempt show nw idx fallback c =
     (case gql_fetch nw idx 0 (record_start nw idx c) of
        (Unread e, c1) \<Rightarrow> (Inl (Plain_Error e), record_done nw idx None c1)
      | (Unparsable res, c1) \<Rightarrow>
          (let message = status_prefix ''GraphQL'' res @ ''non-JSON response from '' @ nw_url nw in
           (Inl (if is_github nw then Non_Json \<lparr>he_message = message, he_status = rs_status res, he_rate_limit = None\<rparr>
                 else Plain_Error message),
            record_done nw idx (header_budget nw res None) c1))
      | (Parsed res text j, c1) \<Rightarrow>
          (let graphqlBudget = (if is_github nw then githubGraphqlRateBudget (json_member j ''data'') else None) in
           (gql_judge show nw idx fallback res text j,
            record_done nw idx (header_budget nw res graphqlBudget) (add_cost nw graphqlBudget c1))))"

definition gql :: "(json \<Rightarrow> string) \<Rightarrow> network \<Rightarrow> client \<Rightarrow> (request_error + json option) \<times> client" where
  "gql show nw = request nw ''GraphQL request'' (gql_attempt show nw)"

text \<open>A failure that a smaller page may avoid.\<close>

definition isGithubHeavyQueryFailure :: "request_error \<Rightarrow> bool" where
  "isGithubHeavyQueryFailure e =
     (case e of
        Non_Json h \<Rightarrow> (200 \<le> he_status h \<and> he_status h < 300) \<or> transient_status (he_status h)
      | Http_Error h \<Rightarrow> transient_status (he_status h)
      | _ \<Rightarrow> False)"

end
