(* ===== verification/Client_Safety.thy ===== *)
theory Client_Safety
  imports Provider_Client
begin

text \<open>
  What the provider clients guarantee, whatever the network answers and whatever other calls do to
  the shared state meanwhile: bounded traffic, no token used twice by one call, no data from a
  response that failed.
\<close>

section \<open>The contract of an attempt\<close>

text \<open>
  The token loop relies on one law of an attempt: its requests all use the given token, at least one
  and at most one more than there are retry delays.
\<close>

definition spends :: "network \<Rightarrow> nat \<Rightarrow> client \<Rightarrow> client \<Rightarrow> bool" where
  "spends nw idx c c' \<longleftrightarrow>
     (\<exists>k. 0 < k \<and> k \<le> length (nw_delays nw) + 1 \<and>
          cl_requests c' = cl_requests c + k \<and> cl_sent c' = cl_sent c @ replicate k idx)"

locale token_attempt =
  fixes nw :: network and attempt :: "nat \<Rightarrow> bool \<Rightarrow> client \<Rightarrow> (request_error + 'a) \<times> client"
  assumes attempt_spends: "spends nw idx c (snd (attempt idx fallback c))"

lemma rotate_frame [simp]:
  "cl_requests (snd (rotate nw tried idx e c)) = cl_requests c"
  "cl_sent (snd (rotate nw tried idx e c)) = cl_sent c"
  by (auto simp: rotate_def Let_def split_beta put_selection_def cool_down_def date_now_def primaryCooldownUntil_def
      split: option.split)

lemma rotate_fresh:
  assumes "rotate nw tried idx e c = (Some i, c')"
  shows "i < length (nw_tokens nw) \<and> i \<notin> set tried"
proof (cases "rate_limit_of e")
  case (Some info)
  define c3 where "c3 = snd (date_now nw (cool_down nw idx (fst (primaryCooldownUntil nw info c)) (snd (primaryCooldownUntil nw info c))))"
  define now where "now = fst (date_now nw (cool_down nw idx (fst (primaryCooldownUntil nw info c)) (snd (primaryCooldownUntil nw info c))))"
  have "fst (nextAvailableToken (nw_tokens nw) (sh_blocked (cl_shared c3)) tried idx now
          (sh_selection (cl_shared c3)) (sh_pools (cl_shared c3))) = Some i"
    using assms Some by (auto simp: rotate_def Let_def split_beta c3_def now_def split: if_splits)
  then obtain sel g where "nextAvailableToken (nw_tokens nw) (sh_blocked (cl_shared c3)) tried idx now
          (sh_selection (cl_shared c3)) (sh_pools (cl_shared c3)) = (Some i, sel, g)" by (metis prod.collapse)
  from nextAvailableToken_result [OF this] show ?thesis by (auto simp: usable_tokens_def)
qed (use assms in \<open>simp add: rotate_def\<close>)

text \<open>The runs of requests, one token each.\<close>

definition runs_ok :: "network \<Rightarrow> nat list \<Rightarrow> (nat \<times> nat) list \<Rightarrow> bool" where
  "runs_ok nw tried runs \<longleftrightarrow>
     distinct (map fst runs) \<and> fst ` set runs \<subseteq> {..<length (nw_tokens nw)} - set tried \<and>
     (\<forall>k \<in> snd ` set runs. k \<le> length (nw_delays nw) + 1)"

definition traffic :: "client \<Rightarrow> (nat \<times> nat) list \<Rightarrow> client \<Rightarrow> bool" where
  "traffic c runs c' \<longleftrightarrow>
     cl_requests c' = cl_requests c + sum_list (map snd runs) \<and>
     cl_sent c' = cl_sent c @ concat (map (\<lambda>(i, k). replicate k i) runs)"

lemma runs_ok_bound:
  assumes "runs_ok nw tried runs"
  shows "sum_list (map snd runs) \<le> length (nw_tokens nw) * (length (nw_delays nw) + 1)"
proof -
  have "length runs = card (fst ` set runs)"
    using assms by (metis distinct_card length_map list.set_map runs_ok_def)
  also have "\<dots> \<le> card {..<length (nw_tokens nw)}"
    using assms by (intro card_mono) (auto simp: runs_ok_def)
  finally have "length runs \<le> length (nw_tokens nw)" by simp
  moreover have "sum_list (map snd runs) \<le> length runs * (length (nw_delays nw) + 1)"
  proof -
    have "sum_list (map snd runs) \<le> sum_list (map (\<lambda>_. length (nw_delays nw) + 1) runs)"
      using assms by (intro sum_list_mono) (auto simp: runs_ok_def)
    then show ?thesis by (simp add: sum_list_triv)
  qed
  ultimately show ?thesis by (meson le_trans mult_le_mono1)
qed

lemma request_cases:
  obtains first c2 where "cl_requests c2 = cl_requests c" and "cl_sent c2 = cl_sent c"
    and "request nw label attempt c =
      (case first of
         None \<Rightarrow> (Inl (allTokensCooledDownError (label @ '' to '' @ nw_url nw) (nw_tokens nw) (cl_shared c2)), c2)
       | Some idx \<Rightarrow> try_tokens nw attempt label idx [] None c2)"
    and "first = None \<longleftrightarrow> usable_tokens (nw_tokens nw) (sh_blocked (cl_shared c)) (sh_selection (cl_shared c))
            (nw_clock nw (cl_readings c)) (sh_pools (cl_shared c)) = {}"
    and "\<forall>i. first = Some i \<longrightarrow> i < length (nw_tokens nw)"
proof -
  obtain first sel g where s: "selectAvailableToken (nw_tokens nw) (sh_blocked (cl_shared c)) (nw_clock nw (cl_readings c))
     (sh_selection (cl_shared c)) (sh_pools (cl_shared c)) = (first, sel, g)" by (metis prod.collapse)
  define c2 where "c2 = put_selection sel g (c\<lparr>cl_readings := cl_readings c + 1\<rparr>)"
  have "request nw label attempt c =
      (case first of
         None \<Rightarrow> (Inl (allTokensCooledDownError (label @ '' to '' @ nw_url nw) (nw_tokens nw) (cl_shared c2)), c2)
       | Some idx \<Rightarrow> try_tokens nw attempt label idx [] None c2)"
    unfolding request_def date_now_def c2_def Let_def prod.case by (simp add: s)
  moreover have "cl_requests c2 = cl_requests c" "cl_sent c2 = cl_sent c"
    by (simp_all add: c2_def put_selection_def)
  ultimately show ?thesis
    using selectAvailableToken_result [OF s] by (intro that [of c2 first]) (auto simp: usable_tokens_def split: option.splits)
qed

context token_attempt
begin

lemma try_tokens_traffic:
  "\<exists>runs. runs_ok nw tried runs \<and> traffic c runs (snd (try_tokens nw attempt label idx tried lastError c)) \<and>
     (runs = [] \<longleftrightarrow> idx \<in> set tried \<or> length (nw_tokens nw) \<le> idx)"
proof (induction "card ({..<length (nw_tokens nw)} - set tried)" arbitrary: idx tried lastError c rule: less_induct)
  case less
  show ?case
  proof (cases "idx \<in> set tried \<or> length (nw_tokens nw) \<le> idx")
    case True
    then have "snd (try_tokens nw attempt label idx tried lastError c) = c"
      by (subst try_tokens.simps) auto
    with True show ?thesis by (intro exI [of _ "[]"]) (simp add: runs_ok_def traffic_def)
  next
    case False
    then have fresh: "idx \<notin> set tried" "idx < length (nw_tokens nw)" by auto
    obtain r c1 where at: "attempt idx (tried \<noteq> []) c = (r, c1)" by fastforce
    from attempt_spends [of idx c "tried \<noteq> []"] at obtain k where k: "k \<le> length (nw_delays nw) + 1"
      "cl_requests c1 = cl_requests c + k" "cl_sent c1 = cl_sent c @ replicate k idx" by (auto simp: spends_def)
    have stop: ?thesis if "snd (try_tokens nw attempt label idx tried lastError c) = c2"
      "cl_requests c2 = cl_requests c1" "cl_sent c2 = cl_sent c1" for c2
      using that k fresh by (intro exI [of _ "[(idx, k)]"]) (simp add: runs_ok_def traffic_def)
    show ?thesis
    proof (cases r)
      case (Inr v)
      with at fresh show ?thesis by (intro stop) (subst try_tokens.simps, simp_all)
    next
      case (Inl e)
      obtain n c2 where ro: "rotate nw (idx # tried) idx e c1 = (n, c2)" by fastforce
      then have c2: "cl_requests c2 = cl_requests c1" "cl_sent c2 = cl_sent c1"
        using rotate_frame [of nw "idx # tried" idx e c1] by simp_all
      show ?thesis
      proof (cases n)
        case None
        with at ro fresh Inl c2 show ?thesis by (intro stop [of c2]) (subst try_tokens.simps, simp_all)
      next
        case (Some i)
        have "card ({..<length (nw_tokens nw)} - set (idx # tried)) < card ({..<length (nw_tokens nw)} - set tried)"
          using fresh by (rule card_untried)
        from less(1) [OF this, of c2 i "Some e"] obtain runs where runs: "runs_ok nw (idx # tried) runs"
          "traffic c2 runs (snd (try_tokens nw attempt label i (idx # tried) (Some e) c2))" by blast
        have "try_tokens nw attempt label idx tried lastError c = try_tokens nw attempt label i (idx # tried) (Some e) c2"
          using at ro fresh Inl Some by (subst try_tokens.simps) simp
        with runs k c2 fresh show ?thesis
          by (intro exI [of _ "(idx, k) # runs"]) (auto simp: runs_ok_def traffic_def)
      qed
    qed
  qed
qed

lemma try_tokens_sends:
  assumes "idx \<notin> set tried" and "idx < length (nw_tokens nw)"
  shows "cl_requests c < cl_requests (snd (try_tokens nw attempt label idx tried lastError c))"
proof -
  obtain r c1 where at: "attempt idx (tried \<noteq> []) c = (r, c1)" by fastforce
  from attempt_spends [of idx c "tried \<noteq> []"] at have less: "cl_requests c < cl_requests c1" by (auto simp: spends_def)
  show ?thesis
  proof (cases r)
    case (Inr v)
    with at assms less show ?thesis by (subst try_tokens.simps) simp
  next
    case (Inl e)
    obtain n c2 where ro: "rotate nw (idx # tried) idx e c1 = (n, c2)" by fastforce
    then have c2: "cl_requests c2 = cl_requests c1" using rotate_frame(1) [of nw "idx # tried" idx e c1] by simp
    show ?thesis
    proof (cases n)
      case None
      with at ro assms Inl c2 less show ?thesis by (subst try_tokens.simps) simp
    next
      case (Some i)
      have "try_tokens nw attempt label idx tried lastError c = try_tokens nw attempt label i (idx # tried) (Some e) c2"
        using at ro assms Inl Some by (subst try_tokens.simps) simp
      with try_tokens_traffic [of "idx # tried" c2 label i "Some e"] c2 less show ?thesis by (auto simp: traffic_def)
    qed
  qed
qed

lemma request_traffic:
  "\<exists>runs. runs_ok nw [] runs \<and> traffic c runs (snd (request nw label attempt c))"
proof -
  obtain first c2 where c2: "cl_requests c2 = cl_requests c" "cl_sent c2 = cl_sent c"
    and eq: "request nw label attempt c =
      (case first of
         None \<Rightarrow> (Inl (allTokensCooledDownError (label @ '' to '' @ nw_url nw) (nw_tokens nw) (cl_shared c2)), c2)
       | Some idx \<Rightarrow> try_tokens nw attempt label idx [] None c2)"
    by (rule request_cases)
  show ?thesis
  proof (cases first)
    case None
    with eq c2 show ?thesis by (intro exI [of _ "[]"]) (simp add: runs_ok_def traffic_def)
  next
    case (Some idx)
    from try_tokens_traffic [of "[]" c2 label idx None] obtain runs where "runs_ok nw [] runs"
      "traffic c2 runs (snd (try_tokens nw attempt label idx [] None c2))" by blast
    with eq c2 Some show ?thesis by (intro exI [of _ runs]) (simp add: traffic_def)
  qed
qed

lemma request_bounded:
  "cl_requests (snd (request nw label attempt c)) \<le> cl_requests c + length (nw_tokens nw) * (length (nw_delays nw) + 1)"
proof -
  obtain runs where "runs_ok nw [] runs" "traffic c runs (snd (request nw label attempt c))"
    using request_traffic by blast
  with runs_ok_bound [of nw "[]" runs] show ?thesis by (auto simp: traffic_def)
qed

lemma try_tokens_success:
  assumes "try_tokens nw attempt label idx tried lastError c = (Inr v, c')"
  shows "\<exists>i fallback c0. attempt i fallback c0 = (Inr v, c')"
  using assms
proof (induction "card ({..<length (nw_tokens nw)} - set tried)" arbitrary: idx tried lastError c rule: less_induct)
  case less
  have fresh: "idx \<notin> set tried" "idx < length (nw_tokens nw)"
    using less(2) try_tokens.simps [of nw attempt label idx tried lastError c] by (auto split: if_splits)
  obtain r c1 where at: "attempt idx (tried \<noteq> []) c = (r, c1)" by fastforce
  show ?case
  proof (cases r)
    case (Inr w)
    with less(2) at fresh have "Inr w = Inr v" "c1 = c'" by (subst (asm) try_tokens.simps, simp)+
    with at Inr show ?thesis by (intro exI) simp
  next
    case (Inl e)
    with less(2) at fresh obtain i c2 where "rotate nw (idx # tried) idx e c1 = (Some i, c2)"
      and more: "try_tokens nw attempt label i (idx # tried) (Some e) c2 = (Inr v, c')"
      by (subst (asm) try_tokens.simps) (auto split: option.splits prod.splits)
    have "card ({..<length (nw_tokens nw)} - set (idx # tried)) < card ({..<length (nw_tokens nw)} - set tried)"
      using fresh by (rule card_untried)
    from less(1) [OF this more] show ?thesis .
  qed
qed

lemma request_success:
  assumes "request nw label attempt c = (Inr v, c')"
  shows "\<exists>i fallback c0. attempt i fallback c0 = (Inr v, c')"
proof (cases rule: request_cases [of c nw label attempt])
  case (1 first c2)
  with assms obtain idx where "try_tokens nw attempt label idx [] None c2 = (Inr v, c')"
    by (auto split: option.splits)
  then show ?thesis by (rule try_tokens_success)
qed

end

section \<open>Both clients meet the contract\<close>

lemma record_frame [simp]:
  "cl_requests (record_start nw idx c) = cl_requests c" "cl_sent (record_start nw idx c) = cl_sent c"
  "cl_requests (record_done nw idx b c) = cl_requests c" "cl_sent (record_done nw idx b c) = cl_sent c"
  "cl_requests (add_cost nw bo c) = cl_requests c" "cl_sent (add_cost nw bo c) = cl_sent c"
  by (simp_all add: record_start_def record_done_def date_now_def add_cost_def)

lemma spendsI:
  assumes "cl_requests c' = cl_requests c + k" and "cl_sent c' = cl_sent c @ replicate k idx"
    and "0 < k" and "k \<le> length (nw_delays nw) + 1"
  shows "spends nw idx c c'"
  using assms by (auto simp: spends_def)

lemma rest_attempt_cases:
  obtains r u c1 where "fetchWithTransientResponseRetry nw idx 0 (record_start nw idx c) = (r, u, c1)"
    and "spends nw idx c c1" and "\<forall>res. r = Inr res \<longrightarrow> nw_reply nw (cl_requests c1 - 1) = Replied res"
proof -
  obtain r u c1 where f: "fetchWithTransientResponseRetry nw idx 0 (record_start nw idx c) = (r, u, c1)"
    by (metis prod.collapse)
  from fetch_retry_spends [OF f] show ?thesis
    by (intro that [OF f]) (auto intro: spendsI [where k = "u + 1"])
qed

lemma spends_frame:
  "spends nw idx c c1 \<Longrightarrow> cl_requests c' = cl_requests c1 \<Longrightarrow> cl_sent c' = cl_sent c1 \<Longrightarrow> spends nw idx c c'"
  by (simp add: spends_def)

interpretation rest_calls: token_attempt nw "rest_attempt show nw"
proof
  fix idx fallback c
  obtain r u c1 where f: "fetchWithTransientResponseRetry nw idx 0 (record_start nw idx c) = (r, u, c1)"
    and s: "spends nw idx c c1" by (rule rest_attempt_cases)
  show "spends nw idx c (snd (rest_attempt show nw idx fallback c))"
    by (rule spends_frame [OF s])
       (auto simp: rest_attempt_def f Let_def split: sum.split option.split)
qed

lemma rest_attempt_success:
  assumes "rest_attempt show nw idx fallback c = (Inr v, c')"
  shows "\<exists>res body. nw_reply nw (cl_requests c' - 1) = Replied res \<and> res_ok res \<and>
    rs_body res = Inr body \<and> rest_json body = Some v"
proof -
  obtain r u c1 where f: "fetchWithTransientResponseRetry nw idx 0 (record_start nw idx c) = (r, u, c1)"
    and r: "\<forall>res. r = Inr res \<longrightarrow> nw_reply nw (cl_requests c1 - 1) = Replied res" by (rule rest_attempt_cases)
  with assms show ?thesis
    by (auto simp: rest_attempt_def f Let_def split: sum.splits option.splits if_splits)
qed

lemma gql_fetch_spends:
  assumes "gql_fetch nw idx used c = (r, c')" and "used \<le> length (nw_delays nw)"
  shows "\<exists>k. 0 < k \<and> k \<le> length (nw_delays nw) - used + 1 \<and>
    cl_requests c' = cl_requests c + k \<and> cl_sent c' = cl_sent c @ replicate k idx \<and>
    (\<forall>res text j. r = Parsed res text j \<longrightarrow>
       nw_reply nw (cl_requests c' - 1) = Replied res \<and> rs_body res = Inr (text, Some j))"
  using assms
proof (induction nw idx used c arbitrary: r c' rule: gql_fetch.induct)
  case (1 nw idx used c)
  obtain o1 u c1 where f: "fetchWithTransientResponseRetry nw idx used c = (o1, u, c1)" by (metis prod.collapse)
  from fetch_retry_spends [OF f] "1.prems"(2) have c1: "used \<le> u" "u \<le> length (nw_delays nw)"
    "cl_requests c1 = cl_requests c + (u - used + 1)" "cl_sent c1 = cl_sent c @ replicate (u - used + 1) idx"
    "\<forall>res. o1 = Inr res \<longrightarrow> nw_reply nw (cl_requests c1 - 1) = Replied res" by auto
  consider (stop) "c' = c1" "\<forall>res text j. r = Parsed res text j \<longrightarrow> o1 = Inr res \<and> rs_body res = Inr (text, Some j)"
    | (again) res tx where "o1 = Inr res" "rs_body res = Inr (tx, None)" "is_github nw" "res_ok res"
        "u < length (nw_delays nw)" "gql_fetch nw idx (u + 1) c1 = (r, c')"
    using "1.prems"(1) by (subst (asm) gql_fetch.simps)
      (auto simp: f elem_at_def split: sum.splits option.splits if_splits)
  then show ?case
  proof cases
    case stop
    with c1 show ?thesis by (intro exI [of _ "u - used + 1"]) auto
  next
    case again
    have "\<exists>k. 0 < k \<and> k \<le> length (nw_delays nw) - (u + 1) + 1 \<and>
        cl_requests c' = cl_requests c1 + k \<and> cl_sent c' = cl_sent c1 @ replicate k idx \<and>
        (\<forall>res text j. r = Parsed res text j \<longrightarrow>
           nw_reply nw (cl_requests c' - 1) = Replied res \<and> rs_body res = Inr (text, Some j))"
      using again c1 by (intro "1.IH" [OF f [symmetric] _ refl _ refl]) (auto simp: elem_at_def)
    then obtain k where k: "0 < k" "k \<le> length (nw_delays nw) - (u + 1) + 1"
        "cl_requests c' = cl_requests c1 + k" "cl_sent c' = cl_sent c1 @ replicate k idx"
        "\<forall>res text j. r = Parsed res text j \<longrightarrow>
           nw_reply nw (cl_requests c' - 1) = Replied res \<and> rs_body res = Inr (text, Some j)" by blast
    obtain d where d: "u = used + d" using c1(1) le_Suc_ex by blast
    have "d + 1 + k \<le> length (nw_delays nw) - used + 1" using k(2) d again(5) by linarith
    moreover have "cl_sent c' = cl_sent c @ replicate (d + 1 + k) idx" using k(4) c1(4) d by (simp add: replicate_add)
    moreover have "cl_requests c' = cl_requests c + (d + 1 + k)" using k(3) c1(3) d by simp
    ultimately show ?thesis using k(1,5) by (intro exI [of _ "d + 1 + k"]) simp
  qed
qed

lemma gql_attempt_cases:
  obtains r c1 where "gql_fetch nw idx 0 (record_start nw idx c) = (r, c1)" and "spends nw idx c c1"
    and "\<forall>res text j. r = Parsed res text j \<longrightarrow>
       nw_reply nw (cl_requests c1 - 1) = Replied res \<and> rs_body res = Inr (text, Some j)"
proof -
  obtain r c1 where f: "gql_fetch nw idx 0 (record_start nw idx c) = (r, c1)" by (metis prod.collapse)
  from gql_fetch_spends [OF f zero_le, unfolded record_frame minus_nat.diff_0] obtain k where "0 < k" "k \<le> length (nw_delays nw) + 1"
    "cl_requests c1 = cl_requests c + k" "cl_sent c1 = cl_sent c @ replicate k idx"
    "\<forall>res text j. r = Parsed res text j \<longrightarrow>
       nw_reply nw (cl_requests c1 - 1) = Replied res \<and> rs_body res = Inr (text, Some j)" by blast
  then show ?thesis by (intro that [OF f]) (auto intro: spendsI)
qed

interpretation gql_calls: token_attempt nw "gql_attempt show nw"
proof
  fix idx fallback c
  obtain r c1 where f: "gql_fetch nw idx 0 (record_start nw idx c) = (r, c1)" and s: "spends nw idx c c1"
    by (rule gql_attempt_cases)
  show "spends nw idx c (snd (gql_attempt show nw idx fallback c))"
    by (rule spends_frame [OF s]) (auto simp: gql_attempt_def f Let_def split: gql_reply.split)
qed

lemma gql_judge_success:
  assumes "gql_judge show nw idx fallback res text j = Inr v"
  shows "res_ok res \<and> gql_errors j = Inr [] \<and> v = json_member j ''data''"
  using assms by (auto simp: gql_judge_def split: if_splits sum.splits list.splits)

lemma gql_attempt_success:
  assumes "gql_attempt show nw idx fallback c = (Inr v, c')"
  shows "\<exists>res text j. nw_reply nw (cl_requests c' - 1) = Replied res \<and> res_ok res \<and>
    rs_body res = Inr (text, Some j) \<and> gql_errors j = Inr [] \<and> v = json_member j ''data''"
proof -
  obtain r c1 where f: "gql_fetch nw idx 0 (record_start nw idx c) = (r, c1)"
    and r: "\<forall>res text j. r = Parsed res text j \<longrightarrow>
       nw_reply nw (cl_requests c1 - 1) = Replied res \<and> rs_body res = Inr (text, Some j)" by (rule gql_attempt_cases)
  from assms obtain res tx j where p: "r = Parsed res tx j" "gql_judge show nw idx fallback res tx j = Inr v"
    "cl_requests c' = cl_requests c1"
    by (auto simp: gql_attempt_def f Let_def split: gql_reply.splits if_splits)
  with r gql_judge_success [OF p(2)] show ?thesis by auto
qed

section \<open>Properties\<close>

text \<open>
  Claim C15. The traffic of one GraphQL call is bounded, whatever the network answers and whatever other
  calls do meanwhile: its requests come in runs, one token each, no token has two runs, every run has
  at most one request more than there are retry delays, so the call ends after at most
  \<open>tokens * (delays + 1)\<close> requests.
\<close>

theorem gql_traffic_bounded:
  "(\<exists>runs. runs_ok nw [] runs \<and> traffic c runs (snd (gql show nw c))) \<and>
   cl_requests (snd (gql show nw c)) \<le> cl_requests c + length (nw_tokens nw) * (length (nw_delays nw) + 1)"
  using gql_calls.request_traffic [of nw c "''GraphQL request''" "show"] gql_calls.request_bounded [of nw "''GraphQL request''" "show" c]
  unfolding gql_def by (rule conjI)

text \<open>The same for one REST call.\<close>

theorem rest_traffic_bounded:
  "(\<exists>runs. runs_ok nw [] runs \<and> traffic c runs (snd (rest show nw c))) \<and>
   cl_requests (snd (rest show nw c)) \<le> cl_requests c + length (nw_tokens nw) * (length (nw_delays nw) + 1)"
  using rest_calls.request_traffic [of nw c "''REST request''" "show"] rest_calls.request_bounded [of nw "''REST request''" "show" c]
  unfolding rest_def by (rule conjI)

text \<open>
  Claim C16. A GraphQL call yields data only from a response that succeeded as a whole: the last
  response of the call, with a 2xx status, a JSON body and no GraphQL errors. Partial data beside
  errors is never returned as a result.
\<close>

theorem gql_data_is_complete:
  "case gql show nw c of
     (Inl _, _) \<Rightarrow> True
   | (Inr v, c') \<Rightarrow>
       (\<exists>res text j. nw_reply nw (cl_requests c' - 1) = Replied res \<and> res_ok res \<and>
          rs_body res = Inr (text, Some j) \<and> gql_errors j = Inr [] \<and> v = json_member j ''data'')"
proof (cases "gql show nw c")
  case (Pair r c')
  show ?thesis
  proof (cases r)
    case (Inr v)
    with Pair gql_calls.request_success [of nw "''GraphQL request''" "show" c v c'] obtain i fallback c0
      where "gql_attempt show nw i fallback c0 = (Inr v, c')" by (auto simp: gql_def)
    from gql_attempt_success [OF this] Pair Inr show ?thesis by simp
  qed (use Pair in simp)
qed

text \<open>
  A call sends a request exactly when some token of the pool is usable at its start; when
  none is, it fails at once with the error that says so.
\<close>

theorem gql_fails_fast_when_cooled_down:
  "cl_requests (snd (gql show nw c)) = cl_requests c \<longleftrightarrow>
   usable_tokens (nw_tokens nw) (sh_blocked (cl_shared c)) (sh_selection (cl_shared c))
     (nw_clock nw (cl_readings c)) (sh_pools (cl_shared c)) = {}"
proof (cases rule: request_cases [of c nw "''GraphQL request''" "gql_attempt show nw"])
  case (1 first c2)
  show ?thesis
  proof (cases first)
    case None
    with 1 show ?thesis by (simp add: gql_def)
  next
    case (Some idx)
    have "cl_requests c2 < cl_requests (snd (try_tokens nw (gql_attempt show nw) ''GraphQL request'' idx [] None c2))"
      by (rule gql_calls.try_tokens_sends) (use 1 Some in auto)
    with 1 Some show ?thesis by (simp add: gql_def)
  qed
qed

text \<open>The retry delays: whatever the environment variable holds, at most two, none negative.\<close>

lemma retry_delays_bounded:
  "length (githubTransientRetryDelaysMs raw) \<le> 2 \<and> list_all (\<lambda>d. 0 \<le> d) (githubTransientRetryDelaysMs raw)"
proof -
  have "0 \<le> the v" if "delay_ok v" for v using that by (cases v) (auto simp: delay_ok_def)
  then show ?thesis
    by (auto simp: githubTransientRetryDelaysMs_def DEFAULT_GITHUB_TRANSIENT_RETRY_DELAYS_MS_def Let_def list_all_iff
        split: option.split dest!: in_set_takeD)
qed

text \<open>
  With the delays read from the environment, whatever the variable holds, one call over a pool
  of n tokens sends at most 3 n requests.
\<close>

theorem configured_retries_bounded:
  "cl_requests (snd (gql show (nw\<lparr>nw_delays := githubTransientRetryDelaysMs raw\<rparr>) c))
     \<le> cl_requests c + 3 * length (nw_tokens nw)"
proof -
  let ?nw = "nw\<lparr>nw_delays := githubTransientRetryDelaysMs raw\<rparr>"
  have "cl_requests (snd (gql show ?nw c)) \<le> cl_requests c + length (nw_tokens ?nw) * (length (nw_delays ?nw) + 1)"
    using gql_calls.request_bounded [of ?nw "''GraphQL request''" "show" c] by (simp only: gql_def)
  also have "\<dots> \<le> cl_requests c + length (nw_tokens ?nw) * 3"
    using retry_delays_bounded [of raw] by (intro add_left_mono mult_le_mono2) simp
  finally show ?thesis by (simp add: mult.commute)
qed

end
