(* ===== verification/Live_Store.thy ===== *)
theory Live_Store
  imports Js_Date Model_Types
begin

text \<open>
  The live-event store (\<open>src/live/store.ts\<close>, its schema \<open>src/live/schema.sql\<close> and the records of
  \<open>src/live/types.ts\<close>): an append-only log of webhook events with a cache of actor profiles.

  A table is a list of rows in insertion order; \<open>lv_next\<close> is the number \<open>AUTOINCREMENT\<close> gives next,
  which is never given twice.  Whether SQLite also uses up a number for an ignored insert is left
  open: it is the parameter \<open>burn\<close>.  A column that holds JSON is the value it is the text of.
  \<open>bytes\<close> is the size SQLite reports for the two large columns of a row.
\<close>

section \<open>Records\<close>

record live_actor =
  la_login :: "string option"
  la_display_name :: "string option"
  la_avatar_url :: "string option"
  la_profile_url :: "string option"

record live_target =
  lt_kind :: string
  lt_source_id :: string
  lt_project_path :: "string option"
  lt_number :: "json option"
  lt_external_id :: "string option"
  lt_title :: "string option"
  lt_url :: "string option"

record live_delivery =
  ld_delivery_id :: string
  ld_event_header :: string
  ld_hook_id :: "string option"

record live_input =
  li_event_id :: string
  li_source_id :: string
  li_provider :: string
  li_received_at :: string
  li_occurred_at :: "string option"
  li_event_type :: string
  li_action :: "string option"
  li_category :: string
  li_actor :: "live_actor option"
  li_target :: "live_target option"
  li_title :: "string option"
  li_body :: "string option"
  li_url :: "string option"
  li_review_state :: "string option"
  li_delivery :: live_delivery
  li_provider_details :: "json option"
  li_raw :: "json option"

record live_event = live_input +
  ev_seq :: nat

record live_row = live_event +
  lr_ordinal :: nat
  lr_created_at :: string

record actor_profile =
  ap_display_name :: "string option"
  ap_avatar_url :: "string option"
  ap_profile_url :: "string option"
  ap_fetched_at :: string
  ap_expires_at :: string
  ap_last_error :: "string option"

type_synonym profile_key = "string \<times> string \<times> string"

record live_store =
  lv_rows :: "live_row list"
  lv_next :: nat
  lv_profiles :: "(profile_key, actor_profile) jsmap"

definition DEFAULT_RECENT_LIMIT :: nat where
  "DEFAULT_RECENT_LIMIT = 200"

definition DEFAULT_SINCE_LIMIT :: nat where
  "DEFAULT_SINCE_LIMIT = 1000"

definition ROW_OVERHEAD_BYTES :: nat where
  "ROW_OVERHEAD_BYTES = 2048"

section \<open>Text\<close>

definition stripNul :: "string option \<Rightarrow> string option" where
  "stripNul v = map_option (filter (\<lambda>c. c \<noteq> CHR 0x00)) v"

definition text_col :: "string option \<Rightarrow> string option" where
  "text_col v = stripNul v"

definition req_text :: "string \<Rightarrow> string" where
  "req_text v = or_else (text_col (Some v)) []"

definition loginKey :: "string option \<Rightarrow> string option" where
  "loginKey login =
     (case map_option js_trim (text_col login) of
        None \<Rightarrow> None
      | Some v \<Rightarrow> if v = [] then None else Some (to_lower v))"

section \<open>Rows and events\<close>

definition stored_input :: "live_input \<Rightarrow> live_input" where
  "stored_input i =
     i\<lparr>li_event_id := req_text (li_event_id i), li_source_id := req_text (li_source_id i),
       li_provider := req_text (li_provider i), li_received_at := req_text (li_received_at i),
       li_occurred_at := text_col (li_occurred_at i), li_event_type := req_text (li_event_type i),
       li_action := text_col (li_action i), li_category := req_text (li_category i),
       li_title := text_col (li_title i), li_body := text_col (li_body i), li_url := text_col (li_url i),
       li_review_state := text_col (li_review_state i)\<rparr>"

definition inputToEvent :: "live_input \<Rightarrow> nat \<Rightarrow> live_event" where
  "inputToEvent i seq = live_input.extend (stored_input i) \<lparr>ev_seq = seq\<rparr>"

definition rowToEvent :: "live_row \<Rightarrow> live_event" where
  "rowToEvent r = live_event.truncate r"

section \<open>Actor profiles\<close>

definition actorNeedsHydration :: "live_actor option \<Rightarrow> bool" where
  "actorNeedsHydration a =
     (case a of
        None \<Rightarrow> False
      | Some x \<Rightarrow> la_login x \<notin> {None, Some []} \<and>
          (la_display_name x \<in> {None, Some []} \<or> la_avatar_url x \<in> {None, Some []} \<or> la_profile_url x \<in> {None, Some []}))"

definition actorProfileKey :: "string \<Rightarrow> string \<Rightarrow> string \<Rightarrow> string" where
  "actorProfileKey sourceId provider login = sourceId @ [CHR 0x1F] @ provider @ [CHR 0x1F] @ login"

record profile_input =
  pi_source_id :: string
  pi_provider :: string
  pi_login :: string
  pi_profile :: actor_profile

definition merge_profile :: "actor_profile option \<Rightarrow> actor_profile \<Rightarrow> actor_profile" where
  "merge_profile old new =
     (case old of
        None \<Rightarrow> new
      | Some o' \<Rightarrow>
          if ap_last_error new \<noteq> None then new
          else new\<lparr>ap_display_name := nullish (ap_display_name new) (ap_display_name o'),
                   ap_avatar_url := nullish (ap_avatar_url new) (ap_avatar_url o'),
                   ap_profile_url := nullish (ap_profile_url new) (ap_profile_url o')\<rparr>)"

definition stored_profile :: "actor_profile \<Rightarrow> actor_profile" where
  "stored_profile p =
     p\<lparr>ap_display_name := text_col (ap_display_name p), ap_avatar_url := text_col (ap_avatar_url p),
       ap_profile_url := text_col (ap_profile_url p), ap_fetched_at := req_text (ap_fetched_at p),
       ap_expires_at := req_text (ap_expires_at p), ap_last_error := text_col (ap_last_error p)\<rparr>"

definition upsertActorProfile :: "profile_input \<Rightarrow> live_store \<Rightarrow> live_store" where
  "upsertActorProfile p st =
     (let sourceId = req_text (pi_source_id p); provider = req_text (pi_provider p);
          new = stored_profile (pi_profile p) in
      case loginKey (Some (pi_login p)) of
        None \<Rightarrow> st
      | Some login \<Rightarrow>
          if sourceId = [] \<or> provider = [] \<or> ap_fetched_at new = [] \<or> ap_expires_at new = [] then st
          else
            (let k = (sourceId, provider, login) in
             st\<lparr>lv_profiles := jm_set k (merge_profile (jm_get (lv_profiles st) k) new) (lv_profiles st)\<rparr>))"

definition actorProfile :: "live_store \<Rightarrow> string \<Rightarrow> string \<Rightarrow> string \<Rightarrow> string \<Rightarrow> actor_profile option" where
  "actorProfile st sourceId provider login nowIso =
     (let source = req_text sourceId; providerText = req_text provider in
      case loginKey (Some login) of
        None \<Rightarrow> None
      | Some l \<Rightarrow>
          if source = [] \<or> providerText = [] then None
          else (case jm_get (lv_profiles st) (source, providerText, l) of
                  None \<Rightarrow> None
                | Some p \<Rightarrow> if nowIso \<le> ap_expires_at p then Some p else None))"

definition hasFreshResolvedActorProfile :: "live_store \<Rightarrow> string \<Rightarrow> string \<Rightarrow> string \<Rightarrow> string \<Rightarrow> bool" where
  "hasFreshResolvedActorProfile st sourceId provider login nowIso =
     (case actorProfile st sourceId provider login nowIso of
        None \<Rightarrow> False
      | Some p \<Rightarrow> ap_last_error p \<noteq> None \<or> ap_avatar_url p \<noteq> None)"

function chunks :: "nat \<Rightarrow> 'a list \<Rightarrow> 'a list list" where
  "chunks n xs = (if xs = [] \<or> n = 0 then [] else take n xs # chunks n (drop n xs))"
  by pat_completeness auto
termination by (relation "measure (\<lambda>(n, xs). length xs)") auto

declare chunks.simps [simp del]

definition actorProfiles :: "live_store \<Rightarrow> profile_key list \<Rightarrow> string \<Rightarrow> (string, actor_profile) jsmap" where
  "actorProfiles st keys nowIso =
     fold (\<lambda>chunk profiles.
         fold (\<lambda>((s, p, l), row). jm_set (actorProfileKey s p l) row)
           (filter (\<lambda>(k, row). nowIso \<le> ap_expires_at row \<and> k \<in> set chunk) (lv_profiles st)) profiles)
       (chunks 200 keys) jm_empty"

definition hydrateEventFromProfiles :: "(string, actor_profile) jsmap \<Rightarrow> live_event \<Rightarrow> live_event" where
  "hydrateEventFromProfiles profiles ev =
     (case li_actor ev of
        None \<Rightarrow> ev
      | Some actor \<Rightarrow>
          (case loginKey (la_login actor) of
             None \<Rightarrow> ev
           | Some l \<Rightarrow>
               (case jm_get profiles (actorProfileKey (li_source_id ev) (li_provider ev) l) of
                  None \<Rightarrow> ev
                | Some p \<Rightarrow>
                    ev\<lparr>li_actor := Some (actor\<lparr>
                        la_display_name := nullish (la_display_name actor) (ap_display_name p),
                        la_avatar_url := nullish (la_avatar_url actor) (ap_avatar_url p),
                        la_profile_url := nullish (la_profile_url actor) (ap_profile_url p)\<rparr>)\<rparr>)))"

definition hydration_key :: "live_event \<Rightarrow> profile_key option" where
  "hydration_key ev =
     (if \<not> actorNeedsHydration (li_actor ev) then None
      else
        (let sourceId = req_text (li_source_id ev); provider = req_text (li_provider ev) in
         case Option.bind (li_actor ev) (\<lambda>a. loginKey (la_login a)) of
           None \<Rightarrow> None
         | Some l \<Rightarrow> if sourceId = [] \<or> provider = [] then None else Some (sourceId, provider, l)))"

definition hydrateEvents :: "live_store \<Rightarrow> string \<Rightarrow> live_event list \<Rightarrow> live_event list" where
  "hydrateEvents st nowIso events =
     (let keys = jm_values (fold (\<lambda>(s, p, l). jm_set (actorProfileKey s p l) (s, p, l))
                              (List.map_filter hydration_key events) jm_empty) in
      if keys = [] then events
      else
        (let profiles = actorProfiles st keys nowIso in
         if profiles = [] then events else map (hydrateEventFromProfiles profiles) events))"

section \<open>The log\<close>

definition row_id :: "live_row \<Rightarrow> string \<times> string \<times> nat" where
  "row_id r = (li_source_id r, li_event_id r, lr_ordinal r)"

definition append_event ::
  "bool \<Rightarrow> live_input \<Rightarrow> nat \<Rightarrow> string \<Rightarrow> live_store \<Rightarrow> live_event option \<times> live_store"
where
  "append_event burn input ordinal createdAt st =
     (let event = inputToEvent input (lv_next st);
          row = live_event.extend event \<lparr>lr_ordinal = ordinal, lr_created_at = createdAt\<rparr> in
      if row_id row \<in> row_id ` set (lv_rows st)
      then (None, if burn then st\<lparr>lv_next := Suc (lv_next st)\<rparr> else st)
      else (Some event, st\<lparr>lv_rows := lv_rows st @ [row], lv_next := Suc (lv_next st)\<rparr>))"

definition rows_asc :: "live_store \<Rightarrow> live_row list" where
  "rows_asc st = js_sort (by_key ev_seq) (lv_rows st)"

definition rows_desc :: "live_store \<Rightarrow> live_row list" where
  "rows_desc st = js_sort (descending (by_key ev_seq)) (lv_rows st)"

definition since :: "live_store \<Rightarrow> string \<Rightarrow> nat \<Rightarrow> nat \<Rightarrow> live_event list" where
  "since st nowIso seq limit =
     hydrateEvents st nowIso (map rowToEvent (take limit (filter (\<lambda>r. seq < ev_seq r) (rows_asc st))))"

definition sinceDesc :: "live_store \<Rightarrow> nat \<Rightarrow> nat \<Rightarrow> live_event list" where
  "sinceDesc st seq limit = map rowToEvent (take limit (filter (\<lambda>r. seq < ev_seq r) (rows_desc st)))"

definition recent :: "live_store \<Rightarrow> string \<Rightarrow> nat \<Rightarrow> live_event list" where
  "recent st nowIso limit = hydrateEvents st nowIso (map rowToEvent (take limit (rows_desc st)))"

record page_options =
  po_desc :: bool
  po_limit :: nat
  po_max_bytes :: nat
  po_after :: "nat option"
  po_before :: "nat option"

definition in_bounds :: "page_options \<Rightarrow> live_row \<Rightarrow> bool" where
  "in_bounds opts r \<longleftrightarrow>
     (case po_after opts of None \<Rightarrow> True | Some a \<Rightarrow> a < ev_seq r) \<and>
     (case po_before opts of None \<Rightarrow> True | Some b \<Rightarrow> ev_seq r < b)"

fun page_take :: "nat \<Rightarrow> nat \<Rightarrow> nat \<Rightarrow> nat list \<Rightarrow> nat" where
  "page_take maxBytes used taken [] = taken"
| "page_take maxBytes used taken (b # bs) =
     (let used' = used + (b + ROW_OVERHEAD_BYTES) in
      if 0 < taken \<and> maxBytes < used' then taken else page_take maxBytes used' (taken + 1) bs)"

definition page :: "(live_row \<Rightarrow> nat) \<Rightarrow> live_store \<Rightarrow> string \<Rightarrow> page_options \<Rightarrow> live_event list \<times> nat" where
  "page bytes st nowIso opts =
     (let ordered = (if po_desc opts then rows_desc st else rows_asc st);
          sizes = map (\<lambda>r. (ev_seq r, bytes r)) (take (po_limit opts + 1) (filter (in_bounds opts) ordered));
          candidates = take (po_limit opts) sizes;
          n = page_take (po_max_bytes opts) 0 0 (map snd candidates) in
      if n = 0 then ([], length sizes)
      else
        (let a = fst (candidates ! 0); b = fst (candidates ! (n - 1)) in
         (hydrateEvents st nowIso
            (map rowToEvent (filter (\<lambda>r. min a b \<le> ev_seq r \<and> ev_seq r \<le> max a b) ordered)),
          length sizes)))"

definition latestReceivedAt :: "live_store \<Rightarrow> string option" where
  "latestReceivedAt st = (case rows_desc st of [] \<Rightarrow> None | r # _ \<Rightarrow> Some (li_received_at r))"

definition maxSeq :: "live_store \<Rightarrow> nat" where
  "maxSeq st = foldr max (map ev_seq (lv_rows st)) 0"

definition prune_rows :: "string \<Rightarrow> nat \<Rightarrow> live_row list \<Rightarrow> live_row list" where
  "prune_rows cutoff maxRows rows =
     (let kept = filter (\<lambda>r. \<not> li_received_at r < cutoff) rows;
          newest = js_sort (descending (by_key ev_seq)) kept in
      if maxRows < length newest then filter (\<lambda>r. \<not> ev_seq r \<le> ev_seq (newest ! maxRows)) kept else kept)"

definition prune :: "int \<Rightarrow> nat \<Rightarrow> int \<Rightarrow> live_store \<Rightarrow> (nat \<times> live_store) result" where
  "prune ttlDays maxRows now st =
     rbind (toISOString (Some (now - ttlDays * ms_per_day))) (\<lambda>cutoff.
     rbind (toISOString (Some now)) (\<lambda>nowIso.
     let rows = prune_rows cutoff maxRows (lv_rows st);
         profiles = filter (\<lambda>(k, p). \<not> ap_expires_at p < nowIso) (lv_profiles st) in
     Inr (length (lv_rows st) - length rows + (length (lv_profiles st) - length profiles),
          st\<lparr>lv_rows := rows, lv_profiles := profiles\<rparr>)))"

definition open_live_store :: live_store where
  "open_live_store = \<lparr>lv_rows = [], lv_next = 1, lv_profiles = jm_empty\<rparr>"

section \<open>The log keeps its order\<close>

text \<open>What the primary key and the unique index of \<open>live_event\<close> promise, with \<open>AUTOINCREMENT\<close>.\<close>

definition live_ok :: "live_store \<Rightarrow> bool" where
  "live_ok st \<longleftrightarrow>
     sorted_wrt (<) (map ev_seq (lv_rows st)) \<and>
     (\<forall>r \<in> set (lv_rows st). ev_seq r < lv_next st) \<and>
     distinct (map row_id (lv_rows st))"

lemma live_ok_open: "live_ok open_live_store"
  by (simp add: live_ok_def open_live_store_def)

interpretation seq_order: comparator "by_key ev_seq" "\<lambda>_. True"
  by (rule comparator_by_key)

lemma ins_by_last: "(\<And>y. y \<in> set ys \<Longrightarrow> \<not> cmp x y \<le> 0) \<Longrightarrow> ins_by cmp x ys = ys @ [x]"
  by (induction ys) auto

lemma seq_sort_asc: "sorted_wrt (<) (map ev_seq rows) \<Longrightarrow> js_sort (by_key ev_seq) rows = rows"
  by (rule seq_order.js_sort_sorted)
     (auto simp: sorted_wrt_map by_key_def elim!: sorted_wrt_mono_rel [rotated])

lemma seq_sort_desc: "sorted_wrt (<) (map ev_seq rows) \<Longrightarrow> js_sort (descending (by_key ev_seq)) rows = rev rows"
proof (induction rows)
  case (Cons r rows)
  have "ins_by (descending (by_key ev_seq)) r (rev rows) = rev rows @ [r]"
    by (rule ins_by_last) (use Cons.prems in \<open>auto simp: descending_def by_key_def\<close>)
  with Cons show ?case by (simp add: js_sort_Cons)
qed simp

lemma rows_asc_eq: "live_ok st \<Longrightarrow> rows_asc st = lv_rows st"
  by (simp add: rows_asc_def seq_sort_asc live_ok_def)

lemma rows_desc_eq: "live_ok st \<Longrightarrow> rows_desc st = rev (lv_rows st)"
  by (simp add: rows_desc_def seq_sort_desc live_ok_def)

lemma rowToEvent_seq [simp]: "ev_seq (rowToEvent r) = ev_seq r"
  by (simp add: rowToEvent_def live_event.defs)

lemma inputToEvent_seq [simp]: "ev_seq (inputToEvent i n) = n"
  by (simp add: inputToEvent_def live_input.defs)

section \<open>Hydration touches only the actor\<close>

definition same_but_actor :: "live_event \<Rightarrow> live_event \<Rightarrow> bool" where
  "same_but_actor a b \<longleftrightarrow> a\<lparr>li_actor := li_actor b\<rparr> = b"

lemma same_but_actor_refl [simp]: "same_but_actor e e"
  by (simp add: same_but_actor_def)

lemma same_but_actor_seq: "same_but_actor a b \<Longrightarrow> ev_seq a = ev_seq b"
  unfolding same_but_actor_def by (metis live_event.select_convs(1) live_event.surjective live_input.update_convs(9))

lemma hydrateEventFromProfiles_same: "same_but_actor (hydrateEventFromProfiles profiles e) e"
  by (auto simp: hydrateEventFromProfiles_def same_but_actor_def Let_def split: option.splits)

lemma hydrateEvents_same: "list_all2 same_but_actor (hydrateEvents st now es) es"
  by (auto simp: hydrateEvents_def Let_def list_all2_map1 hydrateEventFromProfiles_same intro!: list_all2_refl)

lemma length_hydrateEvents [simp]: "length (hydrateEvents st now es) = length es"
  using hydrateEvents_same [of st now es] by (rule list_all2_lengthD)

lemma hydrateEvents_seqs: "map ev_seq (hydrateEvents st now es) = map ev_seq es"
  using hydrateEvents_same [of st now es]
  by (auto simp: list_all2_conv_all_nth same_but_actor_seq intro!: nth_equalityI)

section \<open>Pages\<close>

lemma page_take_spec:
  obtains k where "page_take maxBytes used taken bs = taken + k" and "k \<le> length bs"
    and "0 < taken \<or> bs \<noteq> [] \<Longrightarrow> 0 < taken + k"
    and "taken + k \<le> 1 \<or> k = 0 \<or> used + (\<Sum>b\<leftarrow>take k bs. b + ROW_OVERHEAD_BYTES) \<le> maxBytes"
    and "k < length bs \<Longrightarrow> maxBytes < used + (\<Sum>b\<leftarrow>take (k + 1) bs. b + ROW_OVERHEAD_BYTES)"
proof (induction bs arbitrary: used taken thesis)
  case Nil
  show ?case by (rule Nil.prems [of 0]) auto
next
  case (Cons b bs)
  let ?used = "used + (b + ROW_OVERHEAD_BYTES)"
  show ?case
  proof (cases "0 < taken \<and> maxBytes < ?used")
    case True
    show ?thesis by (rule Cons.prems [of 0]) (use True in \<open>auto simp: Let_def\<close>)
  next
    case False
    obtain k where k: "page_take maxBytes ?used (taken + 1) bs = taken + 1 + k" "k \<le> length bs"
      "taken + 1 + k \<le> 1 \<or> k = 0 \<or> ?used + (\<Sum>b\<leftarrow>take k bs. b + ROW_OVERHEAD_BYTES) \<le> maxBytes"
      "k < length bs \<Longrightarrow> maxBytes < ?used + (\<Sum>b\<leftarrow>take (k + 1) bs. b + ROW_OVERHEAD_BYTES)"
      using Cons.IH by blast
    show ?thesis
      by (rule Cons.prems [of "Suc k"]) (use False k in \<open>auto simp: Let_def add.assoc\<close>)
  qed
qed

lemma filter_nth: "i < length (filter P xs) \<Longrightarrow> P (filter P xs ! i) \<and> filter P xs ! i \<in> set xs"
  using nth_mem [of i "filter P xs"] by simp

text \<open>A range of sequence numbers between two places of an ordered list is the part between them.\<close>

lemma filter_range_prefix:
  assumes "sorted_wrt (\<lambda>a b. (f a :: nat) < f b) xs" and "0 < n" and "n \<le> length xs"
  shows "filter (\<lambda>x. f (xs ! 0) \<le> f x \<and> f x \<le> f (xs ! (n - 1))) xs = take n xs"
proof -
  have "filter (\<lambda>x. f (xs ! 0) \<le> f x \<and> f x \<le> f (xs ! (n - 1))) (take n xs) = take n xs"
  proof (rule filter_True, rule ballI)
    fix x
    assume "x \<in> set (take n xs)"
    then obtain i where i: "i < n" "x = xs ! i" using assms(3) by (auto simp: in_set_conv_nth)
    have "f (xs ! a) \<le> f (xs ! b)" if "a \<le> b" "b < length xs" for a b
      using sorted_wrt_nth_less [OF assms(1), of a b] that by (cases "a = b") auto
    with i assms(2,3) show "f (xs ! 0) \<le> f x \<and> f x \<le> f (xs ! (n - 1))" by auto
  qed
  moreover have "filter (\<lambda>x. f (xs ! 0) \<le> f x \<and> f x \<le> f (xs ! (n - 1))) (drop n xs) = []"
  proof (rule filter_False, rule ballI)
    fix x
    assume "x \<in> set (drop n xs)"
    then obtain j where "j < length xs - n" "x = drop n xs ! j" by (auto simp: in_set_conv_nth)
    then have i: "n \<le> n + j" "n + j < length xs" "x = xs ! (n + j)"
      using assms(3) by simp_all
    have "f (xs ! (n - 1)) < f x"
      using sorted_wrt_nth_less [OF assms(1), of "n - 1" "n + j"] i assms(2) by simp
    then show "\<not> (f (xs ! 0) \<le> f x \<and> f x \<le> f (xs ! (n - 1)))" by simp
  qed
  ultimately have "filter (\<lambda>x. f (xs ! 0) \<le> f x \<and> f x \<le> f (xs ! (n - 1))) (take n xs @ drop n xs) = take n xs"
    unfolding filter_append by simp
  then show ?thesis by simp
qed

text \<open>The rows a page is taken from, in its order.\<close>

definition page_rows :: "live_store \<Rightarrow> page_options \<Rightarrow> live_row list" where
  "page_rows st opts = filter (in_bounds opts) (if po_desc opts then rev (lv_rows st) else lv_rows st)"

definition ascending :: "live_row list \<Rightarrow> bool" where
  "ascending rows \<longleftrightarrow> sorted_wrt (\<lambda>a b. ev_seq a < ev_seq b) rows"

lemma live_ok_ascending: "live_ok st \<Longrightarrow> ascending (lv_rows st)"
  by (simp add: live_ok_def ascending_def sorted_wrt_map)

lemma in_bounds_convex:
  "in_bounds opts a \<Longrightarrow> in_bounds opts b \<Longrightarrow> ev_seq a \<le> ev_seq x \<Longrightarrow> ev_seq x \<le> ev_seq b \<Longrightarrow> in_bounds opts x"
  by (auto simp: in_bounds_def split: option.splits)

lemma filter_range_page_asc:
  assumes "ascending rows" and "0 < n" and "n \<le> length (filter (in_bounds opts) rows)"
  shows "filter (\<lambda>r. ev_seq (filter (in_bounds opts) rows ! 0) \<le> ev_seq r
            \<and> ev_seq r \<le> ev_seq (filter (in_bounds opts) rows ! (n - 1))) rows
         = take n (filter (in_bounds opts) rows)"
proof -
  let ?Q = "filter (in_bounds opts) rows"
  let ?R = "\<lambda>r. ev_seq (?Q ! 0) \<le> ev_seq r \<and> ev_seq r \<le> ev_seq (?Q ! (n - 1))"
  have first: "0 < length ?Q" and last: "n - 1 < length ?Q" using assms(2,3) by linarith+
  have ends: "in_bounds opts (?Q ! 0)" "in_bounds opts (?Q ! (n - 1))"
    using filter_nth [OF first] filter_nth [OF last] by auto
  have "filter ?R rows = filter ?R ?Q"
    unfolding filter_filter by (rule filter_cong) (auto intro: in_bounds_convex [OF ends])
  also have "\<dots> = take n ?Q"
    using assms by (intro filter_range_prefix) (auto simp: ascending_def sorted_wrt_filter)
  finally show ?thesis .
qed

lemma filter_range_page_desc:
  assumes "ascending rows" and "0 < n" and "n \<le> length (filter (in_bounds opts) (rev rows))"
  shows "filter (\<lambda>r. ev_seq (filter (in_bounds opts) (rev rows) ! (n - 1)) \<le> ev_seq r
            \<and> ev_seq r \<le> ev_seq (filter (in_bounds opts) (rev rows) ! 0)) (rev rows)
         = take n (filter (in_bounds opts) (rev rows))"
proof -
  let ?Q = "filter (in_bounds opts) (rev rows)"
  let ?R = "\<lambda>r. ev_seq (?Q ! (n - 1)) \<le> ev_seq r \<and> ev_seq r \<le> ev_seq (?Q ! 0)"
  have first: "0 < length ?Q" and last: "n - 1 < length ?Q" using assms(2,3) by linarith+
  have ends: "in_bounds opts (?Q ! 0)" "in_bounds opts (?Q ! (n - 1))"
    using filter_nth [OF first] filter_nth [OF last] by auto
  obtain m where bound: "\<And>r. r \<in> set rows \<Longrightarrow> ev_seq r \<le> m"
    using finite_nat_set_iff_bounded_le [of "ev_seq ` set rows"] by auto
  have "filter ?R (rev rows) = filter ?R ?Q"
    unfolding filter_filter by (rule filter_cong) (auto intro: in_bounds_convex [OF ends(2,1)])
  also have "\<dots> = filter (\<lambda>r. m - ev_seq (?Q ! 0) \<le> m - ev_seq r \<and> m - ev_seq r \<le> m - ev_seq (?Q ! (n - 1))) ?Q"
  proof (rule filter_cong)
    fix r
    assume "r \<in> set ?Q"
    then have "ev_seq r \<le> m" by (intro bound) auto
    moreover have "ev_seq (?Q ! 0) \<le> m" "ev_seq (?Q ! (n - 1)) \<le> m"
      using filter_nth [OF first] filter_nth [OF last] by (auto intro!: bound)
    ultimately show "?R r \<longleftrightarrow> m - ev_seq (?Q ! 0) \<le> m - ev_seq r \<and> m - ev_seq r \<le> m - ev_seq (?Q ! (n - 1))"
      by linarith
  qed simp
  also have "\<dots> = take n ?Q"
  proof (rule filter_range_prefix [OF _ assms(2,3)])
    have "sorted_wrt (\<lambda>a b. ev_seq b < ev_seq a) ?Q"
      using assms(1) by (auto simp: ascending_def sorted_wrt_rev intro!: sorted_wrt_filter)
    then show "sorted_wrt (\<lambda>a b. m - ev_seq a < m - ev_seq b) ?Q"
    proof (rule sorted_wrt_mono_rel [rotated])
      fix a b
      assume "a \<in> set ?Q" "b \<in> set ?Q" "ev_seq b < ev_seq a"
      then show "m - ev_seq a < m - ev_seq b" using bound [of a] bound [of b] by simp
    qed
  qed
  finally show ?thesis .
qed

lemma hydrateEvents_Nil [simp]: "hydrateEvents st now [] = []"
  by (simp add: hydrateEvents_def jm_values_def)

definition row_cost :: "(live_row \<Rightarrow> nat) \<Rightarrow> live_row \<Rightarrow> nat" where
  "row_cost bytes r = bytes r + ROW_OVERHEAD_BYTES"

lemma page_range:
  assumes ok: "live_ok st" and n: "0 < n" "n \<le> length (page_rows st opts)"
  shows "filter (\<lambda>r. min (ev_seq (page_rows st opts ! 0)) (ev_seq (page_rows st opts ! (n - 1))) \<le> ev_seq r
            \<and> ev_seq r \<le> max (ev_seq (page_rows st opts ! 0)) (ev_seq (page_rows st opts ! (n - 1))))
          (if po_desc opts then rev (lv_rows st) else lv_rows st) = take n (page_rows st opts)"
proof -
  have sorted: "sorted_wrt (\<lambda>a b. if po_desc opts then ev_seq b < ev_seq a else ev_seq a < ev_seq b) (page_rows st opts)"
    using live_ok_ascending [OF ok] by (auto simp: page_rows_def ascending_def sorted_wrt_rev intro!: sorted_wrt_filter)
  have "if po_desc opts then ev_seq (page_rows st opts ! (n - 1)) \<le> ev_seq (page_rows st opts ! 0)
        else ev_seq (page_rows st opts ! 0) \<le> ev_seq (page_rows st opts ! (n - 1))"
  proof (cases "n = 1")
    case False
    with n have "0 < n - 1" "n - 1 < length (page_rows st opts)" by linarith+
    from sorted_wrt_nth_less [OF sorted this] show ?thesis by (simp split: if_splits)
  qed simp
  then show ?thesis
    using filter_range_page_asc [OF live_ok_ascending [OF ok], of n opts]
      filter_range_page_desc [OF live_ok_ascending [OF ok], of n opts] n
    by (auto simp: page_rows_def min_def max_def split: if_splits)
qed

lemma page_eq:
  assumes ok: "live_ok st"
  shows "page bytes st nowIso opts =
     (hydrateEvents st nowIso (map rowToEvent (take
        (page_take (po_max_bytes opts) 0 0 (map bytes (take (po_limit opts) (page_rows st opts)))) (page_rows st opts))),
      min (length (page_rows st opts)) (po_limit opts + 1))"
proof -
  let ?Q = "page_rows st opts"
  let ?sizes = "map (\<lambda>r. (ev_seq r, bytes r)) (take (po_limit opts + 1) ?Q)"
  let ?n = "page_take (po_max_bytes opts) 0 0 (map bytes (take (po_limit opts) ?Q))"
  have rows: "(if po_desc opts then rows_desc st else rows_asc st) = (if po_desc opts then rev (lv_rows st) else lv_rows st)"
    using ok by (simp add: rows_asc_eq rows_desc_eq)
  have cands: "take (po_limit opts) ?sizes = map (\<lambda>r. (ev_seq r, bytes r)) (take (po_limit opts) ?Q)"
    by (simp add: take_map min_def)
  obtain k where "?n = 0 + k" and "k \<le> length (map bytes (take (po_limit opts) ?Q))"
    by (rule page_take_spec) blast
  then have le: "?n \<le> po_limit opts" "?n \<le> length ?Q" by auto
  have sel: "fst (take (po_limit opts) ?sizes ! i) = ev_seq (?Q ! i)" if "i < po_limit opts" "i < length ?Q" for i
    unfolding cands using that by simp
  show ?thesis
  proof (cases "?n = 0")
    case True
    then show ?thesis
      unfolding page_def Let_def rows page_rows_def [symmetric] cands by (simp add: comp_def)
  next
    case False
    then have "fst (take (po_limit opts) ?sizes ! 0) = ev_seq (?Q ! 0)"
      and "fst (take (po_limit opts) ?sizes ! (?n - 1)) = ev_seq (?Q ! (?n - 1))"
      using le by (intro sel; linarith)+
    then show ?thesis
      using page_range [OF ok _ le(2)] False
      unfolding page_def Let_def rows page_rows_def [symmetric] cands by (simp add: comp_def)
  qed
qed

text \<open>The longest prefix of the rows within the bounds that fits the limits of the page.\<close>

lemma live_page_spec:
  fixes st :: live_store and opts :: page_options and bytes :: "live_row \<Rightarrow> nat"
  assumes "live_ok st" and "page bytes st nowIso opts = (events, matched)"
  shows "\<exists>n. events = hydrateEvents st nowIso (map rowToEvent (take n (page_rows st opts)))
      \<and> n \<le> po_limit opts \<and> n \<le> length (page_rows st opts)
      \<and> (n = 0 \<longrightarrow> page_rows st opts = [] \<or> po_limit opts = 0)
      \<and> (1 < n \<longrightarrow> (\<Sum>r\<leftarrow>take n (page_rows st opts). row_cost bytes r) \<le> po_max_bytes opts)
      \<and> (n < length (page_rows st opts) \<longrightarrow>
           n = po_limit opts \<or> po_max_bytes opts < (\<Sum>r\<leftarrow>take (n + 1) (page_rows st opts). row_cost bytes r))
      \<and> (matched > length events \<longleftrightarrow> n < length (page_rows st opts))"
proof -
  let ?Q = "page_rows st opts"
  let ?sum = "\<lambda>n. \<Sum>r\<leftarrow>take n ?Q. row_cost bytes r"
  let ?bs = "map bytes (take (po_limit opts) ?Q)"
  obtain k where k: "page_take (po_max_bytes opts) 0 0 ?bs = 0 + k" "k \<le> length ?bs"
    "?bs \<noteq> [] \<Longrightarrow> 0 < k"
    "k \<le> 1 \<or> k = 0 \<or> (\<Sum>b\<leftarrow>take k ?bs. b + ROW_OVERHEAD_BYTES) \<le> po_max_bytes opts"
    "k < length ?bs \<Longrightarrow> po_max_bytes opts < (\<Sum>b\<leftarrow>take (k + 1) ?bs. b + ROW_OVERHEAD_BYTES)"
    by (rule page_take_spec [of "po_max_bytes opts" 0 0 ?bs]) auto
  have sum: "(\<Sum>b\<leftarrow>take j ?bs. b + ROW_OVERHEAD_BYTES) = ?sum j" if "j \<le> po_limit opts" for j
    using that by (simp add: row_cost_def take_map comp_def min_absorb1)
  have events: "events = hydrateEvents st nowIso (map rowToEvent (take k ?Q))"
    and matched: "matched = min (length ?Q) (po_limit opts + 1)"
    using assms(2) k(1) by (auto simp: page_eq [OF assms(1)])
  have le: "k \<le> po_limit opts" "k \<le> length ?Q" using k(2) by auto
  have "k = 0 \<longrightarrow> ?Q = [] \<or> po_limit opts = 0" using k(3) by auto
  moreover have "1 < k \<longrightarrow> ?sum k \<le> po_max_bytes opts" using k(4) sum [OF le(1)] by auto
  moreover have "k = po_limit opts \<or> po_max_bytes opts < ?sum (k + 1)" if "k < length ?Q"
    using k(5) sum [of "k + 1"] that le by (cases "k < po_limit opts") auto
  moreover have "matched > length events \<longleftrightarrow> k < length ?Q"
    using le by (auto simp: events matched min_def)
  ultimately show ?thesis using events le by blast
qed

text \<open>
  Claim C31. A page of the log is the longest prefix, in the order asked for, of the rows within the
  bounds that has at most \<open>limit\<close> rows and fits the byte budget, except that a row too big for the
  budget is still returned alone; and \<open>matched\<close> counts the qualifying rows up to one more than the
  limit, so it exceeds the length of the page exactly when rows were left out.
\<close>

theorem live_page_exact:
  fixes st :: live_store and opts :: page_options and bytes :: "live_row \<Rightarrow> nat"
  defines "Q \<equiv> page_rows st opts"
  defines "sum_of n \<equiv> (\<Sum>r\<leftarrow>take n Q. row_cost bytes r)"
  assumes "live_ok st" and "page bytes st nowIso opts = (events, matched)"
  shows "\<exists>n. events = hydrateEvents st nowIso (map rowToEvent (take n Q))
      \<and> n \<le> po_limit opts \<and> n \<le> length Q
      \<and> (n = 0 \<longrightarrow> Q = [] \<or> po_limit opts = 0)
      \<and> (1 < n \<longrightarrow> sum_of n \<le> po_max_bytes opts)
      \<and> (n < length Q \<longrightarrow> n = po_limit opts \<or> po_max_bytes opts < sum_of (n + 1))
      \<and> (matched > length events \<longleftrightarrow> n < length Q)" 
  using live_page_spec [OF assms(3,4)] unfolding Q_def sum_of_def .

definition delivery_id :: "live_input \<Rightarrow> nat \<Rightarrow> string \<times> string \<times> nat" where
  "delivery_id input ordinal = (req_text (li_source_id input), req_text (li_event_id input), ordinal)"

definition new_row :: "live_input \<Rightarrow> nat \<Rightarrow> string \<Rightarrow> nat \<Rightarrow> live_row" where
  "new_row input ordinal createdAt n =
     live_event.extend (inputToEvent input n) \<lparr>lr_ordinal = ordinal, lr_created_at = createdAt\<rparr>"

lemma new_row_simps [simp]:
  "row_id (new_row input ordinal c n) = delivery_id input ordinal"
  "rowToEvent (new_row input ordinal c n) = inputToEvent input n"
  "ev_seq (new_row input ordinal c n) = n"
  by (simp_all add: new_row_def row_id_def delivery_id_def rowToEvent_def inputToEvent_def stored_input_def
      live_input.defs live_event.defs)

lemma append_event_cases:
  "append_event burn input ordinal c st =
    (if delivery_id input ordinal \<in> row_id ` set (lv_rows st)
     then (None, if burn then st\<lparr>lv_next := Suc (lv_next st)\<rparr> else st)
     else (Some (inputToEvent input (lv_next st)),
           st\<lparr>lv_rows := lv_rows st @ [new_row input ordinal c (lv_next st)], lv_next := Suc (lv_next st)\<rparr>))"
  by (simp only: append_event_def Let_def new_row_def [symmetric] new_row_simps)

lemma live_append_order:
  "live_ok st \<Longrightarrow> append_event burn input ordinal createdAt st = (res, st') \<Longrightarrow>
   live_ok st' \<and> lv_next st \<le> lv_next st' \<and> (res = None \<longrightarrow> lv_rows st' = lv_rows st)"
  by (auto simp: append_event_cases live_ok_def sorted_wrt_append less_Suc_eq split: if_splits)

text \<open>
  Appending is idempotent and numbers the events in order: a delivery already in the log
  changes no row and yields nothing, another one becomes the last row, with a sequence number above
  all that were ever given, and reading the log back yields exactly the event that was returned.
  The order of the log is kept.
\<close>

theorem live_append_idempotent:
  assumes "live_ok st" and "append_event burn input ordinal createdAt st = (res, st')"
  shows "live_ok st' \<and> lv_next st \<le> lv_next st'
    \<and> (res = None \<longleftrightarrow> (\<exists>r \<in> set (lv_rows st). row_id r = delivery_id input ordinal))
    \<and> (res = None \<longrightarrow> lv_rows st' = lv_rows st)
    \<and> (\<forall>ev. res = Some ev \<longrightarrow> ev = inputToEvent input (lv_next st)
          \<and> map rowToEvent (lv_rows st') = map rowToEvent (lv_rows st) @ [ev]
          \<and> (\<forall>r \<in> set (lv_rows st). ev_seq r < ev_seq ev))
    \<and> fst (append_event burn' input ordinal createdAt' st') = None
    \<and> lv_rows (snd (append_event burn' input ordinal createdAt' st')) = lv_rows st'"
proof (cases "delivery_id input ordinal \<in> row_id ` set (lv_rows st)")
  case True
  then have "res = None" "st' = (if burn then st\<lparr>lv_next := Suc (lv_next st)\<rparr> else st)"
    using assms(2) by (simp_all add: append_event_cases)
  with True assms(1) show ?thesis by (auto simp: append_event_cases live_ok_def less_Suc_eq)
next
  case False
  then have st': "res = Some (inputToEvent input (lv_next st))"
      "st' = st\<lparr>lv_rows := lv_rows st @ [new_row input ordinal createdAt (lv_next st)], lv_next := Suc (lv_next st)\<rparr>"
    using assms(2) by (simp_all add: append_event_cases)
  have "live_ok st'"
    using assms(1) False by (auto simp: st' live_ok_def sorted_wrt_append less_Suc_eq)
  moreover have "\<forall>r \<in> set (lv_rows st). ev_seq r < lv_next st" using assms(1) by (simp add: live_ok_def)
  ultimately show ?thesis using False by (auto simp: append_event_cases st' image_iff)
qed

section \<open>Retention\<close>

lemma filter_not_le_take:
  assumes "ascending rows" and "m < length rows"
  shows "filter (\<lambda>r. \<not> ev_seq r \<le> ev_seq (rev rows ! m)) rows = drop (length rows - m) rows"
proof -
  let ?i = "length rows - Suc m"
  have nth: "rev rows ! m = rows ! ?i" using assms(2) by (simp add: rev_nth)
  have asc: "ev_seq (rows ! a) < ev_seq (rows ! b)" if "a < b" "b < length rows" for a b
    using sorted_wrt_nth_less [OF assms(1) [unfolded ascending_def] that] .
  have "filter (\<lambda>r. \<not> ev_seq r \<le> ev_seq (rows ! ?i)) (take (Suc ?i) rows) = []"
  proof (rule filter_False, rule ballI)
    fix r
    assume "r \<in> set (take (Suc ?i) rows)"
    then obtain j where "j \<le> ?i" "r = rows ! j" using assms(2) by (auto simp: in_set_conv_nth less_Suc_eq_le)
    then show "\<not> \<not> ev_seq r \<le> ev_seq (rows ! ?i)"
      using asc [of j ?i] assms(2) by (cases "j = ?i") (simp_all add: less_imp_le)
  qed
  moreover have "filter (\<lambda>r. \<not> ev_seq r \<le> ev_seq (rows ! ?i)) (drop (Suc ?i) rows) = drop (Suc ?i) rows"
  proof (rule filter_True, rule ballI)
    fix r
    assume "r \<in> set (drop (Suc ?i) rows)"
    then obtain j where "j < length rows - Suc ?i" "r = drop (Suc ?i) rows ! j" by (auto simp: in_set_conv_nth)
    then have "Suc ?i + j < length rows" "r = rows ! (Suc ?i + j)" using assms(2) by auto
    then show "\<not> ev_seq r \<le> ev_seq (rows ! ?i)" using asc [of ?i "Suc ?i + j"] by simp
  qed
  ultimately have "filter (\<lambda>r. \<not> ev_seq r \<le> ev_seq (rows ! ?i)) (take (Suc ?i) rows @ drop (Suc ?i) rows) = drop (Suc ?i) rows"
    unfolding filter_append by simp
  moreover have "Suc ?i = length rows - m" using assms(2) by simp
  ultimately show ?thesis unfolding nth by simp
qed

lemma prune_rows_eq:
  assumes "ascending rows"
  shows "prune_rows cutoff maxRows rows =
    (let kept = filter (\<lambda>r. \<not> li_received_at r < cutoff) rows in drop (length kept - maxRows) kept)"
proof -
  let ?kept = "filter (\<lambda>r. \<not> li_received_at r < cutoff) rows"
  have asc: "ascending ?kept" using assms by (simp add: ascending_def sorted_wrt_filter)
  then have "js_sort (descending (by_key ev_seq)) ?kept = rev ?kept"
    by (intro seq_sort_desc) (simp add: ascending_def sorted_wrt_map)
  then show ?thesis
    using filter_not_le_take [OF asc, of maxRows] by (auto simp: prune_rows_def Let_def)
qed

text \<open>
  Pruning drops the rows received before the retention time and of the rest keeps exactly
  the newest \<open>maxRows\<close>; no sequence number becomes free again, the log stays in order, and the
  count returned is the number of events and profiles deleted.
\<close>

theorem live_prune_keeps_newest:
  assumes "live_ok st" and "prune ttlDays maxRows now st = Inr (n, st')"
  shows "\<exists>cutoff nowIso. toISOString (Some (now - ttlDays * ms_per_day)) = Inr cutoff \<and> toISOString (Some now) = Inr nowIso
    \<and> (let kept = filter (\<lambda>r. cutoff \<le> li_received_at r) (lv_rows st) in
         lv_rows st' = drop (length kept - maxRows) kept)
    \<and> length (lv_rows st') \<le> maxRows \<and> lv_next st' = lv_next st \<and> live_ok st'
    \<and> lv_profiles st' = filter (\<lambda>(k, p). nowIso \<le> ap_expires_at p) (lv_profiles st)
    \<and> n + length (lv_rows st') + length (lv_profiles st') = length (lv_rows st) + length (lv_profiles st)"
proof -
  from assms(2) obtain cutoff nowIso where times:
    "toISOString (Some (now - ttlDays * ms_per_day)) = Inr cutoff" "toISOString (Some now) = Inr nowIso"
    and st': "st' = st\<lparr>lv_rows := prune_rows cutoff maxRows (lv_rows st),
       lv_profiles := filter (\<lambda>(k, p). \<not> ap_expires_at p < nowIso) (lv_profiles st)\<rparr>"
    and n: "n = length (lv_rows st) - length (lv_rows st') + (length (lv_profiles st) - length (lv_profiles st'))"
    by (auto simp: prune_def Let_def)
  let ?kept = "filter (\<lambda>r. cutoff \<le> li_received_at r) (lv_rows st)"
  have rows: "lv_rows st' = drop (length ?kept - maxRows) ?kept"
    using prune_rows_eq [OF live_ok_ascending [OF assms(1)], of cutoff maxRows] by (simp add: st' Let_def not_less)
  then have sub: "set (lv_rows st') \<subseteq> set (lv_rows st)" using set_drop_subset by fastforce
  have drop: "sorted_wrt (<) (map ev_seq (lv_rows st'))" "distinct (map row_id (lv_rows st'))"
    using assms(1) unfolding rows live_ok_def drop_map [symmetric]
    by (auto intro!: sorted_wrt_drop distinct_drop distinct_map_filterI simp: sorted_wrt_map sorted_wrt_filter)
  have "live_ok st'" using drop assms(1) sub by (auto simp: live_ok_def st')
  moreover have "length (lv_rows st') \<le> maxRows" by (simp add: rows)
  moreover have "length (lv_rows st') \<le> length (lv_rows st)"
    using length_filter_le [of "\<lambda>r. cutoff \<le> li_received_at r" "lv_rows st"]
    unfolding rows length_drop by linarith
  moreover have "length (lv_profiles st') \<le> length (lv_profiles st)" by (simp add: st')
  moreover from calculation have
    "n + length (lv_rows st') + length (lv_profiles st') = length (lv_rows st) + length (lv_profiles st)"
    using n by linarith
  moreover have "lv_profiles st' = filter (\<lambda>(k, p). nowIso \<le> ap_expires_at p) (lv_profiles st)"
    and "lv_next st' = lv_next st" by (simp_all add: st' not_less)
  ultimately show ?thesis
    using times rows unfolding Let_def by blast
qed

section \<open>Instances\<close>

definition sample_input :: "string \<Rightarrow> string \<Rightarrow> live_input" where
  "sample_input event at =
     \<lparr>li_event_id = event, li_source_id = ''github:github.com'', li_provider = ''github'', li_received_at = at,
      li_occurred_at = None, li_event_type = ''issues'', li_action = Some ''opened'', li_category = ''issue'',
      li_actor = None, li_target = None, li_title = Some ''t'', li_body = None, li_url = None,
      li_review_state = None, li_delivery = \<lparr>ld_delivery_id = event, ld_event_header = ''issues'', ld_hook_id = None\<rparr>,
      li_provider_details = None, li_raw = None\<rparr>"

definition sample_live :: live_store where
  "sample_live =
     snd (append_event False (sample_input ''d3'' ''2026-01-03T00:00:00.000Z'') 0 ''c''
     (snd (append_event False (sample_input ''d2'' ''2026-01-02T00:00:00.000Z'') 0 ''c''
     (snd (append_event False (sample_input ''d1'' ''2026-01-01T00:00:00.000Z'') 0 ''c'' open_live_store)))))"

definition sample_page_options :: page_options where
  "sample_page_options = \<lparr>po_desc = True, po_limit = 5, po_max_bytes = 6000, po_after = Some 0, po_before = Some 4\<rparr>"

lemma sample_live_ok: "live_ok sample_live"
  by code_simp

lemma sample_page:
  "map ev_seq (fst (page (\<lambda>_. 800) sample_live [] sample_page_options)) = [3, 2]"
  "snd (page (\<lambda>_. 800) sample_live [] sample_page_options) = 3"
  by code_simp+

theorem live_page_exact_witness:
  "\<exists>n. fst (page (\<lambda>_. 800) sample_live [] sample_page_options)
        = hydrateEvents sample_live [] (map rowToEvent (take n (page_rows sample_live sample_page_options)))
      \<and> n = 2 \<and> 6000 < (\<Sum>r\<leftarrow>take (n + 1) (page_rows sample_live sample_page_options). row_cost (\<lambda>_. 800) r)"
proof -
  let ?p = "page (\<lambda>_. 800) sample_live [] sample_page_options"
  obtain n where events: "fst ?p = hydrateEvents sample_live [] (map rowToEvent (take n (page_rows sample_live sample_page_options)))"
    and n: "n \<le> length (page_rows sample_live sample_page_options)"
      "n < length (page_rows sample_live sample_page_options) \<longrightarrow> n = po_limit sample_page_options
        \<or> po_max_bytes sample_page_options
            < (\<Sum>r\<leftarrow>take (n + 1) (page_rows sample_live sample_page_options). row_cost (\<lambda>_. 800) r)"
    using live_page_exact [OF sample_live_ok, of "\<lambda>_. 800" "[]" sample_page_options "fst ?p" "snd ?p"] by auto
  have len: "length (page_rows sample_live sample_page_options) = 3" by code_simp
  have "length (fst ?p) = 2" using arg_cong [OF sample_page(1), of length] by simp
  then have "n = 2" using n(1) by (simp add: events)
  with events n(2) len show ?thesis by (auto simp: sample_page_options_def)
qed

theorem live_append_idempotent_witness:
  "live_ok (snd (append_event True (sample_input ''d3'' ''x'') 0 ''c'' sample_live))
   \<and> fst (append_event True (sample_input ''d3'' ''x'') 0 ''c'' sample_live) = None
   \<and> (\<exists>ev. fst (append_event True (sample_input ''d3'' ''x'') 1 ''c'' sample_live) = Some ev \<and> ev_seq ev = 4)"
proof -
  have "fst (append_event True (sample_input ''d3'' ''x'') 0 ''c'' sample_live) = None" by code_simp
  moreover have "map_option ev_seq (fst (append_event True (sample_input ''d3'' ''x'') 1 ''c'' sample_live)) = Some 4" by code_simp
  ultimately show ?thesis
    using live_append_idempotent [OF sample_live_ok prod.collapse [symmetric], of True "sample_input ''d3'' ''x''" 0 "''c''"]
    by auto
qed

theorem live_prune_keeps_newest_witness:
  "\<exists>n st'. prune 30 1 (date_utc 2026 0 31 12 0 0 0) sample_live = Inr (n, st') \<and> map ev_seq (lv_rows st') = [3] \<and> live_ok st'"
proof -
  have "(case prune 30 1 (date_utc 2026 0 31 12 0 0 0) sample_live of Inr (n, st') \<Rightarrow> map ev_seq (lv_rows st') = [3] | Inl _ \<Rightarrow> False)"
    by code_simp
  then obtain n st' where p: "prune 30 1 (date_utc 2026 0 31 12 0 0 0) sample_live = Inr (n, st')" "map ev_seq (lv_rows st') = [3]"
    by (auto split: sum.splits)
  have "live_ok st'" using live_prune_keeps_newest [OF sample_live_ok p(1)] by (auto simp: Let_def)
  with p show ?thesis by (intro exI conjI)
qed

end
