(* ===== verification/Live_Provider.thy ===== *)
theory Live_Provider
  imports Live_Store
begin

text \<open>
  Webhook adapters: the interface of \<open>src/live/provider.ts\<close>, the signature check of
  \<open>src/live/verify.ts\<close> and the GitHub adapter of \<open>src/live/github.ts\<close>.

  A payload is a \<open>json\<close> value; its numbers are integers that a double holds exactly and prints with
  all their digits.  \<open>hmac secret body\<close> is the SHA-256 HMAC in hex, a function of \<open>node:crypto\<close>.
\<close>

section \<open>Headers\<close>

text \<open>Node lowercases the names of the headers; a repeated header is a list.\<close>

datatype header = One string | Many "string list"

type_synonym headers = "(string \<times> header) list"

definition first_value :: "header option \<Rightarrow> string option" where
  "first_value h =
     (case h of
        None \<Rightarrow> None
      | Some (One v) \<Rightarrow> Some v
      | Some (Many vs) \<Rightarrow> (case vs of [] \<Rightarrow> None | v # _ \<Rightarrow> Some v))"

definition headerValue :: "headers \<Rightarrow> string \<Rightarrow> string option" where
  "headerValue hs name = first_value (map_of hs (to_lower name))"

record adapt_ctx =
  cx_source_id :: string
  cx_delivery_id :: string
  cx_received_at :: string
  cx_event_header :: string
  cx_hook_id :: "string option"

section \<open>Secrets\<close>

definition SECRET_KEY_TOKENS :: "string list" where
  "SECRET_KEY_TOKENS =
     [''token'', ''secret'', ''signature'', ''password'', ''passwd'', ''private_key'', ''authorization'']"

definition isSecretKey :: "string \<Rightarrow> bool" where
  "isSecretKey key = list_ex (\<lambda>t. index_of t (to_lower key) \<noteq> None) SECRET_KEY_TOKENS"

text \<open>Assigning the member \<open>__proto__\<close> of an object sets its prototype and makes no member.\<close>

fun scrubSecrets :: "json \<Rightarrow> json"
  and scrub_elements :: "json list \<Rightarrow> json list"
  and scrub_members :: "(string \<times> json) list \<Rightarrow> (string \<times> json) list"
where
  "scrubSecrets (JArr xs) = JArr (scrub_elements xs)"
| "scrubSecrets (JObj ms) = JObj (scrub_members ms)"
| "scrubSecrets JNull = JNull"
| "scrubSecrets (JBool b) = JBool b"
| "scrubSecrets (JNum n) = JNum n"
| "scrubSecrets (JStr s) = JStr s"
| "scrub_elements [] = []"
| "scrub_elements (x # xs) = scrubSecrets x # scrub_elements xs"
| "scrub_members [] = []"
| "scrub_members ((k, v) # ms) =
     (if k = ''__proto__'' then scrub_members ms
      else (k, if isSecretKey k then JStr ''[redacted]'' else scrubSecrets v) # scrub_members ms)"

section \<open>The signature of a delivery\<close>

datatype verify_result = Verified | Missing_Signature | Bad_Format | Mismatch

definition utf8_char :: "char \<Rightarrow> nat list" where
  "utf8_char c = (if code c < 128 then [code c] else [192 + code c div 64, 128 + code c mod 64])"

definition utf8 :: "string \<Rightarrow> nat list" where
  "utf8 s = concat (map utf8_char s)"

definition githubDigest :: "(string \<Rightarrow> nat list \<Rightarrow> string) \<Rightarrow> nat list \<Rightarrow> string \<Rightarrow> string" where
  "githubDigest hmac rawBody secret = ''sha256='' @ hmac secret rawBody"

definition secret_matches :: "(string \<Rightarrow> nat list \<Rightarrow> string) \<Rightarrow> nat list \<Rightarrow> string \<Rightarrow> string \<Rightarrow> bool" where
  "secret_matches hmac rawBody hd_value secret =
     (let expected = utf8 (githubDigest hmac rawBody secret); provided = utf8 hd_value in
      length expected = length provided \<and> expected = provided)"

definition verifyGithubSignature ::
  "(string \<Rightarrow> nat list \<Rightarrow> string) \<Rightarrow> nat list \<Rightarrow> header option \<Rightarrow> string list \<Rightarrow> verify_result"
where
  "verifyGithubSignature hmac rawBody signatureHeader secrets =
     (case first_value signatureHeader of
        None \<Rightarrow> Missing_Signature
      | Some h \<Rightarrow>
          if length h = 0 then Missing_Signature
          else if \<not> starts_with ''sha256='' h then Bad_Format
          else
            (let candidates = filter (\<lambda>s. length s > 0) secrets in
             if candidates = [] then Bad_Format
             else
               (let matched = fold (\<lambda>secret matched. if secret_matches hmac rawBody h secret then True else matched)
                                candidates False in
                if matched then Verified else Mismatch)))"

section \<open>Reading a payload\<close>

definition asObj :: "json option \<Rightarrow> (string \<times> json) list option" where
  "asObj v = (case v of Some (JObj ms) \<Rightarrow> Some ms | _ \<Rightarrow> None)"

definition asStr :: "json option \<Rightarrow> string option" where
  "asStr v = (case v of Some (JStr s) \<Rightarrow> Some s | _ \<Rightarrow> None)"

definition asNum :: "json option \<Rightarrow> int option" where
  "asNum v = (case v of Some (JNum n) \<Rightarrow> Some n | _ \<Rightarrow> None)"

definition asBool :: "json option \<Rightarrow> bool" where
  "asBool v = (v = Some (JBool True))"

definition str_at :: "(string \<times> json) list \<Rightarrow> string \<Rightarrow> string option" where
  "str_at ms k = asStr (obj_get ms k)"

definition obj_at :: "(string \<times> json) list \<Rightarrow> string \<Rightarrow> (string \<times> json) list option" where
  "obj_at ms k = asObj (obj_get ms k)"

text \<open>\<open>o ? asStr(o.k) : null\<close>\<close>

definition opt_str :: "(string \<times> json) list option \<Rightarrow> string \<Rightarrow> string option" where
  "opt_str o' k = Option.bind o' (\<lambda>ms. str_at ms k)"

definition MAX_SAFE_INTEGER :: int where
  "MAX_SAFE_INTEGER = 9007199254740991"

definition toProviderNumber :: "int option \<Rightarrow> json option" where
  "toProviderNumber v =
     map_option (\<lambda>n. if - MAX_SAFE_INTEGER \<le> n \<and> n \<le> MAX_SAFE_INTEGER then JNum n else JStr (int_str n)) v"

definition ghActor :: "(string \<times> json) list option \<Rightarrow> live_actor option" where
  "ghActor sender =
     map_option (\<lambda>s. \<lparr>la_login = str_at s ''login'', la_display_name = str_at s ''name'',
                     la_avatar_url = str_at s ''avatar_url'', la_profile_url = str_at s ''html_url''\<rparr>) sender"

definition ghTarget ::
  "string \<Rightarrow> (string \<times> json) list option \<Rightarrow> string option \<Rightarrow> string \<Rightarrow> live_target option"
where
  "ghTarget kind obj repoPath sourceId =
     map_option (\<lambda>x. \<lparr>lt_kind = kind, lt_source_id = sourceId, lt_project_path = repoPath,
                     lt_number = toProviderNumber (asNum (obj_get x ''number'')),
                     lt_external_id = str_at x ''node_id'', lt_title = str_at x ''title'',
                     lt_url = str_at x ''html_url''\<rparr>) obj"

definition nameOf :: "live_actor option \<Rightarrow> string" where
  "nameOf actor = or_else (Option.bind actor la_login) ''someone''"

definition ghCommitActor ::
  "(string \<times> json) list option \<Rightarrow> (string \<times> json) list option \<Rightarrow> live_actor option"
where
  "ghCommitActor authorObj sender =
     (let senderActor = ghActor sender; login = opt_str authorObj ''username''; displayName = opt_str authorObj ''name'' in
      if login = None \<and> displayName = None then senderActor
      else
        (case senderActor of
           Some sa \<Rightarrow>
             if login \<noteq> None \<and> la_login sa = login then
               Some \<lparr>la_login = login, la_display_name = nullish displayName (la_display_name sa),
                     la_avatar_url = la_avatar_url sa, la_profile_url = la_profile_url sa\<rparr>
             else Some \<lparr>la_login = login, la_display_name = displayName, la_avatar_url = None, la_profile_url = None\<rparr>
         | None \<Rightarrow> Some \<lparr>la_login = login, la_display_name = displayName, la_avatar_url = None, la_profile_url = None\<rparr>))"

definition commitName :: "live_actor option \<Rightarrow> string" where
  "commitName actor = or_else (nullish (Option.bind actor la_login) (Option.bind actor la_display_name)) ''someone''"

definition reviewVerb :: "string option \<Rightarrow> string \<Rightarrow> string" where
  "reviewVerb state action =
     (if action = ''dismissed'' \<or> state = Some ''dismissed'' then ''dismissed a review on''
      else if state = Some ''approved'' then ''approved''
      else if state = Some ''changes_requested'' then ''requested changes on''
      else ''reviewed'')"

text \<open>\<open>target?.number ?? ""\<close> inside a template.\<close>

definition number_text :: "live_target option \<Rightarrow> string" where
  "number_text target =
     (case Option.bind target lt_number of
        Some (JNum n) \<Rightarrow> int_str n
      | Some (JStr s) \<Rightarrow> s
      | _ \<Rightarrow> [])"

end
