(* ===== verification/Live_Github.thy ===== *)
theory Live_Github
  imports Live_Provider
begin

text \<open>
  The GitHub adapter of \<open>src/live/github.ts\<close>: the neutral events of one verified payload, with one
  definition per case of its \<open>switch\<close>, and what the receiver relies on.
\<close>

definition ISSUE_ACTIONS :: "string list" where
  "ISSUE_ACTIONS = [''opened'', ''closed'', ''reopened'', ''edited'']"

definition ISSUE_COMMENT_ACTIONS :: "string list" where
  "ISSUE_COMMENT_ACTIONS = [''created'', ''edited'', ''deleted'']"

definition PR_ACTIONS :: "string list" where
  "PR_ACTIONS = [''opened'', ''closed'', ''reopened'', ''edited'', ''ready_for_review'']"

definition REVIEW_ACTIONS :: "string list" where
  "REVIEW_ACTIONS = [''submitted'', ''edited'', ''dismissed'']"

definition REVIEW_COMMENT_ACTIONS :: "string list" where
  "REVIEW_COMMENT_ACTIONS = [''created'', ''edited'', ''deleted'']"

definition REVIEW_THREAD_ACTIONS :: "string list" where
  "REVIEW_THREAD_ACTIONS = [''resolved'', ''unresolved'']"

section \<open>Making an event\<close>

text \<open>What every event of one delivery shares.\<close>

record delivery_base =
  db_ctx :: adapt_ctx
  db_action :: "string option"
  db_repo_path :: "string option"
  db_actor :: "live_actor option"
  db_raw :: "(string \<times> json) list"

definition delivery_base_of :: "(string \<times> json) list \<Rightarrow> adapt_ctx \<Rightarrow> delivery_base" where
  "delivery_base_of payload ctx =
     \<lparr>db_ctx = ctx, db_action = str_at payload ''action'',
      db_repo_path = opt_str (obj_at payload ''repository'') ''full_name'',
      db_actor = ghActor (obj_at payload ''sender''), db_raw = scrub_members payload\<rparr>"

record make_fields =
  mk_category :: string
  mk_target :: "live_target option"
  mk_title :: "string option"
  mk_body :: "string option"
  mk_url :: "string option"
  mk_occurred_at :: "string option"
  mk_review_state :: "string option"
  mk_provider_details :: "json option"
  mk_actor :: "live_actor option"
  mk_raw :: "json option"

definition make_event :: "delivery_base \<Rightarrow> make_fields \<Rightarrow> live_input" where
  "make_event b f =
     \<lparr>li_event_id = cx_delivery_id (db_ctx b), li_source_id = cx_source_id (db_ctx b), li_provider = ''github'',
      li_received_at = cx_received_at (db_ctx b), li_occurred_at = mk_occurred_at f,
      li_event_type = cx_event_header (db_ctx b), li_action = db_action b, li_category = mk_category f,
      li_actor = nullish (mk_actor f) (db_actor b), li_target = mk_target f, li_title = mk_title f,
      li_body = mk_body f, li_url = mk_url f, li_review_state = mk_review_state f,
      li_delivery = \<lparr>ld_delivery_id = cx_delivery_id (db_ctx b), ld_event_header = cx_event_header (db_ctx b),
                     ld_hook_id = cx_hook_id (db_ctx b)\<rparr>,
      li_provider_details = mk_provider_details f,
      li_raw = nullish (mk_raw f) (Some (JObj (db_raw b)))\<rparr>"

text \<open>A field set that leaves the optional members of \<open>make\<close> out.\<close>

definition plain_fields ::
  "string \<Rightarrow> live_target option \<Rightarrow> string \<Rightarrow> string option \<Rightarrow> string option \<Rightarrow> string option \<Rightarrow> make_fields"
where
  "plain_fields category target title body url occurred_at =
     \<lparr>mk_category = category, mk_target = target, mk_title = Some title, mk_body = body, mk_url = url,
      mk_occurred_at = occurred_at, mk_review_state = None, mk_provider_details = None, mk_actor = None, mk_raw = None\<rparr>"

definition gh_target_of :: "delivery_base \<Rightarrow> string \<Rightarrow> (string \<times> json) list option \<Rightarrow> live_target option" where
  "gh_target_of b kind obj = ghTarget kind obj (db_repo_path b) (cx_source_id (db_ctx b))"

section \<open>The cases\<close>

definition issue_events :: "delivery_base \<Rightarrow> (string \<times> json) list \<Rightarrow> string \<Rightarrow> live_input list" where
  "issue_events b payload action =
     (if action \<notin> set ISSUE_ACTIONS then []
      else
        (let issue = obj_at payload ''issue''; target = gh_target_of b ''issue'' issue in
         [make_event b (plain_fields ''issue'' target
            (nameOf (db_actor b) @ '' '' @ action @ '' issue #'' @ number_text target)
            (opt_str issue ''body'') (opt_str issue ''html_url'') (opt_str issue ''updated_at''))]))"

definition comment_verb :: "string \<Rightarrow> string" where
  "comment_verb action =
     (if action = ''created'' then ''commented on''
      else if action = ''deleted'' then ''deleted a comment on''
      else ''edited a comment on'')"

text \<open>\<open>o ? asStr(o.html_url) : p ? asStr(p.html_url) : null\<close>\<close>

definition url_of_either :: "(string \<times> json) list option \<Rightarrow> (string \<times> json) list option \<Rightarrow> string option" where
  "url_of_either a p = (case a of Some x \<Rightarrow> str_at x ''html_url'' | None \<Rightarrow> opt_str p ''html_url'')"

definition issue_comment_events :: "delivery_base \<Rightarrow> (string \<times> json) list \<Rightarrow> string \<Rightarrow> live_input list" where
  "issue_comment_events b payload action =
     (if action \<notin> set ISSUE_COMMENT_ACTIONS then []
      else
        (let issue = obj_at payload ''issue''; comment = obj_at payload ''comment'';
             isPr = (Option.bind issue (\<lambda>i. obj_at i ''pull_request'') \<noteq> None);
             target = gh_target_of b (if isPr then ''change_request'' else ''issue'') issue in
         [make_event b (plain_fields ''comment'' target
            (nameOf (db_actor b) @ '' '' @ comment_verb action @ '' '' @ (if isPr then ''PR'' else ''issue'') @ '' #'' @
               number_text target)
            (opt_str comment ''body'') (url_of_either comment issue)
            (nullish (opt_str comment ''updated_at'') (opt_str comment ''created_at'')))]))"

definition pull_request_events :: "delivery_base \<Rightarrow> (string \<times> json) list \<Rightarrow> string \<Rightarrow> live_input list" where
  "pull_request_events b payload action =
     (if action \<notin> set PR_ACTIONS then []
      else
        (let pr = obj_at payload ''pull_request''; target = gh_target_of b ''change_request'' pr;
             merged = (action = ''closed'' \<and> asBool (Option.bind pr (\<lambda>p. obj_get p ''merged'')));
             draft = asBool (Option.bind pr (\<lambda>p. obj_get p ''draft'')) in
         [make_event b ((plain_fields ''change_request'' target
            (if merged then nameOf (db_actor b) @ '' merged PR #'' @ number_text target
             else nameOf (db_actor b) @ '' '' @ action @ '' PR #'' @ number_text target)
            (opt_str pr ''body'') (opt_str pr ''html_url'') (opt_str pr ''updated_at''))
            \<lparr>mk_provider_details := Some (JObj [(''merged'', JBool merged), (''draft'', JBool draft)])\<rparr>)]))"

definition review_events :: "delivery_base \<Rightarrow> (string \<times> json) list \<Rightarrow> string \<Rightarrow> live_input list" where
  "review_events b payload action =
     (if action \<notin> set REVIEW_ACTIONS then []
      else
        (let review = obj_at payload ''review''; pr = obj_at payload ''pull_request'';
             target = gh_target_of b ''change_request'' pr; state = opt_str review ''state'' in
         [make_event b ((plain_fields ''review'' target
            (nameOf (db_actor b) @ '' '' @ reviewVerb state action @ '' PR #'' @ number_text target)
            (opt_str review ''body'') (url_of_either review pr) (opt_str review ''submitted_at''))
            \<lparr>mk_review_state := state\<rparr>)]))"

definition review_comment_events :: "delivery_base \<Rightarrow> (string \<times> json) list \<Rightarrow> string \<Rightarrow> live_input list" where
  "review_comment_events b payload action =
     (if action \<notin> set REVIEW_COMMENT_ACTIONS then []
      else
        (let comment = obj_at payload ''comment''; pr = obj_at payload ''pull_request'';
             target = gh_target_of b ''change_request'' pr in
         [make_event b (plain_fields ''review_comment'' target
            (nameOf (db_actor b) @ '' commented on PR #'' @ number_text target @ '' (review)'')
            (opt_str comment ''body'') (url_of_either comment pr)
            (nullish (opt_str comment ''updated_at'') (opt_str comment ''created_at'')))]))"

definition review_thread_events :: "delivery_base \<Rightarrow> (string \<times> json) list \<Rightarrow> string \<Rightarrow> live_input list" where
  "review_thread_events b payload action =
     (if action \<notin> set REVIEW_THREAD_ACTIONS then []
      else
        (let pr = obj_at payload ''pull_request''; target = gh_target_of b ''change_request'' pr in
         [make_event b (plain_fields ''review_thread'' target
            (nameOf (db_actor b) @ '' '' @ action @ '' a review thread on PR #'' @ number_text target)
            None (opt_str pr ''html_url'') None)]))"

subsection \<open>Pushes\<close>

definition array_at :: "(string \<times> json) list \<Rightarrow> string \<Rightarrow> json list" where
  "array_at ms k = (case obj_get ms k of Some (JArr xs) \<Rightarrow> xs | _ \<Rightarrow> [])"

definition falsy_to_null :: "string \<Rightarrow> string option" where
  "falsy_to_null s = (if s = [] then None else Some s)"

definition push_branch :: "string option \<Rightarrow> string option" where
  "push_branch ref =
     map_option (\<lambda>r. if starts_with ''refs/heads/'' r then drop (length ''refs/heads/'') r else r) ref"

definition push_details :: "string option \<Rightarrow> json option" where
  "push_details ref =
     (case ref of
        None \<Rightarrow> None
      | Some r \<Rightarrow>
          if r = [] then None
          else Some (JObj [(''ref'', JStr r), (''branch'', JStr (or_else (push_branch ref) []))]))"

text \<open>\<open>{ ...raw, commits: xs }\<close>\<close>

definition with_commits :: "(string \<times> json) list \<Rightarrow> json list \<Rightarrow> (string \<times> json) list" where
  "with_commits raw xs =
     (if obj_get raw ''commits'' = None then raw @ [(''commits'', JArr xs)]
      else map (\<lambda>(k, v). (k, if k = ''commits'' then JArr xs else v)) raw)"

definition commit_raw :: "delivery_base \<Rightarrow> nat \<Rightarrow> (string \<times> json) list" where
  "commit_raw b i =
     (let rawCommits = array_at (db_raw b) ''commits'' in
      with_commits (db_raw b) (if i < length rawCommits then [rawCommits ! i] else []))"

definition commit_event ::
  "delivery_base \<Rightarrow> (string \<times> json) list \<Rightarrow> nat \<Rightarrow> json \<Rightarrow> live_input option"
where
  "commit_event b payload i c =
     (let ref = str_at payload ''ref''; sender = obj_at payload ''sender'' in
      case asObj (Some c) of
        None \<Rightarrow> None
      | Some commit \<Rightarrow>
          (case str_at commit ''id'' of
             None \<Rightarrow> None
           | Some sha \<Rightarrow>
               if sha = [] then None
               else
                 (let message = or_else (str_at commit ''message'') [];
                      subject = hd (split_on (CHR 0x0A) message);
                      commitActor = ghCommitActor (obj_at commit ''author'') sender;
                      url = str_at commit ''url'' in
                  Some (make_event b
                    \<lparr>mk_category = ''commit'',
                     mk_target = Some \<lparr>lt_kind = ''commit'', lt_source_id = cx_source_id (db_ctx b),
                       lt_project_path = db_repo_path b, lt_number = None, lt_external_id = Some sha,
                       lt_title = falsy_to_null subject, lt_url = url\<rparr>,
                     mk_title = Some (commitName commitActor @ '' committed '' @ take 7 sha),
                     mk_body = falsy_to_null message, mk_url = url, mk_occurred_at = str_at commit ''timestamp'',
                     mk_review_state = None, mk_provider_details = push_details ref, mk_actor = commitActor,
                     mk_raw = Some (JObj (commit_raw b i))\<rparr>))))"

definition push_events :: "delivery_base \<Rightarrow> (string \<times> json) list \<Rightarrow> live_input list" where
  "push_events b payload =
     (let commits = array_at payload ''commits'' in
      List.map_filter (\<lambda>(i, c). commit_event b payload i c) (zip [0..<length commits] commits))"

section \<open>The adapter\<close>

definition with_action :: "delivery_base \<Rightarrow> (string \<Rightarrow> live_input list) \<Rightarrow> live_input list" where
  "with_action b f = (case db_action b of None \<Rightarrow> [] | Some action \<Rightarrow> f action)"

definition toLiveEvents :: "json \<Rightarrow> adapt_ctx \<Rightarrow> live_input list" where
  "toLiveEvents parsed ctx =
     (case asObj (Some parsed) of
        None \<Rightarrow> []
      | Some payload \<Rightarrow>
          (let b = delivery_base_of payload ctx; event = cx_event_header ctx in
           if event = ''issues'' then with_action b (issue_events b payload)
           else if event = ''issue_comment'' then with_action b (issue_comment_events b payload)
           else if event = ''pull_request'' then with_action b (pull_request_events b payload)
           else if event = ''pull_request_review'' then with_action b (review_events b payload)
           else if event = ''pull_request_review_comment'' then with_action b (review_comment_events b payload)
           else if event = ''pull_request_review_thread'' then with_action b (review_thread_events b payload)
           else if event = ''push'' then push_events b payload
           else []))"

definition github_verify ::
  "(string \<Rightarrow> nat list \<Rightarrow> string) \<Rightarrow> nat list \<Rightarrow> headers \<Rightarrow> string list \<Rightarrow> verify_result"
where
  "github_verify hmac rawBody hs secrets =
     verifyGithubSignature hmac rawBody (map_of hs ''x-hub-signature-256'') secrets"

definition github_deliveryId :: "headers \<Rightarrow> string option" where
  "github_deliveryId hs = headerValue hs ''x-github-delivery''"

definition github_isControlEvent :: "headers \<Rightarrow> json \<Rightarrow> bool" where
  "github_isControlEvent hs parsed \<longleftrightarrow> headerValue hs ''x-github-event'' = Some ''ping''"

section \<open>What every event carries\<close>

lemma make_event_stamps [simp]:
  "li_event_id (make_event b f) = cx_delivery_id (db_ctx b)"
  "li_source_id (make_event b f) = cx_source_id (db_ctx b)"
  "li_received_at (make_event b f) = cx_received_at (db_ctx b)"
  "li_event_type (make_event b f) = cx_event_header (db_ctx b)"
  "li_target (make_event b f) = mk_target f"
  "li_raw (make_event b f) = nullish (mk_raw f) (Some (JObj (db_raw b)))"
  "li_delivery (make_event b f) = \<lparr>ld_delivery_id = cx_delivery_id (db_ctx b),
     ld_event_header = cx_event_header (db_ctx b), ld_hook_id = cx_hook_id (db_ctx b)\<rparr>"
  by (simp_all add: make_event_def)

lemmas github_cases =
  issue_events_def issue_comment_events_def pull_request_events_def review_events_def
  review_comment_events_def review_thread_events_def

lemma delivery_base_ctx [simp]: "db_ctx (delivery_base_of payload ctx) = ctx"
  "db_raw (delivery_base_of payload ctx) = scrub_members payload"
  by (simp_all add: delivery_base_of_def)

text \<open>Each event is made from the delivery; only those of a push bring their own payload.\<close>

lemma single_cases_made:
  "e \<in> set (with_action b (issue_events b payload)) \<Longrightarrow> \<exists>f. e = make_event b f \<and> mk_raw f = None"
  "e \<in> set (with_action b (issue_comment_events b payload)) \<Longrightarrow> \<exists>f. e = make_event b f \<and> mk_raw f = None"
  "e \<in> set (with_action b (pull_request_events b payload)) \<Longrightarrow> \<exists>f. e = make_event b f \<and> mk_raw f = None"
  "e \<in> set (with_action b (review_events b payload)) \<Longrightarrow> \<exists>f. e = make_event b f \<and> mk_raw f = None"
  "e \<in> set (with_action b (review_comment_events b payload)) \<Longrightarrow> \<exists>f. e = make_event b f \<and> mk_raw f = None"
  "e \<in> set (with_action b (review_thread_events b payload)) \<Longrightarrow> \<exists>f. e = make_event b f \<and> mk_raw f = None"
  unfolding with_action_def github_cases Let_def
  by (auto split: option.splits if_splits intro!: exI conjI [OF refl] simp: plain_fields_def)

lemma commit_event_made:
  assumes "commit_event b payload i c = Some e"
  obtains f where "e = make_event b f"
    and "mk_raw f = Some (JObj (commit_raw b i))"
  using assms unfolding commit_event_def Let_def
  by (auto split: option.splits if_splits)

lemma toLiveEvents_made:
  assumes "e \<in> set (toLiveEvents parsed ctx)"
  obtains payload f where "parsed = JObj payload" and "e = make_event (delivery_base_of payload ctx) f"
    and "mk_raw f = None \<or> (\<exists>i. mk_raw f = Some (JObj (commit_raw (delivery_base_of payload ctx) i)))"
proof -
  obtain payload where p: "parsed = JObj payload"
    using assms by (auto simp: toLiveEvents_def asObj_def split: json.splits)
  let ?b = "delivery_base_of payload ctx"
  have "\<exists>f. e = make_event ?b f \<and> (mk_raw f = None \<or> (\<exists>i. mk_raw f = Some (JObj (commit_raw ?b i))))"
  proof (cases "e \<in> set (push_events ?b payload)")
    case True
    then obtain i c where "commit_event ?b payload i c = Some e"
      by (auto simp: push_events_def Let_def List.map_filter_def)
    then show ?thesis by (elim commit_event_made) auto
  next
    case False
    then show ?thesis
      using assms single_cases_made [of e ?b payload]
      unfolding p toLiveEvents_def asObj_def Let_def by (auto split: if_splits)
  qed
  with p that show ?thesis by blast
qed

section \<open>No secret is stored\<close>

fun redacted :: "json \<Rightarrow> bool"
  and redacted_elements :: "json list \<Rightarrow> bool"
  and redacted_members :: "(string \<times> json) list \<Rightarrow> bool"
where
  "redacted (JArr xs) = redacted_elements xs"
| "redacted (JObj ms) = redacted_members ms"
| "redacted JNull = True"
| "redacted (JBool b) = True"
| "redacted (JNum n) = True"
| "redacted (JStr s) = True"
| "redacted_elements [] = True"
| "redacted_elements (x # xs) = (redacted x \<and> redacted_elements xs)"
| "redacted_members [] = True"
| "redacted_members ((k, v) # ms) =
     ((isSecretKey k \<longrightarrow> v = JStr ''[redacted]'') \<and> redacted v \<and> redacted_members ms)"

lemma redacted_scrub:
  "redacted (scrubSecrets j)"
  "redacted_elements (scrub_elements xs)"
  "redacted_members (scrub_members ms)"
  by (induction j and xs and ms rule: scrubSecrets_scrub_elements_scrub_members.induct) auto

lemma redacted_elements_iff: "redacted_elements xs \<longleftrightarrow> (\<forall>x \<in> set xs. redacted x)"
  by (induction xs) auto

lemma redacted_members_iff:
  "redacted_members ms \<longleftrightarrow> (\<forall>(k, v) \<in> set ms. (isSecretKey k \<longrightarrow> v = JStr ''[redacted]'') \<and> redacted v)"
  by (induction ms) auto

lemma commits_not_secret: "\<not> isSecretKey ''commits''"
  by code_simp

lemma redacted_with_commits:
  "redacted_members raw \<Longrightarrow> redacted_elements xs \<Longrightarrow> redacted_members (with_commits raw xs)"
  by (auto simp: redacted_members_iff with_commits_def commits_not_secret split: if_splits)

lemma obj_get_mem: "obj_get ms k = Some v \<Longrightarrow> (k, v) \<in> set ms"
  by (auto simp: obj_get_def dest: find_last_SomeD)

lemma redacted_array_at: "redacted_members ms \<Longrightarrow> redacted_elements (array_at ms k)"
  by (auto simp: array_at_def redacted_members_iff split: option.splits json.splits dest!: obj_get_mem bspec)

lemma redacted_commit_raw: "redacted_members (commit_raw (delivery_base_of payload ctx) i)"
proof -
  have "redacted (array_at (scrub_members payload) ''commits'' ! i)"
    if "i < length (array_at (scrub_members payload) ''commits'')"
    using redacted_array_at [OF redacted_scrub(3), of payload "''commits''"] nth_mem [OF that]
    by (simp add: redacted_elements_iff)
  then show ?thesis
    by (auto simp: commit_raw_def Let_def redacted_scrub intro!: redacted_with_commits)
qed

text \<open>
  Claim C30. Whatever the payload, in no event that the adapter yields does the stored raw payload
  hold a value under a secret-bearing key, at any depth: every such value is the text
  \<open>[redacted]\<close>.
\<close>

theorem github_events_hold_no_secret:
  "\<forall>e \<in> set (toLiveEvents parsed ctx). \<exists>raw. li_raw e = Some raw \<and> redacted raw"
proof
  fix e
  assume "e \<in> set (toLiveEvents parsed ctx)"
  then show "\<exists>raw. li_raw e = Some raw \<and> redacted raw"
  proof (rule toLiveEvents_made)
    fix payload f
    assume "e = make_event (delivery_base_of payload ctx) f"
      and "mk_raw f = None \<or> (\<exists>i. mk_raw f = Some (JObj (commit_raw (delivery_base_of payload ctx) i)))"
    then show ?thesis by (auto simp: redacted_scrub redacted_commit_raw)
  qed
qed

section \<open>The commits of a push\<close>

lemma obj_get_scrub:
  "k \<noteq> ''__proto__'' \<Longrightarrow> \<not> isSecretKey k \<Longrightarrow> obj_get (scrub_members ms) k = map_option scrubSecrets (obj_get ms k)"
proof (induction ms)
  case (Cons m ms)
  obtain k' v where m: "m = (k', v)" by (cases m)
  have "obj_get ((a, b) # xs) k = nullish (obj_get xs k) (if a = k then Some b else None)" for a b and xs :: "(string \<times> json) list"
    by (simp add: obj_get_def find_last_Cons nullish_def split: option.split)
  with Cons show ?case by (auto simp: m nullish_def split: option.split)
qed (simp add: obj_get_def)

lemma scrub_elements_map: "scrub_elements xs = map scrubSecrets xs"
  by (induction xs) auto

lemma scrubbed_commits: "array_at (scrub_members payload) ''commits'' = map scrubSecrets (array_at payload ''commits'')"
  by (auto simp: array_at_def obj_get_scrub commits_not_secret scrub_elements_map split: option.split json.split)

definition commit_sha :: "json \<Rightarrow> string option" where
  "commit_sha c = (case Option.bind (asObj (Some c)) (\<lambda>ms. str_at ms ''id'') of Some (x # s) \<Rightarrow> Some (x # s) | _ \<Rightarrow> None)"

definition carries_commit :: "(string \<times> json) list \<Rightarrow> json \<Rightarrow> live_input \<Rightarrow> bool" where
  "carries_commit payload c e \<longleftrightarrow>
     Option.bind (li_target e) lt_external_id = commit_sha c \<and> li_category e = ''commit'' \<and>
     li_raw e = Some (JObj (with_commits (scrub_members payload) [scrubSecrets c]))"

lemma commit_event_None: "commit_event b payload i c = None \<longleftrightarrow> commit_sha c = None"
  by (auto simp: commit_event_def commit_sha_def Let_def split: option.splits list.splits)

lemma commit_event_Some:
  assumes "commit_event (delivery_base_of payload ctx) payload i c = Some e"
    and "i < length (array_at payload ''commits'')" and "c = array_at payload ''commits'' ! i"
  shows "carries_commit payload c e"
proof -
  have "commit_raw (delivery_base_of payload ctx) i = with_commits (scrub_members payload) [scrubSecrets c]"
    using assms(2,3) by (simp add: commit_raw_def scrubbed_commits)
  then show ?thesis
    using assms(1)
    by (auto simp: commit_event_def carries_commit_def commit_sha_def Let_def make_event_def split: option.splits if_splits list.splits)
qed

lemma map_filter_zip_matches:
  assumes "\<And>i c. i < length xs \<Longrightarrow> c = xs ! i \<Longrightarrow> case f (n + i) c of None \<Rightarrow> \<not> P c | Some e \<Rightarrow> P c \<and> R c e"
  shows "list_all2 R (filter P xs) (List.map_filter (\<lambda>(i, c). f i c) (zip [n..<n + length xs] xs))"
  using assms
proof (induction xs arbitrary: n)
  case (Cons x xs)
  have "list_all2 R (filter P xs) (List.map_filter (\<lambda>(i, c). f i c) (zip [Suc n..<Suc n + length xs] xs))"
  proof (rule Cons.IH)
    fix i c
    assume "i < length xs" "c = xs ! i"
    then show "case f (Suc n + i) c of None \<Rightarrow> \<not> P c | Some e \<Rightarrow> P c \<and> R c e"
      using Cons.prems [of "Suc i" c] by simp
  qed
  moreover have "[n..<n + length (x # xs)] = n # [Suc n..<Suc n + length xs]"
    by (simp add: upt_conv_Cons del: upt_Suc)
  ultimately show ?case
    using Cons.prems [of 0 x] by (simp add: List.map_filter_def del: upt_Suc split: option.splits)
qed (simp add: List.map_filter_def)

text \<open>
  A push yields one event per commit that carries an id, in the order of the payload: the
  event targets that commit, and of the array of commits its stored payload keeps only that one, with
  its secrets redacted.
\<close>

theorem github_push_fans_out:
  assumes "cx_event_header ctx = ''push''"
  shows "list_all2 (carries_commit payload)
     (filter (\<lambda>c. commit_sha c \<noteq> None) (array_at payload ''commits'')) (toLiveEvents (JObj payload) ctx)"
proof -
  let ?b = "delivery_base_of payload ctx"
  have "list_all2 (carries_commit payload) (filter (\<lambda>c. commit_sha c \<noteq> None) (array_at payload ''commits''))
          (List.map_filter (\<lambda>(i, c). commit_event ?b payload i c)
             (zip [0..<0 + length (array_at payload ''commits'')] (array_at payload ''commits'')))"
  proof (rule map_filter_zip_matches)
    fix i c
    assume "i < length (array_at payload ''commits'')" "c = array_at payload ''commits'' ! i"
    then show "case commit_event ?b payload (0 + i) c of None \<Rightarrow> \<not> commit_sha c \<noteq> None
        | Some e \<Rightarrow> commit_sha c \<noteq> None \<and> carries_commit payload c e"
      using commit_event_None [of ?b payload i c] commit_event_Some [of payload ctx i c]
      by (cases "commit_event ?b payload i c") auto
  qed
  then show ?thesis
    using assms by (simp add: toLiveEvents_def asObj_def push_events_def Let_def)
qed

section \<open>The signature\<close>

lemma utf8_char_inj_append: "utf8_char a @ xs = utf8_char b @ ys \<Longrightarrow> a = b \<and> xs = ys"
proof -
  assume eq: "utf8_char a @ xs = utf8_char b @ ys"
  have "code a = code b" if "code a div 64 = code b div 64" "code a mod 64 = code b mod 64"
    using that by (metis mult_div_mod_eq)
  then have "code a = code b" using eq code_less_256 [of a] code_less_256 [of b]
    by (auto simp: utf8_char_def split: if_splits)
  then have "a = b" using code_inj by (auto dest: injD)
  with eq show ?thesis by simp
qed

lemma utf8_inj: "utf8 s = utf8 t \<Longrightarrow> s = t"
proof (induction s arbitrary: t)
  case Nil
  then show ?case by (cases t) (auto simp: utf8_def utf8_char_def split: if_splits)
next
  case (Cons a s)
  show ?case
  proof (cases t)
    case Nil
    with Cons.prems show ?thesis by (auto simp: utf8_def utf8_char_def split: if_splits)
  next
    case (Cons b t')
    with Cons.prems have "a = b \<and> utf8 s = utf8 t'"
      by (intro utf8_char_inj_append) (simp add: utf8_def)
    with Cons Cons.IH show ?thesis by simp
  qed
qed

lemma secret_matches_iff: "secret_matches hmac rawBody h secret \<longleftrightarrow> h = githubDigest hmac rawBody secret"
  by (auto simp: secret_matches_def Let_def dest: utf8_inj)

lemma fold_or: "fold (\<lambda>x m. if P x then True else m) xs m \<longleftrightarrow> m \<or> (\<exists>x \<in> set xs. P x)"
  by (induction xs arbitrary: m) auto

text \<open>
  Claim C29. A delivery passes exactly when its signature header is \<open>sha256=\<close> followed by the HMAC
  of the raw body under one of the configured secrets that are not empty; every other delivery is
  refused with its reason, so no configuration without a secret accepts anything.
\<close>

theorem github_signature_exact:
  "verifyGithubSignature hmac rawBody signatureHeader secrets =
     (let h = first_value signatureHeader; usable = filter (\<lambda>s. s \<noteq> []) secrets in
      if h = None \<or> h = Some [] then Missing_Signature
      else if \<exists>secret \<in> set usable. h = Some (''sha256='' @ hmac secret rawBody) then Verified
      else if usable = [] \<or> \<not> starts_with ''sha256='' (the h) then Bad_Format
      else Mismatch)"
proof -
  have pre: "starts_with ''sha256='' (''sha256='' @ x)" for x by (rule starts_with_append)
  show ?thesis
    unfolding verifyGithubSignature_def Let_def fold_or secret_matches_iff githubDigest_def
    by (cases "first_value signatureHeader") (auto simp: pre [simplified] filter_empty_conv)
qed

section \<open>The interface\<close>

text \<open>
  What the receiver relies on in an adapter: every event is filed under the delivery it came from,
  at the instant the receiver accepted it.
\<close>

locale webhook_adapter =
  fixes to_events :: "json \<Rightarrow> adapt_ctx \<Rightarrow> live_input list"
  assumes stamped: "e \<in> set (to_events parsed ctx) \<Longrightarrow>
    li_event_id e = cx_delivery_id ctx \<and> li_source_id e = cx_source_id ctx \<and> li_received_at e = cx_received_at ctx"
begin

lemma received: "e \<in> set (to_events parsed ctx) \<Longrightarrow> li_received_at e = cx_received_at ctx"
  by (simp add: stamped)

lemma filed: "e \<in> set (to_events parsed ctx) \<Longrightarrow>
    delivery_id e i = (req_text (cx_source_id ctx), req_text (cx_delivery_id ctx), i)"
  by (simp add: stamped delivery_id_def)

text \<open>Two deliveries of one payload number the same events in the same way.\<close>

lemma same_delivery:
  assumes "e \<in> set (to_events parsed ctx)" and "e' \<in> set (to_events parsed' ctx')"
    and "cx_source_id ctx = cx_source_id ctx'" and "cx_delivery_id ctx = cx_delivery_id ctx'"
  shows "delivery_id e i = delivery_id e' i"
  using assms by (simp add: filed)

end

interpretation gh: webhook_adapter toLiveEvents
proof
  fix e parsed ctx
  assume "e \<in> set (toLiveEvents parsed ctx)"
  then show "li_event_id e = cx_delivery_id ctx \<and> li_source_id e = cx_source_id ctx \<and> li_received_at e = cx_received_at ctx"
    by (elim toLiveEvents_made) auto
qed

section \<open>Instances\<close>

definition sample_push :: "(string \<times> json) list" where
  "sample_push =
     [(''ref'', JStr ''refs/heads/main''), (''token'', JStr ''t0''),
      (''repository'', JObj [(''full_name'', JStr ''acme/app'')]),
      (''sender'', JObj [(''login'', JStr ''ada'')]),
      (''commits'', JArr
        [JObj [(''id'', JStr ''abc1234567''), (''message'', JStr ''one''), (''client_secret'', JStr ''t1'')],
         JNull, JObj [(''id'', JStr ''def7654321'')]])]"

definition sample_ctx :: adapt_ctx where
  "sample_ctx = \<lparr>cx_source_id = ''github:github.com'', cx_delivery_id = ''d9'',
     cx_received_at = ''2026-01-04T00:00:00.000Z'', cx_event_header = ''push'', cx_hook_id = None\<rparr>"

lemma sample_push_events:
  "map (\<lambda>e. Option.bind (li_target e) lt_external_id) (toLiveEvents (JObj sample_push) sample_ctx)
     = [Some ''abc1234567'', Some ''def7654321'']"
  by code_simp

theorem github_events_hold_no_secret_witness:
  "length (toLiveEvents (JObj sample_push) sample_ctx) = 2 \<and> \<not> redacted (JObj sample_push) \<and>
   (\<exists>raw. li_raw (hd (toLiveEvents (JObj sample_push) sample_ctx)) = Some raw \<and> redacted raw)"
proof -
  have len: "length (toLiveEvents (JObj sample_push) sample_ctx) = 2"
    using arg_cong [OF sample_push_events, of length] by simp
  moreover have "\<not> redacted (JObj sample_push)" by code_simp
  moreover have "hd (toLiveEvents (JObj sample_push) sample_ctx) \<in> set (toLiveEvents (JObj sample_push) sample_ctx)"
    by (rule hd_in_set) (use len in auto)
  ultimately show ?thesis using github_events_hold_no_secret [of "JObj sample_push" sample_ctx] by blast
qed

theorem github_push_fans_out_witness:
  "list_all2 (carries_commit sample_push)
     [JObj [(''id'', JStr ''abc1234567''), (''message'', JStr ''one''), (''client_secret'', JStr ''t1'')],
      JObj [(''id'', JStr ''def7654321'')]]
     (toLiveEvents (JObj sample_push) sample_ctx)"
proof -
  have "filter (\<lambda>c. commit_sha c \<noteq> None) (array_at sample_push ''commits'') =
     [JObj [(''id'', JStr ''abc1234567''), (''message'', JStr ''one''), (''client_secret'', JStr ''t1'')],
      JObj [(''id'', JStr ''def7654321'')]]"
    by code_simp
  then show ?thesis
    using github_push_fans_out [of sample_ctx sample_push] by (simp add: sample_ctx_def)
qed

theorem github_signature_exact_witness:
  "verifyGithubSignature (\<lambda>secret body. secret @ ''!'') [1, 2] (Some (Many [''sha256=new!'', ''x''])) [''old'', [], ''new''] = Verified
   \<and> verifyGithubSignature (\<lambda>secret body. secret @ ''!'') [1, 2] (Some (One ''sha256=!'')) [[]] = Bad_Format"
  unfolding github_signature_exact by (simp add: first_value_def Let_def)

end
