(* ===== verification/Activity.thy ===== *)
theory Activity
  imports Live_Github
begin

text \<open>
  What items and commits say of themselves in the activity stream (\<open>src/model/activity.ts\<close>) and the keys
  by which the records of one person are grouped (\<open>src/model/actor.ts\<close>).  SHA-256 is a parameter, and the
  numbers of a payload are integers.
\<close>

section \<open>Stable identifiers\<close>

definition unreserved :: "char \<Rightarrow> bool" where
  "unreserved c \<longleftrightarrow> is_alnum c \<or> c \<in> set ''-_.!~*'' \<or> c = CHR 0x27 \<or> c = CHR ''('' \<or> c = CHR '')''"

definition hex_digit :: "nat \<Rightarrow> char" where
  "hex_digit n = (if n < 10 then char_of (48 + n) else char_of (55 + n))"

definition percent_byte :: "nat \<Rightarrow> string" where
  "percent_byte b = [CHR ''%'', hex_digit (b div 16), hex_digit (b mod 16)]"

definition percent_char :: "char \<Rightarrow> string" where
  "percent_char c = (if unreserved c then [c] else concat (map percent_byte (utf8_char c)))"

definition encodeURIComponent :: "string \<Rightarrow> string" where
  "encodeURIComponent s = concat (map percent_char s)"

datatype id_part = Text_Part string | Number_Part int

fun part_text :: "id_part \<Rightarrow> string" where
  "part_text (Text_Part s) = s"
| "part_text (Number_Part n) = int_str n"

definition part_texts :: "id_part option list \<Rightarrow> string list" where
  "part_texts parts = filter (\<lambda>s. s \<noteq> []) (List.map_filter (map_option part_text) parts)"

definition stableActivityId :: "id_part option list \<Rightarrow> string" where
  "stableActivityId parts = join '':'' (map encodeURIComponent (part_texts parts))"

section \<open>Commits\<close>

definition lineCount :: "json option \<Rightarrow> int option" where
  "lineCount v = (case v of Some (JNum n) \<Rightarrow> if 0 \<le> n then Some n else None | _ \<Rightarrow> None)"

definition member_of :: "json option \<Rightarrow> string \<Rightarrow> json option" where
  "member_of v k = (case v of Some (JObj ms) \<Rightarrow> obj_get ms k | _ \<Rightarrow> None)"

definition commitLineStats :: "json option \<Rightarrow> int \<Rightarrow> (int \<times> int) option" where
  "commitLineStats raw parentCount =
     (if 1 < parentCount then None
      else
        (case (lineCount (member_of raw ''additions''), lineCount (member_of raw ''deletions'')) of
           (Some a, Some d) \<Rightarrow> Some (a, d)
         | _ \<Rightarrow> None))"

record commit_change_request =
  cq_ref :: string
  cq_iid :: int

text \<open>\<open>cd_change_request\<close>: \<open>None\<close> is undefined, \<open>Some None\<close> is null.\<close>

record commit_details_input =
  cd_sha :: string
  cd_message :: "string option"
  cd_body :: "string option"
  cd_branches :: "string list"
  cd_default_branch :: "string option"
  cd_parent_count :: int
  cd_stats :: "json option"
  cd_change_request :: "commit_change_request option option"

definition json_of_str :: "string option \<Rightarrow> json" where
  "json_of_str s = (case s of None \<Rightarrow> JNull | Some t \<Rightarrow> JStr t)"

definition heads_ref :: "string \<Rightarrow> string" where
  "heads_ref b = ''refs/heads/'' @ b"

definition when_text :: "string option \<Rightarrow> (string \<Rightarrow> (string \<times> json) list) \<Rightarrow> (string \<times> json) list" where
  "when_text s f = (case s of None \<Rightarrow> [] | Some t \<Rightarrow> if t = [] then [] else f t)"

definition commitDetails :: "commit_details_input \<Rightarrow> (string \<times> json) list" where
  "commitDetails inp =
     [(''sha'', JStr (cd_sha inp)), (''message'', json_of_str (cd_message inp))]
     @ when_text (cd_body inp) (\<lambda>b. [(''body'', JStr b)])
     @ when_text (case cd_branches inp of [] \<Rightarrow> None | b # _ \<Rightarrow> Some b)
         (\<lambda>b. [(''branch'', JStr b), (''ref'', JStr (heads_ref b))])
     @ (if 1 < length (cd_branches inp) then
          [(''branches'', JArr (map JStr (cd_branches inp))), (''refs'', JArr (map (JStr \<circ> heads_ref) (cd_branches inp)))]
        else [])
     @ when_text (cd_default_branch inp) (\<lambda>b. [(''default_branch'', JStr b)])
     @ (if 1 < cd_parent_count inp then [(''merge'', JBool True)] else [])
     @ (case commitLineStats (cd_stats inp) (cd_parent_count inp) of
          None \<Rightarrow> [] | Some (a, d) \<Rightarrow> [(''additions'', JNum a), (''deletions'', JNum d)])
     @ (case cd_change_request inp of
          None \<Rightarrow> []
        | Some None \<Rightarrow> [(''change_request'', JNull)]
        | Some (Some cr) \<Rightarrow> [(''change_request'', JObj [(''ref'', JStr (cq_ref cr)), (''iid'', JNum (cq_iid cr))])])"

section \<open>Actors\<close>

record actor_signals =
  as_source_id :: string
  as_username :: "string option"
  as_email :: "string option"
  as_name :: "string option"

definition clean :: "string option \<Rightarrow> string option" where
  "clean value = (let t = js_trim (or_else value []) in if t = [] then None else Some t)"

text \<open>\<open>replace(/\s+/g, " ")\<close>\<close>

fun collapse_spaces :: "bool \<Rightarrow> string \<Rightarrow> string" where
  "collapse_spaces in_run [] = []"
| "collapse_spaces in_run (c # cs) =
     (if is_space c then (if in_run then collapse_spaces True cs else CHR '' '' # collapse_spaces True cs)
      else c # collapse_spaces False cs)"

definition normalizeName :: "string \<Rightarrow> string" where
  "normalizeName name = to_lower (js_trim (collapse_spaces False name))"

definition hashEmail :: "(string \<Rightarrow> string) \<Rightarrow> string \<Rightarrow> string" where
  "hashEmail sha256 email = take 16 (sha256 email)"

definition deriveActorKey :: "(string \<Rightarrow> string) \<Rightarrow> actor_signals \<Rightarrow> string option" where
  "deriveActorKey sha256 signals =
     (case clean (as_username signals) of
        Some u \<Rightarrow> Some (''provider-user:'' @ as_source_id signals @ '':'' @ to_lower u)
      | None \<Rightarrow>
          (case clean (as_email signals) of
             Some e \<Rightarrow> Some (''email:'' @ hashEmail sha256 (to_lower e))
           | None \<Rightarrow> map_option (\<lambda>n. ''name:'' @ normalizeName n) (clean (as_name signals))))"

definition emailActorKey :: "(string \<Rightarrow> string) \<Rightarrow> string option \<Rightarrow> string option" where
  "emailActorKey sha256 email = map_option (\<lambda>e. ''email:'' @ hashEmail sha256 (to_lower e)) (clean email)"

definition normalizeActorName :: "string \<Rightarrow> string" where
  "normalizeActorName name = normalizeName name"

section \<open>Transitions of an item\<close>

definition item_kind_text :: "item_kind \<Rightarrow> string" where
  "item_kind_text k = (case k of Issue \<Rightarrow> ''issue'' | Change_Request \<Rightarrow> ''change_request'' | Other_Kind s \<Rightarrow> s)"

definition iid_suffix :: "item \<Rightarrow> string" where
  "iid_suffix it = (case it_iid it of None \<Rightarrow> [] | Some n \<Rightarrow> '' #'' @ int_str n)"

definition transition ::
  "(string \<Rightarrow> string) \<Rightarrow> item \<Rightarrow> string \<Rightarrow> string \<Rightarrow> string \<Rightarrow> activity"
where
  "transition sha256 it action occurredAt verb =
     \<lparr>ac_source = it_source it,
      ac_external = stableActivityId [Some (Text_Part ''item''), Some (Text_Part (it_external it)), Some (Text_Part action), Some (Text_Part occurredAt)],
      ac_kind = item_kind_text (it_kind it), ac_action = action, ac_project_path = it_project_path it,
      ac_target_kind = Some (item_kind_text (it_kind it)),
      ac_target = Some \<lparr>ep_source = it_source it, ep_external = it_external it\<rparr>,
      ac_target_iid = it_iid it, ac_title = it_title it, ac_url = Some (it_url it), ac_actor = it_author it,
      ac_actor_key = deriveActorKey sha256 \<lparr>as_source_id = it_source it, as_username = it_author it, as_email = None, as_name = None\<rparr>,
      ac_occurred_at = occurredAt, ac_summary = Some (verb @ iid_suffix it), ac_details = None\<rparr>"

definition set_text :: "string option \<Rightarrow> string option" where
  "set_text s = (if s = Some [] then None else s)"

definition subject :: "item \<Rightarrow> string" where
  "subject it = (if it_kind it = Change_Request then ''change request'' else ''issue'')"

definition itemActivities :: "(string \<Rightarrow> string) \<Rightarrow> item \<Rightarrow> activity list" where
  "itemActivities sha256 it =
     (case set_text (it_created_at it) of
        None \<Rightarrow> [] | Some t \<Rightarrow> [transition sha256 it ''opened'' t (''Opened '' @ subject it)])
     @ (case (if it_kind it = Change_Request then set_text (it_merged_at it) else None) of
          Some t \<Rightarrow> [transition sha256 it ''merged'' t ''Merged change request'']
        | None \<Rightarrow>
            (case set_text (it_closed_at it) of
               None \<Rightarrow> [] | Some t \<Rightarrow> [transition sha256 it ''closed'' t (''Closed '' @ subject it)]))"

section \<open>Correctness of the identifiers\<close>

lemma code_hex_digit: "n < 16 \<Longrightarrow> code (hex_digit n) = (if n < 10 then 48 + n else 55 + n)"
proof -
  assume "n < 16"
  moreover have "k < 256 \<Longrightarrow> of_char (char_of k :: char) = k" for k :: nat
    by (simp only: of_char_of mod_less)
  ultimately show ?thesis by (simp add: hex_digit_def code_def del: of_char_of)
qed

lemma reserved_chars: "\<not> unreserved CHR ''%''" "\<not> unreserved CHR '':''"
  by code_simp+

lemma hex_digit_inj: "a < 16 \<Longrightarrow> b < 16 \<Longrightarrow> hex_digit a = hex_digit b \<Longrightarrow> a = b"
proof -
  assume less: "a < 16" "b < 16" and "hex_digit a = hex_digit b"
  then have "code (hex_digit a) = code (hex_digit b)" by simp
  then show "a = b" unfolding code_hex_digit [OF less(1)] code_hex_digit [OF less(2)] by (simp split: if_splits)
qed

lemma percent_byte_append:
  assumes "a < 256" "b < 256" "percent_byte a @ xs = percent_byte b @ ys"
  shows "a = b \<and> xs = ys"
proof -
  have "a div 16 < 16" "b div 16 < 16" using assms(1,2) by auto
  then have "a div 16 = b div 16" "a mod 16 = b mod 16" "xs = ys"
    using assms(3) hex_digit_inj [of "a div 16" "b div 16"] hex_digit_inj [of "a mod 16" "b mod 16"]
    by (auto simp: percent_byte_def)
  then show ?thesis by (metis div_mult_mod_eq)
qed

lemma percent_byte_append_iff:
  "a < 256 \<Longrightarrow> b < 256 \<Longrightarrow> percent_byte a @ xs = percent_byte b @ ys \<longleftrightarrow> a = b \<and> xs = ys"
  using percent_byte_append by blast

lemma percent_char_append:
  assumes "percent_char a @ xs = percent_char b @ ys"
  shows "a = b \<and> xs = ys"
proof -
  have plain: "unreserved c \<Longrightarrow> c \<noteq> CHR ''%''" for c using reserved_chars by auto
  have first: "\<not> unreserved c \<Longrightarrow> hd (percent_char c @ zs) = CHR ''%''" for c zs
    by (simp add: percent_char_def utf8_char_def percent_byte_def)
  show ?thesis
  proof (cases "unreserved a \<or> unreserved b")
    case True
    moreover have "hd (percent_char c @ zs) = c" if "unreserved c" for c zs using that by (simp add: percent_char_def)
    ultimately have "unreserved a \<and> unreserved b" using assms plain first by metis
    then show ?thesis using assms by (simp add: percent_char_def)
  next
    case False
    then have "concat (map percent_byte (utf8_char a)) @ xs = concat (map percent_byte (utf8_char b)) @ ys"
      using assms by (simp add: percent_char_def)
    moreover have "192 + code c div 64 < 256" "128 + code c mod 64 < 256" for c using code_less_256 [of c] by auto
    ultimately have "utf8_char a = utf8_char b \<and> xs = ys"
      using code_less_256 [of a] code_less_256 [of b]
      by (auto simp: utf8_char_def percent_byte_append_iff split: if_splits)
    then have "utf8_char a @ [] = utf8_char b @ [] \<and> xs = ys" by simp
    then show ?thesis using utf8_char_inj_append by blast
  qed
qed

lemma encodeURIComponent_inj: "encodeURIComponent s = encodeURIComponent t \<longleftrightarrow> s = t"
proof (induction s arbitrary: t)
  case Nil
  then show ?case by (cases t) (auto simp: encodeURIComponent_def percent_char_def utf8_char_def percent_byte_def)
next
  case (Cons c s)
  show ?case
  proof (cases t)
    case Nil
    then show ?thesis by (auto simp: encodeURIComponent_def percent_char_def utf8_char_def percent_byte_def)
  next
    case t: (Cons d u)
    then show ?thesis using Cons percent_char_append [of c "encodeURIComponent s" d "encodeURIComponent u"]
      by (auto simp: encodeURIComponent_def)
  qed
qed

lemma hex_digit_no_colon: "n < 16 \<Longrightarrow> hex_digit n \<noteq> CHR '':''"
  using code_hex_digit [of n] by (auto simp: code_def split: if_splits)

lemma percent_byte_no_colon: "b < 256 \<Longrightarrow> CHR '':'' \<notin> set (percent_byte b)"
proof -
  assume "b < 256"
  then have "b div 16 < 16" "b mod 16 < 16" by auto
  then have "hex_digit (b div 16) \<noteq> CHR '':''" "hex_digit (b mod 16) \<noteq> CHR '':''" by (simp_all only: hex_digit_no_colon not_False_eq_True)
  then show ?thesis by (auto simp: percent_byte_def)
qed

lemma encodeURIComponent_no_colon: "CHR '':'' \<notin> set (encodeURIComponent s)"
proof -
  have "CHR '':'' \<notin> set (percent_char c)" for c
  proof (cases "unreserved c")
    case True
    then have "c \<noteq> CHR '':''" using reserved_chars by auto
    then show ?thesis using True by (simp add: percent_char_def)
  next
    case False
    have "192 + code c div 64 < 256" "128 + code c mod 64 < 256" using code_less_256 [of c] by auto
    then show ?thesis
      using False percent_byte_no_colon [of "code c"] percent_byte_no_colon [of "192 + code c div 64"]
        percent_byte_no_colon [of "128 + code c mod 64"] code_less_256 [of c]
      by (simp add: percent_char_def utf8_char_def)
  qed
  then show ?thesis by (auto simp: encodeURIComponent_def)
qed

lemma part_texts_nonempty: "s \<in> set (part_texts ps) \<Longrightarrow> s \<noteq> []"
  by (simp add: part_texts_def)

lemma stableActivityId_inj: "stableActivityId ps = stableActivityId qs \<longleftrightarrow> part_texts ps = part_texts qs"
proof
  have parts: "split_on CHR '':'' (stableActivityId ps) = map encodeURIComponent (part_texts ps)" if "part_texts ps \<noteq> []" for ps
    unfolding stableActivityId_def by (rule split_on_join) (use that encodeURIComponent_no_colon in auto)
  have empty: "stableActivityId ps = [] \<longleftrightarrow> part_texts ps = []" for ps
  proof (cases "part_texts ps")
    case (Cons s ss)
    then have "encodeURIComponent s \<noteq> []"
      using part_texts_nonempty [of s ps] encodeURIComponent_inj [of s "[]"] by (auto simp: encodeURIComponent_def)
    then show ?thesis using Cons by (cases ss) (auto simp: stableActivityId_def)
  qed (simp add: stableActivityId_def)
  assume eq: "stableActivityId ps = stableActivityId qs"
  show "part_texts ps = part_texts qs"
  proof (cases "part_texts ps = []")
    case True
    then show ?thesis using eq empty by metis
  next
    case False
    then have "map encodeURIComponent (part_texts ps) = map encodeURIComponent (part_texts qs)"
      using eq parts empty by metis
    moreover have "inj encodeURIComponent" by (simp add: inj_def encodeURIComponent_inj)
    ultimately show ?thesis by (simp add: inj_map_eq_map)
  qed
qed (simp add: stableActivityId_def)

lemma transition_parts:
  "part_texts [Some (Text_Part ''item''), Some (Text_Part e), Some (Text_Part a), Some (Text_Part t)]
     = ''item'' # filter (\<lambda>s. s \<noteq> []) [e, a, t]"
  by (simp add: part_texts_def List.map_filter_def)

lemma transition_fields [simp]:
  "ac_source (transition h it action t verb) = it_source it"
  "ac_action (transition h it action t verb) = action"
  "ac_occurred_at (transition h it action t verb) = t"
  "ac_actor_key (transition h it action t verb)
     = deriveActorKey h \<lparr>as_source_id = it_source it, as_username = it_author it, as_email = None, as_name = None\<rparr>"
  by (simp_all add: transition_def)

lemma set_text_Some: "set_text s = Some t \<longleftrightarrow> s = Some t \<and> t \<noteq> []"
  by (auto simp: set_text_def)

lemma itemActivities_elim:
  assumes "a \<in> set (itemActivities h it)"
  shows "\<exists>action t verb. a = transition h it action t verb \<and> action \<noteq> [] \<and> t \<noteq> []"
  using assms unfolding itemActivities_def set_append Un_iff
proof (elim disjE)
  assume "a \<in> set (case set_text (it_created_at it) of None \<Rightarrow> []
      | Some t \<Rightarrow> [transition h it ''opened'' t (''Opened '' @ subject it)])"
  then show ?thesis
    by (cases "set_text (it_created_at it)") (auto simp: set_text_Some intro: exI [where x = "''opened''"])
next
  assume "a \<in> set (case if it_kind it = Change_Request then set_text (it_merged_at it) else None of
      None \<Rightarrow> (case set_text (it_closed_at it) of None \<Rightarrow> [] | Some t \<Rightarrow> [transition h it ''closed'' t (''Closed '' @ subject it)])
    | Some t \<Rightarrow> [transition h it ''merged'' t ''Merged change request''])"
  then show ?thesis
    by (cases "if it_kind it = Change_Request then set_text (it_merged_at it) else None"; cases "set_text (it_closed_at it)")
       (fastforce simp: set_text_Some split: if_splits)+
qed

text \<open>Claim C39. The key under which the store keeps a transition identifies it: two transitions of items
  of one source have the same external id exactly when they are the same action, at the same instant, of
  the same item (the separator cannot occur in a part and an empty part cannot be confused with the
  next).  So a sync that sees an item again writes the rows it already has, and no row is written over by
  that of another item or another transition.\<close>

theorem activity_ids_identify:
  assumes "a \<in> set (itemActivities h it)" "b \<in> set (itemActivities h it2)"
  shows "ac_external a = ac_external b
    \<longleftrightarrow> it_external it = it_external it2 \<and> ac_action a = ac_action b \<and> ac_occurred_at a = ac_occurred_at b"
proof -
  from assms obtain x t v y u w where ab: "a = transition h it x t v" "b = transition h it2 y u w"
    and ne: "x \<noteq> []" "t \<noteq> []" "y \<noteq> []" "u \<noteq> []"
    by (metis itemActivities_elim)
  then have "ac_external a = ac_external b
      \<longleftrightarrow> filter (\<lambda>s. s \<noteq> []) [it_external it, x, t] = filter (\<lambda>s. s \<noteq> []) [it_external it2, y, u]"
    by (simp add: transition_def stableActivityId_inj transition_parts)
  also have "\<dots> \<longleftrightarrow> it_external it = it_external it2 \<and> x = y \<and> t = u"
    using ne by (cases "it_external it = []"; cases "it_external it2 = []") auto
  finally show ?thesis by (simp add: ab)
qed

definition sample_merged :: item where
  "sample_merged =
     \<lparr>it_source = ''gh'', it_external = ''PR_1'', it_kind = Change_Request, it_project_path = Some ''a/b'', it_iid = Some 7,
      it_url = ''u'', it_title = None, it_body = None, it_state = Open, it_state_raw = None,
      it_state_reason = None, it_is_draft = None, it_author = Some ''Ada'', it_created_at = Some ''2026-01-01T00:00:00Z'',
      it_updated_at = None, it_closed_at = Some ''2026-01-02T00:00:00Z'', it_merged_at = Some ''2026-01-02T00:00:00Z'',
      it_review_state = None, it_ci_state = None, it_merge_state = None, it_open_review_threads = None,
      it_total_review_threads = None, it_comment_total = None, it_milestone = None, it_demand = None\<rparr>"

theorem activity_ids_identify_witness:
  "ac_external (itemActivities id sample_merged ! 0) \<noteq> ac_external (itemActivities id sample_merged ! 1)
   \<and> ac_external (itemActivities id sample_merged ! 1) = ''item:PR_1:merged:2026-01-02T00%3A00%3A00Z''"
proof -
  have "itemActivities id sample_merged ! 0 \<in> set (itemActivities id sample_merged)"
    "itemActivities id sample_merged ! 1 \<in> set (itemActivities id sample_merged)" by code_simp+
  from activity_ids_identify [OF this]
  have "ac_external (itemActivities id sample_merged ! 0) \<noteq> ac_external (itemActivities id sample_merged ! 1)"
    by code_simp
  moreover have "ac_external (itemActivities id sample_merged ! 1) = ''item:PR_1:merged:2026-01-02T00%3A00%3A00Z''"
    by code_simp
  ultimately show ?thesis by blast
qed

text \<open>What the transitions of an item are: it was opened, and a merge hides the close that goes with it.\<close>

lemma itemActivities_actions:
  "map ac_action (itemActivities h it)
     = (if set_text (it_created_at it) = None then [] else [''opened''])
       @ (if it_kind it = Change_Request \<and> set_text (it_merged_at it) \<noteq> None then [''merged'']
          else if set_text (it_closed_at it) \<noteq> None then [''closed''] else [])"
  by (auto simp: itemActivities_def split: option.splits)

section \<open>Correctness of the payloads\<close>

lemma commitLineStats_merge: "1 < n \<Longrightarrow> commitLineStats raw n = None"
  by (simp add: commitLineStats_def)

lemma commitLineStats_counts:
  "commitLineStats raw n = Some (a, d) \<Longrightarrow> n \<le> 1 \<and> 0 \<le> a \<and> 0 \<le> d
     \<and> member_of raw ''additions'' = Some (JNum a) \<and> member_of raw ''deletions'' = Some (JNum d)"
  by (auto simp: commitLineStats_def lineCount_def split: if_splits option.splits json.splits)

lemma when_text_mem: "m \<in> set (when_text s f) \<longleftrightarrow> (\<exists>t. s = Some t \<and> t \<noteq> [] \<and> m \<in> set (f t))"
  by (auto simp: when_text_def split: option.splits)

text \<open>A merge says so and carries no counts; the change request of a commit has three states.\<close>

lemma commitDetails_merge: "(''merge'', v) \<in> set (commitDetails inp) \<longleftrightarrow> 1 < cd_parent_count inp \<and> v = JBool True"
  unfolding commitDetails_def set_append Un_iff when_text_mem by (auto split: option.splits)

lemma commitDetails_counts:
  "(''additions'', v) \<in> set (commitDetails inp)
     \<longleftrightarrow> (\<exists>a d. commitLineStats (cd_stats inp) (cd_parent_count inp) = Some (a, d) \<and> v = JNum a)"
  unfolding commitDetails_def set_append Un_iff when_text_mem
  by (cases "commitLineStats (cd_stats inp) (cd_parent_count inp)") (auto split: option.splits)

lemma commitDetails_change_request:
  "(''change_request'', v) \<in> set (commitDetails inp) \<longleftrightarrow>
     (\<exists>cr. cd_change_request inp = Some cr
        \<and> v = (case cr of None \<Rightarrow> JNull | Some c \<Rightarrow> JObj [(''ref'', JStr (cq_ref c)), (''iid'', JNum (cq_iid c))]))"
  unfolding commitDetails_def set_append Un_iff when_text_mem
  by (cases "cd_change_request inp") (auto split: option.splits)

section \<open>Correctness of the actor keys\<close>

text \<open>An address declared in the configuration matches the key that a record with that address, and no
  account, was stored under.\<close>

lemma emailActorKey_matches:
  assumes "clean (as_username s) = None" "clean (as_email s) \<noteq> None"
  shows "deriveActorKey h s = emailActorKey h (as_email s)"
  using assms by (auto simp: deriveActorKey_def emailActorKey_def)

text \<open>An account is preferred to an address and an address to a name; a record of nobody has no key.\<close>

lemma deriveActorKey_None:
  "deriveActorKey h s = None \<longleftrightarrow> clean (as_username s) = None \<and> clean (as_email s) = None \<and> clean (as_name s) = None"
  by (auto simp: deriveActorKey_def split: option.splits)

text \<open>The address itself is not part of a key: the key depends on its hash only.\<close>

lemma deriveActorKey_hides_address:
  assumes "clean (as_email s) = Some e" "clean (as_email t) = Some e2" "h (to_lower e) = h (to_lower e2)"
    "as_username s = as_username t" "as_source_id s = as_source_id t"
  shows "deriveActorKey h s = deriveActorKey h t"
  using assms by (simp add: deriveActorKey_def hashEmail_def split: option.splits)

end
