(* ===== verification/Provider_Links.thy ===== *)
theory Provider_Links
  imports Activity
begin

text \<open>
  Links to the pages of a provider (\<open>src/shared/provider-links.ts\<close>): built from the configured host and the
  identities of a row, or checked against that host where the provider reports them.  Of the runtime,
  \<open>new URL\<close> is the parameter \<open>parse\<close> (\<open>None\<close> where it throws) and \<open>decodeURIComponent\<close> is \<open>decode\<close>; what
  \<open>JSON.stringify\<close> and \<open>URLSearchParams\<close> write for the query of a label link is spelled out.
\<close>

section \<open>Checked parts\<close>

record link_source =
  ls_kind :: string
  ls_host :: string

record parsed_url =
  pu_protocol :: string
  pu_host :: string
  pu_path :: string
  pu_credentials :: bool

definition trimmed :: "string option \<Rightarrow> string option" where
  "trimmed s = (case s of None \<Rightarrow> None | Some t \<Rightarrow> if js_trim t = [] then None else Some (js_trim t))"

definition host_char :: "char \<Rightarrow> bool" where
  "host_char c \<longleftrightarrow> is_alnum c \<or> c = CHR ''.'' \<or> c = CHR ''-''"

definition safeHost :: "string option \<Rightarrow> string option" where
  "safeHost host =
     (case trimmed host of
        None \<Rightarrow> None
      | Some v \<Rightarrow>
          (let port = dropWhile host_char v in
           if CHR ''/'' \<notin> set v \<and> takeWhile host_char v \<noteq> []
              \<and> (port = [] \<or> (hd port = CHR '':'' \<and> tl port \<noteq> [] \<and> list_all is_digit (tl port)))
           then Some v else None))"

datatype provider_kind = Github | Gitlab

definition providerKind :: "link_source \<Rightarrow> provider_kind option" where
  "providerKind src = (if ls_kind src = ''github'' then Some Github else if ls_kind src = ''gitlab'' then Some Gitlab else None)"

definition projectPathSegments :: "provider_kind \<Rightarrow> string option \<Rightarrow> string list option" where
  "projectPathSegments kind projectPath =
     (case trimmed projectPath of
        None \<Rightarrow> None
      | Some p \<Rightarrow>
          (let segments = split_on CHR ''/'' p in
           if (\<exists>s \<in> set segments. js_trim s = [] \<or> s = ''.'' \<or> s = ''..'') then None
           else if kind = Github \<and> length segments \<noteq> 2 then None
           else if kind = Gitlab \<and> length segments < 2 then None
           else Some segments))"

definition repoBase :: "link_source \<Rightarrow> string option \<Rightarrow> string option" where
  "repoBase src projectPath =
     (case (providerKind src, safeHost (Some (ls_host src))) of
        (Some kind, Some host) \<Rightarrow>
          map_option (\<lambda>segments. ''https://'' @ host @ ''/'' @ join ''/'' (map encodeURIComponent segments)) (projectPathSegments kind projectPath)
      | _ \<Rightarrow> None)"

definition safeIid :: "int option \<Rightarrow> int option" where
  "safeIid iid = (case iid of Some n \<Rightarrow> if 0 < n then Some n else None | None \<Rightarrow> None)"

definition hex_any :: "char \<Rightarrow> bool" where
  "hex_any c \<longleftrightarrow> is_digit c \<or> c \<in> set ''abcdefABCDEF''"

definition safeSha :: "string option \<Rightarrow> string option" where
  "safeSha v =
     (let sha = js_trim (or_else v []) in
      if 6 \<le> length sha \<and> length sha \<le> 64 \<and> list_all hex_any sha \<and> \<not> list_all (\<lambda>c. c = CHR ''0'') sha then Some sha else None)"

definition strip_prefix :: "string \<Rightarrow> string \<Rightarrow> string" where
  "strip_prefix p s = (if starts_with p s then drop (length p) s else s)"

definition shortRef :: "string option \<Rightarrow> string option" where
  "shortRef ref =
     (let v = js_trim (or_else ref []); short = strip_prefix ''refs/tags/'' (strip_prefix ''refs/heads/'' v) in
      if v = [] \<or> (\<exists>c \<in> set v. code c < 32 \<or> code c = 127) \<or> short = [] then None else Some short)"

definition username_char :: "char \<Rightarrow> bool" where
  "username_char c \<longleftrightarrow> is_alnum c \<or> c = CHR ''.'' \<or> c = CHR ''_'' \<or> c = CHR ''-''"

definition safeUsername :: "string option \<Rightarrow> string option" where
  "safeUsername v = (case trimmed v of Some n \<Rightarrow> if list_all username_char n then Some n else None | None \<Rightarrow> None)"

definition safePathSegments :: "(string \<Rightarrow> string option) \<Rightarrow> string \<Rightarrow> string list option" where
  "safePathSegments decode pathname =
     (let parts = map decode (filter (\<lambda>s. s \<noteq> []) (split_on CHR ''/'' pathname)) in
      if None \<in> set parts then None else Some (map the parts))"

section \<open>Links\<close>

definition providerRepoUrl :: "link_source \<Rightarrow> string option \<Rightarrow> string option" where
  "providerRepoUrl src projectPath = repoBase src projectPath"

definition host_link :: "string \<Rightarrow> string \<Rightarrow> string" where
  "host_link host path = ''https://'' @ host @ ''/'' @ path"

definition providerProfileUrl :: "link_source \<Rightarrow> string option \<Rightarrow> string option" where
  "providerProfileUrl src username =
     (case (providerKind src, safeHost (Some (ls_host src)), safeUsername username) of
        (Some _, Some host, Some name) \<Rightarrow> Some (host_link host (encodeURIComponent name))
      | _ \<Rightarrow> None)"

definition providerObservedProfileUrl ::
  "(string \<Rightarrow> parsed_url option) \<Rightarrow> (string \<Rightarrow> string option) \<Rightarrow> link_source \<Rightarrow> string option \<Rightarrow> string option"
where
  "providerObservedProfileUrl parse decode src v =
     (let t = js_trim (or_else v []) in
      case (providerKind src, safeHost (Some (ls_host src))) of
        (Some kind, Some host) \<Rightarrow>
          if t = [] then None
          else
            (case parse t of
               None \<Rightarrow> None
             | Some url \<Rightarrow>
                 if pu_protocol url \<noteq> ''https:'' \<or> to_lower (pu_host url) \<noteq> to_lower host then None
                 else
                   (case safePathSegments decode (pu_path url) of
                      None \<Rightarrow> None
                    | Some [a, b] \<Rightarrow>
                        if kind = Github \<and> a = ''apps''
                        then map_option (\<lambda>app. host_link host (''apps/'' @ encodeURIComponent app)) (safeUsername (Some b))
                        else None
                    | Some [a] \<Rightarrow> map_option (\<lambda>name. host_link host (encodeURIComponent name)) (safeUsername (Some a))
                    | _ \<Rightarrow> None))
      | _ \<Rightarrow> None)"

text \<open>A page below a repository: the route of GitHub, or that of GitLab.\<close>

definition below_repo :: "link_source \<Rightarrow> string option \<Rightarrow> string \<Rightarrow> string \<Rightarrow> string option \<Rightarrow> string option" where
  "below_repo src projectPath github_route gitlab_route leaf =
     (case (repoBase src projectPath, leaf) of
        (Some base, Some l) \<Rightarrow> Some (base @ ''/'' @ (if ls_kind src = ''github'' then github_route else gitlab_route) @ ''/'' @ l)
      | _ \<Rightarrow> None)"

definition providerIssueUrl :: "link_source \<Rightarrow> string option \<Rightarrow> int option \<Rightarrow> string option" where
  "providerIssueUrl src projectPath iid = below_repo src projectPath ''issues'' ''-/issues'' (map_option int_str (safeIid iid))"

definition providerChangeRequestUrl :: "link_source \<Rightarrow> string option \<Rightarrow> int option \<Rightarrow> string option" where
  "providerChangeRequestUrl src projectPath iid =
     below_repo src projectPath ''pull'' ''-/merge_requests'' (map_option int_str (safeIid iid))"

definition providerCommitUrl :: "link_source \<Rightarrow> string option \<Rightarrow> string option \<Rightarrow> string option" where
  "providerCommitUrl src projectPath sha = below_repo src projectPath ''commit'' ''-/commit'' (safeSha sha)"

definition providerCompareUrl :: "link_source \<Rightarrow> string option \<Rightarrow> string option \<Rightarrow> string option \<Rightarrow> string option" where
  "providerCompareUrl src projectPath before after =
     below_repo src projectPath ''compare'' ''-/compare''
       (case (safeSha before, safeSha after) of
          (Some b, Some a) \<Rightarrow> if b = a then None else Some (b @ ''...'' @ a)
        | _ \<Rightarrow> None)"

definition providerRefUrl :: "link_source \<Rightarrow> string option \<Rightarrow> string option \<Rightarrow> string option" where
  "providerRefUrl src projectPath ref =
     below_repo src projectPath ''tree'' ''-/tree'' (map_option encodeURIComponent (shortRef ref))"

definition providerPushUrl ::
  "link_source \<Rightarrow> string option \<Rightarrow> string \<Rightarrow> string option \<Rightarrow> string option \<Rightarrow> string option \<Rightarrow> string option"
where
  "providerPushUrl src projectPath action ref before after =
     (if action = ''deleted'' then providerCommitUrl src projectPath before
      else if action = ''created'' then nullish (providerRefUrl src projectPath ref) (providerCommitUrl src projectPath after)
      else nullish (providerCompareUrl src projectPath before after)
             (nullish (providerCommitUrl src projectPath after) (providerRefUrl src projectPath ref)))"

datatype entity_kind =
    E_Source | E_Repo | E_Profile | E_Issue | E_Change_Request | E_Commit | E_Branch | E_Tag | E_Workflow_Run
  | E_Review | E_Comment | E_File | E_Directory | E_Label

record provider_entity =
  pe_kind :: entity_kind
  pe_url :: "string option"
  pe_project_path :: "string option"
  pe_username :: "string option"
  pe_iid :: "int option"
  pe_sha :: "string option"
  pe_ref :: "string option"
  pe_path :: "string option"
  pe_label :: "string option"

definition externalWebUrl :: "(string \<Rightarrow> parsed_url option) \<Rightarrow> string option \<Rightarrow> string option" where
  "externalWebUrl parse v =
     (case v of
        None \<Rightarrow> None
      | Some t \<Rightarrow>
          if t = [] then None
          else
            (case parse t of
               None \<Rightarrow> None
             | Some url \<Rightarrow>
                 if (pu_protocol url = ''https:'' \<or> pu_protocol url = ''http:'') \<and> \<not> pu_credentials url then Some t else None))"

definition file_leaf :: "string option \<Rightarrow> string option \<Rightarrow> string option" where
  "file_leaf ref path =
     (case (shortRef ref, path) of
        (Some r, Some p) \<Rightarrow>
          (let parts = split_on CHR ''/'' p in
           if (\<exists>s \<in> set parts. s = [] \<or> s = ''.'' \<or> s = ''..'') then None
           else Some (encodeURIComponent r @ ''/'' @ join ''/'' (map encodeURIComponent parts)))
      | _ \<Rightarrow> None)"

text \<open>\<open>JSON.stringify\<close> of a string, and the form encoding of a value by \<open>URLSearchParams\<close>.\<close>

definition quote_char :: "char \<Rightarrow> string" where
  "quote_char c =
     (let esc = (\<lambda>s. CHR 0x5C # s) in
      if c = CHR 0x22 \<or> c = CHR 0x5C then esc [c]
      else if code c = 8 then esc ''b'' else if code c = 9 then esc ''t'' else if code c = 10 then esc ''n''
      else if code c = 12 then esc ''f'' else if code c = 13 then esc ''r''
      else if code c < 32 then
        esc (''u00'' @ [if code c < 16 then CHR ''0'' else CHR ''1'',
                        if code c mod 16 < 10 then char_of (48 + code c mod 16) else char_of (87 + code c mod 16)])
      else [c])"

definition json_quote :: "string \<Rightarrow> string" where
  "json_quote s = CHR 0x22 # concat (map quote_char s) @ [CHR 0x22]"

definition form_char :: "char \<Rightarrow> string" where
  "form_char c =
     (if is_alnum c \<or> c \<in> set ''*-._'' then [c] else if c = CHR '' '' then ''+'' else concat (map percent_byte (utf8_char c)))"

definition form_encode :: "string \<Rightarrow> string" where
  "form_encode s = concat (map form_char s)"

definition label_query :: "provider_kind \<Rightarrow> string \<Rightarrow> string" where
  "label_query kind label =
     (case kind of
        Github \<Rightarrow> ''q='' @ form_encode (''label:'' @ json_quote label)
      | Gitlab \<Rightarrow> form_encode ''label_name[]'' @ ''='' @ form_encode label)"

definition entity_link :: "link_source \<Rightarrow> provider_entity \<Rightarrow> string option" where
  "entity_link src e =
     (let p = pe_project_path e in
      case pe_kind e of
        E_Source \<Rightarrow>
          (case (providerKind src, safeHost (Some (ls_host src))) of (Some _, Some host) \<Rightarrow> Some (host_link host []) | _ \<Rightarrow> None)
      | E_Repo \<Rightarrow> providerRepoUrl src p
      | E_Profile \<Rightarrow> providerProfileUrl src (pe_username e)
      | E_Issue \<Rightarrow> providerIssueUrl src p (pe_iid e)
      | E_Change_Request \<Rightarrow> providerChangeRequestUrl src p (pe_iid e)
      | E_Commit \<Rightarrow> providerCommitUrl src p (pe_sha e)
      | E_Branch \<Rightarrow> providerRefUrl src p (pe_ref e)
      | E_Tag \<Rightarrow> providerRefUrl src p (pe_ref e)
      | E_Workflow_Run \<Rightarrow> below_repo src p ''actions/runs'' ''-/pipelines'' (map_option int_str (safeIid (pe_iid e)))
      | E_File \<Rightarrow> below_repo src p ''blob'' ''-/blob'' (file_leaf (pe_ref e) (pe_path e))
      | E_Directory \<Rightarrow>
          if pe_path e = Some ''.'' then providerRefUrl src p (pe_ref e)
          else below_repo src p ''tree'' ''-/tree'' (file_leaf (pe_ref e) (pe_path e))
      | E_Label \<Rightarrow>
          (case (repoBase src p, trimmed (pe_label e)) of
             (Some base, Some _) \<Rightarrow>
               (let kind = (if ls_kind src = ''github'' then Github else Gitlab) in
                Some (base @ ''/'' @ (if kind = Github then ''issues'' else ''-/issues'') @ ''?'' @ label_query kind (the (pe_label e))))
           | _ \<Rightarrow> None)
      | E_Review \<Rightarrow> None
      | E_Comment \<Rightarrow> None)"

definition providerEntityUrl ::
  "(string \<Rightarrow> parsed_url option) \<Rightarrow> link_source option \<Rightarrow> provider_entity \<Rightarrow> string option"
where
  "providerEntityUrl parse src e =
     (if pe_url e \<noteq> None \<and> pe_url e \<noteq> Some [] then externalWebUrl parse (pe_url e)
      else (case src of None \<Rightarrow> None | Some s \<Rightarrow> entity_link s e))"

section \<open>The characters of a link\<close>

text \<open>What may stand in the path of a link: nothing that ends a path, starts credentials or leaves the host.\<close>

definition path_char :: "char \<Rightarrow> bool" where
  "path_char c \<longleftrightarrow> unreserved c \<or> c = CHR ''%'' \<or> c = CHR ''/''"

lemma alnum_path_char [intro]: "is_alnum c \<Longrightarrow> path_char c"
  by (simp add: path_char_def unreserved_def)

lemma hex_digit_alnum: "n < 16 \<Longrightarrow> is_alnum (hex_digit n)"
  by (auto simp: is_alnum_def is_digit_def is_upper_def code_hex_digit)

lemma percent_byte_path: "b < 256 \<Longrightarrow> list_all path_char (percent_byte b)"
proof -
  assume "b < 256"
  then have "b div 16 < 16" "b mod 16 < 16" by auto
  then have "path_char (hex_digit (b div 16))" "path_char (hex_digit (b mod 16))"
    by (auto simp del: mod_less_divisor intro!: alnum_path_char hex_digit_alnum)
  then show ?thesis by (simp add: percent_byte_def path_char_def)
qed

lemma utf8_char_bytes: "b \<in> set (utf8_char c) \<Longrightarrow> b < 256"
  using code_less_256 [of c] by (auto simp: utf8_char_def split: if_splits)

lemma utf8_percent_path: "list_all path_char (concat (map percent_byte (utf8_char c)))"
  using utf8_char_bytes [of _ c] percent_byte_path by (fastforce simp: list_all_iff)

lemma encode_path: "list_all path_char (encodeURIComponent s)"
proof -
  have "list_all path_char (percent_char c)" for c
    using utf8_char_bytes [of _ c] percent_byte_path by (fastforce simp: percent_char_def list_all_iff path_char_def)
  then show ?thesis by (auto simp: encodeURIComponent_def list_all_iff)
qed

lemma encode_no_slash: "CHR ''/'' \<notin> set (encodeURIComponent s)"
proof -
  have "\<not> unreserved CHR ''/''" by code_simp
  moreover have "\<not> is_alnum CHR ''/''" by code_simp
  moreover have "CHR ''/'' \<notin> set (percent_byte b)" if "b < 256" for b
  proof -
    have "b div 16 < 16" "b mod 16 < 16" using that by auto
    then have "is_alnum (hex_digit (b div 16))" "is_alnum (hex_digit (b mod 16))" by (blast intro: hex_digit_alnum)+
    then show ?thesis using \<open>\<not> is_alnum CHR ''/''\<close> by (auto simp: percent_byte_def)
  qed
  ultimately have "CHR ''/'' \<notin> set (percent_char c)" for c
    using utf8_char_bytes [of _ c] by (auto simp: percent_char_def)
  then show ?thesis by (auto simp: encodeURIComponent_def)
qed

lemma join_path: "\<forall>w\<in>set ws. list_all path_char w \<Longrightarrow> list_all path_char (join ''/'' ws)"
  by (induction "''/''" ws rule: join.induct) (auto simp: path_char_def)

lemma encoded_segments_path: "list_all path_char (join ''/'' (map encodeURIComponent ws))"
  by (rule join_path) (simp add: encode_path)

lemma int_str_path: "0 < n \<Longrightarrow> list_all path_char (int_str n)"
  by (auto simp: int_str_def list_all_iff is_alnum_def dest!: nat_str_digits)

lemma safeIid_path: "map_option int_str (safeIid iid) = Some l \<Longrightarrow> list_all path_char l"
  by (auto simp: safeIid_def int_str_path split: option.splits if_splits)

lemma hex_any_alnum: "hex_any c \<Longrightarrow> is_alnum c"
proof -
  have "list_all is_alnum ''abcdefABCDEF''" by code_simp
  then have "is_alnum c" if "c \<in> set ''abcdefABCDEF''" using that unfolding list_all_iff by blast
  then show "hex_any c \<Longrightarrow> is_alnum c" unfolding hex_any_def by (metis is_alnum_def)
qed

lemma safeSha_path: "safeSha v = Some sha \<Longrightarrow> list_all path_char sha"
  by (auto simp: safeSha_def Let_def list_all_iff split: if_splits dest: hex_any_alnum)

text \<open>The configured host is an authority of a URL and nothing more: no slash, no user name, no blank.\<close>

lemma safeHost_chars: "safeHost h = Some host \<Longrightarrow> list_all (\<lambda>c. host_char c \<or> c = CHR '':'') host"
proof -
  assume safe: "safeHost h = Some host"
  let ?port = "dropWhile host_char host"
  have "?port = [] \<or> (hd ?port = CHR '':'' \<and> tl ?port \<noteq> [] \<and> list_all is_digit (tl ?port))"
    using safe by (auto simp: safeHost_def Let_def split: option.splits if_splits)
  then have "list_all (\<lambda>c. host_char c \<or> c = CHR '':'') ?port"
  proof (elim disjE conjE)
    assume "hd ?port = CHR '':''" "tl ?port \<noteq> []" "list_all is_digit (tl ?port)"
    then obtain ds where "?port = CHR '':'' # ds" "list_all is_digit ds" by (cases ?port) auto
    moreover have "is_digit c \<Longrightarrow> host_char c" for c by (simp add: host_char_def is_alnum_def)
    ultimately show ?thesis by (auto simp: list_all_iff)
  qed (auto simp: list_all_iff dest: set_dropWhileD)
  moreover have "list_all (\<lambda>c. host_char c \<or> c = CHR '':'') (takeWhile host_char host)"
    by (auto simp: list_all_iff dest: set_takeWhileD)
  ultimately have "list_all (\<lambda>c. host_char c \<or> c = CHR '':'') (takeWhile host_char host @ ?port)" by (simp only: list_all_append)
  then show ?thesis by (simp only: takeWhile_dropWhile_id)
qed

section \<open>Where a link leads\<close>

text \<open>The link is a page of the configured host, its path of safe characters.\<close>

definition leads_to :: "link_source \<Rightarrow> string \<Rightarrow> bool" where
  "leads_to src u \<longleftrightarrow>
     providerKind src \<noteq> None
     \<and> (\<exists>host path. safeHost (Some (ls_host src)) = Some host \<and> u = host_link host path \<and> list_all path_char path)"

lemma leads_to_append: "leads_to src u \<Longrightarrow> list_all path_char rest \<Longrightarrow> leads_to src (u @ rest)"
  by (fastforce simp: leads_to_def host_link_def)

lemma repoBase_leads: "repoBase src p = Some u \<Longrightarrow> leads_to src u"
  using encoded_segments_path by (fastforce simp: repoBase_def leads_to_def host_link_def split: option.splits)

lemma below_repo_leads:
  assumes "below_repo src p g l leaf = Some u" "list_all path_char g" "list_all path_char l" "\<And>x. leaf = Some x \<Longrightarrow> list_all path_char x"
  shows "leads_to src u"
proof -
  obtain base x where "repoBase src p = Some base" "leaf = Some x"
      "u = base @ ''/'' @ (if ls_kind src = ''github'' then g else l) @ ''/'' @ x"
    using assms(1) by (auto simp: below_repo_def split: option.splits)
  moreover have "list_all path_char ''/''" by code_simp
  ultimately show ?thesis using assms(2-4) repoBase_leads leads_to_append by (simp del: append_Cons append_Nil)
qed

lemma routes_path:
  "list_all path_char ''issues''" "list_all path_char ''-/issues''" "list_all path_char ''pull''"
  "list_all path_char ''-/merge_requests''" "list_all path_char ''commit''" "list_all path_char ''-/commit''"
  "list_all path_char ''compare''" "list_all path_char ''-/compare''" "list_all path_char ''tree''"
  "list_all path_char ''-/tree''" "list_all path_char ''actions/runs''" "list_all path_char ''-/pipelines''"
  "list_all path_char ''blob''" "list_all path_char ''-/blob''" "list_all path_char ''...''"
  by code_simp+

lemma providerProfileUrl_leads: "providerProfileUrl src name = Some u \<Longrightarrow> leads_to src u"
  using encode_path by (auto simp: providerProfileUrl_def leads_to_def split: option.splits)

lemma providerIssueUrl_leads: "providerIssueUrl src p iid = Some u \<Longrightarrow> leads_to src u"
  unfolding providerIssueUrl_def using safeIid_path routes_path by (blast intro: below_repo_leads)

lemma providerChangeRequestUrl_leads: "providerChangeRequestUrl src p iid = Some u \<Longrightarrow> leads_to src u"
  unfolding providerChangeRequestUrl_def using safeIid_path routes_path by (blast intro: below_repo_leads)

lemma providerCommitUrl_leads: "providerCommitUrl src p sha = Some u \<Longrightarrow> leads_to src u"
  unfolding providerCommitUrl_def using safeSha_path routes_path by (blast intro: below_repo_leads)

lemma compare_leaf_path:
  "(case (safeSha b, safeSha a) of (Some x, Some y) \<Rightarrow> if x = y then None else Some (x @ ''...'' @ y) | _ \<Rightarrow> None) = Some l
   \<Longrightarrow> list_all path_char l"
  using routes_path by (auto split: option.splits if_splits dest!: safeSha_path)

lemma providerCompareUrl_leads: "providerCompareUrl src p b a = Some u \<Longrightarrow> leads_to src u"
  unfolding providerCompareUrl_def using compare_leaf_path routes_path by (blast intro: below_repo_leads)

lemma providerRefUrl_leads: "providerRefUrl src p ref = Some u \<Longrightarrow> leads_to src u"
  unfolding providerRefUrl_def by (rule below_repo_leads) (use encode_path routes_path in auto)

lemma providerPushUrl_leads: "providerPushUrl src p action ref b a = Some u \<Longrightarrow> leads_to src u"
  using providerCommitUrl_leads providerRefUrl_leads providerCompareUrl_leads
  by (auto simp: providerPushUrl_def nullish_def split: option.splits if_splits)

lemma file_leaf_path: "file_leaf ref p = Some l \<Longrightarrow> list_all path_char l"
proof -
  assume "file_leaf ref p = Some l"
  then obtain r parts where "l = encodeURIComponent r @ ''/'' @ join ''/'' (map encodeURIComponent parts)"
    by (auto simp: file_leaf_def Let_def split: option.splits if_splits)
  then show ?thesis using encode_path encoded_segments_path by (simp add: path_char_def)
qed

text \<open>The query of a label link: form encoded, so nothing in it ends the query.\<close>

definition query_char :: "char \<Rightarrow> bool" where
  "query_char c \<longleftrightarrow> path_char c \<or> c = CHR ''='' \<or> c = CHR ''+''"

lemma form_encode_query: "list_all query_char (form_encode s)"
proof -
  have "list_all query_char (form_char c)" for c
  proof (cases "is_alnum c \<or> c \<in> set ''*-._''")
    case True
    then have "unreserved c" by (auto simp: unreserved_def)
    then show ?thesis using True by (simp add: form_char_def query_char_def path_char_def)
  next
    case False
    have "list_all path_char (concat (map percent_byte (utf8_char c)))" by (rule utf8_percent_path)
    then have "list_all query_char (concat (map percent_byte (utf8_char c)))"
      by (rule list.pred_mono_strong) (simp add: query_char_def)
    then show ?thesis using False by (simp add: form_char_def query_char_def)
  qed
  then show ?thesis by (auto simp: form_encode_def list_all_iff)
qed

lemma label_query_chars: "list_all query_char (label_query kind label)"
proof -
  have "list_all query_char ''q=''" "list_all query_char ''=''" by code_simp+
  then show ?thesis using form_encode_query by (simp add: label_query_def split: provider_kind.split)
qed

text \<open>The link of an entity is such a page; only that of a label has a query behind it.\<close>

lemma entity_link_leads:
  assumes "entity_link src e = Some u"
  shows "leads_to src u
    \<or> (pe_kind e = E_Label \<and> (\<exists>page query. leads_to src page \<and> u = page @ ''?'' @ query \<and> list_all query_char query))"
proof (cases "pe_kind e")
  case E_Label
  define k where "k = (if ls_kind src = ''github'' then ''issues'' else ''-/issues'')"
  obtain base kind label where base: "repoBase src (pe_project_path e) = Some base"
    and u: "u = (base @ ''/'' @ k) @ ''?'' @ label_query kind label"
    using E_Label assms by (cases "ls_kind src = ''github''") (auto simp: k_def entity_link_def Let_def split: option.splits)
  have "list_all path_char (''/'' @ k)" using routes_path by (auto simp: k_def path_char_def)
  then have "leads_to src (base @ ''/'' @ k)" using leads_to_append repoBase_leads [OF base] by blast
  then show ?thesis using E_Label u label_query_chars by blast
next
  case E_Source
  then show ?thesis using assms by (auto simp: entity_link_def leads_to_def split: option.splits)
next
  case E_Workflow_Run
  then have "below_repo src (pe_project_path e) ''actions/runs'' ''-/pipelines'' (map_option int_str (safeIid (pe_iid e))) = Some u"
    using assms by (simp add: entity_link_def)
  then have "leads_to src u" by (rule below_repo_leads) (fact routes_path, fact routes_path, rule safeIid_path)
  then show ?thesis ..
next
  case E_File
  then have "below_repo src (pe_project_path e) ''blob'' ''-/blob'' (file_leaf (pe_ref e) (pe_path e)) = Some u"
    using assms by (simp add: entity_link_def Let_def)
  then have "leads_to src u" by (rule below_repo_leads) (fact routes_path, fact routes_path, rule file_leaf_path)
  then show ?thesis ..
next
  case E_Directory
  then have "providerRefUrl src (pe_project_path e) (pe_ref e) = Some u
      \<or> below_repo src (pe_project_path e) ''tree'' ''-/tree'' (file_leaf (pe_ref e) (pe_path e)) = Some u"
    using assms by (simp add: entity_link_def Let_def split: if_splits)
  then have "leads_to src u"
    by (rule disjE) (erule providerRefUrl_leads, erule below_repo_leads, fact routes_path, fact routes_path, rule file_leaf_path)
  then show ?thesis ..
qed (use assms in \<open>auto simp: entity_link_def providerRepoUrl_def repoBase_leads providerProfileUrl_leads providerIssueUrl_leads
       providerChangeRequestUrl_leads providerCommitUrl_leads providerRefUrl_leads\<close>)

lemma externalWebUrl_iff:
  "externalWebUrl parse v = Some u \<longleftrightarrow>
     v = Some u \<and> u \<noteq> [] \<and> (\<exists>p. parse u = Some p \<and> pu_protocol p \<in> {''https:'', ''http:''} \<and> \<not> pu_credentials p)"
  by (auto simp: externalWebUrl_def split: option.splits if_splits)

text \<open>
  Claim C40.  A link shown for an entity is either the address its provider gave, a web address without
  credentials, or a page of the configured host: https, the host itself, a slash, and a path in which every
  character is unreserved, a slash or a percent escape; behind that of a label, a form-encoded query.
\<close>

theorem provider_links_stay_on_host:
  assumes "providerEntityUrl parse src e = Some u"
  shows "(pe_url e = Some u \<and> (\<exists>p. parse u = Some p \<and> pu_protocol p \<in> {''https:'', ''http:''} \<and> \<not> pu_credentials p))
         \<or> ((pe_url e = None \<or> pe_url e = Some [])
            \<and> (\<exists>s host path query.
                  src = Some s \<and> ls_kind s \<in> {''github'', ''gitlab''} \<and> host = js_trim (ls_host s)
                  \<and> host \<noteq> [] \<and> list_all (\<lambda>c. host_char c \<or> c = CHR '':'') host
                  \<and> u = ''https://'' @ host @ ''/'' @ path @ query \<and> list_all path_char path
                  \<and> (query = [] \<or> pe_kind e = E_Label \<and> hd query = CHR ''?'' \<and> list_all query_char (tl query))))"
proof (cases "pe_url e \<noteq> None \<and> pe_url e \<noteq> Some []")
  case True
  then show ?thesis using assms externalWebUrl_iff by (auto simp: providerEntityUrl_def)
next
  case False
  then obtain s where s: "src = Some s" "entity_link s e = Some u"
    using assms by (auto simp: providerEntityUrl_def split: option.splits)
  then obtain page query where page: "leads_to s page" "u = page @ query"
      "query = [] \<or> pe_kind e = E_Label \<and> hd query = CHR ''?'' \<and> list_all query_char (tl query)"
    using entity_link_leads [OF s(2)] by fastforce
  then obtain host path where host: "safeHost (Some (ls_host s)) = Some host" "page = ''https://'' @ host @ ''/'' @ path"
      "list_all path_char path" "providerKind s \<noteq> None"
    by (auto simp: leads_to_def host_link_def)
  have "host = js_trim (ls_host s)" "host \<noteq> []"
    using host(1) by (auto simp: safeHost_def trimmed_def Let_def split: if_splits)
  moreover have "ls_kind s \<in> {''github'', ''gitlab''}"
    using host(4) by (simp add: providerKind_def split: if_splits)
  ultimately show ?thesis using False s(1) page(2,3) host(1-3) safeHost_chars by fastforce
qed

definition sample_link_source :: link_source where
  "sample_link_source = \<lparr>ls_kind = ''github'', ls_host = ''github.com''\<rparr>"

definition sample_file :: provider_entity where
  "sample_file = \<lparr>pe_kind = E_File, pe_url = None, pe_project_path = Some ''a/b'', pe_username = None, pe_iid = None,
     pe_sha = None, pe_ref = Some ''refs/heads/x/y'', pe_path = Some ''src/a b.ts'', pe_label = None\<rparr>"

definition sample_file_url :: string where
  "sample_file_url = ''https://github.com/a/b/blob/x%2Fy/src/a%20b.ts''"

lemma sample_file_link: "providerEntityUrl (\<lambda>_. None) (Some sample_link_source) sample_file = Some sample_file_url"
  by code_simp

theorem provider_links_stay_on_host_witness:
  "providerEntityUrl (\<lambda>_. None) (Some sample_link_source) sample_file = Some sample_file_url
   \<and> (\<exists>path. sample_file_url = ''https://github.com/'' @ path \<and> list_all path_char path)"
proof -
  have "pe_url sample_file = None" "pe_kind sample_file = E_File" "js_trim (ls_host sample_link_source) = ''github.com''"
    by code_simp+
  then obtain path where "sample_file_url = ''https://'' @ ''github.com'' @ ''/'' @ path" "list_all path_char path"
    using provider_links_stay_on_host [OF sample_file_link] by auto
  then show ?thesis using sample_file_link by auto
qed

text \<open>A profile the provider reports is shown only where it is one of the configured host, and then rebuilt from its name.\<close>

lemma providerObservedProfileUrl_leads: "providerObservedProfileUrl parse decode src v = Some u \<Longrightarrow> leads_to src u"
proof -
  have "list_all path_char ''apps/''" by code_simp
  then show "providerObservedProfileUrl parse decode src v = Some u \<Longrightarrow> leads_to src u"
    using encode_path
    by (auto simp: providerObservedProfileUrl_def Let_def leads_to_def host_link_def split: option.splits if_splits list.splits)
qed

text \<open>Two dots pass as a user name, and the link then names the root of the host and no profile.\<close>

lemma profile_of_two_dots: "providerProfileUrl sample_link_source (Some ''..'') = Some ''https://github.com/..''"
  by code_simp

end
