(* ===== verification/Timestamps.thy ===== *)
theory Timestamps
  imports Js_Number Js_Date Model_Types
begin

text \<open>
  The calendar and timestamp helpers of \<open>shared/time.ts\<close>: dates and hours of a time zone, shifts of
  a calendar date, and the comparison of ISO timestamps.

  The time zone database is not code of the repository: \<open>zones tz\<close> is the formatter that
  \<open>Intl.DateTimeFormat\<close> builds for \<open>tz\<close>, or \<open>None\<close> where the constructor throws.  A formatter gives
  the parts \<open>formatToParts\<close> returns for an instant; the values of its numeric parts are decimal
  numerals.  A number is \<open>None\<close> when it is \<open>NaN\<close>.
\<close>

section \<open>Formatters\<close>

type_synonym formatter = "int \<Rightarrow> (string \<times> string) list"
type_synonym zones = "string \<Rightarrow> formatter option"

text \<open>\<open>FMT_CACHE\<close> is passed in and out.\<close>

definition formatterFor :: "zones \<Rightarrow> string \<Rightarrow> (string, formatter) jsmap \<Rightarrow> formatter result \<times> (string, formatter) jsmap" where
  "formatterFor zones tz cache =
     (case jm_get cache tz of
        Some fmt \<Rightarrow> (Inr fmt, cache)
      | None \<Rightarrow>
          (case zones tz of
             None \<Rightarrow> (Inl (''Invalid time zone specified: '' @ tz), cache)
           | Some fmt \<Rightarrow> (Inr fmt, jm_set tz fmt cache)))"

definition isValidTimezone :: "zones \<Rightarrow> json option \<Rightarrow> (string, formatter) jsmap \<Rightarrow> bool \<times> (string, formatter) jsmap" where
  "isValidTimezone zones value cache =
     (case value of
        Some (JStr s) \<Rightarrow>
          if js_trim s = [] then (False, cache)
          else (case formatterFor zones s cache of
                  (Inr _, cache') \<Rightarrow> (True, cache')
                | (Inl _, cache') \<Rightarrow> (False, cache'))
      | _ \<Rightarrow> (False, cache))"

text \<open>What the cache holds is what the constructor gives, so the cache is invisible.\<close>

definition cache_ok :: "zones \<Rightarrow> (string, formatter) jsmap \<Rightarrow> bool" where
  "cache_ok zones cache \<longleftrightarrow> (\<forall>tz fmt. jm_get cache tz = Some fmt \<longrightarrow> zones tz = Some fmt)"

definition formatter_of :: "zones \<Rightarrow> string \<Rightarrow> formatter result" where
  "formatter_of zones tz = fst (formatterFor zones tz jm_empty)"

lemma formatterFor_cached:
  assumes "cache_ok zones cache"
  shows "fst (formatterFor zones tz cache) = formatter_of zones tz \<and> cache_ok zones (snd (formatterFor zones tz cache))"
proof (cases "jm_get cache tz")
  case None
  then show ?thesis
    using assms by (cases "zones tz") (auto simp: formatter_of_def formatterFor_def cache_ok_def jsmap_simps)
next
  case (Some fmt)
  with assms have "zones tz = Some fmt" by (simp add: cache_ok_def)
  with Some show ?thesis
    using assms by (simp add: formatter_of_def formatterFor_def jsmap_simps)
qed

section \<open>Wall clocks\<close>

record wall_clock =
  wc_year :: int
  wc_month :: int
  wc_day :: int
  wc_hour :: int
  wc_minute :: int
  wc_second :: int

definition clock_field :: "(string \<times> string) list \<Rightarrow> string \<Rightarrow> int" where
  "clock_field parts type =
     (case List.find (\<lambda>p. fst p = type) parts of Some p \<Rightarrow> int (num_of (snd p)) | None \<Rightarrow> 0)"

definition wallClockOf :: "zones \<Rightarrow> int option \<Rightarrow> string \<Rightarrow> wall_clock result" where
  "wallClockOf zones ms tz =
     rbind (formatter_of zones tz) (\<lambda>fmt.
     case Option.bind ms time_clip of
       None \<Rightarrow> Inl ''Invalid time value''
     | Some t \<Rightarrow>
         (let parts = fmt t; hour = clock_field parts ''hour'' in
          Inr \<lparr>wc_year = clock_field parts ''year'', wc_month = clock_field parts ''month'',
               wc_day = clock_field parts ''day'', wc_hour = (if hour = 24 then 0 else hour),
               wc_minute = clock_field parts ''minute'', wc_second = clock_field parts ''second''\<rparr>))"

definition offsetMsAt :: "zones \<Rightarrow> int option \<Rightarrow> string \<Rightarrow> int option result" where
  "offsetMsAt zones ms tz =
     rbind (wallClockOf zones ms tz) (\<lambda>wc.
     let asIfUtc = time_clip (date_utc (wc_year wc) (wc_month wc - 1) (wc_day wc) (wc_hour wc) (wc_minute wc) (wc_second wc) 0) in
     Inr (Option.bind asIfUtc (\<lambda>u. map_option (\<lambda>t. u - t div 1000 * 1000) ms)))"

definition pad2 :: "int \<Rightarrow> string" where
  "pad2 n = replicate (2 - length (int_str n)) CHR ''0'' @ int_str n"

definition pad4 :: "int \<Rightarrow> string" where
  "pad4 n = replicate (4 - length (int_str n)) CHR ''0'' @ int_str n"

text \<open>\<open>Date.UTC\<close> of a year, month and day that were read from text.\<close>

definition utc_of ::
  "rat option \<Rightarrow> rat option \<Rightarrow> rat option \<Rightarrow> int \<Rightarrow> int \<Rightarrow> int \<Rightarrow> int \<Rightarrow> int option"
where
  "utc_of year month day h mi s ms =
     Option.bind year (\<lambda>y. Option.bind month (\<lambda>m. Option.bind day (\<lambda>d.
       time_clip (date_utc (js_trunc y) (js_trunc (m - 1)) (js_trunc d) h mi s ms))))"

definition zonedWallToInstantMs ::
  "zones \<Rightarrow> rat option \<Rightarrow> rat option \<Rightarrow> rat option \<Rightarrow> int \<Rightarrow> int \<Rightarrow> int \<Rightarrow> int \<Rightarrow> string \<Rightarrow> int option result"
where
  "zonedWallToInstantMs zones year month day hour minute second ms tz =
     (let guess = utc_of year month day hour minute second ms in
      rbind (offsetMsAt zones guess tz) (\<lambda>off.
      let minus = (\<lambda>x. Option.bind guess (\<lambda>g. map_option (\<lambda>y. g - y) x)); instant = minus off in
      rbind (offsetMsAt zones instant tz) (\<lambda>off2.
      Inr (if off2 = off then instant else minus off2))))"

section \<open>Dates and hours of a zone\<close>

definition zonedDateOnly :: "zones \<Rightarrow> int option \<Rightarrow> string \<Rightarrow> string result" where
  "zonedDateOnly zones ms tz =
     (if tz = ''UTC'' then rbind (toISOString ms) (\<lambda>s. Inr (take 10 s))
      else rbind (wallClockOf zones ms tz) (\<lambda>wc.
           Inr (pad4 (wc_year wc) @ ''-'' @ pad2 (wc_month wc) @ ''-'' @ pad2 (wc_day wc))))"

definition getUTCDay :: "int option \<Rightarrow> int option" where
  "getUTCDay ms = map_option (\<lambda>t. (t div ms_per_day + 4) mod 7) (Option.bind ms time_clip)"

definition getUTCHours :: "int option \<Rightarrow> int option" where
  "getUTCHours ms = map_option (\<lambda>t. t div 3600000 mod 24) (Option.bind ms time_clip)"

definition zonedWeekday :: "zones \<Rightarrow> int option \<Rightarrow> string \<Rightarrow> int option result" where
  "zonedWeekday zones ms tz =
     (if tz = ''UTC'' then Inr (getUTCDay ms)
      else rbind (wallClockOf zones ms tz) (\<lambda>wc.
           Inr (getUTCDay (time_clip (date_utc (wc_year wc) (wc_month wc - 1) (wc_day wc) 0 0 0 0)))))"

definition zonedHour :: "zones \<Rightarrow> int option \<Rightarrow> string \<Rightarrow> int option result" where
  "zonedHour zones ms tz =
     (if tz = ''UTC'' then Inr (getUTCHours ms)
      else rbind (wallClockOf zones ms tz) (\<lambda>wc. Inr (Some (wc_hour wc))))"

definition number_at :: "string list \<Rightarrow> nat \<Rightarrow> rat option" where
  "number_at parts k = (if k < length parts then js_number (parts ! k) else None)"

definition zonedDayStartIso :: "zones \<Rightarrow> string \<Rightarrow> string \<Rightarrow> string result" where
  "zonedDayStartIso zones dateStr tz =
     (if tz = ''UTC'' then Inr (dateStr @ ''T00:00:00.000Z'')
      else
        (let parts = split_on CHR ''-'' dateStr in
         rbind (zonedWallToInstantMs zones (number_at parts 0) (number_at parts 1) (number_at parts 2) 0 0 0 0 tz)
           toISOString))"

definition zonedDayEndIso :: "zones \<Rightarrow> string \<Rightarrow> string \<Rightarrow> string result" where
  "zonedDayEndIso zones dateStr tz =
     (if tz = ''UTC'' then Inr (dateStr @ ''T23:59:59.999Z'')
      else
        (let parts = split_on CHR ''-'' dateStr in
         rbind (zonedWallToInstantMs zones (number_at parts 0) (number_at parts 1) (number_at parts 2) 23 59 59 999 tz)
           toISOString))"

definition shiftDateOnly :: "string \<Rightarrow> int \<Rightarrow> string result" where
  "shiftDateOnly dateStr deltaDays =
     (let parts = split_on CHR ''-'' dateStr in
      rbind (toISOString (utc_of (number_at parts 0) (number_at parts 1)
               (map_option (\<lambda>d. d + of_int deltaDays) (number_at parts 2)) 0 0 0 0))
        (\<lambda>s. Inr (take 10 s)))"

definition zonedHourStartIso :: "zones \<Rightarrow> string \<Rightarrow> int \<Rightarrow> string \<Rightarrow> string result" where
  "zonedHourStartIso zones dateStr hour tz =
     (if 24 \<le> hour then rbind (shiftDateOnly dateStr 1) (\<lambda>next_day. zonedDayStartIso zones next_day tz)
      else if tz = ''UTC'' then Inr (dateStr @ ''T'' @ pad2 hour @ '':00:00.000Z'')
      else
        (let parts = split_on CHR ''-'' dateStr in
         rbind (zonedWallToInstantMs zones (number_at parts 0) (number_at parts 1) (number_at parts 2) hour 0 0 0 tz)
           toISOString))"

section \<open>Timestamps\<close>

definition timestampMs :: "string option \<Rightarrow> int option" where
  "timestampMs v = date_parse (or_else v '''')"

record time_range =
  tr_from :: string
  tr_to :: string

definition timestampInRange :: "string option \<Rightarrow> time_range \<Rightarrow> bool" where
  "timestampInRange v rg =
     (case (timestampMs v, timestampMs (Some (tr_from rg)), timestampMs (Some (tr_to rg))) of
        (Some valueMs, Some fromMs, Some toMs) \<Rightarrow> fromMs \<le> valueMs \<and> valueMs \<le> toMs
      | _ \<Rightarrow> False)"

definition compareTimestampDesc :: "string option \<Rightarrow> string option \<Rightarrow> int" where
  "compareTimestampDesc a b =
     (case (timestampMs a, timestampMs b) of
        (Some aMs, Some bMs) \<Rightarrow> if aMs \<noteq> bMs then bMs - aMs else 0
      | (Some _, None) \<Rightarrow> -1
      | (None, Some _) \<Rightarrow> 1
      | (None, None) \<Rightarrow> 0)"

section \<open>Calendar arithmetic\<close>

lemma js_number_pad:
  assumes "n < 10 ^ w" and "0 < w" and "w \<le> 4"
  shows "js_number (pad w n) = Some (of_nat n)"
proof -
  have "(10::rat) ^ w \<le> 10 ^ 4" by (rule power_increasing) (use assms in simp_all)
  moreover have "(of_nat n :: rat) < of_nat (10 ^ w)" using assms(1) by (simp only: of_nat_less_iff)
  then have "(of_nat n :: rat) < 10 ^ w" by simp
  moreover have "(10::rat) ^ 4 < double_limit" by (simp add: double_limit_def)
  ultimately have "of_nat n < double_limit" by (metis less_le_trans less_trans not_le)
  moreover have "pad w n \<noteq> []" using pad_facts(1) [OF assms(1,2)] assms(2) by auto
  ultimately show ?thesis
    using pad_facts [OF assms(1,2)] js_number_digits [of "pad w n"] by simp
qed

text \<open>The days whose year has four digits and is not one \<open>Date.UTC\<close> reads as 19xx.\<close>

definition common_day :: "int \<Rightarrow> bool" where
  "common_day n \<longleftrightarrow> year_start 100 \<le> n \<and> n < year_start 10000"

lemma common_day_civil:
  assumes "common_day n"
  shows "100 \<le> cv_year (civil_of_day n)" and "cv_year (civil_of_day n) \<le> 9999"
  using assms year_of_day_ge [of 100 n] year_of_day_less [of n 10000]
  by (simp_all add: common_day_def civil_of_day_def Let_def)

lemma iso_date_common:
  assumes "common_day n"
  defines "c \<equiv> civil_of_day n"
  shows "iso_date n = pad 4 (nat (cv_year c)) @ ''-'' @ pad 2 (nat (cv_month c)) @ ''-'' @ pad 2 (nat (cv_day c))"
  using common_day_civil [OF assms(1)] by (simp add: iso_date_def iso_year_def Let_def c_def)

lemma pad_no_dash: "n < 10 ^ w \<Longrightarrow> 0 < w \<Longrightarrow> CHR ''-'' \<notin> set (pad w n)"
  using pad_facts(2) [of n w] by (auto simp: list_all_iff is_digit_def code_def)

lemma split_iso_date:
  assumes "common_day n"
  defines "c \<equiv> civil_of_day n"
  shows "split_on CHR ''-'' (iso_date n) = [pad 4 (nat (cv_year c)), pad 2 (nat (cv_month c)), pad 2 (nat (cv_day c))]"
proof -
  have small: "nat (cv_year c) < 10 ^ 4" "nat (cv_month c) < 10 ^ 2" "nat (cv_day c) < 10 ^ 2"
    using common_day_civil [OF assms(1)] civil_of_day_correct [of n] by (auto simp: c_def)
  have "CHR ''-'' \<notin> set (pad 4 (nat (cv_year c)))" "CHR ''-'' \<notin> set (pad 2 (nat (cv_month c)))"
    "CHR ''-'' \<notin> set (pad 2 (nat (cv_day c)))"
    using pad_no_dash [OF small(1)] pad_no_dash [OF small(2)] pad_no_dash [OF small(3)] by simp_all
  then have "split_on CHR ''-'' (join ''-'' [pad 4 (nat (cv_year c)), pad 2 (nat (cv_month c)), pad 2 (nat (cv_day c))]) =
    [pad 4 (nat (cv_year c)), pad 2 (nat (cv_month c)), pad 2 (nat (cv_day c))]"
    by (intro split_on_join) auto
  then show ?thesis using iso_date_common [OF assms(1)] by (simp add: c_def)
qed

lemma js_trunc_int [simp]: "js_trunc (of_int i) = i"
  by (simp add: js_trunc_def)

lemma utc_of_ints:
  "utc_of (Some (of_int y)) (Some (of_int m)) (Some (of_int d)) h mi s ms = time_clip (date_utc y (m - 1) d h mi s ms)"
proof -
  have "js_trunc (of_int m - 1) = m - 1" using js_trunc_int [of "m - 1"] by simp
  then show ?thesis by (simp add: utc_of_def)
qed

lemma date_utc_day:
  assumes "100 \<le> y"
  shows "date_utc y (m - 1) (d + k) h mi s ms = (make_day y (m - 1) d + k) * ms_per_day + make_time h mi s ms"
  using assms by (simp add: date_utc_def make_day_def Let_def)

lemma common_day_time:
  assumes "common_day n" and "0 \<le> t" and "t < ms_per_day"
  shows "time_clip (n * ms_per_day + t) = Some (n * ms_per_day + t)"
    and "iso_of_ms (n * ms_per_day + t) = iso_date n @ ''T'' @ iso_time t"
proof -
  have "year_start 100 = -683003" "year_start 10000 = 2932897" by (simp_all add: year_start_def)
  with assms have "-683003 \<le> n" "n < 2932897" by (simp_all add: common_day_def)
  with assms have "\<bar>n * ms_per_day + t\<bar> \<le> max_time" unfolding ms_per_day_def max_time_def by linarith
  then show "time_clip (n * ms_per_day + t) = Some (n * ms_per_day + t)" by (simp add: time_clip_def)
  have "(n * ms_per_day + t) div ms_per_day = n" "(n * ms_per_day + t) mod ms_per_day = t"
    using assms by (simp_all add: ms_per_day_def)
  then show "iso_of_ms (n * ms_per_day + t) = iso_date n @ ''T'' @ iso_time t"
    by (simp add: iso_of_ms_def)
qed

lemma length_iso_date:
  assumes "common_day n"
  shows "length (iso_date n) = 10"
proof -
  have "nat (cv_year (civil_of_day n)) < 10 ^ 4" "nat (cv_month (civil_of_day n)) < 10 ^ 2"
    "nat (cv_day (civil_of_day n)) < 10 ^ 2"
    using common_day_civil [OF assms] civil_of_day_correct [of n] by auto
  then show ?thesis using pad_facts(1) by (simp add: iso_date_common [OF assms])
qed

text \<open>
  Shifting a calendar date by a number of days gives the date that many days later or
  earlier, across months, leap days and years.
\<close>

theorem shiftDateOnly_adds_days:
  assumes "common_day n" and "common_day (n + k)"
  shows "shiftDateOnly (iso_date n) k = Inr (iso_date (n + k))"
proof -
  define c where "c = civil_of_day n"
  have c: "100 \<le> cv_year c" "cv_year c \<le> 9999" "1 \<le> cv_month c" "cv_month c \<le> 12" "1 \<le> cv_day c" "cv_day c \<le> 31"
    "make_day (cv_year c) (cv_month c - 1) (cv_day c) = n"
    using common_day_civil [OF assms(1)] civil_of_day_correct [of n] by (simp_all add: c_def)
  have number: "js_number (pad 4 (nat (cv_year c))) = Some (of_int (cv_year c))"
    "js_number (pad 2 (nat (cv_month c))) = Some (of_int (cv_month c))"
    "js_number (pad 2 (nat (cv_day c))) = Some (of_int (cv_day c))"
    using c by (simp_all add: js_number_pad)
  have "utc_of (Some (of_int (cv_year c))) (Some (of_int (cv_month c))) (Some (of_int (cv_day c + k))) 0 0 0 0
    = Some ((n + k) * ms_per_day)"
    unfolding utc_of_ints date_utc_day [OF c(1)] c(7)
    using common_day_time(1) [OF assms(2), of 0] by (simp add: make_time_def ms_per_day_def)
  then have utc: "utc_of (number_at (split_on CHR ''-'' (iso_date n)) 0) (number_at (split_on CHR ''-'' (iso_date n)) 1)
      (map_option (\<lambda>d. d + of_int k) (number_at (split_on CHR ''-'' (iso_date n)) 2)) 0 0 0 0 = Some ((n + k) * ms_per_day)"
    using split_iso_date [OF assms(1)] number by (simp add: number_at_def c_def)
  have "toISOString (Some ((n + k) * ms_per_day)) = Inr (iso_date (n + k) @ ''T'' @ iso_time 0)"
    using common_day_time [OF assms(2), of 0] by (simp add: toISOString_def ms_per_day_def)
  then show ?thesis
    using length_iso_date [OF assms(2)] unfolding shiftDateOnly_def Let_def utc by simp
qed

theorem shiftDateOnly_adds_days_witness:
  "common_day 19781 \<and> iso_date 19781 = ''2024-02-28'' \<and> iso_date (19781 + 2) = ''2024-03-01'' \<and>
   shiftDateOnly (iso_date 19781) 2 = Inr (iso_date (19781 + 2))"
proof -
  have "common_day 19781" "common_day (19781 + 2)" "iso_date 19781 = ''2024-02-28''"
    "iso_date (19781 + 2) = ''2024-03-01''" by code_simp+
  then show ?thesis using shiftDateOnly_adds_days [of 19781 2] by blast
qed

section \<open>Wall clocks around a change of the offset\<close>

text \<open>
  Where a zone changes its offset at most once within two days, every wall-clock time that
  the zone shows is turned into an instant at which it shows it.
\<close>

theorem zonedWallToInstantMs_resolves:
  assumes "utc_of year month day h mi s ms = Some g"
    and "\<forall>t. \<bar>t - g\<bar> \<le> 2 * ms_per_day \<longrightarrow> offsetMsAt zones (Some t) tz = Inr (Some (if t < T then o1 else o2))"
    and "\<bar>o1\<bar> \<le> ms_per_day" and "\<bar>o2\<bar> \<le> ms_per_day"
    and "\<exists>t. t + (if t < T then o1 else o2) = g"
  shows "\<exists>r. zonedWallToInstantMs zones year month day h mi s ms tz = Inr (Some r) \<and>
    offsetMsAt zones (Some r) tz = Inr (Some (g - r))"
proof -
  define off where "off t = (if t < T then o1 else o2)" for t
  have off: "offsetMsAt zones (Some t) tz = Inr (Some (off t))" if "\<bar>t - g\<bar> \<le> 2 * ms_per_day" for t
    using assms(2) that by (simp add: off_def)
  have small: "\<bar>off t\<bar> \<le> ms_per_day" for t using assms(3,4) by (simp add: off_def)
  define r where "r = (if off (g - off g) = off g then g - off g else g - off (g - off g))"
  have run: "zonedWallToInstantMs zones year month day h mi s ms tz = Inr (Some r)"
    using off [of g] off [of "g - off g"] small [of g]
    by (simp add: zonedWallToInstantMs_def assms(1) r_def ms_per_day_def)
  obtain t where "t + off t = g" using assms(5) by (auto simp: off_def)
  then have "off r = g - r" by (simp add: r_def off_def split: if_splits)
  moreover have "\<bar>r - g\<bar> \<le> 2 * ms_per_day"
    using small [of g] small [of "g - off g"] by (simp add: r_def ms_per_day_def)
  ultimately show ?thesis using off [of r] run by simp
qed

text \<open>A zone that moves from five to four hours behind UTC on 2025-03-09 at 07:00Z.\<close>

definition sample_offset :: "int \<Rightarrow> int" where
  "sample_offset t = (if t < 1741503600000 then -18000000 else -14400000)"

definition sample_parts :: "civil \<Rightarrow> int \<Rightarrow> (string \<times> string) list" where
  "sample_parts c t =
     [(''month'', pad 2 (nat (cv_month c))), (''day'', pad 2 (nat (cv_day c))), (''year'', nat_str (nat (cv_year c))),
      (''hour'', pad 2 (nat (t div 3600000))), (''minute'', pad 2 (nat (t div 60000 mod 60))),
      (''second'', pad 2 (nat (t div 1000 mod 60)))]"

definition sample_zones :: zones where
  "sample_zones tz =
     Some (\<lambda>t. let l = t + sample_offset t in sample_parts (civil_of_day (l div ms_per_day)) (l mod ms_per_day))"

lemma fields_as_utc:
  assumes "common_day day" and "0 \<le> t" and "t < ms_per_day"
  defines "c \<equiv> civil_of_day day"
  shows "date_utc (cv_year c) (cv_month c - 1) (cv_day c) (t div 3600000) (t div 60000 mod 60) (t div 1000 mod 60) 0
    = day * ms_per_day + t - t mod 1000"
proof -
  have "make_time (t div 3600000) (t div 60000 mod 60) (t div 1000 mod 60) 0 = t - t mod 1000"
    using time_fields(1) [OF assms(2,3)] by (simp add: make_time_def)
  moreover have "100 \<le> cv_year c" "make_day (cv_year c) (cv_month c - 1) (cv_day c) = day"
    using common_day_civil [OF assms(1)] civil_of_day_correct [of day] by (simp_all add: c_def)
  moreover have "cv_day c = cv_day c + 0" by simp
  ultimately show ?thesis using date_utc_day [of "cv_year c" "cv_month c" "cv_day c" 0] by (metis add_diff_eq add_0_right)
qed

lemma month_day:
  "P \<and> 1 \<le> m \<and> m \<le> 12 \<and> 1 \<le> d \<and> d \<le> 31 \<Longrightarrow> 0 \<le> (m :: int) \<and> m < 100 \<and> 0 \<le> d \<and> d < (100 :: int)"
  by linarith

lemma num_of_pad2: "0 \<le> n \<Longrightarrow> n < 100 \<Longrightarrow> int (num_of (pad 2 (nat n))) = n"
  using pad_facts(3) [of "nat n" 2] by simp

lemma sample_fields:
  assumes "common_day day" and "0 \<le> t" and "t < ms_per_day"
  defines "c \<equiv> civil_of_day day"
  shows "clock_field (sample_parts c t) ''year'' = cv_year c" "clock_field (sample_parts c t) ''month'' = cv_month c"
    "clock_field (sample_parts c t) ''day'' = cv_day c" "clock_field (sample_parts c t) ''hour'' = t div 3600000"
    "clock_field (sample_parts c t) ''minute'' = t div 60000 mod 60"
    "clock_field (sample_parts c t) ''second'' = t div 1000 mod 60"
proof -
  define h m s where "h = t div 3600000" and "m = t div 60000 mod 60" and "s = t div 1000 mod 60"
  have "0 \<le> h" "h \<le> 23" using time_fields(2,3) [OF assms(2,3)] by (simp_all add: h_def)
  moreover have "0 \<le> m" "m < 60" "0 \<le> s" "s < 60" by (simp_all add: m_def s_def)
  ultimately show "clock_field (sample_parts c t) ''year'' = cv_year c" "clock_field (sample_parts c t) ''month'' = cv_month c"
    "clock_field (sample_parts c t) ''day'' = cv_day c" "clock_field (sample_parts c t) ''hour'' = t div 3600000"
    "clock_field (sample_parts c t) ''minute'' = t div 60000 mod 60"
    "clock_field (sample_parts c t) ''second'' = t div 1000 mod 60"
    using common_day_civil [OF assms(1), folded c_def] month_day [OF civil_of_day_correct [of day, folded c_def]]
    by (simp_all add: clock_field_def sample_parts_def num_of_pad2 num_of_nat_str
        h_def [symmetric] m_def [symmetric] s_def [symmetric])
qed

lemma sample_zone_offset:
  assumes "\<bar>t - 1741491000000\<bar> \<le> 2 * ms_per_day"
  shows "offsetMsAt sample_zones (Some t) tz = Inr (Some (sample_offset t))"
proof -
  define l where "l = t + sample_offset t"
  define day u where "day = l div ms_per_day" and "u = l mod ms_per_day"
  define c where "c = civil_of_day day"
  have bound: "1000000000000 \<le> l" "l \<le> 2000000000000" "\<bar>t\<bar> \<le> max_time"
    using assms by (auto simp: l_def sample_offset_def ms_per_day_def max_time_def)
  then have "11574 \<le> day" "day < 23149"
    unfolding day_def ms_per_day_def by linarith+
  then have common: "common_day day" by (simp add: common_day_def year_start_def)
  have u: "0 \<le> u" "u < ms_per_day" by (simp_all add: u_def ms_per_day_def)
  have "u div 3600000 \<noteq> 24" using time_fields(3) [OF u] by linarith
  moreover have "formatter_of sample_zones tz = Inr (\<lambda>t. let l = t + sample_offset t in
      sample_parts (civil_of_day (l div ms_per_day)) (l mod ms_per_day))"
    by (simp add: formatter_of_def formatterFor_def sample_zones_def jsmap_simps)
  moreover have "time_clip t = Some t" using bound(3) by (simp add: time_clip_def)
  ultimately have wc: "wallClockOf sample_zones (Some t) tz = Inr \<lparr>wc_year = cv_year c, wc_month = cv_month c,
      wc_day = cv_day c, wc_hour = u div 3600000, wc_minute = u div 60000 mod 60, wc_second = u div 1000 mod 60\<rparr>"
    using sample_fields [OF common u]
    by (simp add: wallClockOf_def Let_def l_def [symmetric] day_def [symmetric] u_def [symmetric] c_def [symmetric])
  have "day * ms_per_day + u = l" by (simp add: day_def u_def)
  moreover have "u mod 1000 = l mod 1000" by (simp add: u_def ms_per_day_def mod_mod_cancel)
  ultimately have utc: "date_utc (cv_year c) (cv_month c - 1) (cv_day c) (u div 3600000) (u div 60000 mod 60) (u div 1000 mod 60) 0
      = l - l mod 1000"
    using fields_as_utc [OF common u] by (simp add: c_def)
  have "0 \<le> l mod 1000" "l mod 1000 < 1000" by simp_all
  then have clip: "time_clip (l - l mod 1000) = Some (l - l mod 1000)"
    using bound(1,2) by (simp add: time_clip_def max_time_def)
  have "l = t + sample_offset t div 1000 * 1000" by (simp add: l_def sample_offset_def)
  then have "l mod 1000 = t mod 1000" by (simp only: mod_mult_self1)
  moreover have "t div 1000 * 1000 = t - t mod 1000" by (rule minus_mod_eq_div_mult [symmetric])
  ultimately have "l - l mod 1000 - t div 1000 * 1000 = sample_offset t" unfolding l_def by linarith
  with clip show ?thesis by (simp add: offsetMsAt_def wc utc)
qed

theorem zonedWallToInstantMs_resolves_witness:
  "\<exists>r. zonedWallToInstantMs sample_zones (Some 2025) (Some 3) (Some 9) 3 30 0 0 ''America/New_York'' = Inr (Some r) \<and>
     offsetMsAt sample_zones (Some r) ''America/New_York'' = Inr (Some (1741491000000 - r))"
proof (rule zonedWallToInstantMs_resolves [where T = 1741503600000 and ?o1.0 = "-18000000" and ?o2.0 = "-14400000"])
  show "utc_of (Some 2025) (Some 3) (Some 9) 3 30 0 0 = Some 1741491000000" by code_simp
  show "\<forall>t. \<bar>t - 1741491000000\<bar> \<le> 2 * ms_per_day \<longrightarrow>
    offsetMsAt sample_zones (Some t) ''America/New_York'' =
      Inr (Some (if t < 1741503600000 then - 18000000 else - 14400000))"
    using sample_zone_offset by (simp add: sample_offset_def)
  show "\<exists>t. t + (if t < 1741503600000 then - 18000000 else - 14400000) = (1741491000000 :: int)"
    by (rule exI [of _ 1741505400000]) simp
qed (simp_all add: ms_per_day_def)

section \<open>Sorting by timestamp\<close>

lemma comparator_timestamp: "comparator (\<lambda>a b. compareTimestampDesc (f a) (f b)) (\<lambda>_. True)"
  by unfold_locales (auto simp: compareTimestampDesc_def split: option.splits if_splits)

end
