(* ===== verification/Contract_Rows.thy ===== *)
theory Contract_Rows
  imports Store_Reads Timestamps
begin

text \<open>
  From the rows of the store to the rows of the contract (\<open>src/contract/build.ts\<close>, \<open>mapRows\<close> and
  what it calls): the DTO of each row, the gate that keeps only configured sources and
  repositories, and the resolution of activity targets.  \<open>refOf\<close> throws on a source id that
  contains a bar, so the mapping is a result.

  \<open>lc\<close> is \<open>localeCompare\<close>, which is not code of the repository.  The key \<open>JSON.stringify([..])\<close> of
  a list of strings and numbers determines the list, so the tuple stands for its text.
\<close>

section \<open>Items and edges\<close>

datatype window_reason = Primary | Edge_Endpoint | Activity_Target | Program_Tracker

record item_dto =
  id_id :: string
  id_source_id :: string
  id_external_id :: string
  id_kind :: item_kind
  id_project_path :: "string option"
  id_iid :: "int option"
  id_url :: string
  id_title :: "string option"
  id_body :: "string option"
  id_state :: item_state
  id_state_raw :: "string option"
  id_state_reason :: "string option"
  id_is_draft :: "bool option"
  id_author :: "string option"
  id_created_at :: "string option"
  id_updated_at :: "string option"
  id_closed_at :: "string option"
  id_merged_at :: "string option"
  id_labels :: "label list"
  id_review_state :: "review_state option"
  id_ci_state :: "ci_state option"
  id_merge_state :: "merge_state option"
  id_review_threads :: "(int \<times> int) option"
  id_comments :: "int option"
  id_milestone :: "string option"
  id_demand :: "int option"
  id_last_seen_at :: string
  id_window_reasons :: "window_reason list option"

definition toLabelDTO :: "label_row \<Rightarrow> label" where
  "toLabelDTO l = \<lparr>lb_name = lb_name (snd l), lb_scope = lb_scope (snd l), lb_color = lb_color (snd l)\<rparr>"

definition toItemDTO :: "item_row \<Rightarrow> label_row list \<Rightarrow> item_dto result" where
  "toItemDTO row labels =
     (let i = ir_item row in
      rbind (refOf (it_source i) (it_external i)) (\<lambda>ref.
      Inr \<lparr>id_id = ref, id_source_id = it_source i, id_external_id = it_external i, id_kind = it_kind i,
           id_project_path = it_project_path i, id_iid = it_iid i, id_url = it_url i, id_title = it_title i,
           id_body = it_body i, id_state = it_state i, id_state_raw = it_state_raw i,
           id_state_reason = it_state_reason i, id_is_draft = it_is_draft i, id_author = it_author i,
           id_created_at = it_created_at i, id_updated_at = it_updated_at i, id_closed_at = it_closed_at i,
           id_merged_at = it_merged_at i, id_labels = map toLabelDTO labels,
           id_review_state = it_review_state i, id_ci_state = it_ci_state i, id_merge_state = it_merge_state i,
           id_review_threads =
             map_option (\<lambda>total. (or_else (it_open_review_threads i) 0, total)) (it_total_review_threads i),
           id_comments = it_comment_total i, id_milestone = it_milestone i, id_demand = it_demand i,
           id_last_seen_at = ir_last_seen_at row, id_window_reasons = None\<rparr>))"

record edge_dto =
  dg_type :: edge_type
  dg_from :: string
  dg_to :: string
  dg_from_state :: "item_state option"
  dg_to_state :: "item_state option"
  dg_lifecycle :: "edge_lifecycle option"

definition toEdgeDTO :: "reconciled_edge \<Rightarrow> edge_dto result" where
  "toEdgeDTO row =
     rbind (refOf (ep_source (ed_from row)) (ep_external (ed_from row))) (\<lambda>from.
     rbind (refOf (ep_source (ed_to row)) (ep_external (ed_to row))) (\<lambda>to.
     Inr \<lparr>dg_type = ed_type row, dg_from = from, dg_to = to, dg_from_state = ed_from_state row,
          dg_to_state = ed_to_state row, dg_lifecycle = re_lifecycle row\<rparr>))"

section \<open>Activities\<close>

record activity_dto =
  da_source_id :: string
  da_external_id :: string
  da_kind :: string
  da_action :: string
  da_project_path :: "string option"
  da_target_kind :: "string option"
  da_target_ref :: "string option"
  da_target_iid :: "int option"
  da_title :: "string option"
  da_url :: "string option"
  da_actor :: "string option"
  da_occurred_at :: string
  da_details :: "(string \<times> json) list option"
  da_first_seen_at :: string
  da_last_seen_at :: string

definition parseDetails :: "json_text option \<Rightarrow> (string \<times> json) list option" where
  "parseDetails raw =
     (case raw of
        None \<Rightarrow> None
      | Some t \<Rightarrow> (case json_parse t of Some (JObj ms) \<Rightarrow> Some ms | _ \<Rightarrow> None))"

definition toActivityDTO :: "activity_row \<Rightarrow> activity_dto result" where
  "toActivityDTO row =
     (let a = av_activity row in
      rbind (case ac_target a of
               None \<Rightarrow> Inr None
             | Some e \<Rightarrow>
                 if ep_source e \<noteq> [] \<and> ep_external e \<noteq> []
                 then rbind (refOf (ep_source e) (ep_external e)) (\<lambda>r. Inr (Some r)) else Inr None)
        (\<lambda>target_ref.
      Inr \<lparr>da_source_id = ac_source a, da_external_id = ac_external a, da_kind = ac_kind a,
           da_action = ac_action a, da_project_path = ac_project_path a, da_target_kind = ac_target_kind a,
           da_target_ref = target_ref, da_target_iid = ac_target_iid a, da_title = ac_title a,
           da_url = ac_url a, da_actor = ac_actor a, da_occurred_at = ac_occurred_at a,
           da_details = parseDetails (av_details row), da_first_seen_at = av_first_seen_at row,
           da_last_seen_at = av_last_seen_at row\<rparr>))"

definition sortActivitiesByInstantDesc :: "activity_dto list \<Rightarrow> activity_dto list" where
  "sortActivitiesByInstantDesc =
     js_sort (\<lambda>a b. compareTimestampDesc (Some (da_occurred_at a)) (Some (da_occurred_at b)))"

section \<open>Review threads\<close>

text \<open>What the store writes to \<open>comments_json\<close>.\<close>

definition nullable :: "string option \<Rightarrow> json" where
  "nullable v = (case v of None \<Rightarrow> JNull | Some s \<Rightarrow> JStr s)"

definition comment_json :: "review_thread_comment \<Rightarrow> json" where
  "comment_json c =
     JObj [(''id'', JStr (rc_id c)), (''author'', nullable (rc_author c)), (''avatarUrl'', nullable (rc_avatar_url c)),
           (''body'', nullable (rc_body c)), (''url'', nullable (rc_url c)),
           (''createdAt'', nullable (rc_created_at c)), (''updatedAt'', nullable (rc_updated_at c))]"

definition comments_json :: "review_thread \<Rightarrow> json_text" where
  "comments_json t = json_stringify (JArr (map comment_json (rt_comments t)))"

definition str_member :: "(string \<times> json) list \<Rightarrow> string \<Rightarrow> string option" where
  "str_member ms k = (case obj_get ms k of Some (JStr s) \<Rightarrow> Some s | _ \<Rightarrow> None)"

definition comment_of_json :: "json \<Rightarrow> review_thread_comment option" where
  "comment_of_json j =
     (case j of
        JObj ms \<Rightarrow>
          map_option (\<lambda>i.
            \<lparr>rc_id = i, rc_author = str_member ms ''author'',
             rc_avatar_url = nullish (str_member ms ''avatarUrl'') (str_member ms ''avatar_url''),
             rc_body = str_member ms ''body'', rc_url = str_member ms ''url'',
             rc_created_at = nullish (str_member ms ''createdAt'') (str_member ms ''created_at''),
             rc_updated_at = nullish (str_member ms ''updatedAt'') (str_member ms ''updated_at'')\<rparr>)
            (str_member ms ''id'')
      | _ \<Rightarrow> None)"

definition parseReviewThreadComments :: "json_text \<Rightarrow> review_thread_comment list" where
  "parseReviewThreadComments raw =
     (case json_parse raw of
        Some (JArr js) \<Rightarrow> List.map_filter comment_of_json js
      | _ \<Rightarrow> [])"

record thread_dto =
  rd_id :: string
  rd_source_id :: string
  rd_external_id :: string
  rd_project_path :: "string option"
  rd_target_ref :: string
  rd_target_iid :: "int option"
  rd_title :: "string option"
  rd_url :: "string option"
  rd_is_resolved :: bool
  rd_is_outdated :: "bool option"
  rd_resolved_by :: "string option"
  rd_path :: "string option"
  rd_line :: "int option"
  rd_start_line :: "int option"
  rd_comments_total :: int
  rd_comments :: "review_thread_comment list"
  rd_last_comment_at :: "string option"
  rd_last_seen_at :: string

definition toReviewThreadDTO :: "thread_row \<Rightarrow> thread_dto result" where
  "toReviewThreadDTO row =
     (let t = tw_thread row in
      rbind (refOf (rt_source t) (rt_external t)) (\<lambda>ref.
      rbind (refOf (ep_source (rt_target t)) (ep_external (rt_target t))) (\<lambda>target.
      Inr \<lparr>rd_id = ref, rd_source_id = rt_source t, rd_external_id = rt_external t,
           rd_project_path = rt_project_path t, rd_target_ref = target, rd_target_iid = rt_target_iid t,
           rd_title = rt_title t, rd_url = rt_url t, rd_is_resolved = rt_is_resolved t,
           rd_is_outdated = rt_is_outdated t, rd_resolved_by = rt_resolved_by t, rd_path = rt_path t,
           rd_line = rt_line t, rd_start_line = rt_start_line t, rd_comments_total = rt_comments_total t,
           rd_comments = parseReviewThreadComments (comments_json t),
           rd_last_comment_at = rt_last_comment_at t, rd_last_seen_at = tw_last_seen_at row\<rparr>)))"

definition thread_dto_order :: "(string \<Rightarrow> string \<Rightarrow> int) \<Rightarrow> thread_dto \<Rightarrow> thread_dto \<Rightarrow> int" where
  "thread_dto_order lc =
     then_by (by_key rd_is_resolved)
       (then_by (by_collation lc (\<lambda>t. or_else (rd_project_path t) []))
         (then_by (\<lambda>a b. or_else (rd_target_iid b) 0 - or_else (rd_target_iid a) 0)
           (then_by (by_collation lc (\<lambda>t. or_else (rd_path t) []))
             (descending (by_collation lc rd_last_seen_at)))))"

definition reviewThreadsForItems ::
  "(string \<Rightarrow> string \<Rightarrow> int) \<Rightarrow> thread_dto list \<Rightarrow> item_dto list \<Rightarrow> thread_dto list"
where
  "reviewThreadsForItems lc rows items =
     (let emittedTargets = set (map id_id items) in
      js_sort (thread_dto_order lc) (filter (\<lambda>t. rd_target_ref t \<in> emittedTargets) rows))"

section \<open>Sources and configured repositories\<close>

record source_dto =
  sx_source_id :: string
  sx_kind :: string
  sx_host :: string
  sx_display_name :: "string option"
  sx_last_success_at :: "string option"
  sx_last_status :: "run_status option"
  sx_color :: "string option"

definition toSourceDTO :: "(string, string) jsmap \<Rightarrow> string \<times> source_row \<times> state_row option \<Rightarrow> source_dto" where
  "toSourceDTO sourceColors row =
     (case row of (sid, s, st) \<Rightarrow>
        \<lparr>sx_source_id = sid, sx_kind = so_kind s, sx_host = so_host s, sx_display_name = so_display_name s,
         sx_last_success_at = Option.bind st ss_last_success_at, sx_last_status = Option.bind st ss_last_status,
         sx_color = jm_get sourceColors sid\<rparr>)"

type_synonym repo_ref = "string \<times> string"
type_synonym repo_key_t = "string \<times> string option"

definition repoKey :: "string \<Rightarrow> string option \<Rightarrow> repo_key_t" where
  "repoKey sourceId projectPath = (sourceId, projectPath)"

definition configuredRepoKeySet :: "repo_ref list option \<Rightarrow> repo_key_t list option" where
  "configuredRepoKeySet refs = map_option (\<lambda>rs. js_set_of (map (\<lambda>r. repoKey (fst r) (Some (snd r))) rs)) refs"

definition configuredSourceIdSet :: "repo_ref list option \<Rightarrow> string list option" where
  "configuredSourceIdSet refs = map_option (\<lambda>rs. js_set_of (map fst rs)) refs"

definition allowed :: "'k list option \<Rightarrow> 'k \<Rightarrow> bool" where
  "allowed s k = (case s of None \<Rightarrow> True | Some ks \<Rightarrow> k \<in> set ks)"

record repo_dto =
  rp_source_id :: string
  rp_project_path :: string
  rp_color :: string

section \<open>Activity targets\<close>

definition kind_name :: "item_kind \<Rightarrow> string" where
  "kind_name k = (case k of Issue \<Rightarrow> ''issue'' | Change_Request \<Rightarrow> ''change_request'' | Other_Kind s \<Rightarrow> s)"

type_synonym number_key = "string \<times> string \<times> string \<times> int"

definition items_by_id :: "item_dto list \<Rightarrow> (string, item_dto) jsmap" where
  "items_by_id items = fold (\<lambda>i. jm_set (id_id i) i) items jm_empty"

definition number_key_of :: "item_dto \<Rightarrow> number_key option" where
  "number_key_of i =
     (case (id_iid i, id_project_path i) of
        (Some n, Some p) \<Rightarrow> if p = [] then None else Some (id_source_id i, p, kind_name (id_kind i), n)
      | _ \<Rightarrow> None)"

definition add_number :: "item_dto \<Rightarrow> (number_key, item_dto option) jsmap \<Rightarrow> (number_key, item_dto option) jsmap" where
  "add_number i m =
     (case number_key_of i of
        None \<Rightarrow> m
      | Some k \<Rightarrow> jm_set k (if jm_has m k then None else Some i) m)"

definition items_by_number :: "item_dto list \<Rightarrow> (number_key, item_dto option) jsmap" where
  "items_by_number items = fold add_number items jm_empty"

definition truthy_text :: "string option \<Rightarrow> string option" where
  "truthy_text v = (if v = Some [] then None else v)"

definition activity_number_key :: "activity_dto \<Rightarrow> number_key option" where
  "activity_number_key a =
     (case (truthy_text (da_target_ref a), da_target_kind a, da_target_iid a, truthy_text (da_project_path a)) of
        (None, Some k, Some n, Some p) \<Rightarrow>
          if k = ''issue'' \<or> k = ''change_request'' then Some (da_source_id a, p, k, n) else None
      | _ \<Rightarrow> None)"

definition resolve_target ::
  "(string, item_dto) jsmap \<Rightarrow> (number_key, item_dto option) jsmap \<Rightarrow> activity_dto \<Rightarrow> activity_dto"
where
  "resolve_target byId byNumber a =
     (let named = Option.bind (truthy_text (da_target_ref a)) (jm_get byId);
          (target, target_ref) =
            (case activity_number_key a of
               None \<Rightarrow> (named, da_target_ref a)
             | Some k \<Rightarrow>
                 (case Option.bind (jm_get byNumber k) (\<lambda>v. v) of
                    Some i \<Rightarrow> (Some i, Some (id_id i))
                  | None \<Rightarrow> (None, da_target_ref a)))
      in a\<lparr>da_target_ref := target_ref, da_title := nullish (da_title a) (Option.bind target id_title)\<rparr>)"

definition resolveActivityTargets :: "activity_dto list \<Rightarrow> item_dto list \<Rightarrow> activity_dto list" where
  "resolveActivityTargets activities items = map (resolve_target (items_by_id items) (items_by_number items)) activities"

section \<open>All rows\<close>

record build_input =
  bi_sources :: "(string \<times> source_row \<times> state_row option) list"
  bi_items :: "item_row list"
  bi_labels :: "label_row list"
  bi_edges :: "reconciled_edge list"
  bi_activities :: "activity_row list"
  bi_review_threads :: "thread_row list"
  bi_generated_at :: string
  bi_source_colors :: "(string, string) jsmap"
  bi_repo_colors :: "repo_dto list"
  bi_configured_repos :: "repo_ref list option"
  bi_full_window :: bool

record mapped_rows =
  mr_sources :: "source_dto list"
  mr_items :: "item_dto list"
  mr_edges :: "edge_dto list"
  mr_activities :: "activity_dto list"
  mr_review_threads :: "thread_dto list"
  mr_repos :: "repo_dto list"

definition labels_by_item :: "label_row list \<Rightarrow> (nat, label_row list) jsmap" where
  "labels_by_item labels = fold (\<lambda>l m. jm_set (fst l) (or_else (jm_get m (fst l)) [] @ [l]) m) labels jm_empty"

definition repo_allowed :: "build_input \<Rightarrow> string \<Rightarrow> string option \<Rightarrow> bool" where
  "repo_allowed inp sourceId projectPath =
     allowed (configuredRepoKeySet (bi_configured_repos inp)) (repoKey sourceId projectPath)"

definition source_allowed :: "build_input \<Rightarrow> string \<Rightarrow> bool" where
  "source_allowed inp sourceId = allowed (configuredSourceIdSet (bi_configured_repos inp)) sourceId"

definition source_gated_edges :: "build_input \<Rightarrow> reconciled_edge list" where
  "source_gated_edges inp =
     filter (\<lambda>e. source_allowed inp (ep_source (ed_from e)) \<and> source_allowed inp (ep_source (ed_to e))) (bi_edges inp)"

definition dropped_item_ids :: "build_input \<Rightarrow> item_dto list \<Rightarrow> string list" where
  "dropped_item_ids inp mappedItems =
     map id_id (filter (\<lambda>i. \<not> repo_allowed inp (id_source_id i) (id_project_path i)) mappedItems)"

definition mapRows :: "build_input \<Rightarrow> mapped_rows result" where
  "mapRows inp =
     (let labelsByItem = labels_by_item (bi_labels inp) in
      rbind (mapM (\<lambda>r. toItemDTO r (or_else (jm_get labelsByItem (ir_item_id r)) [])) (bi_items inp)) (\<lambda>mappedItems.
      let items = filter (\<lambda>i. repo_allowed inp (id_source_id i) (id_project_path i)) mappedItems;
          dropped = set (dropped_item_ids inp mappedItems) in
      rbind (mapM toEdgeDTO (source_gated_edges inp)) (\<lambda>mappedEdges.
      let edges = filter (\<lambda>e. dg_from e \<notin> dropped \<and> dg_to e \<notin> dropped) mappedEdges in
      rbind (mapM toActivityDTO (bi_activities inp)) (\<lambda>mappedActivities.
      let activities =
            resolveActivityTargets
              (sortActivitiesByInstantDesc
                (filter (\<lambda>a. repo_allowed inp (da_source_id a) (da_project_path a)) mappedActivities))
              items;
          sources = filter (\<lambda>s. source_allowed inp (sx_source_id s))
                      (map (toSourceDTO (bi_source_colors inp)) (bi_sources inp)) in
      rbind (mapM toReviewThreadDTO (bi_review_threads inp)) (\<lambda>reviewThreads.
      Inr \<lparr>mr_sources = sources, mr_items = items, mr_edges = edges, mr_activities = activities,
           mr_review_threads = reviewThreads,
           mr_repos = filter (\<lambda>r. repo_allowed inp (rp_source_id r) (Some (rp_project_path r))) (bi_repo_colors inp)\<rparr>)))))"

section \<open>What the mapping keeps\<close>

lemma mapM_filter_map:
  assumes "mapM f xs = Inr ys" and "\<And>x y. f x = Inr y \<Longrightarrow> P y = Q x \<and> g y = h x"
  shows "map g (filter P ys) = map h (filter Q xs)"
  using assms(1) unfolding mapM_Inr_iff
  by (induction rule: list_all2_induct) (use assms(2) in auto)

definition row_ref :: "item_row \<Rightarrow> string" where
  "row_ref r = it_source (ir_item r) @ ''|'' @ it_external (ir_item r)"

definition endpoint_ref :: "endpoint \<Rightarrow> string" where
  "endpoint_ref e = ep_source e @ ''|'' @ ep_external e"

lemma refOf_InrD: "refOf s e = Inr r \<Longrightarrow> r = s @ ''|'' @ e"
  by (simp add: refOf_Inr_iff)

lemma toItemDTO_fields:
  assumes "toItemDTO row labels = Inr d"
  shows "id_id d = row_ref row \<and> id_source_id d = it_source (ir_item row) \<and>
    id_project_path d = it_project_path (ir_item row) \<and> id_updated_at d = it_updated_at (ir_item row)"
  using assms by (auto simp: toItemDTO_def Let_def row_ref_def refOf_Inr_iff)

lemma toEdgeDTO_fields:
  assumes "toEdgeDTO row = Inr d"
  shows "dg_type d = ed_type row \<and> dg_from d = endpoint_ref (ed_from row) \<and> dg_to d = endpoint_ref (ed_to row)"
  using assms by (auto simp: toEdgeDTO_def endpoint_ref_def refOf_Inr_iff)

lemma toActivityDTO_fields:
  assumes "toActivityDTO row = Inr d"
  shows "da_source_id d = ac_source (av_activity row) \<and> da_external_id d = ac_external (av_activity row) \<and>
    da_occurred_at d = ac_occurred_at (av_activity row) \<and> da_project_path d = ac_project_path (av_activity row)"
  using assms by (auto simp: toActivityDTO_def Let_def split: option.splits if_splits)

lemma mapRows_Inr:
  assumes "mapRows inp = Inr m"
  obtains its es as' ts where
    "mapM (\<lambda>r. toItemDTO r (or_else (jm_get (labels_by_item (bi_labels inp)) (ir_item_id r)) [])) (bi_items inp) = Inr its"
    and "mapM toEdgeDTO (source_gated_edges inp) = Inr es" and "mapM toActivityDTO (bi_activities inp) = Inr as'"
    and "mapM toReviewThreadDTO (bi_review_threads inp) = Inr ts" and "mr_review_threads m = ts"
    and "mr_items m = filter (\<lambda>i. repo_allowed inp (id_source_id i) (id_project_path i)) its"
    and "mr_edges m = filter (\<lambda>e. dg_from e \<notin> set (dropped_item_ids inp its) \<and> dg_to e \<notin> set (dropped_item_ids inp its)) es"
    and "mr_activities m = resolveActivityTargets (sortActivitiesByInstantDesc
            (filter (\<lambda>a. repo_allowed inp (da_source_id a) (da_project_path a)) as')) (mr_items m)"
  using assms by (auto simp: mapRows_def Let_def)

text \<open>
  The gate, on the configuration and the rows of the store: a row of a repository that is not configured, an
  edge with an endpoint in a source that is not configured, and an edge that touches a loaded item of a
  repository that is not configured, are left out.
\<close>

definition in_config :: "repo_ref list option \<Rightarrow> string \<Rightarrow> string option \<Rightarrow> bool" where
  "in_config refs source path \<longleftrightarrow>
     (case refs of None \<Rightarrow> True | Some rs \<Rightarrow> (case path of None \<Rightarrow> False | Some p \<Rightarrow> (source, p) \<in> set rs))"

definition source_in_config :: "repo_ref list option \<Rightarrow> string \<Rightarrow> bool" where
  "source_in_config refs source \<longleftrightarrow> (case refs of None \<Rightarrow> True | Some rs \<Rightarrow> \<exists>(s, p) \<in> set rs. s = source)"

definition configured_row :: "build_input \<Rightarrow> item_row \<Rightarrow> bool" where
  "configured_row inp r = in_config (bi_configured_repos inp) (it_source (ir_item r)) (it_project_path (ir_item r))"

definition configured_edge :: "build_input \<Rightarrow> reconciled_edge \<Rightarrow> bool" where
  "configured_edge inp e \<longleftrightarrow>
     source_in_config (bi_configured_repos inp) (ep_source (ed_from e))
     \<and> source_in_config (bi_configured_repos inp) (ep_source (ed_to e))
     \<and> (\<forall>r\<in>set (bi_items inp). \<not> configured_row inp r \<longrightarrow>
          endpoint_ref (ed_from e) \<noteq> row_ref r \<and> endpoint_ref (ed_to e) \<noteq> row_ref r)"

definition configured_activity :: "build_input \<Rightarrow> activity_row \<Rightarrow> bool" where
  "configured_activity inp r =
     in_config (bi_configured_repos inp) (ac_source (av_activity r)) (ac_project_path (av_activity r))"

text \<open>Newest first; an instant that cannot be read comes after all others.\<close>

definition instant :: "activity_row \<Rightarrow> int option" where
  "instant r = date_parse (ac_occurred_at (av_activity r))"

definition not_before :: "activity_row \<Rightarrow> activity_row \<Rightarrow> bool" where
  "not_before r s \<longleftrightarrow> (case instant s of None \<Rightarrow> True | Some b \<Rightarrow> (case instant r of None \<Rightarrow> False | Some a \<Rightarrow> b \<le> a))"

lemma repo_allowed_iff: "repo_allowed inp source path \<longleftrightarrow> in_config (bi_configured_repos inp) source path"
  by (force simp: repo_allowed_def allowed_def configuredRepoKeySet_def repoKey_def in_config_def split: option.split)

lemma source_allowed_iff: "source_allowed inp source \<longleftrightarrow> source_in_config (bi_configured_repos inp) source"
  by (force simp: source_allowed_def allowed_def configuredSourceIdSet_def source_in_config_def split: option.split)

lemma js_sort_related:
  assumes "list_all2 R xs ys" and same: "\<And>x y x' y'. R x y \<Longrightarrow> R x' y' \<Longrightarrow> cmp x x' = cmp' y y'"
  shows "list_all2 R (js_sort cmp xs) (js_sort cmp' ys)"
proof -
  have ins: "list_all2 R xs ys \<Longrightarrow> R x y \<Longrightarrow> list_all2 R (ins_by cmp x xs) (ins_by cmp' y ys)" for x y xs ys
    by (induction rule: list_all2_induct) (auto simp: same)
  from assms(1) show ?thesis by (induction rule: list_all2_induct) (simp_all add: js_sort_Cons ins)
qed

lemma filter_related: "list_all2 R xs ys \<Longrightarrow> (\<And>x y. R x y \<Longrightarrow> P x = Q y) \<Longrightarrow> list_all2 R (filter P xs) (filter Q ys)"
  by (induction rule: list_all2_induct) auto

text \<open>The published activities are the configured rows in that order, those of one instant as the store has them.\<close>

lemma activity_rows:
  assumes "mapM toActivityDTO rows = Inr ds"
  obtains shown where
    "sorted_wrt not_before shown"
    "\<forall>t. filter (\<lambda>r. t = instant r) shown = filter (\<lambda>r. t = instant r) (filter (configured_activity inp) rows)"
    "list_all2 (\<lambda>r d. toActivityDTO r = Inr d) shown
       (sortActivitiesByInstantDesc (filter (\<lambda>a. repo_allowed inp (da_source_id a) (da_project_path a)) ds))"
proof -
  let ?at = "\<lambda>r. Some (ac_occurred_at (av_activity r))"
  define kept where "kept = filter (configured_activity inp) rows"
  define shown where "shown = js_sort (\<lambda>a b. compareTimestampDesc (?at a) (?at b)) kept"
  have "list_all2 (\<lambda>r d. toActivityDTO r = Inr d) rows ds" using assms by (simp add: mapM_Inr_iff)
  then have "list_all2 (\<lambda>r d. toActivityDTO r = Inr d) kept (filter (\<lambda>a. repo_allowed inp (da_source_id a) (da_project_path a)) ds)"
    unfolding kept_def configured_activity_def repo_allowed_iff
    by (rule filter_related) (auto dest: toActivityDTO_fields)
  then have related: "list_all2 (\<lambda>r d. toActivityDTO r = Inr d) shown
      (sortActivitiesByInstantDesc (filter (\<lambda>a. repo_allowed inp (da_source_id a) (da_project_path a)) ds))"
    unfolding shown_def sortActivitiesByInstantDesc_def
    by (rule js_sort_related) (simp add: toActivityDTO_fields)
  have compare: "compareTimestampDesc (?at a) (?at b) \<le> 0 \<longleftrightarrow> not_before a b"
    "compareTimestampDesc (?at a) (?at b) = 0 \<longleftrightarrow> instant a = instant b" for a b
    by (auto simp: compareTimestampDesc_def timestampMs_def not_before_def instant_def split: option.splits)
  have "sorted_wrt not_before shown"
    using comparator.sorted_js_sort [OF comparator_timestamp [of ?at], of kept] by (simp add: shown_def compare(1))
  moreover have "filter (\<lambda>r. t = instant r) shown = filter (\<lambda>r. t = instant r) kept" for t
  proof (cases "\<exists>z \<in> set kept. t = instant z")
    case True
    then obtain z where "t = instant z" by blast
    then show ?thesis
      using comparator.stable_js_sort [OF comparator_timestamp [of ?at], of kept z]
      by (simp add: shown_def compare(2))
  next
    case False
    then show ?thesis by (auto simp: shown_def filter_empty_conv intro!: trans [OF _ sym])
  qed
  ultimately show thesis using that related by (simp add: kept_def)
qed

lemma dropped_refs:
  assumes "mapM (\<lambda>r. toItemDTO r (labels r)) (bi_items inp) = Inr its"
  shows "dropped_item_ids inp its = map row_ref (filter (\<lambda>r. \<not> configured_row inp r) (bi_items inp))"
  unfolding dropped_item_ids_def configured_row_def repo_allowed_iff
  by (rule mapM_filter_map [OF assms]) (auto dest: toItemDTO_fields)

lemma gated_sources_repos:
  assumes "mapRows inp = Inr m"
  shows "map sx_source_id (mr_sources m) = filter (source_in_config (bi_configured_repos inp)) (map fst (bi_sources inp))"
    and "mr_repos m = filter (\<lambda>r. in_config (bi_configured_repos inp) (rp_source_id r) (Some (rp_project_path r))) (bi_repo_colors inp)"
proof -
  have "map sx_source_id (filter (\<lambda>s. source_allowed inp (sx_source_id s)) (map (toSourceDTO colors) rows)) =
      filter (source_in_config (bi_configured_repos inp)) (map fst rows)" for colors rows
    by (induction rows) (auto simp: source_allowed_iff toSourceDTO_def split: prod.splits)
  then show "map sx_source_id (mr_sources m) = filter (source_in_config (bi_configured_repos inp)) (map fst (bi_sources inp))"
    using assms by (auto simp: mapRows_def Let_def)
  show "mr_repos m = filter (\<lambda>r. in_config (bi_configured_repos inp) (rp_source_id r) (Some (rp_project_path r))) (bi_repo_colors inp)"
    using assms by (auto simp: mapRows_def Let_def repo_allowed_iff)
qed

lemma map_resolve_source: "map da_source_id (resolveActivityTargets as' its) = map da_source_id as'"
  by (simp add: resolveActivityTargets_def resolve_target_def Let_def split_beta)

lemma resolve_keeps:
  "map (\<lambda>a. (da_source_id a, da_external_id a)) (resolveActivityTargets as' its) =
   map (\<lambda>a. (da_source_id a, da_external_id a)) as'"
  by (simp add: resolveActivityTargets_def resolve_target_def Let_def split_beta)

text \<open>
  Claim C17. The projection publishes exactly the configured part of the store: the items, edges, sources and
  repositories are those the configuration names, in their order, and the activities those of the configured
  repositories, newest first, an unreadable instant last, and those of one instant in the order of the store.
\<close>

theorem configuration_gate_exact:
  assumes "mapRows inp = Inr m"
  shows "map id_id (mr_items m) = map row_ref (filter (configured_row inp) (bi_items inp))
    \<and> map (\<lambda>e. (dg_type e, dg_from e, dg_to e)) (mr_edges m) =
        map (\<lambda>e. (ed_type e, endpoint_ref (ed_from e), endpoint_ref (ed_to e))) (filter (configured_edge inp) (bi_edges inp))
    \<and> map sx_source_id (mr_sources m) = filter (source_in_config (bi_configured_repos inp)) (map fst (bi_sources inp))
    \<and> mr_repos m = filter (\<lambda>r. in_config (bi_configured_repos inp) (rp_source_id r) (Some (rp_project_path r))) (bi_repo_colors inp)
    \<and> (\<exists>shown. sorted_wrt not_before shown
        \<and> (\<forall>t. filter (\<lambda>r. t = instant r) shown = filter (\<lambda>r. t = instant r) (filter (configured_activity inp) (bi_activities inp)))
        \<and> map (\<lambda>a. (da_source_id a, da_external_id a)) (mr_activities m) =
            map (\<lambda>r. (ac_source (av_activity r), ac_external (av_activity r))) shown)"
  using assms
proof (rule mapRows_Inr)
  fix its es as' ts
  assume its: "mapM (\<lambda>r. toItemDTO r (or_else (jm_get (labels_by_item (bi_labels inp)) (ir_item_id r)) [])) (bi_items inp) = Inr its"
    and es: "mapM toEdgeDTO (source_gated_edges inp) = Inr es" and as': "mapM toActivityDTO (bi_activities inp) = Inr as'"
    and items: "mr_items m = filter (\<lambda>i. repo_allowed inp (id_source_id i) (id_project_path i)) its"
    and edges: "mr_edges m = filter (\<lambda>e. dg_from e \<notin> set (dropped_item_ids inp its) \<and> dg_to e \<notin> set (dropped_item_ids inp its)) es"
    and acts: "mr_activities m = resolveActivityTargets (sortActivitiesByInstantDesc
            (filter (\<lambda>a. repo_allowed inp (da_source_id a) (da_project_path a)) as')) (mr_items m)"
  have 1: "map id_id (mr_items m) = map row_ref (filter (configured_row inp) (bi_items inp))"
    unfolding items configured_row_def repo_allowed_iff
    by (rule mapM_filter_map [OF its]) (auto dest: toItemDTO_fields)
  have "map (\<lambda>e. (dg_type e, dg_from e, dg_to e)) (mr_edges m) =
      map (\<lambda>e. (ed_type e, endpoint_ref (ed_from e), endpoint_ref (ed_to e)))
        (filter (\<lambda>e. endpoint_ref (ed_from e) \<notin> set (dropped_item_ids inp its) \<and>
           endpoint_ref (ed_to e) \<notin> set (dropped_item_ids inp its)) (source_gated_edges inp))"
    unfolding edges by (rule mapM_filter_map [OF es]) (auto dest: toEdgeDTO_fields)
  moreover have "filter (\<lambda>e. endpoint_ref (ed_from e) \<notin> set (dropped_item_ids inp its) \<and>
      endpoint_ref (ed_to e) \<notin> set (dropped_item_ids inp its)) (source_gated_edges inp)
    = filter (configured_edge inp) (bi_edges inp)"
    unfolding source_gated_edges_def dropped_refs [OF its] filter_filter source_allowed_iff
    by (rule filter_cong [OF refl]) (auto simp: configured_edge_def)
  ultimately have 2: "map (\<lambda>e. (dg_type e, dg_from e, dg_to e)) (mr_edges m) =
      map (\<lambda>e. (ed_type e, endpoint_ref (ed_from e), endpoint_ref (ed_to e))) (filter (configured_edge inp) (bi_edges inp))"
    by simp
  obtain shown where shown: "sorted_wrt not_before shown"
      "\<forall>t. filter (\<lambda>r. t = instant r) shown = filter (\<lambda>r. t = instant r) (filter (configured_activity inp) (bi_activities inp))"
      "list_all2 (\<lambda>r d. toActivityDTO r = Inr d) shown
         (sortActivitiesByInstantDesc (filter (\<lambda>a. repo_allowed inp (da_source_id a) (da_project_path a)) as'))"
    by (rule activity_rows [OF as'])
  have "map (\<lambda>a. (da_source_id a, da_external_id a)) (mr_activities m) =
      map (\<lambda>r. (ac_source (av_activity r), ac_external (av_activity r))) shown"
    unfolding acts resolve_keeps using shown(3)
    by (induction rule: list_all2_induct) (auto dest: toActivityDTO_fields)
  moreover have "map sx_source_id (mr_sources m) = filter (source_in_config (bi_configured_repos inp)) (map fst (bi_sources inp))"
    "mr_repos m = filter (\<lambda>r. in_config (bi_configured_repos inp) (rp_source_id r) (Some (rp_project_path r))) (bi_repo_colors inp)"
    using gated_sources_repos [OF assms] by simp_all
  ultimately show ?thesis using 1 2 shown(1,2) by blast
qed

section \<open>Comments and targets\<close>

lemma str_member_simps:
  "str_member [] k = None"
  "str_member (ms @ [(k', v)]) k = (if k' = k then (case v of JStr s \<Rightarrow> Some s | _ \<Rightarrow> None) else str_member ms k)"
  by (simp_all add: str_member_def obj_get_def)

lemma comment_of_json [simp]: "comment_of_json (comment_json c) = Some c"
proof -
  have str: "(case nullable v of JStr s \<Rightarrow> Some s | _ \<Rightarrow> None) = v" for v
    by (cases v) (simp_all add: nullable_def)
  show ?thesis
    by (simp add: comment_json_def comment_of_json_def str_member_def obj_get_def find_last_Cons str
        split: option.splits)
qed

text \<open>
  Claim C18. The comments of a review thread come back from the store as they were written.
\<close>

theorem review_comments_roundtrip: "parseReviewThreadComments (comments_json t) = rt_comments t"
proof -
  have "List.map_filter comment_of_json (map comment_json cs) = cs" for cs
    by (induction cs) (simp_all add: List.map_filter_simps)
  then show ?thesis by (simp add: parseReviewThreadComments_def comments_json_def)
qed

lemma items_by_number_get:
  "jm_get (items_by_number items) k =
     (case filter (\<lambda>i. number_key_of i = Some k) items of [] \<Rightarrow> None | [i] \<Rightarrow> Some (Some i) | _ \<Rightarrow> Some None)"
proof (induction items rule: rev_induct)
  case Nil
  then show ?case by (simp add: items_by_number_def jsmap_simps)
next
  case (snoc i items)
  have step: "items_by_number (items @ [i]) = add_number i (items_by_number items)"
    by (simp add: items_by_number_def)
  show ?case
  proof (cases "number_key_of i = Some k")
    case True
    then show ?thesis using snoc
      by (auto simp: step add_number_def jsmap_simps jm_has_def split: list.splits option.splits)
  next
    case False
    then show ?thesis using snoc
      by (cases "number_key_of i") (auto simp: step add_number_def jsmap_simps)
  qed
qed

text \<open>
  A row without a target of its own gets the one item that has its repository, kind and
  number; when no such item or more than one is live, and on every other row, the target is left as
  it is.
\<close>

theorem activity_targets_are_unique:
  "map da_target_ref (resolveActivityTargets activities items) =
     map (\<lambda>a. case activity_number_key a of
               None \<Rightarrow> da_target_ref a
             | Some k \<Rightarrow> (case filter (\<lambda>i. number_key_of i = Some k) items of
                          [i] \<Rightarrow> Some (id_id i)
                        | _ \<Rightarrow> da_target_ref a)) activities"
proof -
  have "da_target_ref (resolve_target (items_by_id items) (items_by_number items) a) =
      (case activity_number_key a of
         None \<Rightarrow> da_target_ref a
       | Some k \<Rightarrow> (case filter (\<lambda>i. number_key_of i = Some k) items of
                    [i] \<Rightarrow> Some (id_id i)
                  | _ \<Rightarrow> da_target_ref a))" for a
    by (cases "activity_number_key a")
      (auto simp: resolve_target_def Let_def items_by_number_get split: list.splits)
  then show ?thesis by (simp add: resolveActivityTargets_def)
qed

section \<open>A sample store\<close>

definition sample_row :: "nat \<Rightarrow> string \<Rightarrow> string \<Rightarrow> string \<Rightarrow> item_row" where
  "sample_row n external path updated =
     \<lparr>ir_item_id = n,
      ir_item = \<lparr>it_source = ''gh'', it_external = external, it_kind = Issue, it_project_path = Some path,
        it_iid = Some (int n), it_url = [], it_title = Some external, it_body = None, it_state = Open,
        it_state_raw = None, it_state_reason = None, it_is_draft = None, it_author = None,
        it_created_at = None, it_updated_at = Some updated, it_closed_at = None, it_merged_at = None,
        it_review_state = None, it_ci_state = None, it_merge_state = None, it_open_review_threads = None,
        it_total_review_threads = None, it_comment_total = None, it_milestone = None, it_demand = None\<rparr>,
      ir_normalized_with = [], ir_last_seen_at = updated, ir_deleted_at = None\<rparr>"

definition sample_edge :: "edge_type \<Rightarrow> string \<Rightarrow> string \<Rightarrow> reconciled_edge" where
  "sample_edge type from to =
     \<lparr>ed_type = type, ed_from = \<lparr>ep_source = ''gh'', ep_external = from\<rparr>,
      ed_to = \<lparr>ep_source = ''gh'', ep_external = to\<rparr>, ed_from_state = None, ed_to_state = None,
      re_lifecycle = None, re_discovered_from = Side Neither\<rparr>"

definition sample_input :: build_input where
  "sample_input =
     \<lparr>bi_sources = [], bi_items = [sample_row 1 ''a'' ''o/r'' ''2025-01-10T00:00:00.000Z'',
        sample_row 2 ''b'' ''o/r'' ''2024-01-01T00:00:00.000Z'', sample_row 3 ''c'' ''o/gone'' ''2025-01-10T00:00:00.000Z''],
      bi_labels = [(2, \<lparr>lb_name = TRACKING_LABEL, lb_scope = None, lb_color = None\<rparr>)],
      bi_edges = [sample_edge Blocks ''a'' ''b'', sample_edge Relates ''a'' ''c'', sample_edge Parent ''b'' ''d''],
      bi_activities = [], bi_review_threads = [], bi_generated_at = ''2025-01-15T00:00:00.000Z'',
      bi_source_colors = [], bi_repo_colors = [], bi_configured_repos = Some [(''gh'', ''o/r'')], bi_full_window = False\<rparr>"

lemma sample_mapped: "\<exists>m. mapRows sample_input = Inr m"
proof -
  have "\<not> isl (mapRows sample_input)" by code_simp
  then show ?thesis by (cases "mapRows sample_input") simp_all
qed

theorem configuration_gate_exact_witness:
  "\<exists>m. mapRows sample_input = Inr m \<and> map id_id (mr_items m) = [''gh|a'', ''gh|b''] \<and>
     map (\<lambda>e. (dg_type e, dg_from e, dg_to e)) (mr_edges m) = [(Blocks, ''gh|a'', ''gh|b''), (Parent, ''gh|b'', ''gh|d'')]"
proof -
  obtain m where m: "mapRows sample_input = Inr m" using sample_mapped by blast
  have "map row_ref (filter (configured_row sample_input) (bi_items sample_input)) = [''gh|a'', ''gh|b'']"
    "map (\<lambda>e. (ed_type e, endpoint_ref (ed_from e), endpoint_ref (ed_to e)))
       (filter (configured_edge sample_input) (bi_edges sample_input)) =
     [(Blocks, ''gh|a'', ''gh|b''), (Parent, ''gh|b'', ''gh|d'')]"
    by code_simp+
  with configuration_gate_exact [OF m] m show ?thesis by auto
qed

end
