(* ===== verification/Contract_Window.thy ===== *)
theory Contract_Window
  imports Contract_Rows
begin

text \<open>
  What a contract emits of the mapped rows (\<open>src/contract/build.ts\<close>): the counts of the
  aggregates and of the repositories, the trackers that are pinned into every window, the 90-day
  projection of the static contract, the projection of a range query and its commits view.

  A JavaScript object that counts is a map from the counted name; a set of ids is the list of its
  members.  A set of edges of \<open>programTrackerPin\<close> holds the edges a condition on their fields
  selects, so membership by identity and by value agree.
\<close>

section \<open>Counts\<close>

type_synonym counts = "(string, nat) jsmap"

definition inc :: "string \<Rightarrow> counts \<Rightarrow> counts" where
  "inc key counts = jm_set key (or_else (jm_get counts key) 0 + 1) counts"

definition state_name :: "item_state \<Rightarrow> string" where
  "state_name s = (case s of Open \<Rightarrow> ''open'' | Closed \<Rightarrow> ''closed'' | Merged \<Rightarrow> ''merged'')"

definition lifecycle_name :: "edge_lifecycle \<Rightarrow> string" where
  "lifecycle_name l = (case l of Declared \<Rightarrow> ''declared'' | Fulfilled \<Rightarrow> ''fulfilled'' | Broken \<Rightarrow> ''broken'')"

definition lifecycle_or_other :: "edge_dto \<Rightarrow> string" where
  "lifecycle_or_other e = (case dg_lifecycle e of Some l \<Rightarrow> lifecycle_name l | None \<Rightarrow> ''other'')"

record aggregate_stats =
  as_items :: nat
  as_by_state :: counts
  as_by_kind :: counts
  as_by_lifecycle :: counts

definition computeItemEdgeStats :: "item_dto list \<Rightarrow> edge_dto list \<Rightarrow> aggregate_stats" where
  "computeItemEdgeStats items edges =
     \<lparr>as_items = length items,
      as_by_state = fold (\<lambda>i. inc (state_name (id_state i))) items jm_empty,
      as_by_kind = fold (\<lambda>i. inc (kind_name (id_kind i))) items jm_empty,
      as_by_lifecycle = fold (\<lambda>e. inc (lifecycle_or_other e)) edges jm_empty\<rparr>"

datatype window_kind = Full_Window | Active_Since
datatype window_basis = Full_Contract | Item_Updated_At | Edge_Endpoint_Updated_At
datatype edge_filter = No_Mentions

record aggregate_window =
  aw_kind :: window_kind
  aw_basis :: window_basis
  aw_since :: "string option"
  aw_days :: "int option"
  aw_edge_filter :: "edge_filter option"

definition aggregateWindow ::
  "window_kind \<Rightarrow> window_basis \<Rightarrow> string option \<Rightarrow> int option \<Rightarrow> edge_filter option \<Rightarrow> aggregate_window"
where
  "aggregateWindow kind basis since days edgeFilter =
     \<lparr>aw_kind = kind, aw_basis = basis, aw_since = since, aw_days = days, aw_edge_filter = edgeFilter\<rparr>"

section \<open>Cutoffs\<close>

definition cutoffIso :: "int \<Rightarrow> string \<Rightarrow> string result" where
  "cutoffIso days generatedAt = toISOString (map_option (\<lambda>t. t - days * ms_per_day) (date_parse generatedAt))"

definition timestampAtOrAfter :: "string option \<Rightarrow> string option \<Rightarrow> bool" where
  "timestampAtOrAfter v cutoff =
     (if cutoff = None \<or> cutoff = Some [] then True
      else (case (timestampMs v, timestampMs cutoff) of
              (Some valueMs, Some cutoffMs) \<Rightarrow> cutoffMs \<le> valueMs
            | _ \<Rightarrow> False))"

definition itemActiveSince :: "item_dto \<Rightarrow> string option \<Rightarrow> bool" where
  "itemActiveSince item cutoff = timestampAtOrAfter (id_updated_at item) cutoff"

definition itemUpdatedInRange :: "item_dto \<Rightarrow> time_range \<Rightarrow> bool" where
  "itemUpdatedInRange item rg = timestampInRange (id_updated_at item) rg"

definition activityOccurredInRange :: "activity_dto \<Rightarrow> time_range \<Rightarrow> bool" where
  "activityOccurredInRange a rg = timestampInRange (Some (da_occurred_at a)) rg"

definition boardWindowEdges :: "item_dto list \<Rightarrow> edge_dto list \<Rightarrow> edge_dto list" where
  "boardWindowEdges items edges =
     (let ids = set (map id_id items) in filter (\<lambda>e. dg_from e \<in> ids \<or> dg_to e \<in> ids) edges)"

definition graphWindowEdges ::
  "edge_dto list \<Rightarrow> (string, item_dto) jsmap \<Rightarrow> string option \<Rightarrow> edge_dto list"
where
  "graphWindowEdges edges byId cutoff =
     filter (\<lambda>e.
       if cutoff = None \<or> cutoff = Some [] then True
       else
         (let from = jm_get byId (dg_from e); to = jm_get byId (dg_to e) in
          if from = None \<and> to = None then True
          else timestampAtOrAfter (Option.bind from id_updated_at) cutoff
               \<or> timestampAtOrAfter (Option.bind to id_updated_at) cutoff)) edges"

definition noMentions :: "edge_dto list \<Rightarrow> edge_dto list" where
  "noMentions edges = filter (\<lambda>e. dg_type e \<noteq> Mentions) edges"

definition edge_refs :: "edge_dto list \<Rightarrow> string list" where
  "edge_refs edges = js_set_of (concat (map (\<lambda>e. [dg_from e, dg_to e]) edges))"

definition computeGraphStats :: "edge_dto list \<Rightarrow> (string, item_dto) jsmap \<Rightarrow> aggregate_stats" where
  "computeGraphStats edges byId =
     (let refs = edge_refs edges;
          name = (\<lambda>f r. case jm_get byId r of Some i \<Rightarrow> f i | None \<Rightarrow> ''unknown'') in
      \<lparr>as_items = length refs,
       as_by_state = fold (\<lambda>r. inc (name (state_name \<circ> id_state) r)) refs jm_empty,
       as_by_kind = fold (\<lambda>r. inc (name (kind_name \<circ> id_kind) r)) refs jm_empty,
       as_by_lifecycle = fold (\<lambda>e. inc (lifecycle_or_other e)) edges jm_empty\<rparr>)"

section \<open>Repositories and aggregates\<close>

record repo_stats =
  rs_source_id :: string
  rs_project_path :: "string option"
  rs_items :: nat
  rs_by_state :: counts
  rs_by_kind :: counts

definition empty_repo :: "item_dto \<Rightarrow> repo_stats" where
  "empty_repo i =
     \<lparr>rs_source_id = id_source_id i, rs_project_path = id_project_path i, rs_items = 0, rs_by_state = jm_empty,
      rs_by_kind = jm_empty\<rparr>"

definition count_item :: "item_dto \<Rightarrow> repo_stats \<Rightarrow> repo_stats" where
  "count_item i r =
     r\<lparr>rs_items := rs_items r + 1, rs_by_state := inc (state_name (id_state i)) (rs_by_state r),
       rs_by_kind := inc (kind_name (id_kind i)) (rs_by_kind r)\<rparr>"

definition item_repo :: "item_dto \<Rightarrow> repo_key_t" where
  "item_repo i = repoKey (id_source_id i) (id_project_path i)"

definition add_repo_item :: "item_dto \<Rightarrow> (repo_key_t, repo_stats) jsmap \<Rightarrow> (repo_key_t, repo_stats) jsmap" where
  "add_repo_item i byRepo =
     jm_set (item_repo i) (count_item i (or_else (jm_get byRepo (item_repo i)) (empty_repo i))) byRepo"

definition buildRepoStats :: "(string \<Rightarrow> string \<Rightarrow> int) \<Rightarrow> item_dto list \<Rightarrow> repo_stats list" where
  "buildRepoStats lc items =
     js_sort (then_by (by_collation lc rs_source_id) (by_collation lc (\<lambda>r. or_else (rs_project_path r) [])))
       (jm_values (fold add_repo_item items jm_empty))"

definition ACTIVE_WINDOW_DAYS :: "int list" where
  "ACTIVE_WINDOW_DAYS = [7, 14, 30, 90]"

datatype aggregate_scope = Global_Scope | Board_Window | Graph_Window

record aggregate =
  ag_scope :: aggregate_scope
  ag_window :: aggregate_window
  ag_stats :: aggregate_stats

definition active_aggregates ::
  "item_dto list \<Rightarrow> edge_dto list \<Rightarrow> edge_dto list \<Rightarrow> (string, item_dto) jsmap \<Rightarrow> string \<Rightarrow> int \<Rightarrow> aggregate list result"
where
  "active_aggregates items edges graphBaseEdges byId generatedAt days =
     rbind (cutoffIso days generatedAt) (\<lambda>since.
     let boardItems = filter (\<lambda>i. itemActiveSince i (Some since)) items;
         graphEdges = graphWindowEdges graphBaseEdges byId (Some since) in
     Inr [\<lparr>ag_scope = Board_Window,
           ag_window = aggregateWindow Active_Since Item_Updated_At (Some since) (Some days) None,
           ag_stats = computeItemEdgeStats boardItems (boardWindowEdges boardItems edges)\<rparr>,
          \<lparr>ag_scope = Graph_Window,
           ag_window = aggregateWindow Active_Since Edge_Endpoint_Updated_At (Some since) (Some days) (Some No_Mentions),
           ag_stats = computeGraphStats graphEdges byId\<rparr>])"

definition buildAggregates :: "item_dto list \<Rightarrow> edge_dto list \<Rightarrow> string \<Rightarrow> aggregate list result" where
  "buildAggregates items edges generatedAt =
     (let byId = items_by_id items; graphBaseEdges = noMentions edges in
      rbind (mapM (active_aggregates items edges graphBaseEdges byId generatedAt) ACTIVE_WINDOW_DAYS) (\<lambda>active.
      Inr ([\<lparr>ag_scope = Global_Scope, ag_window = aggregateWindow Full_Window Full_Contract None None None,
             ag_stats = computeItemEdgeStats items edges\<rparr>,
            \<lparr>ag_scope = Board_Window, ag_window = aggregateWindow Full_Window Item_Updated_At None None None,
             ag_stats = computeItemEdgeStats items (boardWindowEdges items edges)\<rparr>,
            \<lparr>ag_scope = Graph_Window,
             ag_window = aggregateWindow Full_Window Edge_Endpoint_Updated_At None None (Some No_Mentions),
             ag_stats = computeGraphStats graphBaseEdges byId\<rparr>] @ concat active)))"

section \<open>Pinned trackers\<close>

definition PROGRAM_TRACKER_PIN_LIMIT :: nat where
  "PROGRAM_TRACKER_PIN_LIMIT = 100"

record tracker_pin =
  pn_trackers :: "string list"
  pn_edges :: "edge_dto list"

definition tracker_order :: "(string \<Rightarrow> string \<Rightarrow> int) \<Rightarrow> item_dto \<Rightarrow> item_dto \<Rightarrow> int" where
  "tracker_order lc =
     then_by (\<lambda>a b. compareTimestampDesc (id_updated_at a) (id_updated_at b)) (by_collation lc id_id)"

definition tracker_candidates :: "item_dto list \<Rightarrow> edge_dto list \<Rightarrow> item_dto list" where
  "tracker_candidates items edges =
     (let parentIds = set (map dg_from (filter (\<lambda>e. dg_type e = Parent) edges)) in
      filter (\<lambda>i. id_state i = Open \<and> id_id i \<in> parentIds \<and>
                  list_ex (\<lambda>l. lb_name l = TRACKING_LABEL) (id_labels i)) items)"

definition programTrackerPin ::
  "(string \<Rightarrow> string \<Rightarrow> int) \<Rightarrow> item_dto list \<Rightarrow> edge_dto list \<Rightarrow> tracker_pin"
where
  "programTrackerPin lc items edges =
     (let trackerIds =
            js_set_of (map id_id (take PROGRAM_TRACKER_PIN_LIMIT (js_sort (tracker_order lc) (tracker_candidates items edges)))) in
      if trackerIds = [] then \<lparr>pn_trackers = [], pn_edges = []\<rparr>
      else
        (let childIds = set (map dg_to (filter (\<lambda>e. dg_type e = Parent \<and> dg_from e \<in> set trackerIds) edges)) in
         \<lparr>pn_trackers = trackerIds,
          pn_edges = filter (\<lambda>e. if dg_type e = Parent then dg_from e \<in> set trackerIds
                                 else dg_type e = Blocks \<and> dg_from e \<in> childIds \<and> dg_to e \<in> childIds) edges\<rparr>))"

section \<open>The projection of the static contract\<close>

definition CONTRACT_ITEM_WINDOW_DAYS :: int where
  "CONTRACT_ITEM_WINDOW_DAYS = 90"

record item_window =
  iw_window :: aggregate_window
  iw_primary_items :: nat
  iw_edge_endpoint_items :: nat
  iw_activity_target_items :: nat
  iw_total_items :: nat
  iw_truncated :: bool

record projection_rows =
  wp_items :: "item_dto list"
  wp_edges :: "edge_dto list"
  wp_window :: item_window

definition with_reasons ::
  "string set \<Rightarrow> string set \<Rightarrow> string set \<Rightarrow> string set \<Rightarrow> item_dto \<Rightarrow> item_dto"
where
  "with_reasons primary endpoints targets trackers i =
     i\<lparr>id_window_reasons := Some
         ((if id_id i \<in> primary then [Primary] else []) @ (if id_id i \<in> endpoints then [Edge_Endpoint] else []) @
          (if id_id i \<in> targets then [Activity_Target] else []) @ (if id_id i \<in> trackers then [Program_Tracker] else []))\<rparr>"

definition buildWindowedProjection ::
  "(string \<Rightarrow> string \<Rightarrow> int) \<Rightarrow> item_dto list \<Rightarrow> edge_dto list \<Rightarrow> string \<Rightarrow> projection_rows result"
where
  "buildWindowedProjection lc items edges generatedAt =
     rbind (cutoffIso CONTRACT_ITEM_WINDOW_DAYS generatedAt) (\<lambda>since.
     let primaryIds = js_set_of (map id_id (filter (\<lambda>i. itemActiveSince i (Some since)) items));
         primary = set primaryIds;
         pin = programTrackerPin lc items edges;
         selectedEdges = filter (\<lambda>e. dg_from e \<in> primary \<or> dg_to e \<in> primary \<or> e \<in> set (pn_edges pin)) edges;
         endpoints = set (edge_refs selectedEdges);
         windowedItems =
           map (with_reasons primary endpoints {} (set (pn_trackers pin)))
             (filter (\<lambda>i. id_id i \<in> primary \<union> endpoints) items) in
     Inr \<lparr>wp_items = windowedItems, wp_edges = selectedEdges,
          wp_window =
            \<lparr>iw_window = aggregateWindow Active_Since Item_Updated_At (Some since) (Some CONTRACT_ITEM_WINDOW_DAYS) None,
             iw_primary_items = length primaryIds,
             iw_edge_endpoint_items = length (filter (\<lambda>i. id_id i \<notin> primary \<and> id_id i \<in> endpoints) windowedItems),
             iw_activity_target_items = 0, iw_total_items = length items,
             iw_truncated = (length windowedItems < length items)\<rparr>\<rparr>)"

definition fullItemProjection :: "item_dto list \<Rightarrow> edge_dto list \<Rightarrow> projection_rows" where
  "fullItemProjection items edges =
     \<lparr>wp_items = items, wp_edges = edges,
      wp_window =
        \<lparr>iw_window = aggregateWindow Full_Window Full_Contract None None None,
         iw_primary_items = length items, iw_edge_endpoint_items = 0, iw_activity_target_items = 0,
         iw_total_items = length items, iw_truncated = False\<rparr>\<rparr>"

section \<open>The projection of a range\<close>

definition commitChangeRequestRef :: "activity_dto \<Rightarrow> string option" where
  "commitChangeRequestRef a =
     (case Option.bind (da_details a) (\<lambda>ms. obj_get ms ''change_request'') of
        Some (JObj link) \<Rightarrow> truthy_text (str_member link ''ref'')
      | _ \<Rightarrow> None)"

type_synonym dto_key = "edge_type \<times> string \<times> string"

definition dto_key :: "edge_dto \<Rightarrow> dto_key" where
  "dto_key e = (dg_type e, dg_from e, dg_to e)"

definition activity_targets :: "(string, item_dto) jsmap \<Rightarrow> activity_dto \<Rightarrow> string list" where
  "activity_targets byId a =
     filter (\<lambda>r. r \<noteq> [] \<and> jm_has byId r)
       (List.map_filter (\<lambda>v. v)
         [da_target_ref a, if da_kind a = ''commit'' then commitChangeRequestRef a else None])"

record range_rows = projection_rows +
  rg_activities :: "activity_dto list"

definition buildRangeProjection ::
  "(string \<Rightarrow> string \<Rightarrow> int) \<Rightarrow> item_dto list \<Rightarrow> edge_dto list \<Rightarrow> activity_dto list \<Rightarrow> time_range \<Rightarrow> range_rows"
where
  "buildRangeProjection lc items edges activities rg =
     (let byId = items_by_id items;
          primaryIds = js_set_of (map id_id (filter (\<lambda>i. itemUpdatedInRange i rg) items));
          primary = set primaryIds;
          boardEdges = filter (\<lambda>e. dg_from e \<in> primary \<or> dg_to e \<in> primary) edges;
          in_range = (\<lambda>r. case jm_get byId r of Some i \<Rightarrow> itemUpdatedInRange i rg | None \<Rightarrow> False);
          graphEdges = filter (\<lambda>e. in_range (dg_from e) \<or> in_range (dg_to e)) edges;
          pin = programTrackerPin lc items edges;
          selectedEdges = jm_values (fold (\<lambda>e. jm_set (dto_key e) e) (boardEdges @ graphEdges @ pn_edges pin) jm_empty);
          rangedActivities = filter (\<lambda>a. activityOccurredInRange a rg) activities;
          endpoints = set (edge_refs selectedEdges);
          targets = set (concat (map (activity_targets byId) rangedActivities));
          windowedItems =
            map (with_reasons primary endpoints targets (set (pn_trackers pin)))
              (filter (\<lambda>i. id_id i \<in> primary \<union> endpoints \<union> targets) items) in
      \<lparr>wp_items = windowedItems, wp_edges = selectedEdges,
       wp_window =
         \<lparr>iw_window = aggregateWindow Active_Since Item_Updated_At (Some (tr_from rg)) None None,
          iw_primary_items = length primaryIds,
          iw_edge_endpoint_items = length (filter (\<lambda>i. id_id i \<notin> primary \<and> id_id i \<in> endpoints) windowedItems),
          iw_activity_target_items = length (filter (\<lambda>i. id_id i \<notin> primary \<and> id_id i \<in> targets) windowedItems),
          iw_total_items = length items, iw_truncated = (length windowedItems < length items)\<rparr>,
       rg_activities = rangedActivities\<rparr>)"

text \<open>The commits view drops the bodies of the items.\<close>

definition commitsViewRows :: "item_dto list \<Rightarrow> activity_dto list \<Rightarrow> item_dto list \<times> activity_dto list" where
  "commitsViewRows items activities =
     (let commits = filter (\<lambda>a. da_kind a = ''commit'') activities;
          refs = set (List.map_filter commitChangeRequestRef commits) in
      (map (\<lambda>i. i\<lparr>id_body := None\<rparr>) (filter (\<lambda>i. id_id i \<in> refs) items), commits))"

section \<open>What a window shows\<close>

lemma id_with_reasons [simp]: "id_id (with_reasons p e t k i) = id_id i"
  by (simp add: with_reasons_def)

lemma reasons_with_reasons:
  "set (the (id_window_reasons (with_reasons p e t k i))) =
     (if id_id i \<in> p then {Primary} else {}) \<union> (if id_id i \<in> e then {Edge_Endpoint} else {}) \<union>
     (if id_id i \<in> t then {Activity_Target} else {}) \<union> (if id_id i \<in> k then {Program_Tracker} else {})"
  by (simp add: with_reasons_def)

lemma set_edge_refs: "set (edge_refs edges) = dg_from ` set edges \<union> dg_to ` set edges"
  by (auto simp: edge_refs_def)

text \<open>The item with a reference is emitted and names a reason for it.\<close>

definition shown_for :: "item_dto list \<Rightarrow> string \<Rightarrow> window_reason \<Rightarrow> bool" where
  "shown_for shown r reason \<longleftrightarrow> (\<exists>d\<in>set shown. id_id d = r \<and> reason \<in> set (the (id_window_reasons d)))"

lemma shown_for_with_reasons:
  "shown_for (map (with_reasons p e t k) (filter (\<lambda>i. id_id i \<in> m) items)) r reason \<longleftrightarrow>
     r \<in> m \<and> r \<in> id_id ` set items \<and>
     (case reason of Primary \<Rightarrow> r \<in> p | Edge_Endpoint \<Rightarrow> r \<in> e | Activity_Target \<Rightarrow> r \<in> t | Program_Tracker \<Rightarrow> r \<in> k)"
  unfolding shown_for_def
  by (cases reason) (auto simp: reasons_with_reasons)

definition loaded :: "item_dto list \<Rightarrow> string \<Rightarrow> bool" where
  "loaded items r \<longleftrightarrow> r \<in> id_id ` set items"

lemma window_items:
  assumes "ws = map (with_reasons p e t k) (filter (\<lambda>i. id_id i \<in> p \<union> e \<union> t) items)"
  shows "shown_for ws r Primary \<longleftrightarrow> r \<in> p \<and> loaded items r"
    and "shown_for ws r Edge_Endpoint \<longleftrightarrow> r \<in> e \<and> loaded items r"
    and "shown_for ws r Activity_Target \<longleftrightarrow> r \<in> t \<and> loaded items r"
    and "shown_for ws r Program_Tracker \<longleftrightarrow> r \<in> p \<union> e \<union> t \<and> r \<in> k \<and> loaded items r"
    and "d \<in> set ws \<Longrightarrow> loaded items (id_id d) \<and> the (id_window_reasons d) \<noteq> []"
  unfolding assms shown_for_with_reasons by (auto simp: with_reasons_def loaded_def)

lemma buildWindowedProjection_Inr:
  assumes "buildWindowedProjection lc items edges generatedAt = Inr w"
  obtains since primary pin where "cutoffIso CONTRACT_ITEM_WINDOW_DAYS generatedAt = Inr since"
    and "primary = id_id ` {i \<in> set items. itemActiveSince i (Some since)}" and "pin = programTrackerPin lc items edges"
    and "wp_edges w = filter (\<lambda>e. dg_from e \<in> primary \<or> dg_to e \<in> primary \<or> e \<in> set (pn_edges pin)) edges"
    and "wp_items w = map (with_reasons primary (set (edge_refs (wp_edges w))) {} (set (pn_trackers pin)))
           (filter (\<lambda>i. id_id i \<in> primary \<union> set (edge_refs (wp_edges w))) items)"
    and "iw_primary_items (wp_window w) = card primary"
    and "iw_edge_endpoint_items (wp_window w) =
           length (filter (\<lambda>i. id_id i \<notin> primary \<and> id_id i \<in> set (edge_refs (wp_edges w))) (wp_items w))"
    and "iw_total_items (wp_window w) = length items" and "iw_truncated (wp_window w) = (length (wp_items w) < length items)"
proof -
  obtain since where since: "cutoffIso CONTRACT_ITEM_WINDOW_DAYS generatedAt = Inr since"
    using assms by (auto simp: buildWindowedProjection_def)
  have primary: "set (map id_id (filter (\<lambda>i. itemActiveSince i (Some since)) items)) =
      id_id ` {i \<in> set items. itemActiveSince i (Some since)}" by simp
  have "length (js_set_of xs) = card (set xs)" for xs :: "string list"
    by (metis distinct_card distinct_js_set_of set_js_set_of)
  note card = this [of "map id_id (filter (\<lambda>i. itemActiveSince i (Some since)) items)", unfolded primary]
  show thesis
    by (rule that [OF since refl refl])
      (use assms card in \<open>auto simp: buildWindowedProjection_def since Let_def\<close>)
qed

text \<open>
  Claim C19. The board window is closed: every item active since the cutoff is emitted as primary
  with every edge at it, every loaded end of an emitted edge is emitted as an edge endpoint, and
  nothing is emitted without a reason.
\<close>

theorem board_window_closed:
  assumes "buildWindowedProjection lc items edges generatedAt = Inr w"
  shows "\<exists>since. cutoffIso CONTRACT_ITEM_WINDOW_DAYS generatedAt = Inr since \<and>
    (\<forall>i\<in>set items. itemActiveSince i (Some since) \<longrightarrow>
       shown_for (wp_items w) (id_id i) Primary \<and>
       (\<forall>e\<in>set edges. dg_from e = id_id i \<or> dg_to e = id_id i \<longrightarrow> e \<in> set (wp_edges w))) \<and>
    (\<forall>e\<in>set (wp_edges w). \<forall>r\<in>{dg_from e, dg_to e}. loaded items r \<longrightarrow> shown_for (wp_items w) r Edge_Endpoint) \<and>
    (\<forall>d\<in>set (wp_items w). loaded items (id_id d) \<and> the (id_window_reasons d) \<noteq> [])"
  using assms
proof (rule buildWindowedProjection_Inr)
  fix since primary pin
  assume since: "cutoffIso CONTRACT_ITEM_WINDOW_DAYS generatedAt = Inr since"
    and primary: "primary = id_id ` {i \<in> set items. itemActiveSince i (Some since)}"
    and edges: "wp_edges w = filter (\<lambda>e. dg_from e \<in> primary \<or> dg_to e \<in> primary \<or> e \<in> set (pn_edges pin)) edges"
    and items: "wp_items w = map (with_reasons primary (set (edge_refs (wp_edges w))) {} (set (pn_trackers pin)))
           (filter (\<lambda>i. id_id i \<in> primary \<union> set (edge_refs (wp_edges w))) items)"
  have "wp_items w = map (with_reasons primary (set (edge_refs (wp_edges w))) {} (set (pn_trackers pin)))
           (filter (\<lambda>i. id_id i \<in> primary \<union> set (edge_refs (wp_edges w)) \<union> {}) items)"
    using items by simp
  note shown = window_items [OF this]
  have "shown_for (wp_items w) r Edge_Endpoint"
    if "e \<in> set (wp_edges w)" "r \<in> {dg_from e, dg_to e}" "loaded items r" for e r
    using that by (auto simp: shown(2) set_edge_refs)
  moreover have "shown_for (wp_items w) (id_id i) Primary \<and>
       (\<forall>e\<in>set edges. dg_from e = id_id i \<or> dg_to e = id_id i \<longrightarrow> e \<in> set (wp_edges w))"
    if "i \<in> set items" "itemActiveSince i (Some since)" for i
    using that by (auto simp: shown(1) primary edges loaded_def)
  moreover have "\<forall>d\<in>set (wp_items w). loaded items (id_id d) \<and> the (id_window_reasons d) \<noteq> []"
    using shown(5) by blast
  ultimately show ?thesis using since by blast
qed

text \<open>
  The numbers of the board window add up: primary and endpoint items together are the
  emitted items, the total is the number of live items, and the window is marked truncated exactly
  when an item is left out.
\<close>

theorem board_window_counts:
  assumes "buildWindowedProjection lc items edges generatedAt = Inr w" and "distinct (map id_id items)"
  shows "iw_primary_items (wp_window w) + iw_edge_endpoint_items (wp_window w) = length (wp_items w) \<and>
    iw_total_items (wp_window w) = length items \<and>
    (iw_truncated (wp_window w) \<longleftrightarrow> (\<exists>i\<in>set items. id_id i \<notin> id_id ` set (wp_items w)))"
  using assms(1)
proof (rule buildWindowedProjection_Inr)
  fix since primary pin
  assume primary: "primary = id_id ` {i \<in> set items. itemActiveSince i (Some since)}"
    and items: "wp_items w = map (with_reasons primary (set (edge_refs (wp_edges w))) {} (set (pn_trackers pin)))
           (filter (\<lambda>i. id_id i \<in> primary \<union> set (edge_refs (wp_edges w))) items)"
    and counts: "iw_primary_items (wp_window w) = card primary" "iw_edge_endpoint_items (wp_window w) =
           length (filter (\<lambda>i. id_id i \<notin> primary \<and> id_id i \<in> set (edge_refs (wp_edges w))) (wp_items w))"
      "iw_total_items (wp_window w) = length items" "iw_truncated (wp_window w) = (length (wp_items w) < length items)"
  define ends where "ends = set (edge_refs (wp_edges w))"
  define ids where "ids = filter (\<lambda>r. r \<in> primary \<union> ends) (map id_id items)"
  have ids: "map id_id (wp_items w) = ids"
    by (subst items) (simp add: ids_def ends_def filter_map comp_def)
  have dist: "distinct ids" using assms(2) by (simp add: ids_def)
  have "length (filter (\<lambda>i. id_id i \<notin> primary \<and> id_id i \<in> ends) (wp_items w)) = length (filter (\<lambda>r. r \<notin> primary \<and> r \<in> ends) ids)"
    unfolding ids [symmetric] by (simp add: filter_map comp_def)
  also have "\<dots> = length (filter (\<lambda>r. \<not> r \<in> primary) ids)"
    by (rule arg_cong [where f = length], rule filter_cong) (auto simp: ids_def)
  moreover have "card primary = length (filter (\<lambda>r. r \<in> primary) ids)"
  proof -
    have "set (filter (\<lambda>r. r \<in> primary) ids) = primary" by (auto simp: ids_def primary)
    then show ?thesis using dist by (metis distinct_card distinct_filter)
  qed
  ultimately have 1: "card primary + length (filter (\<lambda>i. id_id i \<notin> primary \<and> id_id i \<in> ends) (wp_items w)) = length ids"
    using sum_length_filter_compl [of "\<lambda>r. r \<in> primary" ids] by simp
  have len: "length (wp_items w) = length ids" using ids by (metis length_map)
  have "length ids < length (map id_id items) \<longleftrightarrow> (\<exists>r\<in>set (map id_id items). r \<notin> set ids)"
  proof
    assume "\<exists>r\<in>set (map id_id items). r \<notin> set ids"
    then show "length ids < length (map id_id items)"
      unfolding ids_def by (metis (no_types, lifting) filter_id_conv le_neq_implies_less length_filter_less length_filter_le)
  next
    assume less: "length ids < length (map id_id items)"
    have "ids = map id_id items" if "\<forall>r\<in>set (map id_id items). r \<in> set ids"
      unfolding ids_def by (rule filter_True) (use that in \<open>auto simp: ids_def\<close>)
    with less show "\<exists>r\<in>set (map id_id items). r \<notin> set ids" by (metis less_irrefl)
  qed
  moreover have "set ids = id_id ` set (wp_items w)" using ids by (metis set_map)
  ultimately show ?thesis using 1 len counts by (simp add: ends_def)
qed

section \<open>The range window\<close>

lemma jm_set_keyed: "list_all (\<lambda>p. kf (snd p) = fst p) m \<Longrightarrow> list_all (\<lambda>p. kf (snd p) = fst p) (jm_set (kf x) x m)"
  by (induction "kf x" x m rule: jm_set.induct) auto

lemma fold_keyed:
  "list_all (\<lambda>p. kf (snd p) = fst p) m \<Longrightarrow> list_all (\<lambda>p. kf (snd p) = fst p) (fold (\<lambda>x. jm_set (kf x) x) xs m)"
  by (induction xs arbitrary: m) (simp_all add: jm_set_keyed)

lemma values_keyed: "map kf (jm_values (fold (\<lambda>x. jm_set (kf x) x) xs [])) = js_set_of (map kf xs)"
proof -
  have "list_all (\<lambda>p. kf (snd p) = fst p) m \<Longrightarrow> map kf (jm_values m) = jm_keys m" for m
    by (induction m) (simp_all add: jm_values_def jm_keys_def)
  from this [OF fold_keyed, of "[]" xs] show ?thesis
    using jsm.keys_fold_put_emp [of kf "\<lambda>x. x" xs] by simp
qed

lemma set_values_subset: "set (jm_values (fold (\<lambda>x. jm_set (kf x) x) xs [])) \<subseteq> set xs"
  unfolding jm_fold_values_last using find_last_SomeD by fastforce

lemma jm_has_items_by_id: "jm_has (items_by_id items) r \<longleftrightarrow> loaded items r"
  by (simp add: jm_has_iff items_by_id_def jsm.set_keys_fold_put jsmap_simps loaded_def)

lemma pin_edges_subset: "set (pn_edges (programTrackerPin lc items edges)) \<subseteq> set edges"
  by (auto simp: programTrackerPin_def Let_def)

text \<open>The edges a range selects, before the ones with equal keys are merged.\<close>

definition range_edges :: "(string \<Rightarrow> string \<Rightarrow> int) \<Rightarrow> item_dto list \<Rightarrow> edge_dto list \<Rightarrow> time_range \<Rightarrow> edge_dto list" where
  "range_edges lc items edges rg =
     (let primary = id_id ` {i \<in> set items. itemUpdatedInRange i rg};
          in_range = (\<lambda>r. case jm_get (items_by_id items) r of Some i \<Rightarrow> itemUpdatedInRange i rg | None \<Rightarrow> False) in
      filter (\<lambda>e. dg_from e \<in> primary \<or> dg_to e \<in> primary) edges @
      filter (\<lambda>e. in_range (dg_from e) \<or> in_range (dg_to e)) edges @ pn_edges (programTrackerPin lc items edges))"

lemma range_window_parts:
  fixes lc items edges activities rg
  defines "w \<equiv> buildRangeProjection lc items edges activities rg"
    and "primary \<equiv> id_id ` {i \<in> set items. itemUpdatedInRange i rg}"
    and "targets \<equiv> set (concat (map (activity_targets (items_by_id items)) (filter (\<lambda>a. activityOccurredInRange a rg) activities)))"
  shows "wp_edges w = jm_values (fold (\<lambda>e. jm_set (dto_key e) e) (range_edges lc items edges rg) jm_empty)"
    and "rg_activities w = filter (\<lambda>a. activityOccurredInRange a rg) activities"
    and "wp_items w = map (with_reasons primary (set (edge_refs (wp_edges w))) targets (set (pn_trackers (programTrackerPin lc items edges))))
           (filter (\<lambda>i. id_id i \<in> primary \<union> set (edge_refs (wp_edges w)) \<union> targets) items)"
  by (simp_all add: w_def primary_def targets_def buildRangeProjection_def Let_def range_edges_def)

lemma range_window_edges:
  fixes lc items edges activities rg
  defines "w \<equiv> buildRangeProjection lc items edges activities rg"
  shows "distinct (map dto_key (wp_edges w))" and "set (wp_edges w) \<subseteq> set edges"
    and "dto_key ` set (wp_edges w) = dto_key ` set (range_edges lc items edges rg)"
proof -
  have keys: "map dto_key (wp_edges w) = js_set_of (map dto_key (range_edges lc items edges rg))"
    unfolding w_def range_window_parts(1) by (rule values_keyed)
  then show "distinct (map dto_key (wp_edges w))" by simp
  show "dto_key ` set (wp_edges w) = dto_key ` set (range_edges lc items edges rg)"
    using arg_cong [OF keys, of set] by simp
  show "set (wp_edges w) \<subseteq> set edges"
    using set_values_subset [of dto_key "range_edges lc items edges rg"] pin_edges_subset [of lc items edges]
    unfolding w_def range_window_parts(1) by (auto simp: range_edges_def Let_def)
qed

text \<open>
  Claim C20. The window of a range query is closed: every item updated in the range is emitted as
  primary with every edge at it, every loaded end of an emitted edge and every loaded target of an
  activity in the range is emitted for that reason, no edge is emitted twice, and nothing is emitted
  without a reason.
\<close>

theorem range_window_closed:
  fixes lc items edges activities rg
  defines "w \<equiv> buildRangeProjection lc items edges activities rg"
  shows "(\<forall>i\<in>set items. itemUpdatedInRange i rg \<longrightarrow>
       shown_for (wp_items w) (id_id i) Primary \<and>
       (\<forall>e\<in>set edges. dg_from e = id_id i \<or> dg_to e = id_id i \<longrightarrow> dto_key e \<in> dto_key ` set (wp_edges w))) \<and>
    (\<forall>e\<in>set (wp_edges w). \<forall>r\<in>{dg_from e, dg_to e}. loaded items r \<longrightarrow> shown_for (wp_items w) r Edge_Endpoint) \<and>
    (\<forall>a\<in>set activities. activityOccurredInRange a rg \<longrightarrow>
       (\<forall>r. da_target_ref a = Some r \<and> r \<noteq> [] \<and> loaded items r \<longrightarrow> shown_for (wp_items w) r Activity_Target)) \<and>
    distinct (map dto_key (wp_edges w)) \<and> set (wp_edges w) \<subseteq> set edges \<and>
    (\<forall>d\<in>set (wp_items w). loaded items (id_id d) \<and> the (id_window_reasons d) \<noteq> [])"
proof -
  note shown = window_items [OF range_window_parts(3) [of lc items edges activities rg], folded w_def]
  have "shown_for (wp_items w) (id_id i) Primary" and
    "\<forall>e\<in>set edges. dg_from e = id_id i \<or> dg_to e = id_id i \<longrightarrow> dto_key e \<in> dto_key ` set (wp_edges w)"
    if "i \<in> set items" "itemUpdatedInRange i rg" for i
  proof -
    have "id_id i \<in> id_id ` {i \<in> set items. itemUpdatedInRange i rg}" using that by simp
    then show "shown_for (wp_items w) (id_id i) Primary" by (auto simp: shown(1) loaded_def)
    show "\<forall>e\<in>set edges. dg_from e = id_id i \<or> dg_to e = id_id i \<longrightarrow> dto_key e \<in> dto_key ` set (wp_edges w)"
      using that unfolding w_def range_window_edges(3) by (auto simp: range_edges_def Let_def)
  qed
  moreover have "shown_for (wp_items w) r Edge_Endpoint"
    if "e \<in> set (wp_edges w)" "r \<in> {dg_from e, dg_to e}" "loaded items r" for e r
    using that by (auto simp: shown(2) set_edge_refs)
  moreover have "shown_for (wp_items w) r Activity_Target"
    if "a \<in> set activities" "activityOccurredInRange a rg" "da_target_ref a = Some r" "r \<noteq> []" "loaded items r" for a r
  proof -
    have "r \<in> set (activity_targets (items_by_id items) a)"
      using that by (simp add: activity_targets_def jm_has_items_by_id List.map_filter_def)
    then show ?thesis using that by (auto simp: shown(3))
  qed
  ultimately show ?thesis
    using shown(5) range_window_edges(1,2) [of lc items edges activities rg] unfolding w_def by blast
qed

section \<open>Trackers\<close>

lemma set_pn_trackers:
  "set (pn_trackers (programTrackerPin lc items edges)) =
     id_id ` set (take PROGRAM_TRACKER_PIN_LIMIT (js_sort (tracker_order lc) (tracker_candidates items edges)))"
proof -
  define ids where "ids = map id_id (take PROGRAM_TRACKER_PIN_LIMIT (js_sort (tracker_order lc) (tracker_candidates items edges)))"
  have "pn_trackers (programTrackerPin lc items edges) = js_set_of ids"
    by (simp add: programTrackerPin_def Let_def ids_def)
  then show ?thesis by (simp add: ids_def)
qed

lemma pinned_parent:
  assumes "t \<in> set (pn_trackers (programTrackerPin lc items edges))" and "e \<in> set edges"
    and "dg_type e = Parent" and "dg_from e = t"
  shows "e \<in> set (pn_edges (programTrackerPin lc items edges))"
  using assms by (auto simp: programTrackerPin_def Let_def split: if_splits)

lemma candidate_parent:
  "i \<in> set (tracker_candidates items edges) \<Longrightarrow> \<exists>e\<in>set edges. dg_type e = Parent \<and> dg_from e = id_id i"
  by (auto simp: tracker_candidates_def Let_def)

text \<open>
  A tracker is an open item with the tracking label that has children.  Of two trackers the one with the later
  readable update comes first.
\<close>

definition is_tracker :: "edge_dto list \<Rightarrow> item_dto \<Rightarrow> bool" where
  "is_tracker edges i \<longleftrightarrow>
     id_state i = Open \<and> (\<exists>l \<in> set (id_labels i). lb_name l = TRACKING_LABEL)
     \<and> (\<exists>e \<in> set edges. dg_type e = Parent \<and> dg_from e = id_id i)"

definition at_least_as_recent :: "item_dto \<Rightarrow> item_dto \<Rightarrow> bool" where
  "at_least_as_recent i j \<longleftrightarrow>
     (case timestampMs (id_updated_at j) of
        None \<Rightarrow> True
      | Some b \<Rightarrow> (case timestampMs (id_updated_at i) of None \<Rightarrow> False | Some a \<Rightarrow> b \<le> a))"

definition child_of :: "edge_dto list \<Rightarrow> string set \<Rightarrow> string \<Rightarrow> bool" where
  "child_of edges trackers r \<longleftrightarrow> (\<exists>e \<in> set edges. dg_type e = Parent \<and> dg_from e \<in> trackers \<and> dg_to e = r)"

text \<open>
  A window shows the trackers: each for that reason, every parent edge from it and every blocks edge between two of
  the children of trackers, and every loaded child as an end of an edge.
\<close>

definition shows_trackers ::
  "item_dto list \<Rightarrow> edge_dto list \<Rightarrow> string set \<Rightarrow> item_dto list \<Rightarrow> (edge_dto \<Rightarrow> bool) \<Rightarrow> bool"
where
  "shows_trackers items edges trackers shown has_edge \<longleftrightarrow>
     (\<forall>t \<in> trackers. shown_for shown t Program_Tracker)
     \<and> (\<forall>e \<in> set edges. dg_type e = Parent \<and> dg_from e \<in> trackers \<longrightarrow>
          has_edge e \<and> (loaded items (dg_to e) \<longrightarrow> shown_for shown (dg_to e) Edge_Endpoint))
     \<and> (\<forall>e \<in> set edges. dg_type e = Blocks \<and> child_of edges trackers (dg_from e) \<and> child_of edges trackers (dg_to e) \<longrightarrow>
          has_edge e)"

lemma tracker_candidates_iff: "tracker_candidates items edges = filter (is_tracker edges) items"
  unfolding tracker_candidates_def Let_def by (rule filter_cong) (force simp: is_tracker_def list_ex_iff)+

lemma comparator_collation: "comparator lc (\<lambda>_. True) \<Longrightarrow> comparator (by_collation lc f) (\<lambda>_. True)"
  unfolding comparator_def by_collation_def by metis

lemma comparator_tracker_order: "comparator lc (\<lambda>_. True) \<Longrightarrow> comparator (tracker_order lc) (\<lambda>_. True)"
  unfolding tracker_order_def by (intro comparator_then_by comparator_timestamp comparator_collation)

lemma tracker_order_recent: "tracker_order lc i j \<le> 0 \<Longrightarrow> at_least_as_recent i j"
  by (auto simp: tracker_order_def then_by_def compareTimestampDesc_def at_least_as_recent_def split: option.splits if_splits)

text \<open>The hundred most recent trackers.\<close>

lemma pinned_trackers:
  fixes edges :: "edge_dto list"
  assumes "distinct (map id_id items)" and "comparator lc (\<lambda>_. True)"
  defines "pinned \<equiv> pn_trackers (programTrackerPin lc items edges)"
  shows "distinct pinned \<and> length pinned = min 100 (length (filter (is_tracker edges) items))
    \<and> set pinned \<subseteq> id_id ` set (filter (is_tracker edges) items)
    \<and> (\<forall>i \<in> set items. \<forall>j \<in> set items. is_tracker edges i \<and> id_id i \<notin> set pinned \<and> id_id j \<in> set pinned \<longrightarrow> at_least_as_recent j i)"
proof -
  define trackers where "trackers = filter (is_tracker edges) items"
  define order where "order = js_sort (tracker_order lc) trackers"
  define ids where "ids = map id_id (take 100 order)"
  have dist: "distinct (map id_id order)"
    using assms(1) by (simp add: order_def trackers_def distinct_map_js_sort distinct_map_filter)
  then have ids_distinct: "distinct ids" unfolding ids_def take_map [symmetric] by (rule distinct_take)
  have "pinned = js_set_of ids"
    by (simp add: pinned_def programTrackerPin_def Let_def ids_def order_def trackers_def tracker_candidates_iff PROGRAM_TRACKER_PIN_LIMIT_def)
  then have pinned: "set pinned = set ids" "distinct pinned" by simp_all
  then have "length pinned = length ids" using ids_distinct by (metis distinct_card)
  then have "length pinned = min 100 (length trackers)" by (simp add: ids_def order_def)
  moreover have "set pinned \<subseteq> id_id ` set trackers"
    using set_take_subset [of 100 order] by (auto simp: pinned(1) ids_def order_def)
  moreover have "at_least_as_recent j i"
    if i_in: "i \<in> set items" "is_tracker edges i" "id_id i \<notin> set pinned" and j_in: "j \<in> set items" "id_id j \<in> set pinned" for i j
  proof -
    have same: "x = y" if "x \<in> set items" "y \<in> set items" "id_id x = id_id y" for x y
      using assms(1) that by (auto simp: distinct_map dest: inj_onD)
    obtain k where "k \<in> set (take 100 order)" "id_id k = id_id j" using j_in(2) by (auto simp: pinned(1) ids_def)
    then have j: "j \<in> set (take 100 order)"
      using same [of k j] j_in(1) in_set_takeD [of k 100 order] by (auto simp: order_def trackers_def)
    have "i \<in> set order" using i_in(1,2) by (simp add: order_def trackers_def)
    then have "i \<in> set (take 100 order) \<or> i \<in> set (drop 100 order)" by (metis append_take_drop_id set_append UnE)
    then have i: "i \<in> set (drop 100 order)" using i_in(3) by (auto simp: pinned(1) ids_def)
    have "sorted_wrt (\<lambda>a b. tracker_order lc a b \<le> 0) (take 100 order @ drop 100 order)"
      using comparator.sorted_js_sort [OF comparator_tracker_order [OF assms(2)]] by (simp add: order_def)
    then have "tracker_order lc j i \<le> 0" using i j unfolding sorted_wrt_append by blast
    then show ?thesis by (rule tracker_order_recent)
  qed
  ultimately show ?thesis using pinned(2) unfolding trackers_def by blast
qed

lemma pinned_edge:
  assumes "e \<in> set edges" and "pn_trackers (programTrackerPin lc items edges) = pinned"
    and "dg_type e = Parent \<and> dg_from e \<in> set pinned
      \<or> dg_type e = Blocks \<and> child_of edges (set pinned) (dg_from e) \<and> child_of edges (set pinned) (dg_to e)"
  shows "e \<in> set (pn_edges (programTrackerPin lc items edges))"
proof -
  define ids where "ids = js_set_of (map id_id (take PROGRAM_TRACKER_PIN_LIMIT (js_sort (tracker_order lc) (tracker_candidates items edges))))"
  have "pinned = ids" using assms(2) by (auto simp: programTrackerPin_def ids_def Let_def)
  moreover from this have "ids \<noteq> []" using assms(3) by (auto simp: \<open>pinned = ids\<close> child_of_def)
  have children: "set (map dg_to (filter (\<lambda>e. dg_type e = Parent \<and> dg_from e \<in> set ids) edges)) = Collect (child_of edges (set ids))"
    unfolding child_of_def by force
  have "pn_edges (programTrackerPin lc items edges) =
      filter (\<lambda>e. if dg_type e = Parent then dg_from e \<in> set ids
                  else dg_type e = Blocks \<and> child_of edges (set ids) (dg_from e) \<and> child_of edges (set ids) (dg_to e)) edges"
    unfolding programTrackerPin_def Let_def ids_def [symmetric] children using \<open>ids \<noteq> []\<close> by simp
  ultimately show ?thesis using assms(1,3) by auto
qed

lemma window_shows_trackers:
  assumes pinned: "pinned = pn_trackers (programTrackerPin lc items edges)"
    and ws: "ws = map (with_reasons p (set (edge_refs es)) t (set pinned)) (filter (\<lambda>i. id_id i \<in> p \<union> set (edge_refs es) \<union> t) items)"
    and edges: "\<And>e. e \<in> set (pn_edges (programTrackerPin lc items edges)) \<Longrightarrow> has_edge e"
    and kept: "\<And>e. has_edge e \<Longrightarrow> \<exists>f \<in> set es. dg_from f = dg_from e \<and> dg_to f = dg_to e"
    and trackers: "set pinned \<subseteq> id_id ` set (filter (is_tracker edges) items)"
  shows "shows_trackers items edges (set pinned) ws has_edge"
proof -
  note shown = window_items [OF ws]
  have parent: "has_edge e" if "e \<in> set edges" "dg_type e = Parent" "dg_from e \<in> set pinned" for e
    using pinned_edge [of e edges lc items pinned] edges that pinned by blast
  have blocks: "has_edge e"
    if "e \<in> set edges" "dg_type e = Blocks" "child_of edges (set pinned) (dg_from e)" "child_of edges (set pinned) (dg_to e)" for e
    using pinned_edge [of e edges lc items pinned] edges that pinned by blast
  have "shown_for ws r Program_Tracker" if r_in: "r \<in> set pinned" for r
  proof -
    obtain i where i: "i \<in> set items" "is_tracker edges i" "id_id i = r" using trackers r_in by auto
    then obtain e where e: "e \<in> set edges" "dg_type e = Parent" "dg_from e = r" by (auto simp: is_tracker_def)
    then obtain f where "f \<in> set es" "dg_from f = r" using kept [OF parent [OF e(1,2)]] r_in by auto
    moreover have "loaded items r" using i(1,3) unfolding loaded_def by blast
    ultimately show ?thesis using r_in by (auto simp: shown(4) set_edge_refs)
  qed
  moreover have "shown_for ws (dg_to e) Edge_Endpoint"
    if e_in: "e \<in> set edges" "dg_type e = Parent" "dg_from e \<in> set pinned" and e_to: "loaded items (dg_to e)" for e
  proof -
    obtain f where "f \<in> set es" "dg_to f = dg_to e" using kept [OF parent [OF e_in]] by auto
    then have "dg_to e \<in> dg_to ` set es" by (metis imageI)
    then show ?thesis using e_to by (simp add: shown(2) set_edge_refs)
  qed
  ultimately show ?thesis using parent blocks by (auto simp: shows_trackers_def)
qed

text \<open>
  Claim C21. Trackers are pinned into the windows: of the open labelled items with children the hundred last
  updated, or all where there are not more, and both windows, of the board and of any range, show each of them
  whatever its age, with all its parent edges, all blocks edges between children of pinned trackers, and every loaded child.
\<close>

theorem trackers_pinned:
  assumes "distinct (map id_id items)" and "comparator lc (\<lambda>_. True)"
  shows "\<exists>pinned. distinct pinned \<and> length pinned = min 100 (length (filter (is_tracker edges) items))
    \<and> set pinned \<subseteq> id_id ` set (filter (is_tracker edges) items)
    \<and> (\<forall>i \<in> set items. \<forall>j \<in> set items. is_tracker edges i \<and> id_id i \<notin> set pinned \<and> id_id j \<in> set pinned \<longrightarrow> at_least_as_recent j i)
    \<and> (\<forall>generatedAt w. buildWindowedProjection lc items edges generatedAt = Inr w \<longrightarrow>
         shows_trackers items edges (set pinned) (wp_items w) (\<lambda>e. e \<in> set (wp_edges w)))
    \<and> (\<forall>activities rg. let w = buildRangeProjection lc items edges activities rg in
         shows_trackers items edges (set pinned) (wp_items w) (\<lambda>e. dto_key e \<in> dto_key ` set (wp_edges w)))"
proof -
  define pinned where "pinned = pn_trackers (programTrackerPin lc items edges)"
  note pin = pinned_trackers [OF assms, of edges, folded pinned_def]
  have board: "shows_trackers items edges (set pinned) (wp_items w) (\<lambda>e. e \<in> set (wp_edges w))"
    if "buildWindowedProjection lc items edges generatedAt = Inr w" for generatedAt w
    using that
  proof (rule buildWindowedProjection_Inr)
    fix since primary pin'
    assume w: "pin' = programTrackerPin lc items edges"
        "wp_edges w = filter (\<lambda>e. dg_from e \<in> primary \<or> dg_to e \<in> primary \<or> e \<in> set (pn_edges pin')) edges"
        "wp_items w = map (with_reasons primary (set (edge_refs (wp_edges w))) {} (set (pn_trackers pin')))
           (filter (\<lambda>i. id_id i \<in> primary \<union> set (edge_refs (wp_edges w))) items)"
    show ?thesis
    proof (rule window_shows_trackers [OF pinned_def])
      show "wp_items w = map (with_reasons primary (set (edge_refs (wp_edges w))) {} (set pinned))
          (filter (\<lambda>i. id_id i \<in> primary \<union> set (edge_refs (wp_edges w)) \<union> {}) items)"
        using w(1,3) by (simp add: pinned_def)
    qed (use w(1,2) pin pin_edges_subset in auto)
  qed
  have range: "shows_trackers items edges (set pinned) (wp_items w) (\<lambda>e. dto_key e \<in> dto_key ` set (wp_edges w))"
    if "w = buildRangeProjection lc items edges activities rg" for activities rg w
  proof (rule window_shows_trackers [OF pinned_def range_window_parts(3) [of lc items edges activities rg, folded that pinned_def]])
    fix e
    show "dto_key e \<in> dto_key ` set (wp_edges w)" if "e \<in> set (pn_edges (programTrackerPin lc items edges))"
      unfolding \<open>w = _\<close> range_window_edges(3) by (rule imageI) (use that in \<open>simp add: range_edges_def Let_def\<close>)
    show "\<exists>f \<in> set (wp_edges w). dg_from f = dg_from e \<and> dg_to f = dg_to e" if "dto_key e \<in> dto_key ` set (wp_edges w)"
      using that by (auto simp: dto_key_def)
  qed (use pin in blast)
  show ?thesis using pin board range by (intro exI [of _ pinned]) (auto simp: Let_def)
qed

section \<open>Counts per repository\<close>

lemma get_inc: "or_else (jm_get (inc k c) s) 0 = or_else (jm_get c s) 0 + (if s = k then 1 else 0)"
  by (simp add: inc_def jsmap_simps)

lemma add_repo_item_get:
  "jm_get (fold add_repo_item items jm_empty) k =
     (case filter (\<lambda>i. item_repo i = k) items of
        [] \<Rightarrow> None
      | i # is' \<Rightarrow> Some (fold count_item (i # is') (empty_repo i)))"
proof (induction items rule: rev_induct)
  case Nil
  then show ?case by (simp add: jsmap_simps)
next
  case (snoc i items)
  then show ?case
    by (auto simp: add_repo_item_def jsmap_simps split: list.splits)
qed

lemma fold_count_item:
  "rs_items (fold count_item items r) = rs_items r + length items \<and>
   rs_source_id (fold count_item items r) = rs_source_id r \<and>
   rs_project_path (fold count_item items r) = rs_project_path r \<and>
   or_else (jm_get (rs_by_state (fold count_item items r)) s) 0 =
     or_else (jm_get (rs_by_state r) s) 0 + length (filter (\<lambda>i. state_name (id_state i) = s) items) \<and>
   or_else (jm_get (rs_by_kind (fold count_item items r)) k) 0 =
     or_else (jm_get (rs_by_kind r) k) 0 + length (filter (\<lambda>i. kind_name (id_kind i) = k) items)"
  by (induction items arbitrary: r) (auto simp: count_item_def get_inc)

definition repo_of :: "repo_stats \<Rightarrow> repo_key_t" where
  "repo_of r = repoKey (rs_source_id r) (rs_project_path r)"

lemma repo_entry:
  assumes "jm_get (fold add_repo_item items jm_empty) k = Some r"
  shows "repo_of r = k \<and> rs_items r = length (filter (\<lambda>i. item_repo i = k) items) \<and>
    or_else (jm_get (rs_by_state r) s) 0 =
      length (filter (\<lambda>i. item_repo i = k \<and> state_name (id_state i) = s) items) \<and>
    or_else (jm_get (rs_by_kind r) n) 0 =
      length (filter (\<lambda>i. item_repo i = k \<and> kind_name (id_kind i) = n) items)"
proof (cases "filter (\<lambda>i. item_repo i = k) items")
  case Nil
  with assms show ?thesis by (simp add: add_repo_item_get)
next
  case (Cons i rest)
  with assms have r: "r = fold count_item (i # rest) (empty_repo i)"
    by (simp only: add_repo_item_get list.case option.inject)
  have "i \<in> set (filter (\<lambda>i. item_repo i = k) items)" by (simp add: Cons)
  then have k: "item_repo i = k" by simp
  have "filter P (filter (\<lambda>i. item_repo i = k) items) = filter P (i # rest)" for P by (simp only: Cons)
  then have f: "filter (\<lambda>i. item_repo i = k \<and> P i) items = filter P (i # rest)" for P
    by (simp add: conj_commute)
  have empty: "rs_items (empty_repo i) = 0" "rs_source_id (empty_repo i) = id_source_id i"
    "rs_project_path (empty_repo i) = id_project_path i" "rs_by_state (empty_repo i) = jm_empty"
    "rs_by_kind (empty_repo i) = jm_empty"
    by (simp_all add: empty_repo_def)
  have counts: "rs_items r = length (i # rest)" "rs_source_id r = id_source_id i" "rs_project_path r = id_project_path i"
    "or_else (jm_get (rs_by_state r) s) 0 = length (filter (\<lambda>i. state_name (id_state i) = s) (i # rest))"
    "or_else (jm_get (rs_by_kind r) n) 0 = length (filter (\<lambda>i. kind_name (id_kind i) = n) (i # rest))"
    using fold_count_item [of "i # rest" "empty_repo i" s n]
    unfolding r empty by (simp_all only: jm_get_empty or_else_simps add_0)
  have "repo_of r = k" using counts(2,3) k by (simp add: repo_of_def item_repo_def)
  then show ?thesis unfolding f Cons counts by (simp only: simp_thms)
qed

text \<open>
  The repository counts are exact: one entry for each repository that has items, whose
  totals by state and by kind count the items of that repository.
\<close>

theorem repo_stats_exact:
  "set (map repo_of (buildRepoStats lc items)) = item_repo ` set items \<and>
   distinct (map repo_of (buildRepoStats lc items)) \<and>
   list_all (\<lambda>r. rs_items r = length (filter (\<lambda>i. item_repo i = repo_of r) items) \<and>
     (\<forall>s. or_else (jm_get (rs_by_state r) s) 0 =
        length (filter (\<lambda>i. item_repo i = repo_of r \<and> state_name (id_state i) = s) items)) \<and>
     (\<forall>k. or_else (jm_get (rs_by_kind r) k) 0 =
        length (filter (\<lambda>i. item_repo i = repo_of r \<and> kind_name (id_kind i) = k) items)))
     (buildRepoStats lc items)"
proof -
  define m where "m = fold add_repo_item items jm_empty"
  have keys: "distinct (jm_keys m)"
    unfolding m_def by (rule fold_invariant_list) (auto simp: jsmap_simps add_repo_item_def)
  have dom: "set (jm_keys m) = item_repo ` set items"
  proof (intro set_eqI)
    fix k
    have "filter (\<lambda>i. item_repo i = k) items = [] \<longleftrightarrow> k \<notin> item_repo ` set items"
      by (auto simp: filter_empty_conv)
    then show "k \<in> set (jm_keys m) \<longleftrightarrow> k \<in> item_repo ` set items"
      using jm_get_None_iff [of m k] by (auto simp: m_def add_repo_item_get split: list.splits)
  qed
  have "repo_of v = k" if "(k, v) \<in> set m" for k v
    using repo_entry [of items k v] jm_get_mem [OF keys that] by (simp add: m_def)
  then have repos: "map repo_of (jm_values m) = jm_keys m"
    by (auto simp: jm_values_def jm_keys_def)
  have repo_set: "repo_of ` set (jm_values m) = item_repo ` set items"
    using arg_cong [OF repos, of set] dom by (simp only: set_map)
  have "rs_items r = length (filter (\<lambda>i. item_repo i = repo_of r) items) \<and>
     or_else (jm_get (rs_by_state r) s) 0 =
       length (filter (\<lambda>i. item_repo i = repo_of r \<and> state_name (id_state i) = s) items) \<and>
     or_else (jm_get (rs_by_kind r) n) 0 =
       length (filter (\<lambda>i. item_repo i = repo_of r \<and> kind_name (id_kind i) = n) items)"
    if "r \<in> set (jm_values m)" for r s n
  proof -
    obtain k where "jm_get m k = Some r" using \<open>r \<in> set (jm_values m)\<close> keys by (auto simp: jm_values_get)
    from repo_entry [OF this [unfolded m_def], of s n] show ?thesis by (elim conjE) (simp only: simp_thms)
  qed
  then have "list_all (\<lambda>r. rs_items r = length (filter (\<lambda>i. item_repo i = repo_of r) items) \<and>
     (\<forall>s. or_else (jm_get (rs_by_state r) s) 0 =
        length (filter (\<lambda>i. item_repo i = repo_of r \<and> state_name (id_state i) = s) items)) \<and>
     (\<forall>k. or_else (jm_get (rs_by_kind r) k) 0 =
        length (filter (\<lambda>i. item_repo i = repo_of r \<and> kind_name (id_kind i) = k) items)))
     (jm_values m)"
    unfolding list_all_iff by blast
  then show ?thesis
    using keys repo_set unfolding buildRepoStats_def m_def [symmetric] list_all_iff
    by (simp add: distinct_map_js_sort repos)
qed

section \<open>A sample window\<close>

definition sample_rows :: mapped_rows where
  "sample_rows = projr (mapRows sample_input)"

definition sample_collation :: "string \<Rightarrow> string \<Rightarrow> int" where
  "sample_collation = by_key (\<lambda>x. x)"

definition sample_window :: "projection_rows result" where
  "sample_window = buildWindowedProjection sample_collation (mr_items sample_rows) (mr_edges sample_rows) ''2025-01-15T00:00:00.000Z''"

lemma sample_loaded:
  "map id_id (mr_items sample_rows) = [''gh|a'', ''gh|b'']"
  "map (\<lambda>i. itemActiveSince i (Some ''2024-10-17T00:00:00.000Z'')) (mr_items sample_rows) = [True, False]"
  "map (\<lambda>i. itemUpdatedInRange i \<lparr>tr_from = ''2025-01-01T00:00:00.000Z'', tr_to = ''2025-01-31T00:00:00.000Z''\<rparr>)
     (mr_items sample_rows) = [True, False]"
  "cutoffIso CONTRACT_ITEM_WINDOW_DAYS ''2025-01-15T00:00:00.000Z'' = Inr ''2024-10-17T00:00:00.000Z''"
  "map (\<lambda>e. (dg_type e, dg_from e, dg_to e)) (mr_edges sample_rows) = [(Blocks, ''gh|a'', ''gh|b''), (Parent, ''gh|b'', ''gh|d'')]"
  "map id_id (tracker_candidates (mr_items sample_rows) (mr_edges sample_rows)) = [''gh|b'']"
  by code_simp+

lemma sample_window_ok:
  obtains w where "buildWindowedProjection sample_collation (mr_items sample_rows) (mr_edges sample_rows) ''2025-01-15T00:00:00.000Z'' = Inr w"
  using that by (auto simp: buildWindowedProjection_def sample_loaded(4) Let_def)

lemma sample_items_cases:
  obtains a b where "mr_items sample_rows = [a, b]" and "id_id a = ''gh|a''" and "id_id b = ''gh|b''"
    and "itemActiveSince a (Some ''2024-10-17T00:00:00.000Z'')"
    and "itemUpdatedInRange a \<lparr>tr_from = ''2025-01-01T00:00:00.000Z'', tr_to = ''2025-01-31T00:00:00.000Z''\<rparr>"
  using sample_loaded(1,2,3) that by (auto simp: map_eq_Cons_conv)

lemma sample_edges_cases:
  obtains e f where "mr_edges sample_rows = [e, f]" and "dg_from e = ''gh|a''" and "dg_to e = ''gh|b''"
    and "dg_type f = Parent" and "dg_from f = ''gh|b''"
  using sample_loaded(5) that by (auto simp: map_eq_Cons_conv)

theorem board_window_closed_witness:
  "\<exists>w. sample_window = Inr w \<and> shown_for (wp_items w) ''gh|a'' Primary \<and> shown_for (wp_items w) ''gh|b'' Edge_Endpoint"
proof -
  obtain w where w: "buildWindowedProjection sample_collation (mr_items sample_rows) (mr_edges sample_rows) ''2025-01-15T00:00:00.000Z'' = Inr w"
    by (rule sample_window_ok)
  obtain a b where items: "mr_items sample_rows = [a, b]" "id_id a = ''gh|a''" "id_id b = ''gh|b''"
    "itemActiveSince a (Some ''2024-10-17T00:00:00.000Z'')" by (rule sample_items_cases)
  obtain e f where edges: "mr_edges sample_rows = [e, f]" "dg_from e = ''gh|a''" "dg_to e = ''gh|b''"
    by (rule sample_edges_cases)
  have "shown_for (wp_items w) ''gh|a'' Primary" "e \<in> set (wp_edges w)"
    using board_window_closed [OF w] items edges by (auto simp: sample_loaded(4))
  moreover from this have "shown_for (wp_items w) ''gh|b'' Edge_Endpoint"
    using board_window_closed [OF w] items edges by (auto simp: loaded_def)
  ultimately show ?thesis using w by (auto simp: sample_window_def)
qed

theorem board_window_counts_witness:
  "\<exists>w. sample_window = Inr w \<and>
     iw_primary_items (wp_window w) + iw_edge_endpoint_items (wp_window w) = length (wp_items w) \<and>
     iw_total_items (wp_window w) = 2"
proof -
  obtain w where w: "buildWindowedProjection sample_collation (mr_items sample_rows) (mr_edges sample_rows) ''2025-01-15T00:00:00.000Z'' = Inr w"
    by (rule sample_window_ok)
  moreover have "distinct (map id_id (mr_items sample_rows))" by (simp add: sample_loaded(1))
  moreover have "length (mr_items sample_rows) = 2" using arg_cong [OF sample_loaded(1), of length] by simp
  ultimately show ?thesis using board_window_counts [OF w] by (auto simp: sample_window_def)
qed

lemma sample_collation_ok: "comparator sample_collation (\<lambda>_. True)"
  unfolding sample_collation_def by (rule comparator_by_key)

theorem trackers_pinned_witness:
  "\<exists>w. sample_window = Inr w \<and> shown_for (wp_items w) ''gh|b'' Program_Tracker
     \<and> (\<exists>f \<in> set (wp_edges w). dg_type f = Parent \<and> dg_from f = ''gh|b'')"
proof -
  obtain w where w: "buildWindowedProjection sample_collation (mr_items sample_rows) (mr_edges sample_rows) ''2025-01-15T00:00:00.000Z'' = Inr w"
    by (rule sample_window_ok)
  obtain e f where edges: "mr_edges sample_rows = [e, f]" "dg_type f = Parent" "dg_from f = ''gh|b''"
    by (rule sample_edges_cases)
  have "map id_id (filter (is_tracker (mr_edges sample_rows)) (mr_items sample_rows)) = [''gh|b'']"
    using sample_loaded(6) by (simp add: tracker_candidates_iff)
  then obtain i where i: "filter (is_tracker (mr_edges sample_rows)) (mr_items sample_rows) = [i]" "id_id i = ''gh|b''"
    by (auto simp: map_eq_Cons_conv)
  have "distinct (map id_id (mr_items sample_rows))" by (simp add: sample_loaded(1))
  from trackers_pinned [OF this sample_collation_ok, of "mr_edges sample_rows"] obtain pinned where pinned:
      "length pinned = min 100 (length [i])" "set pinned \<subseteq> id_id ` set [i]"
      "shows_trackers (mr_items sample_rows) (mr_edges sample_rows) (set pinned) (wp_items w) (\<lambda>e. e \<in> set (wp_edges w))"
    using w unfolding i(1) by blast
  then have "set pinned = {''gh|b''}" using i(2) by (cases pinned) auto
  then have "shown_for (wp_items w) ''gh|b'' Program_Tracker" "f \<in> set (wp_edges w)"
    using pinned(3) edges by (auto simp: shows_trackers_def)
  then show ?thesis using w edges by (auto simp: sample_window_def)
qed

theorem range_window_closed_witness:
  "shown_for (wp_items (buildRangeProjection sample_collation (mr_items sample_rows) (mr_edges sample_rows) []
     \<lparr>tr_from = ''2025-01-01T00:00:00.000Z'', tr_to = ''2025-01-31T00:00:00.000Z''\<rparr>)) ''gh|a'' Primary"
proof -
  obtain a b where "mr_items sample_rows = [a, b]" "id_id a = ''gh|a''"
    "itemUpdatedInRange a \<lparr>tr_from = ''2025-01-01T00:00:00.000Z'', tr_to = ''2025-01-31T00:00:00.000Z''\<rparr>"
    by (rule sample_items_cases)
  then show ?thesis
    using range_window_closed [of "mr_items sample_rows" "\<lparr>tr_from = ''2025-01-01T00:00:00.000Z'', tr_to = ''2025-01-31T00:00:00.000Z''\<rparr>"
        sample_collation "mr_edges sample_rows" "[]"] by auto
qed

end
