(* ===== verification/Graph_Neighborhood.thy ===== *)
theory Graph_Neighborhood
  imports Contract_Window
begin

text \<open>
  The bounded neighbourhood of an item and the program of a tracker
  (\<open>src/server/graph-neighborhood.ts\<close>, the two builders and the options they take).

  The builders work on the mapped rows of a snapshot.  The queue of the breadth-first search is the
  part of the source's queue that is not visited yet.  The parameters of a URL are a list of names
  and values, the first value of a name being the one that is read.
\<close>

section \<open>Options\<close>

datatype mention_mode = All_Mentions | Direct_Mentions
datatype graph_scope = Neighborhood | Program
datatype limit_reason = Depth_Limit | Nodes_Limit | Edges_Limit

record graph_options =
  go_focus_ref :: string
  go_depth :: nat
  go_mention_mode :: mention_mode
  go_scope :: graph_scope

definition GRAPH_NEIGHBORHOOD_DEFAULT_DEPTH :: nat where
  "GRAPH_NEIGHBORHOOD_DEFAULT_DEPTH = 1"

definition GRAPH_NEIGHBORHOOD_MAX_DEPTH :: nat where
  "GRAPH_NEIGHBORHOOD_MAX_DEPTH = 5"

definition GRAPH_NEIGHBORHOOD_MAX_NODES :: nat where
  "GRAPH_NEIGHBORHOOD_MAX_NODES = 200"

definition GRAPH_NEIGHBORHOOD_MAX_EDGES :: nat where
  "GRAPH_NEIGHBORHOOD_MAX_EDGES = 500"

definition GRAPH_PROGRAM_DEPTH :: nat where
  "GRAPH_PROGRAM_DEPTH = 2"

definition positiveLimit :: "rat option \<Rightarrow> nat \<Rightarrow> nat" where
  "positiveLimit v fallback =
     (case v of None \<Rightarrow> fallback | Some q \<Rightarrow> if is_integer q \<and> 0 < q then nat \<lfloor>q\<rfloor> else fallback)"

definition search_param :: "(string \<times> string) list \<Rightarrow> string \<Rightarrow> string option" where
  "search_param url k = map_option snd (List.find (\<lambda>p. fst p = k) url)"

definition depth_error :: string where
  "depth_error = ''depth must be an integer from 1 to '' @ nat_str GRAPH_NEIGHBORHOOD_MAX_DEPTH"

definition checked_depth :: "rat option \<Rightarrow> nat result" where
  "checked_depth d =
     (case d of
        None \<Rightarrow> Inl depth_error
      | Some q \<Rightarrow>
          if \<not> is_integer q \<or> q < 1 \<or> of_nat GRAPH_NEIGHBORHOOD_MAX_DEPTH < q then Inl depth_error
          else Inr (nat \<lfloor>q\<rfloor>))"

definition trimmed_param :: "(string \<times> string) list \<Rightarrow> string \<Rightarrow> string \<Rightarrow> string" where
  "trimmed_param url k fallback =
     or_else (truthy_text (map_option js_trim (search_param url k))) fallback"

definition parseGraphNeighborhoodOptions :: "(string \<times> string) list \<Rightarrow> graph_options result" where
  "parseGraphNeighborhoodOptions url =
     (let focusRef = or_else (map_option js_trim (search_param url ''ref'')) [] in
      if focusRef = [] then Inl ''ref is required''
      else
        (let rawDepth = search_param url ''depth'' in
         rbind (checked_depth
                 (if rawDepth = None \<or> rawDepth = Some [] then Some (of_nat GRAPH_NEIGHBORHOOD_DEFAULT_DEPTH)
                  else Option.bind rawDepth js_number)) (\<lambda>depth.
         let rawMentionMode = trimmed_param url ''mentions'' ''all'' in
         if rawMentionMode \<noteq> ''all'' \<and> rawMentionMode \<noteq> ''direct'' then Inl ''mentions must be \"all\" or \"direct\"''
         else
           (let rawScope = trimmed_param url ''scope'' ''neighborhood'' in
            if rawScope \<noteq> ''neighborhood'' \<and> rawScope \<noteq> ''program''
            then Inl ''scope must be \"neighborhood\" or \"program\"''
            else Inr \<lparr>go_focus_ref = focusRef, go_depth = depth,
                      go_mention_mode = (if rawMentionMode = ''all'' then All_Mentions else Direct_Mentions),
                      go_scope = (if rawScope = ''program'' then Program else Neighborhood)\<rparr>))))"

section \<open>Edges and refs\<close>

definition compareEdges :: "(string \<Rightarrow> string \<Rightarrow> int) \<Rightarrow> edge_dto \<Rightarrow> edge_dto \<Rightarrow> int" where
  "compareEdges lc =
     then_by (by_collation lc dg_from) (then_by (by_collation lc dg_to) (by_collation lc (edge_type_text \<circ> dg_type)))"

definition otherRef :: "edge_dto \<Rightarrow> string \<Rightarrow> string option" where
  "otherRef edge ref =
     (if dg_from edge = ref then Some (dg_to edge) else if dg_to edge = ref then Some (dg_from edge) else None)"

definition add_incident ::
  "edge_dto \<Rightarrow> (string, edge_dto list) jsmap \<Rightarrow> (string, edge_dto list) jsmap"
where
  "add_incident edge incident =
     fold (\<lambda>ref m. jm_set ref (or_else (jm_get m ref) [] @ [edge]) m)
       (if dg_from edge = dg_to edge then [dg_from edge] else [dg_from edge, dg_to edge]) incident"

definition incident_edges :: "edge_dto list \<Rightarrow> (string, edge_dto list) jsmap" where
  "incident_edges edges = fold add_incident edges jm_empty"

definition incident_at :: "(string, edge_dto list) jsmap \<Rightarrow> string \<Rightarrow> edge_dto list" where
  "incident_at incident ref = or_else (jm_get incident ref) []"

definition neighbours ::
  "(string \<Rightarrow> string \<Rightarrow> int) \<Rightarrow> (string, edge_dto list) jsmap \<Rightarrow> string \<Rightarrow> (edge_dto \<times> string) list"
where
  "neighbours lc incident ref =
     js_sort (then_by (by_collation lc snd) (\<lambda>a b. compareEdges lc (fst a) (fst b)))
       (List.map_filter (\<lambda>e. map_option (\<lambda>other. (e, other)) (otherRef e ref)) (incident_at incident ref))"

section \<open>The search\<close>

record search =
  sr_hops :: "(string, nat) jsmap"
  sr_queue :: "string list"
  sr_tree :: "dto_key list"
  sr_reasons :: "limit_reason list"

definition add_reason :: "limit_reason \<Rightarrow> search \<Rightarrow> search" where
  "add_reason r s = s\<lparr>sr_reasons := List.insert r (sr_reasons s)\<rparr>"

definition discover :: "nat \<Rightarrow> nat \<Rightarrow> nat \<Rightarrow> edge_dto \<times> string \<Rightarrow> search \<Rightarrow> search" where
  "discover depth maxNodes nextHop entry s =
     (if jm_has (sr_hops s) (snd entry) then s
      else if depth < nextHop then add_reason Depth_Limit s
      else if maxNodes \<le> length (sr_hops s) then add_reason Nodes_Limit s
      else s\<lparr>sr_hops := jm_set (snd entry) nextHop (sr_hops s), sr_queue := sr_queue s @ [snd entry],
             sr_tree := List.insert (dto_key (fst entry)) (sr_tree s)\<rparr>)"

definition visit ::
  "(string \<Rightarrow> string \<Rightarrow> int) \<Rightarrow> (string, edge_dto list) jsmap \<Rightarrow> nat \<Rightarrow> nat \<Rightarrow> string \<Rightarrow> search \<Rightarrow> search"
where
  "visit lc incident depth maxNodes ref s =
     fold (discover depth maxNodes (or_else (jm_get (sr_hops s) ref) 0 + 1)) (neighbours lc incident ref) s"

text \<open>Every turn of the loop takes a ref off the queue; one is put on it only when it is discovered.\<close>

definition incident_refs :: "(string, edge_dto list) jsmap \<Rightarrow> string set" where
  "incident_refs incident = (\<Union>e\<in>set (concat (jm_values incident)). {dg_from e, dg_to e})"

definition search_left :: "(string, edge_dto list) jsmap \<Rightarrow> search \<Rightarrow> nat" where
  "search_left incident s = 2 * card (incident_refs incident - set (jm_keys (sr_hops s))) + length (sr_queue s)"

lemma finite_incident_refs [simp]: "finite (incident_refs incident)"
  by (simp add: incident_refs_def)

lemma neighbours_mem:
  "(e, v) \<in> set (neighbours lc incident u) \<longleftrightarrow> e \<in> set (incident_at incident u) \<and> otherRef e u = Some v"
  by (force simp: neighbours_def List.map_filter_def)

lemma incident_at_refs:
  "e \<in> set (incident_at incident u) \<Longrightarrow> dg_from e \<in> incident_refs incident \<and> dg_to e \<in> incident_refs incident"
  using jm_get_Some_value [of incident u]
  by (cases "jm_get incident u") (fastforce simp: incident_at_def incident_refs_def)+

lemma neighbour_known: "(e, v) \<in> set (neighbours lc incident u) \<Longrightarrow> v \<in> incident_refs incident"
  using incident_at_refs [of e incident u] by (auto simp: neighbours_mem otherRef_def split: if_splits)

lemma discover_left:
  "snd entry \<in> incident_refs incident \<Longrightarrow> search_left incident (discover depth cap h entry s) \<le> search_left incident s"
proof (cases "jm_has (sr_hops s) (snd entry) \<or> depth < h \<or> cap \<le> length (sr_hops s)")
  case False
  assume known: "snd entry \<in> incident_refs incident"
  let ?left = "incident_refs incident - set (jm_keys (sr_hops s))"
  have "snd entry \<in> ?left" using False known by (simp add: jm_has_iff)
  then have "card ?left = Suc (card (?left - {snd entry}))" by (intro card_Suc_Diff1 [symmetric]) auto
  moreover have "incident_refs incident - insert (snd entry) (set (jm_keys (sr_hops s))) = ?left - {snd entry}" by auto
  ultimately show ?thesis using False by (simp add: discover_def search_left_def)
qed (auto simp: discover_def search_left_def add_reason_def)

lemma visit_left: "search_left incident (visit lc incident depth cap ref s) \<le> search_left incident s"
proof -
  have "search_left incident (fold (discover depth cap h) es s) \<le> search_left incident s"
    if "set es \<subseteq> set (neighbours lc incident ref)" for es h
    using that
  proof (induction es arbitrary: s)
    case (Cons e es)
    have "search_left incident (fold (discover depth cap h) es (discover depth cap h e s))
        \<le> search_left incident (discover depth cap h e s)"
      using Cons by simp
    also have "\<dots> \<le> search_left incident s"
      by (rule discover_left) (use Cons.prems neighbour_known [of "fst e" "snd e"] in auto)
    finally show ?case by simp
  qed simp
  then show ?thesis by (simp add: visit_def)
qed

function run_search ::
  "(string \<Rightarrow> string \<Rightarrow> int) \<Rightarrow> (string, edge_dto list) jsmap \<Rightarrow> nat \<Rightarrow> nat \<Rightarrow> search \<Rightarrow> search"
where
  "run_search lc incident depth maxNodes s =
     (case sr_queue s of
        [] \<Rightarrow> s
      | ref # rest \<Rightarrow>
          run_search lc incident depth maxNodes (visit lc incident depth maxNodes ref (s\<lparr>sr_queue := rest\<rparr>)))"
  by pat_completeness auto
termination
proof (relation "measure (\<lambda>(lc, incident, depth, cap, s). search_left incident s)")
  fix lc incident depth cap ref rest and s :: search
  assume "sr_queue s = ref # rest"
  then have "search_left incident (s\<lparr>sr_queue := rest\<rparr>) < search_left incident s"
    by (simp add: search_left_def)
  then have "search_left incident (visit lc incident depth cap ref (s\<lparr>sr_queue := rest\<rparr>)) < search_left incident s"
    using visit_left le_less_trans by blast
  then show "((lc, incident, depth, cap, visit lc incident depth cap ref (s\<lparr>sr_queue := rest\<rparr>)), lc, incident, depth, cap, s)
      \<in> measure (\<lambda>(lc, incident, depth, cap, s). search_left incident s)"
    by simp
qed simp

declare run_search.simps [simp del]

section \<open>The neighbourhood\<close>

record graph_node =
  gn_ref :: string
  gn_hop :: nat
  gn_item :: "item_dto option"

record graph_response =
  gr_generated_at :: string
  gr_focus_ref :: string
  gr_requested_depth :: nat
  gr_reached_depth :: nat
  gr_complete :: bool
  gr_limit_reasons :: "limit_reason list"
  gr_max_depth :: nat
  gr_max_nodes :: nat
  gr_max_edges :: nat
  gr_nodes :: "graph_node list"
  gr_edges :: "edge_dto list"

record graph_input =
  gi_sources :: "(string \<times> source_row \<times> state_row option) list"
  gi_items :: "item_row list"
  gi_labels :: "label_row list"
  gi_edges :: "reconciled_edge list"
  gi_generated_at :: string
  gi_configured_repos :: "repo_ref list option"
  gi_focus_ref :: string
  gi_depth :: "rat option"
  gi_mention_mode :: "mention_mode option"
  gi_max_nodes :: "rat option"
  gi_max_edges :: "rat option"

definition graph_rows :: "graph_input \<Rightarrow> mapped_rows result" where
  "graph_rows inp =
     mapRows \<lparr>bi_sources = gi_sources inp, bi_items = gi_items inp, bi_labels = gi_labels inp,
       bi_edges = gi_edges inp, bi_activities = [], bi_review_threads = [],
       bi_generated_at = gi_generated_at inp, bi_source_colors = [], bi_repo_colors = [],
       bi_configured_repos = gi_configured_repos inp, bi_full_window = False\<rparr>"

definition not_found :: "string \<Rightarrow> string" where
  "not_found focusRef = ''focus ref not found: '' @ focusRef"

definition start_search :: "string \<Rightarrow> search" where
  "start_search focusRef =
     \<lparr>sr_hops = [(focusRef, 0)], sr_queue = [focusRef], sr_tree = [], sr_reasons = []\<rparr>"

definition add_mention :: "string \<Rightarrow> nat \<Rightarrow> edge_dto \<Rightarrow> search \<Rightarrow> search" where
  "add_mention focusRef maxNodes edge s =
     (if dg_type edge \<noteq> Mentions then s
      else (case otherRef edge focusRef of
              None \<Rightarrow> s
            | Some other \<Rightarrow>
                if jm_has (sr_hops s) other then s\<lparr>sr_tree := List.insert (dto_key edge) (sr_tree s)\<rparr>
                else if maxNodes \<le> length (sr_hops s) then add_reason Nodes_Limit s
                else s\<lparr>sr_hops := jm_set other 1 (sr_hops s), sr_tree := List.insert (dto_key edge) (sr_tree s)\<rparr>))"

definition search_graph ::
  "(string \<Rightarrow> string \<Rightarrow> int) \<Rightarrow> edge_dto list \<Rightarrow> string \<Rightarrow> nat \<Rightarrow> mention_mode \<Rightarrow> nat \<Rightarrow> search"
where
  "search_graph lc edges focusRef depth mode maxNodes =
     (let traversal = (if mode = All_Mentions then edges else noMentions edges);
          s = run_search lc (incident_edges traversal) depth maxNodes (start_search focusRef) in
      if mode = Direct_Mentions then fold (add_mention focusRef maxNodes) edges s else s)"

definition edge_distance :: "(string, nat) jsmap \<Rightarrow> edge_dto \<Rightarrow> nat" where
  "edge_distance hops e = max (or_else (jm_get hops (dg_from e)) 0) (or_else (jm_get hops (dg_to e)) 0)"

definition induced_edges :: "edge_dto list \<Rightarrow> string \<Rightarrow> mention_mode \<Rightarrow> (string, nat) jsmap \<Rightarrow> edge_dto list" where
  "induced_edges edges focusRef mode hops =
     (let eligible =
            (if mode = All_Mentions then edges
             else filter (\<lambda>e. dg_type e \<noteq> Mentions \<or> dg_from e = focusRef \<or> dg_to e = focusRef) edges) in
      filter (\<lambda>e. jm_has hops (dg_from e) \<and> jm_has hops (dg_to e)) eligible)"

definition select_edges ::
  "(string \<Rightarrow> string \<Rightarrow> int) \<Rightarrow> search \<Rightarrow> nat \<Rightarrow> edge_dto list \<Rightarrow> edge_dto list"
where
  "select_edges lc s maxEdges induced =
     (let order = then_by (\<lambda>a b. int (edge_distance (sr_hops s) a) - int (edge_distance (sr_hops s) b)) (compareEdges lc);
          treeEdges = js_sort order (filter (\<lambda>e. dto_key e \<in> set (sr_tree s)) induced);
          extraEdges = js_sort order (filter (\<lambda>e. dto_key e \<notin> set (sr_tree s)) induced) in
      take maxEdges (treeEdges @ extraEdges))"

definition graph_nodes ::
  "(string \<Rightarrow> string \<Rightarrow> int) \<Rightarrow> (string, item_dto) jsmap \<Rightarrow> (string \<times> nat) list \<Rightarrow> graph_node list"
where
  "graph_nodes lc byRef hops =
     js_sort (then_by (\<lambda>a b. int (gn_hop a) - int (gn_hop b)) (by_collation lc gn_ref))
       (map (\<lambda>(ref, hop). \<lparr>gn_ref = ref, gn_hop = hop, gn_item = jm_get byRef ref\<rparr>) hops)"

definition graph_response_of ::
  "graph_input \<Rightarrow> nat \<Rightarrow> nat \<Rightarrow> nat \<Rightarrow> limit_reason list \<Rightarrow> graph_node list \<Rightarrow> edge_dto list \<Rightarrow> graph_response"
where
  "graph_response_of inp depth maxNodes maxEdges reasons nodes edges =
     (let limitReasons = filter (\<lambda>r. r \<in> set reasons) [Depth_Limit, Nodes_Limit, Edges_Limit] in
      \<lparr>gr_generated_at = gi_generated_at inp, gr_focus_ref = gi_focus_ref inp, gr_requested_depth = depth,
       gr_reached_depth = foldr max (map gn_hop nodes) 0, gr_complete = (limitReasons = []),
       gr_limit_reasons = limitReasons, gr_max_depth = GRAPH_NEIGHBORHOOD_MAX_DEPTH,
       gr_max_nodes = maxNodes, gr_max_edges = maxEdges, gr_nodes = nodes, gr_edges = edges\<rparr>)"

definition buildGraphNeighborhood :: "(string \<Rightarrow> string \<Rightarrow> int) \<Rightarrow> graph_input \<Rightarrow> graph_response result" where
  "buildGraphNeighborhood lc inp =
     rbind (checked_depth (Some (or_else (gi_depth inp) (of_nat GRAPH_NEIGHBORHOOD_DEFAULT_DEPTH)))) (\<lambda>depth.
     let mode = or_else (gi_mention_mode inp) All_Mentions;
         maxNodes = positiveLimit (gi_max_nodes inp) GRAPH_NEIGHBORHOOD_MAX_NODES;
         maxEdges = positiveLimit (gi_max_edges inp) GRAPH_NEIGHBORHOOD_MAX_EDGES in
     rbind (graph_rows inp) (\<lambda>m.
     let edges = js_sort (compareEdges lc) (mr_edges m);
         byRef = items_by_id (mr_items m);
         traversal = (if mode = All_Mentions then edges else noMentions edges) in
     if \<not> jm_has byRef (gi_focus_ref inp) \<and> \<not> jm_has (incident_edges traversal) (gi_focus_ref inp)
     then Inl (not_found (gi_focus_ref inp))
     else
       (let s = search_graph lc edges (gi_focus_ref inp) depth mode maxNodes;
            induced = induced_edges edges (gi_focus_ref inp) mode (sr_hops s);
            selected = select_edges lc s maxEdges induced;
            reasons = (if length selected < length induced then Edges_Limit # sr_reasons s else sr_reasons s) in
        Inr (graph_response_of inp depth maxNodes maxEdges reasons (graph_nodes lc byRef (sr_hops s)) selected))))"

section \<open>The program of a tracker\<close>

definition into_child :: "(string, nat) jsmap \<Rightarrow> edge_dto list \<Rightarrow> edge_type \<Rightarrow> edge_dto list" where
  "into_child hops edges type =
     filter (\<lambda>e. dg_type e = type \<and> jm_get hops (dg_to e) = Some 1 \<and> dg_from e \<noteq> dg_to e) edges"

definition program_parents :: "edge_dto list \<Rightarrow> string \<Rightarrow> edge_dto list" where
  "program_parents edges focusRef =
     filter (\<lambda>e. dg_type e = Parent \<and> dg_from e = focusRef \<and> dg_to e \<noteq> focusRef) edges"

definition program_candidates :: "(string, nat) jsmap \<Rightarrow> edge_dto list \<Rightarrow> edge_dto list \<Rightarrow> edge_dto list" where
  "program_candidates hops parentEdges edges =
     filter (\<lambda>e. jm_get hops (dg_to e) = Some 1) parentEdges @
     filter (\<lambda>e. jm_get hops (dg_from e) = Some 1) (into_child hops edges Blocks) @
     into_child hops edges Closes @
     filter (\<lambda>e. jm_get hops (dg_from e) \<noteq> Some 1) (into_child hops edges Blocks)"

record program_search =
  ps_hops :: "(string, nat) jsmap"
  ps_selected :: "edge_dto list"
  ps_reasons :: "limit_reason list"

fun take_program :: "nat \<Rightarrow> nat \<Rightarrow> edge_dto list \<Rightarrow> program_search \<Rightarrow> program_search" where
  "take_program maxNodes maxEdges [] s = s"
| "take_program maxNodes maxEdges (e # es) s =
     (if maxEdges \<le> length (ps_selected s) then s\<lparr>ps_reasons := List.insert Edges_Limit (ps_reasons s)\<rparr>
      else if jm_has (ps_hops s) (dg_from e)
      then take_program maxNodes maxEdges es (s\<lparr>ps_selected := ps_selected s @ [e]\<rparr>)
      else if maxNodes \<le> length (ps_hops s)
      then take_program maxNodes maxEdges es (s\<lparr>ps_reasons := List.insert Nodes_Limit (ps_reasons s)\<rparr>)
      else take_program maxNodes maxEdges es
             (s\<lparr>ps_hops := jm_set (dg_from e) GRAPH_PROGRAM_DEPTH (ps_hops s), ps_selected := ps_selected s @ [e]\<rparr>))"

definition program_children :: "edge_dto list \<Rightarrow> string \<Rightarrow> string list" where
  "program_children edges focusRef = js_set_of (map dg_to (program_parents edges focusRef))"

definition search_program :: "edge_dto list \<Rightarrow> string \<Rightarrow> nat \<Rightarrow> nat \<Rightarrow> program_search" where
  "search_program edges focusRef maxNodes maxEdges =
     (let childRefs = program_children edges focusRef;
          hops = fold (\<lambda>r. jm_set r 1) (take (maxNodes - 1) childRefs) [(focusRef, 0)] in
      take_program maxNodes maxEdges (program_candidates hops (program_parents edges focusRef) edges)
        \<lparr>ps_hops = hops, ps_selected = [],
         ps_reasons = (if maxNodes - 1 < length childRefs then [Nodes_Limit] else [])\<rparr>)"

definition buildGraphProgram :: "(string \<Rightarrow> string \<Rightarrow> int) \<Rightarrow> graph_input \<Rightarrow> graph_response result" where
  "buildGraphProgram lc inp =
     (let maxNodes = positiveLimit (gi_max_nodes inp) GRAPH_NEIGHBORHOOD_MAX_NODES;
          maxEdges = positiveLimit (gi_max_edges inp) GRAPH_NEIGHBORHOOD_MAX_EDGES;
          focusRef = gi_focus_ref inp in
      rbind (graph_rows inp) (\<lambda>m.
      let edges = js_sort (compareEdges lc) (mr_edges m); byRef = items_by_id (mr_items m) in
      if \<not> jm_has byRef focusRef \<and> \<not> list_ex (\<lambda>e. dg_from e = focusRef \<or> dg_to e = focusRef) edges
      then Inl (not_found focusRef)
      else
        (let s = search_program edges focusRef maxNodes maxEdges;
             reached = insert focusRef (set (edge_refs (ps_selected s))) in
         Inr (graph_response_of inp GRAPH_PROGRAM_DEPTH maxNodes maxEdges (ps_reasons s)
               (graph_nodes lc byRef (filter (\<lambda>(ref, hop). ref \<in> reached) (ps_hops s))) (ps_selected s)))))"

end
