(* ===== verification/Graph_Search.thy ===== *)
theory Graph_Search
  imports Graph_Neighborhood
begin

text \<open>
  What the builders of \<open>Graph_Neighborhood\<close> compute: the hops of the search are the distances from
  the focus, the limits hold, and a response that is marked complete leaves nothing out.
\<close>

section \<open>Distance from the focus\<close>

definition adjacent :: "edge_dto set \<Rightarrow> string \<Rightarrow> string \<Rightarrow> bool" where
  "adjacent es u v \<longleftrightarrow> (\<exists>e\<in>es. otherRef e u = Some v)"

fun walk :: "edge_dto set \<Rightarrow> string \<Rightarrow> nat \<Rightarrow> string set" where
  "walk es f 0 = {f}"
| "walk es f (Suc n) = {v. \<exists>u\<in>walk es f n. adjacent es u v}"

definition at_distance :: "edge_dto set \<Rightarrow> string \<Rightarrow> nat \<Rightarrow> string \<Rightarrow> bool" where
  "at_distance es f n v \<longleftrightarrow> v \<in> walk es f n \<and> (\<forall>m<n. v \<notin> walk es f m)"

lemma add_incident_get:
  "incident_at (add_incident e m) r = incident_at m r @ (if dg_from e = r \<or> dg_to e = r then [e] else [])"
  by (auto simp: add_incident_def incident_at_def jsmap_simps)

lemma incident_edges_at: "incident_at (incident_edges es) r = filter (\<lambda>e. dg_from e = r \<or> dg_to e = r) es"
proof (induction es rule: rev_induct)
  case Nil
  then show ?case by (simp add: incident_edges_def incident_at_def jsmap_simps)
next
  case (snoc e es)
  then show ?case by (simp add: incident_edges_def add_incident_get)
qed

lemma set_neighbours:
  "(e, v) \<in> set (neighbours lc (incident_edges es) u) \<longleftrightarrow> e \<in> set es \<and> otherRef e u = Some v"
  by (auto simp: neighbours_mem incident_edges_at otherRef_def split: if_splits)

lemma adjacent_neighbours:
  "adjacent (set es) u v \<longleftrightarrow> (\<exists>e. (e, v) \<in> set (neighbours lc (incident_edges es) u))"
  by (auto simp: adjacent_def set_neighbours)

section \<open>The invariant of the search\<close>

definition covers :: "nat \<Rightarrow> search \<Rightarrow> nat \<Rightarrow> string \<Rightarrow> bool" where
  "covers depth s n v =
     (case jm_get (sr_hops s) v of
        Some m \<Rightarrow> m \<le> n + 1
      | None \<Rightarrow> n = depth \<and> Depth_Limit \<in> set (sr_reasons s))"

definition hop_of :: "(string, nat) jsmap \<Rightarrow> string \<Rightarrow> nat" where
  "hop_of hops v = or_else (jm_get hops v) 0"

lemma add_reason_simps [simp]:
  "sr_hops (add_reason r s) = sr_hops s" "sr_queue (add_reason r s) = sr_queue s"
  "sr_tree (add_reason r s) = sr_tree s" "set (sr_reasons (add_reason r s)) = insert r (set (sr_reasons s))"
  by (simp_all add: add_reason_def)

lemma covers_add_reason: "covers depth s n v \<Longrightarrow> covers depth (add_reason r s) n v"
  by (auto simp: covers_def split: option.splits)

text \<open>
  The invariant while \<open>busy\<close> at hop \<open>h\<close> is visited: hops are lengths of walks within the depth and
  at most one beyond \<open>h\<close>, the queue is in the order of its hops, and what left the queue has all
  its neighbours covered, unless the limit on nodes was met.
\<close>

definition search_ok :: "edge_dto set \<Rightarrow> string \<Rightarrow> nat \<Rightarrow> nat \<Rightarrow> string set \<Rightarrow> nat \<Rightarrow> search \<Rightarrow> bool" where
  "search_ok es f depth cap busy h s \<longleftrightarrow>
     jm_get (sr_hops s) f = Some 0 \<and>
     (\<forall>v n. jm_get (sr_hops s) v = Some n \<longrightarrow> v \<in> walk es f n \<and> n \<le> depth \<and> n \<le> h + 1) \<and>
     set (sr_queue s) \<subseteq> set (jm_keys (sr_hops s)) \<and>
     sorted (map (hop_of (sr_hops s)) (sr_queue s)) \<and> (\<forall>v\<in>set (sr_queue s). h \<le> hop_of (sr_hops s) v) \<and>
     (Nodes_Limit \<notin> set (sr_reasons s) \<longrightarrow>
        (\<forall>u n v. jm_get (sr_hops s) u = Some n \<longrightarrow> u \<notin> set (sr_queue s) \<longrightarrow> u \<notin> busy \<longrightarrow>
           adjacent es u v \<longrightarrow> covers depth s n v)) \<and>
     length (sr_hops s) \<le> max 1 cap \<and> distinct (jm_keys (sr_hops s))"

lemma length_jm_set: "length (jm_set k v m) = (if jm_has m k then length m else Suc (length m))"
  by (induction k v m rule: jm_set.induct) (auto simp: jm_has_def jm_get_def)

lemma discover_cases:
  obtains (known) "jm_has (sr_hops s) v" "discover depth cap k (e, v) s = s"
  | (deep) "\<not> jm_has (sr_hops s) v" "depth < k" "discover depth cap k (e, v) s = add_reason Depth_Limit s"
  | (full) "\<not> jm_has (sr_hops s) v" "k \<le> depth" "cap \<le> length (sr_hops s)"
      "discover depth cap k (e, v) s = add_reason Nodes_Limit s"
  | (found) "\<not> jm_has (sr_hops s) v" "k \<le> depth" "length (sr_hops s) < cap"
      "discover depth cap k (e, v) s = s\<lparr>sr_hops := jm_set v k (sr_hops s), sr_queue := sr_queue s @ [v],
         sr_tree := List.insert (dto_key e) (sr_tree s)\<rparr>"
  by (cases "jm_has (sr_hops s) v"; cases "depth < k"; cases "cap \<le> length (sr_hops s)") (auto simp: discover_def)

lemma covers_discover:
  assumes "covers depth s n v"
  shows "covers depth (discover depth cap k (e, w) s) n v"
  by (rule discover_cases [of s w depth cap k e])
    (use assms in \<open>auto simp: covers_def add_reason_def jsmap_simps jm_has_def split: option.splits\<close>)

lemma reasons_discover: "set (sr_reasons s) \<subseteq> set (sr_reasons (discover depth cap k en s))"
  by (auto simp: discover_def add_reason_def)

lemma hops_discover: "jm_get (sr_hops s) u = Some n \<Longrightarrow> jm_get (sr_hops (discover depth cap k (e, w) s)) u = Some n"
  by (rule discover_cases [of s w depth cap k e]) (auto simp: add_reason_def jsmap_simps jm_has_def)

lemma search_ok_discover:
  fixes e
  assumes ok: "search_ok es f depth cap {u} h s" and u: "jm_get (sr_hops s) u = Some h"
    and adj: "adjacent es u v"
  defines "s' \<equiv> discover depth cap (h + 1) (e, v) s"
  shows "search_ok es f depth cap {u} h s' \<and> (Nodes_Limit \<notin> set (sr_reasons s') \<longrightarrow> covers depth s' h v)"
proof (rule discover_cases [of s v depth cap "h + 1" e])
  assume "jm_has (sr_hops s) v" "discover depth cap (h + 1) (e, v) s = s"
  then show ?thesis using ok by (auto simp: s'_def search_ok_def covers_def jm_has_def)
next
  assume a: "\<not> jm_has (sr_hops s) v" "depth < h + 1" "discover depth cap (h + 1) (e, v) s = add_reason Depth_Limit s"
  have "h = depth" using ok u a(2) by (force simp: search_ok_def)
  then have "covers depth s' h v" using a by (simp add: s'_def covers_def jm_has_def)
  then show ?thesis using ok a covers_add_reason [of depth s] by (auto simp: s'_def search_ok_def)
next
  assume "discover depth cap (h + 1) (e, v) s = add_reason Nodes_Limit s"
  then show ?thesis using ok by (simp add: s'_def search_ok_def)
next
  assume new: "\<not> jm_has (sr_hops s) v" and depth: "h + 1 \<le> depth" and cap: "length (sr_hops s) < cap"
    and s': "discover depth cap (h + 1) (e, v) s = s\<lparr>sr_hops := jm_set v (h + 1) (sr_hops s),
      sr_queue := sr_queue s @ [v], sr_tree := List.insert (dto_key e) (sr_tree s)\<rparr>"
  note s' = s' [folded s'_def]
  have get: "jm_get (sr_hops s') w = (if w = v then Some (h + 1) else jm_get (sr_hops s) w)" for w
    by (simp add: s' jsmap_simps)
  have v: "jm_get (sr_hops s) v = None" using new by (simp add: jm_has_def)
  have in_dom: "\<exists>n. jm_get (sr_hops s) w = Some n \<and> n \<le> h + 1" if "w \<in> set (sr_queue s)" for w
  proof -
    have "w \<in> set (jm_keys (sr_hops s))" using that ok by (auto simp: search_ok_def)
    then obtain n where "jm_get (sr_hops s) w = Some n" by (meson jm_get_None_iff not_None_eq)
    then show ?thesis using ok by (auto simp: search_ok_def)
  qed
  have hop: "hop_of (sr_hops s') w = hop_of (sr_hops s) w \<and> hop_of (sr_hops s) w \<le> h + 1" if "w \<in> set (sr_queue s)" for w
    using in_dom [OF that] v by (auto simp: hop_of_def get)
  have hop_v: "hop_of (sr_hops s') v = h + 1" by (simp add: hop_of_def get)
  have queue: "sr_queue s' = sr_queue s @ [v]" by (simp add: s')
  have c1: "jm_get (sr_hops s') f = Some 0" using ok v by (auto simp: get search_ok_def)
  have "v \<in> walk es f (h + 1)" using ok u adj by (auto simp: search_ok_def)
  then have c2: "\<forall>w n. jm_get (sr_hops s') w = Some n \<longrightarrow> w \<in> walk es f n \<and> n \<le> depth \<and> n \<le> h + 1"
    using ok depth by (auto simp: get search_ok_def)
  have c3: "set (sr_queue s') \<subseteq> set (jm_keys (sr_hops s'))" using ok by (auto simp: s' search_ok_def)
  have maps: "map (hop_of (sr_hops s')) (sr_queue s) = map (hop_of (sr_hops s)) (sr_queue s)" using hop by simp
  have c4: "sorted (map (hop_of (sr_hops s')) (sr_queue s'))"
    unfolding queue map_append maps using ok hop hop_v by (simp add: sorted_append search_ok_def)
  have c5: "\<forall>w\<in>set (sr_queue s'). h \<le> hop_of (sr_hops s') w"
    using ok hop hop_v unfolding queue by (auto simp: search_ok_def)
  have "covers depth s' n w" if "covers depth s n w" for n w
    using covers_discover [OF that] by (simp add: s'_def)
  then have c6: "Nodes_Limit \<notin> set (sr_reasons s') \<longrightarrow>
        (\<forall>x n y. jm_get (sr_hops s') x = Some n \<longrightarrow> x \<notin> set (sr_queue s') \<longrightarrow> x \<notin> {u} \<longrightarrow>
           adjacent es x y \<longrightarrow> covers depth s' n y)"
    using ok unfolding queue get by (simp add: s' search_ok_def)
  have c7: "length (sr_hops s') \<le> max 1 cap" "distinct (jm_keys (sr_hops s'))"
    using ok cap new by (simp_all add: s' length_jm_set search_ok_def)
  have "search_ok es f depth cap {u} h s'"
    unfolding search_ok_def using c1 c2 c3 c4 c5 c6 c7 by (intro conjI)
  then show ?thesis by (simp add: covers_def get)
qed

lemma search_ok_neighbours:
  assumes "search_ok es f depth cap {u} h s" and "jm_get (sr_hops s) u = Some h"
    and "\<forall>p\<in>set ps. adjacent es u (snd p)"
  defines "s' \<equiv> fold (discover depth cap (h + 1)) ps s"
  shows "search_ok es f depth cap {u} h s' \<and> jm_get (sr_hops s') u = Some h \<and>
    set (sr_reasons s) \<subseteq> set (sr_reasons s') \<and>
    (Nodes_Limit \<notin> set (sr_reasons s') \<longrightarrow>
       (\<forall>n v. covers depth s n v \<longrightarrow> covers depth s' n v) \<and> (\<forall>p\<in>set ps. covers depth s' h (snd p)))"
  using assms(1-3) unfolding s'_def
proof (induction ps arbitrary: s)
  case Nil
  then show ?case by simp
next
  case (Cons p ps)
  obtain e v where p: "p = (e, v)" by (cases p)
  let ?t = "discover depth cap (h + 1) (e, v) s"
  have "adjacent es u v" using Cons.prems(3) p by simp
  note step = search_ok_discover [OF Cons.prems(1,2) this, of e]
  have "\<forall>p\<in>set ps. adjacent es u (snd p)" using Cons.prems(3) by simp
  note IH = Cons.IH [OF conjunct1 [OF step] hops_discover [OF Cons.prems(2)] this]
  then show ?case
    using step reasons_discover [of s depth cap "h + 1" "(e, v)"] covers_discover [of depth s _ _ cap "h + 1" e v]
    unfolding p by (simp only: fold_Cons comp_def) (auto simp only: list.set ball_simps snd_conv)
qed

lemma search_ok_visit:
  fixes lc
  assumes ok: "search_ok (set es) f depth cap {} h s" and queue: "sr_queue s = u # rest"
  defines "k \<equiv> hop_of (sr_hops s) u"
  defines "s' \<equiv> visit lc (incident_edges es) depth cap u (s\<lparr>sr_queue := rest\<rparr>)"
  shows "search_ok (set es) f depth cap {} k s' \<and> set (sr_reasons s) \<subseteq> set (sr_reasons s')"
proof -
  let ?t = "s\<lparr>sr_queue := rest\<rparr>"
  have "u \<in> set (jm_keys (sr_hops s))" using ok queue by (simp add: search_ok_def)
  then obtain m where "jm_get (sr_hops s) u = Some m" by (meson jm_get_None_iff not_None_eq)
  then have u: "jm_get (sr_hops s) u = Some k" by (simp add: k_def hop_of_def)
  have "h \<le> k" using ok queue by (simp add: search_ok_def k_def)
  have "search_ok (set es) f depth cap {u} k ?t"
  proof -
    have srt: "sorted (k # map (hop_of (sr_hops s)) rest)" using ok queue by (simp add: search_ok_def k_def)
    have le: "n \<le> h + 1 \<Longrightarrow> n \<le> k + 1" for n using \<open>h \<le> k\<close> by simp
    have cov: "covers depth ?t n v = covers depth s n v" for n v by (simp add: covers_def split: option.split)
    show ?thesis
      unfolding search_ok_def cov using ok srt le
      by (simp add: search_ok_def queue)
  qed
  moreover have "\<forall>p\<in>set (neighbours lc (incident_edges es) u). adjacent (set es) u (snd p)"
    by (auto simp: adjacent_def set_neighbours)
  moreover have "s' = fold (discover depth cap (k + 1)) (neighbours lc (incident_edges es) u) ?t"
    using u by (simp add: s'_def visit_def)
  ultimately have run: "search_ok (set es) f depth cap {u} k s'" "jm_get (sr_hops s') u = Some k"
    "set (sr_reasons s) \<subseteq> set (sr_reasons s')"
    "Nodes_Limit \<notin> set (sr_reasons s') \<Longrightarrow> \<forall>p\<in>set (neighbours lc (incident_edges es) u). covers depth s' k (snd p)"
    using search_ok_neighbours [of "set es" f depth cap u k ?t "neighbours lc (incident_edges es) u"] u by auto
  have "covers depth s' k v" if "Nodes_Limit \<notin> set (sr_reasons s')" "adjacent (set es) u v" for v
    using run(4) [OF that(1)] that(2) by (force simp: adjacent_neighbours [of es u v lc])
  then have "search_ok (set es) f depth cap {} k s'"
    using run(1,2) unfolding search_ok_def by (metis empty_iff insertE option.inject)
  with run(3) show ?thesis by simp
qed

lemma search_ok_run:
  fixes lc
  assumes "search_ok (set es) f depth cap {} h s"
  defines "s' \<equiv> run_search lc (incident_edges es) depth cap s"
  shows "(\<exists>k. search_ok (set es) f depth cap {} k s') \<and> sr_queue s' = []"
  using assms(1) unfolding s'_def
proof (induction lc "incident_edges es" depth cap s arbitrary: h rule: run_search.induct)
  case (1 lc depth cap s)
  show ?case
  proof (cases "sr_queue s")
    case Nil
    then have "run_search lc (incident_edges es) depth cap s = s" by (subst run_search.simps) simp
    with "1.prems" Nil show ?thesis by auto
  next
    case (Cons u rest)
    then have "run_search lc (incident_edges es) depth cap s =
        run_search lc (incident_edges es) depth cap (visit lc (incident_edges es) depth cap u (s\<lparr>sr_queue := rest\<rparr>))"
      by (subst run_search.simps) simp
    with "1.hyps" [OF Cons] search_ok_visit [OF "1.prems" Cons, of lc] show ?thesis by auto
  qed
qed

section \<open>What the search finds\<close>

lemma search_ok_start: "search_ok es f depth cap {} 0 (start_search f)"
  by (simp add: search_ok_def start_search_def jm_get_def jm_keys_def hop_of_def)

lemma search_ok_final:
  fixes lc es f depth cap
  defines "s \<equiv> run_search lc (incident_edges es) depth cap (start_search f)"
  obtains k where "search_ok (set es) f depth cap {} k s" and "sr_queue s = []"
  using search_ok_run [OF search_ok_start, of es f depth cap lc] by (auto simp: s_def)

lemma search_reaches:
  fixes lc es f depth cap
  defines "s \<equiv> run_search lc (incident_edges es) depth cap (start_search f)"
  assumes "Nodes_Limit \<notin> set (sr_reasons s)" and "m \<le> depth \<or> Depth_Limit \<notin> set (sr_reasons s)"
    and "v \<in> walk (set es) f m"
  shows "\<exists>n\<le>m. jm_get (sr_hops s) v = Some n"
  using assms(3,4)
proof (induction m arbitrary: v)
  case 0
  obtain k where "search_ok (set es) f depth cap {} k s"
    using search_ok_final [of es f depth cap lc] by (auto simp: s_def)
  with 0 show ?case by (simp add: search_ok_def)
next
  case (Suc m)
  obtain k where ok: "search_ok (set es) f depth cap {} k s" "sr_queue s = []"
    using search_ok_final [of es f depth cap lc] by (auto simp: s_def)
  obtain u where u: "u \<in> walk (set es) f m" "adjacent (set es) u v" using Suc.prems by auto
  then obtain n where n: "n \<le> m" "jm_get (sr_hops s) u = Some n" using Suc.IH Suc.prems(1) by fastforce
  then have "covers depth s n v" using ok u(2) assms(2) by (simp add: search_ok_def)
  then show ?case using n(1) Suc.prems(1) by (auto simp: covers_def split: option.splits)
qed

lemma search_distance:
  fixes lc es f depth cap
  defines "s \<equiv> run_search lc (incident_edges es) depth cap (start_search f)"
  assumes "Nodes_Limit \<notin> set (sr_reasons s)"
  shows "jm_get (sr_hops s) v = Some n \<longleftrightarrow> n \<le> depth \<and> at_distance (set es) f n v"
proof
  obtain k where ok: "search_ok (set es) f depth cap {} k s"
    using search_ok_final [of es f depth cap lc] by (auto simp: s_def)
  note reach = search_reaches [of lc es depth cap f, folded s_def, OF assms(2)]
  {
    assume n: "jm_get (sr_hops s) v = Some n"
    then have "v \<in> walk (set es) f n" "n \<le> depth" using ok by (simp_all add: search_ok_def)
    moreover have "v \<notin> walk (set es) f m" if "m < n" for m
      using reach [of m v] that \<open>n \<le> depth\<close> n by auto
    ultimately show "n \<le> depth \<and> at_distance (set es) f n v" by (simp add: at_distance_def)
  next
    assume n: "n \<le> depth \<and> at_distance (set es) f n v"
    then obtain m where m: "m \<le> n" "jm_get (sr_hops s) v = Some m"
      using reach [of n v] by (auto simp: at_distance_def)
    then have "v \<in> walk (set es) f m" using ok by (simp add: search_ok_def)
    then show "jm_get (sr_hops s) v = Some n" using m n by (cases "m = n") (auto simp: at_distance_def)
  }
qed

section \<open>Neighbourhood responses\<close>

definition hops_ok :: "string \<Rightarrow> nat \<Rightarrow> nat \<Rightarrow> (string, nat) jsmap \<Rightarrow> bool" where
  "hops_ok f depth cap hops \<longleftrightarrow>
     jm_get hops f = Some 0 \<and> (\<forall>v n. jm_get hops v = Some n \<longrightarrow> n \<le> depth) \<and> length hops \<le> max 1 cap \<and>
     distinct (jm_keys hops)"

lemma hops_ok_run: "hops_ok f depth cap (sr_hops (run_search lc (incident_edges es) depth cap (start_search f)))"
proof -
  obtain k where "search_ok (set es) f depth cap {} k (run_search lc (incident_edges es) depth cap (start_search f))"
    by (rule search_ok_final)
  then show ?thesis by (simp add: hops_ok_def search_ok_def)
qed

lemma hops_ok_set:
  "hops_ok f depth cap hops \<Longrightarrow> \<not> jm_has hops v \<Longrightarrow> length hops < cap \<Longrightarrow> n \<le> depth \<Longrightarrow>
   hops_ok f depth cap (jm_set v n hops)"
  by (auto simp: hops_ok_def jsmap_simps length_jm_set jm_has_def)

lemma hops_ok_mentions:
  assumes "hops_ok f depth cap (sr_hops s)" and "1 \<le> depth"
  shows "hops_ok f depth cap (sr_hops (fold (add_mention f cap) es s))"
  using assms(1)
proof (induction es arbitrary: s)
  case (Cons e es)
  have "hops_ok f depth cap (sr_hops (add_mention f cap e s))"
    using Cons.prems assms(2) hops_ok_set [OF Cons.prems] by (auto simp: add_mention_def split: option.split)
  from Cons.IH [OF this] show ?case by simp
qed simp

lemma hops_ok_search_graph: "1 \<le> depth \<Longrightarrow> hops_ok f depth cap (sr_hops (search_graph lc es f depth mode cap))"
  by (simp add: search_graph_def Let_def hops_ok_run hops_ok_mentions)

lemma checked_depth_Inr: "checked_depth v = Inr d \<Longrightarrow> 1 \<le> d \<and> d \<le> GRAPH_NEIGHBORHOOD_MAX_DEPTH"
  by (auto simp: checked_depth_def GRAPH_NEIGHBORHOOD_MAX_DEPTH_def not_less elim!: is_integerE
      split: option.splits if_splits)

lemma positiveLimit_pos: "0 < n \<Longrightarrow> 0 < positiveLimit v n"
  by (auto simp: positiveLimit_def elim!: is_integerE split: option.split)

lemma buildGraphNeighborhood_Inr:
  assumes "buildGraphNeighborhood lc inp = Inr g"
  obtains depth m es s induced where
    "graph_rows inp = Inr m" and "es = js_sort (compareEdges lc) (mr_edges m)" and "1 \<le> depth"
    and "depth \<le> GRAPH_NEIGHBORHOOD_MAX_DEPTH" and "gr_requested_depth g = depth" and "0 < gr_max_nodes g"
    and "s = search_graph lc es (gi_focus_ref inp) depth (or_else (gi_mention_mode inp) All_Mentions) (gr_max_nodes g)"
    and "induced = induced_edges es (gi_focus_ref inp) (or_else (gi_mention_mode inp) All_Mentions) (sr_hops s)"
    and "gr_edges g = select_edges lc s (gr_max_edges g) induced"
    and "gr_nodes g = graph_nodes lc (items_by_id (mr_items m)) (sr_hops s)"
    and "gr_limit_reasons g = filter (\<lambda>r. r \<in> set (sr_reasons s) \<or> r = Edges_Limit \<and> length (gr_edges g) < length induced)
           [Depth_Limit, Nodes_Limit, Edges_Limit]"
    and "gr_complete g \<longleftrightarrow> gr_limit_reasons g = []"
proof -
  obtain depth where depth: "checked_depth (Some (or_else (gi_depth inp) (of_nat GRAPH_NEIGHBORHOOD_DEFAULT_DEPTH))) = Inr depth"
    using assms by (auto simp: buildGraphNeighborhood_def)
  obtain m where m: "graph_rows inp = Inr m" using assms by (auto simp: buildGraphNeighborhood_def Let_def)
  define es mode cap s induced where "es = js_sort (compareEdges lc) (mr_edges m)"
    and "mode = or_else (gi_mention_mode inp) All_Mentions"
    and "cap = positiveLimit (gi_max_nodes inp) GRAPH_NEIGHBORHOOD_MAX_NODES"
    and "s = search_graph lc es (gi_focus_ref inp) depth mode cap"
    and "induced = induced_edges es (gi_focus_ref inp) mode (sr_hops s)"
  define maxEdges selected where "maxEdges = positiveLimit (gi_max_edges inp) GRAPH_NEIGHBORHOOD_MAX_EDGES"
    and "selected = select_edges lc s maxEdges induced"
  have g: "g = graph_response_of inp depth cap maxEdges
      (if length selected < length induced then Edges_Limit # sr_reasons s else sr_reasons s)
      (graph_nodes lc (items_by_id (mr_items m)) (sr_hops s)) selected"
    using assms unfolding buildGraphNeighborhood_def depth m rbind_simps Let_def
      es_def [symmetric] mode_def [symmetric] cap_def [symmetric] s_def [symmetric] induced_def [symmetric]
      maxEdges_def [symmetric] selected_def [symmetric]
    by (simp only: split: if_splits) simp_all
  have "0 < cap" by (simp add: cap_def positiveLimit_pos GRAPH_NEIGHBORHOOD_MAX_NODES_def)
  moreover have reasons: "gr_limit_reasons g = filter (\<lambda>r. r \<in> set (sr_reasons s) \<or> r = Edges_Limit \<and> length selected < length induced)
           [Depth_Limit, Nodes_Limit, Edges_Limit]"
    unfolding g by (simp add: graph_response_of_def Let_def)
  moreover have "gr_max_nodes g = cap" "gr_max_edges g = maxEdges" "gr_requested_depth g = depth"
    "gr_edges g = selected" "gr_nodes g = graph_nodes lc (items_by_id (mr_items m)) (sr_hops s)"
    "gr_complete g \<longleftrightarrow> gr_limit_reasons g = []"
    unfolding g by (simp_all add: graph_response_of_def Let_def)
  ultimately show thesis
    using checked_depth_Inr [OF depth]
    by (intro that [OF m es_def, of depth s induced]) (simp_all add: s_def mode_def induced_def selected_def)
qed

lemma graph_nodes_refs: "set (map (\<lambda>n. (gn_ref n, gn_hop n)) (graph_nodes lc byRef hops)) = set hops"
  by (force simp: graph_nodes_def)

lemma graph_nodes_distinct:
  "distinct (map gn_ref (graph_nodes lc byRef hops)) = distinct (jm_keys hops)"
  "length (graph_nodes lc byRef hops) = length hops"
proof -
  have "map gn_ref (map (\<lambda>(ref, hop). \<lparr>gn_ref = ref, gn_hop = hop, gn_item = jm_get byRef ref\<rparr>) hops) = jm_keys hops"
    by (auto simp: jm_keys_def)
  then show "distinct (map gn_ref (graph_nodes lc byRef hops)) = distinct (jm_keys hops)"
    unfolding graph_nodes_def distinct_map_js_sort by (simp only:)
qed (simp add: graph_nodes_def)

lemma graph_node_iff:
  assumes "distinct (jm_keys hops)"
  shows "(\<exists>n\<in>set (graph_nodes lc byRef hops). gn_ref n = r \<and> gn_hop n = h) \<longleftrightarrow> jm_get hops r = Some h"
proof -
  have "(\<exists>n\<in>set (graph_nodes lc byRef hops). gn_ref n = r \<and> gn_hop n = h) \<longleftrightarrow>
      (r, h) \<in> set (map (\<lambda>n. (gn_ref n, gn_hop n)) (graph_nodes lc byRef hops))" by auto
  also have "\<dots> \<longleftrightarrow> (r, h) \<in> set hops" unfolding graph_nodes_refs ..
  also have "\<dots> \<longleftrightarrow> jm_get hops r = Some h" using assms jm_get_mem jm_get_Some_mem by metis
  finally show ?thesis .
qed

lemma graph_node_has:
  assumes "distinct (jm_keys hops)"
  shows "r \<in> gn_ref ` set (graph_nodes lc byRef hops) \<longleftrightarrow> jm_has hops r"
  using graph_node_iff [OF assms, of lc byRef r] by (force simp: jm_has_def)

lemma select_edges_facts:
  "length (select_edges lc s cap induced) \<le> cap" "set (select_edges lc s cap induced) \<subseteq> set induced"
  "\<not> length (select_edges lc s cap induced) < length induced \<Longrightarrow> set (select_edges lc s cap induced) = set induced"
proof -
  define ord where "ord = then_by (\<lambda>a b. int (edge_distance (sr_hops s) a) - int (edge_distance (sr_hops s) b)) (compareEdges lc)"
  define all where "all = js_sort ord (filter (\<lambda>e. dto_key e \<in> set (sr_tree s)) induced) @
    js_sort ord (filter (\<lambda>e. dto_key e \<notin> set (sr_tree s)) induced)"
  have sel: "select_edges lc s cap induced = take cap all" by (simp add: select_edges_def all_def ord_def Let_def)
  have "set all = set induced" by (auto simp: all_def)
  moreover have "length all = length induced" by (simp add: all_def sum_length_filter_compl)
  ultimately show "length (select_edges lc s cap induced) \<le> cap" "set (select_edges lc s cap induced) \<subseteq> set induced"
    "\<not> length (select_edges lc s cap induced) < length induced \<Longrightarrow> set (select_edges lc s cap induced) = set induced"
    unfolding sel by (auto dest: in_set_takeD)
qed

text \<open>
  Claim C22. Whatever the store holds, a neighbourhood is bounded by its limits and well formed: no
  more nodes and edges than the limits, each node once, the focus at hop 0, no hop beyond the
  requested depth and that depth at most 5, and both ends of every edge among the nodes.
\<close>

theorem graph_neighborhood_bounded:
  assumes "buildGraphNeighborhood lc inp = Inr g"
  shows "length (gr_nodes g) \<le> gr_max_nodes g \<and> length (gr_edges g) \<le> gr_max_edges g \<and>
    distinct (map gn_ref (gr_nodes g)) \<and> (gi_focus_ref inp, 0) \<in> (\<lambda>n. (gn_ref n, gn_hop n)) ` set (gr_nodes g) \<and>
    list_all (\<lambda>n. gn_hop n \<le> gr_requested_depth g) (gr_nodes g) \<and> gr_requested_depth g \<le> 5 \<and>
    list_all (\<lambda>e. {dg_from e, dg_to e} \<subseteq> gn_ref ` set (gr_nodes g)) (gr_edges g)"
  using assms
proof (rule buildGraphNeighborhood_Inr)
  fix depth m es s induced
  assume depth: "1 \<le> depth" "depth \<le> GRAPH_NEIGHBORHOOD_MAX_DEPTH" "gr_requested_depth g = depth" and cap: "0 < gr_max_nodes g"
    and s: "s = search_graph lc es (gi_focus_ref inp) depth (or_else (gi_mention_mode inp) All_Mentions) (gr_max_nodes g)"
    and induced: "induced = induced_edges es (gi_focus_ref inp) (or_else (gi_mention_mode inp) All_Mentions) (sr_hops s)"
    and edges: "gr_edges g = select_edges lc s (gr_max_edges g) induced"
    and nodes: "gr_nodes g = graph_nodes lc (items_by_id (mr_items m)) (sr_hops s)"
  have ok: "hops_ok (gi_focus_ref inp) depth (gr_max_nodes g) (sr_hops s)"
    unfolding s by (rule hops_ok_search_graph [OF depth(1)])
  then have dist: "distinct (jm_keys (sr_hops s))" by (simp add: hops_ok_def)
  note node = graph_node_iff [OF dist, of lc "items_by_id (mr_items m)", folded nodes]
  have "\<forall>n\<in>set (gr_nodes g). gn_hop n \<le> depth"
    using node ok unfolding hops_ok_def by blast
  moreover have "(gi_focus_ref inp, 0) \<in> (\<lambda>n. (gn_ref n, gn_hop n)) ` set (gr_nodes g)"
    using node [of "gi_focus_ref inp" 0] ok by (force simp: hops_ok_def)
  moreover have "{dg_from e, dg_to e} \<subseteq> gn_ref ` set (gr_nodes g)" if "e \<in> set (gr_edges g)" for e
    using that select_edges_facts(2) [of lc s "gr_max_edges g" induced]
    unfolding edges nodes induced by (auto simp: graph_node_has [OF dist] induced_edges_def Let_def)
  moreover have "length (gr_nodes g) \<le> gr_max_nodes g" "distinct (map gn_ref (gr_nodes g))"
    using ok cap by (simp_all add: nodes graph_nodes_distinct hops_ok_def)
  moreover have "length (gr_edges g) \<le> gr_max_edges g" unfolding edges by (rule select_edges_facts(1))
  ultimately show ?thesis
    using depth by (simp add: list_all_iff GRAPH_NEIGHBORHOOD_MAX_DEPTH_def)
qed

lemma limit_reason_mem:
  assumes "gr_limit_reasons g = filter (\<lambda>r. r \<in> set reasons \<or> r = Edges_Limit \<and> short) [Depth_Limit, Nodes_Limit, Edges_Limit]"
  shows "r \<in> set (gr_limit_reasons g) \<longleftrightarrow> r \<in> set reasons \<or> r = Edges_Limit \<and> short"
  by (cases r) (auto simp: assms)

lemma otherRef_iff: "otherRef e u = Some v \<longleftrightarrow> dg_from e = u \<and> dg_to e = v \<or> dg_to e = u \<and> dg_from e = v"
  by (auto simp: otherRef_def)

lemma adjacent_sym: "adjacent es u v \<Longrightarrow> adjacent es v u"
  by (auto simp: adjacent_def otherRef_iff)

lemma edge_adjacent: "e \<in> es \<Longrightarrow> adjacent es (dg_from e) (dg_to e)"
  by (auto simp: adjacent_def otherRef_iff)

text \<open>
  What the search follows in each mention mode, the refs a mention ties to the focus, which count beside it only where
  mentions are not followed, and the edges a response may show.
\<close>

definition followed :: "mention_mode \<Rightarrow> edge_dto set \<Rightarrow> edge_dto set" where
  "followed mode es = (if mode = All_Mentions then es else {e \<in> es. dg_type e \<noteq> Mentions})"

definition mentioned :: "mention_mode \<Rightarrow> edge_dto set \<Rightarrow> string \<Rightarrow> string set" where
  "mentioned mode es f =
     (if mode = All_Mentions then {} else {r. \<exists>e \<in> es. dg_type e = Mentions \<and> {dg_from e, dg_to e} = {f, r}})"

definition showable :: "mention_mode \<Rightarrow> string \<Rightarrow> edge_dto \<Rightarrow> bool" where
  "showable mode f e \<longleftrightarrow> mode = All_Mentions \<or> dg_type e \<noteq> Mentions \<or> dg_from e = f \<or> dg_to e = f"

text \<open>The hop of a ref: its distance, or 1 where only a mention ties it to the focus.\<close>

definition hop_is :: "mention_mode \<Rightarrow> edge_dto set \<Rightarrow> string \<Rightarrow> nat \<Rightarrow> string \<Rightarrow> nat \<Rightarrow> bool" where
  "hop_is mode es f depth r h \<longleftrightarrow>
     h \<le> depth \<and> at_distance (followed mode es) f h r
     \<or> h = 1 \<and> r \<in> mentioned mode es f \<and> (\<forall>k \<le> depth. r \<notin> walk (followed mode es) f k)"

lemma add_mention_reasons:
  "set (sr_reasons s) \<subseteq> set (sr_reasons (add_mention f cap e s))
   \<and> set (sr_reasons (add_mention f cap e s)) \<subseteq> insert Nodes_Limit (set (sr_reasons s))"
  by (auto simp: add_mention_def split: option.splits)

lemma add_mention_hops:
  assumes "Nodes_Limit \<notin> set (sr_reasons (add_mention f cap e s))" and "jm_has (sr_hops s) f"
  shows "jm_get (sr_hops (add_mention f cap e s)) r =
    (case jm_get (sr_hops s) r of
       Some n \<Rightarrow> Some n
     | None \<Rightarrow> if r \<in> mentioned Direct_Mentions {e} f then Some 1 else None)"
  using assms
  by (auto simp: add_mention_def mentioned_def otherRef_iff otherRef_def jsmap_simps jm_has_def doubleton_eq_iff
      split: option.splits if_splits)

lemma add_mentions:
  assumes "Nodes_Limit \<notin> set (sr_reasons (fold (add_mention f cap) es s))" and "jm_has (sr_hops s) f"
  shows "set (sr_reasons (fold (add_mention f cap) es s)) = set (sr_reasons s)
    \<and> jm_get (sr_hops (fold (add_mention f cap) es s)) r =
        (case jm_get (sr_hops s) r of
           Some n \<Rightarrow> Some n
         | None \<Rightarrow> if r \<in> mentioned Direct_Mentions (set es) f then Some 1 else None)"
  using assms
proof (induction es arbitrary: s)
  case Nil
  then show ?case by (auto simp: mentioned_def split: option.split)
next
  case (Cons e es)
  let ?s1 = "add_mention f cap e s"
  have keep: "set (sr_reasons s') \<subseteq> set (sr_reasons (fold (add_mention f cap) es s'))" for s'
  proof (induction es arbitrary: s')
    case (Cons a as)
    show ?case using Cons [of "add_mention f cap a s'"] add_mention_reasons [of s' f cap a] by auto
  qed simp
  have quiet: "Nodes_Limit \<notin> set (sr_reasons ?s1)" using Cons.prems(1) keep [of ?s1] by auto
  note hops = add_mention_hops [OF quiet Cons.prems(2)]
  have "jm_has (sr_hops ?s1) f" using hops [of f] Cons.prems(2) by (auto simp: jm_has_def split: option.splits)
  moreover have "Nodes_Limit \<notin> set (sr_reasons (fold (add_mention f cap) es ?s1))" using Cons.prems(1) by simp
  ultimately have ih: "set (sr_reasons (fold (add_mention f cap) es ?s1)) = set (sr_reasons ?s1)
    \<and> jm_get (sr_hops (fold (add_mention f cap) es ?s1)) r =
        (case jm_get (sr_hops ?s1) r of
           Some n \<Rightarrow> Some n
         | None \<Rightarrow> if r \<in> mentioned Direct_Mentions (set es) f then Some 1 else None)"
    using Cons.IH by blast
  have "set (sr_reasons ?s1) = set (sr_reasons s)" using quiet add_mention_reasons [of s f cap e] by auto
  moreover have "r \<in> mentioned Direct_Mentions (set (e # es)) f \<longleftrightarrow>
      r \<in> mentioned Direct_Mentions {e} f \<or> r \<in> mentioned Direct_Mentions (set es) f"
    by (auto simp: mentioned_def)
  ultimately show ?case using ih hops [of r] by (auto split: option.splits)
qed

lemma search_graph_exact:
  fixes lc es f depth mode cap
  defines "s \<equiv> search_graph lc es f depth mode cap"
  assumes "Nodes_Limit \<notin> set (sr_reasons s)"
  shows "jm_get (sr_hops s) r = Some h \<longleftrightarrow> hop_is mode (set es) f depth r h"
    and "Depth_Limit \<notin> set (sr_reasons s) \<Longrightarrow> r \<in> walk (followed mode (set es)) f k \<Longrightarrow> jm_has (sr_hops s) r"
proof -
  define trav where "trav = (if mode = All_Mentions then es else noMentions es)"
  define s0 where "s0 = run_search lc (incident_edges trav) depth cap (start_search f)"
  have T: "set trav = followed mode (set es)" by (auto simp: trav_def followed_def noMentions_def)
  have s: "s = (if mode = Direct_Mentions then fold (add_mention f cap) es s0 else s0)"
    by (simp add: s_def search_graph_def s0_def trav_def Let_def)
  have focus: "jm_has (sr_hops s0) f" using hops_ok_run [of f depth cap lc trav] by (simp add: hops_ok_def s0_def jm_has_def)
  have quiet: "Nodes_Limit \<notin> set (sr_reasons s0)" and reasons: "set (sr_reasons s) = set (sr_reasons s0)"
    and hops: "jm_get (sr_hops s) r = (case jm_get (sr_hops s0) r of
        Some n \<Rightarrow> Some n | None \<Rightarrow> if r \<in> mentioned mode (set es) f then Some 1 else None)" for r
    using assms(2) add_mentions [OF _ focus, of cap es] s
    by (cases mode; auto simp: mentioned_def split: option.split)+
  note dist = search_distance [of lc trav depth cap f, folded s0_def, OF quiet, unfolded T]
  note reach = search_reaches [of lc trav depth cap f, folded s0_def, OF quiet, unfolded T]
  have none: "jm_get (sr_hops s0) r = None \<longleftrightarrow> (\<forall>k \<le> depth. r \<notin> walk (followed mode (set es)) f k)" for r
  proof
    assume "jm_get (sr_hops s0) r = None"
    then show "\<forall>k \<le> depth. r \<notin> walk (followed mode (set es)) f k" using reach by fastforce
  next
    assume "\<forall>k \<le> depth. r \<notin> walk (followed mode (set es)) f k"
    then show "jm_get (sr_hops s0) r = None" using dist [of r] by (cases "jm_get (sr_hops s0) r") (auto simp: at_distance_def)
  qed
  show "jm_get (sr_hops s) r = Some h \<longleftrightarrow> hop_is mode (set es) f depth r h"
    using dist [of r h] none [of r] dist [of r]
    by (cases "jm_get (sr_hops s0) r") (auto simp: hops hop_is_def at_distance_def)
  show "jm_has (sr_hops s) r" if "Depth_Limit \<notin> set (sr_reasons s)" "r \<in> walk (followed mode (set es)) f k"
    using reach [OF disjI2 that(2)] that(1) reasons by (auto simp: jm_has_def hops)
qed

text \<open>
  Claim C23. Unless the limit on nodes was met, a neighbourhood is exact in both mention modes: its nodes are the refs
  within the requested depth of the focus over the edges the mode follows, each at its distance, and where mentions are
  not followed also what a mention ties to the focus itself, at hop 1.  When it is marked complete, nothing the mode
  reaches from the focus at any distance is missing, nor any showable edge between two of its nodes.
\<close>

theorem graph_neighborhood_exact:
  assumes "buildGraphNeighborhood lc inp = Inr g" and "graph_rows inp = Inr m" and "Nodes_Limit \<notin> set (gr_limit_reasons g)"
  defines "mode \<equiv> or_else (gi_mention_mode inp) All_Mentions" and "f \<equiv> gi_focus_ref inp" and "es \<equiv> set (mr_edges m)"
  shows "(\<forall>r h. (\<exists>n\<in>set (gr_nodes g). gn_ref n = r \<and> gn_hop n = h) \<longleftrightarrow> hop_is mode es f (gr_requested_depth g) r h)
    \<and> (gr_complete g \<longrightarrow>
         gn_ref ` set (gr_nodes g) = (\<Union>h. walk (followed mode es) f h) \<union> mentioned mode es f
         \<and> set (gr_edges g) =
             {e \<in> es. showable mode f e \<and> dg_from e \<in> gn_ref ` set (gr_nodes g) \<and> dg_to e \<in> gn_ref ` set (gr_nodes g)})"
  using assms(1)
proof (rule buildGraphNeighborhood_Inr)
  fix depth m' es' s induced
  assume m': "graph_rows inp = Inr m'" and es': "es' = js_sort (compareEdges lc) (mr_edges m')" and pos: "1 \<le> depth"
    and depth: "gr_requested_depth g = depth"
    and s: "s = search_graph lc es' (gi_focus_ref inp) depth (or_else (gi_mention_mode inp) All_Mentions) (gr_max_nodes g)"
    and induced: "induced = induced_edges es' (gi_focus_ref inp) (or_else (gi_mention_mode inp) All_Mentions) (sr_hops s)"
    and edges: "gr_edges g = select_edges lc s (gr_max_edges g) induced"
    and nodes: "gr_nodes g = graph_nodes lc (items_by_id (mr_items m')) (sr_hops s)"
    and limits: "gr_limit_reasons g = filter (\<lambda>r. r \<in> set (sr_reasons s) \<or> r = Edges_Limit \<and> length (gr_edges g) < length induced)
           [Depth_Limit, Nodes_Limit, Edges_Limit]"
    and complete: "gr_complete g \<longleftrightarrow> gr_limit_reasons g = []"
  have E: "set es' = es" using m' assms(2) by (simp add: es' es_def)
  have no_cap: "Nodes_Limit \<notin> set (sr_reasons s)" using assms(3) limit_reason_mem [OF limits] by simp
  note found = search_graph_exact [of lc es' f depth mode "gr_max_nodes g", folded s [folded mode_def f_def], OF no_cap, unfolded E]
  have keys: "distinct (jm_keys (sr_hops s))"
    using hops_ok_search_graph [OF pos] unfolding s hops_ok_def by blast
  note has = graph_node_has [OF keys, of _ lc "items_by_id (mr_items m')", folded nodes]
  have exact: "(\<exists>n\<in>set (gr_nodes g). gn_ref n = r \<and> gn_hop n = h) \<longleftrightarrow> hop_is mode es f (gr_requested_depth g) r h" for r h
    unfolding nodes graph_node_iff [OF keys] found(1) depth ..
  have whole: "gn_ref ` set (gr_nodes g) = (\<Union>h. walk (followed mode es) f h) \<union> mentioned mode es f
      \<and> set (gr_edges g) = {e \<in> es. showable mode f e \<and> dg_from e \<in> gn_ref ` set (gr_nodes g) \<and> dg_to e \<in> gn_ref ` set (gr_nodes g)}"
    if "gr_complete g"
  proof
    have none: "Depth_Limit \<notin> set (sr_reasons s)" "\<not> length (gr_edges g) < length induced"
      using limit_reason_mem [OF limits] complete that by auto
    have "jm_has (sr_hops s) r \<longleftrightarrow> (\<exists>h. r \<in> walk (followed mode es) f h) \<or> r \<in> mentioned mode es f" for r
    proof
      assume "jm_has (sr_hops s) r"
      then obtain n where "jm_get (sr_hops s) r = Some n" by (auto simp: jm_has_def)
      then show "(\<exists>h. r \<in> walk (followed mode es) f h) \<or> r \<in> mentioned mode es f"
        unfolding found(1) hop_is_def at_distance_def by blast
    next
      assume "(\<exists>h. r \<in> walk (followed mode es) f h) \<or> r \<in> mentioned mode es f"
      then show "jm_has (sr_hops s) r"
      proof
        assume "\<exists>h. r \<in> walk (followed mode es) f h"
        then show ?thesis using found(2) [OF none(1)] by blast
      next
        assume "r \<in> mentioned mode es f"
        then show ?thesis using found(1) [of r 1] found(2) [OF none(1), of r] by (auto simp: hop_is_def jm_has_def)
      qed
    qed
    then show "gn_ref ` set (gr_nodes g) = (\<Union>h. walk (followed mode es) f h) \<union> mentioned mode es f"
      by (intro set_eqI) (simp add: has)
    have "set (gr_edges g) = set induced" unfolding edges by (rule select_edges_facts(3)) (use none(2) edges in simp)
    then show "set (gr_edges g) =
        {e \<in> es. showable mode f e \<and> dg_from e \<in> gn_ref ` set (gr_nodes g) \<and> dg_to e \<in> gn_ref ` set (gr_nodes g)}"
      unfolding has by (auto simp: induced induced_edges_def showable_def mode_def f_def E Let_def)
  qed
  show ?thesis by (intro conjI allI impI exact whole)
qed

section \<open>Program responses\<close>

definition child_refs :: "edge_dto set \<Rightarrow> string \<Rightarrow> string set" where
  "child_refs es f = {dg_to e |e. e \<in> es \<and> dg_type e = Parent \<and> dg_from e = f \<and> dg_to e \<noteq> f}"

text \<open>The edges of a program: to the children, and what blocks or closes a child.\<close>

definition program_edges :: "edge_dto set \<Rightarrow> string \<Rightarrow> edge_dto set" where
  "program_edges es f =
     {e \<in> es. dg_type e = Parent \<and> dg_from e = f \<and> dg_to e \<noteq> f \<or>
       dg_type e \<in> {Blocks, Closes} \<and> dg_to e \<in> child_refs es f \<and> dg_from e \<noteq> dg_to e}"

lemma set_program_children: "set (program_children es f) = child_refs (set es) f"
  by (auto simp: program_children_def program_parents_def child_refs_def)

lemma children_hops:
  fixes f :: string
  assumes "f \<notin> set rs"
  defines "hops \<equiv> fold (\<lambda>r. jm_set r 1) rs [(f, 0 :: nat)]"
  shows "jm_get hops v = (if v = f then Some 0 else if v \<in> set rs then Some 1 else None)"
    and "distinct (jm_keys hops)"
    and "length hops \<le> Suc (length rs)"
proof -
  have "jm_get (fold (\<lambda>r. jm_set r (1 :: nat)) rs m) v = (if v \<in> set rs then Some 1 else jm_get m v)" for m
    by (induction rs arbitrary: m) (auto simp: jsmap_simps)
  then show "jm_get hops v = (if v = f then Some 0 else if v \<in> set rs then Some 1 else None)"
    using assms(1) by (auto simp: hops_def jm_get_def)
  show "distinct (jm_keys hops)"
    unfolding hops_def by (rule jsm.distinct_fold_put) (simp add: jm_keys_def)
  have "length (fold (\<lambda>r. jm_set r (1 :: nat)) rs m) \<le> length m + length rs" for m :: "(string, nat) jsmap"
  proof (induction rs arbitrary: m)
    case (Cons r rs)
    have "length (jm_set r (1 :: nat) m) \<le> Suc (length m)" by (simp add: length_jm_set)
    with Cons.IH [of "jm_set r 1 m"] show ?case by simp
  qed simp
  from this [of "[(f, 0)]"] show "length hops \<le> Suc (length rs)" by (simp add: hops_def)
qed

lemma set_program_candidates:
  "set (program_candidates hops (program_parents es f) es) =
     {e \<in> set es. jm_get hops (dg_to e) = Some 1 \<and>
       (dg_type e = Parent \<and> dg_from e = f \<and> dg_to e \<noteq> f \<or> dg_type e \<in> {Blocks, Closes} \<and> dg_from e \<noteq> dg_to e)}"
  by (auto simp: program_candidates_def program_parents_def into_child_def)

definition program_ok :: "nat \<Rightarrow> nat \<Rightarrow> edge_dto set \<Rightarrow> program_search \<Rightarrow> bool" where
  "program_ok maxNodes maxEdges cands s \<longleftrightarrow>
     length (ps_hops s) \<le> maxNodes \<and> length (ps_selected s) \<le> maxEdges \<and> distinct (jm_keys (ps_hops s)) \<and>
     set (ps_selected s) \<subseteq> cands \<and> (\<forall>e\<in>cands. jm_has (ps_hops s) (dg_to e)) \<and>
     (\<forall>e\<in>set (ps_selected s). jm_has (ps_hops s) (dg_from e))"

lemma take_program_ok:
  assumes "program_ok maxNodes maxEdges cands s" and "set es \<subseteq> cands"
  defines "s' \<equiv> take_program maxNodes maxEdges es s"
  shows "program_ok maxNodes maxEdges cands s' \<and> (\<forall>v. jm_has (ps_hops s) v \<longrightarrow> jm_has (ps_hops s') v) \<and>
    set (ps_reasons s) \<subseteq> set (ps_reasons s') \<and>
    (set (ps_reasons s') \<inter> {Nodes_Limit, Edges_Limit} = {} \<longrightarrow> ps_selected s' = ps_selected s @ es)"
  using assms(1,2) unfolding s'_def
proof (induction es arbitrary: s)
  case Nil
  then show ?case by simp
next
  case (Cons e es)
  have sub: "set es \<subseteq> cands" "e \<in> cands" using Cons.prems by simp_all
  consider (cut) "maxEdges \<le> length (ps_selected s)" | (known) "length (ps_selected s) < maxEdges" "jm_has (ps_hops s) (dg_from e)"
    | (skip) "length (ps_selected s) < maxEdges" "\<not> jm_has (ps_hops s) (dg_from e)" "maxNodes \<le> length (ps_hops s)"
    | (new) "length (ps_selected s) < maxEdges" "\<not> jm_has (ps_hops s) (dg_from e)" "length (ps_hops s) < maxNodes"
    by linarith
  then show ?case
  proof cases
    case cut
    then show ?thesis using Cons.prems by (auto simp: program_ok_def)
  next
    case known
    have "program_ok maxNodes maxEdges cands (s\<lparr>ps_selected := ps_selected s @ [e]\<rparr>)"
      using Cons.prems known by (auto simp: program_ok_def)
    from Cons.IH [OF this sub(1)] known show ?thesis by simp
  next
    case skip
    have "program_ok maxNodes maxEdges cands (s\<lparr>ps_reasons := List.insert Nodes_Limit (ps_reasons s)\<rparr>)"
      using Cons.prems by (auto simp: program_ok_def)
    from Cons.IH [OF this sub(1)] skip show ?thesis by auto
  next
    case new
    let ?t = "s\<lparr>ps_hops := jm_set (dg_from e) GRAPH_PROGRAM_DEPTH (ps_hops s), ps_selected := ps_selected s @ [e]\<rparr>"
    have "program_ok maxNodes maxEdges cands ?t"
      using Cons.prems new sub(2) by (auto simp: program_ok_def length_jm_set jm_has_def jsmap_simps)
    from Cons.IH [OF this sub(1)] new show ?thesis by (auto simp: jm_has_def jsmap_simps)
  qed
qed

lemma search_program_facts:
  fixes maxNodes maxEdges f es
  assumes "0 < maxNodes"
  defines "s \<equiv> search_program es f maxNodes maxEdges"
  shows "length (ps_hops s) \<le> maxNodes" and "length (ps_selected s) \<le> maxEdges" and "distinct (jm_keys (ps_hops s))"
    and "jm_has (ps_hops s) f" and "set (ps_selected s) \<subseteq> program_edges (set es) f"
    and "\<forall>e\<in>set (ps_selected s). jm_has (ps_hops s) (dg_from e) \<and> jm_has (ps_hops s) (dg_to e)"
    and "set (ps_reasons s) \<inter> {Nodes_Limit, Edges_Limit} = {} \<Longrightarrow> set (ps_selected s) = program_edges (set es) f"
proof -
  define kids hops where "kids = take (maxNodes - 1) (program_children es f)"
    and "hops = fold (\<lambda>r. jm_set r 1) kids [(f, 0 :: nat)]"
  define cands where "cands = program_candidates hops (program_parents es f) es"
  define start where "start = \<lparr>ps_hops = hops, ps_selected = [],
         ps_reasons = (if maxNodes - 1 < length (program_children es f) then [Nodes_Limit] else [])\<rparr>"
  have s: "s = take_program maxNodes maxEdges cands start"
    by (simp add: s_def search_program_def Let_def kids_def hops_def cands_def start_def)
  have kids: "set kids \<subseteq> child_refs (set es) f"
    unfolding kids_def set_program_children [symmetric] by (rule set_take_subset)
  then have "f \<notin> set kids" by (auto simp: child_refs_def)
  note hop = children_hops [OF this, folded hops_def]
  have one: "jm_get hops v = Some 1 \<longleftrightarrow> v \<in> set kids" for v using \<open>f \<notin> set kids\<close> by (simp add: hop(1))
  have "length kids \<le> maxNodes - 1" by (simp add: kids_def)
  then have len: "length hops \<le> maxNodes" using hop(3) assms(1) by linarith
  have "program_ok maxNodes maxEdges (set cands) start"
    using len hop(2) by (auto simp: program_ok_def start_def cands_def set_program_candidates jm_has_def)
  note run = take_program_ok [OF this order_refl, folded s]
  show "length (ps_hops s) \<le> maxNodes" "length (ps_selected s) \<le> maxEdges" "distinct (jm_keys (ps_hops s))"
    "\<forall>e\<in>set (ps_selected s). jm_has (ps_hops s) (dg_from e) \<and> jm_has (ps_hops s) (dg_to e)"
    using run by (auto simp: program_ok_def)
  show "jm_has (ps_hops s) f" using run hop(1) [of f] by (auto simp: start_def jm_has_def)
  have cands: "set cands = {e \<in> set es. dg_to e \<in> set kids \<and>
       (dg_type e = Parent \<and> dg_from e = f \<and> dg_to e \<noteq> f \<or> dg_type e \<in> {Blocks, Closes} \<and> dg_from e \<noteq> dg_to e)}"
    unfolding cands_def set_program_candidates one ..
  then have "set cands \<subseteq> program_edges (set es) f" using kids by (auto simp: program_edges_def)
  then show "set (ps_selected s) \<subseteq> program_edges (set es) f" using run by (auto simp: program_ok_def)
  assume none: "set (ps_reasons s) \<inter> {Nodes_Limit, Edges_Limit} = {}"
  then have "set (ps_reasons start) \<inter> {Nodes_Limit, Edges_Limit} = {}" using run by blast
  then have "kids = program_children es f" by (auto simp: start_def kids_def split: if_splits)
  then have "set kids = child_refs (set es) f" by (simp add: set_program_children)
  then have "set cands = program_edges (set es) f" by (auto simp: cands program_edges_def child_refs_def)
  then show "set (ps_selected s) = program_edges (set es) f" using run none by (simp add: start_def)
qed

text \<open>
  Claim C24. The program of a tracker holds nothing but its parent edges and the edges that block or
  close its children, within the limits and with both ends of every edge among the nodes; when it is
  marked complete it holds all of them.
\<close>

theorem graph_program_exact:
  assumes "buildGraphProgram lc inp = Inr g" and "graph_rows inp = Inr m"
  shows "length (gr_nodes g) \<le> gr_max_nodes g \<and> length (gr_edges g) \<le> gr_max_edges g \<and>
    distinct (map gn_ref (gr_nodes g)) \<and> gi_focus_ref inp \<in> gn_ref ` set (gr_nodes g) \<and>
    list_all (\<lambda>e. {dg_from e, dg_to e} \<subseteq> gn_ref ` set (gr_nodes g)) (gr_edges g) \<and>
    set (gr_edges g) \<subseteq> program_edges (set (mr_edges m)) (gi_focus_ref inp) \<and>
    (gr_complete g \<longrightarrow> set (gr_edges g) = program_edges (set (mr_edges m)) (gi_focus_ref inp))"
proof -
  define es cap maxEdges where "es = js_sort (compareEdges lc) (mr_edges m)"
    and "cap = positiveLimit (gi_max_nodes inp) GRAPH_NEIGHBORHOOD_MAX_NODES"
    and "maxEdges = positiveLimit (gi_max_edges inp) GRAPH_NEIGHBORHOOD_MAX_EDGES"
  define s where "s = search_program es (gi_focus_ref inp) cap maxEdges"
  define reached where "reached = insert (gi_focus_ref inp) (set (edge_refs (ps_selected s)))"
  define hops where "hops = filter (\<lambda>(ref, hop). ref \<in> reached) (ps_hops s)"
  have g: "g = graph_response_of inp GRAPH_PROGRAM_DEPTH cap maxEdges (ps_reasons s)
      (graph_nodes lc (items_by_id (mr_items m)) hops) (ps_selected s)"
    using assms(1) unfolding buildGraphProgram_def assms(2) rbind_simps Let_def
      es_def [symmetric] cap_def [symmetric] maxEdges_def [symmetric] s_def [symmetric] reached_def [symmetric]
      hops_def [symmetric]
    by (simp only: split: if_splits) simp_all
  have parts: "gr_nodes g = graph_nodes lc (items_by_id (mr_items m)) hops" "gr_edges g = ps_selected s"
    "gr_max_nodes g = cap" "gr_max_edges g = maxEdges"
    "gr_complete g \<Longrightarrow> set (ps_reasons s) \<inter> {Nodes_Limit, Edges_Limit} = {}"
    unfolding g by (auto simp: graph_response_of_def Let_def split: if_splits)
  have "0 < cap" by (simp add: cap_def positiveLimit_pos GRAPH_NEIGHBORHOOD_MAX_NODES_def)
  note facts = search_program_facts [OF this, of es "gi_focus_ref inp" maxEdges, folded s_def]
  have E: "set es = set (mr_edges m)" by (simp add: es_def)
  have "length hops \<le> cap" using facts(1) length_filter_le [of _ "ps_hops s"] unfolding hops_def by (rule order_trans [rotated])
  have dist: "distinct (jm_keys hops)"
    using facts(3) unfolding hops_def jm_keys_def by (rule distinct_map_filterI)
  have has: "jm_has hops r \<longleftrightarrow> jm_has (ps_hops s) r \<and> r \<in> reached" for r
    by (auto simp: jm_has_iff hops_def jm_keys_def)
  note node = graph_node_has [OF dist, of _ lc "items_by_id (mr_items m)", folded parts(1)]
  have "\<forall>e\<in>set (gr_edges g). {dg_from e, dg_to e} \<subseteq> gn_ref ` set (gr_nodes g)"
    using facts(6) by (auto simp: parts(2) node has reached_def set_edge_refs)
  moreover have "gi_focus_ref inp \<in> gn_ref ` set (gr_nodes g)"
    unfolding node has using facts(4) by (simp add: reached_def)
  moreover have "length (gr_nodes g) \<le> gr_max_nodes g" "distinct (map gn_ref (gr_nodes g))"
    using \<open>length hops \<le> cap\<close> dist by (simp_all add: parts(1,3) graph_nodes_distinct)
  ultimately show ?thesis
    using facts(2,5,7) parts(5) unfolding E parts(2,4) by (simp add: list_all_iff)
qed

section \<open>Samples\<close>

definition sample_graph :: "string \<Rightarrow> rat \<Rightarrow> graph_input" where
  "sample_graph focus depth =
     \<lparr>gi_sources = [], gi_items = bi_items sample_input, gi_labels = bi_labels sample_input,
      gi_edges = bi_edges sample_input, gi_generated_at = bi_generated_at sample_input,
      gi_configured_repos = bi_configured_repos sample_input, gi_focus_ref = focus, gi_depth = Some depth,
      gi_mention_mode = None, gi_max_nodes = None, gi_max_edges = None\<rparr>"

definition sample_neighborhood :: "graph_response result" where
  "sample_neighborhood = buildGraphNeighborhood (\<lambda>_ _. 0) (sample_graph ''gh|a'' 2)"

definition sample_program :: "graph_response result" where
  "sample_program = buildGraphProgram (\<lambda>_ _. 0) (sample_graph ''gh|b'' 2)"

lemma sample_neighborhood_ok:
  obtains g m where "buildGraphNeighborhood (\<lambda>_ _. 0) (sample_graph ''gh|a'' 2) = Inr g"
    and "graph_rows (sample_graph ''gh|a'' 2) = Inr m" and "gr_complete g" and "gr_limit_reasons g = []"
    and "map gn_ref (gr_nodes g) = [''gh|a'', ''gh|b'', ''gh|d'']"
proof -
  have "case sample_neighborhood of Inr g \<Rightarrow> gr_complete g \<and> gr_limit_reasons g = [] \<and>
      map gn_ref (gr_nodes g) = [''gh|a'', ''gh|b'', ''gh|d''] | Inl _ \<Rightarrow> False"
    by code_simp
  then obtain g where g: "sample_neighborhood = Inr g" "gr_complete g" "gr_limit_reasons g = []" "map gn_ref (gr_nodes g) = [''gh|a'', ''gh|b'', ''gh|d'']"
    by (auto split: sum.splits)
  have "\<not> isl (graph_rows (sample_graph ''gh|a'' 2))" by code_simp
  then obtain m where m: "graph_rows (sample_graph ''gh|a'' 2) = Inr m"
    by (cases "graph_rows (sample_graph ''gh|a'' 2)") simp_all
  show thesis by (rule that [OF g(1) [unfolded sample_neighborhood_def] m g(2) g(3) g(4)])
qed

lemma sample_program_ok:
  obtains g m where "buildGraphProgram (\<lambda>_ _. 0) (sample_graph ''gh|b'' 2) = Inr g"
    and "graph_rows (sample_graph ''gh|b'' 2) = Inr m" and "gr_complete g"
    and "map gn_ref (gr_nodes g) = [''gh|b'', ''gh|d'']"
proof -
  have "case sample_program of Inr g \<Rightarrow> gr_complete g \<and> map gn_ref (gr_nodes g) = [''gh|b'', ''gh|d''] | Inl _ \<Rightarrow> False"
    by code_simp
  then obtain g where g: "sample_program = Inr g" "gr_complete g" "map gn_ref (gr_nodes g) = [''gh|b'', ''gh|d'']"
    by (auto split: sum.splits)
  have "\<not> isl (graph_rows (sample_graph ''gh|b'' 2))" by code_simp
  then obtain m where m: "graph_rows (sample_graph ''gh|b'' 2) = Inr m"
    by (cases "graph_rows (sample_graph ''gh|b'' 2)") simp_all
  show thesis by (rule that [OF g(1) [unfolded sample_program_def] m g(2) g(3)])
qed

theorem graph_neighborhood_bounded_witness:
  "\<exists>g. sample_neighborhood = Inr g \<and> length (gr_nodes g) = 3 \<and> length (gr_nodes g) \<le> gr_max_nodes g \<and>
     list_all (\<lambda>e. {dg_from e, dg_to e} \<subseteq> {''gh|a'', ''gh|b'', ''gh|d''}) (gr_edges g)"
proof -
  obtain g m where g: "buildGraphNeighborhood (\<lambda>_ _. 0) (sample_graph ''gh|a'' 2) = Inr g"
    and refs: "map gn_ref (gr_nodes g) = [''gh|a'', ''gh|b'', ''gh|d'']" by (rule sample_neighborhood_ok)
  have "length (gr_nodes g) = 3" "gn_ref ` set (gr_nodes g) = {''gh|a'', ''gh|b'', ''gh|d''}"
    using arg_cong [OF refs, of length] arg_cong [OF refs, of set] by simp_all
  then show ?thesis
    using graph_neighborhood_bounded [OF g] g by (simp add: sample_neighborhood_def)
qed

theorem graph_neighborhood_exact_witness:
  "\<exists>g m. sample_neighborhood = Inr g \<and> graph_rows (sample_graph ''gh|a'' 2) = Inr m \<and>
     (\<Union>h. walk (set (mr_edges m)) ''gh|a'' h) = {''gh|a'', ''gh|b'', ''gh|d''}"
proof -
  obtain g m where g: "buildGraphNeighborhood (\<lambda>_ _. 0) (sample_graph ''gh|a'' 2) = Inr g"
    and m: "graph_rows (sample_graph ''gh|a'' 2) = Inr m" and complete: "gr_complete g" "gr_limit_reasons g = []"
    and refs: "map gn_ref (gr_nodes g) = [''gh|a'', ''gh|b'', ''gh|d'']" by (rule sample_neighborhood_ok)
  have "or_else (gi_mention_mode (sample_graph ''gh|a'' 2)) All_Mentions = All_Mentions"
    "gi_focus_ref (sample_graph ''gh|a'' 2) = ''gh|a''" by (simp_all add: sample_graph_def)
  with graph_neighborhood_exact [OF g m] complete
  have "gn_ref ` set (gr_nodes g) = (\<Union>h. walk (set (mr_edges m)) ''gh|a'' h)" by (simp add: followed_def mentioned_def)
  moreover have "gn_ref ` set (gr_nodes g) = {''gh|a'', ''gh|b'', ''gh|d''}" using arg_cong [OF refs, of set] by simp
  ultimately show ?thesis using g m by (simp add: sample_neighborhood_def)
qed

theorem graph_program_exact_witness:
  "\<exists>g m. sample_program = Inr g \<and> graph_rows (sample_graph ''gh|b'' 2) = Inr m \<and>
     set (gr_edges g) = program_edges (set (mr_edges m)) ''gh|b''"
proof -
  obtain g m where g: "buildGraphProgram (\<lambda>_ _. 0) (sample_graph ''gh|b'' 2) = Inr g"
    and m: "graph_rows (sample_graph ''gh|b'' 2) = Inr m" and complete: "gr_complete g"
    by (rule sample_program_ok)
  have "gi_focus_ref (sample_graph ''gh|b'' 2) = ''gh|b''" by (simp add: sample_graph_def)
  with graph_program_exact [OF g m] complete g m show ?thesis by (auto simp: sample_program_def)
qed

end
