(* ===== verification/Graph_Coalesce.thy ===== *)
theory Graph_Coalesce
  imports Graph_Neighborhood
begin

text \<open>
  How concurrent requests for the same neighbourhood share one load (\<open>src/server/graph-neighborhood.ts\<close>,
  \<open>coalesceGraphNeighborhoodProjection\<close> and the handler of the request).

  The promise of a load is its number in \<open>cl_flights\<close>, a call of the function its number in
  \<open>cl_waiters\<close>.  The callbacks run one at a time, in any order the event loop may choose, so each is
  a step.  \<open>wt_late\<close> is kept for the statements only: whether the load had been aborted when the call
  joined it.  The load itself settles with any outcome; only a load whose signal was aborted settles
  with an \<open>AbortError\<close>, which \<open>throwIfAborted(signal)\<close> throws.
\<close>

section \<open>The functions\<close>

datatype load_outcome = Loaded graph_response | Load_Not_Found string | Load_Failed string | Load_Aborted

record flight =
  fl_key :: string
  fl_consumers :: int
  fl_aborted :: bool
  fl_settled :: "load_outcome option"

record waiter =
  wt_flight :: nat
  wt_released :: bool
  wt_signal :: bool
  wt_listening :: bool
  wt_answer :: "load_outcome option"
  wt_late :: bool

record coalescer =
  cl_flights :: "flight list"
  cl_map :: "(string, nat) jsmap"
  cl_waiters :: "waiter list"

definition set_flight :: "nat \<Rightarrow> (flight \<Rightarrow> flight) \<Rightarrow> coalescer \<Rightarrow> coalescer" where
  "set_flight i f c = c\<lparr>cl_flights := (cl_flights c)[i := f (cl_flights c ! i)]\<rparr>"

definition set_waiter :: "nat \<Rightarrow> (waiter \<Rightarrow> waiter) \<Rightarrow> coalescer \<Rightarrow> coalescer" where
  "set_waiter w f c = c\<lparr>cl_waiters := (cl_waiters c)[w := f (cl_waiters c ! w)]\<rparr>"

definition release :: "nat \<Rightarrow> coalescer \<Rightarrow> coalescer" where
  "release w c =
     (let wt = cl_waiters c ! w; n = fl_consumers (cl_flights c ! wt_flight wt) - 1 in
      if wt_released wt then c
      else
        set_flight (wt_flight wt)
          (\<lambda>fl. fl\<lparr>fl_consumers := n, fl_aborted := fl_aborted fl \<or> (n = 0 \<and> wt_signal wt)\<rparr>)
          (set_waiter w (\<lambda>wt. wt\<lparr>wt_released := True\<rparr>) c))"

text \<open>The entry of a key, created with its load when there is none.\<close>

definition flight_for :: "string \<Rightarrow> coalescer \<Rightarrow> nat \<times> coalescer" where
  "flight_for key c =
     (case jm_get (cl_map c) key of
        Some i \<Rightarrow> (i, c)
      | None \<Rightarrow>
          (let i = length (cl_flights c) in
           (i, c\<lparr>cl_flights := cl_flights c @ [\<lparr>fl_key = key, fl_consumers = 0, fl_aborted = False, fl_settled = None\<rparr>],
                 cl_map := jm_set key i (cl_map c)\<rparr>)))"

text \<open>A call, with a signal that is aborted or not.\<close>

definition coalesce :: "string \<Rightarrow> bool \<Rightarrow> coalescer \<Rightarrow> coalescer" where
  "coalesce key aborted c =
     (let (i, c1) = flight_for key c; w = length (cl_waiters c1);
          c2 = set_flight i (\<lambda>fl. fl\<lparr>fl_consumers := fl_consumers fl + 1\<rparr>) c1;
          c3 = c2\<lparr>cl_waiters := cl_waiters c2 @ [\<lparr>wt_flight = i, wt_released = False, wt_signal = aborted, wt_listening = \<not> aborted,
                 wt_answer = None, wt_late = fl_aborted (cl_flights c1 ! i)\<rparr>]\<rparr> in
      if aborted then set_waiter w (\<lambda>wt. wt\<lparr>wt_answer := Some Load_Aborted\<rparr>) (release w c3) else c3)"

text \<open>The callbacks: a signal aborts, a load settles, and a call hears of it in two steps.\<close>

definition on_abort :: "nat \<Rightarrow> coalescer \<Rightarrow> coalescer" where
  "on_abort w c =
     set_waiter w (\<lambda>wt. wt\<lparr>wt_listening := False, wt_answer := (case wt_answer wt of None \<Rightarrow> Some Load_Aborted | Some a \<Rightarrow> Some a)\<rparr>)
       (release w (set_waiter w (\<lambda>wt. wt\<lparr>wt_signal := True\<rparr>) c))"

definition settle_flight :: "nat \<Rightarrow> load_outcome \<Rightarrow> coalescer \<Rightarrow> coalescer" where
  "settle_flight i out c =
     (let c1 = set_flight i (\<lambda>fl. fl\<lparr>fl_settled := Some out\<rparr>) c; key = fl_key (cl_flights c ! i) in
      if jm_get (cl_map c1) key = Some i then c1\<lparr>cl_map := jm_delete key (cl_map c1)\<rparr> else c1)"

definition deliver :: "nat \<Rightarrow> coalescer \<Rightarrow> coalescer" where
  "deliver w c =
     set_waiter w (\<lambda>wt. wt\<lparr>wt_answer :=
       (case wt_answer wt of None \<Rightarrow> fl_settled (cl_flights c ! wt_flight wt) | Some a \<Rightarrow> Some a)\<rparr>) c"

definition finish_waiter :: "nat \<Rightarrow> coalescer \<Rightarrow> coalescer" where
  "finish_waiter w c = release w (set_waiter w (\<lambda>wt. wt\<lparr>wt_listening := False\<rparr>) c)"

inductive co_step :: "coalescer \<Rightarrow> coalescer \<Rightarrow> bool" where
  call: "co_step c (coalesce key aborted c)"
| abort: "w < length (cl_waiters c) \<Longrightarrow> wt_listening (cl_waiters c ! w) \<Longrightarrow> co_step c (on_abort w c)"
| settle: "i < length (cl_flights c) \<Longrightarrow> fl_settled (cl_flights c ! i) = None \<Longrightarrow>
    (out = Load_Aborted \<Longrightarrow> fl_aborted (cl_flights c ! i)) \<Longrightarrow> co_step c (settle_flight i out c)"
| deliver: "w < length (cl_waiters c) \<Longrightarrow> fl_settled (cl_flights c ! wt_flight (cl_waiters c ! w)) \<noteq> None \<Longrightarrow>
    co_step c (deliver w c)"
| finish: "w < length (cl_waiters c) \<Longrightarrow> fl_settled (cl_flights c ! wt_flight (cl_waiters c ! w)) \<noteq> None \<Longrightarrow>
    wt_answer (cl_waiters c ! w) \<noteq> None \<Longrightarrow> co_step c (finish_waiter w c)"

definition no_flights :: coalescer where
  "no_flights = \<lparr>cl_flights = [], cl_map = jm_empty, cl_waiters = []\<rparr>"

text \<open>The answer to the HTTP request: an \<open>AbortError\<close> is taken for the client's own and answered by nothing.\<close>

datatype graph_answer = Graph_Ok graph_response | Graph_Error nat string string

definition graph_answer_of :: "load_outcome \<Rightarrow> graph_answer option" where
  "graph_answer_of out =
     (case out of
        Loaded r \<Rightarrow> Some (Graph_Ok r)
      | Load_Aborted \<Rightarrow> None
      | Load_Not_Found m \<Rightarrow> Some (Graph_Error 404 ''graph_focus_not_found'' m)
      | Load_Failed m \<Rightarrow> Some (Graph_Error 500 ''internal_error'' m))"

definition handleGraphNeighborhoodRequest ::
  "(string \<times> string) list \<Rightarrow> (graph_options \<Rightarrow> load_outcome) \<Rightarrow> graph_answer option"
where
  "handleGraphNeighborhoodRequest params projection =
     (case parseGraphNeighborhoodOptions params of
        Inl e \<Rightarrow> Some (Graph_Error 400 ''invalid_graph_neighborhood'' e)
      | Inr opts \<Rightarrow> graph_answer_of (projection opts))"

section \<open>The invariant\<close>

definition waiting_on :: "nat \<Rightarrow> waiter \<Rightarrow> bool" where
  "waiting_on i wt \<longleftrightarrow> wt_flight wt = i \<and> \<not> wt_released wt"

definition flights_ok :: "coalescer \<Rightarrow> bool" where
  "flights_ok c \<longleftrightarrow>
     (\<forall>key i. jm_get (cl_map c) key = Some i \<longleftrightarrow>
        i < length (cl_flights c) \<and> fl_key (cl_flights c ! i) = key \<and> fl_settled (cl_flights c ! i) = None) \<and>
     (\<forall>i < length (cl_flights c).
        fl_consumers (cl_flights c ! i) = int (length (filter (waiting_on i) (cl_waiters c))) \<and>
        (fl_settled (cl_flights c ! i) = Some Load_Aborted \<longrightarrow> fl_aborted (cl_flights c ! i)))"

definition waiter_ok :: "coalescer \<Rightarrow> waiter \<Rightarrow> bool" where
  "waiter_ok c wt \<longleftrightarrow> wt_flight wt < length (cl_flights c) \<and>
     (wt_released wt \<longrightarrow> wt_answer wt \<noteq> None) \<and>
     (fl_aborted (cl_flights c ! wt_flight wt) \<longrightarrow> wt_released wt \<or> wt_late wt) \<and>
     (\<forall>out. wt_answer wt = Some out \<longrightarrow>
        (out = Load_Aborted \<and> wt_signal wt \<or> fl_settled (cl_flights c ! wt_flight wt) = Some out) \<and>
        (out = Load_Aborted \<longrightarrow> wt_signal wt \<or> wt_late wt))"

definition co_ok :: "coalescer \<Rightarrow> bool" where
  "co_ok c \<longleftrightarrow> flights_ok c \<and> (\<forall>wt \<in> set (cl_waiters c). waiter_ok c wt)"

lemma co_ok_start: "co_ok no_flights"
  by (simp add: co_ok_def flights_ok_def no_flights_def jm_get_def)

lemma set_waiter_simps [simp]:
  "cl_flights (set_waiter w g c) = cl_flights c" "cl_map (set_waiter w g c) = cl_map c"
  "cl_waiters (set_waiter w g c) = (cl_waiters c)[w := g (cl_waiters c ! w)]"
  by (simp_all add: set_waiter_def)

lemma set_flight_simps [simp]:
  "cl_waiters (set_flight i f c) = cl_waiters c" "cl_map (set_flight i f c) = cl_map c"
  "cl_flights (set_flight i f c) = (cl_flights c)[i := f (cl_flights c ! i)]"
  by (simp_all add: set_flight_def)

lemma co_okD:
  assumes "co_ok c" and "w < length (cl_waiters c)"
  shows "waiter_ok c (cl_waiters c ! w)" and "wt_flight (cl_waiters c ! w) < length (cl_flights c)"
  using assms by (auto simp: co_ok_def waiter_ok_def)

text \<open>Changing what a call knows, but not the load it waits for.\<close>

lemma set_waiter_ok:
  assumes ok: "co_ok c" and w: "w < length (cl_waiters c)"
    and same: "wt_flight (g (cl_waiters c ! w)) = wt_flight (cl_waiters c ! w)"
      "wt_released (g (cl_waiters c ! w)) = wt_released (cl_waiters c ! w)"
    and new: "waiter_ok c (g (cl_waiters c ! w))"
  shows "co_ok (set_waiter w g c)"
proof -
  have "waiting_on i (g (cl_waiters c ! w)) = waiting_on i (cl_waiters c ! w)" for i
    using same by (simp add: waiting_on_def)
  then have "flights_ok (set_waiter w g c)"
    using ok w count_update [OF w] by (simp add: co_ok_def flights_ok_def)
  moreover have "\<forall>wt \<in> set (cl_waiters (set_waiter w g c)). waiter_ok (set_waiter w g c) wt"
    using ok new set_update_subset_insert [of "cl_waiters c" w "g (cl_waiters c ! w)"] by (auto simp: co_ok_def waiter_ok_def)
  ultimately show ?thesis by (simp add: co_ok_def)
qed

text \<open>A call that has its answer lets go of the load; the last one may abort it.\<close>

lemma release_ok:
  assumes ok: "co_ok c" and w: "w < length (cl_waiters c)" and answered: "wt_answer (cl_waiters c ! w) \<noteq> None"
  shows "co_ok (release w c)"
proof (cases "wt_released (cl_waiters c ! w)")
  case False
  let ?wt = "cl_waiters c ! w"
  let ?i = "wt_flight ?wt"
  let ?fl = "cl_flights c ! ?i"
  let ?n = "fl_consumers ?fl - 1"
  let ?ws = "(cl_waiters c)[w := ?wt\<lparr>wt_released := True\<rparr>]"
  have i: "?i < length (cl_flights c)" by (rule co_okD(2) [OF ok w])
  have c': "release w c = set_flight ?i (\<lambda>fl. fl\<lparr>fl_consumers := ?n, fl_aborted := fl_aborted fl \<or> (?n = 0 \<and> wt_signal ?wt)\<rparr>)
      (set_waiter w (\<lambda>wt. wt\<lparr>wt_released := True\<rparr>) c)"
    using False by (simp add: release_def Let_def)
  have count: "fl_consumers (cl_flights c ! j) - of_bool (j = ?i) = int (length (filter (waiting_on j) ?ws))"
    if "j < length (cl_flights c)" for j
    using ok that False count_update [OF w, of "waiting_on j" "?wt\<lparr>wt_released := True\<rparr>"]
    by (auto simp: co_ok_def flights_ok_def waiting_on_def)
  have "fl_consumers (cl_flights (release w c) ! j) = int (length (filter (waiting_on j) ?ws))"
    if "j < length (cl_flights c)" for j
    using count [OF that] that unfolding c' by (cases "j = ?i") (simp_all add: nth_list_update)
  moreover have "length (cl_flights (release w c)) = length (cl_flights c)"
    "fl_key (cl_flights (release w c) ! j) = fl_key (cl_flights c ! j)"
    "fl_settled (cl_flights (release w c) ! j) = fl_settled (cl_flights c ! j)"
    "fl_aborted (cl_flights c ! j) \<Longrightarrow> fl_aborted (cl_flights (release w c) ! j)" for j
    using i unfolding c' by (simp_all add: nth_list_update)
  moreover have "cl_map (release w c) = cl_map c" "cl_waiters (release w c) = ?ws"
    unfolding c' by simp_all
  ultimately have "flights_ok (release w c)"
    using ok by (simp add: co_ok_def flights_ok_def)
  moreover have "waiter_ok (release w c) wt" if "wt \<in> set ?ws" for wt
  proof -
    have "wt_flight wt = ?i \<and> \<not> wt_released wt \<Longrightarrow> 0 < length (filter (waiting_on ?i) ?ws)"
      using that by (auto simp: waiting_on_def filter_empty_conv)
    then have last: "?n = 0 \<Longrightarrow> wt_flight wt = ?i \<Longrightarrow> wt_released wt" using count [OF i] by auto
    have "waiter_ok c wt \<or> wt = ?wt\<lparr>wt_released := True\<rparr>"
      using ok that set_update_subset_insert [of "cl_waiters c" w] by (auto simp: co_ok_def)
    then have "waiter_ok c wt" using co_okD(1) [OF ok w] answered by (auto simp: waiter_ok_def)
    then show ?thesis
      using last i unfolding c' by (cases "wt_flight wt = ?i") (auto simp: waiter_ok_def nth_list_update)
  qed
  ultimately show ?thesis unfolding co_ok_def c' by simp
qed (use ok in \<open>simp add: release_def Let_def\<close>)

lemma release_waiters:
  "length (cl_waiters (release w c)) = length (cl_waiters c)" "cl_map (release w c) = cl_map c"
  "length (cl_flights (release w c)) = length (cl_flights c)"
  by (simp_all add: release_def Let_def)

lemma flight_for_ok:
  assumes "co_ok c" and "flight_for key c = (i, c')"
  shows "co_ok c' \<and> i < length (cl_flights c') \<and> cl_waiters c' = cl_waiters c"
proof (cases "jm_get (cl_map c) key")
  case None
  let ?fl = "\<lparr>fl_key = key, fl_consumers = 0, fl_aborted = False, fl_settled = None\<rparr>"
  let ?n = "length (cl_flights c)"
  have c': "i = ?n" "c' = c\<lparr>cl_flights := cl_flights c @ [?fl], cl_map := jm_set key ?n (cl_map c)\<rparr>"
    using assms(2) None by (auto simp: flight_for_def Let_def)
  have bound: "wt_flight wt < ?n" if "wt \<in> set (cl_waiters c)" for wt
    using assms(1) that by (simp add: co_ok_def waiter_ok_def)
  have none: "filter (waiting_on ?n) (cl_waiters c) = []"
    using bound by (force simp: filter_empty_conv waiting_on_def)
  have "jm_get (cl_map c) key = Some i \<longleftrightarrow> i < ?n \<and> fl_key (cl_flights c ! i) = key \<and> fl_settled (cl_flights c ! i) = None" for i
    using assms(1) unfolding co_ok_def flights_ok_def by blast
  then have fresh: "\<not> (i < ?n \<and> fl_key (cl_flights c ! i) = key \<and> fl_settled (cl_flights c ! i) = None)" for i
    unfolding None by blast
  have "flights_ok c'"
    using assms(1) none fresh unfolding co_ok_def flights_ok_def c'(2)
    by (auto simp: jsmap_simps nth_append less_Suc_eq)
  moreover have "waiter_ok c' wt" if "wt \<in> set (cl_waiters c)" for wt
    using assms(1) that bound [OF that] unfolding c'(2) by (auto simp: co_ok_def waiter_ok_def nth_append)
  ultimately show ?thesis by (simp add: co_ok_def c')
next
  case (Some j)
  then have "i = j" "c' = c" using assms(2) by (simp_all add: flight_for_def)
  moreover have "j < length (cl_flights c)" using assms(1) Some by (simp add: co_ok_def flights_ok_def)
  ultimately show ?thesis using assms(1) by simp
qed

lemma coalesce_ok:
  assumes "co_ok c"
  shows "co_ok (coalesce key aborted c)"
proof -
  obtain i c1 where fl: "flight_for key c = (i, c1)" by fastforce
  have c1: "co_ok c1" "i < length (cl_flights c1)" "cl_waiters c1 = cl_waiters c" using flight_for_ok [OF assms fl] by auto
  let ?w = "length (cl_waiters c1)"
  let ?wt = "\<lparr>wt_flight = i, wt_released = False, wt_signal = aborted, wt_listening = \<not> aborted,
      wt_answer = None, wt_late = fl_aborted (cl_flights c1 ! i)\<rparr>"
  let ?c2 = "set_flight i (\<lambda>fl. fl\<lparr>fl_consumers := fl_consumers fl + 1\<rparr>) c1"
  let ?c3 = "?c2\<lparr>cl_waiters := cl_waiters ?c2 @ [?wt]\<rparr>"
  let ?c4 = "?c2\<lparr>cl_waiters := cl_waiters ?c2 @ [?wt\<lparr>wt_answer := Some Load_Aborted\<rparr>]\<rparr>"
  have count: "fl_consumers (cl_flights ?c2 ! j) = int (length (filter (waiting_on j) (cl_waiters c1 @ [wt])))"
    if "j < length (cl_flights c1)" "wt_flight wt = i" "\<not> wt_released wt" for j and wt :: waiter
    using c1(1,2) that by (cases "j = i") (simp_all add: co_ok_def flights_ok_def nth_list_update waiting_on_def)
  have joined: "co_ok (?c2\<lparr>cl_waiters := cl_waiters ?c2 @ [wt]\<rparr>)"
    if wt: "wt_flight wt = i" "\<not> wt_released wt" and "waiter_ok c1 wt" for wt
  proof -
    let ?c = "?c2\<lparr>cl_waiters := cl_waiters ?c2 @ [wt]\<rparr>"
    have "cl_map ?c = cl_map c1" "cl_waiters ?c = cl_waiters c1 @ [wt]" "cl_flights ?c = cl_flights ?c2" by simp_all
    moreover have "length (cl_flights ?c2) = length (cl_flights c1)"
      "fl_key (cl_flights ?c2 ! j) = fl_key (cl_flights c1 ! j)"
      "fl_settled (cl_flights ?c2 ! j) = fl_settled (cl_flights c1 ! j)"
      "fl_aborted (cl_flights ?c2 ! j) = fl_aborted (cl_flights c1 ! j)" for j
      using c1(2) by (simp_all add: nth_list_update)
    ultimately show ?thesis
      using c1(1) that(3) count [OF _ wt] unfolding co_ok_def flights_ok_def waiter_ok_def by simp
  qed
  show ?thesis
  proof (cases aborted)
    case False
    then have "coalesce key aborted c = ?c3" by (simp add: coalesce_def fl)
    moreover have "waiter_ok c1 ?wt" using c1(2) by (simp add: waiter_ok_def)
    ultimately show ?thesis using joined [of ?wt] by simp
  next
    case True
    then have "coalesce key aborted c = release ?w ?c4"
      by (simp add: coalesce_def fl release_def Let_def set_waiter_def set_flight_def nth_list_update c1(2))
    moreover have "waiter_ok c1 (?wt\<lparr>wt_answer := Some Load_Aborted\<rparr>)" using c1(2) True by (simp add: waiter_ok_def)
    then have "co_ok ?c4" using joined [of "?wt\<lparr>wt_answer := Some Load_Aborted\<rparr>"] by simp
    then have "co_ok (release ?w ?c4)" by (rule release_ok) simp_all
    ultimately show ?thesis by simp
  qed
qed

lemma set_waiter_twice:
  "w < length (cl_waiters c) \<Longrightarrow> set_waiter w g (set_waiter w f c) = set_waiter w (g \<circ> f) c"
  by (simp add: set_waiter_def)

lemma release_set_waiter:
  assumes "w < length (cl_waiters c)"
    and "\<And>wt. wt_flight (g wt) = wt_flight wt \<and> wt_released (g wt) = wt_released wt \<and> wt_signal (g wt) = wt_signal wt
       \<and> g (wt\<lparr>wt_released := True\<rparr>) = (g wt)\<lparr>wt_released := True\<rparr>"
  shows "set_waiter w g (release w c) = release w (set_waiter w g c)"
  using assms by (simp add: release_def Let_def set_waiter_def set_flight_def)

lemma on_abort_ok:
  assumes ok: "co_ok c" and w: "w < length (cl_waiters c)"
  shows "co_ok (on_abort w c)"
proof -
  let ?g = "\<lambda>wt. wt\<lparr>wt_listening := False, wt_answer := (case wt_answer wt of None \<Rightarrow> Some Load_Aborted | Some a \<Rightarrow> Some a)\<rparr>"
  let ?f = "\<lambda>wt. ?g (wt\<lparr>wt_signal := True\<rparr>)"
  have "on_abort w c = release w (set_waiter w ?f c)"
    unfolding on_abort_def using w by (subst release_set_waiter) (simp_all add: set_waiter_twice comp_def)
  moreover have "co_ok (set_waiter w ?f c)"
    using co_okD [OF ok w] by (intro set_waiter_ok [OF ok w]) (auto simp: waiter_ok_def split: option.splits)
  then have "co_ok (release w (set_waiter w ?f c))"
    by (rule release_ok) (use w in \<open>auto split: option.splits\<close>)
  ultimately show ?thesis by simp
qed

lemma deliver_ok:
  assumes ok: "co_ok c" and w: "w < length (cl_waiters c)"
  shows "co_ok (deliver w c)"
proof -
  let ?wt = "cl_waiters c ! w"
  have wt: "waiter_ok c ?wt" "wt_flight ?wt < length (cl_flights c)" by (rule co_okD [OF ok w])+
  have "fl_settled (cl_flights c ! wt_flight ?wt) = Some Load_Aborted \<longrightarrow> fl_aborted (cl_flights c ! wt_flight ?wt)"
    using ok wt(2) by (simp add: co_ok_def flights_ok_def)
  with wt(1) show ?thesis
    unfolding deliver_def by (intro set_waiter_ok [OF ok w]) (auto simp: waiter_ok_def split: option.splits)
qed

lemma finish_waiter_ok:
  assumes ok: "co_ok c" and w: "w < length (cl_waiters c)" and "wt_answer (cl_waiters c ! w) \<noteq> None"
  shows "co_ok (finish_waiter w c)"
  unfolding finish_waiter_def
  using set_waiter_ok [OF ok w, of "\<lambda>wt. wt\<lparr>wt_listening := False\<rparr>"] co_okD(1) [OF ok w] w assms(3)
  by (intro release_ok) (auto simp: waiter_ok_def)

lemma settle_flight_ok:
  assumes ok: "co_ok c" and i: "i < length (cl_flights c)" and open_: "fl_settled (cl_flights c ! i) = None"
    and aborted: "out = Load_Aborted \<Longrightarrow> fl_aborted (cl_flights c ! i)"
  shows "co_ok (settle_flight i out c)"
proof -
  let ?key = "fl_key (cl_flights c ! i)"
  have map: "jm_get (cl_map c) key = Some j \<longleftrightarrow>
      j < length (cl_flights c) \<and> fl_key (cl_flights c ! j) = key \<and> fl_settled (cl_flights c ! j) = None" for key j
    using ok unfolding co_ok_def flights_ok_def by blast
  then have "jm_get (cl_map c) ?key = Some i" using i open_ by simp
  then have c': "settle_flight i out c = (set_flight i (\<lambda>fl. fl\<lparr>fl_settled := Some out\<rparr>) c)\<lparr>cl_map := jm_delete ?key (cl_map c)\<rparr>"
    by (simp add: settle_flight_def)
  have map': "jm_get (jm_delete ?key (cl_map c)) key = Some j \<longleftrightarrow> jm_get (cl_map c) key = Some j \<and> j \<noteq> i" for key j
    using \<open>jm_get (cl_map c) ?key = Some i\<close> map [of key i] by (auto simp: jsmap_simps)
  have "flights_ok (settle_flight i out c)"
    using ok i aborted unfolding c' co_ok_def flights_ok_def by (auto simp: map' map nth_list_update)
  moreover have "waiter_ok (settle_flight i out c) wt" if "waiter_ok c wt" for wt
    using that i open_ unfolding c' by (auto simp: waiter_ok_def nth_list_update)
  ultimately show ?thesis using ok by (simp add: co_ok_def c')
qed

lemma co_step_ok: "co_step c c' \<Longrightarrow> co_ok c \<Longrightarrow> co_ok c'"
  by (induction rule: co_step.induct) (simp_all add: coalesce_ok on_abort_ok settle_flight_ok deliver_ok finish_waiter_ok)

lemma co_reachable: "co_step\<^sup>*\<^sup>* no_flights c \<Longrightarrow> co_ok c"
  by (induction rule: rtranclp_induct) (auto intro: co_ok_start co_step_ok)

section \<open>What sharing a load guarantees\<close>

text \<open>
  Claim C33. Requests share loads soundly: in every reachable state at most one load per key is in
  flight; what a call is answered is what its load settled with, unless its own signal aborted; a load
  is aborted only when no call waits for it but those that joined it after it was aborted; and a call is
  answered with an abort only when its own signal aborted or it joined such a load.
\<close>

theorem coalesced_loads_sound:
  assumes "co_step\<^sup>*\<^sup>* no_flights c"
  shows "(\<forall>i j. i < length (cl_flights c) \<longrightarrow> j < length (cl_flights c) \<longrightarrow> fl_settled (cl_flights c ! i) = None \<longrightarrow>
        fl_settled (cl_flights c ! j) = None \<longrightarrow> fl_key (cl_flights c ! i) = fl_key (cl_flights c ! j) \<longrightarrow> i = j)
    \<and> (\<forall>wt \<in> set (cl_waiters c). \<forall>out. wt_answer wt = Some out \<longrightarrow>
        fl_settled (cl_flights c ! wt_flight wt) = Some out \<or> out = Load_Aborted \<and> wt_signal wt)
    \<and> (\<forall>wt \<in> set (cl_waiters c). fl_aborted (cl_flights c ! wt_flight wt) \<longrightarrow> \<not> wt_released wt \<longrightarrow> wt_late wt)
    \<and> (\<forall>wt \<in> set (cl_waiters c). wt_answer wt = Some Load_Aborted \<longrightarrow> wt_signal wt \<or> wt_late wt)"
proof -
  have ok: "co_ok c" using assms by (rule co_reachable)
  have "jm_get (cl_map c) (fl_key (cl_flights c ! i)) = Some i"
    if "i < length (cl_flights c)" "fl_settled (cl_flights c ! i) = None" for i
    using ok that unfolding co_ok_def flights_ok_def by blast
  then have "i = j" if "i < length (cl_flights c)" "j < length (cl_flights c)" "fl_settled (cl_flights c ! i) = None"
      "fl_settled (cl_flights c ! j) = None" "fl_key (cl_flights c ! i) = fl_key (cl_flights c ! j)" for i j
    using that by (metis option.inject)
  moreover have "waiter_ok c wt" if "wt \<in> set (cl_waiters c)" for wt using ok that by (simp add: co_ok_def)
  ultimately show ?thesis unfolding waiter_ok_def by blast
qed

text \<open>
  A request that joins a load its only consumer has just given up is answered by the abort of that
  load, although its own client still waits; the handler then writes no answer at all.
\<close>

definition sample_joined :: coalescer where
  "sample_joined =
     deliver 1 (settle_flight 0 Load_Aborted (coalesce ''k'' False (on_abort 0 (coalesce ''k'' False no_flights))))"

lemma sample_joined_values:
  "length (cl_waiters sample_joined) = 2" "\<not> wt_signal (cl_waiters sample_joined ! 1)"
  "wt_answer (cl_waiters sample_joined ! 1) = Some Load_Aborted"
  by code_simp+

lemma sample_joined_reachable: "co_step\<^sup>*\<^sup>* no_flights sample_joined"
proof -
  let ?c1 = "coalesce ''k'' False no_flights"
  let ?c2 = "on_abort 0 ?c1"
  let ?c3 = "coalesce ''k'' False ?c2"
  let ?c4 = "settle_flight 0 Load_Aborted ?c3"
  have "co_step no_flights ?c1" by (rule co_step.call)
  moreover have "co_step ?c1 ?c2" by (rule co_step.abort) code_simp+
  moreover have "co_step ?c2 ?c3" by (rule co_step.call)
  moreover have "fl_settled (cl_flights ?c3 ! 0) = None" by code_simp
  then have "co_step ?c3 ?c4" by (intro co_step.settle) code_simp+
  moreover have "co_step ?c4 sample_joined" unfolding sample_joined_def by (rule co_step.deliver) code_simp+
  ultimately show ?thesis by (meson r_into_rtranclp rtranclp.rtrancl_into_rtrancl)
qed

lemma foreign_abort_unanswered:
  "\<exists>c wt. co_step\<^sup>*\<^sup>* no_flights c \<and> wt \<in> set (cl_waiters c) \<and> \<not> wt_signal wt
    \<and> wt_answer wt = Some Load_Aborted \<and> graph_answer_of Load_Aborted = None"
proof (intro exI conjI)
  show "cl_waiters sample_joined ! 1 \<in> set (cl_waiters sample_joined)" using sample_joined_values(1) by simp
  show "graph_answer_of Load_Aborted = None" by (simp add: graph_answer_of_def)
qed (rule sample_joined_reachable sample_joined_values)+

theorem coalesced_loads_sound_witness:
  "wt_late (cl_waiters sample_joined ! 1) \<and> length (cl_flights sample_joined) = 1"
proof -
  have "cl_waiters sample_joined ! 1 \<in> set (cl_waiters sample_joined)" using sample_joined_values(1) by simp
  then have "wt_late (cl_waiters sample_joined ! 1)"
    using coalesced_loads_sound [OF sample_joined_reachable] sample_joined_values(2,3) by blast
  moreover have "length (cl_flights sample_joined) = 1" by code_simp
  ultimately show ?thesis ..
qed

end
