(* ===== verification/Live_Stream.thy ===== *)
theory Live_Stream
  imports Live_Store
begin

text \<open>
  The server-sent event broadcaster of \<open>src/live/broadcaster.ts\<close>.

  A response of \<open>node:http\<close> is what was written to it and the state the broadcaster reads: whether
  it has ended or is destroyed, how many bytes wait in its buffer, and whether the next write throws.
  \<open>grow c\<close> is what writing \<open>c\<close> adds to the buffer.  Responses are numbered in the order of their
  requests; a subscriber names its response by that number.  A write to a response that has ended is
  dropped (node reports it later as an \<open>error\<close> event).
\<close>

section \<open>Frames and responses\<close>

datatype chunk =
    Retry_Hint
  | Live_Frame live_event
  | Update_Frame live_event
  | Reset_Frame string nat
  | Heartbeat
  | Json_Body json

text \<open>The text on the wire; \<open>stringify\<close> is \<open>JSON.stringify\<close>.\<close>

definition newline :: string where
  "newline = [CHR 0x0A]"

definition formatSseFrame :: "(live_event \<Rightarrow> string) \<Rightarrow> live_event \<Rightarrow> string" where
  "formatSseFrame stringify e =
     ''id: '' @ nat_str (ev_seq e) @ newline @ ''event: live'' @ newline @ ''data: '' @ stringify e @ newline @ newline"

definition formatSseUpdateFrame :: "(live_event \<Rightarrow> string) \<Rightarrow> live_event \<Rightarrow> string" where
  "formatSseUpdateFrame stringify e =
     ''event: live-update'' @ newline @ ''data: '' @ stringify e @ newline @ newline"

record response =
  rp_status :: nat
  rp_body :: "chunk list"
  rp_ended :: bool
  rp_destroyed :: bool
  rp_buffered :: nat
  rp_throws :: bool

definition fresh_response :: response where
  "fresh_response = \<lparr>rp_status = 200, rp_body = [], rp_ended = False, rp_destroyed = False, rp_buffered = 0, rp_throws = False\<rparr>"

definition res_write :: "(chunk \<Rightarrow> nat) \<Rightarrow> chunk \<Rightarrow> response \<Rightarrow> response" where
  "res_write grow c r =
     (if rp_ended r \<or> rp_destroyed r then r
      else r\<lparr>rp_body := rp_body r @ [c], rp_buffered := rp_buffered r + grow c\<rparr>)"

definition res_end :: "response \<Rightarrow> response" where
  "res_end r = r\<lparr>rp_ended := True\<rparr>"

section \<open>The broadcaster\<close>

definition DEFAULT_MAX_CONNECTIONS :: nat where
  "DEFAULT_MAX_CONNECTIONS = 100"

definition MAX_SUBSCRIBER_BUFFER_BYTES :: nat where
  "MAX_SUBSCRIBER_BUFFER_BYTES = 4 * 1024 * 1024"

record subscriber =
  sb_id :: nat
  sb_res :: nat
  sb_last :: nat

record hub =
  hb_subs :: "(nat, subscriber) jsmap"
  hb_next :: nat
  hb_heartbeat :: bool
  hb_max_connections :: nat
  hb_max_buffer :: nat
  hb_out :: "response list"

definition new_hub :: "nat \<Rightarrow> hub" where
  "new_hub maxConnections =
     \<lparr>hb_subs = jm_empty, hb_next = 1, hb_heartbeat = False, hb_max_connections = maxConnections,
      hb_max_buffer = MAX_SUBSCRIBER_BUFFER_BYTES, hb_out = []\<rparr>"

definition update_res :: "nat \<Rightarrow> (response \<Rightarrow> response) \<Rightarrow> hub \<Rightarrow> hub" where
  "update_res i f h = h\<lparr>hb_out := (hb_out h)[i := f (hb_out h ! i)]\<rparr>"

definition hasCapacity :: "hub \<Rightarrow> bool" where
  "hasCapacity h \<longleftrightarrow> length (hb_subs h) < hb_max_connections h"

definition add_sub :: "nat \<Rightarrow> nat \<Rightarrow> hub \<Rightarrow> nat \<times> hub" where
  "add_sub res lastSentSeq h =
     (let sid = hb_next h in
      (sid, h\<lparr>hb_subs := jm_set sid \<lparr>sb_id = sid, sb_res = res, sb_last = lastSentSeq\<rparr> (hb_subs h),
             hb_next := Suc sid, hb_heartbeat := True\<rparr>))"

definition remove_sub :: "nat \<Rightarrow> hub \<Rightarrow> hub" where
  "remove_sub sid h =
     (let subs = jm_delete sid (hb_subs h) in
      h\<lparr>hb_subs := subs, hb_heartbeat := (if subs = [] then False else hb_heartbeat h)\<rparr>)"

definition evict :: "nat \<Rightarrow> hub \<Rightarrow> hub" where
  "evict sid h =
     (case jm_get (hb_subs h) sid of
        None \<Rightarrow> h
      | Some sub \<Rightarrow>
          remove_sub sid (if rp_ended (hb_out h ! sb_res sub) then h else update_res (sb_res sub) res_end h))"

definition writeOrEvict :: "(chunk \<Rightarrow> nat) \<Rightarrow> nat \<Rightarrow> chunk \<Rightarrow> hub \<Rightarrow> bool \<times> hub" where
  "writeOrEvict grow sid c h =
     (case jm_get (hb_subs h) sid of
        None \<Rightarrow> (False, h)
      | Some sub \<Rightarrow>
          (let r = hb_out h ! sb_res sub in
           if rp_ended r \<or> rp_destroyed r \<or> hb_max_buffer h < rp_buffered r then (False, evict sid h)
           else if rp_throws r then (False, evict sid h)
           else (True, update_res (sb_res sub) (res_write grow c) h)))"

text \<open>
  \<open>send\<close> holds the subscriber object; one that was evicted is never written, whatever its high-water
  mark, so an unknown number stands for it.
\<close>

definition send :: "(chunk \<Rightarrow> nat) \<Rightarrow> bool \<Rightarrow> nat \<Rightarrow> live_event \<Rightarrow> hub \<Rightarrow> hub" where
  "send grow replace sid e h =
     (if replace then snd (writeOrEvict grow sid (Update_Frame e) h)
      else
        (case jm_get (hb_subs h) sid of
           None \<Rightarrow> h
         | Some sub \<Rightarrow>
             if ev_seq e \<le> sb_last sub then h
             else
               (let (ok, h') = writeOrEvict grow sid (Live_Frame e) h in
                if ok then h'\<lparr>hb_subs := jm_set sid (sub\<lparr>sb_last := ev_seq e\<rparr>) (hb_subs h')\<rparr> else h')))"

definition broadcast :: "(chunk \<Rightarrow> nat) \<Rightarrow> bool \<Rightarrow> live_event \<Rightarrow> hub \<Rightarrow> hub" where
  "broadcast grow replace e h = fold (\<lambda>sid. send grow replace sid e) (jm_keys (hb_subs h)) h"

definition closeAll :: "hub \<Rightarrow> hub" where
  "closeAll h =
     (fold (\<lambda>sub. update_res (sb_res sub) res_end) (jm_values (hb_subs h)) h)\<lparr>hb_subs := jm_empty, hb_heartbeat := False\<rparr>"

definition heartbeat :: "(chunk \<Rightarrow> nat) \<Rightarrow> hub \<Rightarrow> hub" where
  "heartbeat grow h =
     (if hb_heartbeat h
      then fold (\<lambda>sid. snd \<circ> writeOrEvict grow sid Heartbeat) (jm_keys (hb_subs h)) h
      else h)"

section \<open>Well-formed hubs\<close>

definition hub_ok :: "hub \<Rightarrow> bool" where
  "hub_ok h \<longleftrightarrow>
     distinct (jm_keys (hb_subs h)) \<and>
     (\<forall>sid sub. jm_get (hb_subs h) sid = Some sub \<longrightarrow>
        sid < hb_next h \<and> sb_res sub < length (hb_out h) \<and> \<not> rp_ended (hb_out h ! sb_res sub)) \<and>
     (\<forall>a b suba subb. jm_get (hb_subs h) a = Some suba \<longrightarrow> jm_get (hb_subs h) b = Some subb \<longrightarrow>
        sb_res suba = sb_res subb \<longrightarrow> a = b) \<and>
     (hb_heartbeat h \<longleftrightarrow> hb_subs h \<noteq> []) \<and> length (hb_subs h) \<le> hb_max_connections h"

definition registered :: "hub \<Rightarrow> nat \<Rightarrow> bool" where
  "registered h i \<longleftrightarrow> (\<exists>sid sub. jm_get (hb_subs h) sid = Some sub \<and> sb_res sub = i)"

text \<open>The events a response carried, in order; updates, hints and heartbeats are no events.\<close>

definition frame_event :: "chunk \<Rightarrow> live_event option" where
  "frame_event c = (case c of Live_Frame e \<Rightarrow> Some e | _ \<Rightarrow> None)"

definition lives :: "hub \<Rightarrow> nat \<Rightarrow> live_event list" where
  "lives h i = List.map_filter frame_event (rp_body (hb_out h ! i))"

section \<open>Deliveries\<close>

text \<open>
  What an operation delivers: each subscriber in \<open>S\<close> that is still registered afterwards got
  exactly \<open>es\<close>, one that was evicted got a prefix of it, and no other response changed.
\<close>

definition outcome :: "live_event list \<Rightarrow> nat \<Rightarrow> hub \<Rightarrow> hub \<Rightarrow> bool" where
  "outcome es sid h h' \<longleftrightarrow>
     (case jm_get (hb_subs h) sid of
        None \<Rightarrow> jm_get (hb_subs h') sid = None
      | Some sub \<Rightarrow>
          (case jm_get (hb_subs h') sid of
             None \<Rightarrow> (\<exists>n. lives h' (sb_res sub) = lives h (sb_res sub) @ take n es)
           | Some sub' \<Rightarrow> sb_res sub' = sb_res sub \<and> lives h' (sb_res sub) = lives h (sb_res sub) @ es))"

definition same_frame :: "hub \<Rightarrow> hub \<Rightarrow> bool" where
  "same_frame h h' \<longleftrightarrow> length (hb_out h') = length (hb_out h) \<and> hb_next h' = hb_next h \<and>
     hb_max_connections h' = hb_max_connections h \<and> hb_max_buffer h' = hb_max_buffer h"

definition delivers_on :: "nat set \<Rightarrow> live_event list \<Rightarrow> hub \<Rightarrow> hub \<Rightarrow> bool" where
  "delivers_on S es h h' \<longleftrightarrow>
     same_frame h h' \<and>
     (\<forall>sid \<in> S. outcome es sid h h') \<and>
     (\<forall>sid. sid \<notin> S \<longrightarrow> outcome [] sid h h' \<and> jm_get (hb_subs h') sid = jm_get (hb_subs h) sid) \<and>
     (\<forall>i < length (hb_out h). \<not> registered h i \<longrightarrow> lives h' i = lives h i)"

abbreviation delivers :: "live_event list \<Rightarrow> hub \<Rightarrow> hub \<Rightarrow> bool" where
  "delivers \<equiv> delivers_on UNIV"

lemma same_frame_refl [simp]: "same_frame h h"
  by (simp add: same_frame_def)

lemma same_frame_trans: "same_frame h h1 \<Longrightarrow> same_frame h1 h2 \<Longrightarrow> same_frame h h2"
  by (simp add: same_frame_def)

lemma outcome_refl [simp]: "outcome [] sid h h"
  by (simp add: outcome_def split: option.split)

lemma delivers_on_refl: "delivers_on S [] h h"
  by (simp add: delivers_on_def)

lemma outcome_sub:
  "outcome es sid h h' \<Longrightarrow> jm_get (hb_subs h') sid = Some sub' \<Longrightarrow>
   \<exists>sub. jm_get (hb_subs h) sid = Some sub \<and> sb_res sub = sb_res sub'"
  by (auto simp: outcome_def split: option.splits)

lemma delivers_on_sub:
  "delivers_on S es h h' \<Longrightarrow> jm_get (hb_subs h') sid = Some sub' \<Longrightarrow>
   \<exists>sub. jm_get (hb_subs h) sid = Some sub \<and> sb_res sub = sb_res sub'"
  by (cases "sid \<in> S") (auto simp: delivers_on_def dest: outcome_sub)

lemma delivers_on_registered: "delivers_on S es h h' \<Longrightarrow> registered h' i \<Longrightarrow> registered h i"
  using delivers_on_sub unfolding registered_def by metis

lemma hub_ok_res_inj:
  "hub_ok h \<Longrightarrow> jm_get (hb_subs h) a = Some suba \<Longrightarrow> jm_get (hb_subs h) b = Some subb \<Longrightarrow>
   sb_res suba = sb_res subb \<Longrightarrow> a = b"
  by (auto simp: hub_ok_def)

lemma hub_ok_res_bound: "hub_ok h \<Longrightarrow> jm_get (hb_subs h) a = Some sub \<Longrightarrow> sb_res sub < length (hb_out h)"
  by (auto simp: hub_ok_def)

text \<open>A response whose subscriber has gone keeps what it carried.\<close>

lemma gone_unregistered:
  assumes "hub_ok h" and "delivers_on S es h h'" and "jm_get (hb_subs h) sid = Some sub" and "jm_get (hb_subs h') sid = None"
  shows "\<not> registered h' (sb_res sub)"
proof
  assume "registered h' (sb_res sub)"
  then obtain a suba where "jm_get (hb_subs h') a = Some suba" "sb_res suba = sb_res sub" by (auto simp: registered_def)
  then have "a = sid" using delivers_on_sub [OF assms(2)] hub_ok_res_inj [OF assms(1)] assms(3) by metis
  with \<open>jm_get (hb_subs h') a = Some suba\<close> assms(4) show False by simp
qed

lemma outcome_trans:
  assumes ok: "hub_ok h" and d1: "delivers_on S es1 h h1" and d2: "delivers_on T es2 h1 h2"
    and o1: "outcome as1 sid h h1" and o2: "outcome as2 sid h1 h2"
  shows "outcome (as1 @ as2) sid h h2"
proof (cases "jm_get (hb_subs h) sid")
  case None
  with o1 o2 show ?thesis by (simp add: outcome_def)
next
  case (Some sub)
  have b: "sb_res sub < length (hb_out h1)"
    using hub_ok_res_bound [OF ok Some] d1 by (simp add: delivers_on_def same_frame_def)
  show ?thesis
  proof (cases "jm_get (hb_subs h1) sid")
    case None
    then obtain n where n: "lives h1 (sb_res sub) = lives h (sb_res sub) @ take n as1"
      using o1 Some by (auto simp: outcome_def)
    have "lives h2 (sb_res sub) = lives h1 (sb_res sub)"
      using gone_unregistered [OF ok d1 Some None] d2 b by (simp add: delivers_on_def)
    with n o2 None have "lives h2 (sb_res sub) = lives h (sb_res sub) @ take (min n (length as1)) (as1 @ as2)"
      and "jm_get (hb_subs h2) sid = None"
      by (simp_all add: outcome_def min_def)
    with Some show ?thesis unfolding outcome_def by (simp only: option.case) blast
  next
    case (Some sub1)
    with \<open>jm_get (hb_subs h) sid = Some sub\<close> o1 have s1: "sb_res sub1 = sb_res sub"
      "lives h1 (sb_res sub) = lives h (sb_res sub) @ as1" by (simp_all add: outcome_def)
    show ?thesis
    proof (cases "jm_get (hb_subs h2) sid")
      case None
      with Some o2 s1 obtain n where "lives h2 (sb_res sub) = lives h (sb_res sub) @ as1 @ take n as2"
        by (auto simp: outcome_def)
      then have "lives h2 (sb_res sub) = lives h (sb_res sub) @ take (length as1 + n) (as1 @ as2)" by simp
      with None \<open>jm_get (hb_subs h) sid = Some sub\<close> show ?thesis
        unfolding outcome_def by (simp only: option.case) blast
    next
      case (Some sub2)
      with \<open>jm_get (hb_subs h1) sid = Some sub1\<close> \<open>jm_get (hb_subs h) sid = Some sub\<close> o2 s1
      show ?thesis by (auto simp: outcome_def)
    qed
  qed
qed

lemma unregistered_trans:
  assumes "delivers_on S es1 h h1" and "delivers_on T es2 h1 h2" and "i < length (hb_out h)" and "\<not> registered h i"
  shows "lives h2 i = lives h i"
proof -
  have "\<not> registered h1 i" using assms(1,4) delivers_on_registered by blast
  then show ?thesis using assms by (auto simp: delivers_on_def same_frame_def)
qed

lemma delivers_trans:
  assumes "hub_ok h" and "delivers_on S es1 h h1" and "delivers_on S es2 h1 h2"
  shows "delivers_on S (es1 @ es2) h h2"
  unfolding delivers_on_def
proof (intro conjI)
  show "same_frame h h2" using assms by (auto simp: delivers_on_def intro: same_frame_trans)
  show "\<forall>sid \<in> S. outcome (es1 @ es2) sid h h2"
    using assms(2,3) outcome_trans [OF assms] by (auto simp: delivers_on_def)
  show "\<forall>sid. sid \<notin> S \<longrightarrow> outcome [] sid h h2 \<and> jm_get (hb_subs h2) sid = jm_get (hb_subs h) sid"
    using assms(2,3) outcome_trans [OF assms, of "[]" _ "[]"] by (simp add: delivers_on_def)
  show "\<forall>i < length (hb_out h). \<not> registered h i \<longrightarrow> lives h2 i = lives h i"
    using unregistered_trans [OF assms(2,3)] by blast
qed

lemma delivers_on_step:
  assumes ok: "hub_ok h" and d1: "delivers_on {sid} es h h1" and d2: "delivers_on S es h1 h2" and "sid \<notin> S"
  shows "delivers_on (insert sid S) es h h2"
  unfolding delivers_on_def
proof (intro conjI)
  have o1: "outcome es sid h h1" using d1 by (simp add: delivers_on_def)
  have n1: "outcome [] a h h1 \<and> jm_get (hb_subs h1) a = jm_get (hb_subs h) a" if "a \<noteq> sid" for a
    using d1 that by (simp add: delivers_on_def)
  show "same_frame h h2" using d1 d2 by (auto simp: delivers_on_def intro: same_frame_trans)
  show "\<forall>a \<in> insert sid S. outcome es a h h2"
  proof
    fix a
    assume a: "a \<in> insert sid S"
    show "outcome es a h h2"
    proof (cases "a = sid")
      case True
      then show ?thesis using outcome_trans [OF ok d1 d2 o1, of "[]"] d2 assms(4) by (simp add: delivers_on_def)
    next
      case False
      then show ?thesis using outcome_trans [OF ok d1 d2, of "[]" a es] d2 a n1 by (simp add: delivers_on_def)
    qed
  qed
  show "\<forall>a. a \<notin> insert sid S \<longrightarrow> outcome [] a h h2 \<and> jm_get (hb_subs h2) a = jm_get (hb_subs h) a"
    using outcome_trans [OF ok d1 d2, of "[]" _ "[]"] d2 n1 by (simp add: delivers_on_def)
  show "\<forall>i < length (hb_out h). \<not> registered h i \<longrightarrow> lives h2 i = lives h i"
    using unregistered_trans [OF d1 d2] by blast
qed

text \<open>A loop over the subscribers, each step of which serves one of them.\<close>

lemma fold_delivers_on:
  assumes step: "\<And>sid h. hub_ok h \<Longrightarrow> P (jm_get (hb_subs h) sid) \<Longrightarrow> hub_ok (f sid h) \<and> delivers_on {sid} es h (f sid h)"
    and "hub_ok h" and "distinct sids" and "\<forall>sid \<in> set sids. P (jm_get (hb_subs h) sid)"
  shows "hub_ok (fold f sids h) \<and> delivers_on (set sids) es h (fold f sids h)"
  using assms(2-)
proof (induction sids arbitrary: h)
  case Nil
  then show ?case by (simp add: delivers_on_def)
next
  case (Cons sid sids)
  have d1: "hub_ok (f sid h)" "delivers_on {sid} es h (f sid h)" using step [of h sid] Cons.prems by auto
  have "jm_get (hb_subs (f sid h)) a = jm_get (hb_subs h) a" if "a \<in> set sids" for a
    using d1(2) Cons.prems(2) that by (auto simp: delivers_on_def)
  then have "hub_ok (fold f sids (f sid h)) \<and> delivers_on (set sids) es (f sid h) (fold f sids (f sid h))"
    using Cons.prems d1(1) by (intro Cons.IH) auto
  then show ?case
    using delivers_on_step [OF Cons.prems(1) d1(2)] Cons.prems(2) by auto
qed

lemma delivers_on_all: "delivers_on (set (jm_keys (hb_subs h))) es h h' \<Longrightarrow> delivers es h h'"
proof -
  assume d: "delivers_on (set (jm_keys (hb_subs h))) es h h'"
  have "outcome es sid h h'" for sid
  proof (cases "sid \<in> set (jm_keys (hb_subs h))")
    case True
    with d show ?thesis by (simp add: delivers_on_def)
  next
    case False
    with d have "jm_get (hb_subs h') sid = jm_get (hb_subs h) sid" by (simp add: delivers_on_def)
    with False show ?thesis by (simp add: outcome_def jm_get_None_iff [THEN iffD2])
  qed
  with d show ?thesis by (simp add: delivers_on_def)
qed

lemma fold_delivers_keys:
  assumes "\<And>sid h. hub_ok h \<Longrightarrow> P (jm_get (hb_subs h) sid) \<Longrightarrow> hub_ok (f sid h) \<and> delivers_on {sid} es h (f sid h)"
    and ok: "hub_ok h" and "\<And>sid. P (jm_get (hb_subs h) sid)"
  shows "hub_ok (fold f (jm_keys (hb_subs h)) h) \<and> delivers es h (fold f (jm_keys (hb_subs h)) h)"
proof -
  have "distinct (jm_keys (hb_subs h))" using ok by (simp add: hub_ok_def)
  from fold_delivers_on [where P = P, OF assms(1) ok this] assms(3) show ?thesis
    using delivers_on_all by blast
qed

section \<open>What the operations deliver\<close>

lemma hb_update_res [simp]:
  "hb_subs (update_res i f h) = hb_subs h" "hb_next (update_res i f h) = hb_next h"
  "hb_heartbeat (update_res i f h) = hb_heartbeat h" "hb_max_connections (update_res i f h) = hb_max_connections h"
  "hb_max_buffer (update_res i f h) = hb_max_buffer h" "length (hb_out (update_res i f h)) = length (hb_out h)"
  by (simp_all add: update_res_def)

lemma lives_update_res:
  "rp_body (f (hb_out h ! i)) = rp_body (hb_out h ! i) @ cs \<Longrightarrow> i < length (hb_out h) \<Longrightarrow>
   lives (update_res i f h) j = (if j = i then lives h j @ List.map_filter frame_event cs else lives h j)"
  by (auto simp: lives_def update_res_def List.map_filter_def)

lemma registered_update_res [simp]: "registered (update_res i f h) j = registered h j"
  by (simp add: registered_def)

lemma length_jm_delete: "length (jm_delete k m) \<le> length m"
  by (simp add: jm_delete_def)

lemma jm_delete_nonempty: "jm_delete k m \<noteq> [] \<Longrightarrow> m \<noteq> []"
  by (auto simp: jm_delete_def)

lemma distinct_jm_delete: "distinct (jm_keys m) \<Longrightarrow> distinct (jm_keys (jm_delete k m))"
  by (simp add: jsmap_simps)

lemma remove_sub_subs [simp]:
  "hb_subs (remove_sub sid h) = jm_delete sid (hb_subs h)" "hb_out (remove_sub sid h) = hb_out h"
  "same_frame h (remove_sub sid h)"
  by (simp_all add: remove_sub_def Let_def same_frame_def)

lemma hub_ok_remove: "hub_ok h \<Longrightarrow> hub_ok (remove_sub sid h)"
  using length_jm_delete [of sid "hb_subs h"]
  unfolding hub_ok_def remove_sub_def Let_def
  by (auto simp: jsmap_simps dest: jm_delete_nonempty split: if_splits)

lemma outcome_gone:
  "jm_get (hb_subs h') sid = None \<Longrightarrow>
   (\<And>sub. jm_get (hb_subs h) sid = Some sub \<Longrightarrow> lives h' (sb_res sub) = lives h (sb_res sub)) \<Longrightarrow> outcome es sid h h'"
  unfolding outcome_def by (cases "jm_get (hb_subs h) sid") (auto intro: exI [of _ 0])

lemma outcome_same:
  "jm_get (hb_subs h') sid = jm_get (hb_subs h) sid \<Longrightarrow>
   (\<And>sub. jm_get (hb_subs h) sid = Some sub \<Longrightarrow> lives h' (sb_res sub) = lives h (sb_res sub)) \<Longrightarrow> outcome [] sid h h'"
  unfolding outcome_def by (cases "jm_get (hb_subs h) sid") auto

lemma delivers_on_remove: "delivers_on {sid} es h (remove_sub sid h)"
  unfolding delivers_on_def
  by (auto simp: jsmap_simps lives_def intro: outcome_gone outcome_same)

lemma delivers_on_update_res:
  assumes "i < length (hb_out h)" and "rp_body (f (hb_out h ! i)) = rp_body (hb_out h ! i)"
  shows "delivers_on S [] h (update_res i f h)"
proof -
  have "lives (update_res i f h) j = lives h j" for j
    using lives_update_res [of f h i "[]" j] assms by (simp add: List.map_filter_def)
  then show ?thesis by (auto simp: delivers_on_def same_frame_def intro: outcome_same)
qed

lemma hub_ok_update_res:
  assumes "hub_ok h" and "\<And>r. rp_ended (f r) \<Longrightarrow> rp_ended r"
  shows "hub_ok (update_res i f h)"
proof -
  have "\<not> rp_ended ((hb_out h)[i := f (hb_out h ! i)] ! j)" if "\<not> rp_ended (hb_out h ! j)" "j < length (hb_out h)" for j
    using that assms(2) by (cases "j = i") auto
  with assms(1) show ?thesis unfolding hub_ok_def by (simp add: update_res_def)
qed

lemma evict_ok:
  assumes ok: "hub_ok h"
  shows "hub_ok (evict sid h) \<and> delivers_on {sid} es h (evict sid h)"
proof (cases "jm_get (hb_subs h) sid")
  case None
  then show ?thesis using ok by (auto simp: evict_def delivers_on_def outcome_def split: option.split)
next
  case (Some sub)
  have b: "sb_res sub < length (hb_out h)" "\<not> rp_ended (hb_out h ! sb_res sub)"
    using ok Some by (auto simp: hub_ok_def)
  let ?h = "update_res (sb_res sub) res_end h"
  have ev: "evict sid h = remove_sub sid ?h" using Some b by (simp add: evict_def)
  have lives: "lives (evict sid h) j = lives h j" for j
    using lives_update_res [of res_end h "sb_res sub" "[]" j] b
    by (simp add: ev lives_def res_end_def List.map_filter_def remove_sub_def Let_def)
  have others: "sb_res suba \<noteq> sb_res sub" if "jm_get (hb_subs h) a = Some suba" "a \<noteq> sid" for a suba
    using hub_ok_res_inj [OF ok that(1) Some] that(2) by blast
  have still: "\<not> rp_ended ((hb_out h)[sb_res sub := res_end (hb_out h ! sb_res sub)] ! sb_res suba)"
    if "jm_get (hb_subs h) a = Some suba" "a \<noteq> sid" for a suba
    using others [OF that] ok that(1) by (auto simp: hub_ok_def nth_list_update_neq)
  have "hub_ok (evict sid h)"
    using ok still length_jm_delete [of sid "hb_subs h"] unfolding hub_ok_def ev remove_sub_def Let_def
    by (auto simp: jsmap_simps update_res_def dest: jm_delete_nonempty split: if_splits)
  moreover have "jm_get (hb_subs (evict sid h)) a = (if a = sid then None else jm_get (hb_subs h) a)" for a
    by (simp add: ev jsmap_simps)
  then have "delivers_on {sid} es h (evict sid h)"
    unfolding delivers_on_def
    by (auto simp: lives intro: outcome_gone outcome_same) (simp add: ev same_frame_def remove_sub_def Let_def)
  ultimately show ?thesis by blast
qed

text \<open>A write either reaches the response or evicts its subscriber.\<close>

lemma writeOrEvict_ok:
  assumes ok: "hub_ok h" and c: "es = List.map_filter frame_event [c]"
  shows "hub_ok (snd (writeOrEvict grow sid c h)) \<and> delivers_on {sid} es h (snd (writeOrEvict grow sid c h))
    \<and> (\<not> fst (writeOrEvict grow sid c h) \<longrightarrow> jm_get (hb_subs (snd (writeOrEvict grow sid c h))) sid = None)
    \<and> (fst (writeOrEvict grow sid c h) \<longrightarrow> hb_subs (snd (writeOrEvict grow sid c h)) = hb_subs h)"
proof (cases "jm_get (hb_subs h) sid")
  case None
  then show ?thesis using ok by (auto simp: writeOrEvict_def delivers_on_def outcome_def split: option.split)
next
  case (Some sub)
  let ?r = "hb_out h ! sb_res sub"
  have b: "sb_res sub < length (hb_out h)" "\<not> rp_ended ?r" using ok Some by (auto simp: hub_ok_def)
  show ?thesis
  proof (cases "rp_destroyed ?r \<or> hb_max_buffer h < rp_buffered ?r \<or> rp_throws ?r")
    case True
    moreover have "jm_get (hb_subs (evict sid h)) sid = None"
      using Some by (simp add: evict_def jsmap_simps)
    ultimately show ?thesis
      using evict_ok [OF ok, of sid es] Some b by (auto simp: writeOrEvict_def Let_def)
  next
    case False
    let ?h = "update_res (sb_res sub) (res_write grow c) h"
    have w: "writeOrEvict grow sid c h = (True, ?h)"
      using False Some b by (simp add: writeOrEvict_def Let_def)
    have ok': "hub_ok ?h"
      by (rule hub_ok_update_res [OF ok]) (auto simp: res_write_def split: if_splits)
    have l: "lives ?h j = (if j = sb_res sub then lives h j @ es else lives h j)" for j
      using lives_update_res [of "res_write grow c" h "sb_res sub" "[c]" j] b False c
      by (simp add: res_write_def)
    have others: "sb_res suba \<noteq> sb_res sub" if "jm_get (hb_subs h) a = Some suba" "a \<noteq> sid" for a suba
      using hub_ok_res_inj [OF ok that(1) Some] that(2) by blast
    have "delivers_on {sid} es h ?h"
      unfolding delivers_on_def
    proof (intro conjI)
      show "\<forall>a \<in> {sid}. outcome es a h ?h" using Some by (simp add: outcome_def l)
      show "\<forall>a. a \<notin> {sid} \<longrightarrow> outcome [] a h ?h \<and> jm_get (hb_subs ?h) a = jm_get (hb_subs h) a"
        by (auto simp: l dest: others intro!: outcome_same)
      show "\<forall>i < length (hb_out h). \<not> registered h i \<longrightarrow> lives ?h i = lives h i"
        using Some by (auto simp: l registered_def)
    qed (simp add: same_frame_def)
    with ok' w show ?thesis by simp
  qed
qed

lemma frame_event_simps [simp]:
  "List.map_filter frame_event [Heartbeat] = []" "List.map_filter frame_event [Update_Frame e] = []"
  "List.map_filter frame_event [Live_Frame e] = [e]" "List.map_filter frame_event [Retry_Hint] = []"
  "List.map_filter frame_event [Reset_Frame rn n] = []" "List.map_filter frame_event [Json_Body j] = []"
  by (simp_all add: frame_event_def List.map_filter_def)

lemma hub_ok_set_last:
  assumes "hub_ok h" and "jm_get (hb_subs h) sid = Some sub"
  shows "hub_ok (h\<lparr>hb_subs := jm_set sid (sub\<lparr>sb_last := n\<rparr>) (hb_subs h)\<rparr>)"
proof -
  have "length (jm_set sid (sub\<lparr>sb_last := n\<rparr>) (hb_subs h)) = length (hb_subs h)"
    using assms(2) by (simp add: jm_keys_set jm_get_Some_key flip: length_map [of fst] jm_keys_def)
  moreover have "(jm_set sid (sub\<lparr>sb_last := n\<rparr>) (hb_subs h) = []) = (hb_subs h = [])"
    using calculation by (metis length_0_conv)
  ultimately show ?thesis
    using assms unfolding hub_ok_def by (auto simp: jsmap_simps split: if_splits)
qed

text \<open>A new event is sent to a subscriber once.\<close>

lemma send_new:
  assumes ok: "hub_ok h" and new: "\<forall>sub. jm_get (hb_subs h) sid = Some sub \<longrightarrow> sb_last sub < ev_seq e"
  shows "hub_ok (send grow False sid e h) \<and> delivers_on {sid} [e] h (send grow False sid e h)"
proof (cases "jm_get (hb_subs h) sid")
  case None
  then show ?thesis using ok by (auto simp: send_def delivers_on_def outcome_def split: option.split)
next
  case (Some sub)
  let ?w = "writeOrEvict grow sid (Live_Frame e) h"
  note w = writeOrEvict_ok [OF ok frame_event_simps(3) [symmetric], of grow sid e]
  show ?thesis
  proof (cases "fst ?w")
    case False
    with Some new w show ?thesis by (simp add: send_def case_prod_beta not_le [symmetric])
  next
    case True
    let ?h = "(snd ?w)\<lparr>hb_subs := jm_set sid (sub\<lparr>sb_last := ev_seq e\<rparr>) (hb_subs h)\<rparr>"
    have s: "send grow False sid e h = ?h"
      using True Some new w by (simp add: send_def case_prod_beta not_le [symmetric])
    have subs: "hb_subs (snd ?w) = hb_subs h" using w True by simp
    have "hub_ok ?h" using hub_ok_set_last [of "snd ?w" sid sub "ev_seq e"] w Some subs by simp
    moreover have "delivers_on {sid} [e] h ?h"
      using w Some unfolding delivers_on_def
      by (auto simp: outcome_def subs jsmap_simps same_frame_def lives_def split: option.split)
    ultimately show ?thesis unfolding s by blast
  qed
qed

section \<open>High-water marks\<close>

definition lasts_below :: "nat \<Rightarrow> hub \<Rightarrow> bool" where
  "lasts_below n h \<longleftrightarrow> (\<forall>sid sub. jm_get (hb_subs h) sid = Some sub \<longrightarrow> sb_last sub < n)"

lemma lasts_below_mono: "lasts_below m h \<Longrightarrow> m \<le> n \<Longrightarrow> lasts_below n h"
  by (force simp: lasts_below_def)

lemma evict_subs: "jm_get (hb_subs (evict sid h)) a = (if a = sid then None else jm_get (hb_subs h) a)"
  by (auto simp: evict_def jsmap_simps split: option.split)

lemma writeOrEvict_subs:
  "jm_get (hb_subs (snd (writeOrEvict grow sid c h))) a = Some s \<Longrightarrow> jm_get (hb_subs h) a = Some s"
  by (auto simp: writeOrEvict_def Let_def evict_subs split: option.splits if_splits)

lemma lasts_below_write: "lasts_below n h \<Longrightarrow> lasts_below n (snd (writeOrEvict grow sid c h))"
  unfolding lasts_below_def by (blast dest: writeOrEvict_subs)

lemma lasts_below_remove: "lasts_below n h \<Longrightarrow> lasts_below n (remove_sub sid h)"
  by (auto simp: lasts_below_def jsmap_simps)

lemma lasts_below_evict: "lasts_below n h \<Longrightarrow> lasts_below n (evict sid h)"
  by (auto simp: lasts_below_def evict_subs)

lemma lasts_below_send:
  assumes "lasts_below n h" and "ev_seq e < n"
  shows "lasts_below n (send grow replace sid e h)"
proof -
  have "lasts_below n (h'\<lparr>hb_subs := jm_set sid (sub\<lparr>sb_last := ev_seq e\<rparr>) (hb_subs h')\<rparr>)" if "lasts_below n h'" for h' sub
    using that assms(2) by (auto simp: lasts_below_def jsmap_simps)
  then show ?thesis
    using assms(1) lasts_below_write [OF assms(1)]
    by (auto simp: send_def case_prod_beta split: option.split)
qed

lemma send_last:
  assumes "\<forall>sub. jm_get (hb_subs h) sid = Some sub \<longrightarrow> sb_last sub < ev_seq e"
    and "jm_get (hb_subs (send grow False sid e h)) sid = Some s"
  shows "sb_last s = ev_seq e"
proof (cases "jm_get (hb_subs h) sid")
  case None
  with assms(2) show ?thesis by (simp add: send_def)
next
  case (Some sub)
  have "jm_get (hb_subs (snd (writeOrEvict grow sid c h))) sid = None" if "\<not> fst (writeOrEvict grow sid c h)" for c
    using that Some by (auto simp: writeOrEvict_def Let_def evict_subs split: if_splits)
  with assms Some show ?thesis
    by (auto simp: send_def case_prod_beta jsmap_simps split: if_splits)
qed

section \<open>Broadcasts, heartbeats, replays\<close>

lemma broadcast_new:
  assumes ok: "hub_ok h" and below: "lasts_below (ev_seq e) h"
  shows "hub_ok (broadcast grow False e h) \<and> delivers [e] h (broadcast grow False e h)
    \<and> lasts_below (Suc (ev_seq e)) (broadcast grow False e h)"
proof -
  have "hub_ok (broadcast grow False e h) \<and> delivers [e] h (broadcast grow False e h)"
    unfolding broadcast_def
  proof (rule fold_delivers_keys [where P = "\<lambda>s. \<forall>sub. s = Some sub \<longrightarrow> sb_last sub < ev_seq e"])
    show "\<forall>sub. jm_get (hb_subs h) sid = Some sub \<longrightarrow> sb_last sub < ev_seq e" for sid
      using below by (simp add: lasts_below_def)
  qed (use ok send_new in blast)+
  moreover have "lasts_below (Suc (ev_seq e)) (broadcast grow False e h)"
    unfolding broadcast_def
  proof (rule fold_invariant_list [where P = "lasts_below (Suc (ev_seq e))"])
    show "lasts_below (Suc (ev_seq e)) h" using below by (rule lasts_below_mono) simp
  qed (rule lasts_below_send, simp_all)
  ultimately show ?thesis by blast
qed

lemma broadcast_update:
  assumes ok: "hub_ok h" and below: "lasts_below n h"
  shows "hub_ok (broadcast grow True e h) \<and> delivers [] h (broadcast grow True e h) \<and> lasts_below n (broadcast grow True e h)"
proof -
  have "hub_ok (broadcast grow True e h) \<and> delivers [] h (broadcast grow True e h)"
    unfolding broadcast_def
    by (rule fold_delivers_keys [where P = "\<lambda>s. True"])
       (simp_all add: ok send_def writeOrEvict_ok [OF _ frame_event_simps(2) [symmetric]] del: frame_event_simps)
  moreover have "lasts_below n (broadcast grow True e h)"
    unfolding broadcast_def
    by (rule fold_invariant_list [where P = "lasts_below n", OF below]) (simp add: send_def lasts_below_write)
  ultimately show ?thesis by blast
qed

lemma heartbeat_ok:
  assumes ok: "hub_ok h" and below: "lasts_below n h"
  shows "hub_ok (heartbeat grow h) \<and> delivers [] h (heartbeat grow h) \<and> lasts_below n (heartbeat grow h)"
proof (cases "hb_heartbeat h")
  case True
  have "hub_ok (fold (\<lambda>sid. snd \<circ> writeOrEvict grow sid Heartbeat) (jm_keys (hb_subs h)) h)
      \<and> delivers [] h (fold (\<lambda>sid. snd \<circ> writeOrEvict grow sid Heartbeat) (jm_keys (hb_subs h)) h)"
    by (rule fold_delivers_keys [where P = "\<lambda>s. True"])
       (simp_all add: ok writeOrEvict_ok [OF _ frame_event_simps(1) [symmetric]] del: frame_event_simps)
  moreover have "lasts_below n (fold (\<lambda>sid. snd \<circ> writeOrEvict grow sid Heartbeat) (jm_keys (hb_subs h)) h)"
    by (rule fold_invariant_list [where P = "lasts_below n", OF below]) (simp add: lasts_below_write)
  ultimately show ?thesis using True by (simp add: heartbeat_def)
next
  case False
  with ok below show ?thesis by (simp add: heartbeat_def delivers_on_refl)
qed

text \<open>A backlog in order, all of it above the subscriber's mark.\<close>

lemma replay_ok:
  assumes "hub_ok h" and "sorted_wrt (<) (map ev_seq es)"
    and "\<forall>sub. jm_get (hb_subs h) sid = Some sub \<longrightarrow> (\<forall>e \<in> set es. sb_last sub < ev_seq e)"
    and "lasts_below n h" and "\<forall>e \<in> set es. ev_seq e < n"
  shows "hub_ok (fold (send grow False sid) es h) \<and> delivers_on {sid} es h (fold (send grow False sid) es h)
    \<and> lasts_below n (fold (send grow False sid) es h)"
  using assms
proof (induction es arbitrary: h)
  case Nil
  then show ?case by (simp add: delivers_on_refl)
next
  case (Cons e es)
  let ?h = "send grow False sid e h"
  have new: "\<forall>sub. jm_get (hb_subs h) sid = Some sub \<longrightarrow> sb_last sub < ev_seq e" using Cons.prems(3) by simp
  note one = send_new [OF Cons.prems(1) new, of grow]
  have "hub_ok (fold (send grow False sid) es ?h) \<and> delivers_on {sid} es ?h (fold (send grow False sid) es ?h)
      \<and> lasts_below n (fold (send grow False sid) es ?h)"
    by (rule Cons.IH) (use one Cons.prems send_last [OF new, of grow] lasts_below_send in auto)
  then show ?case
    using delivers_trans [OF Cons.prems(1) conjunct2 [OF one], of es] by simp
qed

lemma lives_close_fold:
  "lives (fold (\<lambda>sub. update_res (sb_res sub) res_end) subs h) i = lives h i \<and>
   same_frame h (fold (\<lambda>sub. update_res (sb_res sub) res_end) subs h)"
proof (induction subs arbitrary: h)
  case (Cons sub subs)
  have "lives (update_res (sb_res sub) res_end h) i = lives h i"
    by (cases "sb_res sub < length (hb_out h)"; cases "i = sb_res sub")
       (auto simp: lives_def update_res_def res_end_def list_update_beyond)
  then show ?case using Cons [of "update_res (sb_res sub) res_end h"] by (simp add: same_frame_def)
qed simp

lemma closeAll_ok: "hub_ok h \<Longrightarrow> hub_ok (closeAll h) \<and> delivers [] h (closeAll h) \<and> lasts_below n (closeAll h)"
  using lives_close_fold [of "jm_values (hb_subs h)" h]
  by (auto simp: closeAll_def hub_ok_def lasts_below_def delivers_on_def outcome_def same_frame_def lives_def jsmap_simps
      jm_keys_def intro: exI [of _ 0] split: option.split)

end
