(* ===== verification/Live_Profiles.thy ===== *)
theory Live_Profiles
  imports Live_Provider
begin

text \<open>
  The lookup of actor profiles (\<open>src/live/actor-profiles.ts\<close>): a queue of logins with a bounded
  number of requests in flight, and at most one lookup of a login at a time.

  The jobs of the map \<open>queued\<close> are the values of \<open>ob_jobs\<close>; \<open>ob_queue\<close> and \<open>ob_running\<close> hold
  their keys.  The answer of the GitHub API is an argument of the step that a settled request takes.
\<close>

definition DEFAULT_PROFILE_TTL_MS :: int where
  "DEFAULT_PROFILE_TTL_MS = 7 * 86400000"

definition DEFAULT_NEGATIVE_TTL_MS :: int where
  "DEFAULT_NEGATIVE_TTL_MS = 15 * 60000"

definition DEFAULT_MAX_CONCURRENT :: nat where
  "DEFAULT_MAX_CONCURRENT = 2"

definition DEFAULT_MAX_QUEUE :: nat where
  "DEFAULT_MAX_QUEUE = 256"

record observer_options =
  oo_ttl_ms :: int
  oo_negative_ttl_ms :: int
  oo_max_concurrent :: nat
  oo_max_queue :: nat

definition default_observer_options :: observer_options where
  "default_observer_options = \<lparr>oo_ttl_ms = DEFAULT_PROFILE_TTL_MS, oo_negative_ttl_ms = DEFAULT_NEGATIVE_TTL_MS,
     oo_max_concurrent = DEFAULT_MAX_CONCURRENT, oo_max_queue = DEFAULT_MAX_QUEUE\<rparr>"

record profile_job =
  pj_key :: string
  pj_login :: string
  pj_waiters :: "live_event list"

record observer =
  ob_queue :: "string list"
  ob_jobs :: "(string, profile_job) jsmap"
  ob_running :: "string list"
  ob_active :: nat
  ob_closed :: bool

definition new_observer :: observer where
  "new_observer = \<lparr>ob_queue = [], ob_jobs = jm_empty, ob_running = [], ob_active = 0, ob_closed = False\<rparr>"

section \<open>Profiles\<close>

definition asString :: "json option \<Rightarrow> string option" where
  "asString v = (case v of Some (JStr s) \<Rightarrow> (if s = [] then None else Some s) | _ \<Rightarrow> None)"

definition profileTime :: "int \<Rightarrow> int \<Rightarrow> string result" where
  "profileTime now ttlMs = toISOString (Some (now + ttlMs))"

definition profile_of ::
  "string \<Rightarrow> string option \<Rightarrow> string option \<Rightarrow> string option \<Rightarrow> string option \<Rightarrow> int \<Rightarrow> int \<Rightarrow> profile_input result"
where
  "profile_of login display avatar url error now ttlMs =
     rbind (toISOString (Some now)) (\<lambda>fetched. rbind (profileTime now ttlMs) (\<lambda>expires.
     Inr \<lparr>pi_source_id = ''github:github.com'', pi_provider = ''github'', pi_login = login,
          pi_profile = \<lparr>ap_display_name = display, ap_avatar_url = avatar, ap_profile_url = url,
                        ap_fetched_at = fetched, ap_expires_at = expires, ap_last_error = error\<rparr>\<rparr>))"

definition negativeProfile :: "string \<Rightarrow> string \<Rightarrow> int \<Rightarrow> int \<Rightarrow> profile_input result" where
  "negativeProfile login error now ttlMs = profile_of login None None None (Some error) now ttlMs"

definition truthy :: "string option \<Rightarrow> bool" where
  "truthy v \<longleftrightarrow> v \<noteq> None \<and> v \<noteq> Some []"

definition hasSeed :: "live_actor option \<Rightarrow> bool" where
  "hasSeed actor = (case actor of None \<Rightarrow> False
     | Some a \<Rightarrow> truthy (la_display_name a) \<or> truthy (la_avatar_url a) \<or> truthy (la_profile_url a))"

definition hasAvatar :: "live_actor option \<Rightarrow> bool" where
  "hasAvatar actor = (case actor of None \<Rightarrow> False | Some a \<Rightarrow> truthy (la_avatar_url a))"

text \<open>\<open>None\<close>: the profile changes nothing and the event object itself is returned.\<close>

definition applyProfile :: "live_event \<Rightarrow> actor_profile \<Rightarrow> live_event option" where
  "applyProfile event p =
     (case li_actor event of
        None \<Rightarrow> None
      | Some a \<Rightarrow>
          if \<not> truthy (la_login a) then None
          else
            (let next' = a\<lparr>la_display_name := nullish (la_display_name a) (ap_display_name p),
                           la_avatar_url := nullish (la_avatar_url a) (ap_avatar_url p),
                           la_profile_url := nullish (la_profile_url a) (ap_profile_url p)\<rparr> in
             if next' = a then None else Some (event\<lparr>li_actor := Some next'\<rparr>)))"

text \<open>How the request to \<open>/users/:login\<close> ended; a body that is no object reads as one without members.\<close>

datatype profile_answer = Http_Status nat | Profile_Json "(string \<times> json) list" | Request_Failed string

definition fetchGithubActorProfile ::
  "observer_options \<Rightarrow> string \<Rightarrow> int \<Rightarrow> profile_answer \<Rightarrow> profile_input result"
where
  "fetchGithubActorProfile opts login now answer =
     (case answer of
        Http_Status s \<Rightarrow>
          negativeProfile login (''GitHub users API HTTP '' @ nat_str s) now (oo_negative_ttl_ms opts)
      | Profile_Json j \<Rightarrow>
          profile_of login (nullish (asString (obj_get j ''name'')) (asString (obj_get j ''login'')))
            (asString (obj_get j ''avatar_url'')) (asString (obj_get j ''html_url'')) None now (oo_ttl_ms opts)
      | Request_Failed msg \<Rightarrow>
          negativeProfile login (''GitHub users API: '' @ msg) now (oo_negative_ttl_ms opts))"

section \<open>The queue\<close>

definition runNext :: "observer_options \<Rightarrow> observer \<Rightarrow> observer" where
  "runNext opts ob =
     (if ob_closed ob \<or> oo_max_concurrent opts \<le> ob_active ob then ob
      else
        (case ob_queue ob of
           [] \<Rightarrow> ob
         | k # q \<Rightarrow> ob\<lparr>ob_queue := q, ob_active := ob_active ob + 1, ob_running := ob_running ob @ [k]\<rparr>))"

definition enqueue :: "observer_options \<Rightarrow> string \<Rightarrow> live_event \<Rightarrow> observer \<Rightarrow> observer" where
  "enqueue opts login event ob =
     (let key = to_lower login in
      if ob_closed ob then ob
      else
        (case jm_get (ob_jobs ob) key of
           Some job \<Rightarrow> ob\<lparr>ob_jobs := jm_set key (job\<lparr>pj_waiters := pj_waiters job @ [event]\<rparr>) (ob_jobs ob)\<rparr>
         | None \<Rightarrow>
             if oo_max_queue opts \<le> length (ob_queue ob) then ob
             else runNext opts
               (ob\<lparr>ob_jobs := jm_set key \<lparr>pj_key = key, pj_login = login, pj_waiters = [event]\<rparr> (ob_jobs ob),
                   ob_queue := ob_queue ob @ [key]\<rparr>)))"

text \<open>The store and the observer after an event was observed at the instant \<open>now\<close>.\<close>

definition seed_profile :: "observer_options \<Rightarrow> int \<Rightarrow> live_event \<Rightarrow> live_actor \<Rightarrow> string \<Rightarrow> live_store \<Rightarrow> live_store result" where
  "seed_profile opts now event actor login st =
     rbind (toISOString (Some now)) (\<lambda>fetched. rbind (profileTime now (oo_ttl_ms opts)) (\<lambda>expires.
     Inr (upsertActorProfile
       \<lparr>pi_source_id = li_source_id event, pi_provider = li_provider event, pi_login = login,
        pi_profile = \<lparr>ap_display_name = la_display_name actor, ap_avatar_url = la_avatar_url actor,
                      ap_profile_url = la_profile_url actor, ap_fetched_at = fetched, ap_expires_at = expires,
                      ap_last_error = None\<rparr>\<rparr> st)))"

definition observe :: "observer_options \<Rightarrow> int \<Rightarrow> live_event \<Rightarrow> live_store \<times> observer \<Rightarrow> (live_store \<times> observer) result" where
  "observe opts now event s =
     (let (st, ob) = s in
      if li_provider event \<noteq> ''github'' \<or> li_source_id event \<noteq> ''github:github.com'' then Inr (st, ob)
      else
        (case li_actor event of
           None \<Rightarrow> Inr (st, ob)
         | Some actor \<Rightarrow>
             (case la_login actor of
                None \<Rightarrow> Inr (st, ob)
              | Some login \<Rightarrow>
                  if login = [] then Inr (st, ob)
                  else
                    rbind (if hasSeed (Some actor) then seed_profile opts now event actor login st else Inr st) (\<lambda>st.
                    if hasAvatar (Some actor) then Inr (st, ob)
                    else rbind (toISOString (Some now)) (\<lambda>nowIso.
                    if hasFreshResolvedActorProfile st (li_source_id event) (li_provider event) login nowIso
                    then Inr (st, ob)
                    else Inr (st, enqueue opts login event ob))))))"

text \<open>
  A request settled: the profile is stored, the waiting events it changes are returned for
  broadcast, and the next job starts.
\<close>

definition finish_job :: "observer_options \<Rightarrow> string \<Rightarrow> observer \<Rightarrow> observer" where
  "finish_job opts key ob =
     runNext opts (ob\<lparr>ob_active := ob_active ob - 1, ob_jobs := jm_delete key (ob_jobs ob),
                      ob_running := remove1 key (ob_running ob)\<rparr>)"

definition settle_job ::
  "observer_options \<Rightarrow> int \<Rightarrow> string \<Rightarrow> profile_answer \<Rightarrow> live_store \<times> observer \<Rightarrow>
   (live_store \<times> observer) \<times> live_event list"
where
  "settle_job opts now key answer s =
     (let (st, ob) = s in
      if ob_closed ob then ((st, finish_job opts key ob), [])
      else
        (case jm_get (ob_jobs ob) key of
           None \<Rightarrow> ((st, finish_job opts key ob), [])
         | Some job \<Rightarrow>
             (case fetchGithubActorProfile opts (pj_login job) now answer of
                Inl _ \<Rightarrow> ((st, finish_job opts key ob), [])
              | Inr profile \<Rightarrow>
                  ((upsertActorProfile profile st, finish_job opts key ob),
                   if \<not> truthy (ap_avatar_url (pi_profile profile)) then []
                   else List.map_filter (\<lambda>e. applyProfile e (pi_profile profile)) (pj_waiters job)))))"

definition close_observer :: "observer \<Rightarrow> observer" where
  "close_observer ob = ob\<lparr>ob_closed := True, ob_queue := [], ob_jobs := jm_empty\<rparr>"

section \<open>Lookups are bounded\<close>

text \<open>
  The jobs of the map are those waiting and those running, each login once.  After the observer was
  closed the map is empty, and only the requests still in flight are left.
\<close>

definition observer_ok :: "observer_options \<Rightarrow> observer \<Rightarrow> bool" where
  "observer_ok opts ob \<longleftrightarrow>
     ob_active ob = length (ob_running ob) \<and> ob_active ob \<le> oo_max_concurrent opts \<and>
     length (ob_queue ob) \<le> oo_max_queue opts \<and>
     distinct (ob_running ob @ ob_queue ob) \<and> distinct (jm_keys (ob_jobs ob)) \<and>
     (if ob_closed ob then ob_queue ob = [] \<and> ob_jobs ob = []
      else set (jm_keys (ob_jobs ob)) = set (ob_running ob @ ob_queue ob) \<and>
           (ob_queue ob \<noteq> [] \<longrightarrow> ob_active ob = oo_max_concurrent opts))"

inductive observer_step :: "observer_options \<Rightarrow> live_store \<times> observer \<Rightarrow> live_store \<times> observer \<Rightarrow> bool"
  for opts :: observer_options
where
  observed: "observe opts now event s = Inr s' \<Longrightarrow> observer_step opts s s'"
| settled: "key \<in> set (ob_running (snd s)) \<Longrightarrow> settle_job opts now key answer s = (s', updates) \<Longrightarrow>
    observer_step opts s s'"
| closed: "observer_step opts (st, ob) (st, close_observer ob)"

text \<open>What is left of the invariant when one more job may start.\<close>

definition observer_nearly :: "observer_options \<Rightarrow> observer \<Rightarrow> bool" where
  "observer_nearly opts ob \<longleftrightarrow>
     ob_active ob = length (ob_running ob) \<and> ob_active ob \<le> oo_max_concurrent opts \<and>
     length (ob_queue ob) \<le> Suc (oo_max_queue opts) \<and>
     (oo_max_concurrent opts \<le> ob_active ob \<longrightarrow> length (ob_queue ob) \<le> oo_max_queue opts) \<and>
     distinct (ob_running ob @ ob_queue ob) \<and> distinct (jm_keys (ob_jobs ob)) \<and>
     (if ob_closed ob then ob_queue ob = [] \<and> ob_jobs ob = []
      else set (jm_keys (ob_jobs ob)) = set (ob_running ob @ ob_queue ob) \<and>
           (ob_active ob < oo_max_concurrent opts \<longrightarrow> length (ob_queue ob) \<le> 1 \<or> Suc (ob_active ob) = oo_max_concurrent opts))"

lemma runNext_ok: "observer_nearly opts ob \<Longrightarrow> observer_ok opts (runNext opts ob)"
  by (cases "ob_queue ob")
     (auto simp: observer_nearly_def observer_ok_def runNext_def split: if_splits)

lemma enqueue_ok:
  assumes "observer_ok opts ob"
  shows "observer_ok opts (enqueue opts login event ob)"
proof -
  let ?key = "to_lower login"
  consider "ob_closed ob" | job where "\<not> ob_closed ob" "jm_get (ob_jobs ob) ?key = Some job"
    | "\<not> ob_closed ob" "jm_get (ob_jobs ob) ?key = None" "oo_max_queue opts \<le> length (ob_queue ob)"
    | "\<not> ob_closed ob" "jm_get (ob_jobs ob) ?key = None" "length (ob_queue ob) < oo_max_queue opts"
    by (cases "ob_closed ob"; cases "jm_get (ob_jobs ob) ?key"; cases "oo_max_queue opts \<le> length (ob_queue ob)") auto
  then show ?thesis
  proof cases
    case 2
    then have "?key \<in> set (jm_keys (ob_jobs ob))" by (simp add: jm_get_Some_key)
    with 2 assms show ?thesis by (auto simp: enqueue_def Let_def observer_ok_def jm_keys_set)
  next
    case 4
    then have "?key \<notin> set (ob_running ob @ ob_queue ob)"
      using assms by (simp add: observer_ok_def jm_get_None_iff)
    with 4 assms have "observer_nearly opts (ob\<lparr>ob_jobs := jm_set ?key \<lparr>pj_key = ?key, pj_login = login, pj_waiters = [event]\<rparr> (ob_jobs ob),
        ob_queue := ob_queue ob @ [?key]\<rparr>)"
      by (auto simp: observer_ok_def observer_nearly_def)
    with 4 show ?thesis by (simp add: enqueue_def Let_def runNext_ok)
  qed (use assms in \<open>simp_all add: enqueue_def Let_def\<close>)
qed

lemma jm_delete_empty [simp]: "jm_delete k [] = []"
  by (simp add: jm_delete_def)

lemma finish_job_ok:
  assumes ok: "observer_ok opts ob" and key: "key \<in> set (ob_running ob)"
  shows "observer_ok opts (finish_job opts key ob)"
  unfolding finish_job_def
proof (rule runNext_ok)
  have "length (remove1 key (ob_running ob)) = length (ob_running ob) - 1" using key by (simp add: length_remove1)
  moreover have "set (remove1 key (ob_running ob)) = set (ob_running ob) - {key}"
    using ok by (intro set_remove1_eq) (simp add: observer_ok_def)
  moreover have "key \<notin> set (ob_queue ob)" using ok key by (auto simp: observer_ok_def)
  moreover have "0 < length (ob_running ob)" using key by (cases "ob_running ob") auto
  ultimately show "observer_nearly opts (ob\<lparr>ob_active := ob_active ob - 1, ob_jobs := jm_delete key (ob_jobs ob),
      ob_running := remove1 key (ob_running ob)\<rparr>)"
    using ok
    by (auto simp: observer_ok_def observer_nearly_def jsmap_simps distinct_remove1 split: if_splits)
qed

lemma observe_ok:
  assumes "observer_ok opts (snd s)" and "observe opts now event s = Inr s'"
  shows "observer_ok opts (snd s')"
  using assms unfolding observe_def Let_def case_prod_beta
  by (auto split: option.splits if_splits intro: enqueue_ok)

lemma settle_job_ok:
  assumes "observer_ok opts (snd s)" and "key \<in> set (ob_running (snd s))"
  shows "observer_ok opts (snd (fst (settle_job opts now key answer s)))"
  using finish_job_ok [OF assms] unfolding settle_job_def Let_def case_prod_beta
  by (auto split: option.split sum.split)

lemma observer_step_ok: "observer_step opts s s' \<Longrightarrow> observer_ok opts (snd s) \<Longrightarrow> observer_ok opts (snd s')"
proof (induction rule: observer_step.induct)
  case (settled key s now answer s' updates)
  then show ?case using settle_job_ok [of opts s key now answer] by simp
next
  case (observed now event s s')
  then show ?case using observe_ok by blast
next
  case (closed st ob)
  then show ?case by (auto simp: observer_ok_def close_observer_def jm_keys_def)
qed

text \<open>
  Profile lookups stay bounded: in every run of the observer no more requests are in
  flight than the limit and no more jobs wait than the queue may hold; each login is looked up at most
  once at a time; and while a job waits, every slot is in use.
\<close>

theorem profile_lookups_bounded:
  assumes "(observer_step opts)\<^sup>*\<^sup>* (st, new_observer) (st', ob)"
  shows "length (ob_running ob) \<le> oo_max_concurrent opts \<and> length (ob_queue ob) \<le> oo_max_queue opts
    \<and> distinct (ob_running ob @ ob_queue ob)
    \<and> (ob_queue ob \<noteq> [] \<longrightarrow> length (ob_running ob) = oo_max_concurrent opts)"
proof -
  have "observer_ok opts (snd (st, new_observer))"
    by (simp add: observer_ok_def new_observer_def jm_keys_def)
  with assms have "observer_ok opts (snd (st', ob))"
    by (induction rule: rtranclp_induct) (auto intro: observer_step_ok)
  then show ?thesis by (auto simp: observer_ok_def split: if_splits)
qed

definition sample_actor_event :: live_event where
  "sample_actor_event =
     inputToEvent ((sample_input ''d1'' ''2026-01-01T00:00:00.000Z'')\<lparr>li_actor :=
       Some \<lparr>la_login = Some ''Ada'', la_display_name = None, la_avatar_url = None, la_profile_url = None\<rparr>\<rparr>) 1"

lemma sample_observe:
  "map_sum (\<lambda>_. ()) (\<lambda>(st, ob). (st, ob_running ob)) (observe default_observer_options 0 sample_actor_event (open_live_store, new_observer))
     = Inr (open_live_store, [''ada''])"
  by code_simp

theorem profile_lookups_bounded_witness:
  "\<exists>ob. observer_step default_observer_options (open_live_store, new_observer) (open_live_store, ob) \<and>
     ob_running ob = [''ada''] \<and> length (ob_running ob) \<le> 2 \<and> ob_queue ob = []"
proof -
  obtain ob where ob: "observe default_observer_options 0 sample_actor_event (open_live_store, new_observer) = Inr (open_live_store, ob)"
    "ob_running ob = [''ada'']"
    using sample_observe
    by (cases "observe default_observer_options 0 sample_actor_event (open_live_store, new_observer)") auto
  then have one: "observer_step default_observer_options (open_live_store, new_observer) (open_live_store, ob)"
    by (intro observed)
  then have "length (ob_running ob) \<le> oo_max_concurrent default_observer_options
      \<and> (ob_queue ob \<noteq> [] \<longrightarrow> length (ob_running ob) = oo_max_concurrent default_observer_options)"
    using profile_lookups_bounded by blast
  with one ob(2) show ?thesis
    by (auto simp: default_observer_options_def DEFAULT_MAX_CONCURRENT_def)
qed

end
