(* ===== verification/Live_Receiver.thy ===== *)
theory Live_Receiver
  imports Live_Stream Live_Profiles Live_Github Js_Number
begin

text \<open>
  The request layer of the live receiver (\<open>src/live/receiver.ts\<close>, with the GitLab stub of
  \<open>src/live/gitlab.ts\<close>): webhook intake, the event stream, the snapshot, and the two listeners.

  The state of the receiver is the log, the broadcaster with the responses, and the profile
  observer.  A handler runs to its end once the body of its request was read, so it is one function of
  that state.  What the runtime supplies is an argument: the outcome of reading the body, \<open>JSON.parse\<close>
  of its bytes, the clock, whether SQLite refuses a statement, and whether it uses up a sequence number
  for an ignored insert.
\<close>

section \<open>Configuration\<close>

record receiver_options =
  ro_project_allowlist :: "string list"
  ro_max_connections :: "nat option"
  ro_snapshot_limit :: "nat option"
  ro_max_snapshot_limit :: "nat option"
  ro_replay_limit :: "nat option"
  ro_snapshot_max_bytes :: "nat option"
  ro_replay_max_bytes :: "nat option"

definition DEFAULT_SNAPSHOT_LIMIT :: nat where
  "DEFAULT_SNAPSHOT_LIMIT = 200"

definition DEFAULT_MAX_SNAPSHOT_LIMIT :: nat where
  "DEFAULT_MAX_SNAPSHOT_LIMIT = 1000"

definition REPLAY_LIMIT :: nat where
  "REPLAY_LIMIT = 1000"

definition DEFAULT_SNAPSHOT_MAX_BYTES :: nat where
  "DEFAULT_SNAPSHOT_MAX_BYTES = 8 * 1024 * 1024"

definition DEFAULT_REPLAY_MAX_BYTES :: nat where
  "DEFAULT_REPLAY_MAX_BYTES = 2 * 1024 * 1024"

record receiver_config =
  rc_allowlist :: "string list"
  rc_max_connections :: nat
  rc_snapshot_limit :: nat
  rc_max_snapshot_limit :: nat
  rc_replay_limit :: nat
  rc_snapshot_max_bytes :: nat
  rc_replay_max_bytes :: nat

definition resolve_options :: "receiver_options \<Rightarrow> receiver_config" where
  "resolve_options opts =
     \<lparr>rc_allowlist = js_set_of (filter (\<lambda>p. p \<noteq> []) (ro_project_allowlist opts)),
      rc_max_connections = or_else (ro_max_connections opts) DEFAULT_MAX_CONNECTIONS,
      rc_snapshot_limit = or_else (ro_snapshot_limit opts) DEFAULT_SNAPSHOT_LIMIT,
      rc_max_snapshot_limit = or_else (ro_max_snapshot_limit opts) DEFAULT_MAX_SNAPSHOT_LIMIT,
      rc_replay_limit = or_else (ro_replay_limit opts) REPLAY_LIMIT,
      rc_snapshot_max_bytes = or_else (ro_snapshot_max_bytes opts) DEFAULT_SNAPSHOT_MAX_BYTES,
      rc_replay_max_bytes = or_else (ro_replay_max_bytes opts) DEFAULT_REPLAY_MAX_BYTES\<rparr>"

section \<open>Adapters as routes\<close>

record webhook_route =
  wr_segment :: string
  wr_source_id :: string
  wr_event_header_name :: string
  wr_hook_header_name :: "string option"
  wr_verify :: "nat list \<Rightarrow> headers \<Rightarrow> bool result"
  wr_delivery_id :: "headers \<Rightarrow> string option"
  wr_control :: "headers \<Rightarrow> json \<Rightarrow> bool"
  wr_to_events :: "json \<Rightarrow> adapt_ctx \<Rightarrow> live_input list result"

definition github_route :: "(string \<Rightarrow> nat list \<Rightarrow> string) \<Rightarrow> string list \<Rightarrow> string \<Rightarrow> webhook_route" where
  "github_route hmac secrets sourceId =
     \<lparr>wr_segment = ''github'', wr_source_id = sourceId, wr_event_header_name = ''x-github-event'',
      wr_hook_header_name = Some ''x-github-hook-id'',
      wr_verify = (\<lambda>rawBody hs. Inr (github_verify hmac rawBody hs secrets = Verified)),
      wr_delivery_id = github_deliveryId, wr_control = github_isControlEvent,
      wr_to_events = (\<lambda>parsed ctx. Inr (toLiveEvents parsed ctx))\<rparr>"

definition gitlab_route :: "string \<Rightarrow> webhook_route" where
  "gitlab_route sourceId =
     (let NOT_IMPLEMENTED =
        ''GitLab webhook adapter is a v1 interface stub (not implemented); enabling it is gated on Decision 11 '' @
        ''(company clearance to mirror private GitLab content) and self-managed outbound reachability.'' in
      \<lparr>wr_segment = ''gitlab'', wr_source_id = sourceId, wr_event_header_name = ''x-gitlab-event'',
       wr_hook_header_name = Some ''x-gitlab-webhook-uuid'',
       wr_verify = (\<lambda>_ _. Inl NOT_IMPLEMENTED),
       wr_delivery_id = (\<lambda>hs. headerValue hs ''webhook-id''), wr_control = (\<lambda>_ _. False),
       wr_to_events = (\<lambda>_ _. Inl NOT_IMPLEMENTED)\<rparr>)"

section \<open>The state\<close>

record receiver =
  rv_store :: live_store
  rv_hub :: hub
  rv_observer :: observer

definition createLiveReceiver :: "receiver_config \<Rightarrow> live_store \<Rightarrow> receiver" where
  "createLiveReceiver cfg st = \<lparr>rv_store = st, rv_hub = new_hub (rc_max_connections cfg), rv_observer = new_observer\<rparr>"

section \<open>Webhook intake\<close>

datatype body_read = Body_Too_Large | Body_Timeout | Body_Error | Body_Bytes "nat list"

record intake =
  in_headers :: headers
  in_body :: body_read
  in_parse :: "nat list \<Rightarrow> json option"
  in_now :: int
  in_created_at :: string
  in_hydrate_at :: string
  in_observe_at :: int
  in_burn :: bool
  in_append_fails :: "nat \<Rightarrow> bool"
  in_hydrate_fails :: bool

type_synonym reply = "nat \<times> json option"

definition error_body :: "string \<Rightarrow> json option" where
  "error_body e = Some (JObj [(''error'', JStr e)])"

definition ok_body :: "json option" where
  "ok_body = Some (JObj [(''ok'', JBool True)])"

definition intake_ctx :: "webhook_route \<Rightarrow> intake \<Rightarrow> string \<Rightarrow> adapt_ctx" where
  "intake_ctx route req deliveryId =
     \<lparr>cx_source_id = wr_source_id route, cx_delivery_id = deliveryId, cx_received_at = iso_of_ms (in_now req),
      cx_event_header = or_else (headerValue (in_headers req) (wr_event_header_name route)) [],
      cx_hook_id = Option.bind (wr_hook_header_name route) (headerValue (in_headers req))\<rparr>"

definition in_scope :: "receiver_config \<Rightarrow> live_input \<Rightarrow> bool" where
  "in_scope cfg e \<longleftrightarrow> rc_allowlist cfg = [] \<or>
     (case Option.bind (li_target e) lt_project_path of None \<Rightarrow> False | Some p \<Rightarrow> p \<in> set (rc_allowlist cfg))"

text \<open>The loop of appends; the flag says whether it ran to its end.\<close>

fun append_all ::
  "intake \<Rightarrow> nat \<Rightarrow> live_input list \<Rightarrow> live_store \<Rightarrow> (live_event list \<times> live_store) \<times> bool"
where
  "append_all req i [] st = (([], st), True)"
| "append_all req i (e # es) st =
     (if in_append_fails req i then (([], st), False)
      else
        (let (res, st1) = append_event (in_burn req) e i (in_created_at req) st;
             ((evs, st2), ok) = append_all req (Suc i) es st1 in
         (((case res of None \<Rightarrow> evs | Some ev \<Rightarrow> ev # evs), st2), ok)))"

definition announce ::
  "(chunk \<Rightarrow> nat) \<Rightarrow> observer_options option \<Rightarrow> int \<Rightarrow> live_event \<times> live_event \<Rightarrow> receiver \<Rightarrow> receiver"
where
  "announce grow obs now evs rv =
     (let (ev, broadcastEvent) = evs;
          rv1 = (case obs of
                   None \<Rightarrow> rv
                 | Some opts \<Rightarrow>
                     (case observe opts now ev (rv_store rv, rv_observer rv) of
                        Inl _ \<Rightarrow> rv
                      | Inr (st, ob) \<Rightarrow> rv\<lparr>rv_store := st, rv_observer := ob\<rparr>)) in
      rv1\<lparr>rv_hub := broadcast grow False broadcastEvent (rv_hub rv1)\<rparr>)"

definition store_and_announce ::
  "(chunk \<Rightarrow> nat) \<Rightarrow> observer_options option \<Rightarrow> intake \<Rightarrow> live_input list \<Rightarrow> receiver \<Rightarrow> reply \<times> receiver"
where
  "store_and_announce grow obs req scoped rv =
     (let ((appended, st), ok) = append_all req 0 scoped (rv_store rv); rv1 = rv\<lparr>rv_store := st\<rparr> in
      if \<not> ok then ((500, error_body ''internal_error''), rv1)
      else if in_hydrate_fails req then ((202, ok_body), rv1)
      else
        ((202, ok_body),
         fold (announce grow obs (in_observe_at req))
           (zip appended (hydrateEvents st (in_hydrate_at req) appended)) rv1))"

definition handleWebhook ::
  "(chunk \<Rightarrow> nat) \<Rightarrow> receiver_config \<Rightarrow> observer_options option \<Rightarrow> webhook_route \<Rightarrow> intake \<Rightarrow> receiver \<Rightarrow> reply \<times> receiver"
where
  "handleWebhook grow cfg obs route req rv =
     (case in_body req of
        Body_Too_Large \<Rightarrow> ((413, error_body ''payload_too_large''), rv)
      | Body_Timeout \<Rightarrow> ((408, error_body ''request_timeout''), rv)
      | Body_Error \<Rightarrow> ((400, error_body ''bad_request''), rv)
      | Body_Bytes rawBody \<Rightarrow>
          (case wr_verify route rawBody (in_headers req) of
             Inl _ \<Rightarrow> ((500, error_body ''internal_error''), rv)
           | Inr verified \<Rightarrow>
               if \<not> verified then ((401, error_body ''invalid_signature''), rv)
               else
                 (case in_parse req rawBody of
                    None \<Rightarrow> ((400, error_body ''invalid_json''), rv)
                  | Some parsed \<Rightarrow>
                      if wr_control route (in_headers req) parsed then ((200, ok_body), rv)
                      else
                        (case wr_delivery_id route (in_headers req) of
                           None \<Rightarrow> ((400, error_body ''missing_delivery_id''), rv)
                         | Some deliveryId \<Rightarrow>
                             (case wr_to_events route parsed (intake_ctx route req deliveryId) of
                                Inl _ \<Rightarrow> ((500, error_body ''internal_error''), rv)
                              | Inr events \<Rightarrow>
                                  (let scoped = filter (in_scope cfg) events in
                                   if scoped = [] then ((204, None), rv)
                                   else store_and_announce grow obs req scoped rv))))))"

section \<open>The event stream\<close>

definition open_response :: "hub \<Rightarrow> nat \<times> hub" where
  "open_response h = (length (hb_out h), h\<lparr>hb_out := hb_out h @ [fresh_response]\<rparr>)"

definition sendJson :: "(chunk \<Rightarrow> nat) \<Rightarrow> nat \<Rightarrow> json \<Rightarrow> response \<Rightarrow> response" where
  "sendJson grow status body r = res_end (res_write grow (Json_Body body) (r\<lparr>rp_status := status\<rparr>))"

definition writeSseHead :: "(chunk \<Rightarrow> nat) \<Rightarrow> response \<Rightarrow> response" where
  "writeSseHead grow r = res_write grow Retry_Hint (r\<lparr>rp_status := 200\<rparr>)"

definition sendReset :: "(chunk \<Rightarrow> nat) \<Rightarrow> nat \<Rightarrow> string \<Rightarrow> nat \<Rightarrow> hub \<Rightarrow> hub" where
  "sendReset grow i reason newest h =
     (let h1 = update_res i (writeSseHead grow) h; (sid, h2) = add_sub i newest h1 in
      update_res i (res_write grow (Reset_Frame reason newest)) h2)"

text \<open>\<open>/^\d+$/.test(s)\<close>\<close>

definition all_digits :: "string \<Rightarrow> bool" where
  "all_digits s \<longleftrightarrow> s \<noteq> [] \<and> list_all is_digit s"

text \<open>
  \<open>Number\<close> of the digits, as a natural number: a double holds it exactly up to \<open>2^53\<close>, and what is
  larger is ahead of every sequence number either way.
\<close>

definition sse_cursor :: "string option \<Rightarrow> string option \<Rightarrow> nat" where
  "sse_cursor lastEventId sinceParam =
     (case lastEventId of
        Some s \<Rightarrow> if all_digits s then num_of s
                 else (case sinceParam of Some p \<Rightarrow> if all_digits p then num_of p else 0 | None \<Rightarrow> 0)
      | None \<Rightarrow> (case sinceParam of Some p \<Rightarrow> if all_digits p then num_of p else 0 | None \<Rightarrow> 0))"

text \<open>
  Whether a connection at \<open>cursor\<close> is told to start over: its cursor is ahead of the log, rows right
  after it are gone, or the backlog is larger than a replay may be.
\<close>

definition reset_reason :: "nat \<Rightarrow> nat \<Rightarrow> nat \<Rightarrow> live_event list \<Rightarrow> nat \<Rightarrow> string option" where
  "reset_reason replayLimit cursor newest backlog matched =
     (if newest < cursor then Some ''stale_cursor''
      else if (case backlog of [] \<Rightarrow> False | e # _ \<Rightarrow> cursor + 1 < ev_seq e) then Some ''gap''
      else if replayLimit < matched then Some ''gap''
      else None)"

definition replay_page ::
  "(live_row \<Rightarrow> nat) \<Rightarrow> receiver_config \<Rightarrow> string \<Rightarrow> nat \<Rightarrow> live_store \<Rightarrow> live_event list \<times> nat"
where
  "replay_page bytes cfg nowIso cursor st =
     page bytes st nowIso \<lparr>po_desc = False, po_limit = rc_replay_limit cfg, po_max_bytes = rc_replay_max_bytes cfg,
       po_after = Some cursor, po_before = None\<rparr>"

text \<open>The stream of one connection at \<open>cursor\<close>, on the fresh response \<open>i\<close>.\<close>

definition start_stream ::
  "(chunk \<Rightarrow> nat) \<Rightarrow> (live_row \<Rightarrow> nat) \<Rightarrow> receiver_config \<Rightarrow> string \<Rightarrow> nat \<Rightarrow> live_store \<Rightarrow> nat \<Rightarrow> hub \<Rightarrow> hub"
where
  "start_stream grow bytes cfg nowIso cursor st i h =
     (let newest = maxSeq st; (backlog, matched) = replay_page bytes cfg nowIso cursor st in
      case reset_reason (rc_replay_limit cfg) cursor newest backlog matched of
        Some reason \<Rightarrow> sendReset grow i reason newest h
      | None \<Rightarrow>
          (let h1 = update_res i (writeSseHead grow) h; (sid, h2) = add_sub i cursor h1;
               h3 = fold (send grow False sid) backlog h2 in
           if length backlog < matched then
             (let h4 = remove_sub sid h3 in
              if rp_ended (hb_out h4 ! i) then h4 else update_res i res_end h4)
           else h3))"

definition handleSse ::
  "(chunk \<Rightarrow> nat) \<Rightarrow> (live_row \<Rightarrow> nat) \<Rightarrow> receiver_config \<Rightarrow> string \<Rightarrow> string option \<Rightarrow> string option \<Rightarrow> receiver \<Rightarrow> receiver"
where
  "handleSse grow bytes cfg nowIso lastEventId sinceParam rv =
     (let (i, h) = open_response (rv_hub rv) in
      if \<not> hasCapacity h then
        rv\<lparr>rv_hub := update_res i (sendJson grow 503 (JObj [(''error'', JStr ''too_many_connections'')])) h\<rparr>
      else
        rv\<lparr>rv_hub := start_stream grow bytes cfg nowIso (sse_cursor lastEventId sinceParam) (rv_store rv) i h\<rparr>)"

section \<open>The snapshot\<close>

record snapshot_response =
  sn_events :: "live_event list"
  sn_max_seq :: nat
  sn_truncated :: bool
  sn_next_before :: "nat option"

definition snapshot_limit :: "receiver_config \<Rightarrow> string option \<Rightarrow> nat" where
  "snapshot_limit cfg limitParam =
     (case (case limitParam of None \<Rightarrow> Some 0 | Some s \<Rightarrow> js_number s) of
        None \<Rightarrow> rc_snapshot_limit cfg
      | Some raw \<Rightarrow>
          if 0 < raw then min (nat (js_trunc raw)) (rc_max_snapshot_limit cfg) else rc_snapshot_limit cfg)"

definition digits_param :: "string option \<Rightarrow> nat option" where
  "digits_param p = (case p of None \<Rightarrow> None | Some s \<Rightarrow> if all_digits s then Some (num_of s) else None)"

definition handleSnapshot ::
  "(live_row \<Rightarrow> nat) \<Rightarrow> receiver_config \<Rightarrow> string \<Rightarrow> string option \<Rightarrow> string option \<Rightarrow> string option \<Rightarrow> live_store \<Rightarrow>
   snapshot_response"
where
  "handleSnapshot bytes cfg nowIso limitParam sinceParam beforeParam st =
     (let limit = snapshot_limit cfg limitParam; since' = digits_param sinceParam; before = digits_param beforeParam;
          newest = maxSeq st;
          delta = (case since' of None \<Rightarrow> None | Some s \<Rightarrow> if s < newest then Some s else None);
          (events, matched) =
            (if since' = Some newest then ([], 0)
             else page bytes st nowIso \<lparr>po_desc = True, po_limit = limit, po_max_bytes = rc_snapshot_max_bytes cfg,
                    po_after = delta, po_before = before\<rparr>);
          truncated = (length events < matched) in
      \<lparr>sn_events = events, sn_max_seq = newest, sn_truncated = truncated,
       sn_next_before = (if truncated \<and> events \<noteq> [] then Some (ev_seq (last events)) else None)\<rparr>)"

section \<open>The two listeners\<close>

datatype webhook_action = Webhook_Healthz | Deliver webhook_route | Unknown_Provider | Webhook_Not_Found

definition webhook_prefix :: string where
  "webhook_prefix = ''/webhooks/''"

definition webhook_listener :: "(string, webhook_route) jsmap \<Rightarrow> string \<Rightarrow> string \<Rightarrow> webhook_action" where
  "webhook_listener routes meth path =
     (if meth = ''GET'' \<and> path = ''/healthz'' then Webhook_Healthz
      else if meth = ''POST'' \<and> starts_with webhook_prefix path then
        (case jm_get routes (drop (length webhook_prefix) path) of None \<Rightarrow> Unknown_Provider | Some r \<Rightarrow> Deliver r)
      else Webhook_Not_Found)"

datatype read_action = Read_Healthz | Read_Stream | Read_Snapshot | Read_Status | Read_Not_Found

definition read_listener :: "string \<Rightarrow> string \<Rightarrow> read_action" where
  "read_listener meth path =
     (if meth = ''GET'' \<and> path = ''/healthz'' then Read_Healthz
      else if meth = ''GET'' \<and> path = ''/api/live'' then Read_Stream
      else if meth = ''GET'' \<and> path = ''/api/live-snapshot'' then Read_Snapshot
      else if meth = ''GET'' \<and> path = ''/api/live-status'' then Read_Status
      else Read_Not_Found)"

end
