(* ===== verification/Webhook_Stats.thy ===== *)
theory Webhook_Stats
  imports Live_Receiver
begin

text \<open>
  The counters behind \<open>/api/live-status\<close> (\<open>src/live/webhook-stats.ts\<close>) and the status document of
  \<open>src/live/receiver.ts\<close>: how many deliveries were accepted and rejected in the last hour, kept in
  buckets of a minute so that memory stays bounded.  An instant is a whole number of milliseconds, as
  \<open>Date.now\<close> gives it.
\<close>

section \<open>The counters\<close>

definition WEBHOOK_STATS_WINDOW_SECONDS :: int where
  "WEBHOOK_STATS_WINDOW_SECONDS = 3600"

definition BUCKET_MS :: int where
  "BUCKET_MS = 60000"

record stats_bucket =
  bk_accepted :: nat
  bk_rejected :: nat

record webhook_stats =
  ws_buckets :: "(int, stats_bucket) jsmap"
  ws_last_accepted :: "int option"
  ws_last_rejected :: "int option"
  ws_last_status :: "nat option"

record stats_snapshot =
  ss_last_accepted_at :: "string option"
  ss_last_rejected_at :: "string option"
  ss_last_rejected_status :: "nat option"
  ss_last_rejected_status_class :: "string option"
  ss_accepted_in_window :: nat
  ss_rejected_in_window :: nat

definition new_stats :: webhook_stats where
  "new_stats = \<lparr>ws_buckets = jm_empty, ws_last_accepted = None, ws_last_rejected = None, ws_last_status = None\<rparr>"

definition oldest_bucket :: "int \<Rightarrow> int" where
  "oldest_bucket now = (now - WEBHOOK_STATS_WINDOW_SECONDS * 1000) div BUCKET_MS"

definition prune_buckets :: "int \<Rightarrow> webhook_stats \<Rightarrow> webhook_stats" where
  "prune_buckets now st = st\<lparr>ws_buckets := filter (\<lambda>e. \<not> fst e \<le> oldest_bucket now) (ws_buckets st)\<rparr>"

definition accepted_status :: "nat \<Rightarrow> bool" where
  "accepted_status status \<longleftrightarrow> 200 \<le> status \<and> status < 300"

definition record_webhook :: "nat \<Rightarrow> bool \<Rightarrow> int \<Rightarrow> webhook_stats \<Rightarrow> webhook_stats" where
  "record_webhook status providerDelivery now st =
     (if \<not> accepted_status status \<and> \<not> providerDelivery then st
      else
        (let st1 = prune_buckets now st; key = now div BUCKET_MS;
             bucket = or_else (jm_get (ws_buckets st1) key) \<lparr>bk_accepted = 0, bk_rejected = 0\<rparr> in
         if accepted_status status then
           st1\<lparr>ws_last_accepted := Some now,
               ws_buckets := jm_set key (bucket\<lparr>bk_accepted := Suc (bk_accepted bucket)\<rparr>) (ws_buckets st1)\<rparr>
         else
           st1\<lparr>ws_last_rejected := Some now, ws_last_status := Some status,
               ws_buckets := jm_set key (bucket\<lparr>bk_rejected := Suc (bk_rejected bucket)\<rparr>) (ws_buckets st1)\<rparr>))"

definition status_class :: "nat \<Rightarrow> string" where
  "status_class status = nat_str (status div 100) @ ''xx''"

definition stats_snapshot_of :: "int \<Rightarrow> webhook_stats \<Rightarrow> stats_snapshot \<times> webhook_stats" where
  "stats_snapshot_of now st =
     (let st1 = prune_buckets now st; buckets = jm_values (ws_buckets st1) in
      (\<lparr>ss_last_accepted_at = map_option iso_of_ms (ws_last_accepted st1),
        ss_last_rejected_at = map_option iso_of_ms (ws_last_rejected st1),
        ss_last_rejected_status = ws_last_status st1,
        ss_last_rejected_status_class = map_option status_class (ws_last_status st1),
        ss_accepted_in_window = sum_list (map bk_accepted buckets),
        ss_rejected_in_window = sum_list (map bk_rejected buckets)\<rparr>, st1))"

section \<open>The status document\<close>

text \<open>When the answer to a webhook has been sent.\<close>

definition webhook_finished :: "webhook_route \<Rightarrow> headers \<Rightarrow> nat \<Rightarrow> int \<Rightarrow> webhook_stats \<Rightarrow> webhook_stats" where
  "webhook_finished route hs statusCode now st = record_webhook statusCode (wr_delivery_id route hs \<noteq> None) now st"

record live_status =
  ls_observed_at :: string
  ls_started_at :: string
  ls_window_seconds :: int
  ls_webhooks :: stats_snapshot
  ls_latest_event_received_at :: "string option"
  ls_sources :: "string list"

definition handleStatus :: "int \<Rightarrow> string \<Rightarrow> webhook_route list \<Rightarrow> live_store \<Rightarrow> webhook_stats \<Rightarrow> live_status \<times> webhook_stats" where
  "handleStatus now startedAt routes store st =
     (let (snapshot, st1) = stats_snapshot_of now st in
      (\<lparr>ls_observed_at = iso_of_ms now, ls_started_at = startedAt, ls_window_seconds = WEBHOOK_STATS_WINDOW_SECONDS,
        ls_webhooks = snapshot, ls_latest_event_received_at = latestReceivedAt store,
        ls_sources = js_set_of (map wr_source_id routes)\<rparr>, st1))"

section \<open>The log the counters stand for\<close>

record counted =
  cn_at :: int
  cn_status :: nat

definition counts_for :: "nat \<Rightarrow> bool \<Rightarrow> bool" where
  "counts_for status providerDelivery \<longleftrightarrow> accepted_status status \<or> providerDelivery"

text \<open>What was counted above the bucket \<open>p\<close>.\<close>

definition total_above :: "(stats_bucket \<Rightarrow> nat) \<Rightarrow> int \<Rightarrow> (int, stats_bucket) jsmap \<Rightarrow> nat" where
  "total_above f p m = sum_list (map (f \<circ> snd) (filter (\<lambda>e. p < fst e) m))"

lemma total_above_set:
  assumes "f b = f (or_else (jm_get m key) b0) + n" and "f b0 = 0"
  shows "total_above f p (jm_set key b m) = total_above f p m + (if p < key then n else 0)"
  using assms
proof (induction key b m rule: jm_set.induct)
  case (1 k v)
  then show ?case by (simp add: total_above_def jm_get_def)
next
  case (2 k v k' v' m)
  then show ?case by (auto simp: total_above_def jm_get_def)
qed

lemma total_above_prune:
  "total_above f p (filter (\<lambda>e. \<not> fst e \<le> q) m) = total_above f (max p q) m"
  unfolding total_above_def filter_filter
  by (rule arg_cong [of _ _ "\<lambda>xs. sum_list (map (f \<circ> snd) xs)"]) (rule filter_cong, auto)

text \<open>The requests that were counted, oldest first, and what the counters must say of them at an instant.\<close>

definition counted_in :: "(nat \<Rightarrow> bool) \<Rightarrow> int \<Rightarrow> counted list \<Rightarrow> nat" where
  "counted_in sel p hist = length (filter (\<lambda>e. sel (cn_status e) \<and> p < cn_at e div BUCKET_MS) hist)"

definition latest_of :: "(nat \<Rightarrow> bool) \<Rightarrow> counted list \<Rightarrow> counted option" where
  "latest_of sel hist = find_last (\<lambda>e. sel (cn_status e)) hist"

definition rejected_status :: "nat \<Rightarrow> bool" where
  "rejected_status status \<longleftrightarrow> \<not> accepted_status status"

definition stats_ok :: "int \<Rightarrow> counted list \<Rightarrow> webhook_stats \<Rightarrow> bool" where
  "stats_ok now hist st \<longleftrightarrow>
     distinct (jm_keys (ws_buckets st)) \<and> set (jm_keys (ws_buckets st)) \<subseteq> {oldest_bucket now <.. now div BUCKET_MS} \<and>
     (\<forall>p \<ge> oldest_bucket now.
        total_above bk_accepted p (ws_buckets st) = counted_in accepted_status p hist \<and>
        total_above bk_rejected p (ws_buckets st) = counted_in rejected_status p hist) \<and>
     ws_last_accepted st = map_option cn_at (latest_of accepted_status hist) \<and>
     ws_last_rejected st = map_option cn_at (latest_of rejected_status hist) \<and>
     ws_last_status st = map_option cn_status (latest_of rejected_status hist)"

lemma oldest_bucket_eq: "oldest_bucket now = now div BUCKET_MS - 60"
  by (simp add: oldest_bucket_def WEBHOOK_STATS_WINDOW_SECONDS_def BUCKET_MS_def)

lemma oldest_bucket_mono: "now \<le> now' \<Longrightarrow> oldest_bucket now \<le> oldest_bucket now'"
  unfolding oldest_bucket_eq by (simp add: BUCKET_MS_def zdiv_mono1)

lemma bucket_mono: "now \<le> now' \<Longrightarrow> now div BUCKET_MS \<le> now' div BUCKET_MS"
  by (simp add: BUCKET_MS_def zdiv_mono1)

lemma stats_ok_new: "stats_ok now [] new_stats"
  by (simp add: stats_ok_def new_stats_def total_above_def counted_in_def latest_of_def jm_keys_def)

lemma prune_ok:
  assumes ok: "stats_ok now hist st" and later: "now \<le> now'"
  shows "stats_ok now' hist (prune_buckets now' st)"
proof -
  have "max p (oldest_bucket now') = p" if "oldest_bucket now' \<le> p" for p using that by simp
  moreover have "oldest_bucket now \<le> p" if "oldest_bucket now' \<le> p" for p
    using that oldest_bucket_mono [OF later] by simp
  moreover have "jm_keys (filter (\<lambda>e. \<not> fst e \<le> oldest_bucket now') (ws_buckets st))
      = filter (\<lambda>k. \<not> k \<le> oldest_bucket now') (jm_keys (ws_buckets st))"
    by (simp add: jm_keys_def filter_map comp_def)
  ultimately show ?thesis
    using ok bucket_mono [OF later] by (auto simp: stats_ok_def prune_buckets_def total_above_prune)
qed

lemma latest_of_snoc: "latest_of sel (hist @ [e]) = (if sel (cn_status e) then Some e else latest_of sel hist)"
  by (simp add: latest_of_def find_last_simps)

lemma counted_in_snoc:
  "counted_in sel p (hist @ [e]) = counted_in sel p hist + (if sel (cn_status e) \<and> p < cn_at e div BUCKET_MS then 1 else 0)"
  by (simp add: counted_in_def)

lemma record_ok:
  assumes ok: "stats_ok now hist st" and later: "now \<le> now'" and counts: "counts_for status d"
  shows "stats_ok now' (hist @ [\<lparr>cn_at = now', cn_status = status\<rparr>]) (record_webhook status d now' st)"
proof -
  let ?st = "prune_buckets now' st"
  let ?key = "now' div BUCKET_MS"
  let ?zero = "\<lparr>bk_accepted = 0, bk_rejected = 0\<rparr>"
  let ?b = "or_else (jm_get (ws_buckets ?st) ?key) ?zero"
  have ok': "stats_ok now' hist ?st" by (rule prune_ok [OF ok later])
  have key: "oldest_bucket now' < ?key" by (simp add: oldest_bucket_eq)
  show ?thesis
  proof (cases "accepted_status status")
    case True
    let ?n = "?b\<lparr>bk_accepted := Suc (bk_accepted ?b)\<rparr>"
    have "total_above bk_accepted p (jm_set ?key ?n (ws_buckets ?st)) = total_above bk_accepted p (ws_buckets ?st) + (if p < ?key then 1 else 0)"
      "total_above bk_rejected p (jm_set ?key ?n (ws_buckets ?st)) = total_above bk_rejected p (ws_buckets ?st) + (if p < ?key then 0 else 0)" for p
      using total_above_set [of bk_accepted ?n "ws_buckets ?st" ?key ?zero 1 p] total_above_set [of bk_rejected ?n "ws_buckets ?st" ?key ?zero 0 p]
      by simp_all
    then show ?thesis
      using ok' key True unfolding record_webhook_def
      by (auto simp: Let_def stats_ok_def latest_of_snoc counted_in_snoc rejected_status_def jsmap_simps)
  next
    case False
    let ?n = "?b\<lparr>bk_rejected := Suc (bk_rejected ?b)\<rparr>"
    have "total_above bk_rejected p (jm_set ?key ?n (ws_buckets ?st)) = total_above bk_rejected p (ws_buckets ?st) + (if p < ?key then 1 else 0)"
      "total_above bk_accepted p (jm_set ?key ?n (ws_buckets ?st)) = total_above bk_accepted p (ws_buckets ?st) + (if p < ?key then 0 else 0)" for p
      using total_above_set [of bk_rejected ?n "ws_buckets ?st" ?key ?zero 1 p] total_above_set [of bk_accepted ?n "ws_buckets ?st" ?key ?zero 0 p]
      by simp_all
    then show ?thesis
      using ok' key False counts unfolding record_webhook_def
      by (auto simp: Let_def stats_ok_def latest_of_snoc counted_in_snoc rejected_status_def jsmap_simps counts_for_def)
  qed
qed

section \<open>Every run\<close>

datatype stats_op = Finished_Webhook nat bool int | Asked_Status int

fun op_at :: "stats_op \<Rightarrow> int" where
  "op_at (Finished_Webhook status d now) = now"
| "op_at (Asked_Status now) = now"

fun stats_op_run :: "stats_op \<Rightarrow> webhook_stats \<Rightarrow> webhook_stats" where
  "stats_op_run (Finished_Webhook status d now) st = record_webhook status d now st"
| "stats_op_run (Asked_Status now) st = snd (stats_snapshot_of now st)"

fun counted_of :: "stats_op \<Rightarrow> counted list" where
  "counted_of (Finished_Webhook status d now) = (if counts_for status d then [\<lparr>cn_at = now, cn_status = status\<rparr>] else [])"
| "counted_of (Asked_Status now) = []"

definition stats_history :: "stats_op list \<Rightarrow> counted list" where
  "stats_history ops = concat (map counted_of ops)"

lemma stats_op_ok:
  assumes "stats_ok now hist st" and "now \<le> op_at x"
  shows "\<exists>m \<le> op_at x. stats_ok m (hist @ counted_of x) (stats_op_run x st)"
proof (cases x)
  case (Finished_Webhook status d t)
  show ?thesis
  proof (cases "counts_for status d")
    case True
    then show ?thesis using record_ok [OF assms(1) _ True] assms(2) Finished_Webhook by auto
  next
    case False
    then have "record_webhook status d t st = st" by (auto simp: record_webhook_def counts_for_def)
    then show ?thesis using assms Finished_Webhook False by auto
  qed
next
  case (Asked_Status t)
  then show ?thesis using prune_ok [OF assms(1)] assms(2) by (auto simp: stats_snapshot_of_def Let_def)
qed

lemma stats_run_ok:
  assumes "sorted (map op_at ops)" and "\<forall>x \<in> set ops. op_at x \<le> now"
  shows "\<exists>m \<le> now. stats_ok m (stats_history ops) (fold stats_op_run ops new_stats)"
  using assms
proof (induction ops arbitrary: now rule: rev_induct)
  case Nil
  then show ?case using stats_ok_new by (auto simp: stats_history_def)
next
  case (snoc x ops)
  have "\<exists>m \<le> op_at x. stats_ok m (stats_history ops) (fold stats_op_run ops new_stats)"
    using snoc.prems by (intro snoc.IH) (auto simp: sorted_append)
  then obtain m where "m \<le> op_at x" "stats_ok m (stats_history ops) (fold stats_op_run ops new_stats)" by blast
  from stats_op_ok [OF this(2,1)] obtain m' where "m' \<le> op_at x"
    "stats_ok m' (stats_history ops @ counted_of x) (stats_op_run x (fold stats_op_run ops new_stats))" by blast
  then show ?case using snoc.prems(2) by (auto simp: stats_history_def intro!: exI [of _ m'])
qed

text \<open>
  Claim C34. The counters implement the list of all deliveries: whatever webhooks were answered and
  whenever the status was asked for, as long as the clock did not run backwards, the snapshot counts
  the accepted deliveries, and the rejected ones that carried a delivery id, of the last sixty
  minutes on the clock, names the last of each, and the memory is at most sixty buckets.
\<close>

theorem webhook_stats_exact:
  fixes ops :: "stats_op list" and now :: int
  defines "shown \<equiv> fst (stats_snapshot_of now (fold stats_op_run ops new_stats))"
    and "hist \<equiv> stats_history ops"
  assumes "sorted (map op_at ops)" and "\<forall>x \<in> set ops. op_at x \<le> now"
  shows "ss_accepted_in_window shown = counted_in accepted_status (now div BUCKET_MS - 60) hist
    \<and> ss_rejected_in_window shown = counted_in rejected_status (now div BUCKET_MS - 60) hist
    \<and> ss_last_accepted_at shown = map_option (iso_of_ms \<circ> cn_at) (latest_of accepted_status hist)
    \<and> ss_last_rejected_at shown = map_option (iso_of_ms \<circ> cn_at) (latest_of rejected_status hist)
    \<and> ss_last_rejected_status shown = map_option cn_status (latest_of rejected_status hist)
    \<and> length (ws_buckets (fold stats_op_run ops new_stats)) \<le> 60"
proof -
  let ?st = "fold stats_op_run ops new_stats"
  obtain m where m: "m \<le> now" "stats_ok m hist ?st" using stats_run_ok [OF assms(3,4)] unfolding hist_def by blast
  have ok: "stats_ok now hist (prune_buckets now ?st)" by (rule prune_ok [OF m(2,1)])
  have "total_above f (oldest_bucket now) (ws_buckets (prune_buckets now ?st)) = sum_list (map f (jm_values (ws_buckets (prune_buckets now ?st))))"
    for f
    by (simp add: total_above_def prune_buckets_def jm_values_def comp_def not_le)
  moreover have "length (ws_buckets ?st) \<le> 60"
  proof -
    have "length (ws_buckets ?st) = card (set (jm_keys (ws_buckets ?st)))"
      using m(2) distinct_card [of "jm_keys (ws_buckets ?st)"] by (simp add: stats_ok_def jm_keys_def)
    also have "\<dots> \<le> card {oldest_bucket m <.. m div BUCKET_MS}"
      using m(2) by (intro card_mono) (simp_all add: stats_ok_def)
    also have "\<dots> = 60" by (simp add: oldest_bucket_eq)
    finally show ?thesis .
  qed
  moreover have "total_above bk_accepted (oldest_bucket now) (ws_buckets (prune_buckets now ?st)) = counted_in accepted_status (oldest_bucket now) hist"
    "total_above bk_rejected (oldest_bucket now) (ws_buckets (prune_buckets now ?st)) = counted_in rejected_status (oldest_bucket now) hist"
    using ok by (simp_all add: stats_ok_def)
  ultimately show ?thesis
    using ok unfolding shown_def stats_snapshot_of_def Let_def
    by (simp add: stats_ok_def oldest_bucket_eq [symmetric] option.map_comp)
qed

text \<open>At a quarter past the hour the delivery of an hour and ten seconds ago is out of the window.\<close>

theorem webhook_stats_exact_witness:
  "let ops = [Finished_Webhook 202 True 890000, Finished_Webhook 401 False 900000, Finished_Webhook 401 True 960000,
         Asked_Status 1000000, Finished_Webhook 202 True 4000000];
       shown = fst (stats_snapshot_of 4500000 (fold stats_op_run ops new_stats)) in
   ss_accepted_in_window shown = 1 \<and> ss_rejected_in_window shown = 1 \<and> ss_last_rejected_status shown = Some 401"
proof -
  let ?ops = "[Finished_Webhook 202 True 890000, Finished_Webhook 401 False 900000, Finished_Webhook 401 True 960000,
         Asked_Status 1000000, Finished_Webhook 202 True 4000000]"
  have "counted_in accepted_status (4500000 div BUCKET_MS - 60) (stats_history ?ops) = 1"
    "counted_in rejected_status (4500000 div BUCKET_MS - 60) (stats_history ?ops) = 1"
    "map_option cn_status (latest_of rejected_status (stats_history ?ops)) = Some 401"
    by code_simp+
  then show ?thesis using webhook_stats_exact [of ?ops 4500000] by (simp only: Let_def) simp
qed

end
