(* ===== verification/Sync_Control.thy ===== *)
theory Sync_Control
  imports Sync_Runner Js_Number
begin

text \<open>
  The control daemon (\<open>src/cli/sync-daemon.ts\<close>) with the log buffer it serves (\<open>src/log.ts\<close>): the
  single run slot, the requests of the control surface, and the background cadence.

  A run is an object of the source and a number here, its place in \<open>ct_runs\<close>.  Each callback runs to
  its end: a start, a progress report, the end of a run, a tick, a request whose body was read.  What
  the runs do is \<open>Sync_Runner\<close>; here their results are arguments, as is what the functions of
  \<open>src/config.ts\<close> and the probes that reach a provider return.
\<close>

section \<open>The recent log\<close>

datatype log_level = Log_Info | Log_Warn | Log_Error

record log_entry =
  le_seq :: nat
  le_ts :: string
  le_level :: log_level
  le_message :: string

record log_buffer =
  lb_entries :: "log_entry list"
  lb_next :: nat

definition LOG_BUFFER_CAPACITY :: nat where
  "LOG_BUFFER_CAPACITY = 1000"

definition empty_log :: log_buffer where
  "empty_log = \<lparr>lb_entries = [], lb_next = 1\<rparr>"

definition log_record :: "log_level \<times> string \<times> string \<Rightarrow> log_buffer \<Rightarrow> log_buffer" where
  "log_record line b =
     (let (level, message, stamp) = line;
          entries = lb_entries b @ [\<lparr>le_seq = lb_next b, le_ts = stamp, le_level = level, le_message = message\<rparr>] in
      \<lparr>lb_entries = (if LOG_BUFFER_CAPACITY < length entries then drop (length entries - LOG_BUFFER_CAPACITY) entries else entries),
       lb_next = Suc (lb_next b)\<rparr>)"

definition recentLogs :: "nat \<Rightarrow> log_buffer \<Rightarrow> log_entry list" where
  "recentLogs after b = (if 0 < after then filter (\<lambda>e. after < le_seq e) (lb_entries b) else lb_entries b)"

definition latestLogSeq :: "log_buffer \<Rightarrow> nat" where
  "latestLogSeq b = (if lb_entries b = [] then 0 else le_seq (last (lb_entries b)))"

section \<open>The run slot\<close>

record sync_request =
  sq_mode :: run_mode
  sq_dry_run :: bool
  sq_source_id :: "string option"

datatype run_trigger = Manual | Scheduled

datatype daemon_status = Run_Going | Run_Over leg_status

record run_view =
  rs_run_id :: string
  rs_trigger :: run_trigger
  rs_mode :: run_mode
  rs_dry_run :: bool
  rs_source_scope :: "string option"
  rs_status :: daemon_status
  rs_started_at :: string
  rs_finished_at :: "string option"
  rs_emitted :: bool
  rs_totals :: "run_totals option"
  rs_sources :: "leg_result list"
  rs_active_source_id :: "string option"
  rs_error :: "string option"

record controller =
  ct_runs :: "run_view list"
  ct_active :: "nat option"
  ct_last :: "nat option"
  ct_seq :: nat

record run_progress =
  pg_sources :: "leg_result list"
  pg_active_source_id :: "string option"
  pg_emitted :: "bool option"

definition new_controller :: controller where
  "new_controller = \<lparr>ct_runs = [], ct_active = None, ct_last = None, ct_seq = 0\<rparr>"

text \<open>
  \<open>defaultRunId\<close>: the instant without dashes, colons and fraction, and the number of the run.  The two
  regular expressions are written as what they do to an ISO instant and to any other text.
\<close>

definition drop_fraction :: "string \<Rightarrow> string" where
  "drop_fraction s =
     (if ends_with ''Z'' s then
        (let body = butlast s; digits = takeWhile is_digit (rev body); rest = dropWhile is_digit (rev body) in
         if digits \<noteq> [] \<and> rest \<noteq> [] \<and> hd rest = CHR ''.'' then rev (tl rest) @ ''Z'' else s)
      else s)"

definition defaultRunId :: "nat \<Rightarrow> string \<Rightarrow> string" where
  "defaultRunId n startedAt =
     drop_fraction (filter (\<lambda>c. c \<noteq> CHR ''-'' \<and> c \<noteq> CHR '':'') startedAt) @ ''-'' @ pad 4 n"

definition update_run :: "nat \<Rightarrow> (run_view \<Rightarrow> run_view) \<Rightarrow> controller \<Rightarrow> controller" where
  "update_run i f ct = ct\<lparr>ct_runs := (ct_runs ct)[i := f (ct_runs ct ! i)]\<rparr>"

definition start_run :: "sync_request \<Rightarrow> run_trigger \<Rightarrow> string \<Rightarrow> controller \<Rightarrow> (bool \<times> nat) \<times> controller" where
  "start_run req trigger startedAt ct =
     (case ct_active ct of
        Some i \<Rightarrow> ((False, i), ct)
      | None \<Rightarrow>
          (let n = Suc (ct_seq ct); i = length (ct_runs ct) in
           ((True, i),
            ct\<lparr>ct_seq := n, ct_active := Some i,
               ct_runs := ct_runs ct @
                 [\<lparr>rs_run_id = defaultRunId n startedAt, rs_trigger = trigger, rs_mode = sq_mode req,
                   rs_dry_run = sq_dry_run req, rs_source_scope = sq_source_id req, rs_status = Run_Going,
                   rs_started_at = startedAt, rs_finished_at = None, rs_emitted = False, rs_totals = None,
                   rs_sources = [], rs_active_source_id = None, rs_error = None\<rparr>]\<rparr>)))"

text \<open>A progress report of the run \<open>i\<close>, which may come after the run has ended.\<close>

definition run_reports :: "nat \<Rightarrow> run_progress \<Rightarrow> controller \<Rightarrow> controller" where
  "run_reports i p ct =
     (if ct_active ct \<noteq> Some i then ct
      else update_run i
        (\<lambda>r. r\<lparr>rs_sources := pg_sources p, rs_active_source_id := pg_active_source_id p,
               rs_emitted := or_else (pg_emitted p) (rs_emitted r)\<rparr>) ct)"

text \<open>The end of the run \<open>i\<close>: \<open>Inl\<close> what it threw, or \<open>Inr\<close> its result.\<close>

definition run_ends :: "nat \<Rightarrow> string + run_result \<Rightarrow> string \<Rightarrow> controller \<Rightarrow> controller" where
  "run_ends i outcome finishedAt ct =
     (update_run i
        (\<lambda>r. (case outcome of
                Inr res \<Rightarrow> r\<lparr>rs_status := Run_Over (ru_status res), rs_totals := Some (ru_totals res), rs_sources := ru_sources res,
                             rs_emitted := ru_emitted res, rs_error := ru_error res\<rparr>
              | Inl e \<Rightarrow> r\<lparr>rs_status := Run_Over (Done Run_Error), rs_error := Some e\<rparr>)
             \<lparr>rs_active_source_id := None, rs_finished_at := Some finishedAt\<rparr>) ct)
       \<lparr>ct_last := Some i, ct_active := None\<rparr>"

text \<open>One tick of the schedule: it starts a run or is skipped.\<close>

definition runScheduled :: "bool \<Rightarrow> string \<Rightarrow> controller \<Rightarrow> (bool \<times> nat) \<times> controller" where
  "runScheduled full startedAt ct =
     start_run \<lparr>sq_mode = (if full then Full_Run else Incremental_Run), sq_dry_run = False, sq_source_id = None\<rparr> Scheduled startedAt ct"

section \<open>Requests of the control surface\<close>

record source_option =
  so_source_id :: string
  so_display_name :: "string option"
  so_kind :: string
  so_enabled :: bool

text \<open>\<open>parse\<close> is \<open>JSON.parse\<close>, \<open>None\<close> where it throws.\<close>

definition request_body :: "(string \<Rightarrow> json option) \<Rightarrow> string \<Rightarrow> (string \<times> json) list result" where
  "request_body parse raw =
     (case (if js_trim raw = [] then Some (JObj []) else parse raw) of
        None \<Rightarrow> Inl ''request body is not valid JSON''
      | Some (JObj ms) \<Rightarrow> Inr ms
      | Some _ \<Rightarrow> Inl ''request body must be a JSON object'')"

definition request_mode :: "(string \<times> json) list \<Rightarrow> run_mode result" where
  "request_mode b =
     (case obj_get b ''mode'' of
        None \<Rightarrow> Inr Incremental_Run
      | Some m \<Rightarrow> if m = JStr ''incremental'' then Inr Incremental_Run else if m = JStr ''full'' then Inr Full_Run
                 else Inl ''mode must be \"incremental\" or \"full\"'')"

definition request_dry_run :: "(string \<times> json) list \<Rightarrow> bool result" where
  "request_dry_run b =
     (case obj_get b ''dry_run'' of
        None \<Rightarrow> Inr False
      | Some (JBool d) \<Rightarrow> Inr d
      | Some _ \<Rightarrow> Inl ''dry_run must be a boolean'')"

definition request_source :: "source_option list \<Rightarrow> (string \<times> json) list \<Rightarrow> string option result" where
  "request_source sources b =
     (case obj_get b ''source_id'' of
        None \<Rightarrow> Inr None
      | Some JNull \<Rightarrow> Inr None
      | Some (JStr s) \<Rightarrow> if \<exists>x \<in> set sources. so_source_id x = s then Inr (Some s) else Inl (''unknown source_id: '' @ s)
      | Some _ \<Rightarrow> Inl ''source_id must be a string or null'')"

definition parseSyncRequest :: "(string \<Rightarrow> json option) \<Rightarrow> string \<Rightarrow> source_option list \<Rightarrow> sync_request result" where
  "parseSyncRequest parse raw sources =
     rbind (request_body parse raw) (\<lambda>b.
     rbind (request_mode b) (\<lambda>mode.
     rbind (request_dry_run b) (\<lambda>dryRun.
     rbind (request_source sources b) (\<lambda>sourceId.
       Inr \<lparr>sq_mode = mode, sq_dry_run = dryRun, sq_source_id = sourceId\<rparr>))))"

text \<open>\<open>/^[A-Za-z_][A-Za-z0-9_]*$/\<close>\<close>

definition env_name_char :: "char \<Rightarrow> bool" where
  "env_name_char c \<longleftrightarrow> is_upper c \<or> is_lower c \<or> is_digit c \<or> c = CHR ''_''"

definition env_name_ok :: "string \<Rightarrow> bool" where
  "env_name_ok s = (case s of [] \<Rightarrow> False | c # cs \<Rightarrow> env_name_char c \<and> \<not> is_digit c \<and> list_all env_name_char cs)"

record config_control =
  cc_enabled :: bool
  cc_path :: string
  cc_secrets_path :: "string option"

record control_context =
  cx_control_enabled :: bool
  cx_config_control :: config_control
  cx_logs_enabled :: bool
  cx_sources :: "source_option list"
  cx_interval_seconds :: int
  cx_full_every :: int
  cx_full_interval_seconds :: int

text \<open>
  What the handler asks the rest of the process for: the configuration document with the names of its
  token variables, the problems of a document, the entries of the secrets file, whether a variable of the
  process is set, \<open>JSON.parse\<close>, and the status that a route which reaches a provider answers with.
\<close>

record control_env =
  ce_load :: "(json \<times> string list) result"
  ce_config_errors :: "json \<Rightarrow> string list"
  ce_secrets_overlay :: "(string \<times> string) list"
  ce_env_set :: "string \<Rightarrow> bool"
  ce_parse :: "string \<Rightarrow> json option"
  ce_log :: log_buffer
  ce_now :: string
  ce_probe_status :: nat

record control_request =
  cr_method :: string
  cr_path :: string
  cr_after :: "string option"
  cr_has_header :: bool
  cr_body :: "string result"

datatype control_body =
    Ok_Only
  | Control_Error string string
  | Invalid_Config "string list"
  | Sync_View bool "source_option list" "run_view option" "run_view option" int int int
  | Current_Run "run_view option"
  | Last_Run "run_view option"
  | Active_Conflict run_view
  | Log_View bool "log_entry list" nat nat
  | Config_View bool "json option" "string option"
  | Config_Saved json
  | Secrets_View bool bool "(string, bool) jsmap"
  | Secret_Saved string bool
  | Provider_Probe

text \<open>What a request does beside its answer.\<close>

datatype control_effect =
    No_Effect
  | Save_Config json
  | Save_Secret string "string option"
  | Validate_Secret string string string

definition control_error :: "nat \<Rightarrow> string \<Rightarrow> string \<Rightarrow> nat \<times> control_body" where
  "control_error status errorCode message = (status, Control_Error errorCode message)"

definition missing_header :: "nat \<times> control_body" where
  "missing_header = control_error 403 ''forbidden'' ''missing x-symphony-sync-control header''"

definition run_of :: "controller \<Rightarrow> nat option \<Rightarrow> run_view option" where
  "run_of ct i = map_option (\<lambda>i. ct_runs ct ! i) i"

definition log_after :: "string option \<Rightarrow> nat" where
  "log_after param =
     (case js_number (or_else param ''0'') of
        Some n \<Rightarrow> if 0 < n then nat (js_trunc n) else 0
      | None \<Rightarrow> 0)"

definition object_body :: "(string \<Rightarrow> json option) \<Rightarrow> string \<Rightarrow> (string \<times> json) list result" where
  "object_body parse raw =
     (case parse raw of
        None \<Rightarrow> Inl ''request body is not valid JSON''
      | Some (JObj ms) \<Rightarrow> Inr ms
      | Some _ \<Rightarrow> Inl ''request body must be a JSON object'')"

definition put_config :: "control_context \<Rightarrow> control_env \<Rightarrow> control_request \<Rightarrow> (nat \<times> control_body) \<times> control_effect" where
  "put_config ctx env req =
     (if \<not> cc_enabled (cx_config_control ctx)
      then (control_error 403 ''control_disabled'' ''config control is not enabled on this deployment'', No_Effect)
      else if \<not> cr_has_header req then (missing_header, No_Effect)
      else
        (case cr_body req of
           Inl e \<Rightarrow> (control_error 413 ''payload_too_large'' e, No_Effect)
         | Inr raw \<Rightarrow>
             (case ce_parse env raw of
                None \<Rightarrow> (control_error 400 ''bad_request'' ''request body is not valid JSON'', No_Effect)
              | Some parsed \<Rightarrow>
                  (let errors = ce_config_errors env parsed in
                   if errors \<noteq> [] then ((400, Invalid_Config errors), No_Effect)
                   else ((200, Config_Saved parsed), Save_Config parsed)))))"

definition secrets_listing :: "control_env \<Rightarrow> (string, bool) jsmap" where
  "secrets_listing env =
     (let configured = (case ce_load env of Inl _ \<Rightarrow> [] | Inr (_, names) \<Rightarrow> names);
          m0 = fold (\<lambda>n. jm_set n False) configured jm_empty;
          m1 = fold (\<lambda>(n, v). if v \<noteq> [] then jm_set n True else (\<lambda>m. m)) (ce_secrets_overlay env) m0 in
      fold (\<lambda>n m. if jm_get m n = Some False \<and> ce_env_set env n then jm_set n True m else m) (jm_keys m1) m1)"

definition secret_put_body :: "(string \<times> json) list \<Rightarrow> (string \<times> string option) result" where
  "secret_put_body b =
     (case obj_get b ''env'' of
        Some (JStr e) \<Rightarrow>
          if \<not> env_name_ok e then Inl ''env must be a valid env-var name''
          else
            (case obj_get b ''value'' of
               Some JNull \<Rightarrow> Inr (e, None)
             | Some (JStr v) \<Rightarrow> if js_trim v = [] then Inl ''value must be a non-empty string, or null to remove the entry''
                               else Inr (e, Some (js_trim v))
             | _ \<Rightarrow> Inl ''value must be a non-empty string, or null to remove the entry'')
      | _ \<Rightarrow> Inl ''env must be a valid env-var name'')"

definition put_secret :: "control_context \<Rightarrow> control_env \<Rightarrow> control_request \<Rightarrow> (nat \<times> control_body) \<times> control_effect" where
  "put_secret ctx env req =
     (if \<not> cc_enabled (cx_config_control ctx)
      then (control_error 403 ''control_disabled'' ''config control is not enabled on this deployment'', No_Effect)
      else if \<not> cr_has_header req then (missing_header, No_Effect)
      else if cc_secrets_path (cx_config_control ctx) \<in> {None, Some []}
      then (control_error 403 ''secrets_unavailable''
              ''no writable secrets file on this deployment (set SYMPHONY_SECRETS_FILE)'', No_Effect)
      else
        (case cr_body req of
           Inl e \<Rightarrow> (control_error 413 ''payload_too_large'' e, No_Effect)
         | Inr raw \<Rightarrow>
             (case rbind (object_body (ce_parse env) raw) secret_put_body of
                Inl m \<Rightarrow> (control_error 400 ''bad_request'' m, No_Effect)
              | Inr (e, v) \<Rightarrow> ((200, Secret_Saved e (v \<noteq> None)), Save_Secret e v))))"

definition nonblank :: "json option \<Rightarrow> string option" where
  "nonblank v = (case v of Some (JStr s) \<Rightarrow> if js_trim s = [] then None else Some s | _ \<Rightarrow> None)"

definition validate_body :: "(string \<times> json) list \<Rightarrow> (string \<times> string \<times> string) result" where
  "validate_body b =
     (case nonblank (obj_get b ''source_id'') of
        None \<Rightarrow> Inl ''source_id must be a non-empty string''
      | Some s \<Rightarrow>
          (case obj_get b ''env'' of
             Some (JStr e) \<Rightarrow>
               if \<not> env_name_ok e then Inl ''env must be a valid env-var name''
               else (case nonblank (obj_get b ''value'') of
                       None \<Rightarrow> Inl ''value must be a non-empty string''
                     | Some v \<Rightarrow> Inr (js_trim s, js_trim e, js_trim v))
           | _ \<Rightarrow> Inl ''env must be a valid env-var name''))"

text \<open>The answer to a validation is the validator's; it reaches the provider.\<close>

definition post_validate :: "control_context \<Rightarrow> control_env \<Rightarrow> control_request \<Rightarrow> (nat \<times> control_body) \<times> control_effect" where
  "post_validate ctx env req =
     (if \<not> cc_enabled (cx_config_control ctx)
      then (control_error 403 ''control_disabled'' ''config control is not enabled on this deployment'', No_Effect)
      else if \<not> cr_has_header req then (missing_header, No_Effect)
      else
        (case cr_body req of
           Inl e \<Rightarrow> (control_error 413 ''payload_too_large'' e, No_Effect)
         | Inr raw \<Rightarrow>
             (case rbind (object_body (ce_parse env) raw) validate_body of
                Inl m \<Rightarrow> (control_error 400 ''bad_request'' m, No_Effect)
              | Inr (s, e, v) \<Rightarrow>
                  (case ce_load env of
                     Inl m \<Rightarrow> (control_error 400 ''config_error'' m, No_Effect)
                   | Inr _ \<Rightarrow> ((ce_probe_status env, Provider_Probe), Validate_Secret s e v)))))"

definition post_sync_run :: "control_context \<Rightarrow> control_env \<Rightarrow> control_request \<Rightarrow> controller \<Rightarrow> (nat \<times> control_body) \<times> controller" where
  "post_sync_run ctx env req ct =
     (if \<not> cx_control_enabled ctx
      then (control_error 403 ''control_disabled'' ''manual sync control is not enabled on this deployment'', ct)
      else if \<not> cr_has_header req then (missing_header, ct)
      else
        (case cr_body req of
           Inl e \<Rightarrow> (control_error 413 ''payload_too_large'' e, ct)
         | Inr raw \<Rightarrow>
             (case parseSyncRequest (ce_parse env) raw (cx_sources ctx) of
                Inl m \<Rightarrow> (control_error 400 ''bad_request'' m, ct)
              | Inr r \<Rightarrow>
                  (let ((accepted, i), ct') = start_run r Manual (ce_now env) ct in
                   if accepted then ((202, Current_Run (run_of ct' (Some i))), ct')
                   else ((409, Active_Conflict (ct_runs ct' ! i)), ct')))))"

definition handleControlRequest ::
  "control_context \<Rightarrow> control_env \<Rightarrow> control_request \<Rightarrow> controller \<Rightarrow> (nat \<times> control_body) \<times> control_effect \<times> controller"
where
  "handleControlRequest ctx env req ct =
     (let get = (cr_method req = ''GET''); put = (cr_method req = ''PUT''); post = (cr_method req = ''POST'');
          path = cr_path req; cc = cx_config_control ctx;
          answer = (\<lambda>b. ((200, b), No_Effect, ct)) in
      if get \<and> path = ''/healthz'' then answer Ok_Only
      else if get \<and> path = ''/api/sync-control'' then
        answer (Sync_View (cx_control_enabled ctx) (cx_sources ctx) (run_of ct (ct_active ct)) (run_of ct (ct_last ct))
                  (cx_interval_seconds ctx) (cx_full_every ctx) (cx_full_interval_seconds ctx))
      else if get \<and> path = ''/api/sync-runs/current'' then answer (Current_Run (run_of ct (ct_active ct)))
      else if get \<and> path = ''/api/sync-runs/last'' then answer (Last_Run (run_of ct (ct_last ct)))
      else if get \<and> path = ''/api/logs'' then
        (if \<not> cx_logs_enabled ctx then answer (Log_View False [] 0 0)
         else answer (Log_View True (recentLogs (log_after (cr_after req)) (ce_log env)) (latestLogSeq (ce_log env)) LOG_BUFFER_CAPACITY))
      else if get \<and> (path = ''/api/token-rate-limits'' \<or> path = ''/api/commit-files'') then ((ce_probe_status env, Provider_Probe), No_Effect, ct)
      else if get \<and> path = ''/api/config'' then
        (if \<not> cc_enabled cc then answer (Config_View False None None)
         else (case ce_load env of
                 Inr (cfg, _) \<Rightarrow> answer (Config_View True (Some cfg) None)
               | Inl e \<Rightarrow> answer (Config_View True None (Some e))))
      else if put \<and> path = ''/api/config'' then (let (a, e) = put_config ctx env req in (a, e, ct))
      else if get \<and> path = ''/api/secrets'' then
        (if \<not> cc_enabled cc then answer (Secrets_View False False jm_empty)
         else answer (Secrets_View True (cc_secrets_path cc \<noteq> None) (secrets_listing env)))
      else if put \<and> path = ''/api/secrets'' then (let (a, e) = put_secret ctx env req in (a, e, ct))
      else if post \<and> path = ''/api/secrets/validate'' then (let (a, e) = post_validate ctx env req in (a, e, ct))
      else if path = ''/api/sync-runs'' \<and> post then (let (a, ct') = post_sync_run ctx env req ct in (a, No_Effect, ct'))
      else ((404, Control_Error ''not_found'' []), No_Effect, ct))"

section \<open>The cadence\<close>

text \<open>\<open>x % y\<close> on numbers that are not negative.\<close>

definition js_mod :: "rat \<Rightarrow> rat \<Rightarrow> rat" where
  "js_mod x y = x - y * of_int \<lfloor>x / y\<rfloor>"

definition cadenceDelayMs :: "rat \<Rightarrow> rat \<Rightarrow> rat" where
  "cadenceDelayMs intervalMs elapsedMs =
     (let interval = max 1 (of_int (js_trunc intervalMs)); elapsed = max 0 elapsedMs in
      if elapsed < interval then interval - elapsed
      else (let remainder = js_mod elapsed interval in if remainder = 0 then 0 else interval - remainder))"

record sync_schedule =
  sc_interval_seconds :: rat
  sc_full_every :: rat
  sc_full_interval_seconds :: rat

definition schedule_interval_ms :: "sync_schedule \<Rightarrow> int" where
  "schedule_interval_ms s = max 1000 (js_trunc (sc_interval_seconds s) * 1000)"

definition schedule_full_every :: "sync_schedule \<Rightarrow> int" where
  "schedule_full_every s = max 1 (js_trunc (sc_full_every s))"

text \<open>
  The loop over what it meets: for each iteration the schedule in force, the clock when it starts, and how
  long its tick takes.  \<open>should\<close> is the option \<open>shouldRunFull\<close>.  The loop ends when its signal is aborted.  An
  iteration yields what it calls \<open>runScheduled\<close> with, when it started, and how long the loop then waits.
\<close>

record loop_turn =
  lt_schedule :: sync_schedule
  lt_started :: rat
  lt_elapsed :: rat

definition turn_full :: "(nat \<Rightarrow> sync_schedule \<Rightarrow> bool) option \<Rightarrow> nat \<Rightarrow> sync_schedule \<Rightarrow> bool" where
  "turn_full should i s = (case should of Some f \<Rightarrow> f i s | None \<Rightarrow> int i mod schedule_full_every s = 0)"

fun runLoop :: "(nat \<Rightarrow> sync_schedule \<Rightarrow> bool) option \<Rightarrow> nat \<Rightarrow> loop_turn list \<Rightarrow> (bool \<times> rat \<times> rat) list" where
  "runLoop should i [] = []"
| "runLoop should i (t # ts) =
     (turn_full should i (lt_schedule t), lt_started t,
      cadenceDelayMs (of_int (schedule_interval_ms (lt_schedule t))) (lt_elapsed t)) # runLoop should (Suc i) ts"

section \<open>What the daemon guarantees\<close>

text \<open>The entry a line becomes as the \<open>n\<close>-th of the process.\<close>

definition entry_of :: "nat \<Rightarrow> log_level \<times> string \<times> string \<Rightarrow> log_entry" where
  "entry_of n line = \<lparr>le_seq = n, le_ts = snd (snd line), le_level = fst line, le_message = fst (snd line)\<rparr>"

definition log_entries :: "(log_level \<times> string \<times> string) list \<Rightarrow> log_entry list" where
  "log_entries lines = map (\<lambda>n. entry_of (Suc n) (lines ! n)) [0..<length lines]"

lemma log_entries_snoc: "log_entries (lines @ [l]) = log_entries lines @ [entry_of (Suc (length lines)) l]"
  by (simp add: log_entries_def nth_append)

lemma log_buffer_run:
  "fold log_record lines empty_log
     = \<lparr>lb_entries = drop (length lines - LOG_BUFFER_CAPACITY) (log_entries lines), lb_next = Suc (length lines)\<rparr>"
proof (induction lines rule: rev_induct)
  case Nil
  then show ?case by (simp add: empty_log_def log_entries_def)
next
  case (snoc l lines)
  have len: "length (log_entries lines) = length lines" by (simp add: log_entries_def)
  have shift: "999 < n - (n - 1000) \<Longrightarrow> Suc (n - 1000) = n - 999" for n :: nat by linarith
  have "fold log_record (lines @ [l]) empty_log = log_record l (fold log_record lines empty_log)" by simp
  also have "\<dots> = log_record l \<lparr>lb_entries = drop (length lines - LOG_BUFFER_CAPACITY) (log_entries lines), lb_next = Suc (length lines)\<rparr>"
    by (simp only: snoc.IH)
  also have "\<dots> = \<lparr>lb_entries = drop (length (lines @ [l]) - LOG_BUFFER_CAPACITY) (log_entries (lines @ [l])), lb_next = Suc (length (lines @ [l]))\<rparr>"
    by (cases l) (auto simp: log_record_def Let_def log_entries_snoc len entry_of_def LOG_BUFFER_CAPACITY_def shift)
  finally show ?case .
qed

lemma filter_seq_drop: "filter (\<lambda>e. a < le_seq e) (drop d (log_entries lines)) = drop (max a d) (log_entries lines)"
proof -
  have "filter (\<lambda>e. a < le_seq e) (drop d (log_entries lines))
      = map (\<lambda>n. entry_of (Suc n) (lines ! n)) (filter (\<lambda>n. a < Suc n) [d..<length lines])"
    by (simp add: log_entries_def filter_map drop_map comp_def entry_of_def)
  also have "filter (\<lambda>n. a < Suc n) [d..<m] = [max a d..<m]" for m
    by (induction m) (auto simp: max_def le_Suc_eq)
  finally show ?thesis by (simp add: log_entries_def drop_map)
qed

text \<open>
  The recent log is an exact tail: after any lines the buffer holds the last thousand of
  them, numbered without gaps, and a poller that has seen all up to \<open>after\<close> gets exactly the newer ones
  that are still held; the latest number tells it whether the process was restarted.
\<close>

theorem log_tail_exact:
  fixes lines :: "(log_level \<times> string \<times> string) list" and after :: nat
  defines "b \<equiv> fold log_record lines empty_log"
  shows "length (lb_entries b) \<le> 1000
    \<and> recentLogs after b = map (\<lambda>n. entry_of (Suc n) (lines ! n)) [max after (length lines - 1000)..<length lines]
    \<and> latestLogSeq b = length lines"
proof -
  have len: "length (log_entries lines) = length lines" by (simp add: log_entries_def)
  have b: "b = \<lparr>lb_entries = drop (length lines - 1000) (log_entries lines), lb_next = Suc (length lines)\<rparr>"
    unfolding b_def log_buffer_run by (simp add: LOG_BUFFER_CAPACITY_def)
  have "recentLogs after b = drop (max after (length lines - 1000)) (log_entries lines)"
    unfolding recentLogs_def b using filter_seq_drop [of after "length lines - 1000" lines] by auto
  moreover have "latestLogSeq b = length lines"
  proof (cases "lines = []")
    case False
    then have "last (log_entries lines) = entry_of (length lines) (last lines)"
      using log_entries_snoc [of "butlast lines" "last lines"] by simp
    moreover have "length lines - 1000 < length lines" using False by simp
    ultimately show ?thesis using len by (simp add: latestLogSeq_def b entry_of_def last_drop)
  qed (simp add: latestLogSeq_def b log_entries_def)
  ultimately show ?thesis by (simp add: b len) (simp add: log_entries_def drop_map)
qed

inductive ct_step :: "controller \<Rightarrow> controller \<Rightarrow> bool" where
  start: "ct_step ct (snd (start_run req trigger startedAt ct))"
| reports: "i < length (ct_runs ct) \<Longrightarrow> ct_step ct (run_reports i p ct)"
| ends: "i < length (ct_runs ct) \<Longrightarrow> rs_finished_at (ct_runs ct ! i) = None \<Longrightarrow> ct_step ct (run_ends i outcome finishedAt ct)"

definition ct_ok :: "controller \<Rightarrow> bool" where
  "ct_ok ct \<longleftrightarrow> ct_seq ct = length (ct_runs ct) \<and>
     (\<forall>i. ct_active ct = Some i \<longleftrightarrow> i < length (ct_runs ct) \<and> rs_finished_at (ct_runs ct ! i) = None) \<and>
     (\<forall>i < length (ct_runs ct). rs_status (ct_runs ct ! i) = Run_Going \<longleftrightarrow> rs_finished_at (ct_runs ct ! i) = None)"

lemma ct_ok_new: "ct_ok new_controller"
  by (simp add: ct_ok_def new_controller_def)

lemma ct_ok_active: "ct_ok ct \<Longrightarrow> ct_active ct = Some i \<longleftrightarrow> i < length (ct_runs ct) \<and> rs_finished_at (ct_runs ct ! i) = None"
  by (simp add: ct_ok_def)

lemma start_ok: "ct_ok ct \<Longrightarrow> ct_ok (snd (start_run req trigger startedAt ct))"
proof (cases "ct_active ct")
  case None
  assume ok: "ct_ok ct"
  then have "\<not> (i < length (ct_runs ct) \<and> rs_finished_at (ct_runs ct ! i) = None)" for i
    using ct_ok_active [OF ok, of i] None by auto
  then show ?thesis
    using ok None by (auto simp: ct_ok_def start_run_def Let_def nth_append less_Suc_eq)
qed (simp add: start_run_def)

lemma reports_ok: "ct_ok ct \<Longrightarrow> ct_ok (run_reports i p ct)"
  by (auto simp: ct_ok_def run_reports_def update_run_def nth_list_update)

lemma run_ends_facts:
  assumes "i < length (ct_runs ct)"
  shows "length (ct_runs (run_ends i outcome finishedAt ct)) = length (ct_runs ct)"
    and "j \<noteq> i \<Longrightarrow> ct_runs (run_ends i outcome finishedAt ct) ! j = ct_runs ct ! j"
    and "rs_finished_at (ct_runs (run_ends i outcome finishedAt ct) ! i) = Some finishedAt"
    and "rs_status (ct_runs (run_ends i outcome finishedAt ct) ! i) \<noteq> Run_Going"
    and "ct_active (run_ends i outcome finishedAt ct) = None" and "ct_seq (run_ends i outcome finishedAt ct) = ct_seq ct"
  using assms by (simp_all add: run_ends_def update_run_def split: sum.split)

lemma ends_ok:
  assumes ok: "ct_ok ct" and i: "i < length (ct_runs ct)" "rs_finished_at (ct_runs ct ! i) = None"
  shows "ct_ok (run_ends i outcome finishedAt ct)"
proof -
  let ?ct = "run_ends i outcome finishedAt ct"
  have "ct_active ct = Some i" using ct_ok_active [OF ok, of i] i by simp
  then have only: "rs_finished_at (ct_runs ct ! j) \<noteq> None" if "j < length (ct_runs ct)" "j \<noteq> i" for j
    using ct_ok_active [OF ok, of j] that by simp
  have done_: "rs_finished_at (ct_runs ?ct ! j) \<noteq> None \<and> rs_status (ct_runs ?ct ! j) \<noteq> Run_Going" if "j < length (ct_runs ct)" for j
  proof (cases "j = i")
    case False
    have "rs_status (ct_runs ct ! j) \<noteq> Run_Going" using ok that only [OF that False] by (simp add: ct_ok_def)
    then show ?thesis using only [OF that False] False by (simp add: run_ends_facts(2) [OF i(1) False])
  qed (simp add: run_ends_facts(3,4) [OF i(1)])
  show ?thesis
    unfolding ct_ok_def run_ends_facts(1,5,6) [OF i(1)] using ok done_ by (auto simp: ct_ok_def)
qed

lemma ct_step_ok: "ct_step ct ct' \<Longrightarrow> ct_ok ct \<Longrightarrow> ct_ok ct'"
  by (induction rule: ct_step.induct) (simp_all add: start_ok reports_ok ends_ok)

lemma ct_reachable: "ct_step\<^sup>*\<^sup>* new_controller ct \<Longrightarrow> ct_ok ct"
  by (induction rule: rtranclp_induct) (auto intro: ct_ok_new ct_step_ok)

text \<open>
  Claim C35. There is one run slot: in every reachable state at most one run has not finished, a start is
  accepted exactly when none is going and is then numbered next, and no later event changes a run that
  has finished, late progress reports included.
\<close>

theorem single_run_slot:
  assumes "ct_step\<^sup>*\<^sup>* new_controller ct" and "ct_step ct ct'"
  shows "(\<forall>i j. i < length (ct_runs ct) \<longrightarrow> j < length (ct_runs ct) \<longrightarrow> rs_status (ct_runs ct ! i) = Run_Going \<longrightarrow>
        rs_status (ct_runs ct ! j) = Run_Going \<longrightarrow> i = j)
    \<and> (fst (fst (start_run req trigger startedAt ct)) \<longleftrightarrow> (\<forall>r \<in> set (ct_runs ct). rs_status r \<noteq> Run_Going))
    \<and> (\<forall>i < length (ct_runs ct). rs_status (ct_runs ct ! i) \<noteq> Run_Going \<longrightarrow>
        i < length (ct_runs ct') \<and> ct_runs ct' ! i = ct_runs ct ! i)"
proof (intro conjI)
  have ok: "ct_ok ct" using assms(1) by (rule ct_reachable)
  then have going: "ct_active ct = Some i \<longleftrightarrow> i < length (ct_runs ct) \<and> rs_status (ct_runs ct ! i) = Run_Going" for i
    by (auto simp: ct_ok_def)
  show "\<forall>i j. i < length (ct_runs ct) \<longrightarrow> j < length (ct_runs ct) \<longrightarrow> rs_status (ct_runs ct ! i) = Run_Going \<longrightarrow>
        rs_status (ct_runs ct ! j) = Run_Going \<longrightarrow> i = j"
  proof (intro allI impI)
    fix i j
    assume "i < length (ct_runs ct)" "j < length (ct_runs ct)" "rs_status (ct_runs ct ! i) = Run_Going" "rs_status (ct_runs ct ! j) = Run_Going"
    then have "ct_active ct = Some i" "ct_active ct = Some j" by (simp_all only: going)
    then show "i = j" by simp
  qed
  have "(\<forall>r \<in> set (ct_runs ct). rs_status r \<noteq> Run_Going) \<longleftrightarrow> ct_active ct = None"
  proof (cases "ct_active ct")
    case None
    then have "rs_status (ct_runs ct ! i) \<noteq> Run_Going" if "i < length (ct_runs ct)" for i using going [of i] that by simp
    then show ?thesis using None by (auto simp: in_set_conv_nth)
  next
    case (Some i)
    then have "i < length (ct_runs ct)" "rs_status (ct_runs ct ! i) = Run_Going" using going [of i] by simp_all
    then show ?thesis using Some nth_mem [of i "ct_runs ct"] by auto
  qed
  then show "fst (fst (start_run req trigger startedAt ct)) \<longleftrightarrow> (\<forall>r \<in> set (ct_runs ct). rs_status r \<noteq> Run_Going)"
    by (simp add: start_run_def Let_def split: option.split)
  show "\<forall>i < length (ct_runs ct). rs_status (ct_runs ct ! i) \<noteq> Run_Going \<longrightarrow>
        i < length (ct_runs ct') \<and> ct_runs ct' ! i = ct_runs ct ! i"
    using assms(2)
  proof cases
    case (start req trigger startedAt)
    then show ?thesis by (simp add: start_run_def Let_def nth_append split: option.split)
  next
    case (reports i p)
    then show ?thesis using going [of i] by (auto simp: run_reports_def update_run_def nth_list_update)
  next
    case (ends i outcome finishedAt)
    then show ?thesis using ok by (auto simp: run_ends_def update_run_def nth_list_update ct_ok_def)
  qed
qed

text \<open>What an answer may do, and that each route keeps to it.\<close>

definition guarded ::
  "control_context \<Rightarrow> control_env \<Rightarrow> control_request \<Rightarrow> controller \<Rightarrow> (nat \<times> control_body) \<times> control_effect \<times> controller \<Rightarrow> bool"
where
  "guarded ctx env req ct out \<longleftrightarrow>
     (snd (snd out) \<noteq> ct \<longrightarrow> cx_control_enabled ctx \<and> cr_has_header req \<and> cr_method req = ''POST'' \<and> ct_active ct = None
        \<and> fst (fst out) = 202) \<and>
     (fst (snd out) \<noteq> No_Effect \<longrightarrow> cc_enabled (cx_config_control ctx) \<and> cr_has_header req \<and> cr_method req \<in> {''PUT'', ''POST''}
        \<and> snd (snd out) = ct) \<and>
     (\<forall>doc. fst (snd out) = Save_Config doc \<longrightarrow> ce_config_errors env doc = []) \<and>
     (\<forall>name v. fst (snd out) = Save_Secret name v \<longrightarrow> env_name_ok name \<and> v \<noteq> Some [])"

lemma guarded_if:
  "(c \<Longrightarrow> guarded ctx env req ct a) \<Longrightarrow> (\<not> c \<Longrightarrow> guarded ctx env req ct b) \<Longrightarrow> guarded ctx env req ct (if c then a else b)"
  by simp

lemma guarded_quiet: "guarded ctx env req ct (a, No_Effect, ct)"
  by (simp add: guarded_def)

lemma guarded_config:
  "cr_method req = ''PUT'' \<and> X \<Longrightarrow> guarded ctx env req ct (case put_config ctx env req of (a, e) \<Rightarrow> (a, e, ct))"
  by (auto simp: guarded_def put_config_def Let_def split: sum.split option.split)

lemma secret_put_body_Inr: "secret_put_body b = Inr (e, v) \<Longrightarrow> env_name_ok e \<and> v \<noteq> Some []"
  by (auto simp: secret_put_body_def split: option.splits json.splits if_splits)

lemma guarded_secret:
  assumes "cr_method req = ''PUT'' \<and> X"
  shows "guarded ctx env req ct (case put_secret ctx env req of (a, e) \<Rightarrow> (a, e, ct))"
proof -
  have "snd (put_secret ctx env req) = No_Effect \<or> cc_enabled (cx_config_control ctx) \<and> cr_has_header req
      \<and> (\<exists>e v. snd (put_secret ctx env req) = Save_Secret e v \<and> env_name_ok e \<and> v \<noteq> Some [])"
  proof (cases "cr_body req")
    case (Inr raw)
    show ?thesis
    proof (cases "rbind (object_body (ce_parse env) raw) secret_put_body")
      case (Inr ev)
      then have "env_name_ok (fst ev) \<and> snd ev \<noteq> Some []"
        using secret_put_body_Inr by (cases ev) (auto simp: rbind_eq_Inr)
      then show ?thesis using Inr \<open>cr_body req = Inr raw\<close> by (cases ev) (simp add: put_secret_def del: rbind_eq_Inr)
    qed (use Inr in \<open>simp add: put_secret_def del: rbind_eq_Inl\<close>)
  qed (simp add: put_secret_def)
  then show ?thesis using assms by (cases "put_secret ctx env req") (auto simp: guarded_def)
qed

lemma guarded_validate:
  "cr_method req = ''POST'' \<and> X \<Longrightarrow> guarded ctx env req ct (case post_validate ctx env req of (a, e) \<Rightarrow> (a, e, ct))"
  by (auto simp: guarded_def post_validate_def split: sum.split option.split)

lemma guarded_run:
  "X \<and> cr_method req = ''POST'' \<Longrightarrow>
   guarded ctx env req ct (case post_sync_run ctx env req ct of (a, ct') \<Rightarrow> (a, No_Effect, ct'))"
  by (auto simp: guarded_def post_sync_run_def start_run_def Let_def split: sum.split option.split)

lemma handleControlRequest_guarded: "guarded ctx env req ct (handleControlRequest ctx env req ct)"
  unfolding handleControlRequest_def Let_def
  by (cases "ce_load env")
     ((simp only: sum.case case_prod_beta, (rule guarded_quiet guarded_if guarded_run [unfolded case_prod_beta]
        guarded_config [unfolded case_prod_beta] guarded_secret [unfolded case_prod_beta]
        guarded_validate [unfolded case_prod_beta] | assumption)+)+)

text \<open>
  Claim C36. Nothing is changed through the control surface by a request a browser could be tricked into
  sending: what starts a run, writes the configuration or a secret, or tries a secret carried the
  control header on a deployment that enabled it; a document with problems is never written, and the
  name of a secret that is written is the name of a variable.
\<close>

theorem control_mutations_guarded:
  assumes "handleControlRequest ctx env req ct = (answer, effect, ct')"
  shows "(ct' \<noteq> ct \<longrightarrow> cx_control_enabled ctx \<and> cr_has_header req \<and> cr_method req = ''POST'' \<and> ct_active ct = None \<and> fst answer = 202)
    \<and> (effect \<noteq> No_Effect \<longrightarrow> cc_enabled (cx_config_control ctx) \<and> cr_has_header req \<and> cr_method req \<in> {''PUT'', ''POST''} \<and> ct' = ct)
    \<and> (\<forall>doc. effect = Save_Config doc \<longrightarrow> ce_config_errors env doc = [])
    \<and> (\<forall>name v. effect = Save_Secret name v \<longrightarrow> env_name_ok name \<and> v \<noteq> Some [])"
  using handleControlRequest_guarded [of ctx env req ct] unfolding assms guarded_def by simp

lemma cadenceDelay_grid:
  fixes intervalMs elapsed :: rat
  defines "interval \<equiv> max 1 (of_int (js_trunc intervalMs))"
  assumes "0 \<le> elapsed"
  shows "\<exists>k \<ge> 1. elapsed + cadenceDelayMs intervalMs elapsed = of_nat k * interval
    \<and> 0 \<le> cadenceDelayMs intervalMs elapsed \<and> cadenceDelayMs intervalMs elapsed \<le> interval
    \<and> (cadenceDelayMs intervalMs elapsed = interval \<longrightarrow> elapsed = 0)"
proof -
  have pos: "0 < interval" unfolding interval_def by simp
  let ?d = "cadenceDelayMs intervalMs elapsed"
  let ?q = "\<lfloor>elapsed / interval\<rfloor>"
  have q: "of_int ?q * interval \<le> elapsed" "elapsed < (of_int ?q + 1) * interval" "0 \<le> ?q"
    using pos assms(2) by (simp_all add: floor_divide_lower floor_divide_upper)
  have "\<exists>k \<ge> 1. elapsed + ?d = of_nat k * interval \<and> 0 \<le> ?d \<and> ?d \<le> interval \<and> (?d = interval \<longrightarrow> elapsed = 0)"
  proof (cases "elapsed < interval")
    case True
    then have "?d = interval - elapsed" using assms(2) by (simp add: cadenceDelayMs_def Let_def interval_def [symmetric])
    then show ?thesis using True assms(2) by (intro exI [of _ 1]) simp
  next
    case False
    then have "1 \<le> ?q" using pos by (simp add: le_floor_iff le_divide_eq)
    then have one: "1 \<le> nat ?q" using nat_mono [of 1 ?q] by (simp only: nat_1 One_nat_def)
    have rem: "js_mod elapsed interval = elapsed - interval * of_int ?q" by (simp add: js_mod_def)
    have d: "?d = (if js_mod elapsed interval = 0 then 0 else interval - js_mod elapsed interval)"
      using False assms(2) by (simp add: cadenceDelayMs_def Let_def interval_def [symmetric])
    have nat_q: "(of_nat (nat ?q) :: rat) = of_int ?q" using q(3) by simp
    show ?thesis
    proof (cases "js_mod elapsed interval = 0")
      case True
      then have "elapsed = of_int ?q * interval" using rem by (simp add: mult.commute)
      then show ?thesis
        using True d pos one nat_q by (intro exI [of _ "nat ?q"] conjI) simp_all
    next
      case False
      then have dq: "?d = (of_int ?q + 1) * interval - elapsed" using d rem by (simp add: algebra_simps)
      then have "?d \<noteq> interval" using False rem by (auto simp: algebra_simps)
      then show ?thesis
        using dq q nat_q \<open>1 \<le> ?q\<close> by (intro exI [of _ "Suc (nat ?q)"]) (simp add: algebra_simps)
    qed
  qed
  then show ?thesis .
qed


text \<open>A wait of less than an interval, or of one after no time, ends at the first multiple there is.\<close>

lemma first_multiple:
  fixes interval elapsed wait :: rat
  assumes "elapsed + wait = of_nat k * interval" and "wait \<le> interval" and "wait = interval \<longrightarrow> elapsed = 0"
    and "0 < interval" and "1 \<le> j" and "elapsed \<le> of_nat j * interval"
  shows "k \<le> j"
proof (rule ccontr)
  assume "\<not> k \<le> j"
  then have "of_nat (Suc j) * interval \<le> of_nat k * interval"
    using assms(4) by (intro mult_right_mono) (simp_all add: Suc_le_eq flip: of_nat_Suc)
  then have "of_nat j * interval + interval \<le> elapsed + wait" using assms(1) by (simp add: algebra_simps)
  then have "wait = interval" "elapsed = of_nat j * interval" using assms(2,6) by linarith+
  then show False using assms(3-5) by simp
qed

lemma runLoop_nth:
  "i < length turns \<Longrightarrow> runLoop should n turns ! i =
     (turn_full should (n + i) (lt_schedule (turns ! i)), lt_started (turns ! i),
      cadenceDelayMs (of_int (schedule_interval_ms (lt_schedule (turns ! i)))) (lt_elapsed (turns ! i)))"
  by (induction turns arbitrary: n i) (auto simp: nth_Cons split: nat.split)

text \<open>
  Claim C37. The cadence keeps to its grid: after a tick of any length the loop waits, not longer than one
  interval of the schedule in force (of at least a second), until the first multiple of the interval since
  the tick started, so ticks that were missed are skipped and none is caught up.  A sweep is full when the
  option \<open>shouldRunFull\<close> says so of its number and schedule; without that option, exactly every
  \<open>fullEvery\<close>-th time.
\<close>

theorem cadence_on_grid:
  fixes turns :: "loop_turn list" and i :: nat
  defines "t \<equiv> turns ! i"
  defines "interval \<equiv> of_int (max 1000 (js_trunc (sc_interval_seconds (lt_schedule t)) * 1000)) :: rat"
  assumes "i < length turns" and "0 \<le> lt_elapsed t"
  shows "\<exists>full wait k. runLoop should n turns ! i = (full, lt_started t, wait)
    \<and> 1 \<le> k \<and> lt_elapsed t + wait = of_nat k * interval \<and> 0 \<le> wait \<and> wait \<le> interval
    \<and> (\<forall>j \<ge> 1. lt_elapsed t \<le> of_nat j * interval \<longrightarrow> k \<le> j)
    \<and> (full \<longleftrightarrow> (case should of
          Some decide \<Rightarrow> decide (n + i) (lt_schedule t)
        | None \<Rightarrow> int (n + i) mod max 1 (js_trunc (sc_full_every (lt_schedule t))) = 0))"
proof -
  let ?ms = "schedule_interval_ms (lt_schedule t)"
  have "js_trunc (of_int ?ms :: rat) = ?ms" by (simp add: js_trunc_def)
  then have interval: "max 1 (of_int (js_trunc (of_int ?ms :: rat))) = interval"
    by (simp add: interval_def schedule_interval_ms_def max_def)
  obtain k where k: "1 \<le> k" "lt_elapsed t + cadenceDelayMs (of_int ?ms) (lt_elapsed t) = of_nat k * interval"
    "0 \<le> cadenceDelayMs (of_int ?ms) (lt_elapsed t)" "cadenceDelayMs (of_int ?ms) (lt_elapsed t) \<le> interval"
    "cadenceDelayMs (of_int ?ms) (lt_elapsed t) = interval \<longrightarrow> lt_elapsed t = 0"
    using cadenceDelay_grid [OF assms(4), of "of_int ?ms"] unfolding interval by blast
  have "0 < interval" by (simp add: interval_def max_def)
  then have "\<forall>j \<ge> 1. lt_elapsed t \<le> of_nat j * interval \<longrightarrow> k \<le> j"
    using first_multiple [OF k(2,4,5)] by blast
  then show ?thesis
    using k runLoop_nth [OF assms(3), of should n] unfolding turn_full_def schedule_full_every_def t_def [symmetric] by blast
qed

section \<open>Instances\<close>

definition sample_control :: control_context where
  "sample_control = \<lparr>cx_control_enabled = True, cx_config_control = \<lparr>cc_enabled = True, cc_path = ''c'', cc_secrets_path = None\<rparr>,
     cx_logs_enabled = False, cx_sources = [], cx_interval_seconds = 120, cx_full_every = 30, cx_full_interval_seconds = 3600\<rparr>"

definition sample_control_env :: control_env where
  "sample_control_env = \<lparr>ce_load = Inl ''missing'', ce_config_errors = (\<lambda>_. []), ce_secrets_overlay = [], ce_env_set = (\<lambda>_. False),
     ce_parse = (\<lambda>_. Some (JObj [])), ce_log = empty_log, ce_now = ''2026-01-02T03:04:05.678Z'', ce_probe_status = 200\<rparr>"

definition sample_control_request :: "string \<Rightarrow> string \<Rightarrow> control_request" where
  "sample_control_request m path = \<lparr>cr_method = m, cr_path = path, cr_after = None, cr_has_header = True, cr_body = Inr ''{}''\<rparr>"

lemma sample_run_id: "defaultRunId 1 ''2026-01-02T03:04:05.678Z'' = ''20260102T030405Z-0001''"
  by code_simp

definition sample_started :: "(nat \<times> control_body) \<times> control_effect \<times> controller" where
  "sample_started = handleControlRequest sample_control sample_control_env (sample_control_request ''POST'' ''/api/sync-runs'') new_controller"

lemma sample_started_values:
  "length (ct_runs (snd (snd sample_started))) = 1" "map rs_status (ct_runs (snd (snd sample_started))) = [Run_Going]"
  "snd (snd sample_started) = snd (start_run \<lparr>sq_mode = Incremental_Run, sq_dry_run = False, sq_source_id = None\<rparr> Manual
     ''2026-01-02T03:04:05.678Z'' new_controller)"
  by code_simp+

definition sample_saved :: "(nat \<times> control_body) \<times> control_effect \<times> controller" where
  "sample_saved = handleControlRequest sample_control sample_control_env (sample_control_request ''PUT'' ''/api/config'') new_controller"

theorem control_mutations_guarded_witness:
  "fst (fst sample_started) = 202 \<and> fst (snd sample_saved) = Save_Config (JObj []) \<and> snd (snd sample_saved) = new_controller"
proof -
  have "snd (snd sample_started) \<noteq> new_controller"
    using sample_started_values(1) by (auto simp: new_controller_def)
  moreover have "handleControlRequest sample_control sample_control_env (sample_control_request ''POST'' ''/api/sync-runs'') new_controller
      = (fst sample_started, fst (snd sample_started), snd (snd sample_started))" by (simp add: sample_started_def)
  from control_mutations_guarded [OF this] have "snd (snd sample_started) \<noteq> new_controller \<longrightarrow> fst (fst sample_started) = 202"
    by blast
  moreover have saved: "fst (snd sample_saved) = Save_Config (JObj [])" by code_simp
  moreover have "handleControlRequest sample_control sample_control_env (sample_control_request ''PUT'' ''/api/config'') new_controller
      = (fst sample_saved, fst (snd sample_saved), snd (snd sample_saved))" by (simp add: sample_saved_def)
  from control_mutations_guarded [OF this] saved have "snd (snd sample_saved) = new_controller" by simp
  ultimately show ?thesis by blast
qed

theorem single_run_slot_witness:
  "\<not> fst (fst (start_run \<lparr>sq_mode = Full_Run, sq_dry_run = False, sq_source_id = None\<rparr> Scheduled ''t'' (snd (snd sample_started))))"
proof -
  have "ct_step new_controller (snd (snd sample_started))"
    unfolding sample_started_values(3) by (rule ct_step.start)
  then have "ct_step\<^sup>*\<^sup>* new_controller (snd (snd sample_started))" by (rule r_into_rtranclp)
  moreover have "ct_step (snd (snd sample_started)) (run_reports 0 p (snd (snd sample_started)))" for p
    by (rule ct_step.reports) (simp add: sample_started_values(1))
  moreover have "\<exists>r \<in> set (ct_runs (snd (snd sample_started))). rs_status r = Run_Going"
  proof -
    have "Run_Going \<in> set (map rs_status (ct_runs (snd (snd sample_started))))" by (simp add: sample_started_values(2))
    then show ?thesis by force
  qed
  ultimately show ?thesis using single_run_slot by blast
qed

definition sample_turn :: loop_turn where
  "sample_turn = \<lparr>lt_schedule = \<lparr>sc_interval_seconds = 1, sc_full_every = 3, sc_full_interval_seconds = 3\<rparr>,
     lt_started = 0, lt_elapsed = 2500\<rparr>"

theorem cadence_on_grid_witness:
  "\<exists>k \<ge> 1. 2500 + snd (snd (runLoop None 6 [sample_turn] ! 0)) = of_nat k * 1000 \<and> k \<le> 3
     \<and> fst (runLoop None 6 [sample_turn] ! 0)"
proof -
  have "js_trunc (1 :: rat) = 1" "js_trunc (3 :: rat) = 3" by (simp_all add: js_trunc_def)
  then obtain full wait k where "runLoop None 6 [sample_turn] ! 0 = (full, 0, wait)" "1 \<le> k" "2500 + wait = of_nat k * 1000"
    "\<forall>j \<ge> 1. 2500 \<le> of_nat j * (1000 :: rat) \<longrightarrow> k \<le> j" full
    using cadence_on_grid [of 0 "[sample_turn]" None 6] by (auto simp: sample_turn_def)
  then show ?thesis by (intro exI [of _ k]) auto
qed

end
