(* ===== verification/Concurrency.thy ===== *)
theory Concurrency
  imports Prelude Js_Number
begin

text \<open>
  The bounded concurrent map of \<open>src/lib/concurrency.ts\<close>: a fixed number of workers take the next
  index until none is left.  \<open>f x i\<close> is what the task of the \<open>i\<close>-th item \<open>x\<close> settles with, \<open>Inl\<close> when
  it throws; when each task settles is left open, so the order of the steps is arbitrary.
\<close>

section \<open>The map\<close>

datatype 'e worker = Busy nat | Done_Worker | Failed_Worker 'e

record ('e, 'r) pool =
  pl_next :: nat
  pl_results :: "'r option list"
  pl_workers :: "'e worker list"
  pl_failure :: "'e option"

text \<open>One turn of the loop of a worker: it takes an index or ends.\<close>

definition take_index :: "nat \<Rightarrow> nat \<Rightarrow> nat \<times> 'e worker" where
  "take_index n next_index = (Suc next_index, if n \<le> next_index then Done_Worker else Busy next_index)"

definition worker_count :: "rat option \<Rightarrow> nat \<Rightarrow> nat" where
  "worker_count limit n = (let requested = (case limit of None \<Rightarrow> 1 | Some l \<Rightarrow> \<lfloor>l\<rfloor>) in nat (max 1 (min requested (int n))))"

fun start_workers :: "nat \<Rightarrow> nat \<Rightarrow> nat \<Rightarrow> nat \<times> 'e worker list" where
  "start_workers n 0 next_index = (next_index, [])"
| "start_workers n (Suc k) next_index =
     (let (next1, w) = take_index n next_index; (next2, ws) = start_workers n k next1 in (next2, w # ws))"

definition start_map :: "'a list \<Rightarrow> rat option \<Rightarrow> ('e, 'r) pool" where
  "start_map items limit =
     (let n = length items; (next_index, ws) = (if items = [] then (0, []) else start_workers n (worker_count limit n) 0) in
      \<lparr>pl_next = next_index, pl_results = replicate n None, pl_workers = ws, pl_failure = None\<rparr>)"

text \<open>The task of the worker \<open>w\<close> settles.  The first failure is what the whole map rejects with.\<close>

definition task_settles :: "('a \<Rightarrow> nat \<Rightarrow> 'e + 'r) \<Rightarrow> 'a list \<Rightarrow> nat \<Rightarrow> ('e, 'r) pool \<Rightarrow> ('e, 'r) pool" where
  "task_settles f items w p =
     (case pl_workers p ! w of
        Busy i \<Rightarrow>
          (case f (items ! i) i of
             Inl e \<Rightarrow> p\<lparr>pl_workers := (pl_workers p)[w := Failed_Worker e],
                        pl_failure := (case pl_failure p of None \<Rightarrow> Some e | Some e0 \<Rightarrow> Some e0)\<rparr>
           | Inr r \<Rightarrow>
               (let (next1, wk) = take_index (length items) (pl_next p) in
                p\<lparr>pl_results := (pl_results p)[i := Some r], pl_next := next1, pl_workers := (pl_workers p)[w := wk]\<rparr>))
      | _ \<Rightarrow> p)"

text \<open>What the promise of the map has settled with, if it has.\<close>

definition map_outcome :: "('e, 'r) pool \<Rightarrow> ('e + 'r option list) option" where
  "map_outcome p =
     (case pl_failure p of
        Some e \<Rightarrow> Some (Inl e)
      | None \<Rightarrow> if \<forall>w \<in> set (pl_workers p). w = Done_Worker then Some (Inr (pl_results p)) else None)"

definition DEFAULT_RESOLVE_CONCURRENCY :: int where
  "DEFAULT_RESOLVE_CONCURRENCY = 4"

text \<open>\<open>raw\<close> is the variable \<open>SYNC_RESOLVE_CONCURRENCY\<close>.\<close>

definition resolveConcurrency :: "string option \<Rightarrow> rat" where
  "resolveConcurrency raw =
     (case Option.bind raw js_number of
        Some q \<Rightarrow> if is_integer q \<and> 1 \<le> q then q else of_int DEFAULT_RESOLVE_CONCURRENCY
      | None \<Rightarrow> of_int DEFAULT_RESOLVE_CONCURRENCY)"

section \<open>Correctness\<close>

inductive map_step :: "('a \<Rightarrow> nat \<Rightarrow> 'e + 'r) \<Rightarrow> 'a list \<Rightarrow> ('e, 'r) pool \<Rightarrow> ('e, 'r) pool \<Rightarrow> bool" for f items where
  "w < length (pl_workers p) \<Longrightarrow> pl_workers p ! w = Busy i \<Longrightarrow> map_step f items p (task_settles f items w p)"

text \<open>The indices that are being worked on, in the order of the workers.\<close>

fun busy_index :: "'e worker \<Rightarrow> nat option" where
  "busy_index (Busy i) = Some i"
| "busy_index _ = None"

definition in_flight_of :: "('e, 'r) pool \<Rightarrow> nat list" where
  "in_flight_of p = List.map_filter busy_index (pl_workers p)"

text \<open>The invariant of a map that has \<open>m\<close> workers.\<close>

definition map_inv :: "('a \<Rightarrow> nat \<Rightarrow> 'e + 'r) \<Rightarrow> 'a list \<Rightarrow> nat \<Rightarrow> ('e, 'r) pool \<Rightarrow> bool" where
  "map_inv f items m p \<longleftrightarrow>
     length (pl_results p) = length items \<and> length (pl_workers p) = m
     \<and> (\<forall>w i. w < m \<longrightarrow> pl_workers p ! w = Busy i \<longrightarrow> i < length items \<and> i < pl_next p \<and> pl_results p ! i = None)
     \<and> (\<forall>w v i. w < m \<longrightarrow> v < m \<longrightarrow> pl_workers p ! w = Busy i \<longrightarrow> pl_workers p ! v = Busy i \<longrightarrow> w = v)
     \<and> (\<forall>i r. i < length items \<longrightarrow> pl_results p ! i = Some r \<longrightarrow> i < pl_next p \<and> f (items ! i) i = Inr r)
     \<and> (\<forall>e. pl_failure p = Some e \<longrightarrow> (\<exists>i<length items. f (items ! i) i = Inl e))
     \<and> (pl_failure p = None \<longrightarrow>
          (\<forall>w<m. \<forall>e. pl_workers p ! w \<noteq> Failed_Worker e)
          \<and> (\<forall>i<length items. i < pl_next p \<longrightarrow> pl_results p ! i = None \<longrightarrow> (\<exists>w<m. pl_workers p ! w = Busy i)))
     \<and> (\<forall>w<m. pl_workers p ! w = Done_Worker \<longrightarrow> length items \<le> pl_next p)"

lemma settles_inv:
  fixes f :: "'a \<Rightarrow> nat \<Rightarrow> 'e + 'r"
  assumes "map_inv f items m p" "w < m" "pl_workers p ! w = Busy i"
  shows "map_inv f items m (task_settles f items w p)"
proof (cases "f (items ! i) i")
  case (Inl e)
  then show ?thesis
    using assms unfolding map_inv_def task_settles_def
    by (auto simp: nth_list_update split: option.splits if_splits)
next
  case (Inr r)
  let ?n = "length items" and ?k = "pl_next p"
  have p': "task_settles f items w p
      = p\<lparr>pl_results := (pl_results p)[i := Some r], pl_next := Suc ?k,
          pl_workers := (pl_workers p)[w := (if ?n \<le> ?k then Done_Worker else Busy ?k)]\<rparr>"
    using assms Inr by (simp add: task_settles_def take_index_def)
  have busy: "v < m \<Longrightarrow> pl_workers p ! v = Busy j \<Longrightarrow> j < ?n \<and> j < ?k \<and> pl_results p ! j = None"
    and once: "v < m \<Longrightarrow> u < m \<Longrightarrow> pl_workers p ! v = Busy j \<Longrightarrow> pl_workers p ! u = Busy j \<Longrightarrow> v = u"
    and stored: "j < ?n \<Longrightarrow> pl_results p ! j = Some s \<Longrightarrow> j < ?k \<and> f (items ! j) j = Inr s"
    for v u j s
    using assms(1) unfolding map_inv_def by blast+
  have lens: "length (pl_results p) = ?n" "length (pl_workers p) = m"
    using assms(1) unfolding map_inv_def by blast+
  have i: "i < ?n" "i < ?k" using busy [OF assms(2,3)] by auto
  define wk where "wk = (if ?n \<le> ?k then Done_Worker else Busy ?k :: 'e worker)"
  have at_w: "(pl_workers p)[w := wk] ! v = (if v = w then wk else pl_workers p ! v)" for v
    using assms(2) lens by (simp add: nth_list_update)
  have at_i: "(pl_results p)[i := Some r] ! j = (if j = i then Some r else pl_results p ! j)" for j
    using i lens by (simp add: nth_list_update)
  have "?n \<le> ?k \<or> pl_results p ! ?k = None" using stored by (metis less_irrefl not_le not_None_eq)
  then have free: "?k < ?n \<Longrightarrow> pl_results p ! ?k = None" by linarith
  have taken: "wk = Busy j \<Longrightarrow> ?k < ?n \<and> j = ?k" for j
    by (auto simp: wk_def split: if_splits)
  have b: "j < ?n \<and> j < Suc ?k \<and> (pl_results p)[i := Some r] ! j = None"
    if "v < m" "(pl_workers p)[w := wk] ! v = Busy j" for v j
  proof (cases "v = w")
    case True
    then show ?thesis using taken [of j] that(2) free i(2) unfolding at_w at_i by simp
  next
    case False
    then have v: "pl_workers p ! v = Busy j" using that(2) unfolding at_w by simp
    then have "j \<noteq> i" using once [OF that(1) assms(2) v] assms(3) False by blast
    then show ?thesis using busy [OF that(1) v] unfolding at_i by simp
  qed
  have apart: "v = u"
    if "v < m" "u < m" "(pl_workers p)[w := wk] ! v = Busy j" "(pl_workers p)[w := wk] ! u = Busy j" for v u j
  proof (rule ccontr)
    assume ne: "v \<noteq> u"
    have "pl_workers p ! v = Busy j \<or> pl_workers p ! u = Busy j"
      using that(3,4) ne unfolding at_w by presburger
    then have "j < ?k" using busy that(1,2) by blast
    then have "wk \<noteq> Busy j" using taken by blast
    then show False using that once ne unfolding at_w by presburger
  qed
  have s: "j < ?n \<Longrightarrow> (pl_results p)[i := Some r] ! j = Some q \<Longrightarrow> j < Suc ?k \<and> f (items ! j) j = Inr q" for j q
    unfolding at_i using stored [of j q] Inr i by (cases "j = i") auto
  have wk: "wk \<noteq> Failed_Worker e" "wk = Done_Worker \<Longrightarrow> ?n \<le> Suc ?k" for e
    by (auto simp: wk_def split: if_splits)
  have unmet: "\<exists>v<m. pl_workers p ! v = Busy j"
    if "pl_failure p = None" "j < ?n" "j < ?k" "pl_results p ! j = None" for j
    using assms(1) that unfolding map_inv_def by blast
  have covered: "\<exists>v<m. (pl_workers p)[w := wk] ! v = Busy j"
    if "pl_failure p = None" "j < ?n" "j < Suc ?k" "(pl_results p)[i := Some r] ! j = None" for j
  proof (cases "j = ?k")
    case True
    then show ?thesis using that(2) assms(2) at_w by (auto simp: wk_def)
  next
    case False
    have ne: "j \<noteq> i" and "pl_results p ! j = None" using that(4) unfolding at_i by (auto split: if_splits)
    moreover have "j < ?k" "pl_failure p = None" "j < ?n" using that(1-3) False by simp_all
    ultimately obtain v where v: "v < m" "pl_workers p ! v = Busy j" using unmet by blast
    then have "v \<noteq> w" using assms(3) ne by auto
    then show ?thesis using v unfolding at_w by auto
  qed
  have sound: "pl_failure p = Some e \<Longrightarrow> \<exists>j<?n. f (items ! j) j = Inl e"
    and alive0: "pl_failure p = None \<Longrightarrow> v < m \<Longrightarrow> pl_workers p ! v \<noteq> Failed_Worker e"
    and ended0: "v < m \<Longrightarrow> pl_workers p ! v = Done_Worker \<Longrightarrow> ?n \<le> ?k" for e v
    using assms(1) unfolding map_inv_def by blast+
  have alive: "pl_failure p = None \<Longrightarrow> v < m \<Longrightarrow> (pl_workers p)[w := wk] ! v \<noteq> Failed_Worker e"
    and ended: "v < m \<Longrightarrow> (pl_workers p)[w := wk] ! v = Done_Worker \<Longrightarrow> ?n \<le> Suc ?k" for e v
    using alive0 [of v e] ended0 [of v] wk unfolding at_w by (auto split: if_splits)
  show ?thesis
    unfolding map_inv_def p' wk_def [symmetric]
    using b apart s covered sound alive ended lens by simp
qed

lemma start_workers_eq:
  "start_workers n k c = (c + k, map (\<lambda>j. if n \<le> c + j then Done_Worker else Busy (c + j)) [0..<k])"
proof (induction k arbitrary: c)
  case (Suc k)
  show ?case
    by (simp only: start_workers.simps Suc take_index_def Let_def prod.case upt_conv_Cons [OF zero_less_Suc]
        list.map add_0_right add_Suc add_Suc_right map_Suc_upt [symmetric] map_map comp_def)
qed simp

lemma worker_count_le: "items \<noteq> [] \<Longrightarrow> worker_count limit (length items) \<le> length items"
  by (cases items) (auto simp: worker_count_def Let_def split: option.splits)

text \<open>What the started map holds.\<close>

lemma start_map_eq:
  "start_map items limit =
     (let n = length items; m = (if items = [] then 0 else worker_count limit n) in
      \<lparr>pl_next = m, pl_results = replicate n None, pl_workers = map Busy [0..<m], pl_failure = None\<rparr>)"
  using worker_count_le [of items limit] by (auto simp: start_map_def start_workers_eq Let_def)

definition started :: "'a list \<Rightarrow> rat option \<Rightarrow> nat" where
  "started items limit = (if items = [] then 0 else worker_count limit (length items))"

lemma start_inv: "map_inv f items (started items limit) (start_map items limit)"
  using worker_count_le [of items limit]
  by (auto simp: map_inv_def start_map_eq Let_def started_def)

lemma step_inv: "map_step f items p q \<Longrightarrow> map_inv f items m p \<Longrightarrow> map_inv f items m q"
proof (induction rule: map_step.induct)
  case (1 w p i)
  then have "w < m" by (simp add: map_inv_def)
  then show ?case by (rule settles_inv [OF 1(3) _ 1(2)])
qed

subsection \<open>How many steps are left\<close>

definition is_busy :: "'e worker \<Rightarrow> bool" where
  "is_busy w \<longleftrightarrow> busy_index w \<noteq> None"

definition work_left :: "'a list \<Rightarrow> ('e, 'r) pool \<Rightarrow> nat" where
  "work_left items p = (length items - pl_next p) + length (filter is_busy (pl_workers p))"

lemma settles_work_left:
  assumes "map_inv f items m p" "w < m" "pl_workers p ! w = Busy i"
  shows "work_left items p = Suc (work_left items (task_settles f items w p))"
proof -
  let ?ws = "pl_workers p"
  have len: "w < length ?ws" using assms(1,2) by (simp add: map_inv_def)
  then have "?ws ! w \<in> set (filter is_busy ?ws)" using assms(3) nth_mem [OF len] by (simp add: is_busy_def)
  then have "0 < length (filter is_busy ?ws)" by (metis length_pos_if_in_set)
  moreover have "is_busy (?ws ! w)" using assms(3) by (simp add: is_busy_def)
  ultimately have idle: "\<not> is_busy x \<Longrightarrow> length (filter is_busy ?ws) = Suc (length (filter is_busy (?ws[w := x])))"
    and again: "is_busy x \<Longrightarrow> length (filter is_busy (?ws[w := x])) = length (filter is_busy ?ws)" for x
    using count_update [OF len, of is_busy x] by simp_all
  show ?thesis
  proof (cases "f (items ! i) i")
    case (Inl e)
    then show ?thesis
      using assms(3) idle [of "Failed_Worker e"] by (simp add: work_left_def task_settles_def is_busy_def)
  next
    case (Inr r)
    then show ?thesis
      using assms(3) idle [of Done_Worker] again [of "Busy (pl_next p)"]
      by (auto simp: work_left_def task_settles_def take_index_def is_busy_def)
  qed
qed

lemma steps_left:
  assumes "(map_step f items ^^ k) p q" "map_inv f items m p"
  shows "map_inv f items m q \<and> work_left items p = k + work_left items q"
  using assms(1)
proof (induction k arbitrary: q)
  case (Suc k)
  then obtain r where r: "(map_step f items ^^ k) p r" "map_step f items r q" by auto
  then have inv: "map_inv f items m r" "work_left items p = k + work_left items r" using Suc.IH by auto
  from r(2) obtain w i where w: "w < length (pl_workers r)" "pl_workers r ! w = Busy i" "q = task_settles f items w r"
    by (auto elim: map_step.cases)
  then have "w < m" using inv(1) by (simp add: map_inv_def)
  then show ?case using settles_work_left [OF inv(1) _ w(2)] settles_inv [OF inv(1) _ w(2)] inv(2) w(3) by simp
qed (use assms(2) in simp)

lemma start_work_left: "work_left items (start_map items limit) = length items"
  using worker_count_le [of items limit]
  by (auto simp: work_left_def start_map_eq Let_def is_busy_def filter_map comp_def)

subsection \<open>The map is right\<close>

lemma map_filter_Cons_eq: "List.map_filter g (x # xs) = (case g x of None \<Rightarrow> [] | Some y \<Rightarrow> [y]) @ List.map_filter g xs"
  by (simp add: List.map_filter_def split: option.splits)

lemma in_flight_distinct:
  assumes "\<And>w v i. w < length ws \<Longrightarrow> v < length ws \<Longrightarrow> ws ! w = Busy i \<Longrightarrow> ws ! v = Busy i \<Longrightarrow> w = v"
  shows "distinct (List.map_filter busy_index ws)"
proof -
  have "inj_on (\<lambda>w. the (busy_index (ws ! w))) {w. w < length ws \<and> busy_index (ws ! w) \<noteq> None}"
  proof (rule inj_onI)
    fix w v
    assume "w \<in> {w. w < length ws \<and> busy_index (ws ! w) \<noteq> None}" "v \<in> {w. w < length ws \<and> busy_index (ws ! w) \<noteq> None}"
      "the (busy_index (ws ! w)) = the (busy_index (ws ! v))"
    then show "w = v" using assms [of w v] by (cases "ws ! w"; cases "ws ! v") auto
  qed
  moreover have "List.map_filter busy_index ws
      = map (\<lambda>w. the (busy_index (ws ! w))) (filter (\<lambda>w. busy_index (ws ! w) \<noteq> None) [0..<length ws])"
    by (subst (1) map_nth [of ws, symmetric]) (simp add: List.map_filter_def filter_map comp_def)
  ultimately show ?thesis by (simp add: distinct_map)
qed

lemma in_flight_length: "length (List.map_filter busy_index ws) = length (filter is_busy ws)"
  by (simp add: List.map_filter_def is_busy_def [abs_def])

subsection \<open>Correctness of the map\<close>

lemma concurrent_map_facts:
  fixes f :: "'a \<Rightarrow> nat \<Rightarrow> 'e + 'r"
  assumes "(map_step f items ^^ k) (start_map items limit) p"
  shows "k \<le> length items"
    and "distinct (in_flight_of p) \<and> length (in_flight_of p) \<le> worker_count limit (length items)
         \<and> set (in_flight_of p) \<subseteq> {..<length items}"
    and "map_outcome p = Some (Inr res) \<Longrightarrow>
         length res = length items \<and> (\<forall>i<length items. \<exists>r. f (items ! i) i = Inr r \<and> res ! i = Some r)"
    and "map_outcome p = Some (Inl e) \<Longrightarrow> \<exists>i<length items. f (items ! i) i = Inl e"
    and "map_outcome p = None \<Longrightarrow> \<exists>q. map_step f items p q"
proof -
  let ?m = "started items limit" and ?n = "length items"
  have inv: "map_inv f items ?m p" and left: "?n = k + work_left items p"
    using steps_left [OF assms start_inv] by (simp_all add: start_work_left)
  have len: "length (pl_workers p) = ?m" "length (pl_results p) = ?n" using inv by (simp_all add: map_inv_def)
  show "k \<le> ?n" using left by simp
  have "distinct (in_flight_of p)"
    unfolding in_flight_of_def by (rule in_flight_distinct) (use inv len in \<open>auto simp: map_inv_def\<close>)
  moreover have "length (in_flight_of p) \<le> worker_count limit ?n"
    using length_filter_le [of is_busy "pl_workers p"] len
    by (auto simp: in_flight_of_def in_flight_length started_def split: if_splits)
  moreover have "set (in_flight_of p) \<subseteq> {..<?n}"
    using inv len by (auto simp: in_flight_of_def map_inv_def List.map_filter_def in_set_conv_nth elim!: busy_index.elims)
  ultimately show "distinct (in_flight_of p) \<and> length (in_flight_of p) \<le> worker_count limit ?n
      \<and> set (in_flight_of p) \<subseteq> {..<?n}" by blast
  show "\<exists>i<?n. f (items ! i) i = Inl e" if "map_outcome p = Some (Inl e)"
    using inv that by (auto simp: map_outcome_def map_inv_def split: option.splits if_splits)
  show "length res = ?n \<and> (\<forall>i<?n. \<exists>r. f (items ! i) i = Inr r \<and> res ! i = Some r)"
    if "map_outcome p = Some (Inr res)"
  proof -
    from that have ok: "pl_failure p = None" "res = pl_results p" "\<forall>w \<in> set (pl_workers p). w = Done_Worker"
      by (auto simp: map_outcome_def split: option.splits if_splits)
    have idle: "w < ?m \<Longrightarrow> pl_workers p ! w = Done_Worker" for w using ok(3) len(1) by auto
    have "\<exists>r. pl_results p ! i = Some r" if "i < ?n" for i
    proof -
      have "0 < ?m" using that by (auto simp: started_def worker_count_def Let_def split: option.splits)
      then have "?n \<le> pl_next p" using inv idle by (auto simp: map_inv_def)
      then have "i < pl_next p" using that by simp
      moreover have "\<not> (\<exists>w<?m. pl_workers p ! w = Busy i)" using idle by auto
      ultimately show ?thesis using inv ok(1) that unfolding map_inv_def by (meson not_None_eq)
    qed
    then show ?thesis using inv ok(2) len(2) unfolding map_inv_def by metis
  qed
  show "\<exists>q. map_step f items p q" if "map_outcome p = None"
  proof -
    from that have none: "pl_failure p = None" "\<exists>w \<in> set (pl_workers p). w \<noteq> Done_Worker"
      by (auto simp: map_outcome_def split: option.splits if_splits)
    then obtain w where w: "w < ?m" "pl_workers p ! w \<noteq> Done_Worker" using len(1) by (metis in_set_conv_nth)
    then obtain i where "pl_workers p ! w = Busy i"
      using inv none(1) unfolding map_inv_def by (metis worker.exhaust)
    then show ?thesis using map_step.intros [of w p i f items] w(1) len(1) by auto
  qed
qed

text \<open>Claim C38. A concurrent map over \<open>n\<close> items, whatever order its tasks settle in: it takes at most \<open>n\<close>
  steps; never more than its clamped limit of tasks are under way, and never two on one item; when it
  resolves, the results stand in the order of the items and each is what the task of its own item gave; it
  rejects only with the error of one of the tasks; and it never stops with neither.\<close>

theorem concurrent_map_correct:
  fixes f :: "'a \<Rightarrow> nat \<Rightarrow> 'e + 'r"
  assumes "(map_step f items ^^ k) (start_map items limit) p"
  shows "k \<le> length items
    \<and> distinct (in_flight_of p) \<and> length (in_flight_of p) \<le> worker_count limit (length items)
    \<and> set (in_flight_of p) \<subseteq> {..<length items}
    \<and> (\<forall>res. map_outcome p = Some (Inr res) \<longrightarrow>
         length res = length items \<and> (\<forall>i<length items. \<exists>r. f (items ! i) i = Inr r \<and> res ! i = Some r))
    \<and> (\<forall>e. map_outcome p = Some (Inl e) \<longrightarrow> (\<exists>i<length items. f (items ! i) i = Inl e))
    \<and> (map_outcome p = None \<longrightarrow> (\<exists>q. map_step f items p q))"
  by (intro conjI allI impI concurrent_map_facts(1) [OF assms] concurrent_map_facts(2) [OF assms, THEN conjunct1]
      concurrent_map_facts(2) [OF assms, THEN conjunct2, THEN conjunct1]
      concurrent_map_facts(2) [OF assms, THEN conjunct2, THEN conjunct2]
      concurrent_map_facts(3) [OF assms, THEN conjunct1] concurrent_map_facts(4) [OF assms] concurrent_map_facts(5) [OF assms])
    (use concurrent_map_facts(3) [OF assms] in blast)+

definition sample_task :: "nat \<Rightarrow> nat \<Rightarrow> string + nat" where
  "sample_task x i = (if x = 0 then Inl ''zero'' else Inr (x + i))"

definition sample_pool :: "(string, nat) pool" where
  "sample_pool = \<lparr>pl_next = 5, pl_results = [Some 10, Some 21, Some 32], pl_workers = [Done_Worker, Done_Worker], pl_failure = None\<rparr>"

lemma sample_map_steps: "(map_step sample_task [10, 20, 30] ^^ 3) (start_map [10, 20, 30 :: nat] (Some 2)) sample_pool"
proof -
  let ?f = sample_task and ?xs = "[10, 20, 30 :: nat]"
  let ?p0 = "start_map ?xs (Some 2) :: (string, nat) pool"
  have "map_step ?f ?xs ?p0 (task_settles ?f ?xs 1 ?p0)" (is "map_step _ _ _ ?p1")
    by (rule map_step.intros [where i = 1]) code_simp+
  moreover have "map_step ?f ?xs ?p1 (task_settles ?f ?xs 1 ?p1)" (is "map_step _ _ _ ?p2")
    by (rule map_step.intros [where i = 2]) code_simp+
  moreover have "map_step ?f ?xs ?p2 (task_settles ?f ?xs 0 ?p2)"
    by (rule map_step.intros [where i = 0]) code_simp+
  moreover have "task_settles ?f ?xs 0 ?p2 = sample_pool" by code_simp
  ultimately show ?thesis by (auto simp: numeral_3_eq_3)
qed

theorem concurrent_map_correct_witness:
  "length [Some (10 :: nat), Some 21, Some 32] = length [10, 20, 30 :: nat]
   \<and> sample_task 10 0 = Inr 10 \<and> sample_task 20 1 = Inr 21 \<and> sample_task 30 2 = Inr 32"
proof -
  have "map_outcome sample_pool = Some (Inr [Some 10, Some 21, Some 32])" by (simp add: map_outcome_def sample_pool_def)
  with concurrent_map_correct [OF sample_map_steps]
  have "\<forall>i<3. \<exists>r. sample_task ([10, 20, 30] ! i) i = Inr r \<and> [Some 10, Some 21, Some 32] ! i = Some r" by simp
  from this [rule_format, of 0] this [rule_format, of 1] this [rule_format, of 2] show ?thesis by simp
qed

end
