(* ===== verification/Github_Fetch.thy ===== *)
theory Github_Fetch
  imports Activity Tracker_Edges Sync_Engine Provider_Client
begin

text \<open>
  The sweep of the GitHub source (\<open>src/sources/github.ts\<close>): the pages of issues and pull requests, the
  review threads and tracker references that complete a node, the incremental discovery of pull requests,
  and what the sweep reports of itself.

  The clients are functions: what \<open>gql project request\<close> and \<open>rest project request\<close> answer, or the error
  they throw, once all retries are over (\<open>Provider_Client\<close>), so within a sweep a request has one answer.
  A query is a constructor with its variables.  A node is the JSON object of the answer; where GitHub's
  schema gives a member a type, a value of another type reads as absent.  \<open>hash\<close> is the SHA-256 of the text
  of a value.  The log is left out.
\<close>

section \<open>Requests and readers\<close>

record ref_target =
  tg_key :: string
  tg_owner :: string
  tg_name :: string
  tg_number :: nat

datatype gh_kind = Gh_Issue | Gh_Pull

datatype gh_query =
    Items_Page gh_kind string "string option" "string option" nat
  | Pulls_Probe string string "string option"
  | Pull_By_Number string string int
  | Threads_Page string string int string
  | Tracker_Refs "ref_target list"
  | Commit_Facts string string "(string \<times> bool) list"

type_synonym gql_client = "gh_query \<Rightarrow> request_error + json"

definition PAGE_SIZE :: nat where "PAGE_SIZE = 50"
definition MAX_PAGES :: nat where "MAX_PAGES = 40"
definition MAX_ITEMS :: nat where "MAX_ITEMS = 4000"
definition MAX_REVIEW_THREAD_PAGES :: nat where "MAX_REVIEW_THREAD_PAGES = 40"
definition TRACKER_REF_MAX :: nat where "TRACKER_REF_MAX = 200"
definition TRACKER_REF_BATCH :: nat where "TRACKER_REF_BATCH = 50"
definition GRAPHQL_INT_MAX :: nat where "GRAPHQL_INT_MAX = 2147483647"

definition API_VERSION :: string where "API_VERSION = ''github.graphql.v4''"

fun error_message :: "request_error \<Rightarrow> string" where
  "error_message (Http_Error h) = he_message h"
| "error_message (Gql_Errors h _ _) = he_message h"
| "error_message (Non_Json h) = he_message h"
| "error_message (Plain_Error m) = m"

text \<open>A member that may be missing: whether it counts as true, its elements, its text.\<close>

definition present :: "json option \<Rightarrow> bool" where
  "present v = (case v of None \<Rightarrow> False | Some j \<Rightarrow> truthy j)"

definition list_of :: "json option \<Rightarrow> json list" where
  "list_of v = (case v of Some (JArr xs) \<Rightarrow> xs | _ \<Rightarrow> [])"

definition text_of :: "json option \<Rightarrow> string" where
  "text_of v = (case v of Some (JStr s) \<Rightarrow> s | _ \<Rightarrow> [])"

definition is_array :: "json option \<Rightarrow> bool" where
  "is_array v = (case v of Some (JArr _) \<Rightarrow> True | _ \<Rightarrow> False)"

text \<open>\<open>value?.a?.b\<close>, and \<open>a ?? b\<close>, which passes over null.\<close>

definition path_of :: "json option \<Rightarrow> string list \<Rightarrow> json option" where
  "path_of v ks = fold (\<lambda>k v. member_of v k) ks v"

definition not_null :: "json option \<Rightarrow> json option" where
  "not_null v = (if v = Some JNull then None else v)"

definition set_member :: "json \<Rightarrow> string \<Rightarrow> json \<Rightarrow> json" where
  "set_member j k v = (case j of JObj ms \<Rightarrow> JObj (jm_set k v ms) | _ \<Rightarrow> j)"

definition cleanText :: "json option \<Rightarrow> string option" where
  "cleanText v = (case v of Some (JStr s) \<Rightarrow> if js_trim s = [] then None else Some (js_trim s) | _ \<Rightarrow> None)"

text \<open>\<open>project.split("/")\<close>: the owner, and the name where there is one.\<close>

definition owner_of :: "string \<Rightarrow> string" where
  "owner_of project = hd (split_on CHR ''/'' project)"

definition name_of :: "string \<Rightarrow> string option" where
  "name_of project = (case split_on CHR ''/'' project of _ # n # _ \<Rightarrow> Some n | _ \<Rightarrow> None)"

definition nonempty :: "string option \<Rightarrow> bool" where
  "nonempty s \<longleftrightarrow> s \<noteq> None \<and> s \<noteq> Some []"

section \<open>Review threads\<close>

definition pull_title :: "string \<Rightarrow> string \<Rightarrow> int \<Rightarrow> string" where
  "pull_title owner name number = owner @ ''/'' @ name @ '' PR #'' @ int_str number"

text \<open>\<open>left\<close> pages may still be read.  The result is all nodes and the connection of the last page.\<close>

fun thread_pages :: "gql_client \<Rightarrow> string \<Rightarrow> string \<Rightarrow> int \<Rightarrow> nat \<Rightarrow> json list \<Rightarrow> json option \<Rightarrow> (json list \<times> json option) result" where
  "thread_pages ask owner name number 0 nodes pageInfo =
     Inl (pull_title owner name number @ '': review threads exceeded '' @ nat_str MAX_REVIEW_THREAD_PAGES @ '' pages'')"
| "thread_pages ask owner name number (Suc left) nodes pageInfo =
     (let cursor = text_of (member_of pageInfo ''endCursor'') in
      if cursor = [] then Inl (pull_title owner name number @ '': review thread page is missing an end cursor'')
      else
        (case ask (Threads_Page owner name number cursor) of
           Inl e \<Rightarrow> Inl (error_message e)
         | Inr data \<Rightarrow>
             (let next_page = path_of (Some data) [''repository'', ''pullRequest'', ''reviewThreads''] in
              if \<not> present (member_of next_page ''pageInfo'') \<or> \<not> is_array (member_of next_page ''nodes'')
              then Inl (pull_title owner name number @ '': review thread page is missing from the response'')
              else
                (let nodes' = nodes @ list_of (member_of next_page ''nodes''); info = member_of next_page ''pageInfo'' in
                 if \<not> present (member_of info ''hasNextPage'') then Inr (nodes', next_page)
                 else thread_pages ask owner name number left nodes' info))))"

text \<open>The connection with all its nodes and the totals of its last page.\<close>

definition closed_connection :: "json \<Rightarrow> json list \<Rightarrow> json option \<Rightarrow> json" where
  "closed_connection connection nodes last_page =
     (let total = nullish (not_null (member_of last_page ''totalCount'')) (member_of (Some connection) ''totalCount'');
          c1 = set_member connection ''nodes'' (JArr nodes);
          c2 = (case total of None \<Rightarrow> c1 | Some t \<Rightarrow> set_member c1 ''totalCount'' t) in
      set_member c2 ''pageInfo'' (the (member_of last_page ''pageInfo'')))"

definition completeReviewThreads :: "gql_client \<Rightarrow> string \<Rightarrow> string option \<Rightarrow> json \<Rightarrow> json result" where
  "completeReviewThreads ask owner name node =
     (let connection = member_of (Some node) ''reviewThreads'' in
      if \<not> present (path_of connection [''pageInfo'', ''hasNextPage'']) then Inr node
      else
        (case (name, member_of (Some node) ''number'') of
           (Some n, Some (JNum number)) \<Rightarrow>
             if owner = [] \<or> n = [] then Inl ''cannot paginate review threads without a repository and PR number''
             else
               rbind (thread_pages ask owner n number (MAX_REVIEW_THREAD_PAGES - 1)
                        (list_of (member_of connection ''nodes'')) (member_of connection ''pageInfo''))
                 (\<lambda>(nodes, last_page). Inr (set_member node ''reviewThreads'' (closed_connection (the connection) nodes last_page)))
         | _ \<Rightarrow> Inl ''cannot paginate review threads without a repository and PR number''))"

section \<open>Tracker references\<close>

text \<open>\<open>TRACKER_REF_KEY\<close>: \<open>owner/name#number\<close>.\<close>

definition parse_ref_key :: "string \<Rightarrow> (string \<times> string \<times> nat) option" where
  "parse_ref_key key =
     (let owner = takeWhile is_name_char key; tl1 = dropWhile is_name_char key;
          name = takeWhile is_name_char (drop 1 tl1); tl2 = dropWhile is_name_char (drop 1 tl1);
          digits = drop 1 tl2 in
      if owner \<noteq> [] \<and> starts_with ''/'' tl1 \<and> name \<noteq> [] \<and> starts_with ''#'' tl2
         \<and> digits \<noteq> [] \<and> list_all is_digit digits \<and> hd digits \<noteq> CHR ''0''
      then Some (owner, name, num_of digits) else None)"

definition add_target ::
  "string option \<Rightarrow> string list \<Rightarrow> tracker_row \<Rightarrow> (string, ref_target) jsmap \<Rightarrow> (string, ref_target) jsmap"
where
  "add_target ownProject tracked row targets =
     (if TRACKER_REF_MAX \<le> length targets then targets
      else
        (case Option.bind (tr_ref row) (\<lambda>r. trackerRefKey r ownProject) of
           None \<Rightarrow> targets
         | Some key \<Rightarrow>
             (case parse_ref_key key of
                None \<Rightarrow> targets
              | Some (owner, name, number) \<Rightarrow>
                  (let repo = to_lower (owner @ ''/'' @ name) in
                   if GRAPHQL_INT_MAX < number \<or> (Some repo \<noteq> map_option to_lower ownProject \<and> repo \<notin> set tracked)
                   then targets
                   else jm_set key \<lparr>tg_key = key, tg_owner = owner, tg_name = name, tg_number = number\<rparr> targets))))"

definition trackerRefTargets :: "json \<Rightarrow> string list \<Rightarrow> ref_target list" where
  "trackerRefTargets node tracked =
     (let ownProject = cleanText (path_of (Some node) [''repository'', ''nameWithOwner'']) in
      jm_values (fold (add_target ownProject tracked)
        (parseTrackerRows (or_else (member_of (Some node) ''body'') JNull)) jm_empty))"

definition UNRESOLVABLE_TARGET :: "string list" where
  "UNRESOLVABLE_TARGET = [''NOT_FOUND'', ''FORBIDDEN'']"

definition gqlAllowingUnresolvable :: "gql_client \<Rightarrow> gh_query \<Rightarrow> json result" where
  "gqlAllowingUnresolvable ask req =
     (case ask req of
        Inr data \<Rightarrow> Inr data
      | Inl (Gql_Errors h errs data) \<Rightarrow>
          if errs \<noteq> [] \<and> list_all (\<lambda>e. text_of (member_of (Some e) ''type'') \<in> set UNRESOLVABLE_TARGET) errs then Inr data
          else Inl (he_message h)
      | Inl e \<Rightarrow> Inl (error_message e))"

definition batch_alias :: "string \<Rightarrow> nat \<Rightarrow> string" where
  "batch_alias prefix j = prefix @ nat_str j"

definition hit_of :: "json \<Rightarrow> nat \<Rightarrow> (string \<times> json) option" where
  "hit_of data j =
     (let hit = path_of (Some data) [batch_alias ''t'' j, ''issueOrPullRequest'']; i = text_of (member_of hit ''id'') in
      if i = [] then None
      else Some (i, case member_of hit ''state'' of Some (JStr s) \<Rightarrow> JStr s | _ \<Rightarrow> JNull))"

definition add_hits :: "json \<Rightarrow> ref_target list \<Rightarrow> (string, json) jsmap \<Rightarrow> (string, json) jsmap" where
  "add_hits data batch resolved =
     fold (\<lambda>(j, t) m. (case hit_of data j of
                         None \<Rightarrow> m | Some (i, state) \<Rightarrow> jm_set (tg_key t) (JObj [(''id'', JStr i), (''state'', state)]) m))
       (zip [0..<length batch] batch) resolved"

text \<open>\<open>left\<close> bounds the number of batches.\<close>

fun resolve_batches :: "gql_client \<Rightarrow> nat \<Rightarrow> ref_target list \<Rightarrow> (string, json) jsmap \<Rightarrow> (string, json) jsmap result" where
  "resolve_batches ask left [] resolved = Inr resolved"
| "resolve_batches ask 0 targets resolved = Inr resolved"
| "resolve_batches ask (Suc left) targets resolved =
     rbind (gqlAllowingUnresolvable ask (Tracker_Refs (take TRACKER_REF_BATCH targets)))
       (\<lambda>data. resolve_batches ask left (drop TRACKER_REF_BATCH targets)
          (add_hits data (take TRACKER_REF_BATCH targets) resolved))"

definition resolveTrackerRefs :: "gql_client \<Rightarrow> string list \<Rightarrow> string \<Rightarrow> json \<Rightarrow> string option \<times> json" where
  "resolveTrackerRefs ask tracked project node =
     (let targets = trackerRefTargets node tracked in
      if targets = [] then (None, node)
      else
        (case resolve_batches ask (length targets) targets jm_empty of
           Inl e \<Rightarrow>
             (Some (project @ '' #'' @ (case member_of (Some node) ''number'' of Some (JNum n) \<Rightarrow> int_str n | _ \<Rightarrow> ''undefined'')
                    @ '' tracker refs: '' @ e), node)
         | Inr resolved \<Rightarrow> (None, set_member node ''__trackerRefs'' (JObj resolved))))"

section \<open>The source and what a sweep has so far\<close>

datatype rest_query =
    Repo_Get string string
  | Repo_Activity string "string option" string
  | Comments_Page string string string nat "string option"
  | Commits_Page string "string option" nat "string option"
  | Compare_Page string "string option" string string nat

type_synonym rest_client = "rest_query \<Rightarrow> json result"

text \<open>\<open>gh_rest p\<close> is \<open>None\<close> where the project has no REST client.\<close>

record github =
  gh_descriptor :: source_descriptor
  gh_projects :: "string list"
  gh_ask :: "string \<Rightarrow> gql_client"
  gh_rest :: "string \<Rightarrow> rest_client option"
  gh_all_branches :: bool
  gh_partial :: "string option"
  gh_hash :: "json \<Rightarrow> string"

definition trackedProjects :: "github \<Rightarrow> string list" where
  "trackedProjects src = map to_lower (gh_projects src)"

record sweep =
  sw_records :: "raw_record list"
  sw_latest :: "string option"
  sw_complete :: bool
  sw_error :: "string option"
  sw_pr_incomplete :: bool
  sw_refs_incomplete :: bool

text \<open>\<open>if (!latest || at > latest) latest = at\<close>\<close>

definition later_of :: "string option \<Rightarrow> string \<Rightarrow> string option" where
  "later_of latest t = (case latest of None \<Rightarrow> Some t | Some l \<Rightarrow> if l = [] \<or> l < t then Some t else Some l)"

definition note_error :: "string \<Rightarrow> sweep \<Rightarrow> sweep" where
  "note_error e st = st\<lparr>sw_complete := False, sw_error := nullish (sw_error st) (Some e)\<rparr>"

fun gh_kind_text :: "gh_kind \<Rightarrow> string" where
  "gh_kind_text Gh_Issue = ''issue''"
| "gh_kind_text Gh_Pull = ''change_request''"

fun connection_of :: "gh_kind \<Rightarrow> string" where
  "connection_of Gh_Issue = ''issues''"
| "connection_of Gh_Pull = ''pullRequests''"

definition gh_record :: "github \<Rightarrow> string \<Rightarrow> gh_kind \<Rightarrow> json \<Rightarrow> raw_record" where
  "gh_record src now_at kind node =
     \<lparr>ra_entity_kind = gh_kind_text kind, ra_external = text_of (member_of (Some node) ''id''),
      ra_api_version = Some API_VERSION, ra_fetched_at = now_at, ra_payload = node, ra_content_hash = Some (gh_hash src node)\<rparr>"

section \<open>The pages of issues and pull requests\<close>

datatype page_end = Page_Done | Stop_Reached | Page_Thrown string

text \<open>One node of a page: what completing it throws, or the sweep with its record.\<close>

definition take_node :: "github \<Rightarrow> string \<Rightarrow> string \<Rightarrow> gh_kind \<Rightarrow> json \<Rightarrow> sweep \<Rightarrow> sweep result" where
  "take_node src now_at project kind node st =
     rbind (if kind = Gh_Pull then completeReviewThreads (gh_ask src project) (owner_of project) (name_of project) node
            else Inr node)
       (\<lambda>node1.
          let (refs_error, node2) =
                (if kind = Gh_Issue then resolveTrackerRefs (gh_ask src project) (trackedProjects src) project node1
                 else (None, node1));
              st1 = (case refs_error of None \<Rightarrow> st | Some e \<Rightarrow> note_error e (st\<lparr>sw_refs_incomplete := True\<rparr>)) in
          Inr (st1\<lparr>sw_records := sw_records st1 @ [gh_record src now_at kind node2]\<rparr>))"

definition updated_at :: "json \<Rightarrow> string" where
  "updated_at node = text_of (member_of (Some node) ''updatedAt'')"

definition before_since :: "string option \<Rightarrow> json \<Rightarrow> bool" where
  "before_since from_at node \<longleftrightarrow> nonempty from_at \<and> updated_at node < the from_at"

fun sweep_nodes ::
  "github \<Rightarrow> string \<Rightarrow> string option \<Rightarrow> string \<Rightarrow> gh_kind \<Rightarrow> json list \<Rightarrow> sweep \<Rightarrow> page_end \<times> sweep"
where
  "sweep_nodes src now_at from_at project kind [] st = (Page_Done, st)"
| "sweep_nodes src now_at from_at project kind (node # nodes) st =
     (if before_since from_at node then (Stop_Reached, st)
      else
        (let st1 = st\<lparr>sw_latest := later_of (sw_latest st) (updated_at node)\<rparr> in
         case take_node src now_at project kind node st1 of
           Inl e \<Rightarrow> (Page_Thrown e, st1)
         | Inr st2 \<Rightarrow> sweep_nodes src now_at from_at project kind nodes st2))"

text \<open>A page; one that is too heavy is asked for once more at half the size, which is kept from then on.\<close>

definition ask_page :: "gql_client \<Rightarrow> gh_kind \<Rightarrow> string \<Rightarrow> string option \<Rightarrow> string option \<Rightarrow> nat \<Rightarrow> (json \<times> nat) result" where
  "ask_page ask kind owner name cursor per =
     (case ask (Items_Page kind owner name cursor per) of
        Inr data \<Rightarrow> Inr (data, per)
      | Inl e \<Rightarrow>
          if per \<noteq> PAGE_SIZE \<or> \<not> isGithubHeavyQueryFailure e then Inl (error_message e)
          else
            (case ask (Items_Page kind owner name cursor (PAGE_SIZE div 2)) of
               Inr data \<Rightarrow> Inr (data, PAGE_SIZE div 2)
             | Inl e2 \<Rightarrow> Inl (error_message e2)))"

definition cursor_of :: "json option \<Rightarrow> string option" where
  "cursor_of conn = (case path_of conn [''pageInfo'', ''endCursor''] of Some (JStr s) \<Rightarrow> Some s | _ \<Rightarrow> None)"

definition page_of :: "gh_kind \<Rightarrow> json \<Rightarrow> json option" where
  "page_of kind data = path_of (Some data) [''repository'', connection_of kind]"

definition more_pages :: "json option \<Rightarrow> bool" where
  "more_pages conn = present (path_of conn [''pageInfo'', ''hasNextPage''])"

function sweep_pages ::
  "github \<Rightarrow> string \<Rightarrow> string option \<Rightarrow> string \<Rightarrow> gh_kind \<Rightarrow> string option \<Rightarrow> nat \<Rightarrow> nat \<Rightarrow> sweep \<Rightarrow> string option \<times> sweep"
where
  "sweep_pages src now_at from_at project kind cursor per fetched st =
     (case ask_page (gh_ask src project) kind (owner_of project) (name_of project) cursor per of
        Inl e \<Rightarrow> (Some e, st)
      | Inr (data, per') \<Rightarrow>
          (let conn = page_of kind data; nodes = list_of (member_of conn ''nodes'') in
           if \<not> present conn then (None, st)
           else
             (case sweep_nodes src now_at from_at project kind nodes st of
                (Page_Thrown e, st1) \<Rightarrow> (Some e, st1)
              | (stop, st1) \<Rightarrow>
                  (let fetched' = fetched + length nodes in
                   if stop = Stop_Reached \<or> \<not> more_pages conn then (None, st1)
                   else if MAX_ITEMS \<le> fetched' \<or> nodes = []
                   then (Some (''stopped after '' @ nat_str fetched' @ '' records with more pages left (cap '' @ nat_str MAX_ITEMS @ '')''), st1)
                   else sweep_pages src now_at from_at project kind (cursor_of conn) per' fetched' st1))))"
  by pat_completeness auto
termination
  by (relation "measure (\<lambda>(_, _, _, _, _, _, _, fetched, _). MAX_ITEMS - fetched)") (auto simp: neq_Nil_conv)

declare sweep_pages.simps [simp del]

section \<open>Incremental discovery of pull requests\<close>

record pr_candidate =
  pc_number :: int
  pc_updated_at :: string

datatype probe_result = Probe_Throws string | Probe_Fails string | Probe_Found "pr_candidate list"

text \<open>The rows of one page of the probe, with whether the sweep stops there.\<close>

fun probe_nodes :: "string \<Rightarrow> string \<Rightarrow> json list \<Rightarrow> pr_candidate list \<Rightarrow> bool \<times> probe_result" where
  "probe_nodes project from_at [] found = (False, Probe_Found found)"
| "probe_nodes project from_at (node # nodes) found =
     (case member_of (Some node) ''updatedAt'' of
        Some (JStr t) \<Rightarrow>
          if t < from_at then (True, Probe_Found found)
          else
            (case member_of (Some node) ''number'' of
               Some (JNum n) \<Rightarrow> probe_nodes project from_at nodes (found @ [\<lparr>pc_number = n, pc_updated_at = t\<rparr>])
             | _ \<Rightarrow> (True, Probe_Fails (project @ '': incremental PR probe returned a row without a number'')))
      | _ \<Rightarrow> (True, Probe_Throws (project @ '': incremental PR probe returned a row without updatedAt'')))"

fun probe_pages ::
  "gql_client \<Rightarrow> string \<Rightarrow> string \<Rightarrow> string \<Rightarrow> string \<Rightarrow> nat \<Rightarrow> string option \<Rightarrow> pr_candidate list \<Rightarrow> probe_result"
where
  "probe_pages ask owner name project from_at 0 cursor found = Probe_Found found"
| "probe_pages ask owner name project from_at (Suc left) cursor found =
     (case ask (Pulls_Probe owner name cursor) of
        Inl e \<Rightarrow> Probe_Throws (error_message e)
      | Inr data \<Rightarrow>
          (let conn = page_of Gh_Pull data in
           if \<not> present conn then Probe_Found found
           else
             (case probe_nodes project from_at (list_of (member_of conn ''nodes'')) found of
                (stop, Probe_Found found') \<Rightarrow>
                  if stop \<or> \<not> more_pages conn then Probe_Found found'
                  else if \<not> nonempty (cursor_of conn)
                  then Probe_Throws (project @ '': incremental PR page is missing an end cursor'')
                  else probe_pages ask owner name project from_at left (cursor_of conn) found'
              | (_, failure) \<Rightarrow> failure)))"

record resolve_outcome =
  ro_record :: "raw_record option"
  ro_error :: "string option"

definition pull_of :: "json \<Rightarrow> json option" where
  "pull_of data = path_of (Some data) [''repository'', ''pullRequest'']"

definition read_candidate :: "github \<Rightarrow> string \<Rightarrow> string \<Rightarrow> string \<Rightarrow> string \<Rightarrow> pr_candidate \<Rightarrow> resolve_outcome" where
  "read_candidate src now_at project owner name c =
     (let label = project @ '' #'' @ int_str (pc_number c) in
      case gh_ask src project (Pull_By_Number owner name (pc_number c)) of
        Inl e \<Rightarrow> \<lparr>ro_record = None, ro_error = Some (label @ '' incremental detail: '' @ error_message e)\<rparr>
      | Inr data \<Rightarrow>
          if \<not> present (pull_of data)
          then \<lparr>ro_record = None, ro_error = Some (label @ '': detail missing after incremental probe'')\<rparr>
          else
            (case completeReviewThreads (gh_ask src project) owner (Some name) (the (pull_of data)) of
               Inl e \<Rightarrow> \<lparr>ro_record = None, ro_error = Some (label @ '' incremental detail: '' @ e)\<rparr>
             | Inr node \<Rightarrow> \<lparr>ro_record = Some (gh_record src now_at Gh_Pull node), ro_error = None\<rparr>))"

text \<open>The outcomes in the order of the candidates.\<close>

definition add_outcome :: "pr_candidate \<times> resolve_outcome \<Rightarrow> fetch_result \<Rightarrow> fetch_result" where
  "add_outcome co f =
     (let f1 = (case ro_error (snd co) of None \<Rightarrow> f
                | Some e \<Rightarrow> f\<lparr>fe_complete := False, fe_error := nullish (fe_error f) (Some e)\<rparr>) in
      case ro_record (snd co) of
        None \<Rightarrow> f1
      | Some r \<Rightarrow>
          (let t = text_of (nullish (not_null (member_of (Some (ra_payload r)) ''updatedAt'')) (Some (JStr (pc_updated_at (fst co))))) in
           f1\<lparr>fe_records := fe_records f1 @ [r],
              fe_watermark := (if t = [] then fe_watermark f1 else later_of (fe_watermark f1) t)\<rparr>))"

definition nothing_fetched :: fetch_result where
  "nothing_fetched = \<lparr>fe_records = [], fe_watermark = None, fe_complete = True, fe_error = None\<rparr>"

definition fetchIncrementalPullRequests :: "github \<Rightarrow> string \<Rightarrow> string \<Rightarrow> string \<Rightarrow> fetch_result result" where
  "fetchIncrementalPullRequests src now_at project from_at =
     (case name_of project of
        Some name \<Rightarrow>
          if owner_of project = [] \<or> name = []
          then Inr (nothing_fetched\<lparr>fe_complete := False, fe_error := Some (project @ '': invalid repository path'')\<rparr>)
          else
            (case probe_pages (gh_ask src project) (owner_of project) name project from_at MAX_PAGES None [] of
               Probe_Throws e \<Rightarrow> Inl e
             | Probe_Fails e \<Rightarrow> Inr (nothing_fetched\<lparr>fe_complete := False, fe_error := Some e\<rparr>)
             | Probe_Found cs \<Rightarrow>
                 Inr (fold add_outcome (map (\<lambda>c. (c, read_candidate src now_at project (owner_of project) name c)) cs) nothing_fetched))
      | None \<Rightarrow> Inr (nothing_fetched\<lparr>fe_complete := False, fe_error := Some (project @ '': invalid repository path'')\<rparr>))"

section \<open>Activity of a repository\<close>

definition MAX_REST_PAGES :: nat where "MAX_REST_PAGES = 20"
definition MAX_COMPARE_PAGES :: nat where "MAX_COMPARE_PAGES = 3"
definition COMMIT_FACTS_BATCH :: nat where "COMMIT_FACTS_BATCH = 100"

type_synonym found_activity = "raw_record list \<times> string option"

definition part_of :: "json option \<Rightarrow> id_part option" where
  "part_of v = (case v of Some (JStr s) \<Rightarrow> Some (Text_Part s) | Some (JNum n) \<Rightarrow> Some (Number_Part n) | _ \<Rightarrow> None)"

text \<open>\<open>a ?? b\<close> on the members of an object.\<close>

definition either_member :: "json option \<Rightarrow> string list \<Rightarrow> string list \<Rightarrow> json option" where
  "either_member v a b = nullish (not_null (path_of v a)) (not_null (path_of v b))"

definition activity_record :: "github \<Rightarrow> string \<Rightarrow> string \<Rightarrow> json \<Rightarrow> raw_record" where
  "activity_record src now_at externalId payload =
     \<lparr>ra_entity_kind = ''activity'', ra_external = externalId, ra_api_version = Some (API_VERSION @ ''.rest''),
      ra_fetched_at = now_at, ra_payload = payload, ra_content_hash = Some (gh_hash src payload)\<rparr>"

definition fetchDefaultBranch :: "string \<Rightarrow> string option \<Rightarrow> rest_client \<Rightarrow> string option" where
  "fetchDefaultBranch owner name rcl =
     (case name of
        None \<Rightarrow> None
      | Some n \<Rightarrow> if owner = [] \<or> n = [] then None
                 else (case rcl (Repo_Get owner n) of Inl _ \<Rightarrow> None | Inr j \<Rightarrow> cleanText (member_of (Some j) ''default_branch'')))"

text \<open>The push and branch events, and the records they become.\<close>

definition event_at :: "json \<Rightarrow> string" where
  "event_at event = text_of (either_member (Some event) [''timestamp''] [''pushed_at''])"

definition push_record :: "github \<Rightarrow> string \<Rightarrow> string \<Rightarrow> json \<Rightarrow> raw_record" where
  "push_record src now_at project event =
     activity_record src now_at
       (stableActivityId
          [Some (Text_Part ''repo-activity''), Some (Text_Part project), part_of (either_member (Some event) [''activity_type''] [''push_type'']),
           part_of (member_of (Some event) ''ref''), part_of (member_of (Some event) ''before''),
           part_of (member_of (Some event) ''after''), Some (Text_Part (event_at event))])
       (JObj [(''__activityKind'', JStr ''github_repo_activity''), (''project'', JStr project), (''event'', event)])"

definition comment_at :: "json \<Rightarrow> string option" where
  "comment_at comment = nullish (cleanText (member_of (Some comment) ''updated_at'')) (cleanText (member_of (Some comment) ''created_at''))"

definition comment_record :: "github \<Rightarrow> string \<Rightarrow> string \<Rightarrow> string \<Rightarrow> string \<Rightarrow> json \<Rightarrow> string \<Rightarrow> raw_record" where
  "comment_record src now_at project activityKind idPrefix comment updated =
     activity_record src now_at
       (stableActivityId
          [Some (Text_Part idPrefix), Some (Text_Part project),
           part_of (nullish (either_member (Some comment) [''node_id''] [''id''])
                      (nullish (not_null (member_of (Some comment) ''html_url'')) (Some (JStr updated))))])
       (JObj [(''__activityKind'', JStr activityKind), (''project'', JStr project), (''comment'', comment)])"

definition add_comment :: "github \<Rightarrow> string \<Rightarrow> string \<Rightarrow> string \<Rightarrow> string \<Rightarrow> json \<Rightarrow> found_activity \<Rightarrow> found_activity" where
  "add_comment src now_at project activityKind idPrefix comment found =
     (case comment_at comment of
        None \<Rightarrow> found
      | Some updated \<Rightarrow>
          (fst found @ [comment_record src now_at project activityKind idPrefix comment updated], later_of (snd found) updated))"

text \<open>Pages that end with the first that is not full: \<open>left\<close> may still be read, the next is number \<open>pn\<close>.\<close>

fun rest_pages :: "(nat \<Rightarrow> json list result) \<Rightarrow> nat \<Rightarrow> nat \<Rightarrow> json list result" where
  "rest_pages read_page 0 pn = Inr []"
| "rest_pages read_page (Suc left) pn =
     rbind (read_page pn) (\<lambda>xs.
       if length xs < 100 then Inr xs else map_sum id (\<lambda>ys. xs @ ys) (rest_pages read_page left (Suc pn)))"

definition elements :: "json result \<Rightarrow> json list result" where
  "elements r = map_sum id (\<lambda>j. list_of (Some j)) r"

definition given_text :: "string option \<Rightarrow> string option" where
  "given_text s = (if s = Some [] then None else s)"

definition fetchRepoCommentActivity :: "github \<Rightarrow> string \<Rightarrow> string \<Rightarrow> string option \<Rightarrow> rest_client \<Rightarrow> found_activity result" where
  "fetchRepoCommentActivity src now_at project from_at rcl =
     (case name_of project of
        None \<Rightarrow> Inr ([], None)
      | Some name \<Rightarrow>
          if owner_of project = [] \<or> name = [] then Inr ([], None)
          else
            foldM (\<lambda>(surface, activityKind, idPrefix) found.
                rbind (rest_pages (\<lambda>pn. elements (rcl (Comments_Page surface (owner_of project) name pn (given_text from_at)))) MAX_REST_PAGES 1)
                  (\<lambda>comments. Inr (fold (add_comment src now_at project activityKind idPrefix) comments found)))
              [(''issues'', ''github_issue_comment'', ''issue-comment''), (''pulls'', ''github_pr_review_comment'', ''pr-review-comment'')]
              ([], None))"

text \<open>One entry per commit, with the branches whose feeds it was on.\<close>

record commit_entry =
  ce_commit :: json
  ce_branches :: "string list"

definition commit_sha_of :: "json \<Rightarrow> string" where
  "commit_sha_of commit = text_of (member_of (Some commit) ''sha'')"

definition commit_at :: "json \<Rightarrow> string" where
  "commit_at commit = text_of (either_member (Some commit) [''commit'', ''committer'', ''date''] [''commit'', ''author'', ''date''])"

definition add_commit ::
  "string option \<Rightarrow> json \<Rightarrow> (string, commit_entry) jsmap \<times> string option \<Rightarrow> (string, commit_entry) jsmap \<times> string option"
where
  "add_commit branch commit found =
     (let sha = commit_sha_of commit; at_text = commit_at commit in
      if sha = [] \<or> at_text = [] then found
      else
        (let entry = or_else (jm_get (fst found) sha) \<lparr>ce_commit = commit, ce_branches = []\<rparr>;
             entry' = (case branch of
                         Some b \<Rightarrow> if b \<noteq> [] \<and> b \<notin> set (ce_branches entry) then entry\<lparr>ce_branches := ce_branches entry @ [b]\<rparr> else entry
                       | None \<Rightarrow> entry) in
         (jm_set sha entry' (fst found), later_of (snd found) at_text)))"

text \<open>\<open>/^prefix\b/\<close>\<close>

definition begins_with_word :: "string \<Rightarrow> string \<Rightarrow> bool" where
  "begins_with_word prefix s \<longleftrightarrow>
     starts_with prefix s \<and> (case drop (length prefix) s of [] \<Rightarrow> True | c # _ \<Rightarrow> \<not> (is_alnum c \<or> c = CHR ''_''))"

text \<open>The feed of the default branch; an empty repository answers 409 and has no commits.\<close>

fun commit_pages :: "(nat \<Rightarrow> json list result) \<Rightarrow> nat \<Rightarrow> nat \<Rightarrow> json list result" where
  "commit_pages read_page 0 pn = Inr []"
| "commit_pages read_page (Suc left) pn =
     (case read_page pn of
        Inl e \<Rightarrow> if begins_with_word ''REST HTTP 409: Git Repository is empty'' e then Inr [] else Inl e
      | Inr xs \<Rightarrow> if length xs < 100 then Inr xs else map_sum id (\<lambda>ys. xs @ ys) (commit_pages read_page left (Suc pn)))"

text \<open>The live side branches, by the latest event of each.\<close>

definition latest_push :: "string \<Rightarrow> json list \<Rightarrow> (string, string \<times> bool) jsmap" where
  "latest_push defaultBranch events =
     fold (\<lambda>event m.
         let ref = text_of (member_of (Some event) ''ref''); branch = drop (length ''refs/heads/'') ref; t = event_at event in
         if \<not> starts_with ''refs/heads/'' ref \<or> branch = [] \<or> branch = defaultBranch then m
         else if (case jm_get m branch of None \<Rightarrow> True | Some (t0, _) \<Rightarrow> t0 < t)
         then jm_set branch (t, text_of (either_member (Some event) [''activity_type''] [''push_type'']) = ''branch_deletion'') m
         else m)
       events jm_empty"

definition sideBranches :: "github \<Rightarrow> json list \<Rightarrow> string option \<Rightarrow> string option \<Rightarrow> string list" where
  "sideBranches src events defaultBranch from_at =
     (case given_text defaultBranch of
        None \<Rightarrow> []
      | Some d \<Rightarrow>
          if \<not> gh_all_branches src then []
          else
            js_sort (by_key id)
              (map fst (filter (\<lambda>(_, t, deleted). \<not> deleted \<and> (\<not> nonempty from_at \<or> the from_at \<le> t)) (latest_push d events))))"

text \<open>The commits only one side branch has.  Commits that were added before a page failed stay.\<close>

fun compare_pages ::
  "(nat \<Rightarrow> json list result) \<Rightarrow> string \<Rightarrow> nat \<Rightarrow> nat \<Rightarrow> (string, commit_entry) jsmap \<times> string option
     \<Rightarrow> ((string, commit_entry) jsmap \<times> string option) result"
where
  "compare_pages read_page branch 0 pn found = Inr found"
| "compare_pages read_page branch (Suc left) pn found =
     (case read_page pn of
        Inl e \<Rightarrow> if begins_with_word ''REST HTTP 404'' e then Inr found else Inl e
      | Inr xs \<Rightarrow>
          (let found' = fold (add_commit (Some branch)) xs found in
           if length xs < 100 then Inr found' else compare_pages read_page branch left (Suc pn) found'))"

section \<open>Facts of commits\<close>

record stored_pull =
  sp_id :: string
  sp_number :: int
  sp_state :: "string option"
  sp_merge_oid :: "string option"
  sp_repo :: "string option"

record commit_facts =
  ct_stats :: "(int \<times> int) option"
  ct_pulls :: "stored_pull list option"
  ct_more :: bool

definition sameRepo :: "string option \<Rightarrow> string option \<Rightarrow> bool" where
  "sameRepo a b = (case (given_text a, given_text b) of (Some x, Some y) \<Rightarrow> to_lower x = to_lower y | _ \<Rightarrow> False)"

definition read_pull :: "json option \<Rightarrow> json option \<Rightarrow> json option \<Rightarrow> json option \<Rightarrow> json option \<Rightarrow> stored_pull option" where
  "read_pull i number state oid repo =
     (case (cleanText i, number) of
        (Some i', Some (JNum n)) \<Rightarrow>
          if n \<le> 0 then None
          else Some \<lparr>sp_id = i', sp_number = n, sp_state = cleanText state, sp_merge_oid = cleanText oid, sp_repo = cleanText repo\<rparr>
      | _ \<Rightarrow> None)"

definition readPull :: "json \<Rightarrow> stored_pull option" where
  "readPull entry =
     (let m = (\<lambda>k. member_of (Some entry) k) in
      read_pull (m ''id'') (m ''number'') (m ''state'') (m ''mergeCommitOid'') (m ''repo''))"

definition storedPull :: "json \<Rightarrow> string \<Rightarrow> stored_pull option" where
  "storedPull node project =
     (let p = (\<lambda>ks. path_of (Some node) ks) in
      case read_pull (p [''id'']) (p [''number'']) (p [''state'']) (p [''mergeCommit'', ''oid'']) (p [''repository'', ''nameWithOwner'']) of
        None \<Rightarrow> None
      | Some pull \<Rightarrow> if sameRepo (sp_repo pull) (Some project) then Some pull else None)"

definition parentCount :: "json option \<Rightarrow> int" where
  "parentCount parents = int (length (list_of parents))"

definition is_hex :: "char \<Rightarrow> bool" where
  "is_hex c \<longleftrightarrow> is_digit c \<or> (is_lower c \<and> code c \<le> code (CHR ''f''))"

definition fact_lookups :: "json list \<Rightarrow> (string \<times> bool) list" where
  "fact_lookups commits =
     filter (\<lambda>(sha, _). 4 \<le> length sha \<and> length sha \<le> 64 \<and> list_all is_hex sha)
       (map (\<lambda>c. (to_lower (commit_sha_of c), 1 < parentCount (member_of (Some c) ''parents''))) commits)"

definition facts_of :: "string \<Rightarrow> bool \<Rightarrow> json \<Rightarrow> commit_facts" where
  "facts_of project merge node =
     (let pulls = path_of (Some node) [''associatedPullRequests'', ''nodes'']; total = path_of (Some node) [''associatedPullRequests'', ''totalCount''] in
      \<lparr>ct_stats = (if merge then None else commitLineStats (Some node) 1),
       ct_pulls = (if is_array pulls then Some (List.map_filter (\<lambda>p. storedPull p project) (list_of pulls)) else None),
       ct_more = (is_array pulls \<and> (case total of Some (JNum n) \<Rightarrow> 0 < n \<and> int (length (list_of pulls)) < n | _ \<Rightarrow> False))\<rparr>)"

definition add_facts :: "string \<Rightarrow> (string \<times> bool) list \<Rightarrow> json \<Rightarrow> (string, commit_facts) jsmap \<Rightarrow> (string, commit_facts) jsmap" where
  "add_facts project batch data out =
     fold (\<lambda>(j, sha, merge) m.
         let node = path_of (Some data) [''repository'', batch_alias ''c'' j] in
         if \<not> present node then m else jm_set sha (facts_of project merge (the node)) m)
       (zip [0..<length batch] batch) out"

fun facts_batches :: "gql_client \<Rightarrow> string \<Rightarrow> string \<Rightarrow> string \<Rightarrow> nat \<Rightarrow> (string \<times> bool) list \<Rightarrow> (string, commit_facts) jsmap \<Rightarrow> (string, commit_facts) jsmap" where
  "facts_batches ask project owner name 0 lookups out = out"
| "facts_batches ask project owner name (Suc left) lookups out =
     (if lookups = [] then out
      else
        (case ask (Commit_Facts owner name (take COMMIT_FACTS_BATCH lookups)) of
           Inl _ \<Rightarrow> out
         | Inr data \<Rightarrow>
             facts_batches ask project owner name left (drop COMMIT_FACTS_BATCH lookups)
               (add_facts project (take COMMIT_FACTS_BATCH lookups) data out)))"

definition fetchCommitFacts :: "gql_client \<Rightarrow> string \<Rightarrow> json list \<Rightarrow> (string, commit_facts) jsmap" where
  "fetchCommitFacts ask project commits =
     (case name_of project of
        None \<Rightarrow> jm_empty
      | Some name \<Rightarrow>
          if owner_of project = [] \<or> name = [] then jm_empty
          else (let lookups = fact_lookups commits in facts_batches ask project (owner_of project) name (length lookups) lookups jm_empty))"

definition orderedBranches :: "string list \<Rightarrow> string option \<Rightarrow> string list" where
  "orderedBranches branches defaultBranch =
     (let sides = js_sort (by_key id) (filter (\<lambda>b. Some b \<noteq> defaultBranch) branches) in
      case given_text defaultBranch of
        None \<Rightarrow> sides
      | Some d \<Rightarrow> if d \<in> set branches then d # sides else sides)"

definition json_or_null :: "string option \<Rightarrow> json" where
  "json_or_null s = (case s of None \<Rightarrow> JNull | Some t \<Rightarrow> JStr t)"

definition pull_json :: "stored_pull \<Rightarrow> json" where
  "pull_json p =
     JObj [(''id'', JStr (sp_id p)), (''number'', JNum (sp_number p)), (''state'', json_or_null (sp_state p)),
           (''mergeCommitOid'', json_or_null (sp_merge_oid p)), (''repo'', json_or_null (sp_repo p))]"

definition fact_members :: "commit_facts option \<Rightarrow> (string \<times> json) list" where
  "fact_members known =
     (case known of
        None \<Rightarrow> []
      | Some f \<Rightarrow>
          (case ct_stats f of None \<Rightarrow> [] | Some (a, d) \<Rightarrow> [(''stats'', JObj [(''additions'', JNum a), (''deletions'', JNum d)])])
          @ (case ct_pulls f of None \<Rightarrow> [] | Some ps \<Rightarrow> [(''pulls'', JArr (map pull_json ps))])
          @ (if ct_more f then [(''pullsMore'', JBool True)] else []))"

definition commit_payload :: "string \<Rightarrow> string option \<Rightarrow> commit_entry \<Rightarrow> commit_facts option \<Rightarrow> json" where
  "commit_payload project defaultBranch entry known =
     JObj ([(''__activityKind'', JStr ''github_commit''), (''project'', JStr project),
            (''defaultBranch'', json_or_null defaultBranch),
            (''branches'', JArr (map JStr (orderedBranches (ce_branches entry) defaultBranch))),
            (''commit'', ce_commit entry)] @ fact_members known)"

definition commit_record :: "github \<Rightarrow> string \<Rightarrow> string \<Rightarrow> string option \<Rightarrow> (string, commit_facts) jsmap \<Rightarrow> commit_entry \<Rightarrow> raw_record" where
  "commit_record src now_at project defaultBranch facts entry =
     activity_record src now_at
       (stableActivityId [Some (Text_Part ''commit''), Some (Text_Part project), part_of (member_of (Some (ce_commit entry)) ''sha'')])
       (commit_payload project defaultBranch entry (jm_get facts (to_lower (commit_sha_of (ce_commit entry)))))"

definition later_all :: "string option \<Rightarrow> string option \<Rightarrow> string option" where
  "later_all latest other = (case given_text other of None \<Rightarrow> latest | Some t \<Rightarrow> later_of latest t)"

definition fetchRepoActivity :: "github \<Rightarrow> string \<Rightarrow> string \<Rightarrow> string option \<Rightarrow> rest_client \<Rightarrow> found_activity result" where
  "fetchRepoActivity src now_at project from_at rcl =
     (let owner = owner_of project; name = name_of project; defaultBranch = fetchDefaultBranch owner name rcl;
          lower_bound = given_text from_at in
      rbind (elements (rcl (Repo_Activity owner name (if lower_bound = None then ''year'' else ''month'')))) (\<lambda>events.
      let pushEvents = filter (\<lambda>e. event_at e \<noteq> []) events;
          latest1 = fold (\<lambda>e l. later_of l (event_at e)) pushEvents None in
      rbind (fetchRepoCommentActivity src now_at project from_at rcl) (\<lambda>(comments, commentLatest).
      rbind (commit_pages (\<lambda>pn. elements (rcl (Commits_Page owner name pn lower_bound))) MAX_REST_PAGES 1) (\<lambda>commits.
      rbind (foldM (\<lambda>branch found.
               compare_pages (\<lambda>pn. map_sum id (\<lambda>j. list_of (member_of (Some j) ''commits''))
                 (rcl (Compare_Page owner name (the defaultBranch) branch pn))) branch MAX_COMPARE_PAGES 1 found)
               (sideBranches src pushEvents defaultBranch from_at)
               (fold (add_commit defaultBranch) commits (jm_empty, later_all latest1 commentLatest))) (\<lambda>(bySha, latest2).
      let facts = fetchCommitFacts (gh_ask src project) project (map ce_commit (jm_values bySha)) in
      Inr (map (push_record src now_at project) pushEvents @ comments
             @ map (commit_record src now_at project defaultBranch facts) (jm_values bySha), latest2))))))"

section \<open>The sweep\<close>

text \<open>One connection of one project.\<close>

definition sweep_kind :: "github \<Rightarrow> string \<Rightarrow> string option \<Rightarrow> string \<Rightarrow> gh_kind \<Rightarrow> sweep \<Rightarrow> sweep" where
  "sweep_kind src now_at from_at project kind st =
     (if kind = Gh_Pull \<and> nonempty from_at then
        (case fetchIncrementalPullRequests src now_at project (the from_at) of
           Inl e \<Rightarrow> note_error (project @ '' change_request: '' @ e) (st\<lparr>sw_pr_incomplete := True\<rparr>)
         | Inr inc \<Rightarrow>
             (let st1 = st\<lparr>sw_records := sw_records st @ fe_records inc, sw_latest := later_all (sw_latest st) (fe_watermark inc)\<rparr> in
              if fe_complete inc then st1
              else st1\<lparr>sw_pr_incomplete := True, sw_complete := False, sw_error := nullish (sw_error st1) (fe_error inc)\<rparr>))
      else
        (case sweep_pages src now_at from_at project kind None PAGE_SIZE 0 st of
           (None, st1) \<Rightarrow> st1
         | (Some e, st1) \<Rightarrow> note_error (project @ '' '' @ gh_kind_text kind @ '': '' @ e) st1))"

definition sweep_project :: "github \<Rightarrow> string \<Rightarrow> string option \<Rightarrow> string \<Rightarrow> sweep \<Rightarrow> sweep" where
  "sweep_project src now_at from_at project st =
     sweep_kind src now_at from_at project Gh_Pull (sweep_kind src now_at from_at project Gh_Issue st)"

definition sweep_activity :: "github \<Rightarrow> string \<Rightarrow> string option \<Rightarrow> string \<Rightarrow> sweep \<Rightarrow> sweep" where
  "sweep_activity src now_at from_at project st =
     (case gh_rest src project of
        None \<Rightarrow> st
      | Some rcl \<Rightarrow>
          (case fetchRepoActivity src now_at project from_at rcl of
             Inl e \<Rightarrow> note_error (project @ '' activity: '' @ e) st
           | Inr (records, latest) \<Rightarrow>
               st\<lparr>sw_records := sw_records st @ records, sw_latest := later_all (sw_latest st) latest\<rparr>))"

definition new_sweep :: "github \<Rightarrow> sweep" where
  "new_sweep src =
     \<lparr>sw_records = [], sw_latest = None, sw_complete = (gh_partial src = None), sw_error = gh_partial src,
      sw_pr_incomplete = False, sw_refs_incomplete = False\<rparr>"

definition run_sweep :: "github \<Rightarrow> string \<Rightarrow> string option \<Rightarrow> sweep" where
  "run_sweep src now_at from_at =
     fold (sweep_activity src now_at from_at) (gh_projects src) (fold (sweep_project src now_at from_at) (gh_projects src) (new_sweep src))"

definition fetch :: "github \<Rightarrow> string \<Rightarrow> fetch_options \<Rightarrow> fetch_result" where
  "fetch src now_at opts =
     (let st = run_sweep src now_at (if fo_full opts then None else fo_since opts) in
      \<lparr>fe_records = sw_records st,
       fe_watermark = (if nonempty (gh_partial src) \<or> sw_pr_incomplete st \<or> sw_refs_incomplete st then None else sw_latest st),
       fe_complete = sw_complete st, fe_error = sw_error st\<rparr>)"

text \<open>The repair of change requests whose state changed without their being updated.\<close>

definition read_refresh :: "github \<Rightarrow> string \<Rightarrow> refresh_candidate \<Rightarrow> resolve_outcome" where
  "read_refresh src now_at c =
     (let owner = owner_of (rf_project_path c); nothing = \<lparr>ro_record = None, ro_error = None\<rparr> in
      case name_of (rf_project_path c) of
        None \<Rightarrow> nothing
      | Some name \<Rightarrow>
          if owner = [] \<or> name = [] then nothing
          else
            (let label = rf_project_path c @ '' #'' @ int_str (rf_iid c) @ '' ci refresh: '' in
             case gh_ask src (rf_project_path c) (Pull_By_Number owner name (rf_iid c)) of
               Inl e \<Rightarrow> \<lparr>ro_record = None, ro_error = Some (label @ error_message e)\<rparr>
             | Inr data \<Rightarrow>
                 if \<not> present (pull_of data) then nothing
                 else
                   (case completeReviewThreads (gh_ask src (rf_project_path c)) owner (Some name) (the (pull_of data)) of
                      Inl e \<Rightarrow> \<lparr>ro_record = None, ro_error = Some (label @ e)\<rparr>
                    | Inr node \<Rightarrow> \<lparr>ro_record = Some (gh_record src now_at Gh_Pull node), ro_error = None\<rparr>)))"

fun refresh_targets :: "string list \<Rightarrow> (string \<times> int) list \<Rightarrow> refresh_candidate list \<Rightarrow> refresh_candidate list" where
  "refresh_targets projects taken [] = []"
| "refresh_targets projects taken (c # cs) =
     (if rf_project_path c \<notin> set projects \<or> (rf_project_path c, rf_iid c) \<in> set taken then refresh_targets projects taken cs
      else c # refresh_targets projects ((rf_project_path c, rf_iid c) # taken) cs)"

definition fetchRefresh :: "github \<Rightarrow> string \<Rightarrow> refresh_candidate list \<Rightarrow> fetch_result" where
  "fetchRefresh src now_at candidates =
     fold (\<lambda>o1 f.
         let f1 = (case ro_error o1 of None \<Rightarrow> f | Some e \<Rightarrow> f\<lparr>fe_complete := False, fe_error := nullish (fe_error f) (Some e)\<rparr>) in
         (case ro_record o1 of None \<Rightarrow> f1 | Some r \<Rightarrow> f1\<lparr>fe_records := fe_records f1 @ [r]\<rparr>))
       (map (read_refresh src now_at) (refresh_targets (gh_projects src) [] candidates)) nothing_fetched"

end
