(* ===== verification/Github_Sweep.thy ===== *)
theory Github_Sweep
  imports Github_Fetch Sync_Witnesses
begin

text \<open>
  What a sweep of the GitHub source guarantees: when it says it is complete nothing on any page of the
  provider is missing, and the watermark it returns lies above nothing that still has to be read again.
\<close>

section \<open>Completing a node\<close>

lemma obj_get_Nil: "obj_get [] k = None"
  by (simp add: obj_get_def)

lemma obj_get_Cons:
  "obj_get (m # ms) k = (case obj_get ms k of Some v \<Rightarrow> Some v | None \<Rightarrow> if fst m = k then Some (snd m) else None)"
  by (simp add: obj_get_def find_last_Cons nullish_def split: option.split)

lemma obj_get_set_other: "k' \<noteq> k \<Longrightarrow> obj_get (jm_set k v ms) k' = obj_get ms k'"
proof (induction ms)
  case (Cons m ms)
  then show ?case by (cases m) (auto simp: obj_get_Cons split: option.split)
qed (simp add: obj_get_Cons obj_get_Nil)

lemma obj_get_set_present: "obj_get (jm_set k v ms) k \<noteq> None"
  by (induction ms) (auto simp: obj_get_Cons split: option.splits)

lemma member_set_other [simp]: "k' \<noteq> k \<Longrightarrow> member_of (Some (set_member j k v)) k' = member_of (Some j) k'"
  by (cases j) (simp_all add: set_member_def member_of_def obj_get_set_other)

lemma completed_node:
  assumes "completeReviewThreads ask owner name node = Inr node1" and "k \<noteq> ''reviewThreads''"
  shows "member_of (Some node1) k = member_of (Some node) k"
proof -
  have "node1 = node \<or> (\<exists>c. node1 = set_member node ''reviewThreads'' c)"
    using assms(1) unfolding completeReviewThreads_def Let_def
    by (auto simp: rbind_eq_Inr split: if_splits option.splits json.splits prod.splits)
  then show ?thesis using assms(2) by auto
qed

lemma resolved_node:
  assumes "resolveTrackerRefs ask tracked project node = (e, node1)" and "k \<noteq> ''__trackerRefs''"
  shows "member_of (Some node1) k = member_of (Some node) k"
  using assms by (auto simp: resolveTrackerRefs_def Let_def split: if_splits sum.splits)

text \<open>Whether the references of a tracker were looked up; an issue without any has none to look up.\<close>

definition refs_settled :: "github \<Rightarrow> json \<Rightarrow> bool" where
  "refs_settled src node \<longleftrightarrow>
     trackerRefTargets node (trackedProjects src) = [] \<or> member_of (Some node) ''__trackerRefs'' \<noteq> None"

lemma trackerRefTargets_cong:
  assumes "\<And>k. k \<noteq> ''__trackerRefs'' \<Longrightarrow> member_of (Some node1) k = member_of (Some node) k"
  shows "trackerRefTargets node1 tracked = trackerRefTargets node tracked"
  using assms [of "''repository''"] assms [of "''body''"] by (simp add: trackerRefTargets_def path_of_def Let_def)

lemma resolved_settled:
  assumes "resolveTrackerRefs ask (trackedProjects src) project node = (None, node1)"
    and "trackerRefTargets node (trackedProjects src) = [] \<or> (\<exists>ms. node = JObj ms)"
  shows "refs_settled src node1"
proof (cases "trackerRefTargets node (trackedProjects src) = []")
  case True
  then show ?thesis
    using assms trackerRefTargets_cong [OF resolved_node [OF assms(1)]] by (simp add: refs_settled_def)
next
  case False
  then obtain ms where "node = JObj ms" using assms(2) by auto
  then show ?thesis
    using assms(1) False
    by (auto simp: refs_settled_def resolveTrackerRefs_def Let_def set_member_def member_of_def
        dest: obj_get_set_present [THEN notE] split: sum.splits)
qed

lemma targets_object: "trackerRefTargets node tracked \<noteq> [] \<Longrightarrow> \<exists>ms. node = JObj ms"
  by (cases node)
    (simp_all add: trackerRefTargets_def member_of_def path_of_def or_else_def parseTrackerRows_def jm_values_def Let_def)

section \<open>What a step of the sweep keeps\<close>

definition grows :: "sweep \<Rightarrow> sweep \<Rightarrow> bool" where
  "grows st st' \<longleftrightarrow>
     set (sw_records st) \<subseteq> set (sw_records st') \<and> sw_latest st \<le> sw_latest st'
     \<and> (sw_complete st' \<longrightarrow> sw_complete st) \<and> (sw_pr_incomplete st \<longrightarrow> sw_pr_incomplete st')
     \<and> (sw_refs_incomplete st \<longrightarrow> sw_refs_incomplete st')"

lemma grows_refl [simp, intro]: "grows st st"
  by (simp add: grows_def)

lemma grows_trans [trans]: "grows a b \<Longrightarrow> grows b c \<Longrightarrow> grows a c"
  unfolding grows_def by (meson order_trans subset_trans)

lemma later_of_bounds: "l \<le> later_of l t" "Some t \<le> later_of l t"
  by (auto simp: later_of_def split: option.split)

lemma later_all_bounds: "l \<le> later_all l o'" "o' \<le> later_all l o' \<or> o' = Some []"
  using later_of_bounds by (auto simp: later_all_def given_text_def split: option.split)

lemma grows_note [intro]: "grows st (note_error e st)"
  by (simp add: grows_def note_error_def)

text \<open>
  What holds of a sweep throughout: its error is set exactly when it is not complete, no record it has is
  newer than the newest instant it saw, and a tracker it has was resolved unless a lookup failed.
\<close>

text \<open>When the provider last changed what a record holds: an item, an event, a commit or a comment.\<close>

definition record_time :: "raw_record \<Rightarrow> string" where
  "record_time r =
     (let p = Some (ra_payload r); what = text_of (member_of p ''__activityKind'') in
      if ra_entity_kind r \<noteq> ''activity'' then updated_at (ra_payload r)
      else if what = ''github_repo_activity'' then event_at (or_else (member_of p ''event'') JNull)
      else if what = ''github_commit'' then commit_at (or_else (member_of p ''commit'') JNull)
      else or_else (comment_at (or_else (member_of p ''comment'') JNull)) [])"

definition not_newer :: "raw_record list \<Rightarrow> string option \<Rightarrow> bool" where
  "not_newer rs latest \<longleftrightarrow> (\<forall>r \<in> set rs. record_time r = [] \<or> Some (record_time r) \<le> latest)"

lemma not_newer_simps [simp]:
  "not_newer [] l" "not_newer (rs @ rs') l \<longleftrightarrow> not_newer rs l \<and> not_newer rs' l"
  by (auto simp: not_newer_def)

lemma not_newer_mono: "not_newer rs l \<Longrightarrow> l \<le> l' \<Longrightarrow> not_newer rs l'"
  unfolding not_newer_def by (meson order_trans)

lemma not_newer_later: "not_newer rs l \<Longrightarrow> not_newer rs (later_of l t)"
  using not_newer_mono later_of_bounds(1) by blast

lemma not_newer_later_all: "not_newer rs o' \<Longrightarrow> not_newer rs (later_all l o')"
proof -
  assume old: "not_newer rs o'"
  show ?thesis
  proof (cases "o' = Some []")
    case True
    then have "record_time r = []" if "r \<in> set rs" for r using old that by (auto simp: not_newer_def)
    then show ?thesis by (simp add: not_newer_def)
  next
    case False
    then show ?thesis using old not_newer_mono later_all_bounds(2) by blast
  qed
qed

lemma item_record_time: "ra_entity_kind r \<noteq> ''activity'' \<Longrightarrow> record_time r = updated_at (ra_payload r)"
  by (simp add: record_time_def Let_def)

definition sweep_ok :: "github \<Rightarrow> sweep \<Rightarrow> bool" where
  "sweep_ok src st \<longleftrightarrow>
     (sw_complete st \<longleftrightarrow> sw_error st = None)
     \<and> not_newer (sw_records st) (sw_latest st)
     \<and> (\<not> sw_refs_incomplete st \<longrightarrow> (\<forall>r \<in> set (sw_records st). ra_entity_kind r = ''issue'' \<longrightarrow> refs_settled src (ra_payload r)))"

lemma new_sweep_ok: "sweep_ok src (new_sweep src)"
  by (simp add: sweep_ok_def new_sweep_def)

lemma note_ok: "sweep_ok src st \<Longrightarrow> sweep_ok src (note_error e st)"
  by (simp add: sweep_ok_def note_error_def nullish_def split: option.split)

text \<open>The record of a node.\<close>

lemma gh_record_time: "record_time (gh_record src now_at kind n) = updated_at n"
  by (cases kind) (simp_all add: record_time_def gh_record_def)

lemma gh_record_fields:
  "ra_entity_kind (gh_record src now_at kind n) = gh_kind_text kind" "ra_payload (gh_record src now_at kind n) = n"
  by (simp_all add: gh_record_def)

lemma not_newer_record: "not_newer [r] l \<longleftrightarrow> record_time r = [] \<or> Some (record_time r) \<le> l"
  by (simp add: not_newer_def)

definition recorded :: "gh_kind \<Rightarrow> json \<Rightarrow> raw_record list \<Rightarrow> bool" where
  "recorded kind node rs \<longleftrightarrow> (\<exists>r \<in> set rs. ra_entity_kind r = gh_kind_text kind \<and> ra_external r = text_of (member_of (Some node) ''id''))"

lemma recorded_mono: "recorded kind node rs \<Longrightarrow> set rs \<subseteq> set rs' \<Longrightarrow> recorded kind node rs'"
  by (auto simp: recorded_def)

lemma take_node_step:
  assumes "take_node src now_at project kind node st = Inr st'"
    and "sweep_ok src st" and "Some (updated_at node) \<le> sw_latest st"
  shows "grows st st' \<and> sweep_ok src st' \<and> recorded kind node (sw_records st')"
proof -
  let ?look = "\<lambda>n. if kind = Gh_Issue then resolveTrackerRefs (gh_ask src project) (trackedProjects src) project n else (None, n)"
  from assms(1) obtain node1
    where n1: "node1 = node \<or> completeReviewThreads (gh_ask src project) (owner_of project) (name_of project) node = Inr node1"
      and out: "(let (e, n) = ?look node1; st1 = (case e of None \<Rightarrow> st | Some m \<Rightarrow> note_error m (st\<lparr>sw_refs_incomplete := True\<rparr>)) in
        (Inr (st1\<lparr>sw_records := sw_records st1 @ [gh_record src now_at kind n]\<rparr>) :: sweep result)) = Inr st'"
    unfolding take_node_def rbind_eq_Inr by (cases "kind = Gh_Pull") auto
  obtain e node2 where n2: "?look node1 = (e, node2)" by (cases "?look node1") auto
  have st': "st' = (case e of None \<Rightarrow> st | Some m \<Rightarrow> note_error m (st\<lparr>sw_refs_incomplete := True\<rparr>))
        \<lparr>sw_records := sw_records st @ [gh_record src now_at kind node2]\<rparr>"
    using out unfolding n2 by (cases e) (simp_all add: note_error_def)
  have same: "member_of (Some node2) k = member_of (Some node) k" if "k \<noteq> ''reviewThreads''" "k \<noteq> ''__trackerRefs''" for k
    using n1 n2 completed_node [of _ _ _ node node1 k] resolved_node [of _ _ _ node1 e node2 k] that by (auto split: if_splits)
  have fields: "updated_at node2 = updated_at node" "text_of (member_of (Some node2) ''id'') = text_of (member_of (Some node) ''id'')"
    using same by (simp_all add: updated_at_def)
  have settled: "refs_settled src node2" if "kind = Gh_Issue" "e = None"
    using n2 that by (auto intro!: resolved_settled targets_object)
  have "recorded kind node (sw_records st')"
    using fields by (auto simp: st' recorded_def gh_record_def)
  moreover have "grows st st'"
    by (auto simp: st' grows_def note_error_def split: option.split)
  moreover have "sweep_ok src st'"
    using assms(2,3) settled fields
    by (cases kind; cases e)
      (auto simp: st' sweep_ok_def note_error_def not_newer_record gh_record_time gh_record_fields nullish_def split: option.split)
  ultimately show ?thesis by blast
qed

lemma latest_ok:
  "sweep_ok src st \<Longrightarrow> grows st (st\<lparr>sw_latest := later_of (sw_latest st) t\<rparr>) \<and> sweep_ok src (st\<lparr>sw_latest := later_of (sw_latest st) t\<rparr>)"
  using later_of_bounds(1) [of "sw_latest st" t] by (simp add: grows_def sweep_ok_def not_newer_later)

section \<open>The pages\<close>

lemma sweep_nodes_step:
  assumes "sweep_nodes src now_at from_at project kind nodes st = (res, st')" and "sweep_ok src st"
  shows "grows st st' \<and> sweep_ok src st' \<and> (res = Page_Done \<longrightarrow> (\<forall>n \<in> set nodes. recorded kind n (sw_records st')))
    \<and> (res = Stop_Reached \<longrightarrow> nonempty from_at)"
  using assms
proof (induction nodes arbitrary: st)
  case Nil
  then show ?case by auto
next
  case (Cons node nodes)
  show ?case
  proof (cases "before_since from_at node")
    case True
    then show ?thesis using Cons.prems by (auto simp: before_since_def)
  next
    case newer: False
    define st1 where "st1 = st\<lparr>sw_latest := later_of (sw_latest st) (updated_at node)\<rparr>"
    have st1: "grows st st1" "sweep_ok src st1" "Some (updated_at node) \<le> sw_latest st1"
      using latest_ok [OF Cons.prems(2)] later_of_bounds(2) by (simp_all add: st1_def)
    show ?thesis
    proof (cases "take_node src now_at project kind node st1")
      case (Inl e)
      then show ?thesis using Cons.prems(1) newer st1 by (auto simp: st1_def)
    next
      case (Inr st2)
      then have st2: "grows st1 st2" "sweep_ok src st2" "recorded kind node (sw_records st2)"
        using take_node_step [OF Inr st1(2,3)] by simp_all
      have "sweep_nodes src now_at from_at project kind nodes st2 = (res, st')"
        using Cons.prems(1) newer Inr by (simp add: st1_def)
      note step = Cons.IH [OF this st2(2)]
      then have "grows st st'" using st1(1) st2(1) grows_trans by blast
      moreover have "recorded kind node (sw_records st')"
        using st2(3) step by (auto simp: grows_def intro: recorded_mono)
      ultimately show ?thesis using step by auto
    qed
  qed
qed

text \<open>
  All pages of a connection from a cursor on: each is an answer of the client at a page size the source
  uses, each asked for with the end cursor of the one before, and the last says there is no other.
\<close>

inductive all_pages :: "gql_client \<Rightarrow> gh_kind \<Rightarrow> string \<Rightarrow> string option \<Rightarrow> string option \<Rightarrow> json list \<Rightarrow> bool"
  for ask kind owner name where
  last_page: "ask (Items_Page kind owner name cursor per) = Inr data \<Longrightarrow>
     \<not> (present (page_of kind data) \<and> more_pages (page_of kind data)) \<Longrightarrow>
     all_pages ask kind owner name cursor [data]"
| more_page: "ask (Items_Page kind owner name cursor per) = Inr data \<Longrightarrow>
     present (page_of kind data) \<Longrightarrow> more_pages (page_of kind data) \<Longrightarrow>
     all_pages ask kind owner name (cursor_of (page_of kind data)) pages \<Longrightarrow>
     all_pages ask kind owner name cursor (data # pages)"

definition nodes_of :: "gh_kind \<Rightarrow> json \<Rightarrow> json list" where
  "nodes_of kind data = (if present (page_of kind data) then list_of (member_of (page_of kind data) ''nodes'') else [])"

definition pages_covered :: "gql_client \<Rightarrow> gh_kind \<Rightarrow> string \<Rightarrow> string option \<Rightarrow> string option \<Rightarrow> raw_record list \<Rightarrow> bool" where
  "pages_covered ask kind owner name cursor rs \<longleftrightarrow>
     (\<exists>pages. all_pages ask kind owner name cursor pages \<and> (\<forall>data \<in> set pages. \<forall>n \<in> set (nodes_of kind data). recorded kind n rs))"

lemma pages_covered_mono:
  "pages_covered ask kind owner name cursor rs \<Longrightarrow> set rs \<subseteq> set rs' \<Longrightarrow> pages_covered ask kind owner name cursor rs'"
  unfolding pages_covered_def by (meson recorded_mono)

lemma ask_page_answer: "ask_page ask kind owner name cursor per = Inr (data, per') \<Longrightarrow> \<exists>p. ask (Items_Page kind owner name cursor p) = Inr data"
  by (auto simp: ask_page_def split: sum.splits if_splits)

lemma sweep_pages_step:
  assumes "sweep_pages src now_at from_at project kind cursor per fetched st = (thrown, st')" and "sweep_ok src st"
  shows "grows st st' \<and> sweep_ok src st'
    \<and> (thrown = None \<and> \<not> nonempty from_at \<longrightarrow>
         pages_covered (gh_ask src project) kind (owner_of project) (name_of project) cursor (sw_records st'))"
  using assms
proof (induction "MAX_ITEMS - fetched" arbitrary: cursor per fetched st rule: less_induct)
  case less
  show ?case
  proof (cases "ask_page (gh_ask src project) kind (owner_of project) (name_of project) cursor per")
    case (Inl e)
    then show ?thesis using less.prems by (auto simp: sweep_pages.simps [of _ _ _ _ _ cursor])
  next
    case (Inr dp)
    obtain data per' where dp: "dp = (data, per')" by (cases dp)
    let ?conn = "page_of kind data"
    obtain p where p: "gh_ask src project (Items_Page kind (owner_of project) (name_of project) cursor p) = Inr data"
      using ask_page_answer Inr dp by blast
    show ?thesis
    proof (cases "present ?conn")
      case False
      then have "all_pages (gh_ask src project) kind (owner_of project) (name_of project) cursor [data]"
        using p by (intro last_page) auto
      then have "pages_covered (gh_ask src project) kind (owner_of project) (name_of project) cursor rs" for rs
        using False by (auto simp: pages_covered_def nodes_of_def intro!: exI [of _ "[data]"])
      then show ?thesis using less.prems Inr dp False by (auto simp: sweep_pages.simps [of _ _ _ _ _ cursor])
    next
      case True
      let ?nodes = "list_of (member_of ?conn ''nodes'')"
      obtain res st1 where nodes: "sweep_nodes src now_at from_at project kind ?nodes st = (res, st1)" by fastforce
      note step = sweep_nodes_step [OF nodes less.prems(2)]
      let ?f = "fetched + length ?nodes"
      let ?go = "res = Page_Done \<and> more_pages ?conn \<and> ?f < MAX_ITEMS \<and> ?nodes \<noteq> []"
      show ?thesis
      proof (cases ?go)
        case go: True
        have call: "sweep_pages src now_at from_at project kind (cursor_of ?conn) per' ?f st1 = (thrown, st')"
          using less.prems(1) Inr dp True nodes go by (simp add: sweep_pages.simps [of _ _ _ _ _ cursor] Let_def)
        have "MAX_ITEMS - ?f < MAX_ITEMS - fetched" using go by (auto simp: neq_Nil_conv)
        from less.hyps [OF this call] step
        have rest_ok: "grows st1 st'" "sweep_ok src st'" "thrown = None \<and> \<not> nonempty from_at \<Longrightarrow>
            pages_covered (gh_ask src project) kind (owner_of project) (name_of project) (cursor_of ?conn) (sw_records st')"
          by simp_all
        have "pages_covered (gh_ask src project) kind (owner_of project) (name_of project) cursor (sw_records st')"
          if quiet: "thrown = None \<and> \<not> nonempty from_at"
        proof -
          obtain pages where pages: "all_pages (gh_ask src project) kind (owner_of project) (name_of project) (cursor_of ?conn) pages"
            "\<forall>d \<in> set pages. \<forall>n \<in> set (nodes_of kind d). recorded kind n (sw_records st')"
            using rest_ok(3) [OF quiet] by (auto simp: pages_covered_def)
          have "\<forall>n \<in> set (nodes_of kind data). recorded kind n (sw_records st')"
            using step go rest_ok(1) True by (auto simp: nodes_of_def grows_def intro: recorded_mono)
          then show ?thesis
            unfolding pages_covered_def using more_page [OF p True _ pages(1)] go pages(2)
            by (intro exI [of _ "data # pages"]) simp
        qed
        then show ?thesis using rest_ok(1,2) step grows_trans by blast
      next
        case stop: False
        have "pages_covered (gh_ask src project) kind (owner_of project) (name_of project) cursor (sw_records st1)"
          if "res = Page_Done" "\<not> more_pages ?conn"
        proof -
          have "all_pages (gh_ask src project) kind (owner_of project) (name_of project) cursor [data]"
            using p that by (intro last_page) auto
          then show ?thesis
            using step that(1) True unfolding pages_covered_def by (intro exI [of _ "[data]"]) (simp add: nodes_of_def)
        qed
        moreover have "st' = st1" "thrown = None \<longrightarrow> res = Stop_Reached \<or> res = Page_Done \<and> \<not> more_pages ?conn"
          using less.prems(1) Inr dp True nodes stop
          by (cases res; auto simp: sweep_pages.simps [of _ _ _ _ _ cursor] Let_def split: if_splits)+
        ultimately show ?thesis using step by blast
      qed
    qed
  qed
qed

section \<open>Incremental discovery\<close>

definition outcomes_ok :: "fetch_result \<Rightarrow> bool" where
  "outcomes_ok f \<longleftrightarrow>
     (fe_complete f \<longleftrightarrow> fe_error f = None)
     \<and> (\<forall>r \<in> set (fe_records f). ra_entity_kind r = ''change_request''
          \<and> (updated_at (ra_payload r) = [] \<or> Some (updated_at (ra_payload r)) \<le> fe_watermark f))"

lemma add_outcome_ok:
  assumes "outcomes_ok f" "\<forall>r. ro_record (snd co) = Some r \<longrightarrow> ra_entity_kind r = ''change_request''"
  shows "outcomes_ok (add_outcome co f)
    \<and> set (fe_records f) \<subseteq> set (fe_records (add_outcome co f))
    \<and> (fe_complete (add_outcome co f) \<longrightarrow> fe_complete f \<and> ro_error (snd co) = None)
    \<and> (\<forall>r. ro_record (snd co) = Some r \<longrightarrow> r \<in> set (fe_records (add_outcome co f)))"
proof (cases "ro_record (snd co)")
  case None
  then show ?thesis using assms(1)
    by (auto simp: add_outcome_def outcomes_ok_def nullish_def Let_def split: option.splits)
next
  case (Some r)
  define f1 where "f1 = (case ro_error (snd co) of None \<Rightarrow> f | Some e \<Rightarrow> f\<lparr>fe_complete := False, fe_error := nullish (fe_error f) (Some e)\<rparr>)"
  define t where "t = text_of (nullish (not_null (member_of (Some (ra_payload r)) ''updatedAt'')) (Some (JStr (pc_updated_at (fst co)))))"
  have f1: "outcomes_ok f1" "fe_records f1 = fe_records f" "fe_complete f1 \<Longrightarrow> fe_complete f \<and> ro_error (snd co) = None"
    using assms(1) by (auto simp: f1_def outcomes_ok_def nullish_def split: option.splits)
  have out: "add_outcome co f = f1\<lparr>fe_records := fe_records f1 @ [r], fe_watermark := (if t = [] then fe_watermark f1 else later_of (fe_watermark f1) t)\<rparr>"
    using Some by (simp add: add_outcome_def f1_def t_def Let_def)
  have "updated_at (ra_payload r) = [] \<or> updated_at (ra_payload r) = t"
    by (cases "member_of (Some (ra_payload r)) ''updatedAt''")
      (auto simp: updated_at_def t_def not_null_def nullish_def text_of_def)
  moreover have "fe_watermark f1 \<le> fe_watermark (add_outcome co f)" "t \<noteq> [] \<Longrightarrow> Some t \<le> fe_watermark (add_outcome co f)"
    using later_of_bounds by (auto simp: out)
  ultimately show ?thesis
    using f1 assms(2) Some by (auto simp: out outcomes_ok_def intro: order_trans)
qed

lemma read_candidate_record:
  "ro_record (read_candidate src now_at project owner name c) = Some r \<Longrightarrow>
   \<exists>data. gh_ask src project (Pull_By_Number owner name (pc_number c)) = Inr data
      \<and> ra_entity_kind r = ''change_request'' \<and> recorded Gh_Pull (the (pull_of data)) [r]"
  by (auto simp: read_candidate_def Let_def gh_record_def recorded_def completed_node split: sum.splits if_splits)

lemma read_candidate_total: "ro_error (read_candidate src now_at project owner name c) = None
   \<Longrightarrow> \<exists>r. ro_record (read_candidate src now_at project owner name c) = Some r"
  by (auto simp: read_candidate_def Let_def split: sum.splits if_splits)

text \<open>Every pull request the probe found was read.\<close>

definition pulls_read :: "github \<Rightarrow> string \<Rightarrow> string \<Rightarrow> raw_record list \<Rightarrow> bool" where
  "pulls_read src project bound rs \<longleftrightarrow>
     (\<exists>name cs. name_of project = Some name
        \<and> probe_pages (gh_ask src project) (owner_of project) name project bound MAX_PAGES None [] = Probe_Found cs
        \<and> (\<forall>c \<in> set cs. \<exists>data. gh_ask src project (Pull_By_Number (owner_of project) name (pc_number c)) = Inr data
              \<and> recorded Gh_Pull (the (pull_of data)) rs))"

lemma pulls_read_mono: "pulls_read src project bound rs \<Longrightarrow> set rs \<subseteq> set rs' \<Longrightarrow> pulls_read src project bound rs'"
  unfolding pulls_read_def by (meson recorded_mono)

lemma outcomes_fold:
  assumes "outcomes_ok f"
    and "\<forall>c \<in> set outs. \<forall>r. ro_record (snd c) = Some r \<longrightarrow> ra_entity_kind r = ''change_request''"
  shows "outcomes_ok (fold add_outcome outs f) \<and> set (fe_records f) \<subseteq> set (fe_records (fold add_outcome outs f))
    \<and> (fe_complete (fold add_outcome outs f) \<longrightarrow> fe_complete f \<and> (\<forall>c \<in> set outs. ro_error (snd c) = None))
    \<and> (\<forall>c \<in> set outs. \<forall>r. ro_record (snd c) = Some r \<longrightarrow> r \<in> set (fe_records (fold add_outcome outs f)))"
  using assms
proof (induction outs arbitrary: f)
  case (Cons co outs)
  have kind: "\<forall>r. ro_record (snd co) = Some r \<longrightarrow> ra_entity_kind r = ''change_request''"
    and kinds: "\<forall>c \<in> set outs. \<forall>r. ro_record (snd c) = Some r \<longrightarrow> ra_entity_kind r = ''change_request''"
    using Cons.prems(2) by simp_all
  note step = add_outcome_ok [OF Cons.prems(1) kind]
  define g where "g = add_outcome co f"
  have go: "fold add_outcome (co # outs) f = fold add_outcome outs g" by (simp add: g_def)
  note ih = Cons.IH [OF step [THEN conjunct1] kinds, folded g_def]
  have here: "set (fe_records f) \<subseteq> set (fe_records g)" "fe_complete g \<Longrightarrow> fe_complete f \<and> ro_error (snd co) = None"
    "ro_record (snd co) = Some r \<Longrightarrow> r \<in> set (fe_records g)" for r
    using step by (simp_all add: g_def)
  have sub: "set (fe_records g) \<subseteq> set (fe_records (fold add_outcome outs g))" using ih by blast
  have "set (fe_records f) \<subseteq> set (fe_records (fold add_outcome outs g))" using sub here(1) by blast
  moreover have "fe_complete (fold add_outcome outs g) \<longrightarrow> fe_complete f \<and> (\<forall>c \<in> set (co # outs). ro_error (snd c) = None)"
    using ih here(2) by simp
  moreover have "\<forall>c \<in> set (co # outs). \<forall>r. ro_record (snd c) = Some r \<longrightarrow> r \<in> set (fe_records (fold add_outcome outs g))"
    using ih here(3) sub by (simp add: subset_iff)
  ultimately show ?case using ih unfolding go by blast
qed simp

lemma incremental_ok:
  assumes "fetchIncrementalPullRequests src now_at project bound = Inr f"
  shows "outcomes_ok f \<and> (fe_complete f \<longrightarrow> pulls_read src project bound (fe_records f))"
proof -
  have none: "outcomes_ok (nothing_fetched\<lparr>fe_complete := False, fe_error := Some e\<rparr>)" "outcomes_ok nothing_fetched" for e
    by (simp_all add: outcomes_ok_def nothing_fetched_def)
  show ?thesis
  proof (cases "\<exists>name cs. name_of project = Some name \<and> owner_of project \<noteq> [] \<and> name \<noteq> []
      \<and> probe_pages (gh_ask src project) (owner_of project) name project bound MAX_PAGES None [] = Probe_Found cs")
    case False
    then show ?thesis
      using assms none by (auto simp: fetchIncrementalPullRequests_def split: option.splits if_splits probe_result.splits)
  next
    case True
    then obtain name cs where n: "name_of project = Some name" "owner_of project \<noteq> []" "name \<noteq> []"
      and cs: "probe_pages (gh_ask src project) (owner_of project) name project bound MAX_PAGES None [] = Probe_Found cs" by auto
    let ?read = "read_candidate src now_at project (owner_of project) name"
    let ?outs = "map (\<lambda>c. (c, ?read c)) cs"
    have f: "f = fold add_outcome ?outs nothing_fetched"
      using assms n cs by (simp add: fetchIncrementalPullRequests_def)
    have kinds: "\<forall>c \<in> set ?outs. \<forall>r. ro_record (snd c) = Some r \<longrightarrow> ra_entity_kind r = ''change_request''"
      using read_candidate_record by fastforce
    have all: "outcomes_ok f \<and> (fe_complete f \<longrightarrow> (\<forall>c \<in> set ?outs. ro_error (snd c) = None))
        \<and> (\<forall>c \<in> set ?outs. \<forall>r. ro_record (snd c) = Some r \<longrightarrow> r \<in> set (fe_records f))"
      using outcomes_fold [OF none(2) kinds] unfolding f by blast
    have "pulls_read src project bound (fe_records f)" if "fe_complete f"
      unfolding pulls_read_def
    proof (rule exI [of _ name], rule exI [of _ cs], intro conjI ballI)
      show "name_of project = Some name" "probe_pages (gh_ask src project) (owner_of project) name project bound MAX_PAGES None [] = Probe_Found cs"
        by (fact n(1), fact cs)
      fix c
      assume c: "c \<in> set cs"
      then have "ro_error (?read c) = None" using all that by auto
      then obtain r where r: "ro_record (?read c) = Some r" using read_candidate_total by blast
      then have "r \<in> set (fe_records f)" using all c by auto
      with read_candidate_record [OF r] show "\<exists>data. gh_ask src project (Pull_By_Number (owner_of project) name (pc_number c)) = Inr data
          \<and> recorded Gh_Pull (the (pull_of data)) (fe_records f)"
        using recorded_mono [of Gh_Pull _ "[r]" "fe_records f"] \<open>r \<in> set (fe_records f)\<close> by auto
    qed
    then show ?thesis using all by blast
  qed
qed

section \<open>The whole sweep\<close>

lemma sweep_kind_step:
  fixes now_at project :: string and from_at :: "string option" and kind :: gh_kind
  assumes ok: "sweep_ok src st"
  defines "st' \<equiv> sweep_kind src now_at from_at project kind st"
  shows "grows st st' \<and> sweep_ok src st'
    \<and> (sw_complete st' \<and> \<not> nonempty from_at \<longrightarrow>
         pages_covered (gh_ask src project) kind (owner_of project) (name_of project) None (sw_records st'))
    \<and> (\<not> sw_pr_incomplete st' \<and> kind = Gh_Pull \<and> nonempty from_at \<longrightarrow> pulls_read src project (the from_at) (sw_records st'))"
proof (cases "kind = Gh_Pull \<and> nonempty from_at")
  case probing: True
  show ?thesis
  proof (cases "fetchIncrementalPullRequests src now_at project (the from_at)")
    case (Inl e)
    then show ?thesis using probing ok
      by (auto simp: st'_def sweep_kind_def grows_def note_error_def sweep_ok_def nullish_def split: option.split)
  next
    case (Inr inc)
    note inc = incremental_ok [OF Inr]
    define st1 where "st1 = st\<lparr>sw_records := sw_records st @ fe_records inc, sw_latest := later_all (sw_latest st) (fe_watermark inc)\<rparr>"
    have st': "st' = (if fe_complete inc then st1
        else st1\<lparr>sw_pr_incomplete := True, sw_complete := False, sw_error := nullish (sw_error st1) (fe_error inc)\<rparr>)"
      using Inr probing by (simp add: st'_def sweep_kind_def st1_def Let_def)
    have "not_newer (fe_records inc) (fe_watermark inc)"
      using inc by (auto simp: outcomes_ok_def not_newer_def item_record_time)
    then have new: "not_newer (sw_records st1) (sw_latest st1)"
      using ok later_all_bounds(1) not_newer_mono by (auto simp: st1_def sweep_ok_def not_newer_later_all)
    have st1: "grows st st1" "sweep_ok src st1"
      using ok inc new later_all_bounds(1) [of "sw_latest st" "fe_watermark inc"]
      by (auto simp: grows_def sweep_ok_def st1_def outcomes_ok_def intro: order_trans)
    have "pulls_read src project (the from_at) (sw_records st1)" if "fe_complete inc"
      using inc that by (auto simp: st1_def intro: pulls_read_mono)
    moreover have "fe_error inc \<noteq> None" if "\<not> fe_complete inc" using inc that by (simp add: outcomes_ok_def)
    ultimately show ?thesis
      using st1 probing unfolding st' by (auto simp: grows_def sweep_ok_def nullish_def split: option.splits)
  qed
next
  case False
  obtain thrown st1 where run: "sweep_pages src now_at from_at project kind None PAGE_SIZE 0 st = (thrown, st1)" by fastforce
  have st': "st' = (case thrown of None \<Rightarrow> st1 | Some e \<Rightarrow> note_error (project @ '' '' @ gh_kind_text kind @ '': '' @ e) st1)"
    unfolding st'_def sweep_kind_def using False run by (auto split: option.split)
  note step = sweep_pages_step [OF run ok]
  show ?thesis
  proof (cases thrown)
    case None
    then show ?thesis using step False by (simp add: st') blast
  next
    case (Some e)
    have "grows st (note_error m st1) \<and> sweep_ok src (note_error m st1) \<and> \<not> sw_complete (note_error m st1)" for m
      using step grows_note [of st1 m] note_ok [of src st1 m] grows_trans [of st st1] by (auto simp: note_error_def)
    then show ?thesis using Some False by (simp add: st') blast
  qed
qed

text \<open>What each project's part of the sweep establishes, and that the rest of the sweep keeps it.\<close>

definition project_swept :: "github \<Rightarrow> string option \<Rightarrow> string \<Rightarrow> sweep \<Rightarrow> bool" where
  "project_swept src from_at project st \<longleftrightarrow>
     (sw_complete st \<and> \<not> nonempty from_at \<longrightarrow>
        (\<forall>kind. pages_covered (gh_ask src project) kind (owner_of project) (name_of project) None (sw_records st)))
     \<and> (\<not> sw_pr_incomplete st \<and> nonempty from_at \<longrightarrow> pulls_read src project (the from_at) (sw_records st))"

lemma project_swept_grows: "project_swept src from_at project st \<Longrightarrow> grows st st' \<Longrightarrow> project_swept src from_at project st'"
  unfolding project_swept_def grows_def by (metis pages_covered_mono pulls_read_mono)

lemma sweep_project_step:
  assumes "sweep_ok src st"
  shows "grows st (sweep_project src now_at from_at project st) \<and> sweep_ok src (sweep_project src now_at from_at project st)
    \<and> project_swept src from_at project (sweep_project src now_at from_at project st)"
proof -
  define a where "a = sweep_kind src now_at from_at project Gh_Issue st"
  define b where "b = sweep_kind src now_at from_at project Gh_Pull a"
  have b_eq: "sweep_project src now_at from_at project st = b" by (simp add: sweep_project_def a_def b_def)
  note first = sweep_kind_step [OF assms, of now_at from_at project Gh_Issue, folded a_def]
  then have "sweep_ok src a" by blast
  note second = sweep_kind_step [OF this, of now_at from_at project Gh_Pull, folded b_def]
  have ab: "grows a b" using second by blast
  have "pages_covered (gh_ask src project) kind (owner_of project) (name_of project) None (sw_records b)"
    if "sw_complete b" "\<not> nonempty from_at" for kind
  proof (cases kind)
    case Gh_Issue
    have "sw_complete a" using that(1) ab by (simp add: grows_def)
    then show ?thesis using first that(2) ab pages_covered_mono unfolding Gh_Issue grows_def by blast
  next
    case Gh_Pull
    then show ?thesis using second that by blast
  qed
  then show ?thesis using first second grows_trans [of st a b] unfolding b_eq project_swept_def by blast
qed

text \<open>The activity of a repository: every record is of that kind and not newer than the newest instant returned.\<close>

definition activity_ok :: "found_activity \<Rightarrow> bool" where
  "activity_ok found \<longleftrightarrow> (\<forall>r \<in> set (fst found). ra_entity_kind r = ''activity'') \<and> not_newer (fst found) (snd found)"

lemma activity_ok_append:
  "activity_ok (rs, l) \<Longrightarrow> activity_ok (rs', l) \<Longrightarrow> activity_ok (rs @ rs', l)"
  by (auto simp: activity_ok_def)

lemma activity_ok_later: "activity_ok (rs, l) \<Longrightarrow> l \<le> l' \<Longrightarrow> activity_ok (rs, l')"
  unfolding activity_ok_def by (auto intro: not_newer_mono)

lemmas record_times = record_time_def Let_def activity_record_def member_of_def text_of_def obj_get_Cons obj_get_Nil or_else_def

lemma activity_kind:
  "ra_entity_kind (push_record src now_at project e) = ''activity''"
  "ra_entity_kind (commit_record src now_at project d facts entry) = ''activity''"
  by (simp_all add: push_record_def commit_record_def activity_record_def)

lemma push_record_time: "record_time (push_record src now_at project e) = event_at e"
  by (simp add: push_record_def record_times)

lemma commit_record_time: "record_time (commit_record src now_at project d facts entry) = commit_at (ce_commit entry)"
  by (simp add: commit_record_def commit_payload_def record_times fact_members_def split: option.split)

lemma comment_record_time:
  "activityKind \<in> {''github_issue_comment'', ''github_pr_review_comment''} \<Longrightarrow> comment_at comment = Some t \<Longrightarrow>
     record_time (comment_record src now_at project activityKind idPrefix comment updated) = t"
  by (auto simp: comment_record_def record_times)

lemma add_comment_ok:
  assumes "activityKind \<in> {''github_issue_comment'', ''github_pr_review_comment''}" "activity_ok found"
  shows "activity_ok (add_comment src now_at project activityKind idPrefix comment found)"
proof (cases "comment_at comment")
  case None
  then show ?thesis using assms(2) by (simp add: add_comment_def)
next
  case (Some t)
  have "not_newer [comment_record src now_at project activityKind idPrefix comment t] (later_of (snd found) t)"
    using comment_record_time [OF assms(1) Some] later_of_bounds(2) by (simp add: not_newer_record)
  then show ?thesis using assms(2) Some
    by (auto simp: add_comment_def activity_ok_def not_newer_later comment_record_def activity_record_def)
qed

lemma add_comments_ok:
  "activityKind \<in> {''github_issue_comment'', ''github_pr_review_comment''} \<Longrightarrow> activity_ok found \<Longrightarrow>
     activity_ok (fold (add_comment src now_at project activityKind idPrefix) comments found)"
  by (induction comments arbitrary: found) (simp_all add: add_comment_ok)

lemma add_comments_result:
  "fold (add_comment src now_at project activityKind idPrefix) comments found = result \<Longrightarrow> activity_ok found \<Longrightarrow>
     activityKind \<in> {''github_issue_comment'', ''github_pr_review_comment''} \<Longrightarrow> activity_ok result"
  using add_comments_ok by metis

lemmas added_comments =
  add_comments_result [where activityKind = "''github_issue_comment''", simplified]
  add_comments_result [where activityKind = "''github_pr_review_comment''", simplified]

lemma comment_activity_ok:
  "fetchRepoCommentActivity src now_at project from_at rcl = Inr found \<Longrightarrow> activity_ok found"
proof -
  assume "fetchRepoCommentActivity src now_at project from_at rcl = Inr found"
  moreover have "activity_ok ([], None)" by (simp add: activity_ok_def)
  ultimately show ?thesis
    by (auto simp: fetchRepoCommentActivity_def rbind_eq_Inr split: option.splits if_splits dest!: added_comments)
qed

text \<open>The commits: no entry of the map is newer than the newest instant.\<close>

definition entries_ok :: "(string, commit_entry) jsmap \<times> string option \<Rightarrow> bool" where
  "entries_ok found \<longleftrightarrow> (\<forall>(sha, entry) \<in> set (fst found). Some (commit_at (ce_commit entry)) \<le> snd found)"

lemma entries_ok_mono: "entries_ok (m, l) \<Longrightarrow> l \<le> l' \<Longrightarrow> entries_ok (m, l')"
  unfolding entries_ok_def by (auto intro: order_trans)

lemma jm_set_members: "e \<in> set (jm_set k v m) \<Longrightarrow> e = (k, v) \<or> e \<in> set m"
  by (induction k v m rule: jm_set.induct) (auto split: if_splits)

lemma add_commit_ok:
  assumes "entries_ok found"
  shows "entries_ok (add_commit branch commit found) \<and> snd found \<le> snd (add_commit branch commit found)"
proof (cases "commit_sha_of commit = [] \<or> commit_at commit = []")
  case True
  then show ?thesis using assms by (auto simp: add_commit_def)
next
  case False
  let ?entry = "or_else (jm_get (fst found) (commit_sha_of commit)) \<lparr>ce_commit = commit, ce_branches = []\<rparr>"
  let ?latest = "later_of (snd found) (commit_at commit)"
  obtain entry' where out: "add_commit branch commit found = (jm_set (commit_sha_of commit) entry' (fst found), ?latest)"
      "ce_commit entry' = ce_commit ?entry"
    using False by (auto simp: add_commit_def Let_def split: option.split)
  have "Some (commit_at (ce_commit ?entry)) \<le> ?latest"
  proof (cases "jm_get (fst found) (commit_sha_of commit)")
    case None
    then show ?thesis using later_of_bounds(2) by simp
  next
    case (Some e)
    then have "Some (commit_at (ce_commit e)) \<le> snd found" using assms jm_get_Some_mem by (fastforce simp: entries_ok_def)
    then show ?thesis using Some later_of_bounds(1) order_trans by fastforce
  qed
  moreover have "entries_ok (fst found, ?latest)" using assms later_of_bounds(1) by (cases found) (auto intro: entries_ok_mono)
  ultimately show ?thesis using out later_of_bounds(1) by (auto simp: entries_ok_def dest: jm_set_members)
qed

lemma add_commits_ok:
  "entries_ok found \<Longrightarrow> entries_ok (fold (add_commit branch) commits found) \<and> snd found \<le> snd (fold (add_commit branch) commits found)"
proof (induction commits arbitrary: found)
  case (Cons c cs)
  note one = add_commit_ok [OF Cons.prems, of branch c]
  show ?case using one Cons.IH [OF one [THEN conjunct1]] by (auto intro: order_trans)
qed simp

lemma compare_pages_ok:
  "compare_pages read_page branch left pn found = Inr found' \<Longrightarrow> entries_ok found \<Longrightarrow> entries_ok found' \<and> snd found \<le> snd found'"
proof (induction read_page branch left pn found rule: compare_pages.induct)
  case (2 read_page branch left pn found)
  show ?case
  proof (cases "read_page pn")
    case (Inl e)
    then show ?thesis using 2(2,3) by (auto split: if_splits)
  next
    case (Inr xs)
    note added = add_commits_ok [OF 2(3), of "Some branch" xs]
    show ?thesis
    proof (cases "length xs < 100")
      case True
      then show ?thesis using 2(2) Inr added by (simp add: Let_def)
    next
      case False
      then show ?thesis using 2(1) [OF Inr refl False] 2(2) Inr added by (auto simp: Let_def intro: order_trans)
    qed
  qed
qed simp

lemma branches_ok:
  "foldM (\<lambda>branch found. compare_pages (f branch) branch n 1 found) branches found = Inr found' \<Longrightarrow> entries_ok found \<Longrightarrow>
     entries_ok found' \<and> snd found \<le> snd found'"
proof (induction branches arbitrary: found)
  case (Cons b bs)
  then obtain mid where mid: "compare_pages (f b) b n 1 found = Inr mid"
      "foldM (\<lambda>branch found. compare_pages (f branch) branch n 1 found) bs mid = Inr found'"
    by (auto simp: rbind_eq_Inr)
  note one = compare_pages_ok [OF mid(1) Cons.prems(2)]
  show ?case using one Cons.IH [OF mid(2) one [THEN conjunct1]] by (auto intro: order_trans)
qed simp

lemma pushes_bound:
  fixes l :: "string option"
  shows "l \<le> fold (\<lambda>e l. later_of l (event_at e)) es l
   \<and> (\<forall>e \<in> set es. Some (event_at e) \<le> fold (\<lambda>e l. later_of l (event_at e)) es l)"
proof (induction es arbitrary: l)
  case (Cons e es)
  show ?case using Cons [of "later_of l (event_at e)"] later_of_bounds [where l = l and t = "event_at e"] by (auto intro: order_trans)
qed simp

lemma repo_activity_ok:
  assumes "fetchRepoActivity src now_at project from_at rcl = Inr found"
  shows "activity_ok found"
proof -
  let ?d = "fetchDefaultBranch (owner_of project) (name_of project) rcl"
  from assms obtain events comments commentLatest commits bySha latest2 branches f where parts:
      "fetchRepoCommentActivity src now_at project from_at rcl = Inr (comments, commentLatest)"
    and compared: "foldM (\<lambda>branch found. compare_pages (f branch) branch MAX_COMPARE_PAGES 1 found) branches
        (fold (add_commit ?d) commits
          (jm_empty, later_all (fold (\<lambda>e l. later_of l (event_at e)) (filter (\<lambda>e. event_at e \<noteq> []) events) None) commentLatest))
      = Inr (bySha, latest2)"
    and found: "found = (map (push_record src now_at project) (filter (\<lambda>e. event_at e \<noteq> []) events) @ comments
        @ map (commit_record src now_at project ?d (fetchCommitFacts (gh_ask src project) project (map ce_commit (jm_values bySha)))) (jm_values bySha), latest2)"
    by (fastforce simp: fetchRepoActivity_def Let_def rbind_eq_Inr)
  define pushes latest1 where "pushes = filter (\<lambda>e. event_at e \<noteq> []) events"
    and "latest1 = fold (\<lambda>e l. later_of l (event_at e)) pushes None"
  have "entries_ok (jm_empty, later_all latest1 commentLatest)" by (simp add: entries_ok_def)
  note added = add_commits_ok [OF this, of ?d commits]
  note all = branches_ok [OF compared [folded pushes_def, folded latest1_def] added [THEN conjunct1]]
  have later: "later_all latest1 commentLatest \<le> latest2" using added all by auto
  have "activity_ok (map (push_record src now_at project) pushes, latest1)"
    using pushes_bound [of None pushes]
    by (auto simp: activity_ok_def not_newer_def push_record_time latest1_def activity_kind)
  then have "activity_ok (map (push_record src now_at project) pushes, latest2)"
    using later later_all_bounds(1) activity_ok_later order_trans by meson
  moreover have "activity_ok (comments, latest2)"
    using comment_activity_ok [OF parts] not_newer_mono [OF not_newer_later_all later] by (simp add: activity_ok_def)
  moreover have "activity_ok (map (commit_record src now_at project ?d facts) (jm_values bySha), latest2)" for facts
    using all by (fastforce simp: activity_ok_def not_newer_def commit_record_time jm_values_def entries_ok_def activity_kind)
  ultimately show ?thesis unfolding found pushes_def by (intro activity_ok_append)
qed

definition activity_swept :: "github \<Rightarrow> string \<Rightarrow> string option \<Rightarrow> string \<Rightarrow> sweep \<Rightarrow> bool" where
  "activity_swept src now_at from_at project st \<longleftrightarrow>
     (sw_complete st \<longrightarrow> (\<forall>rcl. gh_rest src project = Some rcl \<longrightarrow>
        (\<exists>rs l. fetchRepoActivity src now_at project from_at rcl = Inr (rs, l) \<and> set rs \<subseteq> set (sw_records st))))"

lemma activity_swept_grows:
  "activity_swept src now_at from_at project st \<Longrightarrow> grows st st' \<Longrightarrow> activity_swept src now_at from_at project st'"
  unfolding activity_swept_def grows_def by (meson subset_trans)

lemma sweep_activity_step:
  assumes "sweep_ok src st"
  shows "grows st (sweep_activity src now_at from_at project st) \<and> sweep_ok src (sweep_activity src now_at from_at project st)
    \<and> activity_swept src now_at from_at project (sweep_activity src now_at from_at project st)"
proof (cases "gh_rest src project")
  case None
  then show ?thesis using assms by (simp add: sweep_activity_def activity_swept_def)
next
  case (Some rcl)
  show ?thesis
  proof (cases "fetchRepoActivity src now_at project from_at rcl")
    case (Inl e)
    then show ?thesis using Some assms note_ok by (auto simp: sweep_activity_def activity_swept_def note_error_def grows_def)
  next
    case (Inr found)
    obtain rs l where found: "found = (rs, l)" by (cases found)
    have ok: "\<forall>r \<in> set rs. ra_entity_kind r = ''activity''" "not_newer rs l"
      using repo_activity_ok [OF Inr] by (simp_all add: found activity_ok_def)
    have "not_newer (sw_records st @ rs) (later_all (sw_latest st) l)"
      using assms ok(2) later_all_bounds(1) not_newer_mono by (auto simp: sweep_ok_def not_newer_later_all)
    then show ?thesis using Some Inr found assms ok(1) later_all_bounds(1) [of "sw_latest st" l]
      by (auto simp: sweep_activity_def activity_swept_def grows_def sweep_ok_def)
  qed
qed

lemma sweep_fold:
  assumes step: "\<And>x st. sweep_ok src st \<Longrightarrow> grows st (f x st) \<and> sweep_ok src (f x st) \<and> P x (f x st)"
    and keep: "\<And>x st st'. P x st \<Longrightarrow> grows st st' \<Longrightarrow> P x st'"
  shows "sweep_ok src st \<Longrightarrow> grows st (fold f xs st) \<and> sweep_ok src (fold f xs st) \<and> (\<forall>x \<in> set xs. P x (fold f xs st))"
proof (induction xs arbitrary: st)
  case (Cons x xs)
  note one = step [OF Cons.prems, of x]
  then have "sweep_ok src (f x st)" by blast
  note rest_ok = Cons.IH [OF this]
  then have "P x (fold f xs (f x st))" using one keep by blast
  then show ?case using one rest_ok grows_trans [of st "f x st"] by simp
qed simp

lemma run_sweep_ok:
  fixes now_at :: string and from_at :: "string option" and src :: github
  defines "st \<equiv> run_sweep src now_at from_at"
  shows "grows (new_sweep src) st \<and> sweep_ok src st
    \<and> (\<forall>p \<in> set (gh_projects src). project_swept src from_at p st \<and> activity_swept src now_at from_at p st)"
proof -
  define a where "a = fold (sweep_project src now_at from_at) (gh_projects src) (new_sweep src)"
  have st: "st = fold (sweep_activity src now_at from_at) (gh_projects src) a"
    by (simp add: st_def run_sweep_def a_def)
  have first: "grows (new_sweep src) a \<and> sweep_ok src a \<and> (\<forall>p \<in> set (gh_projects src). project_swept src from_at p a)"
    unfolding a_def by (rule sweep_fold [OF sweep_project_step project_swept_grows new_sweep_ok])
  have second: "grows a st \<and> sweep_ok src st \<and> (\<forall>p \<in> set (gh_projects src). activity_swept src now_at from_at p st)"
    unfolding st by (rule sweep_fold [OF sweep_activity_step activity_swept_grows]) (use first in auto)
  show ?thesis
    using first second grows_trans [of "new_sweep src" a st] project_swept_grows [of src from_at _ a st] by blast
qed

section \<open>What a caller may rely on\<close>

lemma fetch_sweep:
  "fe_records (fetch src now_at opts) = sw_records (run_sweep src now_at (if fo_full opts then None else fo_since opts))"
  "fe_complete (fetch src now_at opts) = sw_complete (run_sweep src now_at (if fo_full opts then None else fo_since opts))"
  "fe_error (fetch src now_at opts) = sw_error (run_sweep src now_at (if fo_full opts then None else fo_since opts))"
  by (simp_all add: fetch_def Let_def)

lemma full_sweep_covers:
  assumes "fe_complete (fetch src now_at opts)" and "fo_full opts"
  shows "gh_partial src = None \<and> fe_error (fetch src now_at opts) = None
    \<and> (\<forall>p \<in> set (gh_projects src). (\<forall>kind. pages_covered (gh_ask src p) kind (owner_of p) (name_of p) None (fe_records (fetch src now_at opts)))
        \<and> activity_swept src now_at None p (run_sweep src now_at None))"
proof -
  have c: "sw_complete (run_sweep src now_at None)" using assms by (simp add: fetch_sweep)
  note ok = run_sweep_ok [of src now_at None]
  have "gh_partial src = None" using ok c by (auto simp: grows_def new_sweep_def)
  moreover have "sw_error (run_sweep src now_at None) = None" using ok c by (simp add: sweep_ok_def)
  ultimately show ?thesis using ok c assms(2) by (simp add: fetch_sweep project_swept_def nonempty_def)
qed

text \<open>
  Claim C6. A full sweep of the GitHub source that calls itself complete has left nothing out: no project
  was omitted, for each project every page of the issues and of the pull requests was read, from the
  first to the one that says it is the last, each node of each page has its record, and the activity
  of each repository with a REST client was read without a failure and is recorded.
\<close>

theorem github_full_sweep_complete:
  assumes "fe_complete (fetch src now_at \<lparr>fo_since = w, fo_full = True\<rparr>)"
  defines "result \<equiv> fetch src now_at \<lparr>fo_since = w, fo_full = True\<rparr>"
  shows "gh_partial src = None \<and> fe_error result = None
    \<and> (\<forall>p \<in> set (gh_projects src). \<forall>kind. \<exists>pages.
         all_pages (gh_ask src p) kind (owner_of p) (name_of p) None pages
         \<and> (\<forall>data \<in> set pages. \<forall>n \<in> set (nodes_of kind data). recorded kind n (fe_records result)))
    \<and> (\<forall>p \<in> set (gh_projects src). \<forall>rcl. gh_rest src p = Some rcl \<longrightarrow>
         (\<exists>rs l. fetchRepoActivity src now_at p None rcl = Inr (rs, l) \<and> set rs \<subseteq> set (fe_records result)))"
  using full_sweep_covers [OF assms(1)] assms(1) unfolding result_def
  by (auto simp: pages_covered_def activity_swept_def fetch_sweep)

text \<open>
  Claim C7. The watermark is moved only over what need not be read again: when a sweep returns one, no
  project was omitted, every pull request its probe found was read, every tracker among its issues had
  its references looked up, and nothing it recorded is newer than the watermark: no issue, pull request,
  push, comment or commit.
\<close>

theorem github_watermark_safe:
  assumes "fe_watermark (fetch src now_at opts) = Some w"
  defines "from_at \<equiv> (if fo_full opts then None else fo_since opts)" and "rs \<equiv> fe_records (fetch src now_at opts)"
  shows "\<not> nonempty (gh_partial src)
    \<and> (nonempty from_at \<longrightarrow> (\<forall>p \<in> set (gh_projects src). pulls_read src p (the from_at) rs))
    \<and> (\<forall>r \<in> set rs. ra_entity_kind r = ''issue'' \<longrightarrow> refs_settled src (ra_payload r))
    \<and> (\<forall>r \<in> set rs. record_time r \<le> w)"
proof -
  define st where "st = run_sweep src now_at from_at"
  have "\<not> nonempty (gh_partial src) \<and> \<not> sw_pr_incomplete st \<and> \<not> sw_refs_incomplete st \<and> sw_latest st = Some w"
    using assms(1) by (simp add: fetch_def Let_def st_def from_at_def split: if_splits)
  moreover have "rs = sw_records st" by (simp add: rs_def fetch_sweep st_def from_at_def)
  moreover have "[] \<le> w" by (cases w) simp_all
  ultimately show ?thesis
    using run_sweep_ok [of src now_at from_at, folded st_def]
    by (auto simp: sweep_ok_def project_swept_def not_newer_def)
qed

text \<open>
  Claim C8. The engine and the GitHub source together: whenever a run of the engine on this source
  deletes anything, the run was full, and every page of every connection of every configured project had
  been read and recorded in it.
\<close>

theorem github_deletion_means_covered:
  assumes "src_fetch s = (\<lambda>o'. Inr (fetch gh now_at o'))"
    and "\<not> live_since (st_db st) (st_db (snd (syncSource jd s w opts ck st)))"
  shows "op_full opts \<and> gh_partial gh = None
    \<and> (\<forall>p \<in> set (gh_projects gh). \<forall>kind.
         pages_covered (gh_ask gh p) kind (owner_of p) (name_of p) None (fe_records (fetch gh now_at \<lparr>fo_since = w, fo_full = True\<rparr>)))"
proof -
  have "\<not> (op_full opts \<longrightarrow> (\<forall>r. src_fetch s \<lparr>fo_since = w, fo_full = True\<rparr> = Inr r \<longrightarrow> \<not> fe_complete r))"
    using assms(2) keepsD [where I = "live_since (st_db st)", OF alive.keeps_run_without_sweep] by (metis live_since_refl)
  then show ?thesis using full_sweep_covers [of gh now_at "\<lparr>fo_since = w, fo_full = True\<rparr>"] assms(1) by auto
qed

section \<open>Instances\<close>

text \<open>A repository with two pages of issues and one pull request.\<close>

definition sample_gh_node :: "string \<Rightarrow> int \<Rightarrow> string \<Rightarrow> json" where
  "sample_gh_node i n t = JObj [(''id'', JStr i), (''number'', JNum n), (''updatedAt'', JStr t)]"

definition sample_gh_page :: "string \<Rightarrow> json list \<Rightarrow> json \<Rightarrow> json" where
  "sample_gh_page connection nodes cursor =
     JObj [(''repository'', JObj [(connection, JObj [
       (''pageInfo'', JObj [(''hasNextPage'', JBool (cursor \<noteq> JNull)), (''endCursor'', cursor)]),
       (''nodes'', JArr nodes)])])]"

definition sample_gh_ask :: gql_client where
  "sample_gh_ask q =
     (case q of
        Items_Page Gh_Issue _ _ None _ \<Rightarrow>
          Inr (sample_gh_page ''issues'' [sample_gh_node ''i9'' 9 ''2024-03-04T00:00:00Z''] (JStr ''c1''))
      | Items_Page Gh_Issue _ _ (Some _) _ \<Rightarrow>
          Inr (sample_gh_page ''issues'' [sample_gh_node ''i8'' 8 ''2024-03-03T00:00:00Z''] JNull)
      | Items_Page Gh_Pull _ _ _ _ \<Rightarrow>
          Inr (sample_gh_page ''pullRequests'' [sample_gh_node ''p5'' 5 ''2024-03-02T00:00:00Z''] JNull)
      | Pulls_Probe _ _ _ \<Rightarrow>
          Inr (sample_gh_page ''pullRequests'' [sample_gh_node ''p5'' 5 ''2024-03-02T00:00:00Z''] JNull)
      | Pull_By_Number _ _ n \<Rightarrow>
          Inr (JObj [(''repository'', JObj [(''pullRequest'', sample_gh_node ''p5'' n ''2024-03-02T00:00:00Z'')])])
      | _ \<Rightarrow> Inl (Plain_Error ''not asked''))"

definition sample_github :: github where
  "sample_github =
     \<lparr>gh_descriptor = sample_source, gh_projects = [''a/b''], gh_ask = (\<lambda>_. sample_gh_ask), gh_rest = (\<lambda>_. None),
      gh_all_branches = True, gh_partial = None, gh_hash = (\<lambda>_. [])\<rparr>"

definition sample_full_fetch :: fetch_result where
  "sample_full_fetch = fetch sample_github ''t'' \<lparr>fo_since = None, fo_full = True\<rparr>"

lemma sample_full_fetch_values:
  "fe_complete sample_full_fetch" "map ra_external (fe_records sample_full_fetch) = [''i9'', ''i8'', ''p5'']"
  by code_simp+

theorem github_full_sweep_complete_witness:
  "fe_error sample_full_fetch = None \<and> map ra_external (fe_records sample_full_fetch) = [''i9'', ''i8'', ''p5'']"
  using github_full_sweep_complete [OF sample_full_fetch_values(1) [unfolded sample_full_fetch_def]] sample_full_fetch_values(2)
  by (simp add: sample_full_fetch_def)

definition sample_incremental_fetch :: fetch_result where
  "sample_incremental_fetch = fetch sample_github ''t'' \<lparr>fo_since = Some ''2024-03-02T00:00:00Z'', fo_full = False\<rparr>"

lemma sample_incremental_watermark: "fe_watermark sample_incremental_fetch = Some ''2024-03-04T00:00:00Z''"
  by code_simp

theorem github_watermark_safe_witness:
  "pulls_read sample_github ''a/b'' ''2024-03-02T00:00:00Z'' (fe_records sample_incremental_fetch)
   \<and> fe_watermark sample_incremental_fetch = Some ''2024-03-04T00:00:00Z''"
  using github_watermark_safe [OF sample_incremental_watermark [unfolded sample_incremental_fetch_def]] sample_incremental_watermark
  by (simp add: sample_incremental_fetch_def sample_github_def nonempty_def)

text \<open>A run of the engine on this source deletes the item of \<open>sample_store\<close>, which is on none of its pages.\<close>

definition sample_gh_source :: source where
  "sample_gh_source =
     \<lparr>src_descriptor = sample_source, src_fetch = (\<lambda>o'. Inr (fetch sample_github ''t'' o')), src_fetch_refresh = None,
      src_fetch_commit_files = None, src_normalize = (\<lambda>_. Inr None), src_version = ''v1''\<rparr>"

definition sample_later_clock :: clock where
  "sample_later_clock =
     \<lparr>ck_started = ''2024-03-06T00:00:00.000Z'', ck_swept = ''2024-03-06T00:00:01.000Z'',
      ck_finished = ''2024-03-06T00:00:02.000Z'', ck_files = ''2024-03-06T00:00:03.000Z''\<rparr>"

definition sample_gh_run :: store where
  "sample_gh_run = snd (syncSource date_parse sample_gh_source None (sample_opts False) sample_later_clock sample_store)"

lemma sample_gh_run_deletes:
  "map ir_deleted_at (jm_values (db_item (st_db sample_store))) = [None]"
  "list_all (\<lambda>r. ir_deleted_at r \<noteq> None) (jm_values (db_item (st_db sample_gh_run)))"
  by code_simp+

lemma sample_gh_not_live: "\<not> live_since (st_db sample_store) (st_db sample_gh_run)"
proof
  assume live: "live_since (st_db sample_store) (st_db sample_gh_run)"
  from sample_gh_run_deletes(1) obtain k r where "db_item (st_db sample_store) = [(k, r)]" "ir_deleted_at r = None"
    by (auto simp: jm_values_def map_eq_Cons_conv)
  then have "jm_get (db_item (st_db sample_store)) k = Some r" "ir_deleted_at r = None" by (simp_all add: jm_get_def)
  then have "\<exists>r'. jm_get (db_item (st_db sample_gh_run)) k = Some r' \<and> ir_deleted_at r' = None"
    using live unfolding live_since_def by blast
  then show False using sample_gh_run_deletes(2) jm_get_Some_value by (force simp: list_all_iff)
qed

theorem github_deletion_means_covered_witness:
  "pages_covered sample_gh_ask Gh_Issue ''a'' (Some ''b'') None (fe_records sample_full_fetch)
   \<and> live_items (st_db sample_gh_run) = []"
proof -
  have "src_fetch sample_gh_source = (\<lambda>o'. Inr (fetch sample_github ''t'' o'))" by (simp add: sample_gh_source_def)
  from github_deletion_means_covered [OF this sample_gh_not_live [unfolded sample_gh_run_def]]
  have "pages_covered (gh_ask sample_github ''a/b'') Gh_Issue (owner_of ''a/b'') (name_of ''a/b'') None (fe_records sample_full_fetch)"
    by (auto simp: sample_full_fetch_def sample_github_def)
  moreover have "owner_of ''a/b'' = ''a''" "name_of ''a/b'' = Some ''b''" by code_simp+
  moreover have "gh_ask sample_github ''a/b'' = sample_gh_ask" by (simp add: sample_github_def)
  moreover have "live_items (st_db sample_gh_run) = []" by code_simp
  ultimately show ?thesis by simp
qed

end
