(* ===== verification/Live_Delivery.thy ===== *)
theory Live_Delivery
  imports Live_Receiver "HOL-Library.Code_Target_Nat"
begin

text \<open>
  What the live stream guarantees.  The receiver is a transition system: webhooks, connections,
  disconnects, socket trouble, heartbeats, pruning, and profiles that arrive later, in any order.
  SQLite may refuse any statement of a delivery: an append, and then the delivery is answered 500 with
  the rows before it in the log, or the read for the broadcast after the delivery was acknowledged.  In
  both cases the rows are stored and announced to nobody.

  Beside the receiver a state carries, for the statements only, the log of all events ever appended, the
  sequence numbers of those no broadcast announced, and for each response the place of the log from which
  its stream starts and the length of the log when it was opened.

  Assumed of the environment, as guards of the steps: the clock does not run backwards between two
  deliveries, and an adapter stamps its events with the instant of receipt (proved of the GitHub adapter).
\<close>

section \<open>The transition system\<close>

record world =
  wd_rv :: receiver
  wd_log :: "live_event list"
  wd_missed :: "nat list"
  wd_from :: "nat list"
  wd_at :: "nat list"

definition init_world :: "receiver_config \<Rightarrow> world" where
  "init_world cfg = \<lparr>wd_rv = createLiveReceiver cfg open_live_store, wd_log = [], wd_missed = [], wd_from = [], wd_at = []\<rparr>"

abbreviation wd_store :: "world \<Rightarrow> live_store" where
  "wd_store w \<equiv> rv_store (wd_rv w)"

abbreviation wd_hub :: "world \<Rightarrow> hub" where
  "wd_hub w \<equiv> rv_hub (wd_rv w)"

definition stamps :: "webhook_route \<Rightarrow> bool" where
  "stamps route \<longleftrightarrow> (\<forall>parsed ctx events. wr_to_events route parsed ctx = Inr events \<longrightarrow>
     (\<forall>e \<in> set events. li_received_at e = cx_received_at ctx))"

text \<open>Whether a delivery with this reply got as far as its broadcasts.\<close>

definition announces :: "intake \<Rightarrow> reply \<Rightarrow> bool" where
  "announces req reply \<longleftrightarrow> fst reply \<noteq> 500 \<and> \<not> in_hydrate_fails req"

definition clock_ok :: "live_event list \<Rightarrow> intake \<Rightarrow> bool" where
  "clock_ok hist req \<longleftrightarrow> (\<forall>e \<in> set hist. li_received_at e \<le> req_text (iso_of_ms (in_now req)))"

definition new_events :: "live_store \<Rightarrow> live_store \<Rightarrow> live_event list" where
  "new_events st st' = map rowToEvent (drop (length (lv_rows st)) (lv_rows st'))"

text \<open>Where in the log the stream of a new connection starts.\<close>

definition resumes :: "(live_row \<Rightarrow> nat) \<Rightarrow> receiver_config \<Rightarrow> string \<Rightarrow> nat \<Rightarrow> receiver \<Rightarrow> bool" where
  "resumes bytes cfg nowIso cursor rv \<longleftrightarrow> hasCapacity (rv_hub rv) \<and>
     (let (backlog, matched) = replay_page bytes cfg nowIso cursor (rv_store rv) in
      reset_reason (rc_replay_limit cfg) cursor (maxSeq (rv_store rv)) backlog matched = None)"

definition stream_from :: "(live_row \<Rightarrow> nat) \<Rightarrow> receiver_config \<Rightarrow> string \<Rightarrow> nat \<Rightarrow> world \<Rightarrow> nat" where
  "stream_from bytes cfg nowIso cursor w =
     (if resumes bytes cfg nowIso cursor (wd_rv w) \<and> lv_rows (wd_store w) \<noteq> []
      then length (filter (\<lambda>e. ev_seq e \<le> cursor) (wd_log w)) else length (wd_log w))"

definition on_hub :: "(hub \<Rightarrow> hub) \<Rightarrow> world \<Rightarrow> world" where
  "on_hub f w = w\<lparr>wd_rv := (wd_rv w)\<lparr>rv_hub := f (wd_hub w)\<rparr>\<rparr>"

definition after_webhook :: "intake \<Rightarrow> reply \<Rightarrow> receiver \<Rightarrow> world \<Rightarrow> world" where
  "after_webhook req reply rv w =
     (let new = new_events (wd_store w) (rv_store rv) in
      w\<lparr>wd_rv := rv, wd_log := wd_log w @ new,
        wd_missed := wd_missed w @ (if announces req reply then [] else map ev_seq new)\<rparr>)"

definition after_connect ::
  "(chunk \<Rightarrow> nat) \<Rightarrow> (live_row \<Rightarrow> nat) \<Rightarrow> receiver_config \<Rightarrow> string \<Rightarrow> string option \<Rightarrow> string option \<Rightarrow> world \<Rightarrow> world"
where
  "after_connect grow bytes cfg nowIso lastEventId sinceParam w =
     w\<lparr>wd_rv := handleSse grow bytes cfg nowIso lastEventId sinceParam (wd_rv w),
       wd_from := wd_from w @ [stream_from bytes cfg nowIso (sse_cursor lastEventId sinceParam) w],
       wd_at := wd_at w @ [length (wd_log w)]\<rparr>"

inductive live_step ::
  "(chunk \<Rightarrow> nat) \<Rightarrow> (live_row \<Rightarrow> nat) \<Rightarrow> receiver_config \<Rightarrow> observer_options option \<Rightarrow> world \<Rightarrow> world \<Rightarrow> bool"
  for grow bytes cfg obs
where
  webhook: "handleWebhook grow cfg obs route req (wd_rv w) = (reply, rv') \<Longrightarrow> stamps route \<Longrightarrow>
    clock_ok (wd_log w) req \<Longrightarrow> live_step grow bytes cfg obs w (after_webhook req reply rv' w)"
| connect: "live_step grow bytes cfg obs w (after_connect grow bytes cfg nowIso lastEventId sinceParam w)"
| request_closed: "live_step grow bytes cfg obs w (on_hub (remove_sub sid) w)"
| response_error: "live_step grow bytes cfg obs w (on_hub (evict sid) w)"
| socket: "i < length (hb_out (wd_hub w)) \<Longrightarrow>
    live_step grow bytes cfg obs w
      (on_hub (update_res i (\<lambda>r. r\<lparr>rp_destroyed := destroyed, rp_buffered := buffered, rp_throws := throws\<rparr>)) w)"
| beat: "live_step grow bytes cfg obs w (on_hub (heartbeat grow) w)"
| shutdown: "live_step grow bytes cfg obs w (on_hub closeAll w)"
| pruned: "prune ttlDays maxRows now (wd_store w) = Inr (n, st') \<Longrightarrow>
    live_step grow bytes cfg obs w (w\<lparr>wd_rv := (wd_rv w)\<lparr>rv_store := st'\<rparr>\<rparr>)"
| profile: "obs = Some opts \<Longrightarrow> key \<in> set (ob_running (rv_observer (wd_rv w))) \<Longrightarrow>
    settle_job opts now key answer (wd_store w, rv_observer (wd_rv w)) = ((st', ob'), updates) \<Longrightarrow>
    live_step grow bytes cfg obs w
      (w\<lparr>wd_rv := \<lparr>rv_store = st', rv_hub = fold (broadcast grow True) updates (wd_hub w), rv_observer = ob'\<rparr>\<rparr>)"

section \<open>The invariant\<close>

text \<open>
  What a stream is owed that starts at place \<open>p\<close> of the log and was opened when the log had \<open>a\<close> events:
  the events from \<open>p\<close> on that were stored then, and of those that came later the ones announced.
\<close>

definition owed :: "live_event list \<Rightarrow> nat list \<Rightarrow> nat \<Rightarrow> nat \<Rightarrow> live_event list" where
  "owed hist missed p a = drop p (take a hist) @ filter (\<lambda>e. ev_seq e \<notin> set missed) (drop a hist)"

lemma owed_now [simp]: "owed hist missed p (length hist) = drop p hist"
  by (simp add: owed_def)

lemma owed_append:
  assumes "a \<le> length hist" and "\<forall>e \<in> set hist. ev_seq e \<notin> set ms"
  shows "owed (hist @ new) (missed @ ms) p a
    = owed hist missed p a @ filter (\<lambda>e. ev_seq e \<notin> set (missed @ ms)) new"
proof -
  have "filter (\<lambda>e. ev_seq e \<notin> set (missed @ ms)) (drop a hist) = filter (\<lambda>e. ev_seq e \<notin> set missed) (drop a hist)"
    using assms(2) by (intro filter_cong) (auto dest: in_set_dropD)
  then show ?thesis using assms(1) by (simp add: owed_def)
qed

definition delivered_ok :: "live_event list \<Rightarrow> nat list \<Rightarrow> nat list \<Rightarrow> nat list \<Rightarrow> hub \<Rightarrow> bool" where
  "delivered_ok hist missed from_list at_list h \<longleftrightarrow>
     length from_list = length (hb_out h) \<and> length at_list = length (hb_out h) \<and>
     (\<forall>i < length (hb_out h). at_list ! i \<le> length hist \<and>
        (\<exists>n. list_all2 same_but_actor (lives h i) (take n (owed hist missed (from_list ! i) (at_list ! i)))) \<and>
        (registered h i \<longrightarrow> list_all2 same_but_actor (lives h i) (owed hist missed (from_list ! i) (at_list ! i))))"

definition log_ok :: "live_store \<Rightarrow> live_event list \<Rightarrow> bool" where
  "log_ok st hist \<longleftrightarrow> live_ok st \<and> sorted_wrt (<) (map ev_seq hist) \<and> (\<forall>e \<in> set hist. ev_seq e < lv_next st) \<and>
     sorted_wrt (\<le>) (map li_received_at hist) \<and> (\<exists>n. map rowToEvent (lv_rows st) = drop n hist)"

definition world_ok :: "world \<Rightarrow> bool" where
  "world_ok w \<longleftrightarrow> hub_ok (wd_hub w) \<and> log_ok (wd_store w) (wd_log w) \<and>
     lasts_below (lv_next (wd_store w)) (wd_hub w) \<and> delivered_ok (wd_log w) (wd_missed w) (wd_from w) (wd_at w) (wd_hub w) \<and>
     0 < lv_next (wd_store w) \<and> (\<forall>n \<in> set (wd_missed w). n < lv_next (wd_store w))"

lemma world_ok_init: "world_ok (init_world cfg)"
  by (simp add: world_ok_def init_world_def createLiveReceiver_def new_hub_def hub_ok_def log_ok_def lasts_below_def
      delivered_ok_def live_ok_open jm_get_def jm_keys_def) (simp add: open_live_store_def)

text \<open>What an operation on the hub delivers keeps the streams in step with the log.\<close>

lemma delivered_ok_delivers:
  assumes ok: "delivered_ok hist missed from_list at_list h" and d: "delivers es h h'"
    and apart: "\<forall>e \<in> set hist. ev_seq e \<notin> set ms"
    and new: "list_all2 same_but_actor es (filter (\<lambda>e. ev_seq e \<notin> set (missed @ ms)) new)"
  shows "delivered_ok (hist @ new) (missed @ ms) from_list at_list h'"
  unfolding delivered_ok_def
proof (intro conjI allI impI)
  have len: "length (hb_out h') = length (hb_out h)" using d by (simp add: delivers_on_def same_frame_def)
  then show "length from_list = length (hb_out h')" "length at_list = length (hb_out h')"
    using ok by (simp_all add: delivered_ok_def)
  fix i
  assume "i < length (hb_out h')"
  then have i: "i < length (hb_out h)" by (simp add: len)
  let ?due = "owed hist missed (from_list ! i) (at_list ! i)"
  let ?said = "filter (\<lambda>e. ev_seq e \<notin> set (missed @ ms)) new"
  have fr: "at_list ! i \<le> length hist" and part: "\<exists>n. list_all2 same_but_actor (lives h i) (take n ?due)"
    and all: "registered h i \<Longrightarrow> list_all2 same_but_actor (lives h i) ?due"
    using ok i by (auto simp: delivered_ok_def)
  then show "at_list ! i \<le> length (hist @ new)" by simp
  note due = owed_append [OF fr apart, of new missed "from_list ! i"]
  show "\<exists>n. list_all2 same_but_actor (lives h' i)
      (take n (owed (hist @ new) (missed @ ms) (from_list ! i) (at_list ! i)))"
  proof (cases "registered h i")
    case True
    then obtain sid sub where sub: "jm_get (hb_subs h) sid = Some sub" "sb_res sub = i" by (auto simp: registered_def)
    then obtain n where n: "lives h' i = lives h i @ take n es"
      using d by (auto simp: delivers_on_def outcome_def split: option.splits) (metis order_refl take_all)+
    have "list_all2 same_but_actor (lives h i @ take n es) (?due @ take n ?said)"
      using all [OF True] new by (intro list_all2_appendI) (auto intro: list_all2_takeI)
    then have "list_all2 same_but_actor (lives h' i) (take (length ?due + n) (?due @ ?said))"
      by (simp add: n)
    then show ?thesis unfolding due by blast
  next
    case False
    with d i have "lives h' i = lives h i" by (simp add: delivers_on_def)
    moreover obtain n where "list_all2 same_but_actor (lives h i) (take n ?due)" using part by blast
    ultimately have "list_all2 same_but_actor (lives h' i) (take (min n (length ?due)) (?due @ ?said))"
      by (cases "n \<le> length ?due") (simp_all add: min_def)
    then show ?thesis unfolding due by blast
  qed
  assume "registered h' i"
  then obtain sid sub' where "jm_get (hb_subs h') sid = Some sub'" "sb_res sub' = i" by (auto simp: registered_def)
  moreover from this obtain sub where "jm_get (hb_subs h) sid = Some sub" "sb_res sub = i"
    using delivers_on_sub [OF d] by metis
  ultimately have "lives h' i = lives h i @ es" and "registered h i"
    using d by (auto simp: delivers_on_def outcome_def registered_def split: option.splits)
  then show "list_all2 same_but_actor (lives h' i) (owed (hist @ new) (missed @ ms) (from_list ! i) (at_list ! i))"
    using all new unfolding due by (auto intro: list_all2_appendI)
qed

lemma delivered_ok_quiet:
  "delivered_ok hist missed from_list at_list h \<Longrightarrow> delivers [] h h' \<Longrightarrow> delivered_ok hist missed from_list at_list h'"
  using delivered_ok_delivers [of hist missed from_list at_list h "[]" h' "[]" "[]"] by simp

section \<open>Webhooks\<close>

lemma observe_rows:
  "observe opts now ev (st, ob) = Inr (st', ob') \<Longrightarrow> lv_rows st' = lv_rows st \<and> lv_next st' = lv_next st"
  by (auto simp: observe_def Let_def seed_profile_def upsertActorProfile_def split: option.splits if_splits)

lemma announce_store:
  "lv_rows (rv_store (announce grow obs now p rv)) = lv_rows (rv_store rv)"
  "lv_next (rv_store (announce grow obs now p rv)) = lv_next (rv_store rv)"
  using observe_rows [of _ now "fst p" "rv_store rv" "rv_observer rv"]
  by (auto simp: announce_def Let_def case_prod_beta split: option.split sum.split)

lemma announce_hub: "rv_hub (announce grow obs now p rv) = broadcast grow False (snd p) (rv_hub rv)"
  by (auto simp: announce_def Let_def case_prod_beta split: option.split sum.split)

lemma announce_all:
  assumes "hub_ok (rv_hub rv)" and "sorted_wrt (<) (map (ev_seq \<circ> snd) ps)"
    and "ps = [] \<or> lasts_below (ev_seq (snd (hd ps))) (rv_hub rv)"
    and "lasts_below n (rv_hub rv)" and "\<forall>p \<in> set ps. ev_seq (snd p) < n"
  shows "hub_ok (rv_hub (fold (announce grow obs now) ps rv))
    \<and> delivers (map snd ps) (rv_hub rv) (rv_hub (fold (announce grow obs now) ps rv))
    \<and> lasts_below n (rv_hub (fold (announce grow obs now) ps rv))
    \<and> lv_rows (rv_store (fold (announce grow obs now) ps rv)) = lv_rows (rv_store rv)
    \<and> lv_next (rv_store (fold (announce grow obs now) ps rv)) = lv_next (rv_store rv)"
  using assms
proof (induction ps arbitrary: rv)
  case Nil
  then show ?case by (simp add: delivers_on_refl)
next
  case (Cons p ps)
  let ?rv = "announce grow obs now p rv"
  have one: "hub_ok (rv_hub ?rv)" "delivers [snd p] (rv_hub rv) (rv_hub ?rv)" "lasts_below (Suc (ev_seq (snd p))) (rv_hub ?rv)"
    using broadcast_new [of "rv_hub rv" "snd p" grow] Cons.prems by (auto simp: announce_hub)
  have "ps = [] \<or> lasts_below (ev_seq (snd (hd ps))) (rv_hub ?rv)"
    using one(3) Cons.prems(2) by (cases ps) (auto intro: lasts_below_mono)
  moreover have "lasts_below n (rv_hub ?rv)"
    using one(3) Cons.prems(5) by (auto intro: lasts_below_mono)
  ultimately have rest: "hub_ok (rv_hub (fold (announce grow obs now) ps ?rv))
    \<and> delivers (map snd ps) (rv_hub ?rv) (rv_hub (fold (announce grow obs now) ps ?rv))
    \<and> lasts_below n (rv_hub (fold (announce grow obs now) ps ?rv))
    \<and> lv_rows (rv_store (fold (announce grow obs now) ps ?rv)) = lv_rows (rv_store ?rv)
    \<and> lv_next (rv_store (fold (announce grow obs now) ps ?rv)) = lv_next (rv_store ?rv)"
    using one Cons.prems by (intro Cons.IH) auto
  then show ?case
    using delivers_trans [OF Cons.prems(1) one(2), of "map snd ps"] by (simp add: announce_store)
qed

text \<open>The appends of one delivery, up to the first SQLite refuses.\<close>

lemma append_all_ok:
  assumes "live_ok st" and "append_all req i es st = ((evs, st'), ok)"
  shows "live_ok st' \<and> lv_next st \<le> lv_next st' \<and> lv_profiles st' = lv_profiles st
    \<and> (\<exists>rows. lv_rows st' = lv_rows st @ rows \<and> evs = map rowToEvent rows
        \<and> (\<forall>r \<in> set rows. lv_next st \<le> ev_seq r \<and> (\<exists>e \<in> set es. li_received_at r = req_text (li_received_at e))))"
  using assms
proof (induction es arbitrary: i st evs)
  case Nil
  then show ?case by (auto intro: exI [of _ "[]"])
next
  case (Cons e es)
  show ?case
  proof (cases "in_append_fails req i")
    case True
    with Cons.prems show ?thesis by (auto intro: exI [of _ "[]"])
  next
    case False
    obtain res st1 where one: "append_event (in_burn req) e i (in_created_at req) st = (res, st1)" by fastforce
    obtain evs' where rest: "append_all req (Suc i) es st1 = ((evs', st'), ok)"
      and evs: "evs = (case res of None \<Rightarrow> evs' | Some ev \<Rightarrow> ev # evs')"
      using Cons.prems(2) False one by (auto simp: Let_def split: prod.splits)
    have ok1: "live_ok st1" "lv_next st \<le> lv_next st1" and none: "res = None \<Longrightarrow> lv_rows st1 = lv_rows st"
      using live_append_order [OF Cons.prems(1) one] by auto
    have prof: "lv_profiles st1 = lv_profiles st"
      using one by (auto simp: append_event_cases split: if_splits)
    obtain rows where rows: "live_ok st'" "lv_next st1 \<le> lv_next st'" "lv_profiles st' = lv_profiles st1"
      "lv_rows st' = lv_rows st1 @ rows" "evs' = map rowToEvent rows"
      "\<forall>r \<in> set rows. lv_next st1 \<le> ev_seq r \<and> (\<exists>e \<in> set es. li_received_at r = req_text (li_received_at e))"
      using Cons.IH [OF ok1(1) rest] by blast
    show ?thesis
    proof (cases res)
      case None
      with rows ok1 none evs prof show ?thesis by (fastforce intro: exI [of _ rows])
    next
      case (Some ev)
      then have row: "lv_rows st1 = lv_rows st @ [new_row e i (in_created_at req) (lv_next st)]"
        "ev = rowToEvent (new_row e i (in_created_at req) (lv_next st))" "lv_next st1 = Suc (lv_next st)"
        using one by (auto simp: append_event_cases split: if_splits)
      have "li_received_at (new_row e i (in_created_at req) (lv_next st)) = req_text (li_received_at e)"
        by (simp add: new_row_def inputToEvent_def stored_input_def live_event.defs live_input.defs)
      with rows ok1 row evs prof Some show ?thesis
        by (intro conjI exI [of _ "new_row e i (in_created_at req) (lv_next st) # rows"]) fastforce+
    qed
  qed
qed

lemma live_ok_cong: "lv_rows st' = lv_rows st \<Longrightarrow> lv_next st' = lv_next st \<Longrightarrow> live_ok st \<Longrightarrow> live_ok st'"
  by (simp add: live_ok_def)

lemma handleWebhook_cases:
  assumes "handleWebhook grow cfg obs route req rv = (reply, rv')"
  obtains "rv' = rv" and "fst reply \<noteq> 202"
  | rawBody parsed d events where "in_body req = Body_Bytes rawBody" and "wr_verify route rawBody (in_headers req) = Inr True"
      and "in_parse req rawBody = Some parsed" and "wr_delivery_id route (in_headers req) = Some d"
      and "wr_to_events route parsed (intake_ctx route req d) = Inr events"
      and "store_and_announce grow obs req (filter (in_scope cfg) events) rv = (reply, rv')"
  using assms unfolding handleWebhook_def Let_def
  by (auto split: body_read.splits sum.splits option.splits if_splits)

lemma sorted_wrt_append_all:
  "sorted_wrt P xs \<Longrightarrow> sorted_wrt P ys \<Longrightarrow> (\<And>x y. x \<in> set xs \<Longrightarrow> y \<in> set ys \<Longrightarrow> P x y) \<Longrightarrow> sorted_wrt P (xs @ ys)"
  by (simp add: sorted_wrt_append)

lemma sorted_wrt_all: "(\<And>x y. x \<in> set xs \<Longrightarrow> y \<in> set xs \<Longrightarrow> P x y) \<Longrightarrow> sorted_wrt P xs"
  by (induction xs) auto

text \<open>The log grows by rows that follow it.\<close>

lemma log_ok_append:
  assumes ok: "log_ok st hist" and st': "live_ok st'" "lv_next st \<le> lv_next st'" "lv_rows st' = lv_rows st @ rows"
    and rows: "\<forall>r \<in> set rows. lv_next st \<le> ev_seq r" "\<forall>r \<in> set rows. li_received_at r = received"
    and now: "\<forall>e \<in> set hist. li_received_at e \<le> received"
  shows "log_ok st' (hist @ map rowToEvent rows)"
proof -
  have rec: "li_received_at (rowToEvent r) = li_received_at r" for r by (simp add: rowToEvent_def live_event.defs)
  have seqs: "sorted_wrt (<) (map ev_seq rows)" "\<forall>r \<in> set rows. ev_seq r < lv_next st'"
    using st' by (auto simp: live_ok_def sorted_wrt_append)
  obtain n where n: "map rowToEvent (lv_rows st) = drop n hist" using ok by (auto simp: log_ok_def)
  have "sorted_wrt (<) (map ev_seq (hist @ map rowToEvent rows))"
    using ok rows(1) seqs by (force simp: log_ok_def sorted_wrt_append comp_def)
  moreover have "\<forall>e \<in> set (hist @ map rowToEvent rows). ev_seq e < lv_next st'"
    using ok seqs st'(2) by (auto simp: log_ok_def)
  moreover have "sorted_wrt (\<le>) (map li_received_at (hist @ map rowToEvent rows))"
    unfolding map_append
  proof (rule sorted_wrt_append_all)
    show "sorted_wrt (\<le>) (map li_received_at hist)" using ok by (simp add: log_ok_def)
    show "sorted_wrt (\<le>) (map li_received_at (map rowToEvent rows))"
      using rows(2) by (intro sorted_wrt_all) (auto simp: rec)
  qed (use rows(2) now in \<open>auto simp: rec\<close>)
  moreover have "map rowToEvent (lv_rows st') = drop (min n (length hist)) (hist @ map rowToEvent rows)"
    using n by (simp add: st'(3) min_def)
  ultimately show ?thesis using st'(1) unfolding log_ok_def by blast
qed

lemma log_ok_cong: "lv_rows st' = lv_rows st \<Longrightarrow> lv_next st' = lv_next st \<Longrightarrow> log_ok st hist \<Longrightarrow> log_ok st' hist"
  unfolding log_ok_def by (simp add: live_ok_def)

text \<open>
  One delivery: the new rows are appended, and, when it gets that far, each of them is announced in its
  order as the event it reads back as.
\<close>

lemma store_and_announce_run:
  assumes fine: "announces req reply" and ok: "live_ok (rv_store rv)" "lasts_below (lv_next (rv_store rv)) (rv_hub rv)"
    and run: "store_and_announce grow obs req es rv = (reply, rv')"
  obtains rows st evs where "live_ok st" and "lv_next (rv_store rv) \<le> lv_next st" and "lv_rows st = lv_rows (rv_store rv) @ rows"
    and "\<forall>r \<in> set rows. lv_next (rv_store rv) \<le> ev_seq r \<and> (\<exists>e \<in> set es. li_received_at r = req_text (li_received_at e))"
    and "reply = (202, ok_body)" and "list_all2 same_but_actor evs (map rowToEvent rows)"
    and "rv' = fold (announce grow obs (in_observe_at req)) (zip (map rowToEvent rows) evs) (rv\<lparr>rv_store := st\<rparr>)"
    and "sorted_wrt (<) (map ev_seq evs)" and "evs = [] \<or> lasts_below (ev_seq (hd evs)) (rv_hub rv)"
    and "\<forall>e \<in> set evs. ev_seq e < lv_next st"
proof -
  obtain appended st flag where app: "append_all req 0 es (rv_store rv) = ((appended, st), flag)" by (metis prod.exhaust)
  have flag: flag using run fine by (auto simp: store_and_announce_def app announces_def Let_def split: if_splits)
  obtain rows where st: "live_ok st" "lv_next (rv_store rv) \<le> lv_next st" "lv_rows st = lv_rows (rv_store rv) @ rows"
    "appended = map rowToEvent rows"
    "\<forall>r \<in> set rows. lv_next (rv_store rv) \<le> ev_seq r \<and> (\<exists>e \<in> set es. li_received_at r = req_text (li_received_at e))"
    using append_all_ok [OF ok(1) app] by blast
  let ?b = "hydrateEvents st (in_hydrate_at req) appended"
  have rv': "reply = (202, ok_body)" "rv' = fold (announce grow obs (in_observe_at req)) (zip appended ?b) (rv\<lparr>rv_store := st\<rparr>)"
    using run flag fine by (simp_all add: store_and_announce_def app announces_def Let_def)
  have seqs: "map ev_seq ?b = map ev_seq rows"
    by (simp add: hydrateEvents_seqs st(4) comp_def)
  have bound: "\<forall>e \<in> set ?b. ev_seq e \<in> ev_seq ` set rows"
    using arg_cong [OF seqs, of set] by force
  have "sorted_wrt (<) (map ev_seq ?b)"
    using st(1,3) unfolding seqs by (auto simp: live_ok_def sorted_wrt_append)
  moreover have "?b = [] \<or> lasts_below (ev_seq (hd ?b)) (rv_hub rv)"
    using bound hd_in_set [of ?b] st(5) ok(2) by (fastforce intro: lasts_below_mono)
  moreover have "\<forall>e \<in> set ?b. ev_seq e < lv_next st"
    using bound st(1,3) by (fastforce simp: live_ok_def)
  ultimately show ?thesis
    using that [of st rows ?b] st rv' hydrateEvents_same [of st "in_hydrate_at req" appended] by simp
qed

lemma zip_snd_seqs: "length xs = length es \<Longrightarrow> map (ev_seq \<circ> snd) (zip xs es) = map ev_seq es"
  by (simp flip: map_map)

lemma zip_hd_snd: "length xs = length es \<Longrightarrow> es \<noteq> [] \<Longrightarrow> snd (hd (zip xs es)) = hd es"
  by (cases xs; cases es) auto

lemma store_and_announce_ok:
  assumes ok: "live_ok (rv_store rv)" "hub_ok (rv_hub rv)" "lasts_below (lv_next (rv_store rv)) (rv_hub rv)"
    and run: "store_and_announce grow obs req es rv = (reply, rv')"
  obtains rows evs where "lv_rows (rv_store rv') = lv_rows (rv_store rv) @ rows"
    and "\<forall>r \<in> set rows. lv_next (rv_store rv) \<le> ev_seq r \<and> (\<exists>e \<in> set es. li_received_at r = req_text (li_received_at e))"
    and "live_ok (rv_store rv')" and "lv_next (rv_store rv) \<le> lv_next (rv_store rv')" and "hub_ok (rv_hub rv')"
    and "lasts_below (lv_next (rv_store rv')) (rv_hub rv')" and "delivers evs (rv_hub rv) (rv_hub rv')"
    and "list_all2 same_but_actor evs (if announces req reply then map rowToEvent rows else [])"
proof (cases "announces req reply")
  case False
  obtain appended st flag where app: "append_all req 0 es (rv_store rv) = ((appended, st), flag)" by (metis prod.exhaust)
  have "rv' = rv\<lparr>rv_store := st\<rparr>"
    using run False by (auto simp: store_and_announce_def app announces_def Let_def split: if_splits)
  moreover have "lasts_below (lv_next st) (rv_hub rv)"
    using ok(3) append_all_ok [OF ok(1) app] by (blast intro: lasts_below_mono)
  ultimately show ?thesis using append_all_ok [OF ok(1) app] ok(2) False that [of _ "[]"] by (auto simp: delivers_on_refl)
next
  case True
  note fine = True
  show ?thesis
proof (rule store_and_announce_run [OF fine ok(1,3) run])
  fix rows st evs
  assume st: "live_ok st" "lv_next (rv_store rv) \<le> lv_next st" "lv_rows st = lv_rows (rv_store rv) @ rows"
    "\<forall>r \<in> set rows. lv_next (rv_store rv) \<le> ev_seq r \<and> (\<exists>e \<in> set es. li_received_at r = req_text (li_received_at e))"
    "reply = (202, ok_body)" "list_all2 same_but_actor evs (map rowToEvent rows)"
    and rv': "rv' = fold (announce grow obs (in_observe_at req)) (zip (map rowToEvent rows) evs) (rv\<lparr>rv_store := st\<rparr>)"
    and evs: "sorted_wrt (<) (map ev_seq evs)" "evs = [] \<or> lasts_below (ev_seq (hd evs)) (rv_hub rv)"
      "\<forall>e \<in> set evs. ev_seq e < lv_next st"
  have len: "length (map rowToEvent rows) = length evs" using st(6) by (simp add: list_all2_lengthD)
  have "lasts_below (lv_next st) (rv_hub rv)" using ok(3) st(2) by (rule lasts_below_mono)
  moreover have "zip (map rowToEvent rows) evs = []
      \<or> lasts_below (ev_seq (snd (hd (zip (map rowToEvent rows) evs)))) (rv_hub rv)"
    using evs(2) zip_hd_snd [OF len] by (cases "evs = []") simp_all
  moreover have "\<forall>p \<in> set (zip (map rowToEvent rows) evs). ev_seq (snd p) < lv_next st"
    using evs(3) by (auto dest: set_zip_rightD)
  ultimately have a: "hub_ok (rv_hub rv') \<and> delivers evs (rv_hub rv) (rv_hub rv') \<and> lasts_below (lv_next st) (rv_hub rv')
      \<and> lv_rows (rv_store rv') = lv_rows st \<and> lv_next (rv_store rv') = lv_next st"
    using announce_all [of "rv\<lparr>rv_store := st\<rparr>" "zip (map rowToEvent rows) evs" "lv_next st" grow obs "in_observe_at req"]
      ok(2) evs(1) len zip_snd_seqs [OF len] unfolding rv' by simp
  moreover have "live_ok (rv_store rv')" using live_ok_cong [OF _ _ st(1), of "rv_store rv'"] a by simp
  ultimately show ?thesis
    by (intro that [of rows evs]) (use st fine in auto)
qed
qed

lemma new_events_rows: "lv_rows st' = lv_rows st @ rows \<Longrightarrow> new_events st st' = map rowToEvent rows"
  by (simp add: new_events_def)

lemma webhook_ok:
  assumes ok: "world_ok w" and run: "handleWebhook grow cfg obs route req (wd_rv w) = (reply, rv')"
    and "stamps route" and "clock_ok (wd_log w) req"
  shows "world_ok (after_webhook req reply rv' w)"
proof (cases rule: handleWebhook_cases [OF run])
  case 1
  then have "after_webhook req reply rv' w = w" by (simp add: after_webhook_def new_events_def)
  with ok show ?thesis by simp
next
  case (2 rawBody parsed d events)
  have w: "live_ok (wd_store w)" "hub_ok (wd_hub w)" "lasts_below (lv_next (wd_store w)) (wd_hub w)" "log_ok (wd_store w) (wd_log w)"
    "delivered_ok (wd_log w) (wd_missed w) (wd_from w) (wd_at w) (wd_hub w)"
    "0 < lv_next (wd_store w)" "\<forall>n \<in> set (wd_missed w). n < lv_next (wd_store w)"
    using ok by (simp_all add: world_ok_def log_ok_def)
  obtain rows evs where rows: "lv_rows (rv_store rv') = lv_rows (wd_store w) @ rows"
    "\<forall>r \<in> set rows. lv_next (wd_store w) \<le> ev_seq r \<and> (\<exists>e \<in> set (filter (in_scope cfg) events). li_received_at r = req_text (li_received_at e))"
    "live_ok (rv_store rv')" "lv_next (wd_store w) \<le> lv_next (rv_store rv')" "hub_ok (rv_hub rv')"
    "lasts_below (lv_next (rv_store rv')) (rv_hub rv')" "delivers evs (wd_hub w) (rv_hub rv')"
    "list_all2 same_but_actor evs (if announces req reply then map rowToEvent rows else [])"
    using store_and_announce_ok [OF w(1-3) 2(6)] by metis
  let ?new = "map rowToEvent rows" and ?ms = "if announces req reply then [] else map ev_seq (map rowToEvent rows)"
  have seqs: "\<forall>e \<in> set ?new. lv_next (wd_store w) \<le> ev_seq e \<and> ev_seq e < lv_next (rv_store rv')"
    using rows(1-3) by (auto simp: live_ok_def)
  have "li_received_at e = iso_of_ms (in_now req)" if "e \<in> set events" for e
    using assms(3) 2(5) that by (auto simp: stamps_def intake_ctx_def)
  then have "\<forall>r \<in> set rows. li_received_at r = req_text (iso_of_ms (in_now req))" using rows(2) by fastforce
  then have "log_ok (rv_store rv') (wd_log w @ ?new)"
    using w(4) rows assms(4) by (intro log_ok_append [where rows = rows]) (auto simp: clock_ok_def)
  moreover have "delivered_ok (wd_log w @ ?new) (wd_missed w @ ?ms) (wd_from w) (wd_at w) (rv_hub rv')"
  proof (rule delivered_ok_delivers [OF w(5) rows(7)])
    show "\<forall>e \<in> set (wd_log w). ev_seq e \<notin> set ?ms"
    proof (intro ballI notI)
      fix e
      assume e: "e \<in> set (wd_log w)" and "ev_seq e \<in> set ?ms"
      then have "ev_seq e \<in> ev_seq ` set ?new" by (simp only: set_map list.set(1) empty_iff split: if_splits)
      then obtain x where "x \<in> set ?new" "ev_seq e = ev_seq x" by blast
      then show False using e w(4) seqs by (fastforce simp: log_ok_def)
    qed
    have "filter (\<lambda>e. ev_seq e \<notin> set (wd_missed w @ ?ms)) ?new = (if announces req reply then ?new else [])"
      using w(7) seqs by (auto simp: filter_id_conv filter_empty_conv) force
    then show "list_all2 same_but_actor evs (filter (\<lambda>e. ev_seq e \<notin> set (wd_missed w @ ?ms)) ?new)"
      using rows(8) by simp
  qed
  moreover have "\<forall>n \<in> set (wd_missed w @ ?ms). n < lv_next (rv_store rv')"
    using w(7) rows(4) seqs by auto
  ultimately show ?thesis
    using rows w(6) by (simp add: world_ok_def after_webhook_def new_events_rows Let_def)
qed

section \<open>Connections\<close>

lemma frame_event_eq [simp]:
  "frame_event Retry_Hint = None" "frame_event (Live_Frame e) = Some e" "frame_event (Update_Frame e) = None"
  "frame_event (Reset_Frame reason n) = None" "frame_event Heartbeat = None" "frame_event (Json_Body j) = None"
  by (simp_all add: frame_event_def)

lemma outcome_quiet:
  "outcome [] sid h h' \<Longrightarrow> jm_get (hb_subs h) sid = Some sub \<Longrightarrow> lives h' (sb_res sub) = lives h (sb_res sub)"
  by (simp add: outcome_def split: option.splits)

lemma delivers_on_write:
  assumes "i < length (hb_out h)" and "rp_body (f (hb_out h ! i)) = rp_body (hb_out h ! i) @ cs"
    and "List.map_filter frame_event cs = []"
  shows "delivers_on S [] h (update_res i f h)"
proof -
  have "lives (update_res i f h) j = lives h j" for j
    using lives_update_res [of f h i cs j] assms by simp
  then show ?thesis by (auto simp: delivers_on_def same_frame_def intro: outcome_same)
qed

text \<open>What a connection leaves alone: every other stream.\<close>

definition others_kept :: "nat \<Rightarrow> hub \<Rightarrow> hub \<Rightarrow> bool" where
  "others_kept i h h' \<longleftrightarrow> length (hb_out h') = length (hb_out h) \<and>
     (\<forall>j < length (hb_out h). j \<noteq> i \<longrightarrow> lives h' j = lives h j \<and> (registered h' j \<longrightarrow> registered h j))"

lemma others_kept_refl: "others_kept i h h"
  by (simp add: others_kept_def)

lemma others_kept_trans: "others_kept i h h1 \<Longrightarrow> others_kept i h1 h2 \<Longrightarrow> others_kept i h h2"
  by (simp add: others_kept_def)

lemma others_kept_delivers: "delivers_on S [] h h' \<Longrightarrow> others_kept i h h'"
  unfolding others_kept_def
proof (intro conjI allI impI)
  assume d: "delivers_on S [] h h'"
  then show "length (hb_out h') = length (hb_out h)" by (simp add: delivers_on_def same_frame_def)
  fix j
  assume j: "j < length (hb_out h)"
  show "registered h j" if "registered h' j" using delivers_on_registered [OF d that] .
  show "lives h' j = lives h j"
  proof (cases "registered h j")
    case True
    then obtain sid sub where sub: "jm_get (hb_subs h) sid = Some sub" "sb_res sub = j" by (auto simp: registered_def)
    have "outcome [] sid h h'" using d by (cases "sid \<in> S") (simp_all add: delivers_on_def)
    with sub show ?thesis using outcome_quiet by blast
  qed (use d j in \<open>simp add: delivers_on_def\<close>)
qed

lemma others_kept_replay:
  assumes d: "delivers_on {sid} es h h'" and ok: "hub_ok h" and sub: "jm_get (hb_subs h) sid = Some sub" "sb_res sub = i"
  shows "others_kept i h h'"
  unfolding others_kept_def
proof (intro conjI allI impI)
  show "length (hb_out h') = length (hb_out h)" using d by (simp add: delivers_on_def same_frame_def)
  fix j
  assume j: "j < length (hb_out h)" "j \<noteq> i"
  show "registered h j" if "registered h' j" using delivers_on_registered [OF d that] .
  show "lives h' j = lives h j"
  proof (cases "registered h j")
    case True
    then obtain a suba where a: "jm_get (hb_subs h) a = Some suba" "sb_res suba = j" by (auto simp: registered_def)
    then have "a \<noteq> sid" using sub j(2) by auto
    then have "outcome [] a h h'" using d by (simp add: delivers_on_def)
    with a show ?thesis using outcome_quiet by blast
  qed (use d j in \<open>simp add: delivers_on_def\<close>)
qed

lemma open_response_ok:
  assumes "hub_ok h" and "open_response h = (i, h1)"
  shows "hub_ok h1 \<and> i = length (hb_out h) \<and> hb_out h1 = hb_out h @ [fresh_response] \<and> hb_subs h1 = hb_subs h
    \<and> lives h1 i = [] \<and> \<not> registered h1 i \<and> hasCapacity h1 = hasCapacity h \<and> hb_next h1 = hb_next h"
proof -
  have h1: "i = length (hb_out h)" "h1 = h\<lparr>hb_out := hb_out h @ [fresh_response]\<rparr>"
    using assms(2) by (auto simp: open_response_def)
  have "hub_ok h1" using assms(1) unfolding hub_ok_def h1(2) by (fastforce simp: nth_append)
  moreover have "\<not> registered h1 i"
    using assms(1) by (auto simp: registered_def h1 dest: hub_ok_res_bound)
  ultimately show ?thesis
    by (simp add: h1 lives_def fresh_response_def List.map_filter_def hasCapacity_def)
qed

lemma add_sub_ok:
  assumes ok: "hub_ok h" and i: "i < length (hb_out h)" "\<not> registered h i" "\<not> rp_ended (hb_out h ! i)"
    and cap: "hasCapacity h" and below: "lasts_below n h" "c < n" and add: "add_sub i c h = (sid, h')"
  shows "hub_ok h' \<and> lasts_below n h' \<and> others_kept i h h' \<and> hb_out h' = hb_out h
    \<and> jm_get (hb_subs h') sid = Some \<lparr>sb_id = sid, sb_res = i, sb_last = c\<rparr>"
proof -
  let ?sub = "\<lparr>sb_id = hb_next h, sb_res = i, sb_last = c\<rparr>"
  have h': "sid = hb_next h" "h' = h\<lparr>hb_subs := jm_set (hb_next h) ?sub (hb_subs h), hb_next := Suc (hb_next h), hb_heartbeat := True\<rparr>"
    using add by (auto simp: add_sub_def Let_def)
  have fresh: "jm_get (hb_subs h) (hb_next h) = None"
    using ok by (cases "jm_get (hb_subs h) (hb_next h)") (auto simp: hub_ok_def)
  then have subs: "jm_set (hb_next h) ?sub (hb_subs h) = hb_subs h @ [(hb_next h, ?sub)]"
    by (simp add: jm_set_absent jm_get_None_iff)
  have gets: "jm_get (hb_subs h') a = (if a = hb_next h then Some ?sub else jm_get (hb_subs h) a)" for a
    by (simp add: h' jsmap_simps)
  have proj: "hb_out h' = hb_out h" "hb_next h' = Suc (hb_next h)" "hb_heartbeat h'"
    "hb_max_connections h' = hb_max_connections h" "lives h' j = lives h j" for j
    by (simp_all add: h' lives_def)
  have nonempty: "hb_subs h' \<noteq> []" and len: "length (hb_subs h') = Suc (length (hb_subs h))"
    and dist: "distinct (jm_keys (hb_subs h'))"
    using ok by (simp_all add: h' hub_ok_def) (simp_all add: subs)
  have no: "sb_res suba \<noteq> i" if "jm_get (hb_subs h) a = Some suba" for a suba
    using i(2) that by (auto simp: registered_def)
  have each: "a < hb_next h' \<and> sb_res sub < length (hb_out h') \<and> \<not> rp_ended (hb_out h' ! sb_res sub)"
    if "jm_get (hb_subs h') a = Some sub" for a sub
    using that ok i by (auto simp: gets proj hub_ok_def less_Suc_eq split: if_splits)
  have inj: "a = b" if "jm_get (hb_subs h') a = Some suba" "jm_get (hb_subs h') b = Some subb" "sb_res suba = sb_res subb" for a b suba subb
    using that hub_ok_res_inj [OF ok, of a suba b subb] no [of a suba] no [of b subb] by (auto simp: gets split: if_splits)
  have "hub_ok h'"
    unfolding hub_ok_def using each inj dist nonempty len cap by (simp add: proj hasCapacity_def)
  moreover have "lasts_below n h'" using below by (auto simp: lasts_below_def gets)
  moreover have "others_kept i h h'"
    by (auto simp: others_kept_def registered_def gets proj split: if_splits)
  moreover have "jm_get (hb_subs h') sid = Some \<lparr>sb_id = sid, sb_res = i, sb_last = c\<rparr>"
    using gets [of sid] h'(1) by simp
  ultimately show ?thesis by (simp add: proj)
qed


text \<open>The fresh response of a connection, once the head was written.\<close>

lemma head_ok:
  assumes ok: "hub_ok h" and i: "i < length (hb_out h)" "hb_out h ! i = fresh_response" "\<not> registered h i"
  shows "hub_ok (update_res i (writeSseHead grow) h) \<and> others_kept i h (update_res i (writeSseHead grow) h)
    \<and> rp_body (hb_out (update_res i (writeSseHead grow) h) ! i) = [Retry_Hint]
    \<and> \<not> rp_ended (hb_out (update_res i (writeSseHead grow) h) ! i)
    \<and> \<not> rp_destroyed (hb_out (update_res i (writeSseHead grow) h) ! i)
    \<and> lives (update_res i (writeSseHead grow) h) i = []"
proof -
  have "hub_ok (update_res i (writeSseHead grow) h)"
    by (rule hub_ok_update_res [OF ok]) (auto simp: writeSseHead_def res_write_def split: if_splits)
  moreover have "delivers_on UNIV [] h (update_res i (writeSseHead grow) h)"
    by (rule delivers_on_write [where cs = "[Retry_Hint]"]) (simp_all add: i writeSseHead_def res_write_def fresh_response_def)
  ultimately show ?thesis
    using i by (auto intro: others_kept_delivers
        simp: update_res_def writeSseHead_def res_write_def fresh_response_def lives_def)
qed

lemma hasCapacity_update_res [simp]: "hasCapacity (update_res i f h) = hasCapacity h"
  by (simp add: hasCapacity_def)

lemma lasts_below_update_res [simp]: "lasts_below n (update_res i f h) = lasts_below n h"
  by (simp add: lasts_below_def)

lemma sendReset_ok:
  assumes ok: "hub_ok h" and i: "i < length (hb_out h)" "hb_out h ! i = fresh_response" "\<not> registered h i"
    and cap: "hasCapacity h" and below: "lasts_below n h" "newest < n"
  shows "hub_ok (sendReset grow i reason newest h) \<and> lasts_below n (sendReset grow i reason newest h)
    \<and> others_kept i h (sendReset grow i reason newest h) \<and> lives (sendReset grow i reason newest h) i = []
    \<and> rp_body (hb_out (sendReset grow i reason newest h) ! i) = [Retry_Hint, Reset_Frame reason newest]"
proof -
  let ?h1 = "update_res i (writeSseHead grow) h"
  obtain sid h2 where add: "add_sub i newest ?h1 = (sid, h2)" by fastforce
  note h1 = head_ok [OF ok i, of grow]
  have h2: "hub_ok h2 \<and> lasts_below n h2 \<and> others_kept i ?h1 h2 \<and> hb_out h2 = hb_out ?h1
      \<and> jm_get (hb_subs h2) sid = Some \<lparr>sb_id = sid, sb_res = i, sb_last = newest\<rparr>"
    using h1 i cap below by (intro add_sub_ok [OF _ _ _ _ _ _ _ add]) auto
  let ?h3 = "update_res i (res_write grow (Reset_Frame reason newest)) h2"
  have res: "sendReset grow i reason newest h = ?h3" by (simp add: sendReset_def Let_def add)
  have body: "rp_body (hb_out ?h3 ! i) = [Retry_Hint, Reset_Frame reason newest]"
    using h1 h2 i by (simp add: update_res_def res_write_def)
  have "hub_ok ?h3"
    by (rule hub_ok_update_res) (use h2 in \<open>auto simp: res_write_def split: if_splits\<close>)
  moreover have "delivers_on UNIV [] h2 ?h3"
    by (rule delivers_on_write [where cs = "[Reset_Frame reason newest]"])
       (use h1 h2 i in \<open>simp_all add: res_write_def\<close>)
  then have "others_kept i h ?h3"
    using h1 h2 by (blast intro: others_kept_trans others_kept_delivers)
  moreover have "lives ?h3 i = []" using body by (simp add: lives_def frame_event_def List.map_filter_def)
  ultimately show ?thesis using h2 body unfolding res by simp
qed

lemma hub_ok_update_unregistered:
  assumes "hub_ok h" and "\<not> registered h i"
  shows "hub_ok (update_res i f h)"
proof -
  have "(hb_out h)[i := x] ! sb_res sub = hb_out h ! sb_res sub" if "jm_get (hb_subs h) sid = Some sub" for sid sub x
    using assms(2) that by (metis nth_list_update_neq registered_def)
  with assms(1) show ?thesis unfolding hub_ok_def by (simp add: update_res_def)
qed

text \<open>A resumed stream carries its backlog in order; one that is still open carries all of it.\<close>

lemma resumed_ok:
  assumes ok: "hub_ok h" and i: "i < length (hb_out h)" "hb_out h ! i = fresh_response" "\<not> registered h i"
    and cap: "hasCapacity h" and below: "lasts_below n h" "cursor < n"
    and backlog: "sorted_wrt (<) (map ev_seq backlog)" "\<forall>e \<in> set backlog. cursor < ev_seq e \<and> ev_seq e < n"
    and h': "h' = (let h1 = update_res i (writeSseHead grow) h; (sid, h2) = add_sub i cursor h1;
               h3 = fold (send grow False sid) backlog h2 in
           if length backlog < matched then
             (let h4 = remove_sub sid h3 in
              if rp_ended (hb_out h4 ! i) then h4 else update_res i res_end h4)
           else h3)"
  shows "hub_ok h' \<and> lasts_below n h' \<and> others_kept i h h' \<and> (\<exists>k. lives h' i = take k backlog)
    \<and> (registered h' i \<longrightarrow> lives h' i = backlog \<and> matched \<le> length backlog)"
proof -
  let ?h1 = "update_res i (writeSseHead grow) h"
  obtain sid h2 where add: "add_sub i cursor ?h1 = (sid, h2)" by fastforce
  note h1 = head_ok [OF ok i, of grow]
  have h2: "hub_ok h2 \<and> lasts_below n h2 \<and> others_kept i ?h1 h2 \<and> hb_out h2 = hb_out ?h1
      \<and> jm_get (hb_subs h2) sid = Some \<lparr>sb_id = sid, sb_res = i, sb_last = cursor\<rparr>"
    using h1 i cap below by (intro add_sub_ok [OF _ _ _ _ _ _ _ add]) auto
  let ?h3 = "fold (send grow False sid) backlog h2"
  have h3: "hub_ok ?h3 \<and> delivers_on {sid} backlog h2 ?h3 \<and> lasts_below n ?h3"
    by (rule replay_ok) (use h2 backlog in auto)
  have kept3: "others_kept i h ?h3"
    using others_kept_replay [of sid backlog h2 ?h3] h1 h2 h3 by (auto intro: others_kept_trans)
  have uniq: "a = sid" if "jm_get (hb_subs h2) a = Some s" "sb_res s = i" for a s
    using hub_ok_res_inj [of h2 a s sid "\<lparr>sb_id = sid, sb_res = i, sb_last = cursor\<rparr>"] h2 that by simp
  have live2: "lives h2 i = []" using h1 h2 by (simp add: lives_def)
  have prefix: "\<exists>k. lives ?h3 i = take k backlog" and all: "registered ?h3 i \<Longrightarrow> lives ?h3 i = backlog"
  proof -
    have o3: "outcome backlog sid h2 ?h3" using h3 by (simp add: delivers_on_def)
    then show "\<exists>k. lives ?h3 i = take k backlog"
      using h2 live2 by (auto simp: outcome_def split: option.splits) (metis order_refl take_all)+
    assume "registered ?h3 i"
    then obtain a suba where a: "jm_get (hb_subs ?h3) a = Some suba" "sb_res suba = i" by (auto simp: registered_def)
    then obtain sub2 where "jm_get (hb_subs h2) a = Some sub2" "sb_res sub2 = i"
      using delivers_on_sub [of "{sid}" backlog h2 ?h3 a suba] h3 by auto
    then have "a = sid" by (rule uniq)
    with a o3 h2 live2 show "lives ?h3 i = backlog" by (auto simp: outcome_def)
  qed
  show ?thesis
  proof (cases "length backlog < matched")
    case False
    then have "h' = ?h3" by (simp add: h' Let_def add)
    with h3 kept3 prefix all False show ?thesis by auto
  next
    case True
    let ?h4 = "remove_sub sid ?h3"
    have h4: "hub_ok ?h4" "lasts_below n ?h4" "others_kept i h ?h4"
      using h3 kept3 by (auto intro: hub_ok_remove lasts_below_remove others_kept_trans others_kept_delivers [OF delivers_on_remove])
    have gone: "\<not> registered ?h4 i"
    proof
      assume "registered ?h4 i"
      then obtain a suba where a: "a \<noteq> sid" "jm_get (hb_subs ?h3) a = Some suba" "sb_res suba = i"
        by (auto simp: registered_def jsmap_simps split: if_splits)
      then obtain sub2 where "jm_get (hb_subs h2) a = Some sub2" "sb_res sub2 = i"
        using delivers_on_sub [of "{sid}" backlog h2 ?h3 a suba] h3 by auto
      with a(1) show False using uniq by blast
    qed
    have "i < length (hb_out ?h4)" using h4(3) i(1) by (simp add: others_kept_def)
    have "hub_ok (update_res i res_end ?h4)"
      by (rule hub_ok_update_unregistered [OF h4(1) gone])
    moreover have "delivers_on UNIV [] ?h4 (update_res i res_end ?h4)"
      by (rule delivers_on_write [where cs = "[]"]) (use \<open>i < length (hb_out ?h4)\<close> in \<open>simp_all add: res_end_def List.map_filter_def\<close>)
    moreover have "lives (update_res i res_end ?h4) i = lives ?h3 i"
      using lives_update_res [of res_end ?h4 i "[]" i] \<open>i < length (hb_out ?h4)\<close>
      by (simp add: res_end_def List.map_filter_def lives_def)
    ultimately have "hub_ok h' \<and> lasts_below n h' \<and> others_kept i h h' \<and> \<not> registered h' i \<and> lives h' i = lives ?h3 i"
      using True h4 gone others_kept_trans [OF h4(3) others_kept_delivers]
      by (auto simp: h' Let_def add lives_def)
    with prefix show ?thesis by simp
  qed
qed

text \<open>What is left of the log after a cursor.\<close>

lemma drop_upto_cursor:
  "sorted_wrt (<) (map ev_seq hist) \<Longrightarrow>
   drop (length (filter (\<lambda>e. ev_seq e \<le> c) hist)) hist = filter (\<lambda>e. c < ev_seq e) hist"
proof (induction hist)
  case (Cons e hist)
  show ?case
  proof (cases "ev_seq e \<le> c")
    case False
    then have "\<forall>x \<in> set (e # hist). c < ev_seq x" using Cons.prems by fastforce
    then have "filter (\<lambda>e. ev_seq e \<le> c) (e # hist) = []" "filter (\<lambda>e. c < ev_seq e) (e # hist) = e # hist"
      by (auto simp: filter_empty_conv filter_id_conv not_le)
    then show ?thesis by simp
  qed (use Cons in auto)
qed simp

lemma retained_split:
  assumes "log_ok st hist"
  obtains old where "hist = old @ map rowToEvent (lv_rows st)"
    and "\<forall>e \<in> set old. \<forall>r \<in> set (lv_rows st). ev_seq e < ev_seq r"
proof -
  obtain m where m: "map rowToEvent (lv_rows st) = drop m hist" using assms by (auto simp: log_ok_def)
  then have h: "hist = take m hist @ map rowToEvent (lv_rows st)" by simp
  have "sorted_wrt (<) (map ev_seq (take m hist @ map rowToEvent (lv_rows st)))"
    using assms h by (simp add: log_ok_def)
  then show ?thesis using that [OF h] by (auto simp: sorted_wrt_append comp_def simp del: append_take_drop_id)
qed

lemma maxSeq_foldr: "foldr max xs (0::nat) = (if xs = [] then 0 else Max (set xs))"
  by (induction xs) (auto simp: Max_insert)

lemma maxSeq_ge: "r \<in> set (lv_rows st) \<Longrightarrow> ev_seq r \<le> maxSeq st"
  by (auto simp: maxSeq_def maxSeq_foldr)

lemma maxSeq_less: "live_ok st \<Longrightarrow> 0 < lv_next st \<Longrightarrow> maxSeq st < lv_next st"
  by (auto simp: maxSeq_def maxSeq_foldr live_ok_def)

lemma resume_rows:
  assumes log: "log_ok st hist" and ne: "lv_rows st \<noteq> []"
    and first: "\<And>r rs. filter (\<lambda>r. cursor < ev_seq r) (lv_rows st) = r # rs \<Longrightarrow> ev_seq r \<le> cursor + 1"
  shows "map rowToEvent (filter (\<lambda>r. cursor < ev_seq r) (lv_rows st)) = filter (\<lambda>e. cursor < ev_seq e) hist"
proof -
  obtain old where h: "hist = old @ map rowToEvent (lv_rows st)"
    and old: "\<forall>e \<in> set old. \<forall>r \<in> set (lv_rows st). ev_seq e < ev_seq r"
    by (rule retained_split [OF log])
  obtain r where r: "r \<in> set (lv_rows st)" "ev_seq r \<le> cursor + 1"
  proof (cases "filter (\<lambda>r. cursor < ev_seq r) (lv_rows st)")
    case Nil
    then show ?thesis using that [OF hd_in_set [OF ne]] hd_in_set [OF ne] by (auto simp: filter_empty_conv not_less intro: le_SucI)
  next
    case (Cons r rs)
    then have "r \<in> set (filter (\<lambda>r. cursor < ev_seq r) (lv_rows st))" by simp
    then show ?thesis using that [of r] first [OF Cons] by simp
  qed
  then have "\<forall>e \<in> set old. \<not> cursor < ev_seq e" using old by fastforce
  then have "filter (\<lambda>e. cursor < ev_seq e) old = []" by (simp add: filter_empty_conv)
  then show ?thesis by (simp add: h filter_map comp_def)
qed

text \<open>The backlog of a connection that is resumed.\<close>

lemma replay_backlog:
  assumes log: "log_ok st hist" and page: "replay_page bytes cfg nowIso cursor st = (backlog, matched)"
    and resume: "reset_reason (rc_replay_limit cfg) cursor (maxSeq st) backlog matched = None"
  defines "p \<equiv> (if lv_rows st \<noteq> [] then length (filter (\<lambda>e. ev_seq e \<le> cursor) hist) else length hist)"
  obtains n where "list_all2 same_but_actor backlog (take n (drop p hist))"
    and "matched \<le> length backlog \<Longrightarrow> length (drop p hist) \<le> n"
    and "sorted_wrt (<) (map ev_seq backlog)" and "\<forall>e \<in> set backlog. cursor < ev_seq e \<and> ev_seq e < lv_next st"
proof -
  let ?opts = "\<lparr>po_desc = False, po_limit = rc_replay_limit cfg, po_max_bytes = rc_replay_max_bytes cfg,
       po_after = Some cursor, po_before = None\<rparr>"
  let ?Q = "filter (\<lambda>r. cursor < ev_seq r) (lv_rows st)"
  have ok: "live_ok st" using log by (simp add: log_ok_def)
  have Q: "page_rows st ?opts = ?Q" by (auto simp: page_rows_def in_bounds_def intro: filter_cong)
  obtain n where n: "backlog = hydrateEvents st nowIso (map rowToEvent (take n ?Q))" "n \<le> length ?Q"
    "n = 0 \<longrightarrow> ?Q = [] \<or> rc_replay_limit cfg = 0" "length backlog < matched \<longleftrightarrow> n < length ?Q"
    using live_page_spec [OF ok page [unfolded replay_page_def], unfolded Q]
    by (elim exE conjE, intro that) (simp_all only: page_options.select_convs)
  have cases: "cursor \<le> maxSeq st" "\<not> (case backlog of [] \<Rightarrow> False | e # _ \<Rightarrow> cursor + 1 < ev_seq e)" "matched \<le> rc_replay_limit cfg"
    using resume by (auto simp: reset_reason_def split: if_splits)
  have some: "?Q = [] \<or> backlog \<noteq> []"
  proof (cases "n = 0")
    case True
    then have "matched = 0 \<or> ?Q = []" using n(3) cases(3) by auto
    then show ?thesis using n(4) True by auto
  next
    case False
    then have "?Q = [] \<or> 0 < length backlog" using n(2) by (simp add: n(1))
    then show ?thesis by auto
  qed
  have seqs: "map ev_seq backlog = map ev_seq (take n ?Q)"
    by (simp add: n(1) hydrateEvents_seqs comp_def)
  have owed: "map rowToEvent ?Q = drop p hist"
  proof (cases "lv_rows st = []")
    case False
    have "ev_seq r \<le> cursor + 1" if "?Q = r # rs" for r rs
    proof -
      from that some obtain e es where "backlog = e # es" by (cases backlog) auto
      with cases(2) seqs that show ?thesis by (cases n) auto
    qed
    then have "map rowToEvent ?Q = filter (\<lambda>e. cursor < ev_seq e) hist"
      by (intro resume_rows [OF log False]) blast
    then show ?thesis using False log by (simp add: p_def drop_upto_cursor log_ok_def)
  qed (simp add: p_def)
  show ?thesis
  proof (rule that [of n])
    show "list_all2 same_but_actor backlog (take n (drop p hist))"
      using hydrateEvents_same [of st nowIso "map rowToEvent (take n ?Q)"] by (simp add: n(1) take_map flip: owed)
    show "length (drop p hist) \<le> n" if "matched \<le> length backlog"
      using that n(2,4) by (simp flip: owed)
    have sub: "set (take n ?Q) \<subseteq> {r \<in> set (lv_rows st). cursor < ev_seq r}" by (auto dest: in_set_takeD)
    show "sorted_wrt (<) (map ev_seq backlog)"
      using ok unfolding seqs by (auto simp: live_ok_def sorted_wrt_map intro!: sorted_wrt_take sorted_wrt_filter)
    show "\<forall>e \<in> set backlog. cursor < ev_seq e \<and> ev_seq e < lv_next st"
    proof
      fix e
      assume "e \<in> set backlog"
      then have "ev_seq e \<in> set (map ev_seq (take n ?Q))" by (simp flip: seqs)
      then show "cursor < ev_seq e \<and> ev_seq e < lv_next st" using sub ok by (auto simp: live_ok_def)
    qed
  qed
qed

lemma delivered_ok_snoc:
  assumes ok: "delivered_ok hist missed from_list at_list h" and len: "length (hb_out h1) = Suc (length (hb_out h))"
    and h1: "\<And>j. j < length (hb_out h) \<Longrightarrow> lives h1 j = lives h j \<and> (registered h1 j \<longrightarrow> registered h j)"
    and kept: "others_kept (length (hb_out h)) h1 h'"
    and new: "\<exists>n. list_all2 same_but_actor (lives h' (length (hb_out h))) (take n (drop p hist))"
    and all: "registered h' (length (hb_out h)) \<Longrightarrow> list_all2 same_but_actor (lives h' (length (hb_out h))) (drop p hist)"
  shows "delivered_ok hist missed (from_list @ [p]) (at_list @ [length hist]) h'"
  unfolding delivered_ok_def
proof (intro conjI allI impI)
  have l': "length (hb_out h') = Suc (length (hb_out h))" using kept len by (simp add: others_kept_def)
  have lf: "length from_list = length (hb_out h)" "length at_list = length (hb_out h)" using ok by (simp_all add: delivered_ok_def)
  then show "length (from_list @ [p]) = length (hb_out h')" "length (at_list @ [length hist]) = length (hb_out h')"
    by (simp_all add: l')
  fix i
  assume i: "i < length (hb_out h')"
  show "(at_list @ [length hist]) ! i \<le> length hist"
    using ok i lf by (cases "i < length (hb_out h)") (auto simp: delivered_ok_def nth_append l')
  have old: "lives h' i = lives h i \<and> (registered h' i \<longrightarrow> registered h i)" if "i < length (hb_out h)"
    using kept h1 [OF that] that len by (auto simp: others_kept_def)
  let ?due = "owed hist missed ((from_list @ [p]) ! i) ((at_list @ [length hist]) ! i)"
  show "\<exists>n. list_all2 same_but_actor (lives h' i) (take n ?due)"
    using ok new old i lf by (cases "i < length (hb_out h)") (auto simp: delivered_ok_def nth_append l' less_Suc_eq)
  assume "registered h' i"
  then show "list_all2 same_but_actor (lives h' i) ?due"
    using ok all old i lf by (cases "i < length (hb_out h)") (auto simp: delivered_ok_def nth_append l' less_Suc_eq)
qed

lemma connect_ok:
  assumes ok: "world_ok w"
  shows "world_ok (after_connect grow bytes cfg nowIso lastEventId sinceParam w)"
proof -
  let ?st = "wd_store w" and ?h = "wd_hub w" and ?i = "length (hb_out (wd_hub w))"
  let ?c = "sse_cursor lastEventId sinceParam"
  let ?p = "stream_from bytes cfg nowIso ?c w"
  have w: "hub_ok ?h" "log_ok ?st (wd_log w)" "lasts_below (lv_next ?st) ?h" "delivered_ok (wd_log w) (wd_missed w) (wd_from w) (wd_at w) ?h"
    and pos: "0 < lv_next ?st" and missed: "\<forall>n \<in> set (wd_missed w). n < lv_next ?st"
    using ok by (simp_all add: world_ok_def)
  have seq: "maxSeq ?st < lv_next ?st" using w(2) pos maxSeq_less by (simp add: log_ok_def)
  obtain h1 where op: "open_response ?h = (?i, h1)" by (simp add: open_response_def)
  note h1 = open_response_ok [OF w(1) op]
  have i1: "?i < length (hb_out h1)" "hb_out h1 ! ?i = fresh_response" "\<not> registered h1 ?i"
    and len: "length (hb_out h1) = Suc ?i" and below: "lasts_below (lv_next ?st) h1"
    using h1 w(3) by (auto simp: lasts_below_def)
  have same1: "lives h1 j = lives ?h j \<and> (registered h1 j \<longrightarrow> registered ?h j)" if "j < ?i" for j
    using h1 that by (simp add: lives_def nth_append registered_def)
  define h' where "h' = rv_hub (handleSse grow bytes cfg nowIso lastEventId sinceParam (wd_rv w))"
  have "hub_ok h' \<and> lasts_below (lv_next ?st) h' \<and> others_kept ?i h1 h'
    \<and> (\<exists>n. list_all2 same_but_actor (lives h' ?i) (take n (drop ?p (wd_log w))))
    \<and> (registered h' ?i \<longrightarrow> list_all2 same_but_actor (lives h' ?i) (drop ?p (wd_log w)))"
  proof (cases "hasCapacity h1")
    case False
    then have h': "h' = update_res ?i (sendJson grow 503 (JObj [(''error'', JStr ''too_many_connections'')])) h1"
      by (simp add: h'_def handleSse_def op Let_def)
    have "delivers [] h1 h'" unfolding h'
      by (rule delivers_on_write [where cs = "[Json_Body (JObj [(''error'', JStr ''too_many_connections'')])]"])
         (use i1 in \<open>simp_all add: sendJson_def res_end_def res_write_def fresh_response_def\<close>)
    moreover have "hub_ok h'" unfolding h' using h1 by (intro hub_ok_update_unregistered) auto
    moreover have "lives h' ?i = []"
      using i1 by (simp add: h' lives_def update_res_def sendJson_def res_end_def res_write_def fresh_response_def)
    moreover have "\<not> registered h' ?i" using i1 by (simp add: h')
    ultimately show ?thesis using below by (auto simp: h' intro: others_kept_delivers exI [of _ 0])
  next
    case True
    obtain backlog matched where page: "replay_page bytes cfg nowIso ?c ?st = (backlog, matched)" by fastforce
    show ?thesis
    proof (cases "reset_reason (rc_replay_limit cfg) ?c (maxSeq ?st) backlog matched")
      case (Some reason)
      then have h': "h' = sendReset grow ?i reason (maxSeq ?st) h1"
        using True by (simp add: h'_def handleSse_def op Let_def start_stream_def page)
      have "?p = length (wd_log w)" using Some by (simp add: stream_from_def resumes_def page)
      then show ?thesis
        using sendReset_ok [OF _ i1 True below seq, of grow reason] h1 unfolding h' by auto
    next
      case None
      have p: "?p = (if lv_rows ?st \<noteq> [] then length (filter (\<lambda>e. ev_seq e \<le> ?c) (wd_log w)) else length (wd_log w))"
        using None True h1 by (simp add: stream_from_def resumes_def page)
      obtain n where n: "list_all2 same_but_actor backlog (take n (drop ?p (wd_log w)))"
        "matched \<le> length backlog \<Longrightarrow> length (drop ?p (wd_log w)) \<le> n"
        "sorted_wrt (<) (map ev_seq backlog)" "\<forall>e \<in> set backlog. ?c < ev_seq e \<and> ev_seq e < lv_next ?st"
        using replay_backlog [OF w(2) page None] unfolding p by blast
      have "?c < lv_next ?st" using None seq by (auto simp: reset_reason_def split: if_splits)
      note r = resumed_ok [OF _ i1 True below this n(3,4) refl, of grow matched]
      have h': "h' = (let h1 = update_res ?i (writeSseHead grow) h1; (sid, h2) = add_sub ?i ?c h1;
               h3 = fold (send grow False sid) backlog h2 in
           if length backlog < matched then
             (let h4 = remove_sub sid h3 in
              if rp_ended (hb_out h4 ! ?i) then h4 else update_res ?i res_end h4)
           else h3)"
        using True None by (simp add: h'_def handleSse_def op Let_def start_stream_def page)
      have part: "\<exists>m. list_all2 same_but_actor (take k backlog) (take m (drop ?p (wd_log w)))" for k
        using list_all2_takeI [OF n(1), of k] by (auto simp: take_take intro: exI [of _ "min k n"])
      show ?thesis
        using r h1 n(1,2) part unfolding h' [symmetric] by auto
    qed
  qed
  then have "delivered_ok (wd_log w) (wd_missed w) (wd_from w @ [?p]) (wd_at w @ [length (wd_log w)]) h'"
    using delivered_ok_snoc [OF w(4) len same1] by blast
  moreover have "rv_store (handleSse grow bytes cfg nowIso lastEventId sinceParam (wd_rv w)) = ?st"
    by (simp add: handleSse_def Let_def case_prod_beta)
  ultimately show ?thesis
    using \<open>hub_ok h' \<and> _\<close> w(2) pos missed unfolding h'_def by (simp add: world_ok_def after_connect_def)
qed

section \<open>The other steps\<close>

lemma on_hub_ok:
  assumes ok: "world_ok w" and f: "hub_ok (f (wd_hub w))" "delivers [] (wd_hub w) (f (wd_hub w))"
    "lasts_below (lv_next (wd_store w)) (f (wd_hub w))"
  shows "world_ok (on_hub f w)"
  using assms delivered_ok_quiet [of "wd_log w" "wd_missed w" "wd_from w" "wd_at w" "wd_hub w" "f (wd_hub w)"]
  by (simp add: world_ok_def on_hub_def)

lemma delivers_one_quiet: "delivers_on {sid} [] h h' \<Longrightarrow> delivers [] h h'"
  unfolding delivers_on_def by auto

lemma filter_sorted_suffix:
  "sorted (map f xs) \<Longrightarrow> \<exists>n. filter (\<lambda>x. c \<le> f x) xs = drop n xs"
proof (induction xs)
  case (Cons x xs)
  show ?case
  proof (cases "c \<le> f x")
    case True
    then have "\<forall>y \<in> set (x # xs). c \<le> f y" using Cons.prems by fastforce
    then have "filter (\<lambda>y. c \<le> f y) (x # xs) = drop 0 (x # xs)" by (simp add: filter_id_conv)
    then show ?thesis by blast
  next
    case False
    then obtain n where "filter (\<lambda>y. c \<le> f y) (x # xs) = drop (Suc n) (x # xs)" using Cons by auto
    then show ?thesis by blast
  qed
qed simp

lemma prune_suffix:
  assumes log: "log_ok st hist" and prune: "prune ttlDays maxRows now st = Inr (n, st')"
  shows "\<exists>k. lv_rows st' = drop k (lv_rows st) \<and> lv_next st' = lv_next st"
proof -
  obtain cutoff where rows: "lv_rows st' = prune_rows cutoff maxRows (lv_rows st)" "lv_next st' = lv_next st"
    using prune by (auto simp: prune_def Let_def)
  let ?kept = "filter (\<lambda>r. \<not> li_received_at r < cutoff) (lv_rows st)"
  obtain m where m: "map rowToEvent (lv_rows st) = drop m hist" using log by (auto simp: log_ok_def)
  have "map li_received_at (lv_rows st) = map li_received_at (drop m hist)"
    by (simp add: rowToEvent_def live_event.defs flip: m)
  then have "sorted (map li_received_at (lv_rows st))"
    using log by (auto simp: log_ok_def simp flip: drop_map intro: sorted_wrt_drop)
  then obtain j where "?kept = drop j (lv_rows st)"
    using filter_sorted_suffix [of li_received_at "lv_rows st" cutoff] by (auto simp: not_less)
  then have "prune_rows cutoff maxRows (lv_rows st) = drop (length (drop j (lv_rows st)) - maxRows) (drop j (lv_rows st))"
    using prune_rows_eq [of "lv_rows st" cutoff maxRows] log live_ok_ascending by (simp add: log_ok_def Let_def)
  then show ?thesis unfolding rows drop_drop by blast
qed

lemma log_ok_drop:
  assumes "log_ok st hist" and rows: "lv_rows st' = drop k (lv_rows st)" "lv_next st' = lv_next st"
  shows "log_ok st' hist"
proof -
  obtain n where n: "map rowToEvent (lv_rows st) = drop n hist" using assms(1) by (auto simp: log_ok_def)
  have "live_ok st'"
    using assms(1) unfolding live_ok_def rows log_ok_def
    by (auto simp: drop_map [symmetric] intro: sorted_wrt_drop distinct_drop dest: in_set_dropD)
  moreover have "map rowToEvent (lv_rows st') = drop (k + n) hist"
    by (simp add: rows n flip: drop_map)
  ultimately show ?thesis using assms(1) rows(2) unfolding log_ok_def by auto
qed

lemma settle_rows:
  "settle_job opts now key answer (st, ob) = ((st', ob'), updates) \<Longrightarrow>
   lv_rows st' = lv_rows st \<and> lv_next st' = lv_next st"
  by (auto simp: settle_job_def upsertActorProfile_def Let_def split: if_splits option.splits sum.splits)

lemma broadcast_updates:
  "hub_ok h \<Longrightarrow> lasts_below n h \<Longrightarrow>
   hub_ok (fold (broadcast grow True) es h) \<and> delivers [] h (fold (broadcast grow True) es h)
   \<and> lasts_below n (fold (broadcast grow True) es h)"
proof (induction es arbitrary: h)
  case Nil
  then show ?case by (simp add: delivers_on_refl)
next
  case (Cons e es)
  note one = broadcast_update [OF Cons.prems, of grow e]
  with Cons.IH [of "broadcast grow True e h"] show ?case
    using delivers_trans [OF Cons.prems(1), of UNIV "[]" "broadcast grow True e h" "[]"] by simp
qed

lemma live_step_ok:
  assumes "live_step grow bytes cfg obs w w'" and ok: "world_ok w"
  shows "world_ok w'"
proof -
  have h: "hub_ok (wd_hub w)" "lasts_below (lv_next (wd_store w)) (wd_hub w)"
    using ok by (simp_all add: world_ok_def)
  show ?thesis
  using assms(1)
proof cases
  case (webhook route req reply rv')
  then show ?thesis using webhook_ok [OF ok] by simp
next
  case (connect nowIso lastEventId sinceParam)
  then show ?thesis using connect_ok [OF ok] by simp
next
  case (request_closed sid)
  show ?thesis unfolding request_closed
    by (intro on_hub_ok [OF ok] hub_ok_remove h lasts_below_remove delivers_one_quiet [OF delivers_on_remove])
next
  case (response_error sid)
  show ?thesis unfolding response_error
    using evict_ok [OF h(1), of sid "[]"] delivers_one_quiet by (intro on_hub_ok [OF ok] lasts_below_evict h) blast+
next
  case (socket i throws buffered destroyed)
  let ?f = "update_res i (\<lambda>r. r\<lparr>rp_destroyed := destroyed, rp_buffered := buffered, rp_throws := throws\<rparr>)"
  have "hub_ok (?f (wd_hub w))"
    by (rule hub_ok_update_res) (use ok in \<open>auto simp: world_ok_def\<close>)
  moreover have "delivers [] (wd_hub w) (?f (wd_hub w))"
    by (rule delivers_on_update_res) (use socket in auto)
  ultimately show ?thesis using ok unfolding socket(1) by (intro on_hub_ok) (simp_all add: world_ok_def)
next
  case beat
  show ?thesis unfolding beat using heartbeat_ok [OF h] by (intro on_hub_ok [OF ok]) blast+
next
  case shutdown
  show ?thesis unfolding shutdown using closeAll_ok [OF h(1)] by (intro on_hub_ok [OF ok]) blast+
next
  case (pruned ttlDays maxRows now n st')
  obtain k where "lv_rows st' = drop k (lv_rows (wd_store w))" "lv_next st' = lv_next (wd_store w)"
    using prune_suffix [OF _ pruned(2)] ok by (auto simp: world_ok_def)
  with log_ok_drop [of "wd_store w" "wd_log w" st' k] ok show ?thesis
    unfolding pruned(1) by (simp add: world_ok_def)
next
  case (profile opts key now answer st' ob' updates)
  have "lv_rows st' = lv_rows (wd_store w) \<and> lv_next st' = lv_next (wd_store w)"
    using settle_rows [OF profile(4)] .
  with log_ok_cong [of st' "wd_store w" "wd_log w"] ok
    broadcast_updates [of "wd_hub w" "lv_next (wd_store w)" grow updates]
    delivered_ok_quiet [of "wd_log w" "wd_missed w" "wd_from w" "wd_at w" "wd_hub w" "fold (broadcast grow True) updates (wd_hub w)"]
  show ?thesis unfolding profile(1) by (simp add: world_ok_def)
qed
qed

lemma live_reachable_ok:
  "(live_step grow bytes cfg obs)\<^sup>*\<^sup>* (init_world cfg) w \<Longrightarrow> world_ok w"
  by (induction rule: rtranclp_induct) (auto intro: world_ok_init live_step_ok)

section \<open>The guarantees\<close>

lemma owed_sorted:
  assumes "sorted_wrt (<) (map ev_seq hist)"
  shows "sorted_wrt (<) (map ev_seq (take n (owed hist missed p a)))"
proof -
  have "sorted_wrt (<) (map ev_seq (take a hist @ drop a hist))" using assms by simp
  then have "sorted_wrt (<) (map ev_seq (owed hist missed p a))"
    unfolding owed_def map_append sorted_wrt_append
    by (auto simp: sorted_wrt_map intro!: sorted_wrt_drop sorted_wrt_filter dest: in_set_dropD)
  then show ?thesis by (simp add: sorted_wrt_take flip: take_map)
qed

text \<open>
  Claim C25. In every reachable state each event stream carries, in the order of the log and without
  repetition or omission, a prefix of the events its connection is owed: the events from the place its
  stream starts that were in the log when it connected, and every later event but those of a delivery in
  which SQLite failed, which no stream carries.  A stream whose subscriber is still registered carries
  all of it, so as long as SQLite does not fail no subscriber misses an event silently: it gets everything
  or its stream ends.  Events differ from the log at most in the hydrated actor.  There are never more
  subscribers than the connection limit.  Assumed of the environment: the clock does not run back between
  two deliveries, and adapters stamp events with the instant of receipt.
\<close>

theorem live_stream_delivers:
  assumes "(live_step grow bytes cfg obs)\<^sup>*\<^sup>* (init_world cfg) w" and "i < length (hb_out (wd_hub w))"
  defines "due \<equiv> owed (wd_log w) (wd_missed w) (wd_from w ! i) (wd_at w ! i)"
  shows "(\<exists>n. list_all2 same_but_actor (lives (wd_hub w) i) (take n due))
    \<and> (registered (wd_hub w) i \<longrightarrow> list_all2 same_but_actor (lives (wd_hub w) i) due)
    \<and> sorted_wrt (<) (map ev_seq (lives (wd_hub w) i))
    \<and> length (hb_subs (wd_hub w)) \<le> hb_max_connections (wd_hub w)"
proof -
  have ok: "world_ok w" by (rule live_reachable_ok [OF assms(1)])
  then obtain n where n: "list_all2 same_but_actor (lives (wd_hub w) i) (take n due)"
    using assms(2) by (auto simp: world_ok_def delivered_ok_def due_def)
  then have "map ev_seq (lives (wd_hub w) i) = map ev_seq (take n due)"
    by (auto simp: list_all2_conv_all_nth same_but_actor_seq intro!: nth_equalityI)
  moreover have "sorted_wrt (<) (map ev_seq (take n due))"
    using ok unfolding due_def by (intro owed_sorted) (simp add: world_ok_def log_ok_def)
  ultimately show ?thesis
    using ok assms(2) n by (auto simp: world_ok_def delivered_ok_def hub_ok_def due_def)
qed












section \<open>Instances\<close>

definition sample_cfg :: receiver_config where
  "sample_cfg = resolve_options \<lparr>ro_project_allowlist = [], ro_max_connections = None, ro_snapshot_limit = None,
     ro_max_snapshot_limit = None, ro_replay_limit = None, ro_snapshot_max_bytes = None, ro_replay_max_bytes = None\<rparr>"

definition sample_route :: webhook_route where
  "sample_route = github_route (\<lambda>_ _. ''ok'') [''s''] ''github:github.com''"

definition sample_request :: "bool \<Rightarrow> string \<Rightarrow> intake" where
  "sample_request hydrate_fails delivery =
     \<lparr>in_headers = [(''x-hub-signature-256'', One ''sha256=ok''), (''x-github-delivery'', One delivery),
                    (''x-github-event'', One ''issues'')],
      in_body = Body_Bytes [], in_parse = (\<lambda>_. Some (JObj [(''action'', JStr ''opened'')])),
      in_now = 0, in_created_at = [], in_hydrate_at = [], in_observe_at = 0, in_burn = False,
      in_append_fails = (\<lambda>_. False), in_hydrate_fails = hydrate_fails\<rparr>"

definition sample_webhook :: "bool \<Rightarrow> string \<Rightarrow> world \<Rightarrow> world" where
  "sample_webhook hydrate_fails delivery w =
     (let req = sample_request hydrate_fails delivery;
          (reply, rv) = handleWebhook (\<lambda>_. 1) sample_cfg None sample_route req (wd_rv w) in
      after_webhook req reply rv w)"

definition sample_connect :: "string option \<Rightarrow> world \<Rightarrow> world" where
  "sample_connect sinceParam w = after_connect (\<lambda>_. 1) (\<lambda>_. 1) sample_cfg [] None sinceParam w"

lemma stamps_github: "stamps (github_route hmac secrets sourceId)"
  by (auto simp: stamps_def github_route_def gh.received)

lemma sample_webhook_step:
  assumes "clock_ok (wd_log w) (sample_request hydrate_fails delivery)"
  shows "live_step (\<lambda>_. 1) (\<lambda>_. 1) sample_cfg None w (sample_webhook hydrate_fails delivery w)"
  unfolding sample_webhook_def Let_def case_prod_beta
  by (rule live_step.webhook [OF prod.collapse [symmetric]])
     (use assms in \<open>auto simp: sample_route_def stamps_github\<close>)

lemma sample_connect_step: "live_step (\<lambda>_. 1) (\<lambda>_. 1) sample_cfg None w (sample_connect sinceParam w)"
  unfolding sample_connect_def by (rule live_step.connect)

definition sample_world :: world where
  "sample_world = sample_webhook False ''d2'' (sample_webhook False ''d1'' (sample_connect None (init_world sample_cfg)))"

lemma sample_clock:
  "clock_ok (wd_log (sample_connect None (init_world sample_cfg))) (sample_request b d)"
  "clock_ok (wd_log (sample_webhook False ''d1'' (sample_connect None (init_world sample_cfg)))) (sample_request b ''d2'')"
  by (simp add: clock_ok_def sample_connect_def after_connect_def init_world_def)
     (cases b; code_simp)

lemma sample_world_values:
  "map ev_seq (wd_log sample_world) = [1, 2]" "wd_from sample_world = [0]" "wd_at sample_world = [0]" "wd_missed sample_world = []"
  "map ev_seq (lives (wd_hub sample_world) 0) = [1, 2]"
  "length (hb_out (wd_hub sample_world)) = 1"
  by code_simp+

lemma sample_registered: "registered (wd_hub sample_world) 0"
proof -
  have "map_option sb_res (jm_get (hb_subs (wd_hub sample_world)) 1) = Some 0" by code_simp
  then show ?thesis by (auto simp: registered_def)
qed

lemma sample_world_reachable:
  "(live_step (\<lambda>_. 1) (\<lambda>_. 1) sample_cfg None)\<^sup>*\<^sup>* (init_world sample_cfg) sample_world"
proof -
  let ?w1 = "sample_connect None (init_world sample_cfg)"
  have "live_step (\<lambda>_. 1) (\<lambda>_. 1) sample_cfg None (init_world sample_cfg) ?w1"
    by (rule sample_connect_step)
  moreover have "live_step (\<lambda>_. 1) (\<lambda>_. 1) sample_cfg None ?w1 (sample_webhook False ''d1'' ?w1)"
    by (rule sample_webhook_step [OF sample_clock(1)])
  moreover have "live_step (\<lambda>_. 1) (\<lambda>_. 1) sample_cfg None (sample_webhook False ''d1'' ?w1) sample_world"
    unfolding sample_world_def by (rule sample_webhook_step [OF sample_clock(2)])
  ultimately show ?thesis by (meson r_into_rtranclp rtranclp.rtrancl_into_rtrancl)
qed

theorem live_stream_delivers_witness:
  "list_all2 same_but_actor (lives (wd_hub sample_world) 0) (wd_log sample_world) \<and> length (wd_log sample_world) = 2
   \<and> length (hb_subs (wd_hub sample_world)) \<le> 100"
proof -
  have "hb_max_connections (wd_hub sample_world) = 100" by code_simp
  moreover have "length (wd_log sample_world) = 2" using arg_cong [OF sample_world_values(1), of length] by simp
  ultimately show ?thesis
    using live_stream_delivers [OF sample_world_reachable, of 0] sample_registered sample_world_values by (simp add: owed_def)
qed




end
