(* ===== verification/Live_Service.thy ===== *)
theory Live_Service
  imports Live_Delivery
begin

text \<open>
  What a client and a provider may rely on: a subscriber that keeps up is served, an acknowledged
  delivery is in the log, paging through the snapshot reaches every row, and the one way in which a
  subscriber can lose an event.
\<close>

section \<open>A subscriber that keeps up is served\<close>













definition sample_before :: world where
  "sample_before = sample_connect None (init_world sample_cfg)"



section \<open>The way to lose an event\<close>

text \<open>
  When \<open>hydrateEvents\<close> throws, the delivery is acknowledged and in the log, and no stream carries it;
  the next broadcast moves every stream's last id past it, so a reconnection does not ask for it.
\<close>

definition sample_gap :: world where
  "sample_gap = sample_webhook False ''d2'' (sample_webhook True ''d1'' sample_before)"

lemma sample_gap_values:
  "map_option sb_res (jm_get (hb_subs (wd_hub sample_gap)) 1) = Some 0" "wd_from sample_gap ! 0 = 0"
  "map ev_seq (wd_log sample_gap) = [1, 2]" "map ev_seq (lives (wd_hub sample_gap) 0) = [2]"
  "clock_ok (wd_log (sample_webhook True ''d1'' sample_before)) (sample_request False ''d2'')"
  by code_simp+

lemma live_gap_after_fault:
  "\<exists>w. (live_step (\<lambda>_. 1) (\<lambda>_. 1) sample_cfg None)\<^sup>*\<^sup>* (init_world sample_cfg) w \<and> registered (wd_hub w) 0
    \<and> wd_from w ! 0 = 0 \<and> map ev_seq (wd_log w) = [1, 2] \<and> map ev_seq (lives (wd_hub w) 0) = [2]"
proof (intro exI conjI)
  let ?w1 = "sample_webhook True ''d1'' sample_before"
  have "live_step (\<lambda>_. 1) (\<lambda>_. 1) sample_cfg None (init_world sample_cfg) sample_before"
    unfolding sample_before_def by (rule sample_connect_step)
  moreover have "live_step (\<lambda>_. 1) (\<lambda>_. 1) sample_cfg None sample_before ?w1"
    by (rule sample_webhook_step [OF sample_clock(1) [folded sample_before_def]])
  moreover have "live_step (\<lambda>_. 1) (\<lambda>_. 1) sample_cfg None ?w1 sample_gap"
    unfolding sample_gap_def by (rule sample_webhook_step [OF sample_gap_values(5)])
  ultimately show "(live_step (\<lambda>_. 1) (\<lambda>_. 1) sample_cfg None)\<^sup>*\<^sup>* (init_world sample_cfg) sample_gap"
    by (meson r_into_rtranclp rtranclp.rtrancl_into_rtrancl)
  show "registered (wd_hub sample_gap) 0" using sample_gap_values(1) by (auto simp: registered_def)
qed (rule sample_gap_values)+

section \<open>Acknowledged deliveries\<close>

lemma append_all_stores:
  "append_all req i es st = ((evs, st'), ok) \<Longrightarrow>
   set (lv_rows st) \<subseteq> set (lv_rows st') \<and>
   (ok \<longrightarrow> (\<forall>k < length es. delivery_id (es ! k) (i + k) \<in> row_id ` set (lv_rows st')))"
proof (induction es arbitrary: i st evs)
  case (Cons e es)
  show ?case
  proof (cases "in_append_fails req i")
    case False
    obtain res st1 where one: "append_event (in_burn req) e i (in_created_at req) st = (res, st1)" by fastforce
    obtain evs1 where rest: "append_all req (Suc i) es st1 = ((evs1, st'), ok)"
      using Cons.prems False one by (auto simp: Let_def split: prod.splits)
    have "set (lv_rows st) \<subseteq> set (lv_rows st1)" "delivery_id e i \<in> row_id ` set (lv_rows st1)"
      using one by (auto simp: append_event_cases split: if_splits)
    then show ?thesis using Cons.IH [OF rest] by (auto simp: nth_Cons split: nat.split)
  qed (use Cons.prems in auto)
qed simp

lemma fold_announce_rows: "lv_rows (rv_store (fold (announce grow obs now) ps rv)) = lv_rows (rv_store rv)"
  by (induction ps arbitrary: rv) (simp_all add: announce_store)

text \<open>
  Claim C28. An acknowledged delivery is in the log: whatever SQLite does, a webhook answered 202
  was signed and parsed, and each of its events in the scope of the allowlist has a row of its own
  delivery and position. A reply other than 202 and 500 leaves the receiver as it was, and no reply
  removes a row.
\<close>

theorem webhook_ack_durable:
  assumes "handleWebhook grow cfg obs route req rv = ((status, body), rv')"
  shows "set (lv_rows (rv_store rv)) \<subseteq> set (lv_rows (rv_store rv'))
    \<and> (status \<noteq> 202 \<longrightarrow> status \<noteq> 500 \<longrightarrow> rv' = rv)
    \<and> (status = 202 \<longrightarrow> (\<exists>rawBody parsed d events.
         in_body req = Body_Bytes rawBody \<and> wr_verify route rawBody (in_headers req) = Inr True
         \<and> in_parse req rawBody = Some parsed \<and> wr_delivery_id route (in_headers req) = Some d
         \<and> wr_to_events route parsed (intake_ctx route req d) = Inr events
         \<and> (\<forall>k < length (filter (in_scope cfg) events).
              delivery_id (filter (in_scope cfg) events ! k) k \<in> row_id ` set (lv_rows (rv_store rv')))))"
proof (cases rule: handleWebhook_cases [OF assms])
  case 1
  then show ?thesis by simp
next
  case (2 rawBody parsed d events)
  let ?es = "filter (in_scope cfg) events"
  obtain appended st ok where app: "append_all req 0 ?es (rv_store rv) = ((appended, st), ok)" by (metis prod.exhaust)
  have st: "set (lv_rows (rv_store rv)) \<subseteq> set (lv_rows st)"
    "ok \<longrightarrow> (\<forall>k < length ?es. delivery_id (?es ! k) k \<in> row_id ` set (lv_rows st))"
    using append_all_stores [OF app] by simp_all
  have "lv_rows (rv_store rv') = lv_rows st" "status = (if ok then 202 else 500)"
    using 2(6) unfolding store_and_announce_def app Let_def prod.case
    by (auto simp: fold_announce_rows split: if_splits)
  with st 2 show ?thesis by (auto split: if_splits)
qed

definition sample_ack :: "reply \<times> receiver" where
  "sample_ack = handleWebhook (\<lambda>_. 1) sample_cfg None sample_route (sample_request True ''d1'') (wd_rv sample_before)"

lemma sample_ack_values:
  "fst sample_ack = (202, snd (fst sample_ack))" "length (lv_rows (rv_store (snd sample_ack))) = 1"
  "lv_rows (rv_store (wd_rv sample_before)) = []"
  by code_simp+

theorem webhook_ack_durable_witness:
  "\<exists>rawBody. in_body (sample_request True ''d1'') = Body_Bytes rawBody
     \<and> wr_verify sample_route rawBody (in_headers (sample_request True ''d1'')) = Inr True
     \<and> length (lv_rows (rv_store (snd sample_ack))) = 1"
proof -
  have "handleWebhook (\<lambda>_. 1) sample_cfg None sample_route (sample_request True ''d1'') (wd_rv sample_before)
      = ((202, snd (fst sample_ack)), snd sample_ack)"
    using sample_ack_values(1) unfolding sample_ack_def [symmetric] by (metis prod.collapse)
  from webhook_ack_durable [OF this] show ?thesis using sample_ack_values(2) by auto
qed

section \<open>Paging back through the snapshot\<close>

text \<open>
  The events a client collects when it asks for the next page until there is none.  The store may change
  between the requests: \<open>stores\<close> has it at each of them.
\<close>

fun snapshot_walk ::
  "(live_row \<Rightarrow> nat) \<Rightarrow> receiver_config \<Rightarrow> string \<Rightarrow> string option \<Rightarrow> live_store list \<Rightarrow> string option \<Rightarrow> live_event list"
where
  "snapshot_walk bytes cfg nowIso limitParam [] before = []"
| "snapshot_walk bytes cfg nowIso limitParam (st # stores) before =
     (let r = handleSnapshot bytes cfg nowIso limitParam None before st in
      sn_events r @ (case sn_next_before r of None \<Rightarrow> []
                     | Some b \<Rightarrow> snapshot_walk bytes cfg nowIso limitParam stores (Some (nat_str b))))"

lemma digits_param_nat_str: "digits_param (Some (nat_str n)) = Some n"
  by (simp add: digits_param_def all_digits_def list_all_iff nat_str_digits num_of_nat_str)

lemma filter_below_nth:
  assumes "sorted_wrt (\<lambda>a b. f b < f a) xs" and "i < length xs"
  shows "filter (\<lambda>x. f x < (f (xs ! i) :: nat)) xs = drop (Suc i) xs"
proof -
  have "sorted_wrt (\<lambda>a b. f b < f a) (take i xs @ xs ! i # drop (Suc i) xs)"
    using assms by (simp flip: id_take_nth_drop)
  then have "filter (\<lambda>x. f x < f (xs ! i)) (take i xs @ xs ! i # drop (Suc i) xs) = drop (Suc i) xs"
    by (auto simp: sorted_wrt_append filter_empty_conv filter_id_conv)
  then show ?thesis using assms(2) by (simp flip: id_take_nth_drop)
qed

lemma page_rows_next:
  assumes ok: "live_ok st" and n: "0 < n" "n \<le> length (page_rows st opts)" and opts: "po_desc opts" "po_after opts = None"
  shows "page_rows st (opts\<lparr>po_before := Some (ev_seq (page_rows st opts ! (n - 1)))\<rparr>) = drop n (page_rows st opts)"
proof -
  let ?Q = "page_rows st opts"
  let ?b = "ev_seq (?Q ! (n - 1))"
  have sorted: "sorted_wrt (\<lambda>a b. ev_seq b < ev_seq a) ?Q"
    using live_ok_ascending [OF ok] opts(1) by (auto simp: page_rows_def ascending_def sorted_wrt_rev intro!: sorted_wrt_filter)
  have "?Q ! (n - 1) \<in> set ?Q" using n by simp
  then have "in_bounds opts (?Q ! (n - 1))" by (simp add: page_rows_def)
  then have "in_bounds (opts\<lparr>po_before := Some ?b\<rparr>) = (\<lambda>r. in_bounds opts r \<and> ev_seq r < ?b)"
    using opts(2) by (auto simp: in_bounds_def fun_eq_iff split: option.splits)
  then have "page_rows st (opts\<lparr>po_before := Some ?b\<rparr>) = filter (\<lambda>r. ev_seq r < ?b) ?Q"
    using opts(1) unfolding page_rows_def by simp
  then show ?thesis using filter_below_nth [OF sorted, of "n - 1"] n by simp
qed

text \<open>The options of the page a snapshot request asks for when it gives no \<open>since\<close>.\<close>

definition back_from :: "receiver_config \<Rightarrow> string option \<Rightarrow> nat option \<Rightarrow> page_options" where
  "back_from cfg limitParam before =
     \<lparr>po_desc = True, po_limit = snapshot_limit cfg limitParam, po_max_bytes = rc_snapshot_max_bytes cfg,
      po_after = None, po_before = before\<rparr>"

lemma snapshot_step:
  fixes st :: live_store and cfg :: receiver_config and bytes :: "live_row \<Rightarrow> nat"
    and nowIso :: string and limitParam before :: "string option"
  assumes ok: "live_ok st" and limit: "0 < snapshot_limit cfg limitParam"
  defines "Q \<equiv> page_rows st (back_from cfg limitParam (digits_param before))"
    and "r \<equiv> handleSnapshot bytes cfg nowIso limitParam None before st"
  obtains n where "n \<le> length Q" and "map ev_seq (sn_events r) = map ev_seq (take n Q)"
    and "n = length Q \<longrightarrow> sn_next_before r = None"
    and "n < length Q \<longrightarrow> 0 < n \<and> sn_next_before r = Some (ev_seq (Q ! (n - 1)))"
proof -
  let ?opts = "back_from cfg limitParam (digits_param before)"
  obtain events matched where p: "page bytes st nowIso ?opts = (events, matched)" by fastforce
  then obtain n where n: "events = hydrateEvents st nowIso (map rowToEvent (take n Q))" "n \<le> length Q"
    "n = 0 \<longrightarrow> Q = [] \<or> po_limit ?opts = 0" "length events < matched \<longleftrightarrow> n < length Q"
    using live_page_spec [OF ok p] unfolding Q_def by blast
  have r: "r = \<lparr>sn_events = events, sn_max_seq = maxSeq st, sn_truncated = n < length Q,
      sn_next_before = (if n < length Q \<and> events \<noteq> [] then Some (ev_seq (last events)) else None)\<rparr>"
    using p n(4) unfolding r_def handleSnapshot_def back_from_def by (simp add: digits_param_def Let_def)
  have seqs: "map ev_seq events = map ev_seq (take n Q)"
    unfolding n(1) hydrateEvents_seqs by (simp add: rowToEvent_def comp_def live_event.defs)
  have "0 < n \<and> events \<noteq> [] \<and> ev_seq (last events) = ev_seq (Q ! (n - 1))" if "n < length Q"
  proof -
    have "0 < n" using n(3) limit that by (cases "n = 0") (auto simp: back_from_def)
    then have "events \<noteq> []" using seqs that by auto
    from this have "ev_seq (last events) = last (map ev_seq events)" by (simp add: last_map)
    moreover have "last (map ev_seq (take n Q)) = ev_seq (last (take n Q))"
      using \<open>0 < n\<close> that by (intro last_map) auto
    moreover have "last (take n Q) = Q ! (n - 1)"
      using \<open>0 < n\<close> that by (subst last_conv_nth) auto
    ultimately have "ev_seq (last events) = ev_seq (Q ! (n - 1))" by (simp add: seqs)
    with \<open>0 < n\<close> \<open>events \<noteq> []\<close> show ?thesis by simp
  qed
  with that [of n] n(2) seqs show ?thesis by (simp add: r)
qed

text \<open>A later store that has gained rows and lost none.\<close>

definition grown_from :: "live_store \<Rightarrow> live_store \<Rightarrow> bool" where
  "grown_from st st' \<longleftrightarrow> live_ok st' \<and> filter (\<lambda>r. ev_seq r < lv_next st) (lv_rows st') = lv_rows st"

lemma grown_page:
  assumes "grown_from st st'" and "b \<le> lv_next st"
  shows "page_rows st' (back_from cfg limitParam (Some b)) = page_rows st (back_from cfg limitParam (Some b))"
proof -
  have "filter (\<lambda>r. ev_seq r < b) (lv_rows st') = filter (\<lambda>r. ev_seq r < b) (filter (\<lambda>r. ev_seq r < lv_next st) (lv_rows st'))"
    unfolding filter_filter using assms(2) by (intro filter_cong) auto
  then have "filter (\<lambda>r. ev_seq r < b) (lv_rows st') = filter (\<lambda>r. ev_seq r < b) (lv_rows st)"
    using assms(1) by (simp only: grown_from_def)
  moreover have "in_bounds (back_from cfg limitParam (Some b)) = (\<lambda>r. ev_seq r < b)"
    by (simp add: in_bounds_def back_from_def fun_eq_iff)
  ultimately show ?thesis by (simp add: page_rows_def flip: rev_filter)
qed

lemma page_rows_below:
  "live_ok st \<Longrightarrow> i < length (page_rows st opts) \<Longrightarrow> ev_seq (page_rows st opts ! i) < lv_next st"
  using nth_mem [of i "page_rows st opts"] by (auto simp: page_rows_def live_ok_def split: if_splits)

lemma snapshot_walk_from:
  assumes ok: "live_ok st" and limit: "0 < snapshot_limit cfg limitParam"
    and "\<forall>s \<in> set stores. grown_from st s"
    and "\<forall>s \<in> set stores. page_rows s (back_from cfg limitParam (digits_param before))
           = page_rows st (back_from cfg limitParam (digits_param before))"
    and "length (page_rows st (back_from cfg limitParam (digits_param before))) < length stores"
  shows "map ev_seq (snapshot_walk bytes cfg nowIso limitParam stores before)
    = map ev_seq (page_rows st (back_from cfg limitParam (digits_param before)))"
  using assms(3-5)
proof (induction stores arbitrary: before)
  case (Cons s stores)
  let ?opts = "back_from cfg limitParam (digits_param before)"
  let ?Q = "page_rows st ?opts"
  let ?r = "handleSnapshot bytes cfg nowIso limitParam None before s"
  have s: "live_ok s" "page_rows s ?opts = ?Q" using Cons.prems by (simp_all add: grown_from_def)
  obtain n where n: "n \<le> length ?Q" "map ev_seq (sn_events ?r) = map ev_seq (take n ?Q)"
    "n = length ?Q \<longrightarrow> sn_next_before ?r = None" "n < length ?Q \<longrightarrow> 0 < n \<and> sn_next_before ?r = Some (ev_seq (?Q ! (n - 1)))"
    using snapshot_step [OF s(1) limit, of before bytes nowIso] s(2) by metis
  show ?case
  proof (cases "n = length ?Q")
    case False
    let ?b = "ev_seq (?Q ! (n - 1))"
    from False n have less: "n < length ?Q" "0 < n" by auto
    have b: "?b < lv_next st" using page_rows_below [OF ok] less by auto
    have "back_from cfg limitParam (digits_param (Some (nat_str ?b))) = ?opts\<lparr>po_before := Some ?b\<rparr>"
      by (simp add: back_from_def digits_param_nat_str)
    then have rows: "page_rows st (back_from cfg limitParam (digits_param (Some (nat_str ?b)))) = drop n ?Q"
      using page_rows_next [OF ok less(2) n(1)] by (simp add: back_from_def)
    have "length (drop n ?Q) < length stores" using Cons.prems(3) less by simp
    then have "map ev_seq (snapshot_walk bytes cfg nowIso limitParam stores (Some (nat_str ?b))) = map ev_seq (drop n ?Q)"
      using Cons.IH [of "Some (nat_str ?b)"] rows Cons.prems(1) grown_page [of st _ ?b cfg limitParam] b
      by (simp add: digits_param_nat_str)
    then have "map ev_seq (snapshot_walk bytes cfg nowIso limitParam (s # stores) before)
        = map ev_seq (take n ?Q) @ map ev_seq (drop n ?Q)"
      using n(2,4) less by (simp add: Let_def)
    then show ?thesis by (simp flip: map_append)
  qed (use n in \<open>simp add: Let_def\<close>)
qed simp

text \<open>
  Claim C32. Paging back through the snapshot reaches every row once: a client that starts with no
  cursor and asks for \<open>before\<close> the last event of each page collects the rows the log had at its first
  request, from the newest to the oldest, whatever the budget of bytes, with at most one request more than
  there are rows.  Rows may be appended between its requests, but none pruned; and the limit of its
  requests must come to at least one row (it does not for a fraction below one).
\<close>

theorem live_snapshot_complete:
  assumes "live_ok st" and "0 < snapshot_limit cfg limitParam"
    and "\<forall>s \<in> set later. grown_from st s" and "length (lv_rows st) \<le> length later"
  shows "map ev_seq (snapshot_walk bytes cfg nowIso limitParam (st # later) None) = rev (map ev_seq (lv_rows st))"
proof -
  have Q: "page_rows st (back_from cfg limitParam (digits_param None)) = rev (lv_rows st)"
    by (simp add: page_rows_def back_from_def digits_param_def in_bounds_def)
  obtain n where n: "n \<le> length (lv_rows st)"
    "map ev_seq (sn_events (handleSnapshot bytes cfg nowIso limitParam None None st)) = map ev_seq (take n (rev (lv_rows st)))"
    "n = length (lv_rows st) \<longrightarrow> sn_next_before (handleSnapshot bytes cfg nowIso limitParam None None st) = None"
    "n < length (lv_rows st) \<longrightarrow> 0 < n \<and> sn_next_before (handleSnapshot bytes cfg nowIso limitParam None None st)
        = Some (ev_seq (rev (lv_rows st) ! (n - 1)))"
    using snapshot_step [OF assms(1,2), of None bytes nowIso] unfolding Q by (metis length_rev)
  show ?thesis
  proof (cases "n = length (lv_rows st)")
    case False
    let ?Q = "rev (lv_rows st)"
    let ?b = "ev_seq (?Q ! (n - 1))"
    from False n have less: "n < length ?Q" "0 < n" by auto
    have b: "?b < lv_next st" using page_rows_below [OF assms(1), of "n - 1" "back_from cfg limitParam (digits_param None)"] less
      by (simp add: Q)
    have rows: "page_rows st (back_from cfg limitParam (digits_param (Some (nat_str ?b)))) = drop n ?Q"
      using page_rows_next [OF assms(1) less(2), of "back_from cfg limitParam (digits_param None)"] less(1) unfolding Q
      by (simp add: back_from_def digits_param_nat_str)
    have "map ev_seq (snapshot_walk bytes cfg nowIso limitParam later (Some (nat_str ?b))) = map ev_seq (drop n ?Q)"
      using snapshot_walk_from [OF assms(1,2,3), of "Some (nat_str ?b)" bytes nowIso] rows assms(3,4) less
        grown_page [of st _ ?b cfg limitParam] b by (simp add: digits_param_nat_str)
    then have "map ev_seq (snapshot_walk bytes cfg nowIso limitParam (st # later) None)
        = map ev_seq (take n ?Q @ drop n ?Q)"
      using n(2,4) less by (simp add: Let_def del: append_take_drop_id)
    then show ?thesis by (simp add: rev_map)
  qed (use n in \<open>simp add: Let_def rev_map\<close>)
qed

theorem live_snapshot_complete_witness:
  "map ev_seq (snapshot_walk (\<lambda>_. 800) sample_cfg [] None [sample_live, sample_live, sample_live, sample_live] None) = [3, 2, 1]"
proof -
  have "0 < snapshot_limit sample_cfg None" by code_simp
  moreover have "map ev_seq (lv_rows sample_live) = [1, 2, 3]" "lv_next sample_live = 4" by code_simp+
  moreover from this have "length (lv_rows sample_live) = 3" using length_map [of ev_seq "lv_rows sample_live"] by simp
  moreover have "grown_from sample_live sample_live"
    using sample_live_ok by (auto simp: grown_from_def live_ok_def filter_id_conv)
  ultimately show ?thesis
    using live_snapshot_complete [OF sample_live_ok, of sample_cfg None "[sample_live, sample_live, sample_live]" "\<lambda>_. 800" "[]"]
    by simp
qed

text \<open>
  A fractional limit below one, \<open>?limit=0.5\<close>, truncates to no rows: the page is empty and says that
  rows are left, and gives no cursor to reach them.
\<close>

lemma snapshot_fraction_stuck:
  fixes cfg :: receiver_config and bytes :: "live_row \<Rightarrow> nat" and nowIso :: string
  assumes "live_ok st" and "lv_rows st \<noteq> []" and "js_number s = Some q" and "0 < q" and "q < 1"
  defines "r \<equiv> handleSnapshot bytes cfg nowIso (Some s) None None st"
  shows "sn_events r = [] \<and> sn_truncated r \<and> sn_next_before r = None"
proof -
  have "js_trunc q = 0" using assms(4,5) by (simp add: js_trunc_def floor_eq_iff)
  then have limit: "snapshot_limit cfg (Some s) = 0" using assms(3,4) by (simp add: snapshot_limit_def)
  let ?opts = "back_from cfg (Some s) None"
  have Q: "page_rows st ?opts = rev (lv_rows st)"
    by (simp add: page_rows_def back_from_def in_bounds_def)
  obtain events matched where p: "page bytes st nowIso ?opts = (events, matched)" by fastforce
  obtain n where n: "events = hydrateEvents st nowIso (map rowToEvent (take n (page_rows st ?opts)))"
    "n \<le> po_limit ?opts" "length events < matched \<longleftrightarrow> n < length (page_rows st ?opts)"
    using live_page_spec [OF assms(1) p] by blast
  have "po_limit ?opts = 0" using limit by (simp add: back_from_def)
  then have "events = []" "0 < matched" using n assms(2) by (simp_all add: Q)
  then show ?thesis
    using p unfolding r_def handleSnapshot_def back_from_def by (simp add: digits_param_def Let_def)
qed

end
