(* ===== verification/Spec2Isabelle.thy ===== *)
theory Spec2Isabelle
  imports Tracker_Edges Sync_Runner Actionable Client_Safety Provider_Links Graph_Search Graph_Coalesce Webhook_Stats Sync_Control Concurrency Github_Sweep Live_Service
begin

text \<open>
  Verification of symphony-board, a service that mirrors issues, change requests and activity of GitHub
  and GitLab into one canonical store and publishes a contract from it for a board UI.  The development
  models the TypeScript core under \<open>src/src\<close> and \<open>src/shared\<close>; file names below are relative to \<open>src/\<close>.

  \<^bold>\<open>The program.\<close>  A control daemon (\<open>src/cli/sync-daemon.ts\<close>) owns one run slot and a cadence.  A run
  (\<open>src/sync-runner.ts\<close>) takes the writer lease of the store, runs the engine (\<open>src/sync-engine.ts\<close>) on
  each configured source in turn, and publishes the contract after each.  The engine fetches raw records
  through a provider client, normalizes them, reconciles the edges that both ends report, and writes all
  of it in one transaction of the store (\<open>src/db\<close>), where a full and complete sweep also deletes what
  it did not see.  The contract builder (\<open>src/contract/build.ts\<close>) maps rows to DTOs, keeps only what
  is configured, and projects windows of it; server handlers answer queries on the same rows (actionable
  queue, graph neighbourhood).  Beside it the live receiver (\<open>src/live\<close>) takes webhooks, keeps them in
  an append-only log and streams them to subscribers as server-sent events.

  \<^bold>\<open>Theories and code.\<close>
  \<^item> The runtime: \<^theory_text>\<open>Prelude\<close> (results of code that throws, the nullish operator, insertion-ordered maps and
    sets, stable sort), \<^theory_text>\<open>Js_String\<close>, \<^theory_text>\<open>Js_Number\<close>, \<^theory_text>\<open>Js_Date\<close>.
  \<^item> The canonical model: \<^theory_text>\<open>Model_Types\<close> (\<open>src/model/types.ts\<close>), \<^theory_text>\<open>Ref\<close> (\<open>ref.ts\<close>, \<open>labels.ts\<close>, \<open>text.ts\<close>),
    \<^theory_text>\<open>Tracker\<close> and \<^theory_text>\<open>Tracker_Edges\<close> (\<open>tracker.ts\<close>), \<^theory_text>\<open>Edges\<close> (\<open>edges.ts\<close>), \<^theory_text>\<open>Activity\<close> (\<open>activity.ts\<close>, \<open>actor.ts\<close>).
  \<^item> The store (\<open>src/db/sqlite.ts\<close> and the files it uses): \<^theory_text>\<open>Store\<close> (tables and write methods), \<^theory_text>\<open>Store_Reads\<close>,
    \<^theory_text>\<open>Store_Invariant\<close> (integrity of the schema), \<^theory_text>\<open>Bounds_Cache\<close> (the cached activity bounds).
  \<^item> Synchronization: \<^theory_text>\<open>Sync_Engine\<close> and \<^theory_text>\<open>Sync_Safety\<close> (\<open>src/sync-engine.ts\<close>), \<^theory_text>\<open>Sync_Witnesses\<close>, \<^theory_text>\<open>Sync_Runner\<close>
    (\<open>src/sync-runner.ts\<close>), \<^theory_text>\<open>Sync_Control\<close> (\<open>src/cli/sync-daemon.ts\<close>, \<open>src/log.ts\<close>), \<^theory_text>\<open>Concurrency\<close>
    (\<open>src/lib/concurrency.ts\<close>).
  \<^item> Provider clients: \<^theory_text>\<open>Token_Pool\<close>, \<^theory_text>\<open>Token_Selection\<close>, \<^theory_text>\<open>Provider_Client\<close>, \<^theory_text>\<open>Client_Safety\<close> (\<open>src/sources/http.ts\<close>,
    \<open>graphql.ts\<close>, \<open>rest.ts\<close>).
  \<^item> The GitHub source (\<open>src/sources/github.ts\<close>): \<^theory_text>\<open>Github_Fetch\<close> (the sweep over pages, review threads, tracker
    references, incremental discovery and repository activity) and \<^theory_text>\<open>Github_Sweep\<close> (what it guarantees, alone
    and under the engine).
  \<^item> Contract and queries: \<^theory_text>\<open>Timestamps\<close> (\<open>shared/time.ts\<close>), \<^theory_text>\<open>Contract_Rows\<close> and \<^theory_text>\<open>Contract_Window\<close>
    (\<open>src/contract/build.ts\<close>), \<^theory_text>\<open>Actionable\<close> (\<open>src/server/actionable.ts\<close>), \<^theory_text>\<open>Graph_Neighborhood\<close>, \<^theory_text>\<open>Graph_Search\<close>,
    \<^theory_text>\<open>Graph_Coalesce\<close> (\<open>src/server/graph-neighborhood.ts\<close>), \<^theory_text>\<open>Provider_Links\<close> (\<open>shared/provider-links.ts\<close>).
  \<^item> The live path (\<open>src/live\<close>): \<^theory_text>\<open>Live_Store\<close>, \<^theory_text>\<open>Live_Provider\<close>, \<^theory_text>\<open>Live_Github\<close>, \<^theory_text>\<open>Live_Stream\<close>, \<^theory_text>\<open>Live_Profiles\<close>,
    \<^theory_text>\<open>Live_Receiver\<close>, \<^theory_text>\<open>Webhook_Stats\<close>, and the composed system in \<^theory_text>\<open>Live_Delivery\<close> and \<^theory_text>\<open>Live_Service\<close>.

  \<^bold>\<open>Conventions.\<close>  A definition carries the name of the function it models where Isabelle allows it; a
  handler is one function from the state to the state.  Code that may throw returns a result, whose left
  side is the message.  A method of the store is an action on the handle, which may fail at any statement
  because the driver refuses it; a transaction that fails is rolled back.  Concurrent parts (the live
  receiver, the workers of the concurrent map, shared loads, the run slot) are inductive step relations
  over whole callbacks, since the event loop runs a callback to its end.  Strings are texts over the code
  units 0 to 255; numbers that may be fractional are rationals, counts are integers or naturals.

  \<^bold>\<open>Parameters.\<close>  What is not code of the repository is an argument: the answers of the network, the clock,
  the time zone database, SQLite's \<open>julianday\<close>, the size it reports of a row and whether it refuses a
  statement, \<open>localeCompare\<close>, HMAC and SHA-256, \<open>JSON.parse\<close> of received bytes, \<open>new URL\<close>.  \<open>Date.parse\<close> is modelled on
  ISO texts with an offset and is \<open>NaN\<close> elsewhere.

  \<^bold>\<open>What the lemmas show.\<close>
  \<^item> Engine and store: nothing is deleted without a full, complete sweep; such a sweep leaves no unseen
    item alive; a failed run changes no content; every run keeps keys, references and the bounds cache; how
    the watermark moves; exactly what a run reports and publishes; the writer lease.  The locale \<^theory_text>\<open>table_invariant\<close> and those
    it extends lift a property of single statements to methods, transactions and runs, and are interpreted
    on each of these properties.
  \<^item> GitHub source: a sweep that calls itself complete has read and recorded every page; a watermark is returned
    only over what need not be read again; so the engine deletes only after every page was read.
  \<^item> Daemon: one run at a time, no change without the control header, a cadence that keeps its grid.
  \<^item> Clients: bounded traffic, no token used twice by a call, no data from a failed response, whatever the
    network and other calls do (locale \<^theory_text>\<open>token_attempt\<close>, interpreted on the GraphQL and the REST client).
  \<^item> Tracker tables: the contraction of gates is exact, and the edges are those the table states.
  \<^item> Contract: the configuration gate is exact, windows are closed under what their rows refer to, trackers are
    always shown, review comments survive the round trip through the store.
  \<^item> Queries: every open item asked for is shown in the bucket it belongs to, in order; a graph search finds the distances, keeps its limits, and a
    response marked complete leaves nothing out; shared loads answer their callers.
  \<^item> Live path: signatures, redaction, an append-only log with exact pages, a stream in which every subscriber
    sees each announced event once and in order or is told to start over (a delivery in which SQLite fails is
    announced to nobody), service to a subscriber that keeps up, and a snapshot whose pages reach every row.
  \<^item> Links: an address shown for an entity is the provider's own or a page of the configured host.
  \<^item> Shared interfaces: ordered maps (locale \<^theory_text>\<open>ordered_map\<close>), comparators of a stable sort (\<^theory_text>\<open>comparator\<close>, interpreted
    on every sort of the program) and webhook adapters (\<^theory_text>\<open>webhook_adapter\<close>).

  \<^bold>\<open>Bounds and termination.\<close>  Loops are recursive functions with a termination proof; the retries of the
  clients end because each attempt marks a token or uses up a retry.  The source's own bounds (pages, hops,
  rows, queue lengths) are definitions of the same name.  No definition runs on fuel that could be too small.

  \<^bold>\<open>Not modelled.\<close>  The normalizer of GitHub payloads (\<open>normalize\<close> of \<open>src/sources/github.ts\<close>), the
  GitLab source and the file lists of commits: to the engine a source is a record of functions, and its
  theorems hold of any such record.  The PostgreSQL driver,
  which states the same methods in another dialect.  Configuration files and credentials (\<open>src/config.ts\<close>,
  \<open>src/auth.ts\<close>), whose results are inputs of the runner and the daemon.  The set-up of the processes
  (\<open>src/cli\<close>), the handlers that only open the store and write an answer (\<open>src/server\<close>), repository metrics and
  the envelope of the contract, and the UI, the desktop and mobile shells, the scripts and the documentation.
\<close>

end
